(* ===== verification/Prelude.thy ===== *)
theory Prelude
  imports Main "HOL-Library.State_Monad" "HOL-Library.AList" "HOL-Library.Multiset"
    "HOL-Library.Product_Lexorder" "HOL-Library.Signed_Division"
begin

text \<open>
  Shared vocabulary of the development.

  \<^item> JavaScript's \<open>Map\<close> keeps insertion order: it is an association list with
    distinct keys, \<open>set\<close> is \<open>jset\<close>, \<open>get\<close> is \<open>map_of\<close>, \<open>delete\<close> is \<open>jdel\<close>.
  \<^item> \<open>Array.prototype.sort\<close> with a comparator is the stable insertion sort \<open>js_sort\<close>.
  \<^item> \<open>BigInt\<close> division truncates toward zero: the library's \<open>sdiv\<close>.
  \<^item> An \<open>async\<close> method is a computation of \<open>State_Monad\<close> over an explicit state; one
    that can throw returns a sum, \<open>Inl\<close> for the exception. A thrown exception keeps the
    mutations made before it, as it does in the source.
  \<^item> A weakest-precondition calculus \<open>wp\<close> for these computations and the predicate
    \<open>keeps\<close> (a computation preserves an invariant), with a rule for each construct.
\<close>

named_theorems wp_simps \<open>weakest preconditions, as rewrite rules\<close>
named_theorems keeps_intros \<open>invariant preservation, as introduction rules\<close>

section \<open>BigInt arithmetic\<close>

lemma sdiv_nonneg_eq [simp]: "0 \<le> a \<Longrightarrow> 0 < b \<Longrightarrow> a sdiv b = a div (b::int)"
  by (cases "a = 0") (auto simp: signed_divide_int_def)

lemma sdiv_nonneg: "0 \<le> a \<Longrightarrow> 0 < b \<Longrightarrow> 0 \<le> a sdiv (b::int)"
  by (simp add: pos_imp_zdiv_nonneg_iff)

lemma sdiv_mono:
  assumes "a \<le> b" "0 < (c::int)"
  shows "a sdiv c \<le> b sdiv c"
proof (cases "0 \<le> a")
  case True
  with assms show ?thesis by (simp add: zdiv_mono1)
next
  case neg: False
  then have a: "a sdiv c = - ((- a) div c)"
    using assms(2) by (simp add: signed_divide_int_def)
  show ?thesis
  proof (cases "0 \<le> b")
    case True
    have "0 \<le> (- a) div c"
      using neg assms(2) by (simp add: pos_imp_zdiv_nonneg_iff)
    moreover have "0 \<le> b sdiv c" using True assms(2) by (rule sdiv_nonneg)
    ultimately show ?thesis using a by linarith
  next
    case False
    then have "b sdiv c = - ((- b) div c)"
      using assms(2) by (simp add: signed_divide_int_def)
    moreover have "(- b) div c \<le> (- a) div c"
      using assms by (simp add: zdiv_mono1)
    ultimately show ?thesis using a by linarith
  qed
qed

lemma sdiv_pos_imp_pos: "0 < a sdiv (b::int) \<Longrightarrow> 0 < b \<Longrightarrow> 0 < a"
  by (metis div_0 less_le_not_le linorder_not_less order_refl sdiv_mono sdiv_nonneg_eq)

section \<open>JavaScript's Map\<close>

type_synonym ('k, 'v) jmap = "('k \<times> 'v) list"

definition jset :: "'k \<Rightarrow> 'v \<Rightarrow> ('k, 'v) jmap \<Rightarrow> ('k, 'v) jmap" where
  "jset k v m = AList.update k v m"

definition jdel :: "'k \<Rightarrow> ('k, 'v) jmap \<Rightarrow> ('k, 'v) jmap" where
  "jdel k m = filter (\<lambda>p. fst p \<noteq> k) m"

definition jkeys :: "('k, 'v) jmap \<Rightarrow> 'k list" where
  "jkeys m = map fst m"

text \<open>\<open>for (const k of m.keys()) if (\<not> keep k) m.delete(k)\<close>.\<close>

definition jkeep :: "('k \<Rightarrow> bool) \<Rightarrow> ('k, 'v) jmap \<Rightarrow> ('k, 'v) jmap" where
  "jkeep keep m = filter (\<lambda>p. keep (fst p)) m"

text \<open>\<open>m.get(k) ?? d\<close>.\<close>

definition jget_or :: "('k, 'v) jmap \<Rightarrow> 'k \<Rightarrow> 'v \<Rightarrow> 'v" where
  "jget_or m k d = (case map_of m k of None \<Rightarrow> d | Some v \<Rightarrow> v)"

lemma map_of_filter_key: "map_of (filter (\<lambda>p. P (fst p)) m) k = (if P k then map_of m k else None)"
  by (induction m) auto

lemma map_of_jset [simp]: "map_of (jset k v m) = (map_of m)(k \<mapsto> v)"
  by (simp add: jset_def update_conv')

lemma map_of_jdel [simp]: "map_of (jdel k m) = (map_of m)(k := None)"
  by (rule ext) (simp add: jdel_def map_of_filter_key [where P = "\<lambda>x. x \<noteq> k"])

lemma map_of_jkeep [simp]: "map_of (jkeep P m) k = (if P k then map_of m k else None)"
  by (simp add: jkeep_def map_of_filter_key)

lemma jkeys_jset:
  "jkeys (jset k v m) = (if k \<in> set (jkeys m) then jkeys m else jkeys m @ [k])"
  by (simp add: jset_def jkeys_def update_keys)

lemma jset_new: "k \<notin> set (jkeys m) \<Longrightarrow> jset k v m = m @ [(k, v)]"
  unfolding jset_def jkeys_def by (induction m) auto

lemma distinct_jset [simp]: "distinct (jkeys m) \<Longrightarrow> distinct (jkeys (jset k v m))"
  by (simp add: jkeys_jset)

lemma set_jkeys_jset [simp]: "set (jkeys (jset k v m)) = insert k (set (jkeys m))"
  by (auto simp: jkeys_jset)

lemma set_jkeys_iff: "k \<in> set (jkeys m) \<longleftrightarrow> map_of m k \<noteq> None"
  by (force simp: jkeys_def map_of_eq_None_iff)

lemma jget_or_jset [simp]: "jget_or (jset k v m) k' d = (if k' = k then v else jget_or m k' d)"
  by (simp add: jget_or_def)

lemma jget_or_jdel [simp]: "jget_or (jdel k m) k' d = (if k' = k then d else jget_or m k' d)"
  by (simp add: jget_or_def)

text \<open>A \<open>Set\<close> built by adding elements in order: insertion order, no duplicates.\<close>

definition sadd :: "'a \<Rightarrow> 'a list \<Rightarrow> 'a list" where
  "sadd x xs = (if x \<in> set xs then xs else xs @ [x])"

definition to_set :: "'a list \<Rightarrow> 'a list" where
  "to_set xs = fold sadd xs []"

lemma set_sadd [simp]: "set (sadd x xs) = insert x (set xs)"
  by (auto simp: sadd_def)

lemma distinct_sadd [simp]: "distinct xs \<Longrightarrow> distinct (sadd x xs)"
  by (auto simp: sadd_def)

lemma set_fold_sadd: "set (fold sadd xs ys) = set xs \<union> set ys"
  by (induction xs arbitrary: ys) auto

lemma distinct_fold_sadd: "distinct ys \<Longrightarrow> distinct (fold sadd xs ys)"
  by (induction xs arbitrary: ys) auto

lemma set_to_set [simp]: "set (to_set xs) = set xs"
  by (simp add: to_set_def set_fold_sadd)

lemma distinct_to_set [simp]: "distinct (to_set xs)"
  by (simp add: to_set_def distinct_fold_sadd)

text \<open>
  Grouping into a \<open>Map\<close> of arrays: \<open>const l = m.get(k); if (l) l.push(x); else m.set(k, [x])\<close>.
\<close>

definition jpush :: "'k \<Rightarrow> 'a \<Rightarrow> ('k, 'a list) jmap \<Rightarrow> ('k, 'a list) jmap" where
  "jpush k x m = jset k (jget_or m k [] @ [x]) m"

definition group_on :: "('a \<Rightarrow> 'k) \<Rightarrow> 'a list \<Rightarrow> ('k, 'a list) jmap" where
  "group_on key xs = fold (\<lambda>x. jpush (key x) x) xs []"

lemma group_on_snoc: "group_on key (xs @ [x]) = jpush (key x) x (group_on key xs)"
  by (simp add: group_on_def)

lemma map_of_group_on:
  "map_of (group_on key xs) k =
     (if k \<in> key ` set xs then Some (filter (\<lambda>x. key x = k) xs) else None)"
proof (induction xs rule: rev_induct)
  case Nil
  then show ?case by (simp add: group_on_def)
next
  case (snoc x xs)
  then show ?case
    by (auto simp: group_on_snoc jpush_def jget_or_def filter_empty_conv intro!: filter_False [symmetric])
      (metis imageI)
qed

lemma set_jkeys_group_on: "set (jkeys (group_on key xs)) = key ` set xs"
  by (auto simp: set_jkeys_iff map_of_group_on split: if_splits)

lemma distinct_group_on: "distinct (jkeys (group_on key xs))"
  by (induction xs rule: rev_induct) (auto simp: group_on_snoc jpush_def group_on_def jkeys_def [of "[]"])

lemma in_group_on:
  "(k, ys) \<in> set (group_on key xs) \<longleftrightarrow> k \<in> key ` set xs \<and> ys = filter (\<lambda>x. key x = k) xs"
proof -
  have "distinct (map fst (group_on key xs))"
    using distinct_group_on [of key xs] by (simp add: jkeys_def)
  from map_of_eq_Some_iff [OF this, of k ys, symmetric] show ?thesis
    by (auto simp: map_of_group_on)
qed

lemma fold_skip: "fold (\<lambda>x. if P x then f x else (\<lambda>m. m)) xs m = fold f (filter P xs) m"
  by (induction xs arbitrary: m) auto

section \<open>Array.prototype.sort with a comparator\<close>

fun js_insert :: "('a \<Rightarrow> 'a \<Rightarrow> int) \<Rightarrow> 'a \<Rightarrow> 'a list \<Rightarrow> 'a list" where
  "js_insert cmp x [] = [x]"
| "js_insert cmp x (y # ys) = (if cmp x y \<le> 0 then x # y # ys else y # js_insert cmp x ys)"

definition js_sort :: "('a \<Rightarrow> 'a \<Rightarrow> int) \<Rightarrow> 'a list \<Rightarrow> 'a list" where
  "js_sort cmp xs = foldr (js_insert cmp) xs []"

lemma mset_js_insert [simp]: "mset (js_insert cmp x xs) = add_mset x (mset xs)"
  by (induction xs) auto

lemma mset_js_sort [simp]: "mset (js_sort cmp xs) = mset xs"
  by (induction xs) (auto simp: js_sort_def)

lemma set_js_sort [simp]: "set (js_sort cmp xs) = set xs"
  using mset_js_sort [of cmp xs] by (rule mset_eq_setD)

lemma length_js_sort [simp]: "length (js_sort cmp xs) = length xs"
  using mset_js_sort [of cmp xs] by (rule mset_eq_length)

text \<open>
  The contract between a comparator and the sort: on elements with different keys the
  comparator orders by the key. (A comparator that never answers 0 is not an order on equal
  elements; the sort's result is determined as soon as the keys are distinct.)
\<close>

locale comparator =
  fixes cmp :: "'a \<Rightarrow> 'a \<Rightarrow> int" and key :: "'a \<Rightarrow> 'k::linorder"
  assumes cmp_key: "key a \<noteq> key b \<Longrightarrow> cmp a b \<le> 0 \<longleftrightarrow> key a < key b"
begin

lemma js_insert_insort:
  "key x \<notin> key ` set xs \<Longrightarrow> js_insert cmp x xs = insort_key key x xs"
  by (induction xs) (auto simp: cmp_key)

lemma js_sort_eq_sort_key:
  assumes "distinct (map key xs)"
  shows "js_sort cmp xs = sort_key key xs"
  using assms
proof (induction xs)
  case Nil
  then show ?case by (simp add: js_sort_def)
next
  case (Cons x xs)
  then have "js_sort cmp (x # xs) = js_insert cmp x (sort_key key xs)"
    by (simp add: js_sort_def)
  also have "\<dots> = insort_key key x (sort_key key xs)"
    using Cons.prems by (intro js_insert_insort) auto
  finally show ?case by simp
qed

lemma js_insert_sorted:
  "sorted (map key xs) \<Longrightarrow> sorted (map key (js_insert cmp x xs))"
proof (induction xs)
  case (Cons y ys)
  have "key x \<le> key y" if "cmp x y \<le> 0"
    using that cmp_key [of x y] by (cases "key x = key y") auto
  moreover have "key y \<le> key x" if "\<not> cmp x y \<le> 0"
    using that cmp_key [of x y] by (cases "key x = key y") auto
  moreover have "set (js_insert cmp x ys) = insert x (set ys)"
    using mset_js_insert [of cmp x ys] by (metis set_mset_add_mset_insert set_mset_mset)
  ultimately show ?case using Cons by auto
qed simp

lemma js_sort_sorted: "sorted (map key (js_sort cmp xs))"
  by (induction xs) (simp_all add: js_sort_def js_insert_sorted)

text \<open>The first element of the sorted array is a smallest one.\<close>

lemma js_sort_first:
  assumes "xs \<noteq> []"
  shows "js_sort cmp xs ! 0 \<in> set xs" "x \<in> set xs \<Longrightarrow> key (js_sort cmp xs ! 0) \<le> key x"
proof -
  have ne: "js_sort cmp xs \<noteq> []" using assms length_js_sort [of cmp xs] by (metis length_0_conv)
  then show "js_sort cmp xs ! 0 \<in> set xs" using set_js_sort [of cmp xs] nth_mem by fastforce
  assume "x \<in> set xs"
  then have "x \<in> set (js_sort cmp xs)" by simp
  then show "key (js_sort cmp xs ! 0) \<le> key x"
    using js_sort_sorted [of xs] ne by (cases "js_sort cmp xs") auto
qed

end

section \<open>Computations with state and exceptions\<close>

type_synonym ('s, 'a) prog = "('s, 'a) state"
type_synonym ('s, 'e, 'a) eprog = "('s, 'e + 'a) state"

abbreviation ret :: "'a \<Rightarrow> ('s, 'a) prog" where
  "ret \<equiv> State_Monad.return"

abbreviation skip :: "('s, unit) prog" where
  "skip \<equiv> State_Monad.return ()"

definition gets :: "('s \<Rightarrow> 'a) \<Rightarrow> ('s, 'a) prog" where
  "gets f = State_Monad.bind State_Monad.get (\<lambda>s. State_Monad.return (f s))"

abbreviation modify :: "('s \<Rightarrow> 's) \<Rightarrow> ('s, unit) prog" where
  "modify \<equiv> State_Monad.update"

definition throw :: "'e \<Rightarrow> ('s, 'e, 'a) eprog" where
  "throw e = State_Monad.return (Inl e)"

definition okay :: "'a \<Rightarrow> ('s, 'e, 'a) eprog" where
  "okay a = State_Monad.return (Inr a)"

definition lift :: "('s, 'a) prog \<Rightarrow> ('s, 'e, 'a) eprog" where
  "lift m = do { a \<leftarrow> m; okay a }"

definition bindE :: "('s, 'e, 'a) eprog \<Rightarrow> ('a \<Rightarrow> ('s, 'e, 'b) eprog) \<Rightarrow> ('s, 'e, 'b) eprog" where
  "bindE m k = do { r \<leftarrow> m; case r of Inl e \<Rightarrow> throw e | Inr a \<Rightarrow> k a }"

definition catch :: "('s, 'e, 'a) eprog \<Rightarrow> ('e \<Rightarrow> ('s, 'a) prog) \<Rightarrow> ('s, 'a) prog" where
  "catch m h = do { r \<leftarrow> m; case r of Inl e \<Rightarrow> h e | Inr a \<Rightarrow> State_Monad.return a }"

text \<open>\<open>for (const x of xs) body(x)\<close>; a \<open>continue\<close> is the body returning early.\<close>

primrec for_each :: "'a list \<Rightarrow> ('a \<Rightarrow> ('s, unit) prog) \<Rightarrow> ('s, unit) prog" where
  "for_each [] body = State_Monad.return ()"
| "for_each (x # xs) body = do { body x; for_each xs body }"

text \<open>A loop whose body answers whether to go on: \<open>False\<close> is a \<open>break\<close> or a \<open>return\<close>.\<close>

primrec for_while :: "'a list \<Rightarrow> ('a \<Rightarrow> ('s, bool) prog) \<Rightarrow> ('s, unit) prog" where
  "for_while [] body = State_Monad.return ()"
| "for_while (x # xs) body =
     do { go \<leftarrow> body x; if go then for_while xs body else State_Monad.return () }"

text \<open>A loop whose body can throw: the exception leaves the loop.\<close>

primrec for_eachE :: "'a list \<Rightarrow> ('a \<Rightarrow> ('s, 'e, unit) eprog) \<Rightarrow> ('s, 'e, unit) eprog" where
  "for_eachE [] body = okay ()"
| "for_eachE (x # xs) body = bindE (body x) (\<lambda>_. for_eachE xs body)"

section \<open>Weakest preconditions\<close>

definition wp :: "('s, 'a) prog \<Rightarrow> ('a \<Rightarrow> 's \<Rightarrow> bool) \<Rightarrow> 's \<Rightarrow> bool" where
  "wp m Q s = (case run_state m s of (a, s') \<Rightarrow> Q a s')"

lemma wp_return [simp, wp_simps]: "wp (State_Monad.return a) Q s = Q a s"
  by (simp add: wp_def)

lemma wp_bind [simp, wp_simps]: "wp (State_Monad.bind m k) Q s = wp m (\<lambda>a. wp (k a) Q) s"
  by (simp add: wp_def split: prod.split)

lemma wp_get [simp, wp_simps]: "wp State_Monad.get Q s = Q s s"
  by (simp add: wp_def)

lemma wp_gets [simp, wp_simps]: "wp (gets f) Q s = Q (f s) s"
  by (simp add: gets_def)

lemma wp_update [simp, wp_simps]: "wp (State_Monad.update f) Q s = Q () (f s)"
  by (simp add: wp_def State_Monad.update_def)

lemma wp_throw [simp, wp_simps]: "wp (throw e) Q s = Q (Inl e) s"
  by (simp add: throw_def)

lemma wp_okay [simp, wp_simps]: "wp (okay a) Q s = Q (Inr a) s"
  by (simp add: okay_def)

lemma wp_lift [simp, wp_simps]: "wp (lift m) Q s = wp m (\<lambda>a. Q (Inr a)) s"
  by (simp add: lift_def okay_def wp_def split: prod.split)

lemma wp_if [wp_simps]: "wp (if b then m else n) Q s = (if b then wp m Q s else wp n Q s)"
  by simp

lemma wp_mono: "wp m Q s \<Longrightarrow> (\<And>a t. Q a t \<Longrightarrow> R a t) \<Longrightarrow> wp m R s"
  by (auto simp: wp_def split: prod.splits)

lemma wp_conj: "wp m (\<lambda>a t. Q a t \<and> R a t) s = (wp m Q s \<and> wp m R s)"
  by (auto simp: wp_def split: prod.splits)

lemma wp_run: "wp m Q s \<Longrightarrow> Q (fst (run_state m s)) (snd (run_state m s))"
  by (auto simp: wp_def split: prod.splits)

lemma wp_runI: "Q (fst (run_state m s)) (snd (run_state m s)) \<Longrightarrow> wp m Q s"
  by (auto simp: wp_def split: prod.splits)

lemma wp_eq_run: "wp m Q s \<longleftrightarrow> Q (fst (run_state m s)) (snd (run_state m s))"
  by (auto simp: wp_def split: prod.splits)

lemma wp_any: "(\<And>a t. Q a t) \<Longrightarrow> wp m Q s"
  by (simp add: wp_eq_run)

section \<open>Relations a computation keeps\<close>

text \<open>
  \<open>keeps R m\<close>: every run of \<open>m\<close> from \<open>s\<close> to \<open>t\<close> satisfies \<open>R s t\<close>. For a reflexive and
  transitive \<open>R\<close> (a preorder: histories only grow, counters only rise, a field is unchanged)
  it is closed under every construct of the monad, so a whole method is proved by applying the
  rules of \<open>keeps_intros\<close>.
\<close>

definition keeps :: "('s \<Rightarrow> 's \<Rightarrow> bool) \<Rightarrow> ('s, 'a) prog \<Rightarrow> bool" where
  "keeps R m \<longleftrightarrow> (\<forall>s. wp m (\<lambda>_. R s) s)"

lemma keepsD: "keeps R m \<Longrightarrow> wp m (\<lambda>_. R s) s"
  by (simp add: keeps_def)

lemma keeps_run: "keeps R m \<Longrightarrow> R s (snd (run_state m s))"
  by (simp add: keeps_def wp_def split: prod.splits) (metis prod.collapse)

lemma keepsI: "(\<And>s. wp m (\<lambda>_. R s) s) \<Longrightarrow> keeps R m"
  by (simp add: keeps_def)

lemma keeps_get [keeps_intros]: "reflp R \<Longrightarrow> keeps R State_Monad.get"
  by (simp add: keeps_def reflp_def)

lemma keeps_gets [keeps_intros]: "reflp R \<Longrightarrow> keeps R (gets f)"
  by (simp add: keeps_def reflp_def)

lemma keeps_return [keeps_intros]: "reflp R \<Longrightarrow> keeps R (State_Monad.return a)"
  by (simp add: keeps_def reflp_def)

lemma keeps_throw [keeps_intros]: "reflp R \<Longrightarrow> keeps R (throw e)"
  by (simp add: keeps_def reflp_def)

lemma keeps_okay [keeps_intros]: "reflp R \<Longrightarrow> keeps R (okay e)"
  by (simp add: keeps_def reflp_def)

lemma keeps_update: "(\<And>s. R s (f s)) \<Longrightarrow> keeps R (State_Monad.update f)"
  by (simp add: keeps_def)

lemma keeps_bind [keeps_intros]:
  "transp R \<Longrightarrow> keeps R m \<Longrightarrow> (\<And>a. keeps R (k a)) \<Longrightarrow> keeps R (State_Monad.bind m k)"
  unfolding keeps_def wp_eq_run transp_def
  by (auto split: prod.splits) (metis fst_conv snd_conv)

lemma keeps_bind_post:
  assumes "transp R" "keeps R m" "\<And>s. wp m (\<lambda>a _. P a) s" "\<And>a. P a \<Longrightarrow> keeps R (k a)"
  shows "keeps R (State_Monad.bind m k)"
proof (rule keepsI)
  fix s
  have "wp m (\<lambda>a t. R s t \<and> P a) s"
    using keepsD [OF assms(2), of s] assms(3) by (simp add: wp_conj)
  then show "wp (State_Monad.bind m k) (\<lambda>_. R s) s"
    unfolding wp_bind
  proof (rule wp_mono)
    fix a t
    assume "R s t \<and> P a"
    then show "wp (k a) (\<lambda>_. R s) t"
      using assms(1) wp_mono [OF keepsD [OF assms(4)]] by (metis transpE)
  qed
qed

lemma keeps_lift [keeps_intros]: "transp R \<Longrightarrow> reflp R \<Longrightarrow> keeps R m \<Longrightarrow> keeps R (lift m)"
  by (simp add: lift_def keeps_bind keeps_okay)

lemma keeps_bindE [keeps_intros]:
  "transp R \<Longrightarrow> reflp R \<Longrightarrow> keeps R m \<Longrightarrow> (\<And>a. keeps R (k a)) \<Longrightarrow> keeps R (bindE m k)"
  by (auto simp: bindE_def intro!: keeps_bind split: sum.split intro: keeps_throw)

lemma keeps_catch [keeps_intros]:
  "transp R \<Longrightarrow> reflp R \<Longrightarrow> keeps R m \<Longrightarrow> (\<And>a. keeps R (h a)) \<Longrightarrow> keeps R (catch m h)"
  by (auto simp: catch_def intro!: keeps_bind split: sum.split intro: keeps_return)

lemma keeps_if [keeps_intros]:
  "(b \<Longrightarrow> keeps R m) \<Longrightarrow> (\<not> b \<Longrightarrow> keeps R n) \<Longrightarrow> keeps R (if b then m else n)"
  by simp

lemma keeps_case_option [keeps_intros]:
  "(x = None \<Longrightarrow> keeps R m) \<Longrightarrow> (\<And>a. x = Some a \<Longrightarrow> keeps R (n a)) \<Longrightarrow>
   keeps R (case x of None \<Rightarrow> m | Some a \<Rightarrow> n a)"
  by (cases x) auto

lemma keeps_case_sum [keeps_intros]:
  "(\<And>a. x = Inl a \<Longrightarrow> keeps R (m a)) \<Longrightarrow> (\<And>a. x = Inr a \<Longrightarrow> keeps R (n a)) \<Longrightarrow>
   keeps R (case x of Inl a \<Rightarrow> m a | Inr a \<Rightarrow> n a)"
  by (cases x) auto

lemma keeps_case_prod [keeps_intros]:
  "(\<And>a b. x = (a, b) \<Longrightarrow> keeps R (m a b)) \<Longrightarrow> keeps R (case x of (a, b) \<Rightarrow> m a b)"
  by (cases x) auto

lemma keeps_let [keeps_intros]: "keeps R (m x) \<Longrightarrow> keeps R (let y = x in m y)"
  by simp

lemma keeps_for_each [keeps_intros]:
  "transp R \<Longrightarrow> reflp R \<Longrightarrow> (\<And>x. x \<in> set xs \<Longrightarrow> keeps R (body x)) \<Longrightarrow> keeps R (for_each xs body)"
  by (induction xs) (auto intro: keeps_return keeps_bind)

lemma keeps_for_while [keeps_intros]:
  "transp R \<Longrightarrow> reflp R \<Longrightarrow> (\<And>x. x \<in> set xs \<Longrightarrow> keeps R (body x)) \<Longrightarrow> keeps R (for_while xs body)"
  by (induction xs) (auto intro!: keeps_return keeps_bind)

lemma keeps_for_eachE [keeps_intros]:
  "transp R \<Longrightarrow> reflp R \<Longrightarrow> (\<And>x. x \<in> set xs \<Longrightarrow> keeps R (body x)) \<Longrightarrow> keeps R (for_eachE xs body)"
  by (induction xs) (auto intro: keeps_okay keeps_bindE)

lemma keepsW: "keeps R m \<Longrightarrow> (\<And>a t. R s t \<Longrightarrow> Q a t) \<Longrightarrow> wp m Q s"
  by (auto simp: keeps_def intro: wp_mono)

text \<open>Hoare triples, for postconditions that speak about the result.\<close>

definition triple :: "('s \<Rightarrow> bool) \<Rightarrow> ('s, 'a) prog \<Rightarrow> ('a \<Rightarrow> 's \<Rightarrow> bool) \<Rightarrow> bool" where
  "triple P m Q \<longleftrightarrow> (\<forall>s. P s \<longrightarrow> wp m Q s)"

lemma tripleI: "(\<And>s. P s \<Longrightarrow> wp m Q s) \<Longrightarrow> triple P m Q"
  by (simp add: triple_def)

lemma tripleD: "triple P m Q \<Longrightarrow> P s \<Longrightarrow> wp m Q s"
  by (simp add: triple_def)

lemma triple_bind:
  "triple P m Q \<Longrightarrow> (\<And>a. triple (Q a) (k a) R) \<Longrightarrow> triple P (State_Monad.bind m k) R"
  unfolding triple_def wp_bind by (blast intro: wp_mono)

lemma triple_conseq:
  "triple P m Q \<Longrightarrow> (\<And>s. P' s \<Longrightarrow> P s) \<Longrightarrow> (\<And>a s. Q a s \<Longrightarrow> Q' a s) \<Longrightarrow> triple P' m Q'"
  unfolding triple_def by (blast intro: wp_mono)

lemma triple_catch:
  assumes "triple P m (\<lambda>r s. case r of Inl e \<Rightarrow> H e s | Inr a \<Rightarrow> Q a s)"
    and "\<And>e. triple (H e) (h e) Q"
  shows "triple P (catch m h) Q"
  unfolding catch_def
  by (rule triple_bind [OF assms(1)]) (auto simp: triple_def split: sum.splits dest: tripleD [OF assms(2)])

lemma wp_bindE:
  "wp (bindE m k) Q s = wp m (\<lambda>r. case r of Inl e \<Rightarrow> Q (Inl e) | Inr a \<Rightarrow> wp (k a) Q) s"
  unfolding bindE_def wp_bind
  by (rule arg_cong [where f = "\<lambda>X. wp m X s"]) (auto simp: fun_eq_iff split: sum.split)

lemma wp_catch:
  "wp (catch m h) Q s = wp m (\<lambda>r. case r of Inl e \<Rightarrow> wp (h e) Q | Inr a \<Rightarrow> Q a) s"
  unfolding catch_def wp_bind
  by (rule arg_cong [where f = "\<lambda>X. wp m X s"]) (auto simp: fun_eq_iff split: sum.split)

lemma triple_bindE:
  assumes "triple P m Q" "\<And>a. triple (Q (Inr a)) (k a) R" "\<And>e s. Q (Inl e) s \<Longrightarrow> R (Inl e) s"
  shows "triple P (bindE m k) R"
  unfolding triple_def wp_bindE
proof (intro allI impI)
  fix s
  assume "P s"
  with assms(1) have "wp m Q s" by (rule tripleD)
  then show "wp m (\<lambda>r. case r of Inl e \<Rightarrow> R (Inl e) | Inr a \<Rightarrow> wp (k a) R) s"
  proof (rule wp_mono)
    fix r t
    assume "Q r t"
    then show "(case r of Inl e \<Rightarrow> R (Inl e) | Inr a \<Rightarrow> wp (k a) R) t"
      using assms(2,3) by (cases r) (auto dest: tripleD)
  qed
qed

lemma triple_lift: "triple P m Q \<Longrightarrow> triple P (lift m) (\<lambda>r s. \<exists>a. r = Inr a \<and> Q a s)"
  by (auto simp: triple_def elim: wp_mono)

text \<open>An invariant of states is the relation \<open>inv_rel I\<close>, which is a preorder.\<close>

definition inv_rel :: "('s \<Rightarrow> bool) \<Rightarrow> 's \<Rightarrow> 's \<Rightarrow> bool" where
  "inv_rel I s t \<longleftrightarrow> (I s \<longrightarrow> I t)"

lemma inv_rel_refl [simp, intro]: "reflp (inv_rel I)"
  by (simp add: reflp_def inv_rel_def)

lemma inv_rel_trans [simp, intro]: "transp (inv_rel I)"
  by (auto simp: transp_def inv_rel_def)

lemma keeps_inv_iff: "keeps (inv_rel I) m \<longleftrightarrow> triple I m (\<lambda>_. I)"
  by (simp add: keeps_def triple_def inv_rel_def wp_eq_run)

lemma triple_for_each:
  "(\<And>x. x \<in> set xs \<Longrightarrow> triple I (body x) (\<lambda>_. I)) \<Longrightarrow> triple I (for_each xs body) (\<lambda>_. I)"
  unfolding keeps_inv_iff [symmetric] by (rule keeps_for_each) auto

lemma triple_for_while:
  "(\<And>x. x \<in> set xs \<Longrightarrow> triple I (body x) (\<lambda>_. I)) \<Longrightarrow> triple I (for_while xs body) (\<lambda>_. I)"
  unfolding keeps_inv_iff [symmetric] by (rule keeps_for_while) auto

text \<open>What one iteration establishes and every iteration keeps holds after the loop.\<close>

lemma for_each_append:
  "for_each (xs @ ys) body = State_Monad.bind (for_each xs body) (\<lambda>_. for_each ys body)"
  by (induction xs) simp_all

lemma for_each_establishes:
  assumes "x \<in> set xs" and est: "\<And>s. wp (body x) (\<lambda>_. P) s"
    and kp: "\<And>y. y \<in> set xs \<Longrightarrow> keeps (inv_rel P) (body y)"
  shows "wp (for_each xs body) (\<lambda>_. P) s"
proof -
  obtain as bs where xs: "xs = as @ x # bs" using assms(1) by (auto dest: split_list)
  have "triple P (for_each bs body) (\<lambda>_. P)"
    using kp xs by (intro triple_for_each) (simp add: keeps_inv_iff [symmetric])
  then have "wp (for_each (x # bs) body) (\<lambda>_. P) t" for t
    using wp_mono [OF est [of t]] by (simp add: tripleD)
  then have "wp (for_each as body) (\<lambda>_. wp (for_each (x # bs) body) (\<lambda>_. P)) s"
    by (subst wp_eq_run)
  then show ?thesis by (simp only: xs for_each_append wp_bind)
qed

lemma keeps_mono: "keeps R m \<Longrightarrow> (\<And>s t. R s t \<Longrightarrow> S s t) \<Longrightarrow> keeps S m"
  unfolding keeps_def by (meson wp_mono)

section \<open>Computations on a part of the state\<close>

definition zoom :: "('s \<Rightarrow> 't) \<Rightarrow> ('t \<Rightarrow> 's \<Rightarrow> 's) \<Rightarrow> ('t, 'a) prog \<Rightarrow> ('s, 'a) prog" where
  "zoom part put m = State (\<lambda>s. case run_state m (part s) of (a, t) \<Rightarrow> (a, put t s))"

lemma wp_zoom [simp, wp_simps]: "wp (zoom part put m) Q s = wp m (\<lambda>a t. Q a (put t s)) (part s)"
  by (simp add: zoom_def wp_def split: prod.split)

lemma map_filter_append: "List.map_filter f (xs @ ys) = List.map_filter f xs @ List.map_filter f ys"
  by (simp add: List.map_filter_def)

end
