(* ===== verification/KeeperTypes.thy ===== *)
theory KeeperTypes
  imports Prelude
begin

text \<open>
  The data types of \<open>scripts/keeper/src/types.ts\<close>. \<open>bigint\<close> is \<open>int\<close>. A \<open>number\<close> that the
  code uses as an integer (ids of enums, basis points, millisecond times) is \<open>int\<close> too.
  TypeScript's structural subtyping (\<open>HealthPosition\<close>, \<open>AdlPosition\<close>, \<open>Position\<close>) is record
  extension, so the health functions apply to every extension. Field names are prefixed
  with the type's letter because the source reuses them across types.
\<close>

type_synonym asset = string
type_synonym address = string

datatype direction = Long | Short

datatype order_type = LimitEntry | StopLoss | TakeProfit | StopLimit | TrailingStop

datatype order_status = Pending | Executed | Cancelled | CancelledSlippage | Expired

datatype trigger_condition = Above | Below

record health_position =
  p_asset :: asset
  p_collateral :: int
  p_size :: int
  p_entry_price :: int
  p_direction :: direction
  p_liquidation_price :: int

record adl_position = health_position +
  p_id :: nat
  p_leverage :: int

record position = adl_position +
  p_trader :: address
  p_timestamp :: nat
  p_entry_cumulative_funding :: int
  p_margin_mode :: nat

record order =
  o_id :: nat
  o_trader :: address
  o_asset :: asset
  o_order_type :: order_type
  o_direction :: direction
  o_collateral :: int
  o_leverage :: int
  o_trigger_price :: int
  o_trigger_condition :: trigger_condition
  o_slippage_tolerance_bps :: int
  o_position_id :: nat
  o_has_position :: bool
  o_created_at :: nat
  o_status :: order_status
  o_limit_price :: int
  o_trailing_percent_bps :: int
  o_time_in_force :: nat
  o_stop_limit_phase :: nat

record market_snapshot =
  snap_positions :: "position list"
  snap_orders :: "order list"

text \<open>
  \<open>ExecutionResult\<close>: every optional field is an option; the optional flag
  \<open>indeterminate\<close> is only ever tested for truth, so an absent flag is \<open>False\<close>.
\<close>

record execution_result =
  success :: bool
  txHash :: "string option"
  reward :: "int option"
  error :: "string option"
  indeterminate :: bool

text \<open>\<open>SimulationOutcome\<close>: the return value is only ever compared with a boolean.\<close>

datatype sim_retval = RetTrue | RetFalse | RetOther

datatype simulation_outcome = SimOk sim_retval | SimErr string

datatype funding_outcome = Applied | NotDue | Failed

datatype discovery_mode = Legacy | Shadow | ChainWalk

record entity_walk_state =
  watermark :: nat
  live :: "nat list"

record discovery_state =
  ds_positions :: entity_walk_state
  ds_orders :: entity_walk_state

end
