(* ===== verification/KeeperState.thy ===== *)
theory KeeperState
  imports Complex_Main KeeperTypes
begin

text \<open>
  The keeper's state (the private fields of \<open>KeeperBot\<close> in \<open>scripts/keeper/src/index.ts\<close>
  and the module-level maps of the modules it uses), its configuration, and its environment.

  Everything outside the process is the environment: RPC servers, the attestation service,
  the reference ticker, webhooks, the clock. Each interaction is an \<open>event\<close> that carries the
  reply it got; the history of a run is the list of its events, newest first. The environment
  \<open>env\<close> is a parameter of the model: for each kind of interaction, a function from the history
  so far and the request to the reply. Nothing is assumed of it, so every theorem holds for every
  behaviour of the chain and the network. A reply of sum type is \<open>Inl\<close> when the call throws.

  A JavaScript \<open>number\<close> that holds a price or a percentage is a rational (\<open>jsnum\<close> where
  the code itself tests \<open>isFinite\<close>): IEEE rounding is not modelled.
\<close>

datatype jsnum = Num rat | NotANumber | PosInfinity | NegInfinity

fun isFinite :: "jsnum \<Rightarrow> bool" where
  "isFinite (Num _) = True"
| "isFinite _ = False"

text \<open>The fields of the attestation SDK's \<open>Attestation\<close> that the keeper and its client read.\<close>

record attestation =
  a_asset :: string
  a_price :: int
  a_price_human :: jsnum
  a_round_id :: nat
  a_timestamp :: nat
  a_publisher :: string
  a_signature :: string
  a_message :: string

record price_data =
  pd_price :: rat
  pd_priceScaled :: int
  pd_timestamp :: int

record asset_config =
  ac_symbol :: asset
  ac_maxMovePct :: rat
  ac_minPrice :: rat
  ac_maxPrice :: rat

datatype level = Info | Warn | Critical

text \<open>The router entry points the keeper can route executions through.\<close>

datatype router_fn = ExecuteWithPrice | LiquidateWithPrice | AdlWithPrice | LiquidateCrossWithPrices

text \<open>Simulations of write entry points, submissions, and reads, by the client method that makes them.\<close>

datatype sim_call =
    SimLiquidate nat
  | SimExecuteOrder nat
  | SimRouterExecute nat asset attestation
  | SimCheckAdlTrigger asset
  | SimUpdateTrailingPeak nat

datatype write_call =
    Liquidate nat
  | LiquidateViaRouter nat asset attestation
  | LiquidateCrossAccount address
  | LiquidateCrossViaRouter address "(asset \<times> attestation) list"
  | ExecuteOrder nat
  | ExecuteOrderViaRouter nat asset attestation
  | ReconcileOrder nat nat
  | CheckAdlTrigger asset
  | AdlClose nat
  | AdlCloseViaRouter nat asset attestation
  | UpdateTrailingPeak nat
  | ApplyFunding
  | SyncAssetPnl asset
  | PublishBatch "attestation list"

datatype int_read = CrossMarginBalance address | VaultCoverage | UsdcBalance

datatype event =
    Simulated sim_call "string + simulation_outcome"
  | Submitted write_call "string + execution_result"
  | ReadInt int_read "string + int"
  | ReadAdlActive asset "string + bool"
  | ReadAssetRisk asset "string + int option"
  | ReadOrderVault nat "string + nat option"
  | ReadPosition nat "string + position option"
  | ReadOrder nat "string + order option"
  | ReadPositionIds "string + nat list"
  | ReadOrderIds "string + nat list"
  | ReadControl "string + (nat option \<times> nat option) \<times> (nat option \<times> nat option)"
  | ReadPositionEntries "nat list" "string + nat list"
  | ReadOrderEntries "nat list" "string + (nat \<times> int) list"
  | FetchedRounds "string + attestation list"
  | ReadReference asset "rat option"
  | ReadStork asset "rat option"
  | ReadXlm "rat option"
  | BumpedTtl string bool
  | Alerted level string
  | Heartbeat "asset list"
  | SavedState
  | Slept int

type_synonym history = "event list"

record env =
  e_clock :: "history \<Rightarrow> int"
  e_simulate :: "history \<Rightarrow> sim_call \<Rightarrow> string + simulation_outcome"
  e_submit :: "history \<Rightarrow> write_call \<Rightarrow> string + execution_result"
  e_readInt :: "history \<Rightarrow> int_read \<Rightarrow> string + int"
  e_adlActive :: "history \<Rightarrow> asset \<Rightarrow> string + bool"
  e_assetRisk :: "history \<Rightarrow> asset \<Rightarrow> string + int option"
  e_orderVault :: "history \<Rightarrow> nat \<Rightarrow> string + nat option"
  e_position :: "history \<Rightarrow> nat \<Rightarrow> string + position option"
  e_order :: "history \<Rightarrow> nat \<Rightarrow> string + order option"
  e_positionIds :: "history \<Rightarrow> string + nat list"
  e_orderIds :: "history \<Rightarrow> string + nat list"
  e_control :: "history \<Rightarrow> string + (nat option \<times> nat option) \<times> (nat option \<times> nat option)"
  e_positionEntries :: "history \<Rightarrow> nat list \<Rightarrow> string + nat list"
  e_orderEntries :: "history \<Rightarrow> nat list \<Rightarrow> string + (nat \<times> int) list"
  e_rounds :: "history \<Rightarrow> string + attestation list"
  e_reference :: "history \<Rightarrow> asset \<Rightarrow> rat option"
  e_stork :: "history \<Rightarrow> asset \<Rightarrow> rat option"
  e_xlm :: "history \<Rightarrow> rat option"
  e_bumpTtl :: "history \<Rightarrow> string \<Rightarrow> bool"

record keeper_config =
  routerContractId :: string
  vaultFactoryContractId :: string
  usdcTokenContractId :: string
  assets :: "asset_config list"
  discoveryMode :: discovery_mode
  oracleUpdateIntervalMs :: int
  triggerConfirmReads :: nat
  spikeAlertPct :: rat
  referenceDivergencePct :: rat
  storkMaxDivergencePct :: rat
  adlTriggerRatioBps :: int
  adlClearRatioBps :: int
  adlMaxClosesPerCycle :: nat
  adlCheckIntervalMs :: int
  triggeredStuckAlertCycles :: nat
  ttlBumpIntervalMs :: int
  minKeeperXlm :: rat
  ttlContractIds :: "(string \<times> string) list"
  alertErrorStreak :: nat
  watchdogTimeoutMs :: int

record keeper_stats =
  oracleUpdates :: nat
  liquidationsExecuted :: nat
  ordersExecuted :: nat
  ordersCancelledSlippage :: nat
  ordersSkippedOrphaned :: nat
  totalRewardsEarned :: int
  errors :: nat
  priceSkips :: nat
  readFailures :: nat
  syncPnlPushes :: nat
  trailingPeakUpdates :: nat
  fundingApplications :: nat
  adlCloses :: nat
  adlFlagFlips :: nat
  ordersReconciled :: nat
  routerExecutions :: nat
  storkRelays :: nat

record custody_report =
  marketUsdcBalance :: int
  trackedCustody :: int
  isolatedCollateral :: int
  crossBalances :: int
  orderEscrow :: int
  deficit :: int
  cr_positions :: nat
  asOf :: int

datatype strike_key = Iso nat | Cross address

type_synonym log_key = "string \<times> nat \<times> string"

record keeper =
  hist :: history
  stats :: keeper_stats
  \<comment> \<open>prices and the oracle phase\<close>
  currentPrices :: "(asset, price_data) jmap"
  lastPushedPrices :: "(asset, price_data) jmap"
  lastOracleUpdate :: int
  oracleUpdateInProgress :: bool
  latestRounds :: "(asset, attestation \<times> int) jmap"
  spikeAlertAt :: "(asset, int) jmap"
  lastSyncedPnlPrice :: "(asset, int) jmap"
  lastFullPnlSyncAt :: int
  \<comment> \<open>cycle bookkeeping\<close>
  lastCycleCompletedAt :: int
  consecutiveCycleErrors :: nat
  consecutiveReadFailures :: nat
  lastFullSweepAt :: int
  \<comment> \<open>funding and TTL\<close>
  fundingFailureStreak :: nat
  nextFundingAttemptAt :: int
  lastFundingSubmitTime :: "int option"
  nextTtlBumpAt :: int
  \<comment> \<open>custody\<close>
  lastCustody :: "custody_report option"
  lastCustodyCheckAt :: int
  custodyDeficitStreak :: nat
  custodyDisabledLogged :: bool
  \<comment> \<open>liquidations\<close>
  crossBalanceCache :: "(address, int \<times> int) jmap"
  assetMmBpsCache :: "(asset, int \<times> int) jmap"
  riskLadderSupported :: "bool option"
  liqStrikes :: "(strike_key, nat) jmap"
  \<comment> \<open>auto-deleveraging\<close>
  adlActive :: "(asset, bool) jmap"
  adlLastProbeAt :: "(asset, int) jmap"
  adlSupported :: "bool option"
  adlUnsupportedLogged :: bool
  vaultCoverageCache :: "(int \<times> int) option"
  \<comment> \<open>orders, router, factory\<close>
  orphanedOrderIds :: "nat list"
  triggeredStuckCounts :: "(nat, nat) jmap"
  routerFnSupported :: "(router_fn, bool) jmap"
  factoryReconcileSupported :: "bool option"
  factoryReconcileUnsupportedLogged :: bool
  \<comment> \<open>discovery\<close>
  discovery :: discovery_state
  lastGoodPositions :: "nat list option"
  lastGoodOrders :: "nat list option"
  positionMismatchStreak :: nat
  orderMismatchStreak :: nat
  \<comment> \<open>module state: alert dedupe and throttled logging\<close>
  lastSentAt :: "(level \<times> string, int) jmap"
  throttledLogAt :: "(log_key, int) jmap"

definition emptyDiscoveryState :: discovery_state where
  "emptyDiscoveryState = \<lparr>ds_positions = \<lparr>watermark = 0, live = []\<rparr>,
                          ds_orders = \<lparr>watermark = 0, live = []\<rparr>\<rparr>"

end
