(* ===== verification/ContractErrors.thy ===== *)
theory ContractErrors
  imports JsString
begin

text \<open>
  The error classification of \<open>scripts/keeper/src/stellar.ts\<close>: the contract error code inside
  a host error message, missing entry points, business rejections that are never retried and
  transient transport failures. Regular expressions are written out as searches.
\<close>

text \<open>\<open>/Error\(Contract, #(\d+)\)/\<close> matched at the head of the string: its digits.\<close>

definition code_at :: "string \<Rightarrow> string option" where
  "code_at s =
     (let p = ''Error(Contract, #''
      in if \<not> starts_with p s then None
         else let rest = drop (length p) s; ds = takeWhile is_digit rest
              in if ds \<noteq> [] \<and> starts_with '')'' (dropWhile is_digit rest) then Some ds else None)"

fun extractContractErrorCode :: "string \<Rightarrow> nat option" where
  "extractContractErrorCode [] = None"
| "extractContractErrorCode (c # s) =
     (case code_at (c # s) of Some ds \<Rightarrow> Some (parse_nat ds) | None \<Rightarrow> extractContractErrorCode s)"

definition isMissingContractFunction :: "string \<Rightarrow> bool" where
  "isMissingContractFunction m =
     (includes_ci ''MissingValue'' m \<or> includes_ci ''unknown export'' m
       \<or> includes_ci ''invoking unknown'' m)"

definition NON_RETRYABLE_CODES :: "nat list" where
  "NON_RETRYABLE_CODES =
     [20, 50, 55, 60, 61, 62, 63, 78, 80, 81, 82, 83, 84, 85, 86, 87, 89, 90, 91, 92]"

definition NON_RETRYABLE_NAMES :: "string list" where
  "NON_RETRYABLE_NAMES =
     [''SlippageExceeded'', ''OrderNotTriggered'', ''OrderNotFound'', ''OrderNotPending'',
      ''NotLiquidatable'', ''CrossMarginNotLiquidatable'', ''CrossMarginOrderNotSupported'',
      ''PriceDeviationTooHigh'', ''OpenInterestCapExceeded'', ''PositionNotFound'',
      ''FundingIntervalNotElapsed'']"

definition isNonRetryableContractError :: "string \<Rightarrow> bool" where
  "isNonRetryableContractError m =
     (case extractContractErrorCode m of
        Some code \<Rightarrow> if code \<in> set NON_RETRYABLE_CODES then True
                     else list_ex (\<lambda>n. str_includes n m) NON_RETRYABLE_NAMES
      | None \<Rightarrow> list_ex (\<lambda>n. str_includes n m) NON_RETRYABLE_NAMES)"

text \<open>
  A thrown value: an \<open>Error\<close> with its message and the message of its \<open>cause\<close>, or the
  client's own \<open>TxIndeterminateError\<close> with the transaction hash.
\<close>

datatype js_error = JsError string "string option" | TxIndeterminateError string

definition error_message :: "js_error \<Rightarrow> string" where
  "error_message e =
     (case e of
        JsError m _ \<Rightarrow> m
      | TxIndeterminateError h \<Rightarrow> ''Transaction '' @ h @
          '' not confirmed within the polling window '' @ [CHR 0xE2, CHR 0x80, CHR 0x94] @
          '' outcome indeterminate'')"

definition isTransientRpcError :: "js_error \<Rightarrow> bool" where
  "isTransientRpcError e =
     (let m = error_message e @ '' '' @
            (case e of JsError _ (Some c) \<Rightarrow> c | _ \<Rightarrow> '''')
      in list_ex (\<lambda>p. includes_ci p m)
           [''fetch failed'', ''ECONNRESET'', ''ECONNREFUSED'', ''ETIMEDOUT'', ''EAI_AGAIN'',
            ''ENOTFOUND'', ''EPIPE'', ''socket hang up'', ''aborted'', ''timeout'', ''time out'',
            ''timedout'', ''timed out'', ''network'', ''429'', ''502'', ''503'', ''504''])"

section \<open>Lemmas\<close>

lemma takeWhile_show_nat:
  "takeWhile is_digit (show_nat n @ CHR '')'' # post) = show_nat n"
  "dropWhile is_digit (show_nat n @ CHR '')'' # post) = CHR '')'' # post"
proof -
  have nd: "\<not> is_digit (CHR '')'')" by (simp add: is_digit_def char_code_def)
  show "takeWhile is_digit (show_nat n @ CHR '')'' # post) = show_nat n"
    by (subst takeWhile_append2) (auto simp: nd show_nat_digits)
  show "dropWhile is_digit (show_nat n @ CHR '')'' # post) = CHR '')'' # post"
    by (subst dropWhile_append2) (auto simp: nd show_nat_digits)
qed

lemma code_at_rendered:
  "code_at (''Error(Contract, #'' @ show_nat n @ '')'' @ post) = Some (show_nat n)"
  using takeWhile_show_nat [of n post] show_nat_nonempty [of n]
  by (simp add: code_at_def Let_def starts_with_def)

lemma code_at_needs_E: "c \<noteq> CHR ''E'' \<Longrightarrow> code_at (c # s) = None"
  by (simp add: code_at_def starts_with_def)

lemma extract_skips:
  "CHR ''E'' \<notin> set pre \<Longrightarrow> extractContractErrorCode (pre @ s) = extractContractErrorCode s"
  by (induction pre) (auto simp: code_at_needs_E)

end
