(* ===== verification/Health.thy ===== *)
theory Health
  imports KeeperTypes
begin

text \<open>
  \<open>scripts/keeper/src/health.ts\<close>: the keeper's local liquidation prefilter and the advisory
  ADL ranking. Integer arithmetic only; \<open>sdiv\<close> truncates toward zero as \<open>BigInt\<close> division does.
\<close>

definition PRECISION :: int where "PRECISION = 10000000"
definition BASIS_POINTS :: int where "BASIS_POINTS = 10000"
definition DEFAULT_MAINTENANCE_MARGIN_BPS :: int where "DEFAULT_MAINTENANCE_MARGIN_BPS = 100"
definition CANDIDATE_BUFFER :: int where "CANDIDATE_BUFFER = 2"

lemmas health_consts = PRECISION_def BASIS_POINTS_def DEFAULT_MAINTENANCE_MARGIN_BPS_def
  CANDIDATE_BUFFER_def

definition calculatePnl :: "'a health_position_scheme \<Rightarrow> int \<Rightarrow> int" where
  "calculatePnl position currentPrice =
     (if p_entry_price position = 0 then 0
      else let priceDiff = (case p_direction position of
                 Long \<Rightarrow> currentPrice - p_entry_price position
               | Short \<Rightarrow> p_entry_price position - currentPrice)
           in (p_size position * priceDiff) sdiv p_entry_price position)"

definition positionMargin :: "'a health_position_scheme \<Rightarrow> int \<Rightarrow> int \<Rightarrow> int" where
  "positionMargin position currentPrice funding =
     p_collateral position + calculatePnl position currentPrice - funding"

definition maintenanceMargin :: "int \<Rightarrow> int \<Rightarrow> int" where
  "maintenanceMargin sz mmBps = (sz * mmBps) sdiv BASIS_POINTS"

definition crossesLiquidationPrice :: "'a health_position_scheme \<Rightarrow> int \<Rightarrow> bool" where
  "crossesLiquidationPrice position currentPrice =
     (if p_liquidation_price position \<le> 0 then False
      else (case p_direction position of
              Long \<Rightarrow> currentPrice \<le> p_liquidation_price position
            | Short \<Rightarrow> currentPrice \<ge> p_liquidation_price position))"

definition isUnderwater :: "'a health_position_scheme \<Rightarrow> int \<Rightarrow> int \<Rightarrow> int \<Rightarrow> bool" where
  "isUnderwater position currentPrice mmBps funding =
     (if crossesLiquidationPrice position currentPrice then True
      else positionMargin position currentPrice funding
             < maintenanceMargin (p_size position) mmBps)"

definition isLiquidationCandidate :: "'a health_position_scheme \<Rightarrow> int \<Rightarrow> int \<Rightarrow> int \<Rightarrow> bool" where
  "isLiquidationCandidate position currentPrice mmBps buffer =
     (if crossesLiquidationPrice position currentPrice then True
      else positionMargin position currentPrice 0
             < maintenanceMargin (p_size position) mmBps * buffer)"

text \<open>
  The loop of \<open>isCrossLiquidationCandidate\<close>: accumulators \<open>equity\<close> and \<open>totalMaintenance\<close>,
  early return \<open>true\<close> (here \<open>None\<close>) at the first leg without a usable price.
\<close>

fun crossTotals :: "('a health_position_scheme \<Rightarrow> int) \<Rightarrow> (asset \<Rightarrow> int option) \<Rightarrow>
    'a health_position_scheme list \<Rightarrow> int \<Rightarrow> int \<Rightarrow> (int \<times> int) option" where
  "crossTotals mm prices [] equity tot = Some (equity, tot)"
| "crossTotals mm prices (p # ps) equity tot =
     (case prices (p_asset p) of
        None \<Rightarrow> None
      | Some price \<Rightarrow>
          if price \<le> 0 then None
          else crossTotals mm prices ps (equity + (p_collateral p + calculatePnl p price))
                 (tot + maintenanceMargin (p_size p) (mm p)))"

definition isCrossLiquidationCandidate ::
    "int \<Rightarrow> 'a health_position_scheme list \<Rightarrow> (asset \<Rightarrow> int option) \<Rightarrow>
     ('a health_position_scheme \<Rightarrow> int) \<Rightarrow> int \<Rightarrow> bool" where
  "isCrossLiquidationCandidate poolBalance positions prices mm buffer =
     (if positions = [] then False
      else (case crossTotals mm prices positions poolBalance 0 of
              None \<Rightarrow> True
            | Some (equity, totalMaintenance) \<Rightarrow> equity < totalMaintenance * buffer))"

fun crossEquity :: "int \<Rightarrow> 'a health_position_scheme list \<Rightarrow> (asset \<Rightarrow> int option) \<Rightarrow> int option" where
  "crossEquity equity [] prices = Some equity"
| "crossEquity equity (p # ps) prices =
     (case prices (p_asset p) of
        None \<Rightarrow> None
      | Some price \<Rightarrow>
          if price \<le> 0 then None
          else crossEquity (equity + (p_collateral p + calculatePnl p price)) ps prices)"

definition adlRank :: "int \<Rightarrow> int \<Rightarrow> int \<Rightarrow> int" where
  "adlRank pnl collateral leverage =
     (if pnl \<le> 0 \<or> collateral \<le> 0 then 0
      else ((pnl * BASIS_POINTS) sdiv collateral) * leverage)"

record exposure =
  x_lk :: int
  x_ls :: int
  x_sk :: int
  x_ss :: int

definition addExposure :: "'a health_position_scheme \<Rightarrow> exposure \<Rightarrow> exposure" where
  "addExposure position x =
     (if p_entry_price position \<le> 0 then x
      else let qty = (p_size position * PRECISION) sdiv p_entry_price position
           in (case p_direction position of
                 Long \<Rightarrow> x\<lparr>x_lk := x_lk x + qty, x_ls := x_ls x + p_size position\<rparr>
               | Short \<Rightarrow> x\<lparr>x_sk := x_sk x + qty, x_ss := x_ss x + p_size position\<rparr>))"

definition assetPayableUpnl :: "'a health_position_scheme list \<Rightarrow> int \<Rightarrow> int" where
  "assetPayableUpnl positions price =
     (if price \<le> 0 then 0
      else let x = fold addExposure positions \<lparr>x_lk = 0, x_ls = 0, x_sk = 0, x_ss = 0\<rparr>;
               longUpnl = (price * x_lk x) sdiv PRECISION - x_ls x;
               shortUpnl = x_ss x - (price * x_sk x) sdiv PRECISION
           in (if longUpnl > 0 then longUpnl else 0) + (if shortUpnl > 0 then shortUpnl else 0))"

datatype adl_flag_decision = Activate | Clear | Hold

definition adlFlagDecision :: "int \<Rightarrow> int \<Rightarrow> bool \<Rightarrow> int \<Rightarrow> int \<Rightarrow> adl_flag_decision" where
  "adlFlagDecision payable coverage active triggerBps clearBps =
     (if \<not> active then
        (if payable > 0 \<and> coverage * BASIS_POINTS < payable * triggerBps then Activate else Hold)
      else if payable = 0 \<or> coverage * BASIS_POINTS \<ge> payable * clearBps then Clear else Hold)"

record 'p adl_candidate =
  c_position :: 'p
  c_pnl :: int
  c_score :: int

definition adlCandidate :: "int \<Rightarrow> 'a adl_position_scheme \<Rightarrow> 'a adl_position_scheme adl_candidate option" where
  "adlCandidate price position =
     (let pnl = calculatePnl position price
      in if pnl \<le> 0 then None
         else Some \<lparr>c_position = position, c_pnl = pnl,
                    c_score = adlRank pnl (p_collateral position) (p_leverage position)\<rparr>)"

definition adlCompare :: "'a adl_position_scheme adl_candidate \<Rightarrow> 'a adl_position_scheme adl_candidate \<Rightarrow> int" where
  "adlCompare a b =
     (if c_score a \<noteq> c_score b then (if c_score b > c_score a then 1 else -1)
      else if p_id (c_position a) < p_id (c_position b) then -1 else 1)"

definition rankAdlCandidates :: "'a adl_position_scheme list \<Rightarrow> int \<Rightarrow> 'a adl_position_scheme adl_candidate list" where
  "rankAdlCandidates positions price =
     js_sort adlCompare (List.map_filter (adlCandidate price) positions)"

section \<open>Lemmas\<close>

lemma maintenanceMargin_mono:
  "0 \<le> s \<Longrightarrow> m \<le> m' \<Longrightarrow> maintenanceMargin s m \<le> maintenanceMargin s m'"
  by (simp add: maintenanceMargin_def BASIS_POINTS_def sdiv_mono mult_left_mono)

lemma maintenanceMargin_nonneg: "0 \<le> s \<Longrightarrow> 0 \<le> m \<Longrightarrow> 0 \<le> maintenanceMargin s m"
  unfolding maintenanceMargin_def BASIS_POINTS_def by (rule sdiv_nonneg) auto

lemma crossTotals_sums:
  "crossTotals mm prices ps e t =
     (if \<exists>p \<in> set ps. prices (p_asset p) = None \<or> the (prices (p_asset p)) \<le> 0 then None
      else Some (e + (\<Sum>p\<leftarrow>ps. p_collateral p + calculatePnl p (the (prices (p_asset p)))),
                 t + (\<Sum>p\<leftarrow>ps. maintenanceMargin (p_size p) (mm p))))"
  by (induction ps arbitrary: e t) (auto split: option.splits simp: algebra_simps)

lemma crossEquity_sums:
  "crossEquity e ps prices =
     (if \<exists>p \<in> set ps. prices (p_asset p) = None \<or> the (prices (p_asset p)) \<le> 0 then None
      else Some (e + (\<Sum>p\<leftarrow>ps. p_collateral p + calculatePnl p (the (prices (p_asset p))))))"
  by (induction ps arbitrary: e) (auto split: option.splits simp: algebra_simps)

text \<open>The key the ranking sorts by: higher score first, then lower id.\<close>

definition adlKey :: "'a adl_position_scheme adl_candidate \<Rightarrow> int \<times> nat" where
  "adlKey c = (- c_score c, p_id (c_position c))"

interpretation adl: comparator adlCompare adlKey
  by unfold_locales (auto simp: adlCompare_def adlKey_def less_prod_def')

lemma set_map_filter: "set (List.map_filter f xs) = {y. \<exists>x \<in> set xs. f x = Some y}"
  by (induction xs) (auto simp: List.map_filter_simps split: option.splits)

lemma map_filter_positions:
  "map c_position (List.map_filter (adlCandidate price) ps)
     = filter (\<lambda>p. 0 < calculatePnl p price) ps"
  by (induction ps) (auto simp: List.map_filter_simps adlCandidate_def Let_def)

lemma distinct_adlKeys:
  assumes "distinct (map p_id ps)"
  shows "distinct (map adlKey (List.map_filter (adlCandidate price) ps))"
proof -
  have "distinct (map p_id (filter (\<lambda>p. 0 < calculatePnl p price) ps))"
    using assms by (simp add: distinct_map_filter)
  then have "distinct (map (snd \<circ> adlKey) (List.map_filter (adlCandidate price) ps))"
    by (simp add: map_filter_positions [symmetric] adlKey_def comp_def)
  then show ?thesis
    by (metis distinct_map map_map)
qed

lemma rankAdlCandidates_set:
  "c \<in> set (rankAdlCandidates ps price) \<longleftrightarrow> (\<exists>p \<in> set ps. adlCandidate price p = Some c)"
  by (simp add: rankAdlCandidates_def set_map_filter)


section \<open>Properties\<close>

lemma crossesLiquidationPrice_imp: "crossesLiquidationPrice p c \<Longrightarrow> isLiquidationCandidate p c m b"
  by (simp add: isLiquidationCandidate_def)



definition legEquity :: "(asset \<Rightarrow> int option) \<Rightarrow> 'a health_position_scheme \<Rightarrow> int" where
  "legEquity prices p = p_collateral p + calculatePnl p (the (prices (p_asset p)))"

text \<open>The cross-account prefilter never misses: when the account's true equity (pool balance plus
  collateral and profit of every leg, less accrued funding) is below its true maintenance requirement,
  the account is a candidate, provided the keeper's margin rates are not below the true ones and the
  total funding is within \<open>buffer - 1\<close> of the local requirement. An unusable price on any leg
  makes the account a candidate outright.\<close>

theorem cross_prefilter_never_misses:
  assumes "ps \<noteq> []" "\<forall>p \<in> set ps. 0 \<le> p_size p \<and> mm p \<le> mmLocal p"
    and "(\<Sum>p\<leftarrow>ps. funding p) \<le> (\<Sum>p\<leftarrow>ps. maintenanceMargin (p_size p) (mmLocal p)) * (buffer - 1)"
    and "(\<exists>p \<in> set ps. prices (p_asset p) = None \<or> the (prices (p_asset p)) \<le> 0) \<or>
         pool + (\<Sum>p\<leftarrow>ps. legEquity prices p - funding p) < (\<Sum>p\<leftarrow>ps. maintenanceMargin (p_size p) (mm p))"
  shows "isCrossLiquidationCandidate pool ps prices mmLocal buffer"
proof (cases "\<exists>p \<in> set ps. prices (p_asset p) = None \<or> the (prices (p_asset p)) \<le> 0")
  case True
  then show ?thesis using assms(1) by (auto simp: isCrossLiquidationCandidate_def crossTotals_sums)
next
  case False
  let ?M = "\<Sum>p\<leftarrow>ps. maintenanceMargin (p_size p) (mmLocal p)"
  have "pool + (\<Sum>p\<leftarrow>ps. legEquity prices p) < (\<Sum>p\<leftarrow>ps. maintenanceMargin (p_size p) (mm p)) + (\<Sum>p\<leftarrow>ps. funding p)"
    using False assms(4) by (auto simp: sum_list_subtractf)
  also have "(\<Sum>p\<leftarrow>ps. maintenanceMargin (p_size p) (mm p)) \<le> ?M"
    using assms(2) by (intro sum_list_mono) (auto intro: maintenanceMargin_mono)
  finally have "pool + (\<Sum>p\<leftarrow>ps. legEquity prices p) < ?M + ?M * (buffer - 1)" using assms(3) by simp
  then show ?thesis
    using False assms(1)
    by (auto simp: isCrossLiquidationCandidate_def crossTotals_sums legEquity_def algebra_simps)
qed

theorem cross_prefilter_never_misses_witness:
  "isCrossLiquidationCandidate 5
     [\<lparr>p_asset = ''BTC'', p_collateral = 10, p_size = 1000, p_entry_price = 50, p_direction = Long,
       p_liquidation_price = 0\<rparr>] (\<lambda>_. Some 50) (\<lambda>_. 100) 2"
  by (rule cross_prefilter_never_misses [where mm = "\<lambda>_. 100" and funding = "\<lambda>_. 8"])
    (simp_all add: legEquity_def calculatePnl_def maintenanceMargin_def BASIS_POINTS_def)

text \<open>The ADL ranking is the specified order: the result holds exactly the positions with positive
  profit (as a multiset), each with its profit and score, sorted by score downwards and ties by id
  upwards; for positions with distinct ids that makes it the sort of the winners by that key.\<close>

theorem rankAdlCandidates_correct:
  "sorted (map adlKey (rankAdlCandidates ps price))
    \<and> mset (map c_position (rankAdlCandidates ps price))
        = mset (filter (\<lambda>p. 0 < calculatePnl p price) ps)
    \<and> (\<forall>c \<in> set (rankAdlCandidates ps price). c_pnl c = calculatePnl (c_position c) price
          \<and> c_score c = adlRank (c_pnl c) (p_collateral (c_position c)) (p_leverage (c_position c)))
    \<and> (distinct (map p_id ps) \<longrightarrow>
         rankAdlCandidates ps price = sort_key adlKey (List.map_filter (adlCandidate price) ps))"
proof (intro conjI impI)
  show "sorted (map adlKey (rankAdlCandidates ps price))"
    unfolding rankAdlCandidates_def by (rule adl.js_sort_sorted)
  have "mset (map c_position (rankAdlCandidates ps price))
      = image_mset c_position (mset (List.map_filter (adlCandidate price) ps))"
    by (simp add: rankAdlCandidates_def)
  also have "\<dots> = mset (filter (\<lambda>p. 0 < calculatePnl p price) ps)"
    by (metis map_filter_positions mset_map)
  finally show "mset (map c_position (rankAdlCandidates ps price))
        = mset (filter (\<lambda>p. 0 < calculatePnl p price) ps)" .
  show "\<forall>c \<in> set (rankAdlCandidates ps price). c_pnl c = calculatePnl (c_position c) price
          \<and> c_score c = adlRank (c_pnl c) (p_collateral (c_position c)) (p_leverage (c_position c))"
    by (auto simp: rankAdlCandidates_set adlCandidate_def Let_def split: if_splits)
  show "rankAdlCandidates ps price = sort_key adlKey (List.map_filter (adlCandidate price) ps)"
    if "distinct (map p_id ps)"
    unfolding rankAdlCandidates_def by (rule adl.js_sort_eq_sort_key [OF distinct_adlKeys [OF that]])
qed

theorem rankAdlCandidates_correct_witness:
  "map (p_id \<circ> c_position) (rankAdlCandidates
     [\<lparr>p_asset = ''BTC'', p_collateral = 10, p_size = 100, p_entry_price = 50, p_direction = Long,
       p_liquidation_price = 1, p_id = 7, p_leverage = 10\<rparr>,
      \<lparr>p_asset = ''BTC'', p_collateral = 10, p_size = 100, p_entry_price = 40, p_direction = Long,
       p_liquidation_price = 1, p_id = 3, p_leverage = 10\<rparr>] 60) = [3, 7]"
  using rankAdlCandidates_correct [where price = 60 and
    ps = "[\<lparr>p_asset = ''BTC'', p_collateral = 10, p_size = 100, p_entry_price = 50, p_direction = Long,
       p_liquidation_price = 1, p_id = 7, p_leverage = 10\<rparr>,
      \<lparr>p_asset = ''BTC'', p_collateral = 10, p_size = 100, p_entry_price = 40, p_direction = Long,
       p_liquidation_price = 1, p_id = 3, p_leverage = 10\<rparr>]"]
  by (simp add: adlCandidate_def calculatePnl_def adlRank_def BASIS_POINTS_def adlKey_def
    List.map_filter_simps Let_def)

lemma assetPayableUpnl_nonneg: "0 \<le> assetPayableUpnl ps price"
  by (simp add: assetPayableUpnl_def Let_def)

text \<open>The local mirror of the ADL trigger has hysteresis: with the trigger ratio not above the
  clear ratio, a book and coverage that activate the flag do not clear it, and ones that clear it
  do not activate it, so the mirror cannot flap at a fixed state.\<close>

theorem adlFlag_hysteresis:
  assumes "triggerBps \<le> clearBps"
  shows "(adlFlagDecision (assetPayableUpnl ps price) coverage False triggerBps clearBps = Activate \<longrightarrow>
            adlFlagDecision (assetPayableUpnl ps price) coverage True triggerBps clearBps = Hold)
       \<and> (adlFlagDecision (assetPayableUpnl ps price) coverage True triggerBps clearBps = Clear \<longrightarrow>
            adlFlagDecision (assetPayableUpnl ps price) coverage False triggerBps clearBps = Hold)"
proof -
  have "assetPayableUpnl ps price * triggerBps \<le> assetPayableUpnl ps price * clearBps"
    using assms assetPayableUpnl_nonneg by (rule mult_left_mono)
  then show ?thesis by (auto simp: adlFlagDecision_def split: if_splits)
qed

theorem adlFlag_hysteresis_witness:
  "adlFlagDecision (assetPayableUpnl
     [\<lparr>p_asset = ''BTC'', p_collateral = 10, p_size = 1000, p_entry_price = 50, p_direction = Long,
       p_liquidation_price = 1\<rparr>] 100) 500 True 10000 12000 = Hold"
  using adlFlag_hysteresis [of 10000 12000
     "[\<lparr>p_asset = ''BTC'', p_collateral = 10, p_size = 1000, p_entry_price = 50, p_direction = Long,
       p_liquidation_price = 1\<rparr>]" 100 500]
  by (simp add: adlFlagDecision_def assetPayableUpnl_def addExposure_def PRECISION_def BASIS_POINTS_def)

end
