(* ===== verification/KeeperIO.thy ===== *)
theory KeeperIO
  imports KeeperState ContractErrors Health
begin

text \<open>
  The keeper's interactions and the helpers every phase shares: the client calls (an \<open>ask\<close>
  records the reply in the history), alerts with their dedupe window
  (\<open>scripts/keeper/src/alerts.ts\<close>), throttled logging, the read caches, the router
  availability map and the sourcing of signed rounds (\<open>scripts/keeper/src/index.ts\<close>).
  Console output is not modelled.
\<close>

type_synonym 'a kprog = "(keeper, 'a) prog"
type_synonym 'a keprog = "(keeper, string, 'a) eprog"

section \<open>Interactions\<close>

definition emit :: "event \<Rightarrow> unit kprog" where
  "emit ev = modify (\<lambda>s. s\<lparr>hist := ev # hist s\<rparr>)"

definition ask :: "(history \<Rightarrow> 'r) \<Rightarrow> ('r \<Rightarrow> event) \<Rightarrow> 'r kprog" where
  "ask f mk = do {
     h \<leftarrow> gets hist;
     let r = f h;
     emit (mk r);
     ret r }"

text \<open>\<open>Date.now()\<close>: time passes between interactions, never inside straight-line code.\<close>

definition dateNow :: "env \<Rightarrow> int kprog" where
  "dateNow E = gets (\<lambda>s. e_clock E (hist s))"

definition simulateCall :: "env \<Rightarrow> sim_call \<Rightarrow> simulation_outcome keprog" where
  "simulateCall E c = ask (\<lambda>h. e_simulate E h c) (Simulated c)"

definition invokeWrite :: "env \<Rightarrow> write_call \<Rightarrow> execution_result keprog" where
  "invokeWrite E c = ask (\<lambda>h. e_submit E h c) (Submitted c)"

definition readInt :: "env \<Rightarrow> int_read \<Rightarrow> int keprog" where
  "readInt E c = ask (\<lambda>h. e_readInt E h c) (ReadInt c)"

definition isAdlActive :: "env \<Rightarrow> asset \<Rightarrow> bool keprog" where
  "isAdlActive E a = ask (\<lambda>h. e_adlActive E h a) (ReadAdlActive a)"

definition getAssetRiskMmBps :: "env \<Rightarrow> asset \<Rightarrow> int option keprog" where
  "getAssetRiskMmBps E a = ask (\<lambda>h. e_assetRisk E h a) (ReadAssetRisk a)"

definition getOrderVault :: "env \<Rightarrow> nat \<Rightarrow> nat option keprog" where
  "getOrderVault E i = ask (\<lambda>h. e_orderVault E h i) (ReadOrderVault i)"

definition fetchNoeracleFresh :: "env \<Rightarrow> attestation list keprog" where
  "fetchNoeracleFresh E = ask (e_rounds E) FetchedRounds"

definition sleep :: "int \<Rightarrow> unit kprog" where
  "sleep ms = emit (Slept ms)"

definition saveKeeperState :: "unit kprog" where
  "saveKeeperState = emit SavedState"

section \<open>Alerts and throttled logging\<close>

definition ALERT_DEDUPE_WINDOW_MS :: int where "ALERT_DEDUPE_WINDOW_MS = 10 * 60 * 1000"
definition THROTTLED_LOG_INTERVAL_MS :: int where "THROTTLED_LOG_INTERVAL_MS = 10 * 60 * 1000"

definition pruneDedupeMap :: "int \<Rightarrow> (level \<times> string, int) jmap \<Rightarrow> (level \<times> string, int) jmap" where
  "pruneDedupeMap t m =
     (if length m \<le> 200 then m else filter (\<lambda>p. \<not> t - snd p \<ge> ALERT_DEDUPE_WINDOW_MS) m)"

definition sendAlert :: "env \<Rightarrow> level \<Rightarrow> string \<Rightarrow> unit kprog" where
  "sendAlert E lvl title = do {
     t \<leftarrow> dateNow E;
     previous \<leftarrow> gets (\<lambda>s. map_of (lastSentAt s) (lvl, title));
     if previous \<noteq> None \<and> t - the previous < ALERT_DEDUPE_WINDOW_MS then skip
     else do {
       modify (\<lambda>s. s\<lparr>lastSentAt := pruneDedupeMap t (jset (lvl, title) t (lastSentAt s))\<rparr>);
       emit (Alerted lvl title) } }"

definition logThrottled :: "env \<Rightarrow> log_key \<Rightarrow> unit kprog" where
  "logThrottled E k = do {
     t \<leftarrow> dateNow E;
     prev \<leftarrow> gets (\<lambda>s. jget_or (throttledLogAt s) k 0);
     if t - prev < THROTTLED_LOG_INTERVAL_MS then skip
     else modify (\<lambda>s. let m = jset k t (throttledLogAt s) in
       s\<lparr>throttledLogAt :=
          (if length m > 500 then filter (\<lambda>p. \<not> t - snd p \<ge> THROTTLED_LOG_INTERVAL_MS) m else m)\<rparr>) }"

section \<open>Read caches\<close>

definition CROSS_BALANCE_CACHE_MS :: int where "CROSS_BALANCE_CACHE_MS = 60000"
definition VAULT_COVERAGE_CACHE_MS :: int where "VAULT_COVERAGE_CACHE_MS = 30000"
definition ASSET_RISK_CACHE_MS :: int where "ASSET_RISK_CACHE_MS = 10 * 60 * 1000"

definition getCrossBalanceCached :: "env \<Rightarrow> address \<Rightarrow> int option kprog" where
  "getCrossBalanceCached E trader = do {
     t \<leftarrow> dateNow E;
     cached \<leftarrow> gets (\<lambda>s. map_of (crossBalanceCache s) trader);
     if cached \<noteq> None \<and> t - snd (the cached) < CROSS_BALANCE_CACHE_MS
     then ret (Some (fst (the cached)))
     else do {
       r \<leftarrow> readInt E (CrossMarginBalance trader);
       case r of
         Inr balance \<Rightarrow> do {
           modify (\<lambda>s. s\<lparr>crossBalanceCache := jset trader (balance, t) (crossBalanceCache s)\<rparr>);
           ret (Some balance) }
       | Inl e \<Rightarrow> do {
           logThrottled E (''cross-bal'', 0, trader);
           ret (map_option fst cached) } } }"

definition getVaultCoverageCached :: "env \<Rightarrow> int option kprog" where
  "getVaultCoverageCached E = do {
     t \<leftarrow> dateNow E;
     cached \<leftarrow> gets vaultCoverageCache;
     if cached \<noteq> None \<and> t - snd (the cached) < VAULT_COVERAGE_CACHE_MS
     then ret (Some (fst (the cached)))
     else do {
       r \<leftarrow> readInt E VaultCoverage;
       case r of
         Inr v \<Rightarrow> do {
           modify (\<lambda>s. s\<lparr>vaultCoverageCache := Some (v, t)\<rparr>);
           ret (Some v) }
       | Inl e \<Rightarrow> do {
           logThrottled E (''adl-coverage'', 0, []);
           gets (\<lambda>s. map_option fst (vaultCoverageCache s)) } } }"

definition prefilterMmBps :: "env \<Rightarrow> asset \<Rightarrow> int kprog" where
  "prefilterMmBps E a = do {
     supported \<leftarrow> gets riskLadderSupported;
     if supported = Some False then ret DEFAULT_MAINTENANCE_MARGIN_BPS
     else do {
       t \<leftarrow> dateNow E;
       cached \<leftarrow> gets (\<lambda>s. map_of (assetMmBpsCache s) a);
       if cached \<noteq> None \<and> t - snd (the cached) < ASSET_RISK_CACHE_MS then ret (fst (the cached))
       else do {
         r \<leftarrow> getAssetRiskMmBps E a;
         case r of
           Inr ladder \<Rightarrow> do {
             modify (\<lambda>s. s\<lparr>riskLadderSupported := Some True\<rparr>);
             let mmBps = (case ladder of
                 None \<Rightarrow> DEFAULT_MAINTENANCE_MARGIN_BPS
               | Some l \<Rightarrow> if l > 0
                   then (if l > DEFAULT_MAINTENANCE_MARGIN_BPS then l else DEFAULT_MAINTENANCE_MARGIN_BPS)
                   else DEFAULT_MAINTENANCE_MARGIN_BPS);
             modify (\<lambda>s. s\<lparr>assetMmBpsCache := jset a (mmBps, t) (assetMmBpsCache s)\<rparr>);
             ret mmBps }
         | Inl message \<Rightarrow>
             (if isMissingContractFunction message then do {
                modify (\<lambda>s. s\<lparr>riskLadderSupported := Some False,
                              assetMmBpsCache := jset a (DEFAULT_MAINTENANCE_MARGIN_BPS, t) (assetMmBpsCache s)\<rparr>);
                ret DEFAULT_MAINTENANCE_MARGIN_BPS }
              else do {
                logThrottled E (''risk'', 0, a);
                ret (case cached of None \<Rightarrow> DEFAULT_MAINTENANCE_MARGIN_BPS | Some c \<Rightarrow> fst c) }) } } }"

section \<open>Router path: availability and round sourcing\<close>

definition ROUND_FRESH_FAST_PATH_MS :: int where "ROUND_FRESH_FAST_PATH_MS = 15000"
definition ROUND_MAX_AGE_MS :: int where "ROUND_MAX_AGE_MS = 60000"

definition routerAvailable :: "keeper_config \<Rightarrow> router_fn \<Rightarrow> keeper \<Rightarrow> bool" where
  "routerAvailable cfg f s \<longleftrightarrow>
     routerContractId cfg \<noteq> [] \<and> map_of (routerFnSupported s) f \<noteq> Some False"

definition markRouterUnsupported :: "router_fn \<Rightarrow> unit kprog" where
  "markRouterUnsupported f = modify (\<lambda>s. s\<lparr>routerFnSupported := jset f False (routerFnSupported s)\<rparr>)"

definition pairSymbol :: "string \<Rightarrow> asset" where
  "pairSymbol p =
     (if length p \<ge> 4 \<and> drop (length p - 4) p = ''/USD'' then take (length p - 4) p else p)"

definition cacheRounds :: "int \<Rightarrow> attestation list \<Rightarrow> keeper \<Rightarrow> keeper" where
  "cacheRounds fetchedAt atts s =
     s\<lparr>latestRounds := fold (\<lambda>att. jset (pairSymbol (a_asset att)) (att, fetchedAt)) atts (latestRounds s)\<rparr>"

definition getExecutionRound :: "env \<Rightarrow> asset \<Rightarrow> attestation option kprog" where
  "getExecutionRound E symbol = do {
     t \<leftarrow> dateNow E;
     cached \<leftarrow> gets (\<lambda>s. map_of (latestRounds s) symbol);
     if cached \<noteq> None \<and> t - snd (the cached) \<le> ROUND_FRESH_FAST_PATH_MS
     then ret (Some (fst (the cached)))
     else do {
       r \<leftarrow> fetchNoeracleFresh E;
       (case r of
          Inr atts \<Rightarrow> do {
            fetchedAt \<leftarrow> dateNow E;
            modify (cacheRounds fetchedAt atts) }
        | Inl e \<Rightarrow> logThrottled E (''round-fetch'', 0, []));
       t' \<leftarrow> dateNow E;
       fallback \<leftarrow> gets (\<lambda>s. map_of (latestRounds s) symbol);
       ret (if fallback \<noteq> None \<and> t' - snd (the fallback) \<le> ROUND_MAX_AGE_MS
            then Some (fst (the fallback)) else None) } }"

text \<open>The router methods of the client answer without a call when no router is configured.\<close>

definition notConfigured :: execution_result where
  "notConfigured = \<lparr>success = False, txHash = None, reward = None,
     error = Some ''router contract id not configured'', indeterminate = False\<rparr>"

definition invokeRouter :: "keeper_config \<Rightarrow> env \<Rightarrow> write_call \<Rightarrow> execution_result keprog" where
  "invokeRouter cfg E c =
     (if routerContractId cfg = [] then okay notConfigured else invokeWrite E c)"

definition simulateRouterCall :: "keeper_config \<Rightarrow> env \<Rightarrow> sim_call \<Rightarrow> simulation_outcome keprog" where
  "simulateRouterCall cfg E c =
     (if routerContractId cfg = [] then okay (SimErr ''router contract id not configured'')
      else simulateCall E c)"

text \<open>\<open>result.error ?? ''''\<close>.\<close>

definition errorText :: "execution_result \<Rightarrow> string" where
  "errorText r = (case error r of None \<Rightarrow> [] | Some e \<Rightarrow> e)"

definition errorCode :: "execution_result \<Rightarrow> nat option" where
  "errorCode r = extractContractErrorCode (errorText r)"

definition bumpStats :: "(keeper_stats \<Rightarrow> keeper_stats) \<Rightarrow> unit kprog" where
  "bumpStats f = modify (\<lambda>s. s\<lparr>stats := f (stats s)\<rparr>)"

definition localPriceMap :: "keeper \<Rightarrow> asset \<Rightarrow> int option" where
  "localPriceMap s a = map_option pd_priceScaled (map_of (currentPrices s) a)"

section \<open>Lemmas: histories\<close>

lemma wp_emit [simp, wp_simps]: "wp (emit ev) Q s = Q () (s\<lparr>hist := ev # hist s\<rparr>)"
  by (simp add: emit_def)

lemma wp_ask [simp, wp_simps]:
  "wp (ask f mk) Q s = Q (f (hist s)) (s\<lparr>hist := mk (f (hist s)) # hist s\<rparr>)"
  by (simp add: ask_def Let_def)

lemma wp_dateNow [simp, wp_simps]: "wp (dateNow E) Q s = Q (e_clock E (hist s)) s"
  by (simp add: dateNow_def)

lemmas client_defs = simulateCall_def invokeWrite_def readInt_def isAdlActive_def
  getAssetRiskMmBps_def getOrderVault_def fetchNoeracleFresh_def sleep_def saveKeeperState_def

text \<open>
  A property of histories is \<open>stable\<close> when only a submission or a simulation can break it.
  The helpers of this theory do neither, so they keep every stable property.
\<close>

definition is_action :: "event \<Rightarrow> bool" where
  "is_action ev = (case ev of Submitted _ _ \<Rightarrow> True | Simulated _ _ \<Rightarrow> True | _ \<Rightarrow> False)"

definition stable :: "(history \<Rightarrow> bool) \<Rightarrow> bool" where
  "stable J \<longleftrightarrow> (\<forall>h ev. \<not> is_action ev \<longrightarrow> J h \<longrightarrow> J (ev # h))"

abbreviation hinv :: "(history \<Rightarrow> bool) \<Rightarrow> keeper \<Rightarrow> keeper \<Rightarrow> bool" where
  "hinv J \<equiv> inv_rel (\<lambda>s. J (hist s))"

lemma stableD: "stable J \<Longrightarrow> \<not> is_action ev \<Longrightarrow> J h \<Longrightarrow> J (ev # h)"
  by (simp add: stable_def)

lemma stable_conj [intro]: "stable J \<Longrightarrow> stable K \<Longrightarrow> stable (\<lambda>h. J h \<and> K h)"
  by (simp add: stable_def)

lemma stable_mem [intro]: "stable (\<lambda>h. ev \<in> set h)"
  by (simp add: stable_def)

lemma stable_ex_mem [intro]: "stable (\<lambda>h. \<exists>x. P x \<and> f x \<in> set h)"
  by (auto simp: stable_def)

lemma keeps_emit: "(\<And>h. J h \<Longrightarrow> J (ev # h)) \<Longrightarrow> keeps (hinv J) (emit ev)"
  by (simp add: keeps_def inv_rel_def)

lemma keeps_ask: "(\<And>h r. J h \<Longrightarrow> J (mk r # h)) \<Longrightarrow> keeps (hinv J) (ask f mk)"
  by (simp add: keeps_def inv_rel_def)

lemma keeps_modify_hist [keeps_intros]:
  "(\<And>s. hist (f s) = hist s) \<Longrightarrow> keeps (hinv J) (modify f)"
  by (simp add: keeps_def inv_rel_def)

lemma keeps_dateNow [keeps_intros]: "reflp R \<Longrightarrow> keeps R (dateNow E)"
  by (simp add: keeps_def reflp_def)

lemma keeps_simulateCall:
  "(\<And>h r. J h \<Longrightarrow> J (Simulated c r # h)) \<Longrightarrow> keeps (hinv J) (simulateCall E c)"
  unfolding client_defs by (rule keeps_ask) simp

lemma keeps_readInt [keeps_intros]: "stable J \<Longrightarrow> keeps (hinv J) (readInt E c)"
  unfolding client_defs by (rule keeps_ask) (simp add: stable_def is_action_def)

lemma keeps_isAdlActive [keeps_intros]: "stable J \<Longrightarrow> keeps (hinv J) (isAdlActive E c)"
  unfolding client_defs by (rule keeps_ask) (simp add: stable_def is_action_def)

lemma keeps_getAssetRisk [keeps_intros]: "stable J \<Longrightarrow> keeps (hinv J) (getAssetRiskMmBps E c)"
  unfolding client_defs by (rule keeps_ask) (simp add: stable_def is_action_def)

lemma keeps_getOrderVault [keeps_intros]: "stable J \<Longrightarrow> keeps (hinv J) (getOrderVault E c)"
  unfolding client_defs by (rule keeps_ask) (simp add: stable_def is_action_def)

lemma keeps_fetchFresh [keeps_intros]: "stable J \<Longrightarrow> keeps (hinv J) (fetchNoeracleFresh E)"
  unfolding client_defs by (rule keeps_ask) (simp add: stable_def is_action_def)

lemma keeps_sleep [keeps_intros]: "stable J \<Longrightarrow> keeps (hinv J) (sleep ms)"
  unfolding client_defs by (rule keeps_emit) (simp add: stable_def is_action_def)

lemma keeps_save [keeps_intros]: "stable J \<Longrightarrow> keeps (hinv J) saveKeeperState"
  unfolding client_defs by (rule keeps_emit) (simp add: stable_def is_action_def)

lemma keeps_alerted [keeps_intros]: "stable J \<Longrightarrow> keeps (hinv J) (emit (Alerted l m))"
  by (rule keeps_emit) (simp add: stable_def is_action_def)

lemma keeps_bumpStats [keeps_intros]: "keeps (hinv J) (bumpStats f)"
  unfolding bumpStats_def by (rule keeps_modify_hist) simp

lemma keeps_markRouter [keeps_intros]: "keeps (hinv J) (markRouterUnsupported f)"
  unfolding markRouterUnsupported_def by (rule keeps_modify_hist) simp

lemma keeps_sendAlert [keeps_intros]: "stable J \<Longrightarrow> keeps (hinv J) (sendAlert E l m)"
  unfolding sendAlert_def by (intro keeps_intros) auto

lemma keeps_logThrottled [keeps_intros]: "keeps (hinv J) (logThrottled E k)"
  unfolding logThrottled_def by (intro keeps_intros) (auto simp: Let_def)

lemma keeps_crossBalance [keeps_intros]: "stable J \<Longrightarrow> keeps (hinv J) (getCrossBalanceCached E a)"
  unfolding getCrossBalanceCached_def by (intro keeps_intros) auto

lemma keeps_vaultCoverage [keeps_intros]: "stable J \<Longrightarrow> keeps (hinv J) (getVaultCoverageCached E)"
  unfolding getVaultCoverageCached_def by (intro keeps_intros) auto

lemma keeps_prefilter [keeps_intros]: "stable J \<Longrightarrow> keeps (hinv J) (prefilterMmBps E a)"
  unfolding prefilterMmBps_def by (intro keeps_intros) auto

lemma keeps_executionRound [keeps_intros]: "stable J \<Longrightarrow> keeps (hinv J) (getExecutionRound E a)"
  unfolding getExecutionRound_def by (intro keeps_intros) (auto simp: cacheRounds_def)

lemma keeps_simulateRouter:
  "(\<And>h r. J h \<Longrightarrow> J (Simulated c r # h)) \<Longrightarrow> keeps (hinv J) (simulateRouterCall cfg E c)"
  unfolding simulateRouterCall_def by (intro keeps_intros keeps_simulateCall) auto

text \<open>A submission keeps what holds after it, whatever the reply.\<close>

lemma keeps_invokeWrite: "(\<And>h r. J h \<Longrightarrow> J (Submitted c r # h)) \<Longrightarrow> keeps (hinv J) (invokeWrite E c)"
  unfolding client_defs by (rule keeps_ask) simp

lemma keeps_invokeRouter: "(\<And>h r. J h \<Longrightarrow> J (Submitted c r # h)) \<Longrightarrow> keeps (hinv J) (invokeRouter cfg E c)"
  unfolding invokeRouter_def by (intro keeps_intros keeps_invokeWrite) auto

text \<open>Properties that no further event can break, such as \<open>ev \<in> set h\<close>.\<close>

definition growing :: "(history \<Rightarrow> bool) \<Rightarrow> bool" where
  "growing J \<longleftrightarrow> (\<forall>h ev. J h \<longrightarrow> J (ev # h))"

lemma growing_stable [simp, intro]: "growing J \<Longrightarrow> stable J"
  by (simp add: growing_def stable_def)

lemma growing_mem [simp]: "growing (\<lambda>h. ev \<in> set h)"
  by (simp add: growing_def)

lemma growing_ex_mem [simp]: "growing (\<lambda>h. \<exists>x. f x \<in> set h)"
  by (auto simp: growing_def)

lemma keeps_growing:
  assumes "growing J"
  shows "keeps (hinv J) (simulateCall E sc)" "keeps (hinv J) (simulateRouterCall cfg E sc)"
    "keeps (hinv J) (invokeWrite E wc)" "keeps (hinv J) (invokeRouter cfg E wc)"
  using assms by (auto intro!: keeps_simulateCall keeps_simulateRouter keeps_invokeWrite
    keeps_invokeRouter simp: growing_def)

section \<open>Previewed submissions\<close>

text \<open>
  The write calls the keeper pays for only after a preview, and the preview each needs: the
  latest simulation of that kind is of this very call and succeeded (for a trailing peak: it
  answered \<open>true\<close>).
\<close>

fun sameKind :: "sim_call \<Rightarrow> sim_call \<Rightarrow> bool" where
  "sameKind (SimLiquidate _) (SimLiquidate _) = True"
| "sameKind (SimExecuteOrder _) (SimExecuteOrder _) = True"
| "sameKind (SimRouterExecute _ _ _) (SimRouterExecute _ _ _) = True"
| "sameKind (SimCheckAdlTrigger _) (SimCheckAdlTrigger _) = True"
| "sameKind (SimUpdateTrailingPeak _) (SimUpdateTrailingPeak _) = True"
| "sameKind _ _ = False"

fun lastSim :: "sim_call \<Rightarrow> history \<Rightarrow> (sim_call \<times> (string + simulation_outcome)) option" where
  "lastSim k [] = None"
| "lastSim k (ev # h) =
     (case ev of Simulated c r \<Rightarrow> if sameKind c k then Some (c, r) else lastSim k h | _ \<Rightarrow> lastSim k h)"

fun preview :: "write_call \<Rightarrow> (sim_call \<times> sim_retval set) option" where
  "preview (Liquidate i) = Some (SimLiquidate i, UNIV)"
| "preview (LiquidateViaRouter i _ _) = Some (SimLiquidate i, UNIV)"
| "preview (ExecuteOrder i) = Some (SimExecuteOrder i, UNIV)"
| "preview (ExecuteOrderViaRouter i a rd) = Some (SimRouterExecute i a rd, UNIV)"
| "preview (UpdateTrailingPeak i) = Some (SimUpdateTrailingPeak i, {RetTrue})"
| "preview _ = None"

definition okAfter :: "sim_call \<Rightarrow> sim_retval set \<Rightarrow> history \<Rightarrow> bool" where
  "okAfter k V h \<longleftrightarrow> (\<exists>v \<in> V. lastSim k h = Some (k, Inr (SimOk v)))"

fun guarded :: "history \<Rightarrow> bool" where
  "guarded [] = True"
| "guarded (ev # h) = (guarded h \<and>
     (case ev of
        Submitted c _ \<Rightarrow> (case preview c of None \<Rightarrow> True | Some (k, V) \<Rightarrow> okAfter k V h)
      | _ \<Rightarrow> True))"

definition armed :: "sim_call \<Rightarrow> sim_retval set \<Rightarrow> history \<Rightarrow> bool" where
  "armed k V h \<longleftrightarrow> guarded h \<and> okAfter k V h"

lemma sameKind_refl [simp]: "sameKind k k"
  by (cases k) auto

lemma lastSim_skip: "\<not> is_action ev \<Longrightarrow> lastSim k (ev # h) = lastSim k h"
  by (cases ev) (auto simp: is_action_def)

lemma okAfter_submitted [simp]: "okAfter k V (Submitted c r # h) = okAfter k V h"
  by (simp add: okAfter_def)

lemma okAfter_other: "\<not> sameKind c k \<Longrightarrow> okAfter k V (Simulated c r # h) = okAfter k V h"
  by (simp add: okAfter_def)

lemma stable_guarded [simp]: "stable guarded"
proof -
  have "\<not> is_action ev \<Longrightarrow> guarded h \<Longrightarrow> guarded (ev # h)" for ev h
    by (cases ev) (auto simp: is_action_def)
  then show ?thesis by (simp add: stable_def)
qed

lemma stable_okAfter: "stable (okAfter k V)"
  by (simp add: stable_def okAfter_def lastSim_skip del: lastSim.simps)

lemma stable_armed [simp]: "stable (armed k V)"
  unfolding armed_def by (intro stable_conj stable_guarded stable_okAfter)

lemma guarded_simulated [simp]: "guarded (Simulated c r # h) = guarded h"
  by simp

lemma guarded_unpreviewed: "preview c = None \<Longrightarrow> guarded (Submitted c r # h) = guarded h"
  by simp

lemma armed_submit: "preview c = None \<or> preview c = Some (k, V) \<Longrightarrow> armed k V h \<Longrightarrow> armed k V (Submitted c r # h)"
  by (auto simp: armed_def)

lemma armed_other: "\<not> sameKind c k \<Longrightarrow> armed k V h \<Longrightarrow> armed k V (Simulated c r # h)"
  by (simp add: armed_def okAfter_other)

lemma keeps_guarded_sim [keeps_intros]: "keeps (hinv guarded) (simulateCall E c)"
  by (rule keeps_simulateCall) simp

lemma keeps_guarded_write: "preview c = None \<Longrightarrow> keeps (hinv guarded) (invokeWrite E c)"
  by (rule keeps_invokeWrite) (simp add: guarded_unpreviewed)

lemma keeps_guarded_router: "preview c = None \<Longrightarrow> keeps (hinv guarded) (invokeRouter cfg E c)"
  by (rule keeps_invokeRouter) (simp add: guarded_unpreviewed)

lemma keeps_triple: "keeps (hinv J) m \<Longrightarrow> triple (\<lambda>s. J (hist s)) m (\<lambda>_ s. J (hist s))"
  by (simp add: keeps_inv_iff)

lemma armed_weaken:
  "keeps (hinv (armed k V)) m \<Longrightarrow> triple (\<lambda>s. armed k V (hist s)) m (\<lambda>_ s. guarded (hist s))"
  unfolding keeps_inv_iff by (erule triple_conseq) (auto simp: armed_def)

text \<open>The step that arms a submission: preview, then whatever follows its success.\<close>

lemma keeps_previewed:
  assumes "\<And>e. keeps (hinv guarded) (f e)"
    and "\<And>v. v \<in> V \<Longrightarrow> keeps (hinv (armed k V)) (g v)" "\<And>v. v \<notin> V \<Longrightarrow> keeps (hinv guarded) (g v)"
  shows "keeps (hinv guarded) (bindE (simulateCall E k)
      (\<lambda>sim. case sim of SimErr e \<Rightarrow> f e | SimOk v \<Rightarrow> g v))"
  unfolding keeps_inv_iff
proof (rule triple_bindE)
  show "triple (\<lambda>s. guarded (hist s)) (simulateCall E k)
     (\<lambda>r s. guarded (hist s) \<and> (\<forall>v \<in> V. r = Inr (SimOk v) \<longrightarrow> armed k V (hist s)))"
    by (simp add: triple_def client_defs armed_def okAfter_def)
  fix sim
  show "triple (\<lambda>s. guarded (hist s) \<and> (\<forall>v \<in> V. Inr sim = Inr (SimOk v) \<longrightarrow> armed k V (hist s)))
     (case sim of SimErr e \<Rightarrow> f e | SimOk v \<Rightarrow> g v) (\<lambda>_ s. guarded (hist s))"
  proof (cases sim)
    case (SimOk v)
    then show ?thesis
      using armed_weaken [OF assms(2)] keeps_triple [OF assms(3)]
      by (cases "v \<in> V") (auto simp: triple_def)
  next
    case (SimErr e)
    then show ?thesis using keeps_triple [OF assms(1)] by (auto simp: triple_def)
  qed
qed auto

section \<open>The events a computation adds\<close>

definition since :: "keeper \<Rightarrow> keeper \<Rightarrow> event list" where
  "since s t = take (length (hist t) - length (hist s)) (hist t)"

definition adds :: "(event list \<Rightarrow> bool) \<Rightarrow> keeper \<Rightarrow> keeper \<Rightarrow> bool" where
  "adds P s t \<longleftrightarrow> (\<exists>new. hist t = new @ hist s \<and> P new)"

definition quiet :: "event list \<Rightarrow> bool" where
  "quiet new \<longleftrightarrow> (\<forall>ev \<in> set new. \<not> is_action ev)"

lemma since_append: "hist (t::keeper) = new @ hist (s::keeper) \<Longrightarrow> since s t = new"
  by (simp add: since_def)

lemma adds_since: "adds P s t \<Longrightarrow> P (since s t)"
  by (auto simp: adds_def since_append)

lemma quiet_simps [simp]: "quiet []" "quiet (ev # h) \<longleftrightarrow> \<not> is_action ev \<and> quiet h"
  "quiet (h @ h') \<longleftrightarrow> quiet h \<and> quiet h'"
  by (auto simp: quiet_def)

lemma adds_mono: "adds P s t \<Longrightarrow> (\<And>n. P n \<Longrightarrow> Q n) \<Longrightarrow> adds Q s t"
  by (auto simp: adds_def)

lemma adds_quiet_refl [simp, intro]: "reflp (adds quiet)"
  by (simp add: reflp_def adds_def)

lemma adds_quiet_trans [simp, intro]: "transp (adds quiet)"
  unfolding transp_def adds_def by (metis append_assoc quiet_simps(3))

text \<open>A helper that keeps every stable property adds no action.\<close>

lemma keeps_quiet:
  assumes "\<And>J. stable J \<Longrightarrow> keeps (hinv J) m"
  shows "keeps (adds quiet) m"
proof (rule keepsI)
  fix s :: keeper
  have "stable (\<lambda>h. \<exists>new. h = new @ hist s \<and> quiet new)"
    unfolding stable_def by (metis append_Cons quiet_simps(2))
  from keepsD [OF assms [OF this], of s] show "wp m (\<lambda>_. adds quiet s) s"
    by (rule wp_mono) (force simp: inv_rel_def adds_def)
qed

lemma wp_quiet:
  assumes "\<And>J. stable J \<Longrightarrow> keeps (hinv J) m"
    and "\<And>a t new. hist t = new @ hist s \<Longrightarrow> quiet new \<Longrightarrow> Q a t"
  shows "wp m Q s"
  using keeps_quiet [OF assms(1)] by (rule keepsW) (auto simp: adds_def dest: assms(2))

text \<open>Every event added is one of the given kind.\<close>

definition closed_under :: "(event \<Rightarrow> bool) \<Rightarrow> (history \<Rightarrow> bool) \<Rightarrow> bool" where
  "closed_under ok J \<longleftrightarrow> (\<forall>h ev. ok ev \<longrightarrow> J h \<longrightarrow> J (ev # h))"

lemma closed_under_stable: "closed_under ok J \<Longrightarrow> (\<And>ev. \<not> is_action ev \<Longrightarrow> ok ev) \<Longrightarrow> stable J"
  by (auto simp: closed_under_def stable_def)

lemma closed_underD: "closed_under ok J \<Longrightarrow> ok ev \<Longrightarrow> J h \<Longrightarrow> J (ev # h)"
  by (simp add: closed_under_def)

text \<open>
  \<open>yields m P\<close>: from any state, \<open>m\<close> adds events that satisfy \<open>P\<close> with its result. The rules
  compose the specification of a method from those of its calls; the events of a later step come
  in front, as in a history.
\<close>

definition yields :: "'a kprog \<Rightarrow> ('a \<Rightarrow> event list \<Rightarrow> bool) \<Rightarrow> bool" where
  "yields m P \<longleftrightarrow> (\<forall>s. wp m (\<lambda>r. adds (P r) s) s)"

lemma yields_since: "yields m P \<Longrightarrow> wp m (\<lambda>r t. P r (since s t)) s"
  unfolding yields_def by (blast intro: wp_mono adds_since)

lemma yieldsD: "yields m P \<Longrightarrow> wp m (\<lambda>r. adds (P r) s) s"
  by (simp add: yields_def)

lemma yields_conseq: "yields m P \<Longrightarrow> (\<And>r n. P r n \<Longrightarrow> Q r n) \<Longrightarrow> yields m Q"
  unfolding yields_def adds_def by (blast intro: wp_mono)

lemma yields_bind:
  assumes "yields m P" "\<And>a n. P a n \<Longrightarrow> yields (k a) (\<lambda>b n'. R b (n' @ n))"
  shows "yields (State_Monad.bind m k) R"
  unfolding yields_def wp_bind
proof
  fix s
  show "wp m (\<lambda>a. wp (k a) (\<lambda>b. adds (R b) s)) s"
  proof (rule wp_mono [OF yieldsD [OF assms(1)]])
    fix a t
    assume "adds (P a) s t"
    then obtain n where n: "hist t = n @ hist s" "P a n" by (auto simp: adds_def)
    from yieldsD [OF assms(2) [OF n(2)]]
    show "wp (k a) (\<lambda>b. adds (R b) s) t"
      by (rule wp_mono) (auto simp: adds_def n(1))
  qed
qed

lemma yields_bindE:
  assumes "yields m P" "\<And>a n. P (Inr a) n \<Longrightarrow> yields (k a) (\<lambda>b n'. R b (n' @ n))"
    and "\<And>e n. P (Inl e) n \<Longrightarrow> R (Inl e) n"
  shows "yields (bindE m k) R"
  unfolding bindE_def
proof (rule yields_bind [OF assms(1)])
  fix r n
  assume "P r n"
  with assms(2,3) show "yields (case r of Inl e \<Rightarrow> throw e | Inr a \<Rightarrow> k a) (\<lambda>b n'. R b (n' @ n))"
    by (cases r) (auto simp: yields_def adds_def)
qed

lemma yields_return [simp]: "yields (State_Monad.return a) P \<longleftrightarrow> P a []"
  by (auto simp: yields_def adds_def)

lemma yields_okay [simp]: "yields (okay a) P \<longleftrightarrow> P (Inr a) []"
  by (auto simp: okay_def)

lemma yields_throw [simp]: "yields (throw e) P \<longleftrightarrow> P (Inl e) []"
  by (auto simp: throw_def)

lemma yields_silent: "keeps (\<lambda>s t. hist t = hist s) m \<Longrightarrow> (\<And>r. P r []) \<Longrightarrow> yields m P"
  unfolding yields_def by (auto simp: adds_def elim!: keepsW)

lemma yields_quiet:
  "(\<And>J. stable J \<Longrightarrow> keeps (hinv J) m) \<Longrightarrow> (\<And>r n. quiet n \<Longrightarrow> P r n) \<Longrightarrow> yields m P"
  unfolding yields_def by (intro allI wp_quiet) (auto simp: adds_def)

lemma yields_lift: "yields (lift m) P \<longleftrightarrow> yields m (\<lambda>r. P (Inr r))"
  by (simp add: yields_def)

lemma yields_invokeWrite: "(\<And>r. P r [Submitted c r]) \<Longrightarrow> yields (invokeWrite E c) P"
  by (auto simp: yields_def adds_def client_defs)

lemma yields_invokeRouter:
  "(\<And>r. P r [Submitted c r]) \<Longrightarrow> P (Inr notConfigured) [] \<Longrightarrow> yields (invokeRouter cfg E c) P"
  by (auto simp: invokeRouter_def yields_invokeWrite)

lemma yields_simulate: "(\<And>r. P r [Simulated c r]) \<Longrightarrow> yields (simulateCall E c) P"
  by (auto simp: yields_def adds_def client_defs)

lemma yields_all:
  assumes "\<And>J. closed_under ok J \<Longrightarrow> keeps (hinv J) m"
  shows "yields m (\<lambda>_ n. \<forall>ev \<in> set n. ok ev)"
  unfolding yields_def
proof
  fix s :: keeper
  have "closed_under ok (\<lambda>h. \<exists>new. h = new @ hist s \<and> (\<forall>ev \<in> set new. ok ev))"
    unfolding closed_under_def by (metis append_Cons set_ConsD)
  from keepsD [OF assms [OF this], of s] show "wp m (\<lambda>r. adds (\<lambda>n. \<forall>ev \<in> set n. ok ev) s) s"
    by (rule wp_mono) (auto simp: inv_rel_def adds_def)
qed

lemma wp_all_since:
  "(\<And>J. closed_under ok J \<Longrightarrow> keeps (hinv J) m) \<Longrightarrow> wp m (\<lambda>_ t. \<forall>ev \<in> set (since s t). ok ev) s"
  by (rule yields_since [OF yields_all])

section \<open>Fields the helpers leave alone\<close>

text \<open>
  A function of the state is \<open>framed\<close> when it ignores the fields the shared helpers write: the
  history, statistics, log and alert maps, the read caches and the router map. Every helper keeps
  every framed function.
\<close>

definition framed :: "(keeper \<Rightarrow> 'f) \<Rightarrow> bool" where
  "framed f \<longleftrightarrow> (\<forall>s h st la tg lr rf cb vc mm rl.
     f (s\<lparr>hist := h\<rparr>) = f s \<and> f (s\<lparr>stats := st\<rparr>) = f s \<and> f (s\<lparr>lastSentAt := la\<rparr>) = f s \<and>
     f (s\<lparr>throttledLogAt := tg\<rparr>) = f s \<and> f (s\<lparr>latestRounds := lr\<rparr>) = f s \<and>
     f (s\<lparr>routerFnSupported := rf\<rparr>) = f s \<and> f (s\<lparr>crossBalanceCache := cb\<rparr>) = f s \<and>
     f (s\<lparr>vaultCoverageCache := vc\<rparr>) = f s \<and> f (s\<lparr>assetMmBpsCache := mm\<rparr>) = f s \<and>
     f (s\<lparr>riskLadderSupported := rl\<rparr>) = f s)"

abbreviation same :: "(keeper \<Rightarrow> 'f) \<Rightarrow> keeper \<Rightarrow> keeper \<Rightarrow> bool" where
  "same f \<equiv> (\<lambda>s t. f t = f s)"

lemma same_refl [simp, intro]: "reflp (same f)"
  by (simp add: reflp_def)

lemma same_trans [simp, intro]: "transp (same f)"
  by (simp add: transp_def)

lemma framedD:
  assumes "framed f"
  shows "f (s\<lparr>hist := h\<rparr>) = f s" "f (s\<lparr>stats := st\<rparr>) = f s" "f (s\<lparr>lastSentAt := la\<rparr>) = f s"
    "f (s\<lparr>throttledLogAt := tg\<rparr>) = f s" "f (s\<lparr>latestRounds := lr\<rparr>) = f s"
    "f (s\<lparr>routerFnSupported := rf\<rparr>) = f s" "f (s\<lparr>crossBalanceCache := cb\<rparr>) = f s"
    "f (s\<lparr>vaultCoverageCache := vc\<rparr>) = f s" "f (s\<lparr>assetMmBpsCache := mm\<rparr>) = f s"
    "f (s\<lparr>riskLadderSupported := rl\<rparr>) = f s"
  using assms unfolding framed_def by blast+

lemma same_modify: "(\<And>s. f (g s) = f s) \<Longrightarrow> keeps (same f) (modify g)"
  by (simp add: keeps_def)

lemma same_ask: "framed f \<Longrightarrow> keeps (same f) (ask g mk)"
  by (simp add: keeps_def framedD)

lemma same_emit: "framed f \<Longrightarrow> keeps (same f) (emit ev)"
  by (simp add: keeps_def framedD)

named_theorems same_intros \<open>framed fields are kept\<close>

lemma same_client [same_intros]:
  assumes "framed f"
  shows "keeps (same f) (simulateCall E sc)" "keeps (same f) (invokeWrite E wc)"
    "keeps (same f) (readInt E rd)" "keeps (same f) (isAdlActive E a)"
    "keeps (same f) (getAssetRiskMmBps E a)" "keeps (same f) (getOrderVault E i)"
    "keeps (same f) (fetchNoeracleFresh E)" "keeps (same f) (sleep ms)"
    "keeps (same f) saveKeeperState" "keeps (same f) (emit ev)"
    "keeps (same f) (invokeRouter cfg E wc)" "keeps (same f) (simulateRouterCall cfg E sc)"
  using assms unfolding client_defs invokeRouter_def simulateRouterCall_def
  by (auto intro: same_ask same_emit intro!: keeps_if keeps_okay)

lemma same_bumpStats [same_intros]: "framed f \<Longrightarrow> keeps (same f) (bumpStats g)"
  unfolding bumpStats_def by (rule same_modify) (simp add: framedD)

lemma same_markRouter [same_intros]: "framed f \<Longrightarrow> keeps (same f) (markRouterUnsupported g)"
  unfolding markRouterUnsupported_def by (rule same_modify) (simp add: framedD)

lemma same_sendAlert [same_intros]: "framed f \<Longrightarrow> keeps (same f) (sendAlert E l m)"
  unfolding sendAlert_def by (intro keeps_intros same_emit same_modify) (auto simp: framedD)

lemma same_logThrottled [same_intros]: "framed f \<Longrightarrow> keeps (same f) (logThrottled E k)"
  unfolding logThrottled_def by (intro keeps_intros same_modify) (auto simp: framedD Let_def)

lemma same_executionRound [same_intros]: "framed f \<Longrightarrow> keeps (same f) (getExecutionRound E a)"
  unfolding getExecutionRound_def
  by (intro keeps_intros same_intros same_modify) (auto simp: framedD cacheRounds_def)

section \<open>The contract of a cached read\<close>

text \<open>
  The cross-balance cache (one per trader) and the vault-coverage cache make the same promise:
  a value younger than the time-to-live is served without a request; otherwise one request
  is made, and its reply is stored with the time; when the request throws, the stale value is
  served and the cache is left alone.
\<close>

locale cached_read =
  fixes E :: env and ttl :: int and rd :: int_read
    and lookup :: "keeper \<Rightarrow> (int \<times> int) option"
    and fetch :: "int option kprog"
  assumes hit: "lookup s = Some (v, w) \<Longrightarrow> e_clock E (hist s) - w < ttl \<Longrightarrow>
      wp fetch (\<lambda>r t. r = Some v \<and> t = s) s"
    and miss: "(\<And>v w. lookup s = Some (v, w) \<Longrightarrow> ttl \<le> e_clock E (hist s) - w) \<Longrightarrow>
      e_readInt E (hist s) rd = Inr v \<Longrightarrow>
      wp fetch (\<lambda>r t. r = Some v \<and> lookup t = Some (v, e_clock E (hist s))
        \<and> hist t = ReadInt rd (Inr v) # hist s) s"
    and failed: "(\<And>v w. lookup s = Some (v, w) \<Longrightarrow> ttl \<le> e_clock E (hist s) - w) \<Longrightarrow>
      e_readInt E (hist s) rd = Inl e \<Longrightarrow>
      wp fetch (\<lambda>r t. r = map_option fst (lookup s) \<and> lookup t = lookup s
        \<and> hist t = ReadInt rd (Inl e) # hist s) s"
begin

text \<open>Whatever is served was read from the chain: just now, or when it was cached.\<close>

lemma value_provenance:
  "wp fetch (\<lambda>r t. \<forall>v. r = Some v \<longrightarrow>
     (\<exists>w. lookup s = Some (v, w)) \<or> ReadInt rd (Inr v) \<in> set (hist t)) s"
proof (cases "\<exists>v w. lookup s = Some (v, w) \<and> e_clock E (hist s) - w < ttl")
  case True
  then obtain v w where "lookup s = Some (v, w)" "e_clock E (hist s) - w < ttl" by blast
  from hit [OF this] show ?thesis
    by (rule wp_mono) (use \<open>lookup s = Some (v, w)\<close> in auto)
next
  case False
  then have stale: "\<And>v w. lookup s = Some (v, w) \<Longrightarrow> ttl \<le> e_clock E (hist s) - w" by force
  show ?thesis
  proof (cases "e_readInt E (hist s) rd")
    case (Inl e)
    from failed [OF stale this] show ?thesis by (rule wp_mono) auto
  next
    case (Inr v)
    from miss [OF stale this] show ?thesis by (rule wp_mono) auto
  qed
qed

text \<open>At most one request is made.\<close>

lemma one_request:
  "wp fetch (\<lambda>r t. hist t = hist s \<or> (\<exists>x. hist t = ReadInt rd x # hist s)) s"
proof (cases "\<exists>v w. lookup s = Some (v, w) \<and> e_clock E (hist s) - w < ttl")
  case True
  then obtain v w where "lookup s = Some (v, w)" "e_clock E (hist s) - w < ttl" by blast
  from hit [OF this] show ?thesis by (rule wp_mono) auto
next
  case False
  then have stale: "\<And>v w. lookup s = Some (v, w) \<Longrightarrow> ttl \<le> e_clock E (hist s) - w" by force
  show ?thesis
  proof (cases "e_readInt E (hist s) rd")
    case (Inl e)
    from failed [OF stale this] show ?thesis by (rule wp_mono) auto
  next
    case (Inr v)
    from miss [OF stale this] show ?thesis by (rule wp_mono) auto
  qed
qed

text \<open>Within the time-to-live of a successful read, a second call asks nothing.\<close>

lemma second_call_is_free:
  assumes "lookup s = None" "e_readInt E (hist s) rd = Inr v"
    and "e_clock E (ReadInt rd (Inr v) # hist s) - e_clock E (hist s) < ttl"
  shows "wp (State_Monad.bind fetch (\<lambda>_. fetch))
           (\<lambda>r t. r = Some v \<and> hist t = ReadInt rd (Inr v) # hist s) s"
proof -
  have "wp fetch (\<lambda>r t. r = Some v \<and> lookup t = Some (v, e_clock E (hist s))
        \<and> hist t = ReadInt rd (Inr v) # hist s) s"
    by (rule miss) (use assms in auto)
  then show ?thesis
  proof (simp, rule_tac wp_mono, assumption)
    fix a t
    assume "a = Some v \<and> lookup t = Some (v, e_clock E (hist s)) \<and> hist t = ReadInt rd (Inr v) # hist s"
    then show "wp fetch (\<lambda>r t. r = Some v \<and> hist t = ReadInt rd (Inr v) # hist s) t"
      using assms(3) by (intro wp_mono [OF hit [of t v "e_clock E (hist s)"]]) auto
  qed
qed

end

lemma wp_logThrottled:
  "(\<And>m. Q () (s\<lparr>throttledLogAt := m\<rparr>)) \<Longrightarrow> wp (logThrottled E k) Q s"
proof -
  assume Q: "\<And>m. Q () (s\<lparr>throttledLogAt := m\<rparr>)"
  from Q [of "throttledLogAt s"] have "Q () s" by simp
  with Q show ?thesis by (simp add: logThrottled_def Let_def wp_if)
qed

interpretation crossBalance: cached_read E CROSS_BALANCE_CACHE_MS "CrossMarginBalance trader"
    "\<lambda>s. map_of (crossBalanceCache s) trader" "getCrossBalanceCached E trader" for E trader
  by unfold_locales
    (force simp: getCrossBalanceCached_def client_defs wp_if intro!: wp_logThrottled split: sum.splits)+

interpretation vaultCoverage: cached_read E VAULT_COVERAGE_CACHE_MS VaultCoverage
    vaultCoverageCache "getVaultCoverageCached E" for E
  by unfold_locales
    (force simp: getVaultCoverageCached_def client_defs wp_if intro!: wp_logThrottled split: sum.splits)+

end
