(* ===== verification/KeeperStart.thy ===== *)
theory KeeperStart
  imports KeeperIO
begin

text \<open>
  The state a \<open>KeeperBot\<close> starts from (field initialisers and constructor of
  \<open>scripts/keeper/src/index.ts\<close>, given what \<open>loadKeeperState\<close> returned), a configuration and a
  two environments to run it in: one where every call fails, one where every call succeeds.
\<close>

definition initialStats :: keeper_stats where
  "initialStats = \<lparr>oracleUpdates = 0, liquidationsExecuted = 0, ordersExecuted = 0,
     ordersCancelledSlippage = 0, ordersSkippedOrphaned = 0, totalRewardsEarned = 0, errors = 0,
     priceSkips = 0, readFailures = 0, syncPnlPushes = 0, trailingPeakUpdates = 0,
     fundingApplications = 0, adlCloses = 0, adlFlagFlips = 0, ordersReconciled = 0,
     routerExecutions = 0, storkRelays = 0\<rparr>"

definition initialKeeper ::
    "int \<Rightarrow> (asset, price_data) jmap \<Rightarrow> int option \<Rightarrow> discovery_state option \<Rightarrow> keeper" where
  "initialKeeper t pushed fundedAt disc = \<lparr>
     hist = [], stats = initialStats,
     currentPrices = [], lastPushedPrices = pushed, lastOracleUpdate = 0,
     oracleUpdateInProgress = False, latestRounds = [], spikeAlertAt = [],
     lastSyncedPnlPrice = [], lastFullPnlSyncAt = 0,
     lastCycleCompletedAt = t, consecutiveCycleErrors = 0, consecutiveReadFailures = 0,
     lastFullSweepAt = 0,
     fundingFailureStreak = 0, nextFundingAttemptAt = 0, lastFundingSubmitTime = fundedAt,
     nextTtlBumpAt = 0,
     lastCustody = None, lastCustodyCheckAt = 0, custodyDeficitStreak = 0, custodyDisabledLogged = False,
     crossBalanceCache = [], assetMmBpsCache = [], riskLadderSupported = None, liqStrikes = [],
     adlActive = [], adlLastProbeAt = [], adlSupported = None, adlUnsupportedLogged = False,
     vaultCoverageCache = None,
     orphanedOrderIds = [], triggeredStuckCounts = [], routerFnSupported = [],
     factoryReconcileSupported = None, factoryReconcileUnsupportedLogged = False,
     discovery = (case disc of None \<Rightarrow> emptyDiscoveryState | Some d \<Rightarrow> d),
     lastGoodPositions = None, lastGoodOrders = None,
     positionMismatchStreak = 0, orderMismatchStreak = 0,
     lastSentAt = [], throttledLogAt = []\<rparr>"

section \<open>A concrete run\<close>

definition sampleConfig :: keeper_config where
  "sampleConfig = \<lparr>routerContractId = [], vaultFactoryContractId = [], usdcTokenContractId = [],
     assets = [\<lparr>ac_symbol = ''XLM'', ac_maxMovePct = 20, ac_minPrice = 1 / 100, ac_maxPrice = 5\<rparr>],
     discoveryMode = ChainWalk, oracleUpdateIntervalMs = 30000, triggerConfirmReads = 2,
     spikeAlertPct = 2, referenceDivergencePct = 2, storkMaxDivergencePct = 3,
     adlTriggerRatioBps = 10000, adlClearRatioBps = 12000, adlMaxClosesPerCycle = 3,
     adlCheckIntervalMs = 60000, triggeredStuckAlertCycles = 5, ttlBumpIntervalMs = 21600000,
     minKeeperXlm = 50, ttlContractIds = [], alertErrorStreak = 5, watchdogTimeoutMs = 300000\<rparr>"

text \<open>Every call fails; the clock advances a second per interaction.\<close>

definition failingEnv :: env where
  "failingEnv = \<lparr>e_clock = (\<lambda>h. 1700000000000 + 1000 * int (length h)),
     e_simulate = (\<lambda>_ _. Inl ''down''), e_submit = (\<lambda>_ _. Inl ''down''), e_readInt = (\<lambda>_ _. Inl ''down''),
     e_adlActive = (\<lambda>_ _. Inl ''down''), e_assetRisk = (\<lambda>_ _. Inl ''down''),
     e_orderVault = (\<lambda>_ _. Inl ''down''), e_position = (\<lambda>_ _. Inl ''down''), e_order = (\<lambda>_ _. Inl ''down''),
     e_positionIds = (\<lambda>_. Inl ''down''), e_orderIds = (\<lambda>_. Inl ''down''), e_control = (\<lambda>_. Inl ''down''),
     e_positionEntries = (\<lambda>_ _. Inl ''down''), e_orderEntries = (\<lambda>_ _. Inl ''down''),
     e_rounds = (\<lambda>_. Inl ''down''), e_reference = (\<lambda>_ _. None), e_stork = (\<lambda>_ _. None),
     e_xlm = (\<lambda>_. None), e_bumpTtl = (\<lambda>_ _. False)\<rparr>"


text \<open>Every call succeeds, on a deployment with one market.\<close>

definition samplePosition :: position where
  "samplePosition = \<lparr>p_asset = ''XLM'', p_collateral = 100000000, p_size = 1000000000, p_entry_price = 1000000,
     p_direction = Long, p_liquidation_price = 920000, p_id = 7, p_leverage = 10,
     p_trader = ''GTRADER'', p_timestamp = 0, p_entry_cumulative_funding = 0, p_margin_mode = 0\<rparr>"

definition sampleOrder :: order where
  "sampleOrder = \<lparr>o_id = 3, o_trader = ''GTRADER'', o_asset = ''XLM'', o_order_type = StopLoss, o_direction = Long,
     o_collateral = 0, o_leverage = 1, o_trigger_price = 950000, o_trigger_condition = Below,
     o_slippage_tolerance_bps = 100, o_position_id = 7, o_has_position = True, o_created_at = 0,
     o_status = Pending, o_limit_price = 0, o_trailing_percent_bps = 0, o_time_in_force = 0,
     o_stop_limit_phase = 0\<rparr>"

definition sampleSnapshot :: market_snapshot where
  "sampleSnapshot = \<lparr>snap_positions = [samplePosition, samplePosition\<lparr>p_id := 8, p_margin_mode := 1\<rparr>],
     snap_orders = [sampleOrder]\<rparr>"

definition landedResult :: execution_result where
  "landedResult = \<lparr>success = True, txHash = Some ''hash'', reward = Some 0, error = None, indeterminate = False\<rparr>"

definition sampleRound :: attestation where
  "sampleRound = \<lparr>a_asset = ''XLM/USD'', a_price = 1200000, a_price_human = Num (12 / 100),
     a_round_id = 4, a_timestamp = 0, a_publisher = ''noether'', a_signature = ''00'', a_message = ''00''\<rparr>"

definition workingEnv :: env where
  "workingEnv = failingEnv\<lparr>e_simulate := (\<lambda>_ _. Inr (SimOk RetTrue)), e_submit := (\<lambda>_ _. Inr landedResult),
     e_readInt := (\<lambda>_ _. Inr 5), e_adlActive := (\<lambda>_ _. Inr True), e_orderVault := (\<lambda>_ _. Inr None),
     e_rounds := (\<lambda>_. Inr [sampleRound]), e_reference := (\<lambda>_ _. Some (12 / 100)),
     e_positionIds := (\<lambda>_. Inr [7]), e_orderIds := (\<lambda>_. Inr [3]),
     e_position := (\<lambda>_ i. Inr (if i = 7 then Some samplePosition else None)),
     e_order := (\<lambda>_ i. Inr (if i = 3 then Some sampleOrder else None))\<rparr>"

text \<open>Configurations that confirm on the first read and that enumerate ids instead of walking.\<close>

definition promptConfig :: keeper_config where
  "promptConfig = sampleConfig\<lparr>discoveryMode := Legacy, triggerConfirmReads := 1\<rparr>"

definition sampleKeeper :: keeper where
  "sampleKeeper = initialKeeper 1700000000000 [] None None"

end
