(* ===== verification/KeeperLiquidation.thy ===== *)
theory KeeperLiquidation
  imports KeeperStart
begin

text \<open>
  The liquidation phases of \<open>scripts/keeper/src/index.ts\<close>: two-strike confirmation,
  isolated positions (local prefilter, simulation, confirmation, submission through the router
  with direct fallback) and cross-margin accounts.
\<close>

section \<open>Definitions\<close>

definition deleteStrike :: "strike_key \<Rightarrow> unit kprog" where
  "deleteStrike k = modify (\<lambda>s. s\<lparr>liqStrikes := jdel k (liqStrikes s)\<rparr>)"

definition confirmStrike :: "keeper_config \<Rightarrow> strike_key \<Rightarrow> bool \<Rightarrow> bool kprog" where
  "confirmStrike cfg k bankrupt =
     (if bankrupt \<or> triggerConfirmReads cfg \<le> 1 then do { deleteStrike k; ret True }
      else do {
        strikes \<leftarrow> gets (\<lambda>s. jget_or (liqStrikes s) k 0 + 1);
        if strikes \<ge> triggerConfirmReads cfg then do { deleteStrike k; ret True }
        else do {
          modify (\<lambda>s. s\<lparr>liqStrikes := jset k strikes (liqStrikes s)\<rparr>);
          ret False } })"

text \<open>Bookkeeping for a liquidation result: statistics and the reward.\<close>

definition countLiquidation :: "bool \<Rightarrow> execution_result \<Rightarrow> unit kprog" where
  "countLiquidation viaRouter result =
     bumpStats (\<lambda>st. st\<lparr>
       routerExecutions := routerExecutions st + (if viaRouter then 1 else 0),
       liquidationsExecuted := liquidationsExecuted st + 1,
       totalRewardsEarned := totalRewardsEarned st + (case reward result of None \<Rightarrow> 0 | Some r \<Rightarrow> r)\<rparr>)"

text \<open>
  The router leg shared in shape by the executions: \<open>None\<close> when the direct call has to be made.
\<close>

definition liquidateRouterLeg :: "keeper_config \<Rightarrow> env \<Rightarrow> position \<Rightarrow> execution_result option keprog" where
  "liquidateRouterLeg cfg E position = do {
     avail \<leftarrow> gets (routerAvailable cfg LiquidateWithPrice);
     if \<not> avail then okay None
     else do {
       round \<leftarrow> getExecutionRound E (p_asset position);
       case round of
         None \<Rightarrow> okay None
       | Some rd \<Rightarrow>
           bindE (invokeRouter cfg E (LiquidateViaRouter (p_id position) (p_asset position) rd))
             (\<lambda>result. if \<not> success result \<and> \<not> indeterminate result
                then do {
                  (if isMissingContractFunction (errorText result)
                   then markRouterUnsupported LiquidateWithPrice else skip);
                  okay None }
                else okay (Some result)) } }"

definition executeLiquidation :: "keeper_config \<Rightarrow> env \<Rightarrow> position \<Rightarrow> unit keprog" where
  "executeLiquidation cfg E position =
     bindE (liquidateRouterLeg cfg E position)
       (\<lambda>routed. case routed of
          Some result \<Rightarrow> lift (if success result then countLiquidation True result else skip)
        | None \<Rightarrow> bindE (invokeWrite E (Liquidate (p_id position)))
            (\<lambda>result. lift (if success result then countLiquidation False result else skip)))"

definition liquidationCandidate ::
    "env \<Rightarrow> bool \<Rightarrow> int option \<Rightarrow> position \<Rightarrow> bool kprog" where
  "liquidationCandidate E fullSweep price position =
     (if fullSweep then ret True
      else (case price of
              None \<Rightarrow> ret True
            | Some p \<Rightarrow> do {
                mm \<leftarrow> prefilterMmBps E (p_asset position);
                ret (isLiquidationCandidate position p mm CANDIDATE_BUFFER) }))"

definition liquidationRejected :: "env \<Rightarrow> position \<Rightarrow> string \<Rightarrow> unit kprog" where
  "liquidationRejected E position err = do {
     let code = extractContractErrorCode err;
     (if code = Some 50 \<or> code = Some 20 then deleteStrike (Iso (p_id position)) else skip);
     (if code \<in> {Some 50, Some 20, Some 83, Some 90, Some 86} then skip
      else logThrottled E (''liq-sim'', p_id position, [])) }"

definition checkIsolated ::
    "keeper_config \<Rightarrow> env \<Rightarrow> bool \<Rightarrow> (asset \<Rightarrow> int option) \<Rightarrow> position \<Rightarrow> unit keprog" where
  "checkIsolated cfg E fullSweep prices position =
     (let price = prices (p_asset position) in
      bindE (lift (liquidationCandidate E fullSweep price position)) (\<lambda>candidate.
        if \<not> candidate then lift (deleteStrike (Iso (p_id position)))
        else bindE (simulateCall E (SimLiquidate (p_id position))) (\<lambda>sim.
          case sim of
            SimErr err \<Rightarrow> lift (liquidationRejected E position err)
          | SimOk _ \<Rightarrow>
              bindE (lift (confirmStrike cfg (Iso (p_id position))
                  (case price of None \<Rightarrow> False | Some p \<Rightarrow> positionMargin position p 0 \<le> 0)))
                (\<lambda>go. if \<not> go then okay () else executeLiquidation cfg E position))))"

definition strikeKeyOf :: "position \<Rightarrow> strike_key" where
  "strikeKeyOf p = (if p_margin_mode p = 1 then Cross (p_trader p) else Iso (p_id p))"

definition pruneStrikes :: "position list \<Rightarrow> unit kprog" where
  "pruneStrikes ps = modify (\<lambda>s. s\<lparr>liqStrikes :=
     jkeep (\<lambda>k. k \<in> strikeKeyOf ` set ps) (liqStrikes s)\<rparr>)"

definition checkLiquidations :: "keeper_config \<Rightarrow> env \<Rightarrow> market_snapshot \<Rightarrow> bool \<Rightarrow> unit kprog" where
  "checkLiquidations cfg E snap fullSweep = do {
     prices \<leftarrow> gets localPriceMap;
     pruneStrikes (snap_positions snap);
     for_each (snap_positions snap) (\<lambda>position.
       if p_margin_mode position = 1 then skip
       else catch (checkIsolated cfg E fullSweep prices position)
              (\<lambda>e. logThrottled E (''liq-err'', p_id position, []))) }"

section \<open>Cross-margin accounts\<close>

definition crossByTrader :: "position list \<Rightarrow> (address, position list) jmap" where
  "crossByTrader ps =
     fold (\<lambda>p m. if p_margin_mode p \<noteq> 1 then m else jpush (p_trader p) p m) ps []"

text \<open>\<open>mmByAsset\<close>: one prefilter lookup per distinct asset.\<close>

primrec mmByAsset :: "env \<Rightarrow> position list \<Rightarrow> (asset, int) jmap \<Rightarrow> (asset, int) jmap kprog" where
  "mmByAsset E [] m = ret m"
| "mmByAsset E (p # ps) m =
     (if map_of m (p_asset p) \<noteq> None then mmByAsset E ps m
      else do {
        mm \<leftarrow> prefilterMmBps E (p_asset p);
        mmByAsset E ps (jset (p_asset p) mm m) })"

text \<open>One round per distinct asset; a missing one empties the list and stops.\<close>

primrec collectRounds :: "env \<Rightarrow> asset list \<Rightarrow> (asset \<times> attestation) list \<Rightarrow> (asset \<times> attestation) list kprog" where
  "collectRounds E [] acc = ret acc"
| "collectRounds E (a # as) acc = do {
     round \<leftarrow> getExecutionRound E a;
     case round of
       None \<Rightarrow> ret []
     | Some rd \<Rightarrow> collectRounds E as (acc @ [(a, rd)]) }"

definition crossExpected :: "nat option \<Rightarrow> bool" where
  "crossExpected code \<longleftrightarrow> code \<in> {Some 78, Some 83, Some 90, Some 86}"

definition crossRouterLeg ::
    "keeper_config \<Rightarrow> env \<Rightarrow> address \<Rightarrow> position list \<Rightarrow> execution_result option keprog" where
  "crossRouterLeg cfg E trader positions = do {
     avail \<leftarrow> gets (routerAvailable cfg LiquidateCrossWithPrices);
     if \<not> avail then okay None
     else do {
       rounds \<leftarrow> collectRounds E (to_set (map p_asset positions)) [];
       if rounds = [] then okay None
       else bindE (invokeRouter cfg E (LiquidateCrossViaRouter trader rounds))
         (\<lambda>result. if \<not> success result \<and> \<not> indeterminate result
            then do {
              (if isMissingContractFunction (errorText result)
               then markRouterUnsupported LiquidateCrossWithPrices else skip);
              okay (if crossExpected (errorCode result) then Some result else None) }
            else okay (Some result)) } }"

definition handleCrossResult :: "env \<Rightarrow> address \<Rightarrow> bool \<Rightarrow> execution_result \<Rightarrow> unit kprog" where
  "handleCrossResult E trader viaRouter result =
     (if success result then countLiquidation viaRouter result
      else if indeterminate result then skip
      else if crossExpected (errorCode result) then skip
      else logThrottled E (''cross-liq'', 0, trader))"

definition submitCross :: "keeper_config \<Rightarrow> env \<Rightarrow> address \<Rightarrow> position list \<Rightarrow> unit keprog" where
  "submitCross cfg E trader positions =
     bindE (crossRouterLeg cfg E trader positions)
       (\<lambda>routed. case routed of
          Some result \<Rightarrow> lift (handleCrossResult E trader True result)
        | None \<Rightarrow> bindE (invokeWrite E (LiquidateCrossAccount trader))
            (\<lambda>result. lift (handleCrossResult E trader False result)))"

text \<open>The candidate test: \<open>None\<close> when the pool balance is unreadable (the trader is skipped).\<close>

definition crossCandidate ::
    "env \<Rightarrow> (asset \<Rightarrow> int option) \<Rightarrow> bool \<Rightarrow> address \<Rightarrow> position list \<Rightarrow> bool option kprog" where
  "crossCandidate E prices fullSweep trader positions =
     (if fullSweep then ret (Some True)
      else do {
        balance \<leftarrow> getCrossBalanceCached E trader;
        case balance of
          None \<Rightarrow> ret None
        | Some b \<Rightarrow> do {
            mm \<leftarrow> mmByAsset E positions [];
            ret (Some (isCrossLiquidationCandidate b positions prices
              (\<lambda>p. jget_or mm (p_asset p) DEFAULT_MAINTENANCE_MARGIN_BPS) CANDIDATE_BUFFER)) } })"

definition checkCrossAccount ::
    "keeper_config \<Rightarrow> env \<Rightarrow> (asset \<Rightarrow> int option) \<Rightarrow> bool \<Rightarrow> address \<Rightarrow> position list \<Rightarrow> unit keprog" where
  "checkCrossAccount cfg E prices fullSweep trader positions =
     bindE (lift (crossCandidate E prices fullSweep trader positions)) (\<lambda>candidate.
       case candidate of
         None \<Rightarrow> okay ()
       | Some False \<Rightarrow> lift (deleteStrike (Cross trader))
       | Some True \<Rightarrow>
           bindE (lift (getCrossBalanceCached E trader)) (\<lambda>equityBalance.
             let equity = (case equityBalance of
                   None \<Rightarrow> None
                 | Some b \<Rightarrow> crossEquity b positions prices);
                 bankrupt = (case equity of None \<Rightarrow> False | Some e \<Rightarrow> e \<le> 0)
             in bindE (lift (confirmStrike cfg (Cross trader) bankrupt)) (\<lambda>go.
                  if \<not> go then okay () else submitCross cfg E trader positions)))"

definition checkCrossMarginLiquidations ::
    "keeper_config \<Rightarrow> env \<Rightarrow> market_snapshot \<Rightarrow> bool \<Rightarrow> unit kprog" where
  "checkCrossMarginLiquidations cfg E snap fullSweep =
     (let byTrader = crossByTrader (snap_positions snap) in
      if byTrader = [] then skip
      else do {
        modify (\<lambda>s. s\<lparr>crossBalanceCache :=
          jkeep (\<lambda>t. map_of byTrader t \<noteq> None) (crossBalanceCache s)\<rparr>);
        prices \<leftarrow> gets localPriceMap;
        for_each byTrader (\<lambda>(trader, positions).
          catch (checkCrossAccount cfg E prices fullSweep trader positions)
            (\<lambda>e. logThrottled E (''cross-err'', 0, trader))) })"

section \<open>Lemmas\<close>

lemma keeps_deleteStrike [keeps_intros]: "keeps (hinv J) (deleteStrike k)"
  unfolding deleteStrike_def by (rule keeps_modify_hist) simp

lemma keeps_confirmStrike [keeps_intros]: "keeps (hinv J) (confirmStrike cfg k b)"
  unfolding confirmStrike_def by (intro keeps_intros) auto

lemma keeps_countLiquidation [keeps_intros]: "keeps (hinv J) (countLiquidation v r)"
  unfolding countLiquidation_def by (intro keeps_intros)

lemma keeps_executeLiquidation:
  "keeps (hinv (armed (SimLiquidate (p_id p)) UNIV)) (executeLiquidation cfg E p)"
  unfolding executeLiquidation_def liquidateRouterLeg_def
  by (intro keeps_intros keeps_invokeRouter keeps_invokeWrite) (auto intro: armed_submit)

lemma keeps_liquidationCandidate [keeps_intros]:
  "stable J \<Longrightarrow> keeps (hinv J) (liquidationCandidate E fs pr p)"
  unfolding liquidationCandidate_def by (intro keeps_intros) auto

lemma keeps_liquidationRejected [keeps_intros]:
  "stable J \<Longrightarrow> keeps (hinv J) (liquidationRejected E p err)"
  unfolding liquidationRejected_def by (intro keeps_intros) auto

lemma checkIsolated_guarded: "keeps (hinv guarded) (checkIsolated cfg E fs prices p)"
  unfolding checkIsolated_def Let_def
  by (rule keeps_bindE, simp, simp, (intro keeps_intros; simp),
      rule keeps_if, (intro keeps_intros; simp), rule keeps_previewed [where V = UNIV];
      intro keeps_intros keeps_executeLiquidation; simp)

lemma keeps_checkLiquidations: "keeps (hinv guarded) (checkLiquidations cfg E snap fs)"
  unfolding checkLiquidations_def pruneStrikes_def
  by (intro keeps_intros checkIsolated_guarded) auto

section \<open>Properties\<close>

text \<open>The reads of consecutive cycles, none of them at or below zero equity.\<close>

primrec strikeReads :: "keeper_config \<Rightarrow> strike_key \<Rightarrow> nat \<Rightarrow> bool list kprog" where
  "strikeReads cfg k 0 = ret []"
| "strikeReads cfg k (Suc n) = do {
     r \<leftarrow> confirmStrike cfg k False;
     rs \<leftarrow> strikeReads cfg k n;
     ret (r # rs) }"

lemma strikeReads_from:
  assumes "N = max 1 (triggerConfirmReads cfg)" "jget_or (liqStrikes s) k 0 < N"
  shows "wp (strikeReads cfg k n)
     (\<lambda>rs _. rs = map (\<lambda>i. (jget_or (liqStrikes s) k 0 + i) mod N = 0) [1..<Suc n]) s"
  using assms(2)
proof (induction n arbitrary: s)
  case 0
  then show ?case by simp
next
  case (Suc n)
  let ?c = "jget_or (liqStrikes s) k 0"
  have shift: "map f [1..<Suc (Suc n)] = f 1 # map (\<lambda>i. f (Suc i)) [1..<Suc n]" for f :: "nat \<Rightarrow> bool"
    by (simp add: upt_conv_Cons map_Suc_upt [symmetric] del: upt_Suc)
  have mods: "(?c + Suc i) mod N = (if Suc ?c = N then i mod N else (Suc ?c + i) mod N)" for i
    by (metis add.left_commute add_Suc_right mod_add_self1 add_Suc_shift)
  have "wp (confirmStrike cfg k False)
      (\<lambda>r t. r = (Suc ?c = N) \<and> jget_or (liqStrikes t) k 0 = (if Suc ?c = N then 0 else Suc ?c)) s"
    using assms(1) Suc.prems by (auto simp: confirmStrike_def deleteStrike_def wp_if max_def split: if_splits)
  then show ?case
    unfolding strikeReads.simps wp_bind
  proof (rule wp_mono)
    fix r :: bool and t :: keeper
    assume t: "r = (Suc ?c = N) \<and> jget_or (liqStrikes t) k 0 = (if Suc ?c = N then 0 else Suc ?c)"
    with Suc.prems assms(1) have "jget_or (liqStrikes t) k 0 < N" by auto
    have eq: "map (\<lambda>i. (?c + i) mod N = 0) [1..<Suc (Suc n)] =
        r # map (\<lambda>i. (jget_or (liqStrikes t) k 0 + i) mod N = 0) [1..<Suc n]"
      unfolding shift
    proof (rule arg_cong2 [where f = Cons])
      show "((?c + 1) mod N = 0) = r" using t Suc.prems by (auto simp: mod_if)
      have "((?c + Suc i) mod N = 0) = ((jget_or (liqStrikes t) k 0 + i) mod N = 0)" for i
        using t by (simp only: mods) (cases "Suc ?c = N"; simp)
      then show "map (\<lambda>i. (?c + Suc i) mod N = 0) [1..<Suc n]
          = map (\<lambda>i. (jget_or (liqStrikes t) k 0 + i) mod N = 0) [1..<Suc n]"
        by simp
    qed
    from Suc.IH [OF \<open>jget_or (liqStrikes t) k 0 < N\<close>]
    show "wp (strikeReads cfg k n) (\<lambda>rs. wp (ret (r # rs))
        (\<lambda>rs _. rs = map (\<lambda>i. (?c + i) mod N = 0) [1..<Suc (Suc n)])) t"
      unfolding eq by (rule wp_mono) simp
  qed
qed

text \<open>Two-strike confirmation: on consecutive non-bankrupt reads of a candidate that starts
  without strikes, a submission is released exactly at every \<open>triggerConfirmReads\<close>-th read (at every
  read when that setting is 0 or 1), and a bankrupt read is released at once, clearing the strikes.\<close>

theorem confirmStrike_releases:
  assumes "map_of (liqStrikes s) k = None"
  shows "wp (strikeReads cfg k n)
           (\<lambda>rs _. rs = map (\<lambda>i. i mod max 1 (triggerConfirmReads cfg) = 0) [1..<Suc n]) s
       \<and> wp (confirmStrike cfg k True) (\<lambda>r t. r \<and> map_of (liqStrikes t) k = None) s"
  using strikeReads_from [OF refl, of s k cfg n] assms
  by (auto simp: jget_or_def confirmStrike_def deleteStrike_def)


theorem confirmStrike_releases_witness:
  "wp (strikeReads sampleConfig (Iso 7) 4) (\<lambda>rs _. rs = [False, True, False, True]) sampleKeeper"
proof -
  have "map_of (liqStrikes sampleKeeper) (Iso 7) = None"
    by (simp add: sampleKeeper_def initialKeeper_def)
  note confirmStrike_releases [OF this, THEN conjunct1, of sampleConfig 4]
  moreover have "map (\<lambda>i. i mod max 1 (triggerConfirmReads sampleConfig) = 0) [1..<Suc 4] = [False, True, False, True]"
    by code_simp
  ultimately show ?thesis by simp
qed

definition previewed :: "nat \<Rightarrow> history \<Rightarrow> bool" where
  "previewed i h \<longleftrightarrow> (\<exists>r. Simulated (SimLiquidate i) r \<in> set h)"

lemma growing_previewed [simp]: "growing (previewed i)"
  unfolding previewed_def by simp

lemma keeps_checkIsolated_growing:
  "growing J \<Longrightarrow> keeps (hinv J) (checkIsolated cfg E fs prices p)"
  unfolding checkIsolated_def executeLiquidation_def liquidateRouterLeg_def Let_def
    simulation_outcome.case_distrib
  by (rule keeps_bindE, simp, simp, (intro keeps_intros; simp), rule keeps_if,
      (intro keeps_intros; simp), rule keeps_bindE, simp, simp, simp add: keeps_growing)
    (auto intro!: keeps_intros simp: keeps_growing split: simulation_outcome.split)

lemma checkIsolated_previews: "wp (checkIsolated cfg E True prices p) (\<lambda>_ t. previewed (p_id p) (hist t)) s"
proof -
  let ?r = "e_simulate E (hist s) (SimLiquidate (p_id p))"
  let ?s' = "s\<lparr>hist := Simulated (SimLiquidate (p_id p)) ?r # hist s\<rparr>"
  have "keeps (hinv (previewed (p_id p))) (case sim of
      SimErr err \<Rightarrow> lift (liquidationRejected E p err)
    | SimOk _ \<Rightarrow>
        bindE (lift (confirmStrike cfg (Iso (p_id p))
            (case prices (p_asset p) of None \<Rightarrow> False | Some pr \<Rightarrow> positionMargin p pr 0 \<le> 0)))
          (\<lambda>go. if \<not> go then okay () else executeLiquidation cfg E p))" for sim
    unfolding executeLiquidation_def liquidateRouterLeg_def
    by (auto intro!: keeps_intros simp: keeps_growing split: simulation_outcome.split)
  then have "triple (\<lambda>t. previewed (p_id p) (hist t)) (case sim of
      SimErr err \<Rightarrow> lift (liquidationRejected E p err)
    | SimOk _ \<Rightarrow>
        bindE (lift (confirmStrike cfg (Iso (p_id p))
            (case prices (p_asset p) of None \<Rightarrow> False | Some pr \<Rightarrow> positionMargin p pr 0 \<le> 0)))
          (\<lambda>go. if \<not> go then okay () else executeLiquidation cfg E p))
      (\<lambda>_ t. previewed (p_id p) (hist t))" for sim
    by (rule keeps_triple)
  moreover have "previewed (p_id p) (hist ?s')" by (auto simp: previewed_def)
  ultimately show ?thesis
    by (cases ?r) (auto simp: checkIsolated_def liquidationCandidate_def wp_bindE client_defs Let_def
      triple_def)
qed

text \<open>The full sweep is complete: whatever the prices, the caches and the replies of the
  chain, it simulates the liquidation of every isolated position of the snapshot.\<close>

theorem fullSweep_previews_every_isolated:
  "wp (checkLiquidations cfg E snap True)
     (\<lambda>_ t. \<forall>p \<in> set (snap_positions snap). p_margin_mode p \<noteq> 1 \<longrightarrow>
        (\<exists>r. Simulated (SimLiquidate (p_id p)) r \<in> set (hist t))) s"
proof -
  have "wp (checkLiquidations cfg E snap True) (\<lambda>_ t. previewed (p_id p) (hist t)) s"
    if p: "p \<in> set (snap_positions snap)" "p_margin_mode p \<noteq> 1" for p
    unfolding checkLiquidations_def wp_bind wp_gets pruneStrikes_def wp_update
  proof (rule for_each_establishes [OF p(1)])
    fix t :: keeper
    show "wp (if p_margin_mode p = 1 then skip
        else catch (checkIsolated cfg E True (localPriceMap s) p)
               (\<lambda>e. logThrottled E (''liq-err'', p_id p, []))) (\<lambda>_ t. previewed (p_id p) (hist t)) t"
      using p(2) by (auto simp: wp_catch split: sum.split
        intro!: wp_mono [OF checkIsolated_previews] wp_logThrottled)
  next
    fix q
    show "keeps (hinv (previewed (p_id p))) (if p_margin_mode q = 1 then skip
        else catch (checkIsolated cfg E True (localPriceMap s) q)
               (\<lambda>e. logThrottled E (''liq-err'', p_id q, [])))"
      by (intro keeps_intros keeps_checkIsolated_growing) auto
  qed
  then show ?thesis by (simp add: wp_eq_run previewed_def)
qed

theorem fullSweep_witness:
  "\<exists>r. Simulated (SimLiquidate 7) r \<in>
     set (hist (snd (run_state (checkLiquidations sampleConfig failingEnv sampleSnapshot True) sampleKeeper)))"
proof -
  have p: "samplePosition \<in> set (snap_positions sampleSnapshot)" "p_margin_mode samplePosition \<noteq> 1"
    "p_id samplePosition = 7"
    by (simp_all add: sampleSnapshot_def samplePosition_def)
  from wp_run [OF fullSweep_previews_every_isolated [where cfg = sampleConfig and E = failingEnv and s = sampleKeeper],
    rule_format, OF p(1,2)]
  show ?thesis by (simp add: p(3))
qed

text \<open>Direct submissions against router submissions of one position.\<close>

fun routerTook :: "nat \<Rightarrow> event \<Rightarrow> bool" where
  "routerTook i (Submitted (LiquidateViaRouter j _ _) r) =
     (j = i \<and> (case r of Inl _ \<Rightarrow> True | Inr x \<Rightarrow> success x \<or> indeterminate x))"
| "routerTook i _ = False"

lemma quiet_routerTook: "quiet new \<Longrightarrow> ev \<in> set new \<Longrightarrow> \<not> routerTook i ev"
  by (cases ev) (auto simp: quiet_def is_action_def)

lemma quiet_no_submit: "quiet new \<Longrightarrow> Submitted c r \<notin> set new"
  by (auto simp: quiet_def is_action_def)

text \<open>C7. Liveness before freshness: liquidating a position submits the direct call if and only
  if the router leg did not already take it (no router, no usable signed round, or a router
  submission that failed for certain); never after a router submission that
  succeeded, may still land, or threw.\<close>

theorem executeLiquidation_falls_back:
  "wp (executeLiquidation cfg E p)
     (\<lambda>_ t. (\<exists>r. Submitted (Liquidate (p_id p)) r \<in> set (since s t))
              \<longleftrightarrow> \<not> (\<exists>ev \<in> set (since s t). routerTook (p_id p) ev)) s"
proof -
  define Q where "Q r = adds (\<lambda>new. (\<forall>x. Submitted (Liquidate (p_id p)) x \<notin> set new) \<and>
       ((\<exists>ev \<in> set new. routerTook (p_id p) ev) \<longleftrightarrow> r \<noteq> Inr None)) s" for r :: "string + execution_result option"
  have "wp (liquidateRouterLeg cfg E p) Q s"
  proof (cases "routerAvailable cfg LiquidateWithPrice s")
    case False
    then show ?thesis by (simp add: liquidateRouterLeg_def Q_def adds_def)
  next
    case True
    then have "wp (liquidateRouterLeg cfg E p) Q s = wp (getExecutionRound E (p_asset p)) (\<lambda>r. wp (case r of
           None \<Rightarrow> okay None
       | Some rd \<Rightarrow>
           bindE (invokeRouter cfg E (LiquidateViaRouter (p_id p) (p_asset p) rd))
             (\<lambda>result. if \<not> success result \<and> \<not> indeterminate result
                then do {
                  (if isMissingContractFunction (errorText result)
                   then markRouterUnsupported LiquidateWithPrice else skip);
                  okay None }
                else okay (Some result))) Q) s"
      by (simp add: liquidateRouterLeg_def)
    also have "\<dots>"
      by (rule wp_quiet, erule keeps_executionRound)
        (auto simp: Q_def adds_def wp_bindE invokeRouter_def client_defs wp_if
          markRouterUnsupported_def notConfigured_def split: option.split sum.split
          dest: quiet_no_submit quiet_routerTook)
    finally show ?thesis .
  qed
  then show ?thesis
    unfolding executeLiquidation_def wp_bindE
    by (rule wp_mono)
      (auto simp: Q_def adds_def since_append wp_bindE client_defs countLiquidation_def bumpStats_def wp_if
        split: option.splits sum.splits)
qed


lemma crossByTrader_eq:
  "crossByTrader ps = group_on p_trader (filter (\<lambda>p. p_margin_mode p = 1) ps)"
proof -
  have "(\<lambda>(p::position) m. if p_margin_mode p \<noteq> 1 then m else jpush (p_trader p) p m)
      = (\<lambda>p. if p_margin_mode p = 1 then jpush (p_trader p) p else (\<lambda>m. m))"
    by (auto simp: fun_eq_iff)
  then show ?thesis by (simp only: crossByTrader_def group_on_def fold_skip)
qed

lemma collectRounds_all:
  "wp (collectRounds E as acc) (\<lambda>r _. r = [] \<or> map fst r = map fst acc @ as) s"
proof (induction as arbitrary: acc s)
  case (Cons a as)
  have "wp (case round of None \<Rightarrow> ret [] | Some rd \<Rightarrow> collectRounds E as (acc @ [(a, rd)]))
      (\<lambda>r _. r = [] \<or> map fst r = map fst acc @ a # as) t" for round t
    by (cases round) (auto intro: wp_mono [OF Cons.IH])
  then show ?case unfolding collectRounds.simps wp_bind by (rule wp_any)
qed simp

text \<open>A relayed cross liquidation is complete: one round for each asset the trader holds.\<close>

fun crossComplete :: "position list \<Rightarrow> event \<Rightarrow> bool" where
  "crossComplete ps (Submitted (LiquidateCrossViaRouter t rounds) _) =
     (map fst rounds = to_set (map p_asset (filter (\<lambda>p. p_margin_mode p = 1 \<and> p_trader p = t) ps))
      \<and> rounds \<noteq> [])"
| "crossComplete ps (Submitted (LiquidateCrossAccount t) _) =
     (\<exists>p \<in> set ps. p_margin_mode p = 1 \<and> p_trader p = t)"
| "crossComplete ps _ = True"

lemma crossComplete_inaction: "\<not> is_action ev \<Longrightarrow> crossComplete ps ev"
  by (cases ev) (auto simp: is_action_def)

lemma keeps_collectRounds [keeps_intros]: "stable J \<Longrightarrow> keeps (hinv J) (collectRounds E as acc)"
  by (induction as arbitrary: acc) (auto intro!: keeps_intros)

lemma keeps_mmByAsset [keeps_intros]: "stable J \<Longrightarrow> keeps (hinv J) (mmByAsset E ps m)"
  by (induction ps arbitrary: m) (auto intro!: keeps_intros)

lemma keeps_crossCandidate [keeps_intros]:
  "stable J \<Longrightarrow> keeps (hinv J) (crossCandidate E prices fs t ps)"
  unfolding crossCandidate_def by (intro keeps_intros) auto

lemma keeps_handleCross [keeps_intros]: "keeps (hinv J) (handleCrossResult E t v r)"
  unfolding handleCrossResult_def by (intro keeps_intros) auto

lemma keeps_crossRouterLeg:
  assumes "stable J"
    and "\<And>h r rounds. J h \<Longrightarrow> rounds \<noteq> [] \<Longrightarrow> map fst rounds = to_set (map p_asset ps) \<Longrightarrow>
      J (Submitted (LiquidateCrossViaRouter t rounds) r # h)"
  shows "keeps (hinv J) (crossRouterLeg cfg E t ps)"
  unfolding crossRouterLeg_def
proof (rule keeps_bind [OF inv_rel_trans], (intro keeps_intros; simp), rule keeps_if)
  show "keeps (hinv J) (okay None)" by (intro keeps_intros) simp
  show "keeps (hinv J) (do {
       rounds \<leftarrow> collectRounds E (to_set (map p_asset ps)) [];
       if rounds = [] then okay None
       else bindE (invokeRouter cfg E (LiquidateCrossViaRouter t rounds))
         (\<lambda>result. if \<not> success result \<and> \<not> indeterminate result
            then do {
              (if isMissingContractFunction (errorText result)
               then markRouterUnsupported LiquidateCrossWithPrices else skip);
              okay (if crossExpected (errorCode result) then Some result else None) }
            else okay (Some result)) })"
    by (rule keeps_bind_post [OF _ _ collectRounds_all])
      (use assms in \<open>auto intro!: keeps_intros keeps_invokeRouter\<close>)
qed

lemma keeps_checkCrossAccount:
  assumes "stable J"
    and "\<And>h r rounds. J h \<Longrightarrow> rounds \<noteq> [] \<Longrightarrow> map fst rounds = to_set (map p_asset ps) \<Longrightarrow>
      J (Submitted (LiquidateCrossViaRouter t rounds) r # h)"
    and "\<And>h r. J h \<Longrightarrow> J (Submitted (LiquidateCrossAccount t) r # h)"
  shows "keeps (hinv J) (checkCrossAccount cfg E prices fs t ps)"
  unfolding checkCrossAccount_def submitCross_def Let_def
  using assms
  by (intro keeps_intros)
    (auto intro!: keeps_intros keeps_crossRouterLeg keeps_invokeWrite split: option.split bool.split)

lemma keeps_checkCrossMargin:
  assumes "stable J"
    and "\<And>h t r rounds. J h \<Longrightarrow> rounds \<noteq> [] \<Longrightarrow>
      map fst rounds = to_set (map p_asset (filter (\<lambda>p. p_margin_mode p = 1 \<and> p_trader p = t) (snap_positions snap))) \<Longrightarrow>
      J (Submitted (LiquidateCrossViaRouter t rounds) r # h)"
    and "\<And>h t p r. J h \<Longrightarrow> p \<in> set (snap_positions snap) \<Longrightarrow> p_margin_mode p = 1 \<Longrightarrow> p_trader p = t \<Longrightarrow>
      J (Submitted (LiquidateCrossAccount t) r # h)"
  shows "keeps (hinv J) (checkCrossMarginLiquidations cfg E snap fs)"
proof -
  have acct: "keeps (hinv J) (checkCrossAccount cfg E prices fs t qs)"
    if "(t, qs) \<in> set (crossByTrader (snap_positions snap))" for prices t qs
    using that assms by (intro keeps_checkCrossAccount) (auto simp: crossByTrader_eq in_group_on conj_commute)
  show ?thesis
    unfolding checkCrossMarginLiquidations_def Let_def
    by (intro keeps_intros) (auto intro!: keeps_intros acct)
qed

text \<open>The cross phase works on whole accounts: the traders it visits are exactly the owners of
  a cross-margin position, each once and with all its cross positions in book order; every
  liquidation it submits is of such an account, and a relayed one carries exactly one signed round
  for each distinct asset the account holds.\<close>

theorem crossPhase_whole_accounts:
  "distinct (jkeys (crossByTrader (snap_positions snap)))
   \<and> ((t, qs) \<in> set (crossByTrader (snap_positions snap)) \<longleftrightarrow>
       (\<exists>p \<in> set (snap_positions snap). p_margin_mode p = 1 \<and> p_trader p = t) \<and>
       qs = filter (\<lambda>p. p_margin_mode p = 1 \<and> p_trader p = t) (snap_positions snap))
   \<and> wp (checkCrossMarginLiquidations cfg E snap fs)
       (\<lambda>_ s'. \<forall>ev \<in> set (since s s'). crossComplete (snap_positions snap) ev) s"
proof (intro conjI)
  show "distinct (jkeys (crossByTrader (snap_positions snap)))"
    by (simp add: crossByTrader_eq distinct_group_on)
  show "(t, qs) \<in> set (crossByTrader (snap_positions snap)) \<longleftrightarrow>
       (\<exists>p \<in> set (snap_positions snap). p_margin_mode p = 1 \<and> p_trader p = t) \<and>
       qs = filter (\<lambda>p. p_margin_mode p = 1 \<and> p_trader p = t) (snap_positions snap)"
    by (auto simp: crossByTrader_eq in_group_on conj_commute)
  show "wp (checkCrossMarginLiquidations cfg E snap fs)
       (\<lambda>_ s'. \<forall>ev \<in> set (since s s'). crossComplete (snap_positions snap) ev) s"
    by (rule wp_all_since, rule keeps_checkCrossMargin)
      (auto intro: closed_under_stable crossComplete_inaction elim!: closed_underD)
qed

theorem crossPhase_witness:
  "list_all (crossComplete (snap_positions sampleSnapshot)) (since sampleKeeper (snd (run_state
     (checkCrossMarginLiquidations promptConfig workingEnv sampleSnapshot True) sampleKeeper)))
   \<and> Submitted (LiquidateCrossAccount ''GTRADER'') (Inr landedResult) \<in> set (since sampleKeeper (snd (run_state
       (checkCrossMarginLiquidations promptConfig workingEnv sampleSnapshot True) sampleKeeper)))"
proof
  show "list_all (crossComplete (snap_positions sampleSnapshot)) (since sampleKeeper (snd (run_state
     (checkCrossMarginLiquidations promptConfig workingEnv sampleSnapshot True) sampleKeeper)))"
    using wp_run [OF crossPhase_whole_accounts [where cfg = promptConfig and E = workingEnv
      and s = sampleKeeper, THEN conjunct2, THEN conjunct2]]
    by (simp add: list_all_iff)
qed code_simp

lemma keeps_guarded_cross: "keeps (hinv guarded) (checkCrossMarginLiquidations cfg E snap fs)"
  by (rule keeps_checkCrossMargin) (simp_all add: guarded_unpreviewed del: guarded.simps)

end
