(* ===== verification/KeeperAdl.thy ===== *)
theory KeeperAdl
  imports KeeperLiquidation "HOL-Library.Sublist"
begin

text \<open>
  The auto-deleveraging phase of \<open>scripts/keeper/src/index.ts\<close> (\<open>manageAdl\<close>,
  \<open>probeAndDriveAdl\<close>): the local mirror of the trigger, the probe and reconciliation of the
  on-chain flag, and the bounded walk over the ranked winners with a re-check between closes.
\<close>

section \<open>Definitions\<close>

definition adlDisabled :: "keeper \<Rightarrow> bool" where
  "adlDisabled s \<longleftrightarrow> adlSupported s = Some False"

definition setAdlActive :: "asset \<Rightarrow> bool \<Rightarrow> unit kprog" where
  "setAdlActive a b = modify (\<lambda>s. s\<lparr>adlActive := jset a b (adlActive s)\<rparr>)"

text \<open>Business rejections stand on either path: flag off, not a winner, position gone.\<close>

definition adlFinal :: "nat option \<Rightarrow> bool" where
  "adlFinal code \<longleftrightarrow> code \<in> {Some 84, Some 85, Some 20}"

definition adlRouterLeg :: "keeper_config \<Rightarrow> env \<Rightarrow> asset \<Rightarrow> nat \<Rightarrow> execution_result option keprog" where
  "adlRouterLeg cfg E a i = do {
     avail \<leftarrow> gets (routerAvailable cfg AdlWithPrice);
     if \<not> avail then okay None
     else do {
       round \<leftarrow> getExecutionRound E a;
       case round of
         None \<Rightarrow> okay None
       | Some rd \<Rightarrow>
           bindE (invokeRouter cfg E (AdlCloseViaRouter i a rd))
             (\<lambda>result. if \<not> success result \<and> \<not> indeterminate result
                then do {
                  (if isMissingContractFunction (errorText result)
                   then markRouterUnsupported AdlWithPrice else skip);
                  okay (if adlFinal (errorCode result) then Some result else None) }
                else okay (Some result)) } }"

text \<open>One close: whether it went via the router, and the result.\<close>

definition adlCloseOne :: "keeper_config \<Rightarrow> env \<Rightarrow> asset \<Rightarrow> nat \<Rightarrow> (bool \<times> execution_result) keprog" where
  "adlCloseOne cfg E a i =
     bindE (adlRouterLeg cfg E a i)
       (\<lambda>routed. case routed of
          Some result \<Rightarrow> okay (True, result)
        | None \<Rightarrow> bindE (invokeWrite E (AdlClose i)) (\<lambda>result. okay (False, result)))"

definition countAdlClose :: "bool \<Rightarrow> unit kprog" where
  "countAdlClose viaRouter = bumpStats (\<lambda>st. st\<lparr>
     routerExecutions := routerExecutions st + (if viaRouter then 1 else 0),
     adlCloses := adlCloses st + 1\<rparr>)"

text \<open>After a successful close: alert, re-check the trigger, clear the flag; answers whether to go on.\<close>

definition adlRecheck :: "env \<Rightarrow> asset \<Rightarrow> bool keprog" where
  "adlRecheck E a =
     bindE (lift (sendAlert E Critical (''Force-closed a winning position on '' @ a))) (\<lambda>_.
     bindE (simulateCall E (SimCheckAdlTrigger a)) (\<lambda>recheck.
       if recheck = SimOk RetFalse
       then bindE (invokeWrite E (CheckAdlTrigger a)) (\<lambda>clear.
              if success clear
              then lift (do {
                bumpStats (\<lambda>st. st\<lparr>adlFlagFlips := adlFlagFlips st + 1\<rparr>);
                setAdlActive a False;
                sendAlert E Info (''Emergency deleveraging OFF for '' @ a);
                ret False })
              else okay False)
       else okay True))"

text \<open>The walk over the ranked candidates with the number of closes so far.\<close>

primrec adlWalk :: "keeper_config \<Rightarrow> env \<Rightarrow> asset \<Rightarrow> position adl_candidate list \<Rightarrow> nat \<Rightarrow> unit keprog" where
  "adlWalk cfg E a [] closes = okay ()"
| "adlWalk cfg E a (c # cs) closes =
     (if closes \<ge> adlMaxClosesPerCycle cfg then okay ()
      else bindE (adlCloseOne cfg E a (p_id (c_position c))) (\<lambda>(viaRouter, result).
        if success result
        then bindE (lift (countAdlClose viaRouter)) (\<lambda>_.
             bindE (adlRecheck E a) (\<lambda>go.
               if go then adlWalk cfg E a cs (closes + 1) else okay ()))
        else if indeterminate result then okay ()
        else let code = errorCode result in
          if code = Some 84 then lift (setAdlActive a False)
          else if code = Some 85 \<or> code = Some 20 then adlWalk cfg E a cs closes
          else bindE (lift (logThrottled E (''adl-close'', p_id (c_position c), [])))
                 (\<lambda>_. adlWalk cfg E a cs closes)))"

text \<open>
  Reconciliation of the on-chain flag with the simulated one; answers whether the caller goes on
  (\<open>False\<close> for the early returns, which leave the cached flag alone).
\<close>

definition adlReconcile :: "env \<Rightarrow> asset \<Rightarrow> bool \<Rightarrow> bool keprog" where
  "adlReconcile E a simFlag =
     bindE (lift (isAdlActive E a)) (\<lambda>read.
       case read of
         Inl e \<Rightarrow> lift (do { logThrottled E (''adl-read'', 0, a); ret False })
       | Inr onChain \<Rightarrow>
           if simFlag \<noteq> onChain
           then bindE (invokeWrite E (CheckAdlTrigger a)) (\<lambda>result.
             if \<not> success result
             then lift (do {
               (if indeterminate result then skip else logThrottled E (''adl-flip'', 0, a));
               ret False })
             else lift (do {
               bumpStats (\<lambda>st. st\<lparr>adlFlagFlips := adlFlagFlips st + 1\<rparr>);
               (if simFlag then sendAlert E Critical (''Emergency deleveraging ON for '' @ a)
                else sendAlert E Info (''Emergency deleveraging OFF for '' @ a));
               setAdlActive a simFlag;
               ret True }))
           else lift (do { setAdlActive a simFlag; ret True }))"

definition adlProbeRejected :: "env \<Rightarrow> asset \<Rightarrow> string \<Rightarrow> unit kprog" where
  "adlProbeRejected E a err =
     (if isMissingContractFunction err
      then modify (\<lambda>s. s\<lparr>adlSupported := Some False, adlUnsupportedLogged := True\<rparr>)
      else logThrottled E (''adl-sim'', 0, a))"

definition adlDrive ::
    "keeper_config \<Rightarrow> env \<Rightarrow> asset \<Rightarrow> position list \<Rightarrow> int \<Rightarrow> simulation_outcome \<Rightarrow> unit keprog" where
  "adlDrive cfg E a positions price sim = (case sim of
         SimErr err \<Rightarrow> lift (adlProbeRejected E a err)
       | SimOk v \<Rightarrow>
           bindE (lift (do {
             modify (\<lambda>s. s\<lparr>adlSupported := Some True\<rparr>);
             gets (\<lambda>s. map_of (adlActive s) a) })) (\<lambda>cached.
           bindE (if cached = None \<or> (v = RetTrue) \<noteq> the cached
                  then adlReconcile E a (v = RetTrue) else okay True) (\<lambda>go.
             if \<not> go then okay ()
             else bindE (lift (gets (\<lambda>s. map_of (adlActive s) a))) (\<lambda>active.
               if active \<noteq> Some True then okay ()
               else adlWalk cfg E a (rankAdlCandidates positions price) 0))))"

definition probeAndDriveAdl :: "keeper_config \<Rightarrow> env \<Rightarrow> asset \<Rightarrow> position list \<Rightarrow> int \<Rightarrow> unit keprog" where
  "probeAndDriveAdl cfg E a positions price =
     bindE (lift (do {
       t \<leftarrow> dateNow E;
       modify (\<lambda>s. s\<lparr>adlLastProbeAt := jset a t (adlLastProbeAt s)\<rparr>) })) (\<lambda>_.
     bindE (simulateCall E (SimCheckAdlTrigger a)) (adlDrive cfg E a positions price))"

text \<open>\<open>manageAdl\<close>, one asset: \<open>False\<close> when the mirror or the probe schedule skips it.\<close>

definition adlWorthProbing :: "keeper_config \<Rightarrow> env \<Rightarrow> bool \<Rightarrow> asset \<Rightarrow> position list \<Rightarrow> int \<Rightarrow> bool kprog" where
  "adlWorthProbing cfg E fullSweep a positions price = do {
     active \<leftarrow> gets (\<lambda>s. jget_or (adlActive s) a False);
     t \<leftarrow> dateNow E;
     lastProbe \<leftarrow> gets (\<lambda>s. jget_or (adlLastProbeAt s) a 0);
     if \<not> (fullSweep \<or> active \<or> t - lastProbe \<ge> adlCheckIntervalMs cfg) then ret False
     else if active \<or> fullSweep then ret True
     else let payable = assetPayableUpnl positions price in
       if payable = 0 then ret False
       else do {
         coverage \<leftarrow> getVaultCoverageCached E;
         ret (case coverage of
                None \<Rightarrow> True
              | Some c \<Rightarrow> adlFlagDecision payable c False (adlTriggerRatioBps cfg) (adlClearRatioBps cfg) \<noteq> Hold) } }"

definition adlAsset :: "keeper_config \<Rightarrow> env \<Rightarrow> bool \<Rightarrow> asset \<Rightarrow> position list \<Rightarrow> int \<Rightarrow> unit kprog" where
  "adlAsset cfg E fullSweep a positions price =
     catch (bindE (lift (adlWorthProbing cfg E fullSweep a positions price)) (\<lambda>go.
              if go then probeAndDriveAdl cfg E a positions price else okay ()))
       (\<lambda>e. logThrottled E (''adl'', 0, a))"

definition manageAdl :: "keeper_config \<Rightarrow> env \<Rightarrow> market_snapshot \<Rightarrow> bool \<Rightarrow> unit kprog" where
  "manageAdl cfg E snap fullSweep = do {
     off \<leftarrow> gets adlDisabled;
     if off then skip
     else do {
       prices \<leftarrow> gets localPriceMap;
       for_while (group_on p_asset (snap_positions snap)) (\<lambda>(a, positions). do {
         off' \<leftarrow> gets adlDisabled;
         if off' then ret False
         else (case prices a of
                 None \<Rightarrow> ret True
               | Some price \<Rightarrow>
                   if price \<le> 0 then ret True
                   else do { adlAsset cfg E fullSweep a positions price; ret True }) }) } }"


section \<open>Lemmas\<close>

text \<open>A close that landed, one that may still land, and any submission.\<close>

fun closedId :: "event \<Rightarrow> nat option" where
  "closedId (Submitted (AdlClose i) (Inr x)) = (if success x then Some i else None)"
| "closedId (Submitted (AdlCloseViaRouter i _ _) (Inr x)) = (if success x then Some i else None)"
| "closedId _ = None"

fun isClose :: "event \<Rightarrow> bool" where
  "isClose (Submitted (AdlClose _) _) = True"
| "isClose (Submitted (AdlCloseViaRouter _ _ _) _) = True"
| "isClose _ = False"

fun mayStillLand :: "event \<Rightarrow> bool" where
  "mayStillLand (Submitted c (Inr x)) =
     (isClose (Submitted c (Inr x)) \<and> \<not> success x \<and> indeterminate x)"
| "mayStillLand _ = False"

fun isSubmission :: "event \<Rightarrow> bool" where
  "isSubmission (Submitted _ _) = True"
| "isSubmission _ = False"

text \<open>No submission comes after (in front of) a close that may still land.\<close>

fun notStacked :: "event list \<Rightarrow> bool" where
  "notStacked [] = True"
| "notStacked (ev # h) = (notStacked h \<and> (isSubmission ev \<longrightarrow> \<not> list_ex mayStillLand h))"

abbreviation closedIds :: "event list \<Rightarrow> nat list" where
  "closedIds new \<equiv> rev (List.map_filter closedId new)"

lemma inaction_adl: "\<not> is_action ev \<Longrightarrow> closedId ev = None \<and> \<not> mayStillLand ev \<and> \<not> isSubmission ev \<and> \<not> isClose ev"
  by (cases ev) (auto simp: is_action_def)

lemma quiet_adl: "quiet n \<Longrightarrow> List.map_filter closedId n = [] \<and> \<not> list_ex mayStillLand n \<and> notStacked n \<and> \<not> list_ex isSubmission n"
  by (induction n) (auto simp: List.map_filter_simps dest: inaction_adl)

lemma notStacked_append:
  "notStacked (xs @ ys) \<longleftrightarrow> notStacked xs \<and> notStacked ys \<and>
     (list_ex isSubmission xs \<longrightarrow> \<not> list_ex mayStillLand ys)"
  by (induction xs) auto

text \<open>What one close adds.\<close>

definition closeTrace :: "nat \<Rightarrow> (string + bool \<times> execution_result) \<Rightarrow> event list \<Rightarrow> bool" where
  "closeTrace i r n \<longleftrightarrow> notStacked n \<and>
     closedIds n = (case r of Inr (_, x) \<Rightarrow> if success x then [i] else [] | _ \<Rightarrow> []) \<and>
     (list_ex mayStillLand n \<longrightarrow> (\<exists>v x. r = Inr (v, x) \<and> \<not> success x \<and> indeterminate x))"

definition legTrace :: "nat \<Rightarrow> (string + execution_result option) \<Rightarrow> event list \<Rightarrow> bool" where
  "legTrace i r n \<longleftrightarrow> notStacked n \<and>
     closedIds n = (case r of Inr (Some x) \<Rightarrow> if success x then [i] else [] | _ \<Rightarrow> []) \<and>
     (list_ex mayStillLand n \<longrightarrow> (\<exists>x. r = Inr (Some x) \<and> \<not> success x \<and> indeterminate x))"

lemma quiet_adl': "quiet n \<Longrightarrow> notStacked n" "quiet n \<Longrightarrow> List.map_filter closedId n = []"
  "quiet n \<Longrightarrow> \<not> list_ex mayStillLand n" "quiet n \<Longrightarrow> \<not> list_ex isSubmission n"
  using quiet_adl by blast+

lemmas adl_trace = notStacked_append map_filter_append List.map_filter_simps quiet_adl'

lemma silent: "(\<And>s. wp m (\<lambda>_ t. hist t = hist s) s) \<Longrightarrow> keeps (\<lambda>s t. hist t = hist s) m"
  by (simp add: keeps_def)

lemma adlRouterLeg_yields: "yields (adlRouterLeg cfg E a i) (legTrace i)"
  unfolding adlRouterLeg_def
proof (rule yields_bind [where P = "\<lambda>_ n. n = []"])
  show "yields (gets (routerAvailable cfg AdlWithPrice)) (\<lambda>_ n. n = [])"
    by (rule yields_silent) (simp_all add: keeps_def)
  have sub: "yields (bindE (invokeRouter cfg E (AdlCloseViaRouter i a rd))
             (\<lambda>result. if \<not> success result \<and> \<not> indeterminate result
                then do {
                  (if isMissingContractFunction (errorText result)
                   then markRouterUnsupported AdlWithPrice else skip);
                  okay (if adlFinal (errorCode result) then Some result else None) }
                else okay (Some result))) (\<lambda>r n'. quiet n \<longrightarrow> legTrace i r (n' @ n))" for rd n
  proof (rule yields_bindE)
    show "yields (invokeRouter cfg E (AdlCloseViaRouter i a rd))
       (\<lambda>r n. n = [Submitted (AdlCloseViaRouter i a rd) r] \<or> (n = [] \<and> r = Inr notConfigured))"
      by (rule yields_invokeRouter) auto
  next
    fix result n1
    assume "n1 = [Submitted (AdlCloseViaRouter i a rd) (Inr result)] \<or> n1 = [] \<and> Inr result = Inr notConfigured"
    then show "yields (if \<not> success result \<and> \<not> indeterminate result
        then do {
          (if isMissingContractFunction (errorText result)
           then markRouterUnsupported AdlWithPrice else skip);
          okay (if adlFinal (errorCode result) then Some result else None) }
        else okay (Some result)) (\<lambda>b n'. quiet n \<longrightarrow> legTrace i b ((n' @ n1) @ n))"
      by (auto simp: legTrace_def adl_trace notConfigured_def yields_def adds_def markRouterUnsupported_def)
  qed (auto simp: legTrace_def adl_trace)
  fix avail :: bool and n0 :: "event list"
  assume n0: "n0 = []"
  show "yields (if \<not> avail then okay None
     else do {
       round \<leftarrow> getExecutionRound E a;
       case round of
         None \<Rightarrow> okay None
       | Some rd \<Rightarrow>
           bindE (invokeRouter cfg E (AdlCloseViaRouter i a rd))
             (\<lambda>result. if \<not> success result \<and> \<not> indeterminate result
                then do {
                  (if isMissingContractFunction (errorText result)
                   then markRouterUnsupported AdlWithPrice else skip);
                  okay (if adlFinal (errorCode result) then Some result else None) }
                else okay (Some result)) }) (\<lambda>r n'. legTrace i r (n' @ n0))"
  proof (cases avail)
    case True
    show ?thesis
      unfolding n0 using True
      by (auto intro!: yields_bind [OF yields_quiet [where P = "\<lambda>_. quiet"]] keeps_executionRound
        yields_conseq [OF sub] simp: legTrace_def adl_trace split: option.split)
  qed (simp add: n0 legTrace_def adl_trace)
qed

lemma adlCloseOne_yields: "yields (adlCloseOne cfg E a i) (closeTrace i)"
  unfolding adlCloseOne_def
proof (rule yields_bindE [OF adlRouterLeg_yields])
  fix routed n
  assume leg: "legTrace i (Inr routed) n"
  show "yields (case routed of
          Some result \<Rightarrow> okay (True, result)
        | None \<Rightarrow> bindE (invokeWrite E (AdlClose i)) (\<lambda>result. okay (False, result)))
     (\<lambda>b n'. closeTrace i b (n' @ n))"
  proof (cases routed)
    case None
    show ?thesis
      unfolding None option.case
      by (rule yields_bindE [OF yields_invokeWrite [where P = "\<lambda>r n. n = [Submitted (AdlClose i) r]"]])
        (use leg None in \<open>auto simp: closeTrace_def legTrace_def adl_trace\<close>)
  qed (use leg in \<open>auto simp: closeTrace_def legTrace_def split: option.splits\<close>)
qed (auto simp: closeTrace_def legTrace_def)


text \<open>Steps that close nothing, and steps that do not even try.\<close>

definition calm :: "event list \<Rightarrow> bool" where
  "calm n \<longleftrightarrow> notStacked n \<and> List.map_filter closedId n = [] \<and> \<not> list_ex mayStillLand n"

definition noClose :: "event list \<Rightarrow> bool" where
  "noClose n \<longleftrightarrow> calm n \<and> \<not> list_ex isClose n"

lemma noClose_calm: "noClose n \<Longrightarrow> calm n"
  by (simp add: noClose_def)

lemma quiet_noClose: "quiet n \<Longrightarrow> noClose n"
  unfolding noClose_def calm_def using quiet_adl [of n]
  by (auto simp: list_ex_iff quiet_def dest: inaction_adl)

lemma noClose_append: "noClose m \<Longrightarrow> noClose n \<Longrightarrow> noClose (m @ n)"
  by (auto simp: noClose_def calm_def adl_trace)

lemma noClose_event [simp]: "noClose [Simulated c r]" "noClose [Submitted (CheckAdlTrigger a) x]" "noClose []"
  by (cases x; simp add: noClose_def calm_def List.map_filter_simps)+

lemma yields_noClose_bindE:
  "yields m (\<lambda>_. noClose) \<Longrightarrow> (\<And>a. yields (k a) (\<lambda>_. noClose)) \<Longrightarrow> yields (bindE m k) (\<lambda>_. noClose)"
  by (rule yields_bindE) (auto intro: yields_conseq noClose_append)

lemma yields_noClose_stable:
  "(\<And>J. stable J \<Longrightarrow> keeps (hinv J) m) \<Longrightarrow> yields m (\<lambda>_. noClose)"
  by (rule yields_quiet) (auto intro: quiet_noClose)

lemma keeps_setAdlActive [keeps_intros]: "keeps (hinv J) (setAdlActive a b)"
  unfolding setAdlActive_def by (rule keeps_modify_hist) simp

lemma keeps_countAdlClose [keeps_intros]: "keeps (hinv J) (countAdlClose b)"
  unfolding countAdlClose_def by (intro keeps_intros)

lemma yields_lift_noClose:
  "(\<And>J. stable J \<Longrightarrow> keeps (hinv J) m) \<Longrightarrow> yields (lift m) (\<lambda>_. noClose)"
  unfolding yields_lift by (rule yields_noClose_stable)

lemma adlRecheck_noClose: "yields (adlRecheck E a) (\<lambda>_. noClose)"
  unfolding adlRecheck_def
  by (intro yields_noClose_bindE yields_lift_noClose yields_simulate yields_invokeWrite)
    (auto intro!: yields_noClose_bindE yields_lift_noClose yields_invokeWrite keeps_intros split: if_split)

lemma adlReconcile_noClose: "yields (adlReconcile E a b) (\<lambda>_. noClose)"
  unfolding adlReconcile_def
  by (intro yields_noClose_bindE yields_lift_noClose)
    (auto intro!: yields_noClose_bindE yields_lift_noClose yields_invokeWrite keeps_intros split: sum.split)

text \<open>What the walk adds: it closes a subsequence of its candidates within the budget.\<close>

definition walkTrace :: "nat \<Rightarrow> nat list \<Rightarrow> nat \<Rightarrow> event list \<Rightarrow> bool" where
  "walkTrace budget ids closes n \<longleftrightarrow>
     notStacked n \<and> subseq (closedIds n) ids \<and> length (closedIds n) \<le> budget - closes"

lemma calm_Nil [simp]: "calm []"
  by (simp add: calm_def List.map_filter_simps)

lemma walkTrace_nil: "calm n \<Longrightarrow> walkTrace b ids c n"
  by (simp add: walkTrace_def calm_def)

lemma walkTrace_after: "walkTrace b ids c n' \<Longrightarrow> calm n \<Longrightarrow> walkTrace b ids c (n' @ n)"
  by (auto simp: walkTrace_def calm_def adl_trace)

lemma walkTrace_skip: "walkTrace b ids c n' \<Longrightarrow> calm n \<Longrightarrow> walkTrace b (i # ids) c (n' @ n)"
  by (auto simp: walkTrace_def calm_def adl_trace)

lemma walkTrace_close:
  "walkTrace b ids (c + 1) n' \<Longrightarrow> \<not> b \<le> c \<Longrightarrow> closeTrace i (Inr (v, x)) n \<Longrightarrow> success x \<Longrightarrow>
   walkTrace b (i # ids) c (n' @ n)"
  by (auto simp: walkTrace_def closeTrace_def adl_trace)

lemma walkTrace_stop: "closeTrace i (Inr (v, x)) n \<Longrightarrow> \<not> success x \<Longrightarrow> walkTrace b ids c n"
  by (auto simp: walkTrace_def closeTrace_def adl_trace)

lemma closeTrace_calm:
  "closeTrace i (Inr (v, x)) n \<Longrightarrow> \<not> success x \<Longrightarrow> \<not> indeterminate x \<Longrightarrow> calm n"
  by (auto simp: closeTrace_def calm_def)

lemma closeTrace_thrown: "closeTrace i (Inl e) n \<Longrightarrow> calm n"
  by (auto simp: closeTrace_def calm_def)

lemma yields_walk_bindE:
  "yields m (\<lambda>_. noClose) \<Longrightarrow> (\<And>a. yields (k a) (\<lambda>_. walkTrace b ids c)) \<Longrightarrow>
   yields (bindE m k) (\<lambda>_. walkTrace b ids c)"
  by (rule yields_bindE, assumption, rule yields_conseq, assumption)
    (auto intro: walkTrace_after walkTrace_nil noClose_calm)

lemma yields_walk_noClose: "yields m (\<lambda>_. noClose) \<Longrightarrow> yields m (\<lambda>_. walkTrace b ids c)"
  by (auto intro: yields_conseq walkTrace_nil noClose_calm)

abbreviation candId :: "position adl_candidate \<Rightarrow> nat" where
  "candId c \<equiv> p_id (c_position c)"

lemma adlWalk_yields:
  "yields (adlWalk cfg E a cs closes) (\<lambda>_. walkTrace (adlMaxClosesPerCycle cfg) (map candId cs) closes)"
proof (induction cs arbitrary: closes)
  case Nil
  then show ?case by (simp add: walkTrace_nil calm_def List.map_filter_simps)
next
  case (Cons c cs)
  let ?B = "adlMaxClosesPerCycle cfg" and ?ids = "map candId cs"
  show ?case
  proof (cases "closes \<ge> ?B")
    case True
    then show ?thesis by (simp add: walkTrace_nil calm_def List.map_filter_simps)
  next
    case budget: False
    have step: "yields (case r of (viaRouter, result) \<Rightarrow>
        if success result
        then bindE (lift (countAdlClose viaRouter)) (\<lambda>_.
             bindE (adlRecheck E a) (\<lambda>go.
               if go then adlWalk cfg E a cs (closes + 1) else okay ()))
        else if indeterminate result then okay ()
        else let code = errorCode result in
          if code = Some 84 then lift (setAdlActive a False)
          else if code = Some 85 \<or> code = Some 20 then adlWalk cfg E a cs closes
          else bindE (lift (logThrottled E (''adl-close'', candId c, [])))
                 (\<lambda>_. adlWalk cfg E a cs closes))
          (\<lambda>_ n'. walkTrace ?B (map candId (c # cs)) closes (n' @ n))"
      if n: "closeTrace (candId c) (Inr r) n" for r n
    proof -
      obtain v x where r: "r = (v, x)" by (cases r)
      have closed: "yields (bindE (lift (countAdlClose v)) (\<lambda>_.
             bindE (adlRecheck E a) (\<lambda>go.
               if go then adlWalk cfg E a cs (closes + 1) else okay ())))
          (\<lambda>_. walkTrace ?B ?ids (closes + 1))"
        by (intro yields_walk_bindE yields_lift_noClose adlRecheck_noClose keeps_countAdlClose)
          (auto intro: Cons.IH walkTrace_nil)
      have skipped: "yields (bindE (lift (logThrottled E (''adl-close'', candId c, [])))
                 (\<lambda>_. adlWalk cfg E a cs closes)) (\<lambda>_. walkTrace ?B ?ids closes)"
        by (intro yields_walk_bindE yields_lift_noClose keeps_logThrottled Cons.IH)
      have flagged: "yields (lift (setAdlActive a False)) (\<lambda>_. walkTrace ?B ?ids closes)"
        by (intro yields_walk_noClose yields_lift_noClose keeps_setAdlActive)
      show ?thesis
        using n budget
        by (auto simp: r Let_def walkTrace_stop
            intro: yields_conseq [OF closed] yields_conseq [OF flagged] yields_conseq [OF skipped]
              yields_conseq [OF Cons.IH] walkTrace_close walkTrace_skip closeTrace_calm)
    qed
    show ?thesis
      unfolding adlWalk.simps if_not_P [OF budget]
      by (rule yields_bindE [OF adlCloseOne_yields step]) (auto intro: walkTrace_nil closeTrace_thrown)
  qed
qed

text \<open>The probe closes only under a flag it has just seen active.\<close>

lemma wp_helpers_any:
  "(\<And>t. Q () t) \<Longrightarrow> wp (sendAlert E l m) Q s" "(\<And>t. Q () t) \<Longrightarrow> wp (logThrottled E k) Q s"
  by (auto intro: wp_any)

lemma adlReconcile_flag:
  "wp (adlReconcile E a b) (\<lambda>r t. r = Inr True \<longrightarrow> map_of (adlActive t) a = Some b) s"
  unfolding adlReconcile_def
  by (auto simp: wp_bindE client_defs wp_if setAdlActive_def bumpStats_def
      split: sum.split intro!: wp_helpers_any)

lemma drive_without_flag:
  assumes "v \<noteq> RetTrue"
  shows "yields (adlDrive cfg E a ps price (SimOk v)) (\<lambda>_. noClose)"
  unfolding yields_def
proof
  fix s
  have rec: "wp (adlReconcile E a False) (\<lambda>r t. adds noClose s' t \<and>
      (r = Inr True \<longrightarrow> map_of (adlActive t) a = Some False)) s'" for s'
    using yieldsD [OF adlReconcile_noClose [of E a False], of s'] adlReconcile_flag [of E a False s']
    by (simp add: wp_conj)
  show "wp (adlDrive cfg E a ps price (SimOk v)) (\<lambda>_. adds noClose s) s"
    using assms unfolding adlDrive_def simulation_outcome.case
    by (cases "map_of (adlActive s) a")
      (auto simp: wp_bindE adds_def intro!: wp_mono [OF rec] split: sum.split)
qed

lemma probeRejected_noClose: "yields (lift (adlProbeRejected E a err)) (\<lambda>_. noClose)"
  unfolding adlProbeRejected_def by (intro yields_lift_noClose keeps_intros) simp

lemma drive_yields:
  "yields (adlDrive cfg E a ps price sim)
     (\<lambda>_. walkTrace (adlMaxClosesPerCycle cfg) (map candId (rankAdlCandidates ps price)) 0)"
proof (cases sim)
  case (SimErr err)
  then show ?thesis by (simp add: adlDrive_def yields_walk_noClose probeRejected_noClose)
next
  case (SimOk v)
  show ?thesis
    unfolding SimOk adlDrive_def simulation_outcome.case
    by (intro yields_walk_bindE yields_lift_noClose)
      (auto intro!: yields_walk_bindE yields_lift_noClose adlReconcile_noClose adlWalk_yields
        keeps_intros walkTrace_nil)
qed

lemma probeStamp_quiet:
  "yields (lift (do {
       t \<leftarrow> dateNow E;
       modify (\<lambda>s. s\<lparr>adlLastProbeAt := jset a t (adlLastProbeAt s)\<rparr>) })) (\<lambda>r n. n = [])"
  unfolding yields_lift by (auto simp: yields_def adds_def)

text \<open>Either nothing was tried, or the oldest event is the probe that saw the flag active.\<close>

lemma probe_yields:
  "yields (probeAndDriveAdl cfg E a ps price)
     (\<lambda>_ n. walkTrace (adlMaxClosesPerCycle cfg) (map candId (rankAdlCandidates ps price)) 0 n \<and>
       (noClose n \<or> last n = Simulated (SimCheckAdlTrigger a) (Inr (SimOk RetTrue))))"
  unfolding probeAndDriveAdl_def
proof (rule yields_bindE [OF probeStamp_quiet])
  let ?P = "\<lambda>n. walkTrace (adlMaxClosesPerCycle cfg) (map candId (rankAdlCandidates ps price)) 0 n \<and>
       (noClose n \<or> last n = Simulated (SimCheckAdlTrigger a) (Inr (SimOk RetTrue)))"
  fix u :: unit and n0 :: "event list"
  assume n0: "n0 = []"
  show "yields (bindE (simulateCall E (SimCheckAdlTrigger a)) (adlDrive cfg E a ps price)) (\<lambda>_ n'. ?P (n' @ n0))"
    unfolding n0 append_Nil2
  proof (rule yields_bindE [OF yields_simulate [where P = "\<lambda>r n. n = [Simulated (SimCheckAdlTrigger a) r]"]])
    fix sim n
    assume n: "n = [Simulated (SimCheckAdlTrigger a) (Inr sim)]"
    have app: "noClose n' \<Longrightarrow> ?P (n' @ n)" for n'
      using noClose_append [of n' n] by (auto simp: n intro: walkTrace_nil noClose_calm)
    show "yields (adlDrive cfg E a ps price sim) (\<lambda>_ n'. ?P (n' @ n))"
    proof (cases "sim = SimOk RetTrue")
      case True
      show ?thesis
        by (rule yields_conseq [OF drive_yields])
          (auto simp: n True intro!: walkTrace_after noClose_calm)
    next
      case False
      have "yields (adlDrive cfg E a ps price sim) (\<lambda>_. noClose)"
        using False drive_without_flag [of _ cfg E a ps price] probeRejected_noClose
        by (cases sim) (auto simp: adlDrive_def)
      then show ?thesis by (rule yields_conseq) (rule app)
    qed
  qed (auto intro!: walkTrace_nil noClose_calm)
qed (auto intro: walkTrace_nil noClose_calm)




lemmas keeps_guarded_intros = keeps_guarded_write keeps_guarded_router keeps_guarded_sim

lemma keeps_guarded_adlWalk: "keeps (hinv guarded) (adlWalk cfg E a cs n)"
proof (induction cs arbitrary: n)
  case Nil
  then show ?case by (simp, intro keeps_intros) simp
next
  case (Cons c cs)
  have "keeps (hinv guarded) (adlCloseOne cfg E a i)" for i
    unfolding adlCloseOne_def adlRouterLeg_def
    by (intro keeps_intros keeps_guarded_intros) auto
  moreover have "keeps (hinv guarded) (adlRecheck E a)"
    unfolding adlRecheck_def by (intro keeps_intros keeps_guarded_intros) auto
  ultimately show ?case
    unfolding adlWalk.simps Let_def by (intro keeps_intros Cons.IH) auto
qed

lemma keeps_guarded_adl: "keeps (hinv guarded) (manageAdl cfg E snap fs)"
  unfolding manageAdl_def adlAsset_def adlWorthProbing_def probeAndDriveAdl_def adlDrive_def
    adlProbeRejected_def adlReconcile_def Let_def simulation_outcome.case_distrib
  by (auto intro!: keeps_intros keeps_guarded_intros keeps_guarded_adlWalk
      split: simulation_outcome.split option.split)

end
