(* ===== verification/Deadman.thy ===== *)
theory Deadman
  imports Prelude
begin

text \<open>
  \<open>scripts/keeper/src/deadman.ts\<close>: the counter that detects orders whose trigger condition
  holds cycle after cycle while their execution never lands.
\<close>

definition stuckStep :: "nat \<Rightarrow> 'id \<Rightarrow> ('id, nat) jmap \<times> 'id list \<Rightarrow> ('id, nat) jmap \<times> 'id list" where
  "stuckStep threshold i cs =
     (let n = jget_or (fst cs) i 0 + 1
      in (jset i n (fst cs), if n = threshold then snd cs @ [i] else snd cs))"

definition trackTriggeredStuck ::
    "('id, nat) jmap \<Rightarrow> 'id list \<Rightarrow> nat \<Rightarrow> ('id, nat) jmap \<times> 'id list" where
  "trackTriggeredStuck counts triggered threshold =
     fold (stuckStep threshold) triggered (jkeep (\<lambda>i. i \<in> set triggered) counts, [])"

text \<open>The caller runs it once per cycle on the same map.\<close>

primrec runCycles :: "nat \<Rightarrow> ('id, nat) jmap \<Rightarrow> 'id list list \<Rightarrow> ('id, nat) jmap \<times> 'id list list" where
  "runCycles threshold counts [] = (counts, [])"
| "runCycles threshold counts (T # Ts) =
     (let (counts', stuck) = trackTriggeredStuck counts T threshold;
          (counts'', rest) = runCycles threshold counts' Ts
      in (counts'', stuck # rest))"

text \<open>Specification: the number of consecutive latest cycles that triggered \<open>i\<close>.\<close>

definition streak :: "'id \<Rightarrow> 'id list list \<Rightarrow> nat" where
  "streak i Ts = length (takeWhile (\<lambda>T. i \<in> set T) (rev Ts))"

section \<open>Lemmas\<close>

lemma fold_stuckStep:
  assumes "distinct ts"
  shows "jget_or (fst (fold (stuckStep th) ts (cs, out))) i 0
           = (if i \<in> set ts then Suc (jget_or cs i 0) else jget_or cs i 0)"
    and "snd (fold (stuckStep th) ts (cs, out))
           = out @ filter (\<lambda>i. Suc (jget_or cs i 0) = th) ts"
  using assms
proof (induction ts arbitrary: cs out)
  case Nil
  { case 1 then show ?case by simp }
  { case 2 then show ?case by simp }
next
  case (Cons t ts)
  { case 1
    then show ?case using Cons.IH(1) by (auto simp: stuckStep_def Let_def) }
  { case 2
    then have "filter (\<lambda>i. Suc (jget_or (jset t (Suc (jget_or cs t 0)) cs) i 0) = th) ts
        = filter (\<lambda>i. Suc (jget_or cs i 0) = th) ts"
      by (intro filter_cong) auto
    with 2 show ?case using Cons.IH(2) by (auto simp: stuckStep_def Let_def) }
qed

lemma jget_or_jkeep: "jget_or (jkeep P m) k d = (if P k then jget_or m k d else d)"
  by (simp add: jget_or_def)

lemma trackTriggeredStuck_counts:
  "distinct T \<Longrightarrow> jget_or (fst (trackTriggeredStuck cs T th)) i 0
     = (if i \<in> set T then Suc (jget_or cs i 0) else 0)"
  by (auto simp: trackTriggeredStuck_def fold_stuckStep jget_or_jkeep)

lemma trackTriggeredStuck_reports:
  "distinct T \<Longrightarrow> snd (trackTriggeredStuck cs T th)
     = filter (\<lambda>i. Suc (jget_or cs i 0) = th) T"
  by (auto simp: trackTriggeredStuck_def fold_stuckStep jget_or_jkeep intro!: filter_cong)

lemma streak_snoc: "streak i (Ts @ [T]) = (if i \<in> set T then Suc (streak i Ts) else 0)"
  by (simp add: streak_def)

lemma runCycles_append:
  "runCycles th cs (Ts @ Us) =
     (let (cs', a) = runCycles th cs Ts; (cs'', b) = runCycles th cs' Us in (cs'', a @ b))"
  by (induction Ts arbitrary: cs) (simp_all add: Let_def split_beta)

lemma length_runCycles: "length (snd (runCycles th cs Ts)) = length Ts"
  by (induction Ts arbitrary: cs) (simp_all add: Let_def split_beta)

lemma runCycles_counts:
  "\<forall>T \<in> set Ts. distinct T \<Longrightarrow> jget_or (fst (runCycles th [] Ts)) i 0 = streak i Ts"
proof (induction Ts rule: rev_induct)
  case Nil
  then show ?case by (simp add: streak_def jget_or_def)
next
  case (snoc T Ts)
  then show ?case
    by (simp add: runCycles_append Let_def split_beta trackTriggeredStuck_counts streak_snoc)
qed


text \<open>The dead-man counter alarms exactly at the threshold: over any sequence of cycles (each
  with distinct triggered ids) that starts from an empty map, the last cycle reports exactly the
  orders that have been triggered in precisely \<open>threshold\<close> consecutive latest cycles. So an order is
  reported once per stuck streak, and a cycle in which it did not trigger starts the count afresh.\<close>

theorem deadman_reports_exactly_at_threshold:
  assumes "\<forall>T' \<in> set (Ts @ [T]). distinct T'" "0 < threshold"
  shows "set (last (snd (runCycles threshold [] (Ts @ [T])))) = {i. streak i (Ts @ [T]) = threshold}"
proof -
  have "last (snd (runCycles threshold [] (Ts @ [T])))
      = filter (\<lambda>i. Suc (jget_or (fst (runCycles threshold [] Ts)) i 0) = threshold) T"
    using assms(1) by (simp add: runCycles_append Let_def split_beta trackTriggeredStuck_reports)
  then show ?thesis
    using assms by (auto simp: runCycles_counts streak_snoc)
qed

theorem deadman_reports_witness:
  "set (last (snd (runCycles 2 [] ([[4], [2, 3 :: nat], [3]] @ [[3, 2]])))) = {}
   \<and> set (last (snd (runCycles 2 [] ([[4], [2, 3 :: nat]] @ [[3, 4]])))) = {3}"
proof -
  have s: "streak i ([[4], [2, 3]] @ [[3, 4]]) = 2 \<longleftrightarrow> i = 3" "streak i ([[4], [2, 3], [3]] @ [[3, 2]]) \<noteq> 2"
    for i :: nat by (auto simp: streak_def)
  show ?thesis
    using deadman_reports_exactly_at_threshold [of "[[4], [2, 3 :: nat], [3]]" "[3, 2]" 2]
      deadman_reports_exactly_at_threshold [of "[[4], [2, 3 :: nat]]" "[3, 4]" 2]
    by (simp add: s del: append.simps)
qed

end
