(* ===== verification/KeeperOrders.thy ===== *)
theory KeeperOrders
  imports KeeperLiquidation Deadman "HOL-Library.Sublist"
begin

text \<open>
  Order execution in \<open>scripts/keeper/src/index.ts\<close>: preview by simulation, the router rescue of
  stale rejections, submission through the router with direct fallback, the outcome table,
  factory reconciliation, orphan bookkeeping, the stuck-order alarm and trailing-stop peaks.
\<close>

section \<open>Definitions\<close>

definition reconcileUnreadable :: "env \<Rightarrow> nat \<Rightarrow> string \<Rightarrow> unit kprog" where
  "reconcileUnreadable E i message =
     (if isMissingContractFunction message
      then modify (\<lambda>s. s\<lparr>factoryReconcileSupported := Some False,
                        factoryReconcileUnsupportedLogged := True\<rparr>)
      else logThrottled E (''reconcile-read'', i, []))"

definition reconcileResult :: "env \<Rightarrow> nat \<Rightarrow> execution_result \<Rightarrow> unit kprog" where
  "reconcileResult E i result =
     (if success result then bumpStats (\<lambda>st. st\<lparr>ordersReconciled := ordersReconciled st + 1\<rparr>)
      else if indeterminate result then skip
      else if errorCode result = Some 3 then skip
      else logThrottled E (''reconcile'', i, []))"

definition maybeReconcileFactoryOrder :: "keeper_config \<Rightarrow> env \<Rightarrow> nat \<Rightarrow> unit keprog" where
  "maybeReconcileFactoryOrder cfg E i =
     bindE (lift (gets factoryReconcileSupported)) (\<lambda>supported.
       if vaultFactoryContractId cfg = [] \<or> supported = Some False then okay ()
       else bindE (lift (getOrderVault E i)) (\<lambda>read.
         case read of
           Inl message \<Rightarrow> lift (reconcileUnreadable E i message)
         | Inr vault \<Rightarrow>
             bindE (lift (modify (\<lambda>s. s\<lparr>factoryReconcileSupported := Some True\<rparr>))) (\<lambda>_.
               case vault of
                 None \<Rightarrow> okay ()
               | Some v \<Rightarrow> bindE (invokeWrite E (ReconcileOrder v i))
                   (\<lambda>result. lift (reconcileResult E i result)))))"

text \<open>
  The outcome table. A success without a decoded reward is \<open>bigint + undefined\<close>: the statistics
  are bumped and the addition throws.
\<close>

definition handleOrderExecutionResult ::
    "keeper_config \<Rightarrow> env \<Rightarrow> nat \<Rightarrow> order_type \<Rightarrow> execution_result \<Rightarrow> bool \<Rightarrow> unit keprog" where
  "handleOrderExecutionResult cfg E i ty result viaRouter =
     bindE (lift (if success result \<and> viaRouter
                  then bumpStats (\<lambda>st. st\<lparr>routerExecutions := routerExecutions st + 1\<rparr>) else skip)) (\<lambda>_.
     if success result then
       (if reward result = Some 0 then
          (if ty = StopLimit then okay ()
           else bindE (lift (bumpStats (\<lambda>st. st\<lparr>ordersCancelledSlippage := ordersCancelledSlippage st + 1\<rparr>)))
                  (\<lambda>_. maybeReconcileFactoryOrder cfg E i))
        else bindE (lift (bumpStats (\<lambda>st. st\<lparr>ordersExecuted := ordersExecuted st + 1\<rparr>))) (\<lambda>_.
          case reward result of
            None \<Rightarrow> throw ''Cannot mix BigInt and other types''
          | Some r \<Rightarrow>
              bindE (lift (bumpStats (\<lambda>st. st\<lparr>totalRewardsEarned := totalRewardsEarned st + r\<rparr>)))
                (\<lambda>_. maybeReconcileFactoryOrder cfg E i)))
     else if indeterminate result then okay ()
     else lift (if str_includes ''PositionNotFound'' (errorText result) \<or> str_includes ''#20'' (errorText result)
                then bumpStats (\<lambda>st. st\<lparr>ordersSkippedOrphaned := ordersSkippedOrphaned st + 1\<rparr>)
                else skip))"

definition businessRejection :: "nat option \<Rightarrow> bool" where
  "businessRejection code \<longleftrightarrow>
     code \<in> {Some 80, Some 81, Some 82, Some 61, Some 30, Some 87, Some 89, Some 90, Some 91, Some 92}"

definition classifyOrderSimRejection :: "env \<Rightarrow> order \<Rightarrow> string \<Rightarrow> unit kprog" where
  "classifyOrderSimRejection E ord err = (let code = extractContractErrorCode err in
     if code = Some 62 then skip
     else if code = Some 20 \<or> code = Some 60 then do {
       seen \<leftarrow> gets (\<lambda>s. o_id ord \<in> set (orphanedOrderIds s));
       if seen then skip
       else do {
         modify (\<lambda>s. s\<lparr>orphanedOrderIds := sadd (o_id ord) (orphanedOrderIds s)\<rparr>);
         bumpStats (\<lambda>st. st\<lparr>ordersSkippedOrphaned := ordersSkippedOrphaned st + 1\<rparr>) } }
     else if businessRejection code
     then logThrottled E (''order-biz'', o_id ord, show_nat (the code))
     else logThrottled E (''order-sim'', o_id ord, []))"

text \<open>The router leg of \<open>executeOrder\<close>: preview through the router, then submit.\<close>

definition orderRouterLeg :: "keeper_config \<Rightarrow> env \<Rightarrow> nat \<Rightarrow> asset \<Rightarrow> execution_result option keprog" where
  "orderRouterLeg cfg E i a =
     bindE (lift (gets (routerAvailable cfg ExecuteWithPrice))) (\<lambda>avail.
       if \<not> avail then okay None
       else bindE (lift (getExecutionRound E a)) (\<lambda>round.
         case round of
           None \<Rightarrow> okay None
         | Some rd \<Rightarrow>
             bindE (simulateRouterCall cfg E (SimRouterExecute i a rd)) (\<lambda>sim.
               case sim of
                 SimErr err \<Rightarrow> lift (do {
                   (if isMissingContractFunction err then markRouterUnsupported ExecuteWithPrice else skip);
                   ret None })
               | SimOk _ \<Rightarrow>
                   bindE (invokeRouter cfg E (ExecuteOrderViaRouter i a rd)) (\<lambda>result. okay (Some result)))))"

definition executeOrder :: "keeper_config \<Rightarrow> env \<Rightarrow> nat \<Rightarrow> order_type \<Rightarrow> asset \<Rightarrow> unit keprog" where
  "executeOrder cfg E i ty a =
     bindE (orderRouterLeg cfg E i a) (\<lambda>routed.
       case routed of
         Some result \<Rightarrow> handleOrderExecutionResult cfg E i ty result True
       | None \<Rightarrow> bindE (invokeWrite E (ExecuteOrder i))
           (\<lambda>result. handleOrderExecutionResult cfg E i ty result False))"

definition tryRouterRescue :: "keeper_config \<Rightarrow> env \<Rightarrow> order \<Rightarrow> bool keprog" where
  "tryRouterRescue cfg E ord =
     bindE (lift (gets (routerAvailable cfg ExecuteWithPrice))) (\<lambda>avail.
       if \<not> avail then okay False
       else bindE (lift (getExecutionRound E (o_asset ord))) (\<lambda>round.
         case round of
           None \<Rightarrow> okay False
         | Some rd \<Rightarrow>
             bindE (simulateRouterCall cfg E (SimRouterExecute (o_id ord) (o_asset ord) rd)) (\<lambda>sim.
               case sim of
                 SimErr err \<Rightarrow> lift (do {
                   (if isMissingContractFunction err then markRouterUnsupported ExecuteWithPrice
                    else classifyOrderSimRejection E ord err);
                   ret False })
               | SimOk _ \<Rightarrow>
                   bindE (invokeRouter cfg E (ExecuteOrderViaRouter (o_id ord) (o_asset ord) rd)) (\<lambda>result.
                   bindE (handleOrderExecutionResult cfg E (o_id ord) (o_order_type ord) result True)
                     (\<lambda>_. okay True)))))"

text \<open>
  One order of \<open>checkOrders\<close>. The set of triggered ids is the loop's accumulator: the answer is
  whether the id was added before the body ended or threw.
\<close>

definition checkOrder :: "keeper_config \<Rightarrow> env \<Rightarrow> order \<Rightarrow> bool kprog" where
  "checkOrder cfg E ord = do {
     sim \<leftarrow> simulateCall E (SimExecuteOrder (o_id ord));
     case sim of
       Inl e \<Rightarrow> do { logThrottled E (''order-err'', o_id ord, []); ret False }
     | Inr (SimErr err) \<Rightarrow>
         catch
           (bindE (if extractContractErrorCode err = Some 30 then tryRouterRescue cfg E ord else okay False)
             (\<lambda>rescued. if rescued then okay True
                else lift (do { classifyOrderSimRejection E ord err; ret False })))
           (\<lambda>e. do { logThrottled E (''order-err'', o_id ord, []); ret False })
     | Inr (SimOk _) \<Rightarrow> do {
         catch (executeOrder cfg E (o_id ord) (o_order_type ord) (o_asset ord))
           (\<lambda>e. logThrottled E (''order-err'', o_id ord, []));
         ret True } }"

primrec checkEach :: "keeper_config \<Rightarrow> env \<Rightarrow> order list \<Rightarrow> nat list \<Rightarrow> nat list kprog" where
  "checkEach cfg E [] triggered = ret triggered"
| "checkEach cfg E (ord # os) triggered = do {
     hit \<leftarrow> checkOrder cfg E ord;
     checkEach cfg E os (if hit then sadd (o_id ord) triggered else triggered) }"

definition checkOrders :: "keeper_config \<Rightarrow> env \<Rightarrow> market_snapshot \<Rightarrow> unit kprog" where
  "checkOrders cfg E snap = do {
     triggered \<leftarrow> checkEach cfg E (filter (\<lambda>ord. o_status ord = Pending) (snap_orders snap)) [];
     counts \<leftarrow> gets triggeredStuckCounts;
     let (counts', stuck) = trackTriggeredStuck counts triggered (triggeredStuckAlertCycles cfg);
     modify (\<lambda>s. s\<lparr>triggeredStuckCounts := counts'\<rparr>);
     (if stuck = [] then skip
      else sendAlert E Critical ''Orders are stuck'') }"

section \<open>Trailing stops\<close>

definition updatePeak :: "env \<Rightarrow> order \<Rightarrow> unit keprog" where
  "updatePeak E ord =
     bindE (simulateCall E (SimUpdateTrailingPeak (o_id ord))) (\<lambda>sim.
       case sim of
         SimErr err \<Rightarrow> lift (logThrottled E (''peak-sim'', o_id ord, []))
       | SimOk v \<Rightarrow>
           if v \<noteq> RetTrue then okay ()
           else bindE (invokeWrite E (UpdateTrailingPeak (o_id ord))) (\<lambda>result.
             lift (if success result
                   then bumpStats (\<lambda>st. st\<lparr>trailingPeakUpdates := trailingPeakUpdates st + 1\<rparr>)
                   else skip)))"

definition updateTrailingStopPeaks :: "env \<Rightarrow> market_snapshot \<Rightarrow> unit kprog" where
  "updateTrailingStopPeaks E snap =
     for_each (filter (\<lambda>ord. o_order_type ord = TrailingStop \<and> o_status ord = Pending) (snap_orders snap))
       (\<lambda>ord. catch (updatePeak E ord) (\<lambda>e. logThrottled E (''peak-err'', o_id ord, [])))"


section \<open>Lemmas: previews\<close>

lemma keeps_reconcile:
  "stable J \<Longrightarrow> (\<And>h v r. J h \<Longrightarrow> J (Submitted (ReconcileOrder v i) r # h)) \<Longrightarrow>
   keeps (hinv J) (maybeReconcileFactoryOrder cfg E i)"
  unfolding maybeReconcileFactoryOrder_def reconcileUnreadable_def reconcileResult_def
  by (intro keeps_intros keeps_invokeWrite) auto

lemma keeps_handleResult:
  "stable J \<Longrightarrow> (\<And>h v r. J h \<Longrightarrow> J (Submitted (ReconcileOrder v i) r # h)) \<Longrightarrow>
   keeps (hinv J) (handleOrderExecutionResult cfg E i ty r v)"
  unfolding handleOrderExecutionResult_def
  by (intro keeps_intros keeps_reconcile) auto

lemma keeps_classify [keeps_intros]: "keeps (hinv J) (classifyOrderSimRejection E ord err)"
  unfolding classifyOrderSimRejection_def Let_def by (intro keeps_intros) auto

lemma keeps_handle_armed: "keeps (hinv (armed k V)) (handleOrderExecutionResult cfg E i ty r v)"
  by (rule keeps_handleResult) (auto intro: armed_submit)

lemma keeps_handle_guarded: "keeps (hinv guarded) (handleOrderExecutionResult cfg E i ty r v)"
  by (rule keeps_handleResult) (auto simp: guarded_unpreviewed simp del: guarded.simps)

text \<open>A preview through the router, under an invariant \<open>L\<close> that already holds.\<close>

lemma keeps_router_previewed:
  assumes L: "\<And>h r. L h \<Longrightarrow> L (Simulated k r # h)" "\<And>h. L h \<Longrightarrow> guarded h"
    and f: "\<And>e. keeps (hinv L) (f e)" and g: "\<And>v. keeps (hinv (\<lambda>h. L h \<and> armed k UNIV h)) (g v)"
    and conf: "routerContractId cfg \<noteq> []"
  shows "keeps (hinv L) (bindE (simulateRouterCall cfg E k)
      (\<lambda>sim. case sim of SimErr e \<Rightarrow> f e | SimOk v \<Rightarrow> g v))"
  unfolding keeps_inv_iff
proof (rule triple_bindE)
  show "triple (\<lambda>s. L (hist s)) (simulateRouterCall cfg E k)
     (\<lambda>r s. L (hist s) \<and> (\<forall>v. r = Inr (SimOk v) \<longrightarrow> armed k UNIV (hist s)))"
    using conf L by (auto simp: triple_def simulateRouterCall_def client_defs armed_def okAfter_def)
  fix sim
  show "triple (\<lambda>s. L (hist s) \<and> (\<forall>v. Inr sim = Inr (SimOk v) \<longrightarrow> armed k UNIV (hist s)))
     (case sim of SimErr e \<Rightarrow> f e | SimOk v \<Rightarrow> g v) (\<lambda>_ s. L (hist s))"
  proof (cases sim)
    case (SimOk v)
    have "triple (\<lambda>s. L (hist s) \<and> armed k UNIV (hist s)) (g v) (\<lambda>_ s. L (hist s))"
      by (rule triple_conseq [OF keeps_triple [OF g]]) auto
    with SimOk show ?thesis by (auto simp: triple_def)
  next
    case (SimErr e)
    then show ?thesis using keeps_triple [OF f] by (auto simp: triple_def)
  qed
qed auto

lemma keeps_avail:
  assumes "\<And>avail. (avail \<Longrightarrow> routerContractId cfg \<noteq> []) \<Longrightarrow> keeps (hinv J) (k avail)"
  shows "keeps (hinv J) (bindE (lift (gets (routerAvailable cfg fn))) k)"
proof (rule keepsI)
  fix s
  have "keeps (hinv J) (k (routerAvailable cfg fn s))"
    by (rule assms) (simp add: routerAvailable_def)
  from keepsD [OF this, of s]
  show "wp (bindE (lift (gets (routerAvailable cfg fn))) k) (\<lambda>_. hinv J s) s"
    by (simp add: wp_bindE)
qed

lemma armed_guarded: "armed k V h \<Longrightarrow> guarded h"
  by (simp add: armed_def)

lemma armed_submit_guarded:
  "preview c = None \<or> preview c = Some (k, V) \<Longrightarrow> armed k V h \<Longrightarrow> guarded (Submitted c r # h)"
  by (rule armed_guarded [OF armed_submit])

lemma armed_submit_by:
  "armed k' V' h \<Longrightarrow> preview c = Some (k', V') \<Longrightarrow> armed k V h \<Longrightarrow> armed k V (Submitted c r # h)"
  by (auto simp: armed_def)

lemma stable_both: "stable L \<Longrightarrow> stable (\<lambda>h. L h \<and> armed k V h)"
  by (rule stable_conj) simp_all

lemma keeps_rescue: "keeps (hinv guarded) (tryRouterRescue cfg E ord)"
  unfolding tryRouterRescue_def
  by (rule keeps_avail, intro keeps_router_previewed keeps_bindE keeps_lift keeps_if keeps_okay
        keeps_case_option keeps_executionRound)
    (auto intro!: keeps_intros keeps_invokeRouter keeps_handleResult stable_both armed_submit
        armed_submit_guarded simp: guarded_unpreviewed simp del: guarded.simps intro: armed_submit_guarded)

text \<open>The router leg of a previewed direct order leaves that preview in force.\<close>

lemma keeps_orderRouterLeg_armed:
  "keeps (hinv (armed (SimExecuteOrder i) UNIV)) (orderRouterLeg cfg E i a)"
  unfolding orderRouterLeg_def
  by (rule keeps_avail, intro keeps_router_previewed keeps_bindE keeps_lift keeps_if keeps_okay
        keeps_case_option keeps_executionRound)
    (auto intro!: keeps_intros keeps_invokeRouter stable_both armed_other intro: armed_guarded armed_submit_by)

lemma keeps_checkOrder_guarded: "keeps (hinv guarded) (checkOrder cfg E ord)"
proof -
  have direct: "keeps (hinv (armed (SimExecuteOrder i) UNIV)) (executeOrder cfg E i ty a)" for i ty a
    unfolding executeOrder_def
    by (intro keeps_intros keeps_orderRouterLeg_armed keeps_handle_armed keeps_invokeWrite)
      (auto intro: armed_submit)
  have "checkOrder cfg E ord = do {
      r \<leftarrow> bindE (simulateCall E (SimExecuteOrder (o_id ord))) (\<lambda>sim. case sim of
        SimErr err \<Rightarrow> lift (catch
           (bindE (if extractContractErrorCode err = Some 30 then tryRouterRescue cfg E ord else okay False)
             (\<lambda>rescued. if rescued then okay True
                else lift (do { classifyOrderSimRejection E ord err; ret False })))
           (\<lambda>e. do { logThrottled E (''order-err'', o_id ord, []); ret False }))
      | SimOk v \<Rightarrow> lift (do {
         catch (executeOrder cfg E (o_id ord) (o_order_type ord) (o_asset ord))
           (\<lambda>e. logThrottled E (''order-err'', o_id ord, []));
         ret True }));
      case r of Inl e \<Rightarrow> do { logThrottled E (''order-err'', o_id ord, []); ret False } | Inr b \<Rightarrow> ret b }"
    unfolding checkOrder_def bindE_def State_Monad.bind_assoc
    by (rule arg_cong [where f = "State_Monad.bind _"])
      (auto simp: fun_eq_iff lift_def throw_def okay_def split: sum.split simulation_outcome.split)
  moreover have "keeps (hinv guarded) \<dots>"
    by (intro keeps_bind keeps_previewed [where V = UNIV])
      (auto intro!: keeps_intros keeps_rescue direct)
  ultimately show ?thesis by simp
qed

lemma keeps_guarded_orders: "keeps (hinv guarded) (checkOrders cfg E snap)"
proof -
  have "keeps (hinv guarded) (checkEach cfg E os tr)" for os tr
    by (induction os arbitrary: tr) (auto intro!: keeps_intros keeps_checkOrder_guarded)
  then show ?thesis
    unfolding checkOrders_def by (auto intro!: keeps_intros simp: Let_def split_beta)
qed

lemma keeps_guarded_peaks: "keeps (hinv guarded) (updateTrailingStopPeaks E snap)"
  unfolding updateTrailingStopPeaks_def updatePeak_def
  by (intro keeps_intros keeps_previewed [where V = "{RetTrue}"] keeps_invokeWrite)
    (auto intro!: keeps_intros keeps_invokeWrite keeps_previewed [where V = "{RetTrue}"] intro: armed_submit)


section \<open>Properties\<close>

text \<open>The complete set of traces of the reconcile duty.\<close>

definition reconcileTrace :: "nat \<Rightarrow> event list \<Rightarrow> bool" where
  "reconcileTrace i n \<longleftrightarrow> n = [] \<or> (\<exists>e. n = [ReadOrderVault i (Inl e)]) \<or> n = [ReadOrderVault i (Inr None)]
     \<or> (\<exists>v x. n = [Submitted (ReconcileOrder v i) x, ReadOrderVault i (Inr (Some v))])"

lemma yields_modify: "(\<And>s. hist (f s) = hist s) \<Longrightarrow> P () [] \<Longrightarrow> yields (modify f) P"
  by (auto simp: yields_def adds_def)

lemma hist_logThrottled: "yields (logThrottled E k) (\<lambda>_ n. n = [])"
  unfolding yields_def adds_def by (auto intro: wp_logThrottled)

lemma hist_bumpStats: "yields (bumpStats f) (\<lambda>_ n. n = [])"
  unfolding bumpStats_def by (rule yields_modify) auto

lemma hist_reconcileResult: "yields (reconcileResult E i r) (\<lambda>_ n. n = [])"
  unfolding reconcileResult_def by (auto intro: hist_logThrottled hist_bumpStats)

lemma hist_reconcileUnreadable: "yields (reconcileUnreadable E i m) (\<lambda>_ n. n = [])"
  unfolding reconcileUnreadable_def by (auto intro: hist_logThrottled yields_modify)

lemma reconcile_yields: "yields (maybeReconcileFactoryOrder cfg E i) (\<lambda>_. reconcileTrace i)"
proof -
  show ?thesis
    unfolding maybeReconcileFactoryOrder_def yields_def
    by (auto simp: wp_bindE client_defs wp_if adds_def reconcileTrace_def
        split: sum.split option.split
        intro!: wp_mono [OF yieldsD [OF hist_reconcileUnreadable]] wp_mono [OF yieldsD [OF hist_reconcileResult]])
qed

text \<open>Execution submissions of one order.\<close>

fun execOf :: "event \<Rightarrow> nat option" where
  "execOf (Submitted (ExecuteOrder i) _) = Some i"
| "execOf (Submitted (ExecuteOrderViaRouter i _ _) _) = Some i"
| "execOf _ = None"

abbreviation execs :: "event list \<Rightarrow> nat list" where
  "execs n \<equiv> List.map_filter execOf n"

lemma execs_simps: "execs [] = []" "execs (ev # n) = (case execOf ev of None \<Rightarrow> execs n | Some i \<Rightarrow> i # execs n)"
  "execs (m @ n) = execs m @ execs n"
  by (auto simp: List.map_filter_def split: option.split)

definition noExec :: "event list \<Rightarrow> bool" where
  "noExec n \<longleftrightarrow> (\<forall>ev \<in> set n. execOf ev = None)"

lemma noExec_execs: "noExec n \<Longrightarrow> execs n = []"
  by (induction n) (auto simp: noExec_def execs_simps)

lemma inaction_exec: "\<not> is_action ev \<Longrightarrow> execOf ev = None"
  by (cases ev) (auto simp: is_action_def)

lemma yields_noExec: "(\<And>J. closed_under (\<lambda>ev. execOf ev = None) J \<Longrightarrow> keeps (hinv J) m) \<Longrightarrow> yields m (\<lambda>_. noExec)"
  unfolding noExec_def [abs_def] by (rule yields_all)

lemma closed_noExec:
  assumes "closed_under (\<lambda>ev. execOf ev = None) J"
  shows "stable J" "execOf ev = None \<Longrightarrow> J h \<Longrightarrow> J (ev # h)"
  using assms by (auto intro: closed_under_stable inaction_exec closed_underD)

lemma handle_noExec: "yields (handleOrderExecutionResult cfg E i ty r v) (\<lambda>_. noExec)"
  by (rule yields_noExec, rule keeps_handleResult) (auto intro: closed_noExec)

lemma noExec_nil [simp]: "noExec []" "noExec [Simulated c r]"
  by (simp_all add: noExec_def)

lemma yields_noExec_quiet:
  "(\<And>J. stable J \<Longrightarrow> keeps (hinv J) m) \<Longrightarrow> yields (lift m) (\<lambda>_. noExec)"
  unfolding yields_lift by (rule yields_noExec) (auto intro: closed_noExec)

lemma yields_noExec_bindE:
  "yields m (\<lambda>_. noExec) \<Longrightarrow> (\<And>a. yields (k a) (\<lambda>_. noExec)) \<Longrightarrow> yields (bindE m k) (\<lambda>_. noExec)"
  by (rule yields_bindE, assumption, rule yields_conseq, assumption) (auto simp: noExec_def)

text \<open>What one order adds: at most one execution, and it is of that order.\<close>

definition oneExec :: "nat \<Rightarrow> event list \<Rightarrow> bool" where
  "oneExec i n \<longleftrightarrow> execs n = [] \<or> execs n = [i]"

lemma oneExec_no: "noExec n \<Longrightarrow> oneExec i n"
  by (simp add: noExec_execs oneExec_def)

lemma oneExec_append: "oneExec i n' \<Longrightarrow> noExec n \<Longrightarrow> oneExec i (n' @ n)" "noExec n' \<Longrightarrow> oneExec i n \<Longrightarrow> oneExec i (n' @ n)"
  by (auto dest!: noExec_execs simp: oneExec_def execs_simps)

lemma yields_oneExec_before:
  "yields m (\<lambda>_. noExec) \<Longrightarrow> (\<And>a. yields (k a) (\<lambda>_. oneExec i)) \<Longrightarrow> yields (bindE m k) (\<lambda>_. oneExec i)"
  by (rule yields_bindE, assumption, rule yields_conseq, assumption) (auto intro: oneExec_append oneExec_no)

lemma yields_oneExec_after:
  "yields m (\<lambda>_. oneExec i) \<Longrightarrow> (\<And>a. yields (k a) (\<lambda>_. noExec)) \<Longrightarrow> yields (bindE m k) (\<lambda>_. oneExec i)"
  by (rule yields_bindE, assumption, rule yields_conseq, assumption) (auto intro: oneExec_append)

lemma simulateRouter_noExec: "yields (simulateRouterCall cfg E c) (\<lambda>_. noExec)"
  by (auto simp: simulateRouterCall_def intro: yields_simulate)

lemma submit_oneExec:
  "yields (invokeWrite E (ExecuteOrder i)) (\<lambda>_. oneExec i)"
  "yields (invokeRouter cfg E (ExecuteOrderViaRouter i a rd)) (\<lambda>_. oneExec i)"
  by (auto intro!: yields_invokeWrite yields_invokeRouter simp: oneExec_def execs_simps)

lemma rescue_oneExec: "yields (tryRouterRescue cfg E ord) (\<lambda>_. oneExec (o_id ord))"
proof -
  have submit: "yields (bindE (invokeRouter cfg E (ExecuteOrderViaRouter (o_id ord) (o_asset ord) rd)) (\<lambda>result.
      bindE (handleOrderExecutionResult cfg E (o_id ord) (o_order_type ord) result True)
        (\<lambda>_. okay True))) (\<lambda>_. oneExec (o_id ord))" for rd
    by (intro yields_oneExec_after submit_oneExec yields_noExec_bindE handle_noExec) simp
  have rejected: "yields (lift (do {
       (if isMissingContractFunction err then markRouterUnsupported ExecuteWithPrice
        else classifyOrderSimRejection E ord err);
       ret False })) (\<lambda>_. oneExec (o_id ord))" for err
    by (rule yields_conseq [OF yields_noExec_quiet]) (auto intro!: keeps_intros oneExec_no)
  show ?thesis
    unfolding tryRouterRescue_def
    by (intro yields_oneExec_before yields_noExec_quiet)
      (auto intro!: keeps_intros yields_oneExec_before yields_noExec_quiet simulateRouter_noExec
        simp: oneExec_no submit rejected split: option.split simulation_outcome.split)
qed

text \<open>The router leg: no result means that nothing was submitted.\<close>

definition orderLegTrace :: "nat \<Rightarrow> (string + execution_result option) \<Rightarrow> event list \<Rightarrow> bool" where
  "orderLegTrace i r n \<longleftrightarrow> oneExec i n \<and> (r = Inr None \<longrightarrow> noExec n)"

lemma orderLegTrace_before:
  "yields m (\<lambda>_. noExec) \<Longrightarrow> (\<And>a. yields (k a) (orderLegTrace i)) \<Longrightarrow> yields (bindE m k) (orderLegTrace i)"
  by (rule yields_bindE, assumption, rule yields_conseq, assumption)
    (auto simp: orderLegTrace_def noExec_def intro: oneExec_append oneExec_no)

lemma orderRouterLeg_yields: "yields (orderRouterLeg cfg E i a) (orderLegTrace i)"
proof -
  have submit: "yields (bindE (invokeRouter cfg E (ExecuteOrderViaRouter i a rd)) (\<lambda>result. okay (Some result)))
      (orderLegTrace i)" for rd
    by (rule yields_bindE [OF submit_oneExec(2)]) (auto simp: orderLegTrace_def)
  have rejected: "yields (lift (do {
       (if isMissingContractFunction err then markRouterUnsupported ExecuteWithPrice else skip);
       ret None })) (orderLegTrace i)" for err
    by (rule yields_conseq [OF yields_noExec_quiet]) (auto intro!: keeps_intros oneExec_no simp: orderLegTrace_def)
  show ?thesis
    unfolding orderRouterLeg_def
    by (intro orderLegTrace_before yields_noExec_quiet)
      (auto intro!: keeps_intros orderLegTrace_before yields_noExec_quiet simulateRouter_noExec
        simp: submit rejected orderLegTrace_def [of i "Inr None" "[]"] oneExec_no
        split: option.split simulation_outcome.split)
qed

lemma executeOrder_oneExec: "yields (executeOrder cfg E i ty a) (\<lambda>_. oneExec i)"
  unfolding executeOrder_def
proof (rule yields_bindE [OF orderRouterLeg_yields])
  fix routed n
  assume n: "orderLegTrace i (Inr routed) n"
  have direct: "yields (bindE (invokeWrite E (ExecuteOrder i))
      (\<lambda>result. handleOrderExecutionResult cfg E i ty result False)) (\<lambda>_. oneExec i)"
    by (intro yields_oneExec_after submit_oneExec handle_noExec)
  show "yields (case routed of
         Some result \<Rightarrow> handleOrderExecutionResult cfg E i ty result True
       | None \<Rightarrow> bindE (invokeWrite E (ExecuteOrder i))
           (\<lambda>result. handleOrderExecutionResult cfg E i ty result False)) (\<lambda>_ n'. oneExec i (n' @ n))"
    using n by (cases routed)
      (auto simp: orderLegTrace_def intro: yields_conseq [OF direct] yields_conseq [OF handle_noExec] oneExec_append)
qed (simp add: orderLegTrace_def)


lemma yields_conj: "yields m P \<Longrightarrow> yields m Q \<Longrightarrow> yields m (\<lambda>r n. P r n \<and> Q r n)"
  unfolding yields_def adds_def wp_eq_run by (metis append_same_eq)

text \<open>Simulations of direct executions.\<close>

fun previewedOrder :: "event \<Rightarrow> nat option" where
  "previewedOrder (Simulated (SimExecuteOrder i) (Inr (SimOk _))) = Some i"
| "previewedOrder _ = None"

definition noPreview :: "event list \<Rightarrow> bool" where
  "noPreview n \<longleftrightarrow> (\<forall>ev \<in> set n. previewedOrder ev = None)"

lemma yields_noPreview:
  "(\<And>J. stable J \<Longrightarrow> (\<And>h ev. previewedOrder ev = None \<Longrightarrow> J h \<Longrightarrow> J (ev # h)) \<Longrightarrow> keeps (hinv J) m) \<Longrightarrow>
   yields m (\<lambda>_. noPreview)"
proof -
  have "previewedOrder ev = None" if "\<not> is_action ev" for ev
    using that by (cases ev) (auto simp: is_action_def)
  then show "(\<And>J. stable J \<Longrightarrow> (\<And>h ev. previewedOrder ev = None \<Longrightarrow> J h \<Longrightarrow> J (ev # h)) \<Longrightarrow>
      keeps (hinv J) m) \<Longrightarrow> yields m (\<lambda>_. noPreview)"
    unfolding noPreview_def [abs_def]
    by (intro yields_all) (auto intro: closed_under_stable closed_underD)
qed

lemma executeOrder_noPreview: "yields (executeOrder cfg E i ty a) (\<lambda>_. noPreview)"
  unfolding executeOrder_def orderRouterLeg_def
  by (rule yields_noPreview, intro keeps_intros keeps_invokeWrite keeps_invokeRouter
      keeps_simulateRouter keeps_handleResult)
    (auto intro!: keeps_intros keeps_invokeRouter split: simulation_outcome.split)

lemma rescue_noPreview: "yields (tryRouterRescue cfg E ord) (\<lambda>_. noPreview)"
  unfolding tryRouterRescue_def
  by (rule yields_noPreview, intro keeps_intros keeps_simulateRouter)
    (auto intro!: keeps_intros keeps_invokeRouter keeps_handleResult split: simulation_outcome.split)

text \<open>One order: at most one execution of it, and a successful preview of it counts as triggered.\<close>

definition orderTrace :: "nat \<Rightarrow> bool \<Rightarrow> event list \<Rightarrow> bool" where
  "orderTrace i hit n \<longleftrightarrow> oneExec i n \<and> (\<forall>j. Some j \<in> previewedOrder ` set n \<longrightarrow> j = i \<and> hit)"

lemma yields_catch:
  assumes "yields m P" "\<And>e n. P (Inl e) n \<Longrightarrow> yields (h e) (\<lambda>b n'. R b (n' @ n))"
    and "\<And>a n. P (Inr a) n \<Longrightarrow> R a n"
  shows "yields (catch m h) R"
  unfolding catch_def
proof (rule yields_bind [OF assms(1)])
  fix r n
  assume "P r n"
  with assms(2,3) show "yields (case r of Inl e \<Rightarrow> h e | Inr a \<Rightarrow> State_Monad.return a) (\<lambda>b n'. R b (n' @ n))"
    by (cases r) auto
qed

lemma logged: "R [] \<Longrightarrow> yields (do { logThrottled E k; ret b }) (\<lambda>_. R)"
  by (rule yields_bind [OF hist_logThrottled]) simp

definition quietly :: "nat \<Rightarrow> event list \<Rightarrow> bool" where
  "quietly i n \<longleftrightarrow> oneExec i n \<and> noPreview n"

lemma quiet_kinds: "quiet n \<Longrightarrow> noExec n \<and> noPreview n"
proof -
  assume q: "quiet n"
  have "execOf ev = None \<and> previewedOrder ev = None" if "ev \<in> set n" for ev
    using q that by (cases ev) (auto simp: quiet_def is_action_def)
  then show ?thesis by (auto simp: noExec_def noPreview_def)
qed

lemma quietly_after: "quiet n' \<Longrightarrow> quietly i n \<Longrightarrow> quietly i (n' @ n)"
  using quiet_kinds [of n'] by (auto simp: quietly_def noPreview_def intro: oneExec_append)

lemma quietly_nil [simp]: "quietly i []"
  by (simp add: quietly_def oneExec_no noPreview_def)

lemma orderTrace_quietly:
  "quietly i n \<Longrightarrow> \<forall>v. r = Inr (SimOk v) \<longrightarrow> hit \<Longrightarrow>
   orderTrace i hit (n @ [Simulated (SimExecuteOrder i) r])"
proof -
  assume a: "quietly i n" "\<forall>v. r = Inr (SimOk v) \<longrightarrow> hit"
  have "previewedOrder (Simulated (SimExecuteOrder i) r) =
      (case r of Inl _ \<Rightarrow> None | Inr (SimErr _) \<Rightarrow> None | Inr (SimOk _) \<Rightarrow> Some i)"
    by (auto split: sum.split simulation_outcome.split)
  then have "previewedOrder (Simulated (SimExecuteOrder i) r) = None \<or>
      previewedOrder (Simulated (SimExecuteOrder i) r) = Some i \<and> hit"
    using a(2) by (auto split: sum.splits simulation_outcome.splits)
  then show ?thesis
    using a(1) by (auto simp: orderTrace_def quietly_def noPreview_def image_iff intro: oneExec_append)
qed

lemma direct_quietly:
  "yields (catch (executeOrder cfg E i ty a) (\<lambda>e. logThrottled E (''order-err'', i, []))) (\<lambda>_. quietly i)"
  by (rule yields_catch [OF yields_conj [OF executeOrder_oneExec executeOrder_noPreview]])
    (auto simp: quietly_def intro: yields_conseq [OF hist_logThrottled])

lemma classify_quiet: "yields (lift (do { classifyOrderSimRejection E ord err; ret False })) (\<lambda>_. quiet)"
  unfolding yields_lift by (rule yields_quiet) (auto intro!: keeps_intros)

lemma rescue_quietly:
  "yields (catch
     (bindE (if b then tryRouterRescue cfg E ord else okay False)
       (\<lambda>rescued. if rescued then okay True
          else lift (do { classifyOrderSimRejection E ord err; ret False })))
     (\<lambda>e. do { logThrottled E (''order-err'', o_id ord, []); ret False })) (\<lambda>_. quietly (o_id ord))"
proof (rule yields_catch)
  have first: "yields (if b then tryRouterRescue cfg E ord else okay False) (\<lambda>_. quietly (o_id ord))"
    using yields_conj [OF rescue_oneExec rescue_noPreview]
    by (cases b) (simp_all add: quietly_def [abs_def] oneExec_no noPreview_def)
  show "yields (bindE (if b then tryRouterRescue cfg E ord else okay False)
       (\<lambda>rescued. if rescued then okay True
          else lift (do { classifyOrderSimRejection E ord err; ret False }))) (\<lambda>_. quietly (o_id ord))"
    by (rule yields_bindE [OF first]) (auto intro: yields_conseq [OF classify_quiet] quietly_after)
qed (auto intro!: logged)

lemma checkOrder_yields: "yields (checkOrder cfg E ord) (orderTrace (o_id ord))"
  unfolding checkOrder_def
proof (rule yields_bind [OF yields_simulate [where P = "\<lambda>r n. n = [Simulated (SimExecuteOrder (o_id ord)) r]"]])
  fix sim n
  assume n: "n = [Simulated (SimExecuteOrder (o_id ord)) sim]"
  have hit: "yields (do { catch (executeOrder cfg E i ty a) (\<lambda>e. logThrottled E (''order-err'', i, [])); ret True })
      (\<lambda>b n. b \<and> quietly i n)" for i ty a
    by (rule yields_bind [OF direct_quietly]) simp
  show "yields (case sim of
       Inl e \<Rightarrow> do { logThrottled E (''order-err'', o_id ord, []); ret False }
     | Inr (SimErr err) \<Rightarrow>
         catch
           (bindE (if extractContractErrorCode err = Some 30 then tryRouterRescue cfg E ord else okay False)
             (\<lambda>rescued. if rescued then okay True
                else lift (do { classifyOrderSimRejection E ord err; ret False })))
           (\<lambda>e. do { logThrottled E (''order-err'', o_id ord, []); ret False })
     | Inr (SimOk _) \<Rightarrow> do {
         catch (executeOrder cfg E (o_id ord) (o_order_type ord) (o_asset ord))
           (\<lambda>e. logThrottled E (''order-err'', o_id ord, []));
         ret True }) (\<lambda>b n'. orderTrace (o_id ord) b (n' @ n))"
  proof (cases sim)
    case (Inl e)
    show ?thesis
      unfolding Inl n sum.case
      by (rule yields_conseq [OF logged [where R = "quietly (o_id ord)"]]) (auto intro!: orderTrace_quietly)
  next
    case (Inr r)
    show ?thesis
    proof (cases r)
      case (SimErr err)
      show ?thesis
        unfolding Inr n SimErr sum.case simulation_outcome.case
        by (rule yields_conseq [OF rescue_quietly]) (auto intro!: orderTrace_quietly)
    next
      case (SimOk v)
      show ?thesis
        unfolding Inr n SimOk sum.case simulation_outcome.case
        by (rule yields_conseq [OF hit]) (auto intro!: orderTrace_quietly)
    qed
  qed
qed simp

text \<open>The loop: executions in book order, and the triggered set.\<close>

definition triggeredSpec :: "nat list \<Rightarrow> nat list \<Rightarrow> nat list \<Rightarrow> event list \<Rightarrow> bool" where
  "triggeredSpec ids old new n \<longleftrightarrow>
     subseq (rev (execs n)) ids \<and> (distinct old \<longrightarrow> distinct new) \<and>
     set old \<subseteq> set new \<and> set new \<subseteq> set old \<union> set ids \<and>
     (\<forall>j. Some j \<in> previewedOrder ` set n \<longrightarrow> j \<in> set new)"

lemma triggeredSpec_step:
  assumes "orderTrace i hit n" "triggeredSpec ids (if hit then sadd i old else old) new n'"
  shows "triggeredSpec (i # ids) old new (n' @ n)"
proof -
  have "execs n = [] \<or> execs n = [i]" using assms(1) by (simp add: orderTrace_def oneExec_def)
  then have "subseq (rev (execs (n' @ n))) (i # ids)"
    using assms(2) by (auto simp: triggeredSpec_def execs_simps)
  then show ?thesis
    using assms by (auto simp: triggeredSpec_def orderTrace_def image_Un split: if_splits)
qed

lemma checkEach_yields: "yields (checkEach cfg E os old) (triggeredSpec (map o_id os) old)"
proof (induction os arbitrary: old)
  case Nil
  then show ?case by (simp add: triggeredSpec_def execs_simps)
next
  case (Cons ord os)
  show ?case
    unfolding checkEach.simps list.map
    by (rule yields_bind [OF checkOrder_yields], rule yields_conseq [OF Cons.IH])
      (rule triggeredSpec_step)
qed


lemma framed_stuck [simp]: "framed triggeredStuckCounts"
  by (simp add: framed_def)

lemma same_stuck_handle: "keeps (same triggeredStuckCounts) (handleOrderExecutionResult cfg E i ty r v)"
  unfolding handleOrderExecutionResult_def maybeReconcileFactoryOrder_def reconcileUnreadable_def
    reconcileResult_def
  by (intro keeps_intros same_intros same_modify) auto

lemma same_stuck_classify: "keeps (same triggeredStuckCounts) (classifyOrderSimRejection E ord err)"
  unfolding classifyOrderSimRejection_def Let_def
  by (intro keeps_intros same_intros same_modify) auto

lemma same_stuck_order: "keeps (same triggeredStuckCounts) (checkOrder cfg E ord)"
proof -
  have "keeps (same triggeredStuckCounts) (executeOrder cfg E i ty a)" for i ty a
    unfolding executeOrder_def orderRouterLeg_def
    by (intro keeps_intros same_intros same_stuck_handle)
      (auto intro!: keeps_intros same_intros split: simulation_outcome.split)
  moreover have "keeps (same triggeredStuckCounts) (tryRouterRescue cfg E ord)"
    unfolding tryRouterRescue_def
    by (intro keeps_intros same_intros same_stuck_handle)
      (auto intro!: keeps_intros same_intros same_stuck_handle same_stuck_classify split: simulation_outcome.split)
  ultimately show ?thesis
    unfolding checkOrder_def
    by (intro keeps_intros same_intros)
      (auto intro!: keeps_intros same_intros same_stuck_classify split: simulation_outcome.split)
qed

lemma same_stuck_each: "keeps (same triggeredStuckCounts) (checkEach cfg E os old)"
  by (induction os arbitrary: old) (auto intro!: keeps_intros same_stuck_order)

abbreviation pendingOrders :: "market_snapshot \<Rightarrow> order list" where
  "pendingOrders snap \<equiv> filter (\<lambda>ord. o_status ord = Pending) (snap_orders snap)"

lemma checkOrders_spec:
  "wp (checkOrders cfg E snap) (\<lambda>_ t. \<exists>triggered n m. hist t = n @ m @ hist s \<and> quiet n \<and>
     distinct triggered \<and> triggeredSpec (map o_id (pendingOrders snap)) [] triggered m \<and>
     triggeredStuckCounts t = fst (trackTriggeredStuck (triggeredStuckCounts s) triggered (triggeredStuckAlertCycles cfg)) \<and>
     (snd (trackTriggeredStuck (triggeredStuckCounts s) triggered (triggeredStuckAlertCycles cfg)) = [] \<longrightarrow> n = [])) s"
proof -
  have each: "wp (checkEach cfg E (pendingOrders snap) [])
     (\<lambda>tr t. adds (triggeredSpec (map o_id (pendingOrders snap)) [] tr) s t \<and>
        triggeredStuckCounts t = triggeredStuckCounts s) s"
    using yieldsD [OF checkEach_yields] keepsD [OF same_stuck_each] by (simp add: wp_conj)
  have alarm: "wp (sendAlert E l m) (\<lambda>_ u. (\<exists>n. hist u = n @ hist t \<and> quiet n) \<and>
      triggeredStuckCounts u = triggeredStuckCounts t) t" for l m t
    using keepsD [OF keeps_quiet [OF keeps_sendAlert [of _ E l m]], of t]
      keepsD [OF same_sendAlert [OF framed_stuck, of E l m], of t]
    by (simp add: wp_conj adds_def [abs_def])
  show ?thesis
    unfolding checkOrders_def wp_bind
  proof (rule wp_mono [OF each])
    fix tr t
    assume t: "adds (triggeredSpec (map o_id (pendingOrders snap)) [] tr) s t \<and>
        triggeredStuckCounts t = triggeredStuckCounts s"
    then obtain m where m: "hist t = m @ hist s" "triggeredSpec (map o_id (pendingOrders snap)) [] tr m"
      by (auto simp: adds_def)
    let ?track = "trackTriggeredStuck (triggeredStuckCounts s) tr (triggeredStuckAlertCycles cfg)"
    have "wp (gets triggeredStuckCounts) (\<lambda>counts. wp (let (counts', stuck) =
          trackTriggeredStuck counts tr (triggeredStuckAlertCycles cfg) in do {
            modify (\<lambda>s. s\<lparr>triggeredStuckCounts := counts'\<rparr>);
            (if stuck = [] then skip else sendAlert E Critical ''Orders are stuck'') })
        (\<lambda>_ u. \<exists>n. hist u = n @ hist t \<and> quiet n \<and> triggeredStuckCounts u = fst ?track \<and>
           (snd ?track = [] \<longrightarrow> n = []))) t"
      using t by (auto simp: split_beta Let_def wp_if intro!: wp_mono [OF alarm])
    then show "wp (gets triggeredStuckCounts) (\<lambda>counts. wp (let (counts', stuck) =
          trackTriggeredStuck counts tr (triggeredStuckAlertCycles cfg) in do {
            modify (\<lambda>s. s\<lparr>triggeredStuckCounts := counts'\<rparr>);
            (if stuck = [] then skip else sendAlert E Critical ''Orders are stuck'') })
        (\<lambda>_ t. \<exists>triggered n m. hist t = n @ m @ hist s \<and> quiet n \<and>
     distinct triggered \<and> triggeredSpec (map o_id (pendingOrders snap)) [] triggered m \<and>
     triggeredStuckCounts t = fst (trackTriggeredStuck (triggeredStuckCounts s) triggered (triggeredStuckAlertCycles cfg)) \<and>
     (snd (trackTriggeredStuck (triggeredStuckCounts s) triggered (triggeredStuckAlertCycles cfg)) = [] \<longrightarrow> n = []))) t"
      unfolding wp_gets
    proof (rule wp_mono)
      fix u' u
      assume "\<exists>n. hist u = n @ hist t \<and> quiet n \<and> triggeredStuckCounts u = fst ?track \<and> (snd ?track = [] \<longrightarrow> n = [])"
      moreover have "distinct tr" using m(2) by (simp add: triggeredSpec_def)
      ultimately show "\<exists>triggered n m. hist u = n @ m @ hist s \<and> quiet n \<and>
     distinct triggered \<and> triggeredSpec (map o_id (pendingOrders snap)) [] triggered m \<and>
     triggeredStuckCounts u = fst (trackTriggeredStuck (triggeredStuckCounts s) triggered (triggeredStuckAlertCycles cfg)) \<and>
     (snd (trackTriggeredStuck (triggeredStuckCounts s) triggered (triggeredStuckAlertCycles cfg)) = [] \<longrightarrow> n = [])"
        using m by metis
    qed
  qed
qed

text \<open>C2. No double execution: in one order phase the executions submitted (direct or routed) are a
  subsequence of the pending orders in book order, so each pending order is executed at most
  once, on whichever path, and nothing else is executed, whatever the chain answers.\<close>

theorem orders_executed_at_most_once:
  "wp (checkOrders cfg E snap)
     (\<lambda>_ t. subseq (rev (execs (since s t))) (map o_id (pendingOrders snap))) s"
proof (rule wp_mono [OF checkOrders_spec], elim exE conjE)
  fix u :: unit and t :: keeper and triggered n m
  assume a: "hist t = n @ m @ hist s" "quiet n" "triggeredSpec (map o_id (pendingOrders snap)) [] triggered m"
  from a(1) have "since s t = n @ m" by (intro since_append) simp
  then show "subseq (rev (execs (since s t))) (map o_id (pendingOrders snap))"
    using a(2,3) quiet_kinds [of n] by (simp add: triggeredSpec_def execs_simps noExec_execs)
qed

text \<open>The dead-man sees every triggered order: an order whose preview succeeded in this phase has its
  stuck counter raised by exactly one, even when its execution failed, was indeterminate or threw; and the
  counter of an order that is not pending any more is zero.\<close>

theorem stuck_counters_follow_triggers:
  "wp (checkOrders cfg E snap) (\<lambda>_ t.
     (\<forall>i v. Simulated (SimExecuteOrder i) (Inr (SimOk v)) \<in> set (since s t) \<longrightarrow>
        jget_or (triggeredStuckCounts t) i 0 = Suc (jget_or (triggeredStuckCounts s) i 0))
     \<and> (\<forall>i. i \<notin> o_id ` set (pendingOrders snap) \<longrightarrow> jget_or (triggeredStuckCounts t) i 0 = 0)) s"
proof (rule wp_mono [OF checkOrders_spec], elim exE conjE)
  fix u :: unit and t :: keeper and triggered n m
  assume a: "hist t = n @ m @ hist s" "quiet n" "distinct triggered"
    "triggeredSpec (map o_id (pendingOrders snap)) [] triggered m"
    "triggeredStuckCounts t = fst (trackTriggeredStuck (triggeredStuckCounts s) triggered (triggeredStuckAlertCycles cfg))"
  from a(1) have st: "since s t = n @ m" by (intro since_append) simp
  have trig: "i \<in> set triggered" if "Simulated (SimExecuteOrder i) (Inr (SimOk v)) \<in> set (since s t)" for i v
  proof -
    have "Simulated (SimExecuteOrder i) (Inr (SimOk v)) \<in> set m"
      using that a(2) by (auto simp: st quiet_def is_action_def)
    then have "Some i \<in> previewedOrder ` set m" by force
    then show ?thesis using a(4) by (simp add: triggeredSpec_def)
  qed
  show "(\<forall>i v. Simulated (SimExecuteOrder i) (Inr (SimOk v)) \<in> set (since s t) \<longrightarrow>
        jget_or (triggeredStuckCounts t) i 0 = Suc (jget_or (triggeredStuckCounts s) i 0))
     \<and> (\<forall>i. i \<notin> o_id ` set (pendingOrders snap) \<longrightarrow> jget_or (triggeredStuckCounts t) i 0 = 0)"
    using trig a(3,4) by (auto simp: a(5) trackTriggeredStuck_counts triggeredSpec_def)
qed

theorem stuck_counters_witness:
  "triggeredStuckCounts (snd (run_state (checkOrders sampleConfig workingEnv sampleSnapshot) sampleKeeper)) \<noteq> []"
proof -
  have "Simulated (SimExecuteOrder 3) (Inr (SimOk RetTrue)) \<in> set (since sampleKeeper
      (snd (run_state (checkOrders sampleConfig workingEnv sampleSnapshot) sampleKeeper)))"
    by code_simp
  from wp_run [OF stuck_counters_follow_triggers, THEN conjunct1, rule_format, OF this]
  show ?thesis by (auto simp: jget_or_def)
qed

text \<open>Factory reconciliation is exact: the duty's only possible traces are nothing at all (no factory
  configured, or a factory without the views), one failed or negative lookup of the order's vault,
  or a lookup that names a vault followed by exactly one reconcile call for this order and that vault.\<close>

theorem reconcile_traces:
  "wp (maybeReconcileFactoryOrder cfg E i) (\<lambda>_ t. reconcileTrace i (since s t)) s"
  by (rule yields_since [OF reconcile_yields])

end
