(* ===== verification/KeeperOracle.thy ===== *)
theory KeeperOracle
  imports KeeperStart
begin

text \<open>
  The publish path of \<open>scripts/keeper/src/index.ts\<close>: the per-asset defences
  (\<open>passesPublishDefenses\<close>), the choice of one signing round, the batched push with the persisted
  last-pushed prices, the spike alert and the NAV refresh. The independent ticker and the Stork
  feed are read through their modules, which answer only positive finite prices or nothing
  (\<open>reference.ts\<close>, \<open>stork.ts\<close>).
\<close>

section \<open>Definitions\<close>

definition ORACLE_INTER_ASSET_DELAY_MS :: int where "ORACLE_INTER_ASSET_DELAY_MS = 1500"
definition FULL_PNL_SYNC_INTERVAL_MS :: int where "FULL_PNL_SYNC_INTERVAL_MS = 5 * 60 * 1000"
definition PNL_SYNC_MOVE_BPS :: int where "PNL_SYNC_MOVE_BPS = 10"
definition SPIKE_ALERT_THROTTLE_MS :: int where "SPIKE_ALERT_THROTTLE_MS = 60 * 60 * 1000"

definition jumpBoundWindowMs :: "keeper_config \<Rightarrow> int" where
  "jumpBoundWindowMs cfg = max (10 * 60 * 1000) (5 * oracleUpdateIntervalMs cfg)"

text \<open>\<open>BigInt(Math.round(x * 1e7))\<close>.\<close>

definition scaled7 :: "rat \<Rightarrow> int" where
  "scaled7 x = \<lfloor>x * 10000000 + 1 / 2\<rfloor>"

definition getReferencePrice :: "env \<Rightarrow> asset \<Rightarrow> rat option kprog" where
  "getReferencePrice E symbol = ask (\<lambda>h. e_reference E h symbol) (ReadReference symbol)"

definition getStorkPrice :: "env \<Rightarrow> asset \<Rightarrow> rat option kprog" where
  "getStorkPrice E symbol = ask (\<lambda>h. e_stork E h symbol) (ReadStork symbol)"

definition percentFrom :: "rat \<Rightarrow> rat \<Rightarrow> rat" where
  "percentFrom price base = (\<bar>price - base\<bar> / base) * 100"

definition refuse :: "env \<Rightarrow> level \<Rightarrow> string \<Rightarrow> bool kprog" where
  "refuse E lvl title = do {
     bumpStats (\<lambda>st. st\<lparr>priceSkips := priceSkips st + 1\<rparr>);
     sendAlert E lvl title;
     ret False }"

definition outsideBand :: "asset_config \<Rightarrow> int \<Rightarrow> bool" where
  "outsideBand ac priceScaled \<longleftrightarrow>
     priceScaled < scaled7 (ac_minPrice ac) \<or> priceScaled > scaled7 (ac_maxPrice ac)"

definition jumpBlocked :: "keeper_config \<Rightarrow> asset_config \<Rightarrow> price_data option \<Rightarrow> rat \<Rightarrow> int \<Rightarrow> bool" where
  "jumpBlocked cfg ac lastPrice priceHuman t =
     (case lastPrice of
        None \<Rightarrow> False
      | Some lp \<Rightarrow> pd_price lp > 0 \<and> percentFrom priceHuman (pd_price lp) > ac_maxMovePct ac \<and>
                  t - pd_timestamp lp \<le> jumpBoundWindowMs cfg)"

definition passesPublishDefenses ::
    "keeper_config \<Rightarrow> env \<Rightarrow> asset_config \<Rightarrow> rat \<Rightarrow> int \<Rightarrow> bool kprog" where
  "passesPublishDefenses cfg E ac priceHuman priceScaled = (let symbol = ac_symbol ac in
     if outsideBand ac priceScaled then refuse E Warn (''Refused a crazy '' @ symbol @ '' price'')
     else do {
       t \<leftarrow> dateNow E;
       lastPrice \<leftarrow> gets (\<lambda>s. map_of (currentPrices s) symbol);
       if jumpBlocked cfg ac lastPrice priceHuman t
       then refuse E Warn (''Refused a huge '' @ symbol @ '' jump'')
       else do {
         reference \<leftarrow> getReferencePrice E symbol;
         if (case reference of None \<Rightarrow> False
             | Some r \<Rightarrow> percentFrom priceHuman r > referenceDivergencePct cfg)
         then refuse E Warn (''Refused '' @ symbol @ '': two price sources disagree'')
         else do {
           stork \<leftarrow> getStorkPrice E symbol;
           if (case stork of None \<Rightarrow> False
               | Some r \<Rightarrow> percentFrom priceHuman r > storkMaxDivergencePct cfg)
           then refuse E Critical (symbol @ '' price sources seriously disagree'')
           else ret True } } })"

text \<open>The validation loop: the survivors and the symbol of each pair.\<close>

definition pairOf :: "asset \<Rightarrow> string" where
  "pairOf symbol = symbol @ ''/USD''"

definition usablePrice :: "jsnum \<Rightarrow> rat option" where
  "usablePrice p = (case p of Num x \<Rightarrow> if x \<le> 0 then None else Some x | _ \<Rightarrow> None)"

primrec collectEligible ::
    "keeper_config \<Rightarrow> env \<Rightarrow> attestation list \<Rightarrow> asset_config list \<Rightarrow>
     attestation list \<times> (string, asset) jmap \<Rightarrow> (attestation list \<times> (string, asset) jmap) kprog" where
  "collectEligible cfg E atts [] acc = ret acc"
| "collectEligible cfg E atts (ac # acs) acc =
     (case find (\<lambda>a. a_asset a = pairOf (ac_symbol ac)) atts of
        None \<Rightarrow> collectEligible cfg E atts acs acc
      | Some att \<Rightarrow>
          (case usablePrice (a_price_human att) of
             None \<Rightarrow> collectEligible cfg E atts acs acc
           | Some priceHuman \<Rightarrow> do {
               ok \<leftarrow> passesPublishDefenses cfg E
                       (the (find (\<lambda>a. ac_symbol a = ac_symbol ac) (assets cfg))) priceHuman (a_price att);
               if \<not> ok then collectEligible cfg E atts acs acc
               else do {
                 t \<leftarrow> dateNow E;
                 modify (\<lambda>s. s\<lparr>latestRounds := jset (ac_symbol ac) (att, t) (latestRounds s)\<rparr>);
                 collectEligible cfg E atts acs
                   (fst acc @ [att], jset (a_asset att) (ac_symbol ac) (snd acc)) } }))"

definition roundKey :: "attestation \<Rightarrow> nat \<times> nat \<times> string" where
  "roundKey a = (a_round_id a, a_timestamp a, a_publisher a)"

definition groupCompare :: "attestation list \<Rightarrow> attestation list \<Rightarrow> int" where
  "groupCompare a b =
     (if length b \<noteq> length a then int (length b) - int (length a)
      else int (a_round_id (b ! 0)) - int (a_round_id (a ! 0)))"

definition selectBatch :: "attestation list \<Rightarrow> attestation list" where
  "selectBatch eligible = js_sort groupCompare (map snd (group_on roundKey eligible)) ! 0"

definition alertSpike :: "env \<Rightarrow> asset \<Rightarrow> unit kprog" where
  "alertSpike E symbol = do {
     t \<leftarrow> dateNow E;
     previous \<leftarrow> gets (\<lambda>s. jget_or (spikeAlertAt s) symbol 0);
     if t - previous < SPIKE_ALERT_THROTTLE_MS then skip
     else do {
       modify (\<lambda>s. s\<lparr>spikeAlertAt := jset symbol t (spikeAlertAt s)\<rparr>);
       sendAlert E Info (symbol @ '' price moved fast'') } }"

definition isSpike :: "keeper_config \<Rightarrow> price_data option \<Rightarrow> int \<Rightarrow> bool" where
  "isSpike cfg previous priceScaled =
     (case previous of
        None \<Rightarrow> False
      | Some p \<Rightarrow> pd_priceScaled p > 0 \<and> spikeAlertPct cfg > 0 \<and>
          (\<bar>rat_of_int (priceScaled - pd_priceScaled p)\<bar> / rat_of_int (pd_priceScaled p)) * 100
            > spikeAlertPct cfg)"

text \<open>One landed attestation: spike alert, local price, persisted price; the symbol is pushed.\<close>

definition landed :: "keeper_config \<Rightarrow> env \<Rightarrow> asset \<Rightarrow> attestation \<Rightarrow> rat \<Rightarrow> unit kprog" where
  "landed cfg E symbol att priceHuman = do {
     previous \<leftarrow> gets (\<lambda>s. map_of (currentPrices s) symbol);
     (if isSpike cfg previous (a_price att) then alertSpike E symbol else skip);
     t \<leftarrow> dateNow E;
     let pd = \<lparr>pd_price = priceHuman, pd_priceScaled = a_price att, pd_timestamp = t\<rparr>;
     modify (\<lambda>s. s\<lparr>currentPrices := jset symbol pd (currentPrices s)\<rparr>);
     modify (\<lambda>s. s\<lparr>lastPushedPrices := jset symbol pd (lastPushedPrices s)\<rparr>) }"

primrec recordLanded ::
    "keeper_config \<Rightarrow> env \<Rightarrow> (string, asset) jmap \<Rightarrow> attestation list \<Rightarrow> asset list \<Rightarrow> asset list kprog" where
  "recordLanded cfg E symbolByPair [] pushed = ret pushed"
| "recordLanded cfg E symbolByPair (att # atts) pushed =
     (case (map_of symbolByPair (a_asset att), usablePrice (a_price_human att)) of
        (Some symbol, Some priceHuman) \<Rightarrow> do {
          landed cfg E symbol att priceHuman;
          recordLanded cfg E symbolByPair atts (pushed @ [symbol]) }
      | _ \<Rightarrow> recordLanded cfg E symbolByPair atts pushed)"

definition syncAssetPnl :: "env \<Rightarrow> asset \<Rightarrow> unit kprog" where
  "syncAssetPnl E symbol =
     catch (bindE (invokeWrite E (SyncAssetPnl symbol)) (\<lambda>result. lift (
              if success result then bumpStats (\<lambda>st. st\<lparr>syncPnlPushes := syncPnlPushes st + 1\<rparr>)
              else if indeterminate result then skip
              else logThrottled E (''sync-pnl'', 0, symbol))))
       (\<lambda>e. logThrottled E (''sync-pnl'', 0, symbol))"

definition pnlMoved :: "int \<Rightarrow> int option \<Rightarrow> bool" where
  "pnlMoved price previous =
     (case previous of
        None \<Rightarrow> True
      | Some l \<Rightarrow> if l = 0 then True
          else ((if price > l then price - l else l - price) * 10000) sdiv l \<ge> PNL_SYNC_MOVE_BPS)"

definition refreshNav :: "env \<Rightarrow> asset list \<Rightarrow> unit kprog" where
  "refreshNav E pushed = do {
     t \<leftarrow> dateNow E;
     fullSync \<leftarrow> gets (\<lambda>s. t - lastFullPnlSyncAt s > FULL_PNL_SYNC_INTERVAL_MS);
     (if fullSync then modify (\<lambda>s. s\<lparr>lastFullPnlSyncAt := t\<rparr>) else skip);
     for_each pushed (\<lambda>symbol. do {
       price \<leftarrow> gets (\<lambda>s. case map_of (currentPrices s) symbol of None \<Rightarrow> 0 | Some p \<Rightarrow> pd_priceScaled p);
       previous \<leftarrow> gets (\<lambda>s. map_of (lastSyncedPnlPrice s) symbol);
       if \<not> fullSync \<and> \<not> pnlMoved price previous then skip
       else do {
         syncAssetPnl E symbol;
         modify (\<lambda>s. s\<lparr>lastSyncedPnlPrice := jset symbol price (lastSyncedPnlPrice s)\<rparr>);
         sleep ORACLE_INTER_ASSET_DELAY_MS } }) }"

definition publishBatch ::
    "keeper_config \<Rightarrow> env \<Rightarrow> (string, asset) jmap \<Rightarrow> attestation list \<Rightarrow> asset list kprog" where
  "publishBatch cfg E symbolByPair batch = do {
     reply \<leftarrow> invokeWrite E (PublishBatch batch);
     case reply of
       Inl e \<Rightarrow> ret []
     | Inr result \<Rightarrow>
         if \<not> success result then ret []
         else do {
           pushed \<leftarrow> recordLanded cfg E symbolByPair batch [];
           saveKeeperState;
           bumpStats (\<lambda>st. st\<lparr>oracleUpdates := oracleUpdates st + 1\<rparr>);
           refreshNav E pushed;
           ret pushed } }"

definition countError :: "unit kprog" where
  "countError = bumpStats (\<lambda>st. st\<lparr>errors := errors st + 1\<rparr>)"

definition updateOraclePrices :: "keeper_config \<Rightarrow> env \<Rightarrow> asset list kprog" where
  "updateOraclePrices cfg E = do {
     r \<leftarrow> fetchNoeracleFresh E;
     case r of
       Inl e \<Rightarrow> do { countError; ret [] }
     | Inr atts \<Rightarrow>
         if atts = [] then do { countError; ret [] }
         else do {
           (eligible, symbolByPair) \<leftarrow> collectEligible cfg E atts (assets cfg) ([], []);
           if eligible = [] then ret []
           else publishBatch cfg E symbolByPair (selectBatch eligible) } }"


section \<open>Lemmas: one signing round\<close>

definition groupKey :: "attestation list \<Rightarrow> int \<times> int" where
  "groupKey g = (- int (length g), - int (a_round_id (g ! 0)))"

interpretation rounds: comparator groupCompare groupKey
  by unfold_locales (auto simp: groupCompare_def groupKey_def)

definition roundGroup :: "attestation list \<Rightarrow> nat \<times> nat \<times> string \<Rightarrow> attestation list" where
  "roundGroup eligible k = filter (\<lambda>a. roundKey a = k) eligible"

lemma groups_iff:
  "g \<in> set (map snd (group_on roundKey eligible)) \<longleftrightarrow> (\<exists>a \<in> set eligible. g = roundGroup eligible (roundKey a))"
proof
  assume "g \<in> set (map snd (group_on roundKey eligible))"
  then obtain k where "(k, g) \<in> set (group_on roundKey eligible)" by auto
  then show "\<exists>a \<in> set eligible. g = roundGroup eligible (roundKey a)"
    by (auto simp: in_group_on roundGroup_def)
next
  assume "\<exists>a \<in> set eligible. g = roundGroup eligible (roundKey a)"
  then obtain a where "a \<in> set eligible" "g = roundGroup eligible (roundKey a)" by blast
  then have "(roundKey a, g) \<in> set (group_on roundKey eligible)"
    by (simp add: in_group_on roundGroup_def)
  then show "g \<in> set (map snd (group_on roundKey eligible))" by force
qed

lemma selectBatch_group:
  assumes "eligible \<noteq> []"
  obtains a where "a \<in> set eligible" "selectBatch eligible = roundGroup eligible (roundKey a)"
    "\<forall>b \<in> set eligible. groupKey (selectBatch eligible) \<le> groupKey (roundGroup eligible (roundKey b))"
proof -
  let ?gs = "map snd (group_on roundKey eligible)"
  obtain a where "a \<in> set eligible" using assms by (cases eligible) auto
  then have "roundGroup eligible (roundKey a) \<in> set ?gs" unfolding groups_iff by blast
  then have ne: "?gs \<noteq> []" by (cases ?gs) simp_all
  have "selectBatch eligible \<in> set ?gs"
    unfolding selectBatch_def by (rule rounds.js_sort_first(1) [OF ne])
  moreover have "groupKey (selectBatch eligible) \<le> groupKey (roundGroup eligible (roundKey b))"
    if "b \<in> set eligible" for b
    unfolding selectBatch_def using that groups_iff by (intro rounds.js_sort_first(2) [OF ne]) blast
  ultimately show ?thesis using that groups_iff by blast
qed

lemma roundGroup_nonempty: "a \<in> set eligible \<Longrightarrow> roundGroup eligible (roundKey a) \<noteq> []"
  by (auto simp: roundGroup_def filter_empty_conv)

lemma roundGroup_first: "a \<in> set eligible \<Longrightarrow> a_round_id (roundGroup eligible (roundKey a) ! 0) = a_round_id a"
proof -
  assume "a \<in> set eligible"
  then have "roundGroup eligible (roundKey a) ! 0 \<in> set (roundGroup eligible (roundKey a))"
    using roundGroup_nonempty by (intro nth_mem) auto
  then show ?thesis by (auto simp: roundGroup_def roundKey_def)
qed

text \<open>A push carries one signing round, the best one: the batch chosen from the eligible attestations is
  non-empty, holds every eligible attestation of its (round, timestamp, publisher) and nothing
  else, and no other round has more attestations, or as many with a higher round id.\<close>

theorem selectBatch_best_round:
  assumes "eligible \<noteq> []"
  shows "\<exists>a \<in> set eligible. selectBatch eligible = filter (\<lambda>b. roundKey b = roundKey a) eligible
     \<and> a \<in> set (selectBatch eligible)
     \<and> (\<forall>b \<in> set eligible.
          let other = filter (\<lambda>c. roundKey c = roundKey b) eligible in
          length other < length (selectBatch eligible)
          \<or> (length other = length (selectBatch eligible) \<and> a_round_id b \<le> a_round_id a))"
proof -
  from selectBatch_group [OF assms] obtain a where a: "a \<in> set eligible"
    "selectBatch eligible = roundGroup eligible (roundKey a)"
    "\<forall>b \<in> set eligible. groupKey (selectBatch eligible) \<le> groupKey (roundGroup eligible (roundKey b))"
    by blast
  have "length (roundGroup eligible (roundKey b)) < length (selectBatch eligible)
      \<or> (length (roundGroup eligible (roundKey b)) = length (selectBatch eligible)
          \<and> a_round_id b \<le> a_round_id a)" if "b \<in> set eligible" for b
    using a(1) bspec [OF a(3) that] roundGroup_first [OF that] roundGroup_first [OF a(1)]
    by (auto simp: groupKey_def a(2))
  then show ?thesis using a(1,2) by (auto simp: roundGroup_def Let_def)
qed

definition sampleAtt :: "nat \<Rightarrow> string \<Rightarrow> int \<Rightarrow> attestation" where
  "sampleAtt r a p = \<lparr>a_asset = a, a_price = p, a_price_human = Num (rat_of_int p / 10000000),
     a_round_id = r, a_timestamp = 17, a_publisher = ''noether'', a_signature = ''00'', a_message = ''00''\<rparr>"

theorem selectBatch_best_round_witness:
  "\<exists>a \<in> set [sampleAtt 7 ''BTC/USD'' 5, sampleAtt 8 ''ETH/USD'' 6, sampleAtt 8 ''XLM/USD'' 7].
     a \<in> set (selectBatch [sampleAtt 7 ''BTC/USD'' 5, sampleAtt 8 ''ETH/USD'' 6, sampleAtt 8 ''XLM/USD'' 7])"
  using selectBatch_best_round [of "[sampleAtt 7 ''BTC/USD'' 5, sampleAtt 8 ''ETH/USD'' 6, sampleAtt 8 ''XLM/USD'' 7]"]
  by blast

section \<open>Lemmas: defences\<close>

text \<open>What a published attestation went through, with the events that prove it.\<close>

definition agrees :: "rat option \<Rightarrow> rat \<Rightarrow> rat \<Rightarrow> bool" where
  "agrees reference price limit = (case reference of None \<Rightarrow> True | Some r \<Rightarrow> percentFrom price r \<le> limit)"

definition jumpCleared ::
    "keeper_config \<Rightarrow> env \<Rightarrow> asset_config \<Rightarrow> keeper \<Rightarrow> rat \<Rightarrow> event list \<Rightarrow> bool" where
  "jumpCleared cfg E ac s price new \<longleftrightarrow> (\<exists>later earlier. new = later @ earlier \<and>
     \<not> jumpBlocked cfg ac (map_of (currentPrices s) (ac_symbol ac)) price (e_clock E (earlier @ hist s)))"

definition cleared ::
    "keeper_config \<Rightarrow> env \<Rightarrow> asset_config \<Rightarrow> keeper \<Rightarrow> attestation \<Rightarrow> event list \<Rightarrow> bool" where
  "cleared cfg E ac s a new \<longleftrightarrow> (\<exists>price. a_price_human a = Num price \<and> 0 < price
     \<and> \<not> outsideBand ac (a_price a)
     \<and> jumpCleared cfg E ac s price new
     \<and> (\<exists>r. ReadReference (ac_symbol ac) r \<in> set new \<and> agrees r price (referenceDivergencePct cfg))
     \<and> (\<exists>r. ReadStork (ac_symbol ac) r \<in> set new \<and> agrees r price (storkMaxDivergencePct cfg)))"

lemma jumpCleared_now:
  "\<not> jumpBlocked cfg ac (map_of (currentPrices s) (ac_symbol ac)) price (e_clock E (hist s)) \<Longrightarrow>
   jumpCleared cfg E ac s price n"
  unfolding jumpCleared_def by (intro exI [of _ n] exI [of _ "[]"]) simp

lemma jumpCleared_append: "jumpCleared cfg E ac s p n \<Longrightarrow> jumpCleared cfg E ac s p (m @ n)"
  unfolding jumpCleared_def by (metis append_assoc)

lemma jumpCleared_shift:
  "hist t = n @ hist s \<Longrightarrow> currentPrices t = currentPrices s \<Longrightarrow> jumpCleared cfg E ac t p m \<Longrightarrow>
   jumpCleared cfg E ac s p (m @ n)"
  unfolding jumpCleared_def by (metis append_assoc)

lemma cleared_append: "cleared cfg E ac s a n \<Longrightarrow> cleared cfg E ac s a (m @ n)"
  unfolding cleared_def using jumpCleared_append by fastforce

lemma cleared_shift:
  "hist t = n @ hist s \<Longrightarrow> currentPrices t = currentPrices s \<Longrightarrow> cleared cfg E ac t a m \<Longrightarrow>
   cleared cfg E ac s a (m @ n)"
  unfolding cleared_def using jumpCleared_shift by fastforce

lemma framed_prices [simp]: "framed currentPrices" "framed lastPushedPrices"
  by (simp_all add: framed_def)

lemma keeps_sources [keeps_intros]:
  "stable J \<Longrightarrow> keeps (hinv J) (getReferencePrice E a)" "stable J \<Longrightarrow> keeps (hinv J) (getStorkPrice E a)"
  unfolding getReferencePrice_def getStorkPrice_def
  by (auto intro!: keeps_ask simp: stable_def is_action_def)

lemma keeps_refuse [keeps_intros]: "stable J \<Longrightarrow> keeps (hinv J) (refuse E l m)"
  unfolding refuse_def by (intro keeps_intros) auto

lemma same_sources [same_intros]:
  "framed f \<Longrightarrow> keeps (same f) (getReferencePrice E a)" "framed f \<Longrightarrow> keeps (same f) (getStorkPrice E a)"
  "framed f \<Longrightarrow> keeps (same f) (refuse E l m)"
  unfolding getReferencePrice_def getStorkPrice_def refuse_def
  by (auto intro!: same_ask keeps_intros same_intros)

lemma refuse_False: "wp (refuse E l m) (\<lambda>ok _. \<not> ok) s"
  unfolding refuse_def by (auto simp: bumpStats_def intro: wp_any)

lemma keeps_defenses [keeps_intros]: "stable J \<Longrightarrow> keeps (hinv J) (passesPublishDefenses cfg E ac p ps)"
  unfolding passesPublishDefenses_def Let_def by (intro keeps_intros) auto

lemma same_defenses [same_intros]: "framed f \<Longrightarrow> keeps (same f) (passesPublishDefenses cfg E ac p ps)"
  unfolding passesPublishDefenses_def Let_def by (intro keeps_intros same_intros) auto

lemma defenses_evidence:
  "wp (passesPublishDefenses cfg E ac p (a_price a)) (\<lambda>ok t. ok \<longrightarrow> a_price_human a = Num p \<longrightarrow> 0 < p \<longrightarrow>
     (\<exists>n. hist t = n @ hist s \<and> quiet n \<and> cleared cfg E ac s a n)) s"
  unfolding passesPublishDefenses_def Let_def getReferencePrice_def getStorkPrice_def
  by (auto simp: wp_if cleared_def agrees_def is_action_def quiet_def
      intro!: wp_mono [OF refuse_False] jumpCleared_now split: option.splits)

definition evidence :: "keeper_config \<Rightarrow> env \<Rightarrow> keeper \<Rightarrow> attestation \<Rightarrow> event list \<Rightarrow> bool" where
  "evidence cfg E s a n \<longleftrightarrow>
     (\<exists>ac \<in> set (assets cfg). a_asset a = pairOf (ac_symbol ac) \<and> cleared cfg E ac s a n)"

lemma evidence_append: "evidence cfg E s a n \<Longrightarrow> evidence cfg E s a (m @ n)"
  unfolding evidence_def by (blast intro: cleared_append)

lemma evidence_shift:
  "hist t = n @ hist s \<Longrightarrow> currentPrices t = currentPrices s \<Longrightarrow> evidence cfg E t a m \<Longrightarrow>
   evidence cfg E s a (m @ n)"
  unfolding evidence_def by (blast intro: cleared_shift)

definition collected ::
    "keeper_config \<Rightarrow> env \<Rightarrow> attestation list \<times> (string, asset) jmap \<Rightarrow> keeper \<Rightarrow>
     attestation list \<times> (string, asset) jmap \<Rightarrow> keeper \<Rightarrow> bool" where
  "collected cfg E acc s r t \<longleftrightarrow> (\<exists>n. hist t = n @ hist s \<and> quiet n
     \<and> currentPrices t = currentPrices s \<and> lastPushedPrices t = lastPushedPrices s
     \<and> (\<forall>a \<in> set (fst r). a \<in> set (fst acc) \<or> evidence cfg E s a n)
     \<and> (\<forall>p smb. map_of (snd r) p = Some smb \<longrightarrow> map_of (snd acc) p = Some smb \<or> p = pairOf smb))"

lemma collected_step:
  assumes "hist t = n @ hist s" "quiet n" "currentPrices t = currentPrices s" "lastPushedPrices t = lastPushedPrices s"
    and "evidence cfg E s a n" "p = pairOf smb"
    and "collected cfg E (fst acc @ [a], jset p smb (snd acc)) t r u"
  shows "collected cfg E acc s r u"
proof -
  from assms(7) obtain m where m: "hist u = m @ hist t" "quiet m" "currentPrices u = currentPrices t"
      "lastPushedPrices u = lastPushedPrices t"
      "\<forall>b \<in> set (fst r). b \<in> set (fst acc) \<or> b = a \<or> evidence cfg E t b m"
      "\<forall>q sy. map_of (snd r) q = Some sy \<longrightarrow> map_of (jset p smb (snd acc)) q = Some sy \<or> q = pairOf sy"
    unfolding collected_def by auto
  have "b \<in> set (fst acc) \<or> evidence cfg E s b (m @ n)" if "b \<in> set (fst r)" for b
    using m(5) that evidence_append [OF assms(5), of m]
      evidence_shift [OF assms(1,3), of cfg E b m] by blast
  moreover have "map_of (snd acc) q = Some sy \<or> q = pairOf sy" if "map_of (snd r) q = Some sy" for q sy
    using m(6) that assms(6) by (auto split: if_splits)
  ultimately show ?thesis
    unfolding collected_def using m(1-4) assms(1-4) by (intro exI [of _ "m @ n"]) auto
qed

lemma collected_skip:
  assumes "hist t = n @ hist s" "quiet n" "currentPrices t = currentPrices s" "lastPushedPrices t = lastPushedPrices s"
    and "collected cfg E acc t r u"
  shows "collected cfg E acc s r u"
proof -
  from assms(5) obtain m where m: "hist u = m @ hist t" "quiet m" "currentPrices u = currentPrices t"
      "lastPushedPrices u = lastPushedPrices t"
      "\<forall>b \<in> set (fst r). b \<in> set (fst acc) \<or> evidence cfg E t b m"
      "\<forall>q sy. map_of (snd r) q = Some sy \<longrightarrow> map_of (snd acc) q = Some sy \<or> q = pairOf sy"
    unfolding collected_def by auto
  have "b \<in> set (fst acc) \<or> evidence cfg E s b (m @ n)" if "b \<in> set (fst r)" for b
    using m(5) that evidence_shift [OF assms(1,3), of cfg E b m] by blast
  then show ?thesis
    unfolding collected_def using m assms(1-4) by (intro exI [of _ "m @ n"]) auto
qed

lemma defenses_step:
  "wp (passesPublishDefenses cfg E ac p (a_price a)) (\<lambda>ok t. \<exists>n. hist t = n @ hist s \<and> quiet n \<and>
     currentPrices t = currentPrices s \<and> lastPushedPrices t = lastPushedPrices s \<and>
     (ok \<and> a_price_human a = Num p \<and> 0 < p \<longrightarrow> cleared cfg E ac s a n)) s"
proof -
  note q = keepsD [OF keeps_quiet [OF keeps_defenses [of _ cfg E ac p "a_price a"]], of s]
  note f = keepsD [OF same_defenses [OF framed_prices(1)], of cfg E ac p "a_price a" s]
    keepsD [OF same_defenses [OF framed_prices(2)], of cfg E ac p "a_price a" s]
  show ?thesis
    using defenses_evidence [of cfg E ac p a s] q f
    unfolding wp_eq_run adds_def by (metis append_same_eq)
qed

lemma find_SomeD: "find P xs = Some x \<Longrightarrow> P x \<and> x \<in> set xs"
  by (auto simp: find_Some_iff)

lemma find_config:
  assumes "ac \<in> set acs"
  obtains ac' where "find (\<lambda>a. ac_symbol a = ac_symbol ac) acs = Some ac'" "ac' \<in> set acs" "ac_symbol ac' = ac_symbol ac"
  using assms find_None_iff [of "\<lambda>a. ac_symbol a = ac_symbol ac" acs]
  by (metis (mono_tags, lifting) find_SomeD not_None_eq)

lemma collectEligible_spec:
  "set acs \<subseteq> set (assets cfg) \<Longrightarrow> wp (collectEligible cfg E atts acs acc) (collected cfg E acc s) s"
proof (induction acs arbitrary: acc s)
  case Nil
  then show ?case by (simp add: collected_def)
next
  case (Cons ac acs)
  have IH: "wp (collectEligible cfg E atts acs acc') (collected cfg E acc' t) t" for acc' t
    using Cons by simp
  show ?case
  proof (cases "find (\<lambda>a. a_asset a = pairOf (ac_symbol ac)) atts")
    case None
    then show ?thesis using IH by simp
  next
    case att: (Some a)
    show ?thesis
    proof (cases "usablePrice (a_price_human a)")
      case None
      then show ?thesis using att IH by simp
    next
      case price: (Some p)
      then have p: "a_price_human a = Num p" "0 < p"
        by (auto simp: usablePrice_def split: jsnum.splits if_splits)
      obtain ac' where ac': "find (\<lambda>a. ac_symbol a = ac_symbol ac) (assets cfg) = Some ac'"
          "ac' \<in> set (assets cfg)" "ac_symbol ac' = ac_symbol ac"
        using Cons.prems find_config [of ac "assets cfg"] by auto
      have pair: "a_asset a = pairOf (ac_symbol ac)"
        using att find_SomeD by (metis (mono_tags, lifting))
      show ?thesis
        using att price ac'(1)
      proof (simp, rule_tac wp_mono [OF defenses_step [where ac = ac' and p = p and a = a]])
        fix ok and t :: keeper
        assume "\<exists>n. hist t = n @ hist s \<and> quiet n \<and>
           currentPrices t = currentPrices s \<and> lastPushedPrices t = lastPushedPrices s \<and>
           (ok \<and> a_price_human a = Num p \<and> 0 < p \<longrightarrow> cleared cfg E ac' s a n)"
        then obtain n where n: "hist t = n @ hist s" "quiet n" "currentPrices t = currentPrices s"
            "lastPushedPrices t = lastPushedPrices s" "ok \<longrightarrow> cleared cfg E ac' s a n" using p by blast
        have "ok \<longrightarrow> evidence cfg E s a n" unfolding evidence_def using n(5) ac'(2,3) pair by metis
        let ?acc = "(fst acc @ [a], jset (a_asset a) (ac_symbol ac) (snd acc))"
        show "wp (if \<not> ok then collectEligible cfg E atts acs acc
               else do {
                 t \<leftarrow> dateNow E;
                 modify (\<lambda>s. s\<lparr>latestRounds := jset (ac_symbol ac) (a, t) (latestRounds s)\<rparr>);
                 collectEligible cfg E atts acs ?acc }) (collected cfg E acc s) t"
        proof (cases ok)
          case False
          then show ?thesis using n by (auto intro: wp_mono [OF IH] collected_skip)
        next
          case True
          let ?t = "t\<lparr>latestRounds := jset (ac_symbol ac) (a, e_clock E (hist t)) (latestRounds t)\<rparr>"
          have "wp (collectEligible cfg E atts acs ?acc) (collected cfg E acc s) ?t"
            by (rule wp_mono [OF IH],
                rule collected_step [where t = ?t and n = n and a = a and p = "a_asset a" and smb = "ac_symbol ac"])
              (use n \<open>ok \<longrightarrow> evidence cfg E s a n\<close> pair True in simp_all)
          then show ?thesis using True by simp
        qed
      qed
    qed
  qed
qed

text \<open>The push: the local prices change only for the pushed batch.\<close>

definition isPublish :: "event \<Rightarrow> bool" where
  "isPublish ev = (case ev of Submitted (PublishBatch _) _ \<Rightarrow> True | _ \<Rightarrow> False)"

lemma keeps_alertSpike [keeps_intros]: "stable J \<Longrightarrow> keeps (hinv J) (alertSpike E a)"
  unfolding alertSpike_def by (intro keeps_intros) auto

lemma keeps_landed [keeps_intros]: "stable J \<Longrightarrow> keeps (hinv J) (landed cfg E smb a p)"
  unfolding landed_def Let_def by (intro keeps_intros) auto

lemma keeps_recordLanded [keeps_intros]: "stable J \<Longrightarrow> keeps (hinv J) (recordLanded cfg E sbp atts pushed)"
  by (induction atts arbitrary: pushed)
    (auto intro!: keeps_intros split: option.split)

lemma keeps_refreshNav:
  "stable J \<Longrightarrow> (\<And>h smb r. J h \<Longrightarrow> J (Submitted (SyncAssetPnl smb) r # h)) \<Longrightarrow> keeps (hinv J) (refreshNav E pushed)"
  unfolding refreshNav_def syncAssetPnl_def
  by (intro keeps_intros keeps_invokeWrite) auto

lemma same_refreshNav: "keeps (same currentPrices) (refreshNav E pushed)"
  unfolding refreshNav_def syncAssetPnl_def
  by (intro keeps_intros same_intros same_modify) auto

lemma same_alertSpike: "keeps (same currentPrices) (alertSpike E a)"
  unfolding alertSpike_def by (intro keeps_intros same_intros same_modify) auto

definition priceFrom :: "attestation list \<Rightarrow> (asset, price_data) jmap \<Rightarrow> (asset, price_data) jmap \<Rightarrow> bool" where
  "priceFrom batch old new \<longleftrightarrow> (\<forall>smb. map_of new smb = map_of old smb \<or>
     (\<exists>a \<in> set batch. a_asset a = pairOf smb \<and> map_option pd_priceScaled (map_of new smb) = Some (a_price a)))"

lemma priceFrom_refl: "priceFrom b m m"
  by (simp add: priceFrom_def)

lemma recordLanded_prices:
  assumes "\<forall>p smb. map_of sbp p = Some smb \<longrightarrow> p = pairOf smb"
  shows "set atts \<subseteq> set batch \<Longrightarrow> priceFrom batch (currentPrices s0) (currentPrices s) \<Longrightarrow>
    wp (recordLanded cfg E sbp atts pushed) (\<lambda>_ t. priceFrom batch (currentPrices s0) (currentPrices t)) s"
proof (induction atts arbitrary: pushed s)
  case Nil
  then show ?case by simp
next
  case (Cons a atts)
  have step: "wp (landed cfg E smb a p) (\<lambda>_ t. priceFrom batch (currentPrices s0) (currentPrices t)) s"
    if "map_of sbp (a_asset a) = Some smb" for smb p
  proof -
    have "a_asset a = pairOf smb" "a \<in> set batch" using that assms Cons.prems by auto
    then have upd: "priceFrom batch (currentPrices s0) (jset smb
        \<lparr>pd_price = p, pd_priceScaled = a_price a, pd_timestamp = x\<rparr> (currentPrices s))" for x
      using Cons.prems(2) by (auto simp: priceFrom_def)
    show ?thesis
      unfolding landed_def Let_def
      by (auto simp: wp_if upd intro!: wp_mono [OF keepsD [OF same_alertSpike]])
  qed
  show ?case
    using Cons by (auto split: option.split intro!: wp_mono [OF step])
qed

lemma publishBatch_spec:
  assumes sbp: "\<forall>p smb. map_of sbp p = Some smb \<longrightarrow> p = pairOf smb"
  shows "wp (publishBatch cfg E sbp batch) (\<lambda>_ t. \<exists>m r. hist t = m @ Submitted (PublishBatch batch) r # hist s
      \<and> (\<forall>ev \<in> set m. \<not> isPublish ev)
      \<and> (currentPrices t = currentPrices s \<or> (\<exists>x. r = Inr x \<and> success x) \<and>
          priceFrom batch (currentPrices s) (currentPrices t))) s"
proof -
  let ?r = "e_submit E (hist s) (PublishBatch batch)"
  let ?s1 = "s\<lparr>hist := Submitted (PublishBatch batch) ?r # hist s\<rparr>"
  show ?thesis
  proof (cases "\<exists>x. ?r = Inr x \<and> success x")
    case False
    then show ?thesis
      by (cases ?r) (auto simp: publishBatch_def client_defs wp_if intro!: exI [of _ "[]"])
  next
    case True
    then obtain x where x: "?r = Inr x" "success x" by blast
    let ?rest = "do {
           pushed \<leftarrow> recordLanded cfg E sbp batch [];
           saveKeeperState;
           bumpStats (\<lambda>st. st\<lparr>oracleUpdates := oracleUpdates st + 1\<rparr>);
           refreshNav E pushed;
           ret pushed }"
    have prices: "wp ?rest (\<lambda>_ t. priceFrom batch (currentPrices s) (currentPrices t)) ?s1"
      unfolding wp_bind
      by (rule wp_mono [OF recordLanded_prices [OF sbp, of batch batch s ?s1 cfg E "[]"]])
        (auto simp: bumpStats_def client_defs priceFrom_refl intro!: wp_mono [OF keepsD [OF same_refreshNav]])
    have "yields ?rest (\<lambda>_ n. \<forall>ev \<in> set n. \<not> isPublish ev)"
    proof (rule yields_all)
      fix J
      assume J: "closed_under (\<lambda>ev. \<not> isPublish ev) J"
      then have st: "stable J"
        by (rule closed_under_stable) (auto simp: isPublish_def is_action_def split: event.splits)
      show "keeps (hinv J) ?rest"
        using J by (intro keeps_intros keeps_refreshNav st) (auto simp: isPublish_def elim: closed_underD)
    qed
    from yieldsD [OF this] have "wp ?rest (\<lambda>_. adds (\<lambda>n. \<forall>ev \<in> set n. \<not> isPublish ev) ?s1) ?s1" .
    with prices have "wp ?rest (\<lambda>_ t. adds (\<lambda>n. \<forall>ev \<in> set n. \<not> isPublish ev) ?s1 t \<and>
        priceFrom batch (currentPrices s) (currentPrices t)) ?s1"
      by (simp only: wp_conj simp_thms)
    then have "wp ?rest (\<lambda>_ t. \<exists>m r. hist t = m @ Submitted (PublishBatch batch) r # hist s
      \<and> (\<forall>ev \<in> set m. \<not> isPublish ev)
      \<and> (currentPrices t = currentPrices s \<or> (\<exists>x. r = Inr x \<and> success x) \<and>
          priceFrom batch (currentPrices s) (currentPrices t))) ?s1"
      by (rule wp_mono) (use x in \<open>auto simp: adds_def\<close>)
    then show ?thesis using x by (simp add: publishBatch_def client_defs)
  qed
qed


lemma selectBatch_sub: "eligible \<noteq> [] \<Longrightarrow> set (selectBatch eligible) \<subseteq> set eligible"
  by (erule selectBatch_group) (auto simp: roundGroup_def)

lemma selectBatch_own_group:
  "eligible \<noteq> [] \<Longrightarrow> \<exists>a \<in> set (selectBatch eligible). selectBatch eligible = roundGroup eligible (roundKey a)"
  by (erule selectBatch_group) (auto simp: roundGroup_def)

text \<open>The whole oracle phase: what it publishes, and what it does to the local prices.\<close>

definition publishTrace ::
    "keeper_config \<Rightarrow> env \<Rightarrow> keeper \<Rightarrow> keeper \<Rightarrow> event list \<Rightarrow> bool" where
  "publishTrace cfg E s t n \<longleftrightarrow>
     (\<forall>ev \<in> set n. \<not> isPublish ev) \<and> currentPrices t = currentPrices s
     \<or> (\<exists>m batch r k eligible. n = m @ Submitted (PublishBatch batch) r # k
          \<and> (\<forall>ev \<in> set m \<union> set k. \<not> isPublish ev)
          \<and> eligible \<noteq> [] \<and> batch = selectBatch eligible
          \<and> (\<forall>a \<in> set eligible. evidence cfg E s a k)
          \<and> (currentPrices t = currentPrices s
             \<or> (\<exists>x. r = Inr x \<and> success x) \<and> priceFrom batch (currentPrices s) (currentPrices t)))"

lemma quiet_noPublish: "quiet n \<Longrightarrow> \<forall>ev \<in> set n. \<not> isPublish ev"
  by (auto simp: quiet_def isPublish_def is_action_def split: event.splits)

lemma updateOraclePrices_trace:
  "wp (updateOraclePrices cfg E) (\<lambda>_ t. publishTrace cfg E s t (since s t)) s"
proof -
  let ?r = "e_rounds E (hist s)"
  let ?s1 = "s\<lparr>hist := FetchedRounds ?r # hist s\<rparr>"
  have none: "publishTrace cfg E s t (since s t)"
    if "hist t = n @ hist s" "quiet n" "currentPrices t = currentPrices s" for t n
    using that quiet_noPublish by (auto simp: publishTrace_def since_append)
  have quietly: "quiet [FetchedRounds x]" for x by (simp add: is_action_def)
  show ?thesis
  proof (cases "\<exists>atts. ?r = Inr atts \<and> atts \<noteq> []")
    case False
    then show ?thesis
      using none [OF _ quietly]
      by (cases ?r) (auto simp: updateOraclePrices_def client_defs countError_def bumpStats_def)
  next
    case True
    then obtain atts where atts: "?r = Inr atts" "atts \<noteq> []" by blast
    have "wp (collectEligible cfg E atts (assets cfg) ([], []))
        (\<lambda>r t. wp (case r of (eligible, symbolByPair) \<Rightarrow> if eligible = [] then ret []
           else publishBatch cfg E symbolByPair (selectBatch eligible))
           (\<lambda>_ t. publishTrace cfg E s t (since s t)) t) ?s1"
    proof (rule wp_mono [OF collectEligible_spec [OF subset_refl]])
      fix r and t :: keeper
      assume "collected cfg E ([], []) ?s1 r t"
      then obtain n where n: "hist t = n @ hist ?s1" "quiet n" "currentPrices t = currentPrices s"
          "\<forall>a \<in> set (fst r). evidence cfg E ?s1 a n" "\<forall>p smb. map_of (snd r) p = Some smb \<longrightarrow> p = pairOf smb"
        by (auto simp: collected_def)
      define k where "k = n @ [FetchedRounds ?r]"
      have k: "hist t = k @ hist s" "quiet k" "\<forall>a \<in> set (fst r). evidence cfg E s a k"
        using n quietly evidence_shift [of ?s1 "[FetchedRounds ?r]" s] by (auto simp: k_def)
      show "wp (case r of (eligible, symbolByPair) \<Rightarrow> if eligible = [] then ret []
           else publishBatch cfg E symbolByPair (selectBatch eligible))
           (\<lambda>_ t. publishTrace cfg E s t (since s t)) t"
      proof (cases "fst r = []")
        case True
        then show ?thesis using none [OF k(1,2) n(3)] by (simp add: split_beta)
      next
        case False
        have "publishTrace cfg E s u (since s u)"
          if "hist u = m @ Submitted (PublishBatch (selectBatch (fst r))) x # hist t"
            "\<forall>ev \<in> set m. \<not> isPublish ev"
            "currentPrices u = currentPrices t \<or> (\<exists>y. x = Inr y \<and> success y) \<and>
               priceFrom (selectBatch (fst r)) (currentPrices t) (currentPrices u)" for u m x
        proof -
          have "since s u = m @ Submitted (PublishBatch (selectBatch (fst r))) x # k"
            using that(1) k(1) by (intro since_append) simp
          then show ?thesis
            unfolding publishTrace_def
            using that(2,3) k n(3) False quiet_noPublish [OF k(2)] by (intro disjI2) fastforce
        qed
        then show ?thesis
          using False by (simp add: split_beta) (rule wp_mono [OF publishBatch_spec [OF n(5)]], blast)
      qed
    qed
    then show ?thesis using atts by (simp add: updateOraclePrices_def client_defs)
  qed
qed

lemma publishTrace_member:
  assumes "publishTrace cfg E s t n" "Submitted (PublishBatch batch) r \<in> set n"
  obtains m k eligible where "n = m @ Submitted (PublishBatch batch) r # k" "eligible \<noteq> []"
    "batch = selectBatch eligible" "\<forall>a \<in> set eligible. evidence cfg E s a k"
proof -
  have pub: "isPublish (Submitted (PublishBatch batch) r)" by (simp add: isPublish_def)
  have "\<not> (\<forall>ev \<in> set n. \<not> isPublish ev)" using assms(2) pub by blast
  then obtain m batch' r' k eligible where w: "n = m @ Submitted (PublishBatch batch') r' # k"
      "\<forall>ev \<in> set m \<union> set k. \<not> isPublish ev" "eligible \<noteq> []" "batch' = selectBatch eligible"
      "\<forall>a \<in> set eligible. evidence cfg E s a k"
    using assms(1) unfolding publishTrace_def by blast
  then have "Submitted (PublishBatch batch) r = Submitted (PublishBatch batch') r'"
    using assms(2) pub by auto
  with w that show thesis by simp
qed

text \<open>C3. Nothing is published undefended: every attestation in a batch the oracle phase submits is a
  configured pair with a finite positive price inside the asset's sanity band, not a blocked jump from
  the last pushed price, read against the independent ticker and against Stork in this very
  phase, each of which was absent or agreed within its limit; and the batch is the selected signing
  round of the attestations so cleared. At most one batch is submitted.\<close>

theorem publishes_only_cleared:
  "wp (updateOraclePrices cfg E) (\<lambda>_ t.
     (\<forall>batch r. Submitted (PublishBatch batch) r \<in> set (since s t) \<longrightarrow>
        batch \<noteq> [] \<and> (\<forall>a \<in> set batch. roundKey a = roundKey (hd batch) \<and>
          (\<exists>ac \<in> set (assets cfg). a_asset a = pairOf (ac_symbol ac) \<and> cleared cfg E ac s a (since s t))))
     \<and> length (filter isPublish (since s t)) \<le> 1) s"
proof (rule wp_mono [OF updateOraclePrices_trace], intro conjI allI impI)
  fix u t batch r
  assume pt: "publishTrace cfg E s t (since s t)" and sub: "Submitted (PublishBatch batch) r \<in> set (since s t)"
  from publishTrace_member [OF this] obtain m k eligible
    where w: "since s t = m @ Submitted (PublishBatch batch) r # k"
      "eligible \<noteq> []" "batch = selectBatch eligible" "\<forall>a \<in> set eligible. evidence cfg E s a k" .
  from selectBatch_own_group [OF w(2)] obtain a0 where a0: "a0 \<in> set batch"
      "batch = roundGroup eligible (roundKey a0)" unfolding w(3) by blast
  then show "batch \<noteq> []" by auto
  then have hd: "hd batch \<in> set batch" by simp
  show "\<forall>a \<in> set batch. roundKey a = roundKey (hd batch) \<and>
      (\<exists>ac \<in> set (assets cfg). a_asset a = pairOf (ac_symbol ac) \<and> cleared cfg E ac s a (since s t))"
  proof
    fix a
    assume a: "a \<in> set batch"
    have "roundKey a = roundKey (hd batch)" using a hd a0(2) by (metis (mono_tags, lifting) mem_Collect_eq roundGroup_def set_filter)
    moreover have "evidence cfg E s a (since s t)"
      using w a selectBatch_sub [OF w(2)] evidence_append [of cfg E s a k "m @ [Submitted (PublishBatch batch) r]"]
      by auto
    ultimately show "roundKey a = roundKey (hd batch) \<and>
      (\<exists>ac \<in> set (assets cfg). a_asset a = pairOf (ac_symbol ac) \<and> cleared cfg E ac s a (since s t))"
      by (simp add: evidence_def)
  qed
next
  fix u t
  assume "publishTrace cfg E s t (since s t)"
  then show "length (filter isPublish (since s t)) \<le> 1"
    by (auto simp: publishTrace_def filter_empty_conv intro!: Suc_leI)
qed

theorem publishes_witness:
  "\<exists>ac \<in> set (assets sampleConfig). cleared sampleConfig workingEnv ac sampleKeeper sampleRound
        (since sampleKeeper (snd (run_state (updateOraclePrices sampleConfig workingEnv) sampleKeeper)))"
proof -
  have "Submitted (PublishBatch [sampleRound]) (Inr landedResult) \<in> set (since sampleKeeper
      (snd (run_state (updateOraclePrices sampleConfig workingEnv) sampleKeeper)))"
    by code_simp
  from wp_run [OF publishes_only_cleared, THEN conjunct1, rule_format, OF this]
  show ?thesis by auto
qed

text \<open>The keeper's own prices, which drive the liquidation prefilters, change only through a landed
  push: after the oracle phase every symbol keeps its price unless a batch push succeeded in this phase,
  and then its new price is the price of an attestation for its pair in that batch.\<close>

theorem prices_only_from_landed_push:
  "wp (updateOraclePrices cfg E) (\<lambda>_ t. \<forall>smb. map_of (currentPrices t) smb = map_of (currentPrices s) smb
     \<or> (\<exists>batch x. \<exists>a \<in> set batch. Submitted (PublishBatch batch) (Inr x) \<in> set (since s t) \<and> success x
          \<and> a_asset a = pairOf smb
          \<and> map_option pd_priceScaled (map_of (currentPrices t) smb) = Some (a_price a))) s"
  by (rule wp_mono [OF updateOraclePrices_trace]) (fastforce simp: publishTrace_def priceFrom_def)

lemma keeps_collectEligible [keeps_intros]:
  "stable J \<Longrightarrow> keeps (hinv J) (collectEligible cfg E atts acs acc)"
proof (induction acs arbitrary: acc)
  case (Cons ac acs)
  then show ?case
    unfolding collectEligible.simps by (intro keeps_intros) (auto intro!: keeps_intros)
qed (simp, intro keeps_intros, simp)

lemma keeps_guarded_nav: "keeps (hinv guarded) (refreshNav E pushed)"
  by (rule keeps_refreshNav) (simp_all add: guarded_unpreviewed del: guarded.simps)

lemma keeps_guarded_publish: "keeps (hinv guarded) (publishBatch cfg E sbp batch)"
  unfolding publishBatch_def
  by (intro keeps_intros keeps_guarded_write keeps_guarded_nav) simp_all

lemma keeps_guarded_oracle: "keeps (hinv guarded) (updateOraclePrices cfg E)"
  unfolding updateOraclePrices_def countError_def
  by (intro keeps_intros keeps_guarded_publish) simp_all

end
