(* ===== verification/Discovery.thy ===== *)
theory Discovery
  imports KeeperStart
begin

text \<open>
  Position and order discovery by chain walk, \<open>scripts/keeper/src/discovery.ts\<close>: the watermark and
  known-live set, the candidates of a cycle, the checksum gate, accepting or holding each id space,
  and set parity for shadow mode. The abstract chain at the end says what the walk promises: the ids
  issued so far and the live ones among them, with ids never reused.
\<close>

section \<open>Definitions\<close>

definition ORDER_STATUS_PENDING :: int where "ORDER_STATUS_PENDING = 0"
definition MISMATCH_ESCALATION_STREAK :: nat where "MISMATCH_ESCALATION_STREAK = 3"

record walk_result =
  liveIds :: "nat list"
  counted :: "nat option"
  nextState :: entity_walk_state

definition candidatesOf :: "entity_walk_state \<Rightarrow> nat \<Rightarrow> nat list" where
  "candidatesOf prior counter = live prior @ [watermark prior + 1..<counter + 1]"

definition idCompare :: "nat \<Rightarrow> nat \<Rightarrow> int" where
  "idCompare a b = (if a < b then -1 else if a > b then 1 else 0)"

text \<open>The pure part of \<open>walk\<close>: \<open>alive\<close> tells which candidates were found with a live value.\<close>

definition walkResult :: "entity_walk_state \<Rightarrow> nat \<Rightarrow> nat option \<Rightarrow> (nat \<Rightarrow> bool) \<Rightarrow> walk_result" where
  "walkResult prior counter cnt alive =
     (let ids = js_sort idCompare (filter alive (candidatesOf prior counter))
      in \<lparr>liveIds = ids, counted = cnt,
          nextState = \<lparr>watermark = (if counter > watermark prior then counter else watermark prior),
                       live = ids\<rparr>\<rparr>)"

definition checksumOk :: "walk_result \<Rightarrow> nat list option \<Rightarrow> bool" where
  "checksumOk result expected =
     (case counted result of
        Some c \<Rightarrow> c = length (liveIds result)
      | None \<Rightarrow>
          (case expected of
             None \<Rightarrow> False
           | Some ids \<Rightarrow>
               if length ids \<noteq> length (liveIds result) then False
               else list_all (\<lambda>i. i \<in> set (liveIds result)) ids))"

definition setDiff :: "nat list \<Rightarrow> nat list \<Rightarrow> nat list \<times> nat list" where
  "setDiff a b = (filter (\<lambda>i. i \<notin> set b) (to_set a), filter (\<lambda>i. i \<notin> set a) (to_set b))"

definition readControl :: "env \<Rightarrow> ((nat option \<times> nat option) \<times> (nat option \<times> nat option)) keprog" where
  "readControl E = ask (e_control E) ReadControl"

definition readPositionEntries :: "env \<Rightarrow> nat list \<Rightarrow> nat list keprog" where
  "readPositionEntries E ids =
     (if ids = [] then okay [] else ask (\<lambda>h. e_positionEntries E h ids) (ReadPositionEntries ids))"

definition readOrderEntries :: "env \<Rightarrow> nat list \<Rightarrow> (nat \<times> int) list keprog" where
  "readOrderEntries E ids =
     (if ids = [] then okay [] else ask (\<lambda>h. e_orderEntries E h ids) (ReadOrderEntries ids))"

text \<open>A position row that exists is live; an order is live when its status is pending.\<close>

definition walkPositions :: "env \<Rightarrow> nat \<Rightarrow> nat option \<Rightarrow> walk_result keprog" where
  "walkPositions E counter cnt =
     bindE (lift (gets (\<lambda>s. ds_positions (discovery s)))) (\<lambda>prior.
     bindE (readPositionEntries E (candidatesOf prior counter)) (\<lambda>found.
       okay (walkResult prior counter cnt (\<lambda>i. i \<in> set found))))"

definition walkOrders :: "env \<Rightarrow> nat \<Rightarrow> nat option \<Rightarrow> walk_result keprog" where
  "walkOrders E counter cnt =
     bindE (lift (gets (\<lambda>s. ds_orders (discovery s)))) (\<lambda>prior.
     bindE (readOrderEntries E (candidatesOf prior counter)) (\<lambda>found.
       okay (walkResult prior counter cnt (\<lambda>i. map_of found i = Some ORDER_STATUS_PENDING))))"

definition mismatchAlert :: "env \<Rightarrow> string \<Rightarrow> nat \<Rightarrow> unit kprog" where
  "mismatchAlert E entity strk =
     (if strk \<ge> MISMATCH_ESCALATION_STREAK
      then sendAlert E Critical (''discovery '' @ entity @ '' checksum mismatch persists'')
      else sendAlert E Warn (''discovery '' @ entity @ '' checksum mismatch''))"

definition acceptPositions :: "walk_result \<Rightarrow> nat list kprog" where
  "acceptPositions result = do {
     modify (\<lambda>s. s\<lparr>discovery := (discovery s)\<lparr>ds_positions := nextState result\<rparr>,
                   lastGoodPositions := Some (liveIds result), positionMismatchStreak := 0\<rparr>);
     ret (liveIds result) }"

definition acceptOrders :: "walk_result \<Rightarrow> nat list kprog" where
  "acceptOrders result = do {
     modify (\<lambda>s. s\<lparr>discovery := (discovery s)\<lparr>ds_orders := nextState result\<rparr>,
                   lastGoodOrders := Some (liveIds result), orderMismatchStreak := 0\<rparr>);
     ret (liveIds result) }"

definition holdPositions :: "env \<Rightarrow> walk_result \<Rightarrow> nat list kprog" where
  "holdPositions E result = do {
     modify (\<lambda>s. s\<lparr>positionMismatchStreak := positionMismatchStreak s + 1\<rparr>);
     strk \<leftarrow> gets positionMismatchStreak;
     mismatchAlert E ''position'' strk;
     gets (\<lambda>s. case lastGoodPositions s of None \<Rightarrow> liveIds result | Some ids \<Rightarrow> ids) }"

definition holdOrders :: "env \<Rightarrow> walk_result \<Rightarrow> nat list kprog" where
  "holdOrders E result = do {
     modify (\<lambda>s. s\<lparr>orderMismatchStreak := orderMismatchStreak s + 1\<rparr>);
     strk \<leftarrow> gets orderMismatchStreak;
     mismatchAlert E ''order'' strk;
     gets (\<lambda>s. case lastGoodOrders s of None \<Rightarrow> liveIds result | Some ids \<Rightarrow> ids) }"

definition discover :: "env \<Rightarrow> (nat list \<times> nat list) option \<Rightarrow> (nat list \<times> nat list) keprog" where
  "discover E expected =
     bindE (readControl E) (\<lambda>control.
       let positionCounter = (case fst (fst control) of None \<Rightarrow> 0 | Some c \<Rightarrow> c);
           orderCounter = (case snd (fst control) of None \<Rightarrow> 0 | Some c \<Rightarrow> c)
       in bindE (walkPositions E positionCounter (fst (snd control))) (\<lambda>positions.
          bindE (walkOrders E orderCounter (snd (snd control))) (\<lambda>orders.
          lift (do {
            positionIds \<leftarrow> (if checksumOk positions (map_option fst expected)
                            then acceptPositions positions else holdPositions E positions);
            orderIds \<leftarrow> (if checksumOk orders (map_option snd expected)
                         then acceptOrders orders else holdOrders E orders);
            ret (positionIds, orderIds) }))))"

section \<open>The abstract chain\<close>

text \<open>Ids are issued from 1 upwards and never reused; closing removes an id for good.\<close>

record chain =
  issued :: nat
  alive :: "nat list"

inductive chain_step :: "chain \<Rightarrow> chain \<Rightarrow> bool" where
  open_id: "chain_step c \<lparr>issued = Suc (issued c), alive = alive c @ [Suc (issued c)]\<rparr>"
| close_id: "chain_step c \<lparr>issued = issued c, alive = filter (\<lambda>j. j \<noteq> i) (alive c)\<rparr>"

text \<open>
  One id space of the keeper against the chain. A walk reads the counters of the chain as it is, and
  a reply that may miss live entries (archived, or a node behind) but invents none; the gate decides
  what is kept. \<open>served\<close> is what the cycle gets to work with.
\<close>

record tracker =
  t_state :: entity_walk_state
  t_good :: "nat list option"
  t_served :: "nat list"

definition gate :: "tracker \<Rightarrow> walk_result \<Rightarrow> tracker" where
  "gate k r = (if checksumOk r None
     then \<lparr>t_state = nextState r, t_good = Some (liveIds r), t_served = liveIds r\<rparr>
     else k\<lparr>t_served := (case t_good k of None \<Rightarrow> liveIds r | Some ids \<Rightarrow> ids)\<rparr>)"

inductive tracked :: "chain \<Rightarrow> tracker \<Rightarrow> bool" where
  boot: "distinct ids \<Longrightarrow> set ids \<subseteq> {1..n} \<Longrightarrow>
    tracked \<lparr>issued = n, alive = ids\<rparr> \<lparr>t_state = \<lparr>watermark = 0, live = []\<rparr>, t_good = None, t_served = []\<rparr>"
| trade: "tracked c k \<Longrightarrow> chain_step c c' \<Longrightarrow> tracked c' k"
| walked: "tracked c k \<Longrightarrow> (\<And>i. seen i \<Longrightarrow> i \<in> set (alive c)) \<Longrightarrow>
    tracked c (gate k (walkResult (t_state k) (issued c) (Some (length (alive c))) seen))"


section \<open>Lemmas\<close>

interpretation ids: comparator idCompare "\<lambda>i. i"
  by unfold_locales (auto simp: idCompare_def)

lemma sort_ids: "distinct xs \<Longrightarrow> js_sort idCompare xs = sort xs"
  using ids.js_sort_eq_sort_key [of xs] by simp

definition tracks :: "chain \<Rightarrow> entity_walk_state \<Rightarrow> bool" where
  "tracks c w \<longleftrightarrow> distinct (alive c) \<and> set (alive c) \<subseteq> {1..issued c}
     \<and> watermark w \<le> issued c \<and> distinct (live w) \<and> set (live w) \<subseteq> {1..watermark w}
     \<and> {i \<in> set (alive c). i \<le> watermark w} \<subseteq> set (live w)"

lemma distinct_candidates: "tracks c w \<Longrightarrow> distinct (candidatesOf w n)"
  by (auto simp: tracks_def candidatesOf_def)

lemma alive_candidates: "tracks c w \<Longrightarrow> i \<in> set (alive c) \<Longrightarrow> i \<in> set (candidatesOf w (issued c))"
  by (cases "i \<le> watermark w") (force simp: tracks_def candidatesOf_def)+

lemma walk_ids:
  assumes "tracks c w" "\<And>i. seen i \<Longrightarrow> i \<in> set (alive c)"
  shows "liveIds (walkResult w (issued c) cnt seen) = sort (filter seen (alive c))"
proof -
  have d: "distinct (filter seen (candidatesOf w (issued c)))" "distinct (filter seen (alive c))"
    using distinct_candidates [OF assms(1)] assms(1) by (auto simp: tracks_def)
  have "set (filter seen (candidatesOf w (issued c))) = set (filter seen (alive c))"
    using assms alive_candidates [OF assms(1)] by auto
  then have "mset (filter seen (candidatesOf w (issued c))) = mset (filter seen (alive c))"
    by (rule iffD1 [OF set_eq_iff_mset_eq_distinct [OF d]])
  then have "sort (filter seen (candidatesOf w (issued c))) = sort (filter seen (alive c))"
    by (simp add: properties_for_sort)
  then show ?thesis using d by (simp add: walkResult_def Let_def sort_ids)
qed

lemma checksum_exact:
  assumes "tracks c w" "\<And>i. seen i \<Longrightarrow> i \<in> set (alive c)"
  shows "checksumOk (walkResult w (issued c) (Some (length (alive c))) seen) None
     \<longleftrightarrow> (\<forall>i \<in> set (alive c). seen i)"
proof -
  have "checksumOk (walkResult w (issued c) (Some (length (alive c))) seen) None
     \<longleftrightarrow> length (alive c) = length (filter seen (alive c))"
    using walk_ids [OF assms] by (simp add: checksumOk_def walkResult_def Let_def)
  also have "\<dots> \<longleftrightarrow> filter seen (alive c) = alive c"
    by (metis filter_id_conv length_filter_less nat_less_le)
  finally show ?thesis by (simp add: filter_id_conv)
qed

lemma tracks_walk:
  assumes "tracks c w" "\<And>i. seen i \<Longrightarrow> i \<in> set (alive c)"
    and "\<forall>i \<in> set (alive c). seen i"
  shows "tracks c (nextState (walkResult w (issued c) cnt seen))"
proof -
  have "nextState (walkResult w (issued c) cnt seen)
      = \<lparr>watermark = max (watermark w) (issued c), live = liveIds (walkResult w (issued c) cnt seen)\<rparr>"
    by (simp add: walkResult_def Let_def max_def)
  moreover have "filter seen (alive c) = alive c" using assms(3) by (simp add: filter_id_conv)
  ultimately show ?thesis
    using walk_ids [OF assms(1,2), where cnt = cnt] assms(1) by (auto simp: tracks_def)
qed

lemma tracks_step: "chain_step c c' \<Longrightarrow> tracks c w \<Longrightarrow> tracks c' w"
  by (induction rule: chain_step.induct) (auto simp: tracks_def)

lemma tracked_tracks: "tracked c k \<Longrightarrow> tracks c (t_state k)"
proof (induction rule: tracked.induct)
  case (boot ids n)
  then show ?case by (auto simp: tracks_def)
next
  case (trade c k c')
  then show ?case by (blast intro: tracks_step)
next
  case (walked c k seen)
  show ?case
  proof (cases "checksumOk (walkResult (t_state k) (issued c) (Some (length (alive c))) seen) None")
    case True
    then show ?thesis
      using tracks_walk [OF walked.IH walked.hyps(2)] checksum_exact [OF walked.IH walked.hyps(2)]
      by (simp add: gate_def)
  qed (simp add: gate_def walked.IH)
qed

section \<open>Properties\<close>



text \<open>The tracker of each id space in the keeper's state.\<close>

definition positionTracker :: "keeper \<Rightarrow> nat list \<Rightarrow> tracker" where
  "positionTracker s ids = \<lparr>t_state = ds_positions (discovery s), t_good = lastGoodPositions s, t_served = ids\<rparr>"

definition orderTracker :: "keeper \<Rightarrow> nat list \<Rightarrow> tracker" where
  "orderTracker s ids = \<lparr>t_state = ds_orders (discovery s), t_good = lastGoodOrders s, t_served = ids\<rparr>"

lemma framed_discovery [simp]:
  "framed discovery" "framed lastGoodPositions" "framed lastGoodOrders"
  by (simp_all add: framed_def)

lemma same_mismatch: "framed f \<Longrightarrow> keeps (same f) (mismatchAlert E e n)"
  unfolding mismatchAlert_def by (intro keeps_intros same_intros) auto

definition trackers :: "keeper \<Rightarrow> discovery_state \<times> nat list option \<times> nat list option" where
  "trackers s = (discovery s, lastGoodPositions s, lastGoodOrders s)"

lemma framed_trackers: "framed trackers"
  by (simp add: framed_def trackers_def)

lemma positions_gate:
  "wp (if checksumOk r None then acceptPositions r else holdPositions E r)
     (\<lambda>ids t. positionTracker t ids = gate (positionTracker s old) r \<and> orderTracker t x = orderTracker s x) s"
proof (cases "checksumOk r None")
  case True
  then show ?thesis by (simp add: acceptPositions_def gate_def positionTracker_def orderTracker_def)
next
  case False
  have "wp (mismatchAlert E e n) (\<lambda>_ t. trackers t = trackers u) u" for e n u
    using keepsD [OF same_mismatch [OF framed_trackers]] .
  then show ?thesis
    using False
    by (auto simp: holdPositions_def gate_def positionTracker_def orderTracker_def trackers_def
        intro!: wp_mono [OF \<open>\<And>u n e. wp (mismatchAlert E e n) (\<lambda>_ t. trackers t = trackers u) u\<close>] split: option.splits)
qed

lemma orders_gate:
  "wp (if checksumOk r None then acceptOrders r else holdOrders E r)
     (\<lambda>ids t. orderTracker t ids = gate (orderTracker s old) r \<and> positionTracker t x = positionTracker s x) s"
proof (cases "checksumOk r None")
  case True
  then show ?thesis by (simp add: acceptOrders_def gate_def positionTracker_def orderTracker_def)
next
  case False
  have "wp (mismatchAlert E e n) (\<lambda>_ t. trackers t = trackers u) u" for e n u
    using keepsD [OF same_mismatch [OF framed_trackers]] .
  then show ?thesis
    using False
    by (auto simp: holdOrders_def gate_def positionTracker_def orderTracker_def trackers_def
        intro!: wp_mono [OF \<open>\<And>u n e. wp (mismatchAlert E e n) (\<lambda>_ t. trackers t = trackers u) u\<close>] split: option.splits)
qed


text \<open>What the nodes reported for the candidates of this cycle.\<close>

definition positionSeen :: "nat list \<Rightarrow> event list \<Rightarrow> (nat \<Rightarrow> bool) \<Rightarrow> bool" where
  "positionSeen cands n seen \<longleftrightarrow>
     (if cands = [] then (\<forall>i. \<not> seen i)
      else (\<exists>found. ReadPositionEntries cands (Inr found) \<in> set n \<and> seen = (\<lambda>i. i \<in> set found)))"

definition orderSeen :: "nat list \<Rightarrow> event list \<Rightarrow> (nat \<Rightarrow> bool) \<Rightarrow> bool" where
  "orderSeen cands n seen \<longleftrightarrow>
     (if cands = [] then (\<forall>i. \<not> seen i)
      else (\<exists>found. ReadOrderEntries cands (Inr found) \<in> set n \<and>
              seen = (\<lambda>i. map_of found i = Some ORDER_STATUS_PENDING)))"

lemma keeps_mismatch [keeps_intros]: "stable J \<Longrightarrow> keeps (hinv J) (mismatchAlert E e n)"
  unfolding mismatchAlert_def by (intro keeps_intros) auto

lemma keeps_holdAccept [keeps_intros]:
  "stable J \<Longrightarrow> keeps (hinv J) (if b then acceptPositions r else holdPositions E r)"
  "stable J \<Longrightarrow> keeps (hinv J) (if b then acceptOrders r else holdOrders E r)"
  unfolding acceptPositions_def holdPositions_def acceptOrders_def holdOrders_def
  by (intro keeps_intros; simp)+

lemma walkPositions_spec:
  "wp (walkPositions E counter cnt) (\<lambda>res t. trackers t = trackers s \<and> (\<exists>n. hist t = n @ hist s \<and> quiet n \<and>
     (\<forall>r. res = Inr r \<longrightarrow> (\<exists>seen. positionSeen (candidatesOf (ds_positions (discovery s)) counter) n seen \<and>
        r = walkResult (ds_positions (discovery s)) counter cnt seen)))) s"
  unfolding walkPositions_def readPositionEntries_def
  by (auto simp: wp_bindE wp_if trackers_def positionSeen_def is_action_def split: sum.split)

lemma walkOrders_spec:
  "wp (walkOrders E counter cnt) (\<lambda>res t. trackers t = trackers s \<and> (\<exists>n. hist t = n @ hist s \<and> quiet n \<and>
     (\<forall>r. res = Inr r \<longrightarrow> (\<exists>seen. orderSeen (candidatesOf (ds_orders (discovery s)) counter) n seen \<and>
        r = walkResult (ds_orders (discovery s)) counter cnt seen)))) s"
  unfolding walkOrders_def readOrderEntries_def
  by (auto simp: wp_bindE wp_if trackers_def orderSeen_def is_action_def split: sum.split)

lemma seen_mono:
  "positionSeen c n seen \<Longrightarrow> set n \<subseteq> set m \<Longrightarrow> positionSeen c m seen"
  "orderSeen c n seen' \<Longrightarrow> set n \<subseteq> set m \<Longrightarrow> orderSeen c m seen'"
  by (auto simp: positionSeen_def orderSeen_def split: if_splits)

lemma positions_gate_adds:
  "wp (if checksumOk r None then acceptPositions r else holdPositions E r)
     (\<lambda>ids t. positionTracker t ids = gate (positionTracker s old) r \<and> orderTracker t x = orderTracker s x \<and>
        (\<exists>n. hist t = n @ hist s)) s"
  using positions_gate [of r E s old x]
    keepsD [OF keeps_quiet [OF keeps_holdAccept(1) [of _ "checksumOk r None" r E]], of s]
  unfolding wp_eq_run adds_def by blast

lemma orders_gate_adds:
  "wp (if checksumOk r None then acceptOrders r else holdOrders E r)
     (\<lambda>ids t. orderTracker t ids = gate (orderTracker s old) r \<and> positionTracker t x = positionTracker s x \<and>
        (\<exists>n. hist t = n @ hist s)) s"
  using orders_gate [of r E s old x]
    keepsD [OF keeps_quiet [OF keeps_holdAccept(2) [of _ "checksumOk r None" r E]], of s]
  unfolding wp_eq_run adds_def by blast

lemma gates_spec:
  "wp (do { positionIds \<leftarrow> (if checksumOk rp None then acceptPositions rp else holdPositions E rp);
            orderIds \<leftarrow> (if checksumOk ro None then acceptOrders ro else holdOrders E ro);
            ret (positionIds, orderIds) })
     (\<lambda>res t. positionTracker t (fst res) = gate (positionTracker s []) rp
         \<and> orderTracker t (snd res) = gate (orderTracker s []) ro \<and> (\<exists>n. hist t = n @ hist s)) s"
  unfolding wp_bind wp_return
proof (rule wp_mono [OF positions_gate_adds [of rp E s "[]" "[]"]])
  fix ids and t :: keeper
  assume t: "positionTracker t ids = gate (positionTracker s []) rp \<and> orderTracker t [] = orderTracker s [] \<and>
    (\<exists>n. hist t = n @ hist s)"
  show "wp (if checksumOk ro None then acceptOrders ro else holdOrders E ro)
     (\<lambda>oids u. positionTracker u (fst (ids, oids)) = gate (positionTracker s []) rp
         \<and> orderTracker u (snd (ids, oids)) = gate (orderTracker s []) ro \<and> (\<exists>n. hist u = n @ hist s)) t"
    by (rule wp_mono [OF orders_gate_adds [of ro E t "[]" ids]]) (use t in auto)
qed

abbreviation orZero :: "nat option \<Rightarrow> nat" where
  "orZero c \<equiv> (case c of None \<Rightarrow> 0 | Some n \<Rightarrow> n)"

text \<open>What a discovery from state \<open>s\<close> did: nothing tracked changed, or each id space went through its gate.\<close>

definition gated :: "keeper \<Rightarrow> nat list \<Rightarrow> nat list \<Rightarrow> keeper \<Rightarrow> bool" where
  "gated s positionIds orderIds t \<longleftrightarrow> (\<exists>pc oc op oo seenP seenO.
       ReadControl (Inr ((pc, oc), (op, oo))) \<in> set (since s t)
     \<and> positionSeen (candidatesOf (ds_positions (discovery s)) (orZero pc)) (since s t) seenP
     \<and> orderSeen (candidatesOf (ds_orders (discovery s)) (orZero oc)) (since s t) seenO
     \<and> positionTracker t positionIds = gate (positionTracker s [])
         (walkResult (ds_positions (discovery s)) (orZero pc) op seenP)
     \<and> orderTracker t orderIds = gate (orderTracker s [])
         (walkResult (ds_orders (discovery s)) (orZero oc) oo seenO))"

definition discovered :: "keeper \<Rightarrow> string + nat list \<times> nat list \<Rightarrow> keeper \<Rightarrow> bool" where
  "discovered s res t \<longleftrightarrow> (case res of
      Inl e \<Rightarrow> trackers t = trackers s
    | Inr ids \<Rightarrow> gated s (fst ids) (snd ids) t)"

lemma discovered_Inr [simp]: "discovered s (Inr ids) = gated s (fst ids) (snd ids)"
  by (rule ext) (simp add: discovered_def)

lemma trackers_base:
  assumes "trackers u = trackers s"
  shows "positionTracker u x = positionTracker s x" "orderTracker u x = orderTracker s x"
    "ds_positions (discovery u) = ds_positions (discovery s)" "ds_orders (discovery u) = ds_orders (discovery s)"
  using assms by (auto simp: trackers_def positionTracker_def orderTracker_def)

definition openGates :: "env \<Rightarrow> walk_result \<Rightarrow> walk_result \<Rightarrow> (nat list \<times> nat list) kprog" where
  "openGates E rp ro = do {
     positionIds \<leftarrow> (if checksumOk rp None then acceptPositions rp else holdPositions E rp);
     orderIds \<leftarrow> (if checksumOk ro None then acceptOrders ro else holdOrders E ro);
     ret (positionIds, orderIds) }"

lemma openGates_gated:
  assumes "hist u = m @ n @ [ReadControl (Inr ((pc, oc), (op, oo)))] @ hist s" "trackers u = trackers s"
    and "positionSeen (candidatesOf (ds_positions (discovery s)) (orZero pc)) n seenP"
    and "orderSeen (candidatesOf (ds_orders (discovery s)) (orZero oc)) m seenO"
  shows "wp (openGates E (walkResult (ds_positions (discovery s)) (orZero pc) op seenP)
      (walkResult (ds_orders (discovery s)) (orZero oc) oo seenO)) (\<lambda>ids. gated s (fst ids) (snd ids)) u"
  unfolding openGates_def
proof (rule wp_mono [OF gates_spec])
  fix ids and v :: keeper
  assume v: "positionTracker v (fst ids) = gate (positionTracker u [])
        (walkResult (ds_positions (discovery s)) (orZero pc) op seenP)
      \<and> orderTracker v (snd ids) = gate (orderTracker u [])
        (walkResult (ds_orders (discovery s)) (orZero oc) oo seenO) \<and> (\<exists>l. hist v = l @ hist u)"
  then obtain l where "hist v = l @ m @ n @ [ReadControl (Inr ((pc, oc), (op, oo)))] @ hist s"
    using assms(1) by auto
  then have "since s v = l @ m @ n @ [ReadControl (Inr ((pc, oc), (op, oo)))]"
    by (intro since_append) simp
  then show "gated s (fst ids) (snd ids) v"
    unfolding gated_def using v trackers_base(1,2) [OF assms(2)] assms(3,4)
    by (intro exI [of _ pc] exI [of _ oc] exI [of _ op] exI [of _ oo] exI [of _ seenP] exI [of _ seenO])
      (auto elim!: seen_mono)
qed

lemma walks_gated:
  assumes "hist u = [ReadControl (Inr ((pc, oc), (op, oo)))] @ hist s" "trackers u = trackers s"
  shows "wp (bindE (walkPositions E (orZero pc) op) (\<lambda>rp. bindE (walkOrders E (orZero oc) oo)
      (\<lambda>ro. lift (openGates E rp ro)))) (discovered s) u"
  unfolding wp_bindE [of "walkPositions E (orZero pc) op"]
proof (rule wp_mono [OF walkPositions_spec])
  fix rp :: "string + walk_result" and t :: keeper
  assume "trackers t = trackers u \<and> (\<exists>n. hist t = n @ hist u \<and> quiet n \<and>
     (\<forall>r. rp = Inr r \<longrightarrow> (\<exists>seen. positionSeen (candidatesOf (ds_positions (discovery u)) (orZero pc)) n seen \<and>
        r = walkResult (ds_positions (discovery u)) (orZero pc) op seen)))"
  then obtain n where n: "hist t = n @ hist u" "trackers t = trackers s"
    "\<forall>r. rp = Inr r \<longrightarrow> (\<exists>seen. positionSeen (candidatesOf (ds_positions (discovery s)) (orZero pc)) n seen \<and>
        r = walkResult (ds_positions (discovery s)) (orZero pc) op seen)"
    using assms(2) trackers_base(3) [OF assms(2)] by auto
  have orders: "wp (bindE (walkOrders E (orZero oc) oo) (\<lambda>ro. lift (openGates E r ro))) (discovered s) t"
    if rp: "rp = Inr r" for r
    unfolding wp_bindE
  proof (rule wp_mono [OF walkOrders_spec])
    fix ro :: "string + walk_result" and v :: keeper
    assume "trackers v = trackers t \<and> (\<exists>m. hist v = m @ hist t \<and> quiet m \<and>
     (\<forall>r. ro = Inr r \<longrightarrow> (\<exists>seen. orderSeen (candidatesOf (ds_orders (discovery t)) (orZero oc)) m seen \<and>
        r = walkResult (ds_orders (discovery t)) (orZero oc) oo seen)))"
    then obtain m where m: "hist v = m @ hist t" "trackers v = trackers s"
      "\<forall>r. ro = Inr r \<longrightarrow> (\<exists>seen. orderSeen (candidatesOf (ds_orders (discovery s)) (orZero oc)) m seen \<and>
        r = walkResult (ds_orders (discovery s)) (orZero oc) oo seen)"
      using n(2) trackers_base(4) [OF n(2)] by auto
    have "hist v = m @ n @ [ReadControl (Inr ((pc, oc), (op, oo)))] @ hist s" using m(1) n(1) assms(1) by simp
    from openGates_gated [OF this m(2)]
    show "(case ro of Inl e \<Rightarrow> discovered s (Inl e) | Inr ro \<Rightarrow> wp (lift (openGates E r ro)) (discovered s)) v"
      using m(2,3) n(3) rp by (cases ro) (auto simp: discovered_def [of s "Inl _"])
  qed
  show "(case rp of Inl e \<Rightarrow> discovered s (Inl e) | Inr rp \<Rightarrow>
      wp (bindE (walkOrders E (orZero oc) oo) (\<lambda>ro. lift (openGates E rp ro))) (discovered s)) t"
    using orders n(2) by (cases rp) (auto simp: discovered_def)
qed

text \<open>The discovery step of the keeper refines the gate of each id space: when the control read or a walk
  throws, neither tracked state changes; otherwise positions and orders each go through their own
  gate, applied to the walk of their persisted state over the counters just read and the entries just
  reported, so a mismatch on one side does not touch the other.\<close>

theorem discover_refines_gates: "wp (discover E None) (discovered s) s"
proof (cases "e_control E (hist s)")
  case (Inl e)
  then show ?thesis by (simp add: discover_def readControl_def wp_bindE trackers_def discovered_def)
next
  case (Inr control)
  obtain pc oc op oo where c: "control = ((pc, oc), (op, oo))" by (metis prod.collapse)
  have "wp (bindE (walkPositions E (orZero pc) op) (\<lambda>rp. bindE (walkOrders E (orZero oc) oo)
      (\<lambda>ro. lift (openGates E rp ro)))) (discovered s) (s\<lparr>hist := ReadControl (Inr control) # hist s\<rparr>)"
    by (rule walks_gated) (simp_all add: c trackers_def)
  then show ?thesis
    using Inr by (simp add: discover_def readControl_def wp_bindE [of "ask _ _"] c Let_def openGates_def)
qed

end
