(* ===== verification/KeeperCycle.thy ===== *)
theory KeeperCycle
  imports KeeperLiquidation KeeperAdl KeeperOrders KeeperOracle Discovery
begin

text \<open>
  One keeper cycle and the loop around it, \<open>scripts/keeper/src/index.ts\<close>: resolving ids by the
  configured discovery mode, the market snapshot, the custody invariant check, funding, TTL
  renewal, \<open>runKeeperCycle\<close> and the error handling, heartbeat and watchdog of \<open>start\<close>.
\<close>

section \<open>Definitions: the snapshot\<close>

definition READ_FAILURE_ALERT_THRESHOLD :: nat where "READ_FAILURE_ALERT_THRESHOLD = 3"
definition READ_FAILURE_BACKOFF_MS :: int where "READ_FAILURE_BACKOFF_MS = 10000"
definition FULL_SWEEP_INTERVAL_MS :: int where "FULL_SWEEP_INTERVAL_MS = 10 * 60 * 1000"
definition FUNDING_INTERVAL_MS :: int where "FUNDING_INTERVAL_MS = 60 * 60 * 1000 + 30000"
definition FUNDING_NOT_DUE_RETRY_MS :: int where "FUNDING_NOT_DUE_RETRY_MS = 5 * 60 * 1000"
definition FUNDING_FAILED_RETRY_MS :: int where "FUNDING_FAILED_RETRY_MS = 60000"
definition FUNDING_FAILURE_ALERT_THRESHOLD :: nat where "FUNDING_FAILURE_ALERT_THRESHOLD = 3"
definition CUSTODY_CHECK_INTERVAL_MS :: int where "CUSTODY_CHECK_INTERVAL_MS = 60000"
definition CUSTODY_ALERT_STREAK :: nat where "CUSTODY_ALERT_STREAK = 2"

definition getAllPositionIds :: "env \<Rightarrow> nat list keprog" where
  "getAllPositionIds E = ask (e_positionIds E) ReadPositionIds"

definition getAllOrderIds :: "env \<Rightarrow> nat list keprog" where
  "getAllOrderIds E = ask (e_orderIds E) ReadOrderIds"

definition getPosition :: "env \<Rightarrow> nat \<Rightarrow> position option keprog" where
  "getPosition E i = ask (\<lambda>h. e_position E h i) (ReadPosition i)"

definition getOrder :: "env \<Rightarrow> nat \<Rightarrow> order option keprog" where
  "getOrder E i = ask (\<lambda>h. e_order E h i) (ReadOrder i)"

definition discoverAndSave :: "env \<Rightarrow> (nat list \<times> nat list) option \<Rightarrow> (nat list \<times> nat list) keprog" where
  "discoverAndSave E expected =
     bindE (discover E expected) (\<lambda>snapshot. bindE (lift saveKeeperState) (\<lambda>_. okay snapshot))"

definition legacyIds :: "env \<Rightarrow> (nat list \<times> nat list) keprog" where
  "legacyIds E = bindE (getAllPositionIds E) (\<lambda>ps. bindE (getAllOrderIds E) (\<lambda>os. okay (ps, os)))"

definition shadowParity :: "env \<Rightarrow> nat list \<times> nat list \<Rightarrow> unit kprog" where
  "shadowParity E legacy =
     catch (bindE (discoverAndSave E (Some legacy)) (\<lambda>walked. lift (
              if setDiff (fst legacy) (fst walked) = ([], []) \<and> setDiff (snd legacy) (snd walked) = ([], [])
              then skip
              else sendAlert E Warn ''Position scanners disagree (debug check)'')))
       (\<lambda>e. sendAlert E Warn ''Backup position scanner test failed (debug check)'')"

definition discoverIds :: "keeper_config \<Rightarrow> env \<Rightarrow> (nat list \<times> nat list) keprog" where
  "discoverIds cfg E =
     (if discoveryMode cfg = ChainWalk then discoverAndSave E None
      else bindE (lift (legacyIds E)) (\<lambda>legacy.
        case legacy of
          Inl e \<Rightarrow>
            bindE (lift (sendAlert E Critical ''Keeper switched to its backup position scanner''))
              (\<lambda>_. discoverAndSave E None)
        | Inr ids \<Rightarrow>
            bindE (lift (if discoveryMode cfg = Shadow then shadowParity E ids else skip)) (\<lambda>_. okay ids)))"

text \<open>The entity loops: what was read, and how many reads failed.\<close>

primrec readPositions :: "env \<Rightarrow> nat list \<Rightarrow> position list \<times> nat \<Rightarrow> (position list \<times> nat) kprog" where
  "readPositions E [] acc = ret acc"
| "readPositions E (i # is) acc = do {
     r \<leftarrow> getPosition E i;
     readPositions E is (case r of
        Inl e \<Rightarrow> (fst acc, snd acc + 1)
      | Inr None \<Rightarrow> acc
      | Inr (Some p) \<Rightarrow> (fst acc @ [p], snd acc)) }"

primrec readOrders :: "env \<Rightarrow> nat list \<Rightarrow> order list \<times> nat \<Rightarrow> (order list \<times> nat) kprog" where
  "readOrders E [] acc = ret acc"
| "readOrders E (i # is) acc = do {
     r \<leftarrow> getOrder E i;
     readOrders E is (case r of
        Inl e \<Rightarrow> (fst acc, snd acc + 1)
      | Inr None \<Rightarrow> acc
      | Inr (Some p) \<Rightarrow> (fst acc @ [p], snd acc)) }"

definition pruneEntityCaches :: "order list \<Rightarrow> unit kprog" where
  "pruneEntityCaches orders = modify (\<lambda>s. s\<lparr>orphanedOrderIds :=
     filter (\<lambda>i. i \<in> o_id ` set orders) (orphanedOrderIds s)\<rparr>)"

definition readSnapshot :: "keeper_config \<Rightarrow> env \<Rightarrow> market_snapshot keprog" where
  "readSnapshot cfg E =
     bindE (discoverIds cfg E) (\<lambda>(positionIds, orderIds).
     bindE (lift (readPositions E positionIds ([], 0))) (\<lambda>(positions, errs).
     bindE (lift (readOrders E orderIds ([], errs))) (\<lambda>(orders, entityReadErrors).
       let attempted = length positionIds + length orderIds in
       if attempted > 0 \<and> entityReadErrors \<ge> attempted then throw ''all entity reads failed''
       else lift (do {
         modify (\<lambda>s. s\<lparr>consecutiveReadFailures := 0\<rparr>);
         pruneEntityCaches orders;
         ret \<lparr>snap_positions = positions, snap_orders = orders\<rparr> }))))"

definition snapshotFailed :: "env \<Rightarrow> unit kprog" where
  "snapshotFailed E = do {
     modify (\<lambda>s. s\<lparr>consecutiveReadFailures := consecutiveReadFailures s + 1\<rparr>);
     bumpStats (\<lambda>st. st\<lparr>readFailures := readFailures st + 1\<rparr>);
     n \<leftarrow> gets consecutiveReadFailures;
     (if n = READ_FAILURE_ALERT_THRESHOLD
      then sendAlert E Critical ''Keeper is BLIND - it cannot read the market'' else skip);
     (if n \<ge> READ_FAILURE_ALERT_THRESHOLD then sleep READ_FAILURE_BACKOFF_MS else skip) }"

definition buildSnapshot :: "keeper_config \<Rightarrow> env \<Rightarrow> market_snapshot option kprog" where
  "buildSnapshot cfg E =
     catch (bindE (readSnapshot cfg E) (\<lambda>snap. okay (Some snap)))
       (\<lambda>e. do { snapshotFailed E; ret None })"

section \<open>Definitions: custody\<close>

definition isolatedSum :: "position list \<Rightarrow> int" where
  "isolatedSum ps = (\<Sum>p\<leftarrow>filter (\<lambda>p. p_margin_mode p \<noteq> 1) ps. p_collateral p)"

definition crossTraders :: "position list \<Rightarrow> address list" where
  "crossTraders ps = to_set (map p_trader (filter (\<lambda>p. p_margin_mode p = 1) ps))"

definition escrowSum :: "order list \<Rightarrow> int" where
  "escrowSum os = (\<Sum>ord\<leftarrow>filter (\<lambda>ord. o_status ord = Pending \<and>
      (o_order_type ord = LimitEntry \<or> o_order_type ord = StopLimit)) os. o_collateral ord)"

primrec sumPools :: "env \<Rightarrow> address list \<Rightarrow> int \<Rightarrow> int keprog" where
  "sumPools E [] acc = okay acc"
| "sumPools E (t # ts) acc =
     bindE (lift (getCrossBalanceCached E t)) (\<lambda>balance.
       case balance of
         None \<Rightarrow> throw ''cross pool unreadable''
       | Some b \<Rightarrow> sumPools E ts (acc + b))"

definition custodyVerdict :: "env \<Rightarrow> int \<Rightarrow> unit kprog" where
  "custodyVerdict E gap =
     (if gap > 0 then do {
        modify (\<lambda>s. s\<lparr>custodyDeficitStreak := custodyDeficitStreak s + 1\<rparr>);
        n \<leftarrow> gets custodyDeficitStreak;
        (if n \<ge> CUSTODY_ALERT_STREAK
         then sendAlert E Critical ''Market custody below tracked collateral'' else skip) }
      else do {
        n \<leftarrow> gets custodyDeficitStreak;
        (if n \<ge> CUSTODY_ALERT_STREAK then sendAlert E Info ''Market custody restored'' else skip);
        modify (\<lambda>s. s\<lparr>custodyDeficitStreak := 0\<rparr>);
        logThrottled E (''custody-ok'', 0, []) })"

definition custodyReport :: "market_snapshot \<Rightarrow> int \<Rightarrow> int \<Rightarrow> int \<Rightarrow> custody_report" where
  "custodyReport snap cross balance now =
     (let isolated = isolatedSum (snap_positions snap);
          escrow = escrowSum (snap_orders snap);
          tracked = isolated + cross + escrow
      in \<lparr>marketUsdcBalance = balance, trackedCustody = tracked, isolatedCollateral = isolated,
          crossBalances = cross, orderEscrow = escrow,
          deficit = (if tracked > balance then tracked - balance else 0),
          cr_positions = length (snap_positions snap), asOf = now\<rparr>)"

definition measureCustody :: "env \<Rightarrow> market_snapshot \<Rightarrow> int \<Rightarrow> unit keprog" where
  "measureCustody E snap now =
     bindE (sumPools E (crossTraders (snap_positions snap)) 0) (\<lambda>cross.
     bindE (readInt E UsdcBalance) (\<lambda>balance.
       let report = custodyReport snap cross balance now
       in lift (do {
         modify (\<lambda>s. s\<lparr>lastCustody := Some report\<rparr>);
         custodyVerdict E (deficit report) })))"

definition checkCustody :: "keeper_config \<Rightarrow> env \<Rightarrow> market_snapshot \<Rightarrow> int \<Rightarrow> unit kprog" where
  "checkCustody cfg E snap now =
     (if usdcTokenContractId cfg = [] then modify (\<lambda>s. s\<lparr>custodyDisabledLogged := True\<rparr>)
      else do {
        previous \<leftarrow> gets lastCustodyCheckAt;
        if now - previous < CUSTODY_CHECK_INTERVAL_MS then skip
        else do {
          modify (\<lambda>s. s\<lparr>lastCustodyCheckAt := now\<rparr>);
          catch (measureCustody E snap now) (\<lambda>e. logThrottled E (''custody-err'', 0, [])) } })"

section \<open>Definitions: funding and TTL\<close>

definition fundingOutcome :: "execution_result \<Rightarrow> funding_outcome" where
  "fundingOutcome result = (let code = errorCode result in
     if success result then Applied
     else if code = Some 55 \<or> code = Some 90 \<or> str_includes ''FundingIntervalNotElapsed'' (errorText result)
     then NotDue else Failed)"

definition failedWith :: "string \<Rightarrow> execution_result" where
  "failedWith e = \<lparr>success = False, txHash = None, reward = None, error = Some e, indeterminate = False\<rparr>"

definition maybeApplyFunding :: "env \<Rightarrow> int \<Rightarrow> unit kprog" where
  "maybeApplyFunding E now = do {
     due \<leftarrow> gets nextFundingAttemptAt;
     if now < due then skip
     else do {
       result \<leftarrow> catch (invokeWrite E ApplyFunding) (\<lambda>e. ret (failedWith e));
       (case fundingOutcome result of
          Applied \<Rightarrow> do {
            bumpStats (\<lambda>st. st\<lparr>fundingApplications := fundingApplications st + 1\<rparr>);
            modify (\<lambda>s. s\<lparr>fundingFailureStreak := 0, lastFundingSubmitTime := Some now\<rparr>);
            saveKeeperState;
            modify (\<lambda>s. s\<lparr>nextFundingAttemptAt := now + FUNDING_INTERVAL_MS\<rparr>) }
        | NotDue \<Rightarrow>
            modify (\<lambda>s. s\<lparr>fundingFailureStreak := 0, nextFundingAttemptAt := now + FUNDING_NOT_DUE_RETRY_MS\<rparr>)
        | Failed \<Rightarrow> do {
            modify (\<lambda>s. s\<lparr>fundingFailureStreak := fundingFailureStreak s + 1,
                          nextFundingAttemptAt := now + FUNDING_FAILED_RETRY_MS\<rparr>);
            n \<leftarrow> gets fundingFailureStreak;
            if n \<ge> FUNDING_FAILURE_ALERT_THRESHOLD
            then sendAlert E Warn ''Hourly funding update keeps failing'' else skip }) } }"

definition getXlmBalance :: "env \<Rightarrow> rat option kprog" where
  "getXlmBalance E = ask (e_xlm E) ReadXlm"

definition bumpContractTtl :: "env \<Rightarrow> string \<Rightarrow> bool kprog" where
  "bumpContractTtl E i = ask (\<lambda>h. e_bumpTtl E h i) (BumpedTtl i)"

primrec bumpAll :: "env \<Rightarrow> (string \<times> string) list \<Rightarrow> nat \<Rightarrow> nat kprog" where
  "bumpAll E [] fails = ret fails"
| "bumpAll E (c # cs) fails =
     (if snd c = [] then bumpAll E cs fails
      else do {
        ok \<leftarrow> bumpContractTtl E (snd c);
        (if ok then skip else logThrottled E (''ttl'', 0, fst c));
        bumpAll E cs (if ok then fails else fails + 1) })"

definition maybeBumpTtls :: "keeper_config \<Rightarrow> env \<Rightarrow> int \<Rightarrow> unit kprog" where
  "maybeBumpTtls cfg E now = do {
     due \<leftarrow> gets nextTtlBumpAt;
     if now < due then skip
     else do {
       modify (\<lambda>s. s\<lparr>nextTtlBumpAt := now + ttlBumpIntervalMs cfg\<rparr>);
       xlm \<leftarrow> getXlmBalance E;
       (case xlm of
          None \<Rightarrow> skip
        | Some x \<Rightarrow> if x < minKeeperXlm cfg
                     then sendAlert E Critical ''Keeper wallet is almost out of gas'' else skip);
       fails \<leftarrow> bumpAll E (ttlContractIds cfg) 0;
       (if fails > 0 then sendAlert E Warn ''Contract rent renewal partly failing'' else skip) } }"

section \<open>Definitions: the cycle and the loop\<close>

definition oraclePhase :: "keeper_config \<Rightarrow> env \<Rightarrow> int \<Rightarrow> asset list kprog" where
  "oraclePhase cfg E now = do {
     due \<leftarrow> gets (\<lambda>s. now - lastOracleUpdate s \<ge> oracleUpdateIntervalMs cfg \<and> \<not> oracleUpdateInProgress s);
     if \<not> due then ret []
     else do {
       modify (\<lambda>s. s\<lparr>lastOracleUpdate := now, oracleUpdateInProgress := True\<rparr>);
       pushed \<leftarrow> updateOraclePrices cfg E;
       modify (\<lambda>s. s\<lparr>oracleUpdateInProgress := False\<rparr>);
       emit (Heartbeat pushed);
       ret pushed } }"

definition scanPhases :: "keeper_config \<Rightarrow> env \<Rightarrow> int \<Rightarrow> asset list \<Rightarrow> market_snapshot \<Rightarrow> unit kprog" where
  "scanPhases cfg E now pushed snap = do {
     fullSweep \<leftarrow> gets (\<lambda>s. now - lastFullSweepAt s \<ge> FULL_SWEEP_INTERVAL_MS);
     (if fullSweep then modify (\<lambda>s. s\<lparr>lastFullSweepAt := now\<rparr>) else skip);
     checkLiquidations cfg E snap fullSweep;
     checkCrossMarginLiquidations cfg E snap fullSweep;
     (if pushed \<noteq> [] then updateTrailingStopPeaks E snap else skip);
     checkOrders cfg E snap;
     manageAdl cfg E snap fullSweep;
     checkCustody cfg E snap now }"

definition runKeeperCycle :: "keeper_config \<Rightarrow> env \<Rightarrow> unit kprog" where
  "runKeeperCycle cfg E = do {
     now \<leftarrow> dateNow E;
     pushed \<leftarrow> oraclePhase cfg E now;
     snapshot \<leftarrow> buildSnapshot cfg E;
     (case snapshot of None \<Rightarrow> skip | Some snap \<Rightarrow> scanPhases cfg E now pushed snap);
     t \<leftarrow> dateNow E;
     maybeApplyFunding E t;
     t' \<leftarrow> dateNow E;
     maybeBumpTtls cfg E t' }"

text \<open>One turn of the main loop: every exception is caught inside the phases, so a cycle completes.\<close>

definition loopTurn :: "keeper_config \<Rightarrow> env \<Rightarrow> int \<Rightarrow> unit kprog" where
  "loopTurn cfg E pollIntervalMs = do {
     runKeeperCycle cfg E;
     modify (\<lambda>s. s\<lparr>consecutiveCycleErrors := 0\<rparr>);
     t \<leftarrow> dateNow E;
     modify (\<lambda>s. s\<lparr>lastCycleCompletedAt := t\<rparr>);
     sleep pollIntervalMs }"

primrec runTurns :: "keeper_config \<Rightarrow> env \<Rightarrow> int \<Rightarrow> nat \<Rightarrow> unit kprog" where
  "runTurns cfg E poll 0 = skip"
| "runTurns cfg E poll (Suc n) = do { loopTurn cfg E poll; runTurns cfg E poll n }"

definition watchdogFires :: "keeper_config \<Rightarrow> int \<Rightarrow> keeper \<Rightarrow> bool" where
  "watchdogFires cfg t s \<longleftrightarrow> \<not> t - lastCycleCompletedAt s \<le> watchdogTimeoutMs cfg"

text \<open>What \<open>start\<close> seeds from the persisted state before the loop.\<close>

definition seedFromState :: "int \<Rightarrow> keeper \<Rightarrow> keeper" where
  "seedFromState t s = s\<lparr>
     currentPrices := fold (\<lambda>(smb, pd). jset smb pd) (lastPushedPrices s) (currentPrices s),
     nextFundingAttemptAt := (case lastFundingSubmitTime s of
         None \<Rightarrow> t | Some f \<Rightarrow> if f = 0 then t else f + FUNDING_INTERVAL_MS),
     lastCycleCompletedAt := t\<rparr>"


section \<open>Lemmas\<close>

lemma keeps_reads [keeps_intros]:
  assumes "stable J"
  shows "keeps (hinv J) (getAllPositionIds E)" "keeps (hinv J) (getAllOrderIds E)"
    "keeps (hinv J) (getPosition E i)" "keeps (hinv J) (getOrder E i)"
    "keeps (hinv J) (getXlmBalance E)" "keeps (hinv J) (bumpContractTtl E c)"
    "keeps (hinv J) (readControl E)" "keeps (hinv J) (readPositionEntries E ids)"
    "keeps (hinv J) (readOrderEntries E ids)" "keeps (hinv J) (emit (Heartbeat x))"
  using assms
  unfolding getAllPositionIds_def getAllOrderIds_def getPosition_def getOrder_def getXlmBalance_def
    bumpContractTtl_def readControl_def readPositionEntries_def readOrderEntries_def
  by (auto intro!: keeps_ask keeps_emit keeps_if keeps_okay simp: stable_def is_action_def)

lemma keeps_discover [keeps_intros]: "stable J \<Longrightarrow> keeps (hinv J) (discover E x)"
  unfolding discover_def walkPositions_def walkOrders_def Let_def
  by (intro keeps_intros) simp_all

lemma keeps_discoverIds [keeps_intros]: "stable J \<Longrightarrow> keeps (hinv J) (discoverIds cfg E)"
  unfolding discoverIds_def discoverAndSave_def legacyIds_def shadowParity_def
  by (intro keeps_intros) simp_all

lemma keeps_readPositions [keeps_intros]: "stable J \<Longrightarrow> keeps (hinv J) (readPositions E is acc)"
proof (induction "is" arbitrary: acc)
  case (Cons i "is")
  then show ?case unfolding readPositions.simps by (intro keeps_intros Cons.IH) simp_all
qed (simp, intro keeps_intros, simp)

lemma keeps_readOrders [keeps_intros]: "stable J \<Longrightarrow> keeps (hinv J) (readOrders E is acc)"
proof (induction "is" arbitrary: acc)
  case (Cons i "is")
  then show ?case unfolding readOrders.simps by (intro keeps_intros Cons.IH) simp_all
qed (simp, intro keeps_intros, simp)

lemma keeps_snapshot [keeps_intros]: "stable J \<Longrightarrow> keeps (hinv J) (buildSnapshot cfg E)"
  unfolding buildSnapshot_def readSnapshot_def snapshotFailed_def pruneEntityCaches_def Let_def
  by (intro keeps_intros) simp_all

lemma keeps_sumPools [keeps_intros]: "stable J \<Longrightarrow> keeps (hinv J) (sumPools E ts acc)"
  by (induction ts arbitrary: acc) (auto intro!: keeps_intros)

lemma keeps_verdict [keeps_intros]: "stable J \<Longrightarrow> keeps (hinv J) (custodyVerdict E gap)"
  unfolding custodyVerdict_def by (intro keeps_intros) simp_all

lemma keeps_custody [keeps_intros]: "stable J \<Longrightarrow> keeps (hinv J) (checkCustody cfg E snap now)"
  unfolding checkCustody_def measureCustody_def Let_def
  by (intro keeps_intros) simp_all

lemma keeps_bumpAll [keeps_intros]: "stable J \<Longrightarrow> keeps (hinv J) (bumpAll E cs n)"
  by (induction cs arbitrary: n) (auto intro!: keeps_intros)

lemma keeps_ttl [keeps_intros]: "stable J \<Longrightarrow> keeps (hinv J) (maybeBumpTtls cfg E now)"
  unfolding maybeBumpTtls_def by (intro keeps_intros) simp_all

lemma keeps_guarded_funding: "keeps (hinv guarded) (maybeApplyFunding E now)"
proof -
  have "keeps (hinv guarded) (case o' of Applied \<Rightarrow> m | NotDue \<Rightarrow> n | Failed \<Rightarrow> k)"
    if "keeps (hinv guarded) m" "keeps (hinv guarded) n" "keeps (hinv guarded) k" for o' m n k
    using that by (cases o') auto
  note oc = this
  show ?thesis
    unfolding maybeApplyFunding_def
    by (intro keeps_intros oc keeps_guarded_write) simp_all
qed

lemma keeps_guarded_cycle: "keeps (hinv guarded) (runKeeperCycle cfg E)"
  unfolding runKeeperCycle_def oraclePhase_def scanPhases_def
  by (intro keeps_intros keeps_checkLiquidations keeps_guarded_cross keeps_guarded_peaks
      keeps_guarded_orders keeps_guarded_adl keeps_guarded_funding keeps_guarded_oracle) simp_all

lemma keeps_guarded_turns: "keeps (hinv guarded) (runTurns cfg E poll n)"
proof (induction n)
  case (Suc n)
  then show ?case
    unfolding runTurns.simps loopTurn_def
    by (intro keeps_intros keeps_guarded_cycle) simp_all
qed (simp, intro keeps_intros, simp)


section \<open>Properties\<close>

lemma readPositions_spec:
  "wp (readPositions E is acc) (\<lambda>r t. consecutiveReadFailures t = consecutiveReadFailures s \<and> (\<exists>n. hist t = n @ hist s \<and>
     (\<forall>p \<in> set (fst r). p \<in> set (fst acc) \<or> (\<exists>i. ReadPosition i (Inr (Some p)) \<in> set n)))) s"
proof (induction "is" arbitrary: acc s)
  case (Cons i "is")
  let ?acc = "\<lambda>r. case r of Inl e \<Rightarrow> (fst acc, snd acc + 1) | Inr None \<Rightarrow> acc | Inr (Some p) \<Rightarrow> (fst acc @ [p], snd acc)"
  let ?r = "e_position E (hist s) i"
  let ?s = "s\<lparr>hist := ReadPosition i ?r # hist s\<rparr>"
  have "wp (readPositions E is (?acc ?r)) (\<lambda>r t. consecutiveReadFailures t = consecutiveReadFailures s \<and> (\<exists>n. hist t = n @ hist s \<and>
     (\<forall>p \<in> set (fst r). p \<in> set (fst acc) \<or> (\<exists>i. ReadPosition i (Inr (Some p)) \<in> set n)))) ?s"
  proof (rule wp_mono [OF Cons.IH], elim conjE exE)
    fix r n and t :: keeper
    assume t: "consecutiveReadFailures t = consecutiveReadFailures ?s"
      "hist t = n @ hist ?s" "\<forall>p \<in> set (fst r). p \<in> set (fst (?acc ?r)) \<or> (\<exists>i. ReadPosition i (Inr (Some p)) \<in> set n)"
    have "p \<in> set (fst acc) \<or> (\<exists>i. ReadPosition i (Inr (Some p)) \<in> set (n @ [ReadPosition i ?r]))"
      if "p \<in> set (fst r)" for p
      using bspec [OF t(3) that] by (auto split: sum.splits option.splits)
    with t show "consecutiveReadFailures t = consecutiveReadFailures s \<and> (\<exists>n. hist t = n @ hist s \<and>
     (\<forall>p \<in> set (fst r). p \<in> set (fst acc) \<or> (\<exists>i. ReadPosition i (Inr (Some p)) \<in> set n)))"
      by (intro conjI exI [of _ "n @ [ReadPosition i ?r]"]) auto
  qed
  then show ?case by (simp add: getPosition_def)
qed simp

lemma readOrders_spec:
  "wp (readOrders E is acc) (\<lambda>r t. consecutiveReadFailures t = consecutiveReadFailures s \<and> (\<exists>n. hist t = n @ hist s \<and>
     (\<forall>p \<in> set (fst r). p \<in> set (fst acc) \<or> (\<exists>i. ReadOrder i (Inr (Some p)) \<in> set n)))) s"
proof (induction "is" arbitrary: acc s)
  case (Cons i "is")
  let ?acc = "\<lambda>r. case r of Inl e \<Rightarrow> (fst acc, snd acc + 1) | Inr None \<Rightarrow> acc | Inr (Some p) \<Rightarrow> (fst acc @ [p], snd acc)"
  let ?r = "e_order E (hist s) i"
  let ?s = "s\<lparr>hist := ReadOrder i ?r # hist s\<rparr>"
  have "wp (readOrders E is (?acc ?r)) (\<lambda>r t. consecutiveReadFailures t = consecutiveReadFailures s \<and> (\<exists>n. hist t = n @ hist s \<and>
     (\<forall>p \<in> set (fst r). p \<in> set (fst acc) \<or> (\<exists>i. ReadOrder i (Inr (Some p)) \<in> set n)))) ?s"
  proof (rule wp_mono [OF Cons.IH], elim conjE exE)
    fix r n and t :: keeper
    assume t: "consecutiveReadFailures t = consecutiveReadFailures ?s"
      "hist t = n @ hist ?s" "\<forall>p \<in> set (fst r). p \<in> set (fst (?acc ?r)) \<or> (\<exists>i. ReadOrder i (Inr (Some p)) \<in> set n)"
    have "p \<in> set (fst acc) \<or> (\<exists>i. ReadOrder i (Inr (Some p)) \<in> set (n @ [ReadOrder i ?r]))"
      if "p \<in> set (fst r)" for p
      using bspec [OF t(3) that] by (auto split: sum.splits option.splits)
    with t show "consecutiveReadFailures t = consecutiveReadFailures s \<and> (\<exists>n. hist t = n @ hist s \<and>
     (\<forall>p \<in> set (fst r). p \<in> set (fst acc) \<or> (\<exists>i. ReadOrder i (Inr (Some p)) \<in> set n)))"
      by (intro conjI exI [of _ "n @ [ReadOrder i ?r]"]) auto
  qed
  then show ?case by (simp add: getOrder_def)
qed simp

lemma framed_failures [simp]: "framed consecutiveReadFailures"
  by (simp add: framed_def)

lemma same_failures_discover: "keeps (same consecutiveReadFailures) (discoverIds cfg E)"
  unfolding discoverIds_def discoverAndSave_def legacyIds_def shadowParity_def discover_def walkPositions_def
    walkOrders_def readControl_def readPositionEntries_def readOrderEntries_def acceptPositions_def
    acceptOrders_def holdPositions_def holdOrders_def getAllPositionIds_def getAllOrderIds_def Let_def
  by (intro keeps_intros same_intros same_ask same_modify same_mismatch) simp_all

lemma discoverIds_spec:
  "wp (discoverIds cfg E) (\<lambda>_ t. consecutiveReadFailures t = consecutiveReadFailures s \<and> (\<exists>n. hist t = n @ hist s)) s"
  using keepsD [OF same_failures_discover [of cfg E], of s] keepsD [OF keeps_quiet [OF keeps_discoverIds [of _ cfg E]], of s]
  unfolding wp_eq_run adds_def by blast

definition snapshotRead :: "market_snapshot \<Rightarrow> event list \<Rightarrow> bool" where
  "snapshotRead snap n \<longleftrightarrow>
     (\<forall>p \<in> set (snap_positions snap). \<exists>i. ReadPosition i (Inr (Some p)) \<in> set n) \<and>
     (\<forall>x \<in> set (snap_orders snap). \<exists>i. ReadOrder i (Inr (Some x)) \<in> set n)"

lemma readEntities_spec:
  assumes "consecutiveReadFailures u = consecutiveReadFailures s" "hist u = n0 @ hist s"
  shows "wp (bindE (lift (readPositions E pids ([], 0))) (\<lambda>(positions, errs).
     bindE (lift (readOrders E oids ([], errs))) (\<lambda>(orders, entityReadErrors).
       let attempted = length pids + length oids in
       if attempted > 0 \<and> entityReadErrors \<ge> attempted then throw ''all entity reads failed''
       else lift (do {
         modify (\<lambda>s. s\<lparr>consecutiveReadFailures := 0\<rparr>);
         pruneEntityCaches orders;
         ret \<lparr>snap_positions = positions, snap_orders = orders\<rparr> })))) (\<lambda>r t. case r of
      Inl e \<Rightarrow> consecutiveReadFailures t = consecutiveReadFailures s
    | Inr snap \<Rightarrow> consecutiveReadFailures t = 0 \<and> snapshotRead snap (since s t)) u"
  unfolding wp_bindE wp_lift sum.case
proof (rule wp_mono [OF readPositions_spec], elim conjE exE)
  fix r :: "position list \<times> nat" and v :: keeper and n
  assume v: "consecutiveReadFailures v = consecutiveReadFailures u" "hist v = n @ hist u"
    "\<forall>p \<in> set (fst r). p \<in> set (fst ([], 0)) \<or> (\<exists>i. ReadPosition i (Inr (Some p)) \<in> set n)"
  obtain positions errs where r: "r = (positions, errs)" by (cases r)
  have orders: "wp (case q of (orders, entityReadErrors) \<Rightarrow>
       let attempted = length pids + length oids in
       if attempted > 0 \<and> entityReadErrors \<ge> attempted then throw ''all entity reads failed''
       else lift (do {
         modify (\<lambda>s. s\<lparr>consecutiveReadFailures := 0\<rparr>);
         pruneEntityCaches orders;
         ret \<lparr>snap_positions = positions, snap_orders = orders\<rparr> })) (\<lambda>r t. case r of
      Inl e \<Rightarrow> consecutiveReadFailures t = consecutiveReadFailures s
    | Inr snap \<Rightarrow> consecutiveReadFailures t = 0 \<and> snapshotRead snap (since s t)) w"
    if w: "consecutiveReadFailures w = consecutiveReadFailures v" "hist w = m @ hist v"
      "\<forall>x \<in> set (fst q). x \<in> set (fst ([], errs)) \<or> (\<exists>i. ReadOrder i (Inr (Some x)) \<in> set m)"
    for q :: "order list \<times> nat" and w :: keeper and m
  proof -
    have "since s t = m @ n @ n0" if "hist t = hist w" for t :: keeper
      using that w(2) v(2) assms(2) by (intro since_append) simp
    then show ?thesis
      using v w assms(1)
      by (cases q) (auto simp: Let_def r pruneEntityCaches_def snapshotRead_def)
  qed
  show "wp (case r of (positions, errs) \<Rightarrow> bindE (lift (readOrders E oids ([], errs))) (\<lambda>(orders, entityReadErrors).
       let attempted = length pids + length oids in
       if attempted > 0 \<and> entityReadErrors \<ge> attempted then throw ''all entity reads failed''
       else lift (do {
         modify (\<lambda>s. s\<lparr>consecutiveReadFailures := 0\<rparr>);
         pruneEntityCaches orders;
         ret \<lparr>snap_positions = positions, snap_orders = orders\<rparr> }))) (\<lambda>r t. case r of
      Inl e \<Rightarrow> consecutiveReadFailures t = consecutiveReadFailures s
    | Inr snap \<Rightarrow> consecutiveReadFailures t = 0 \<and> snapshotRead snap (since s t)) v"
    unfolding r case_prod_conv wp_bindE wp_lift sum.case
    by (rule wp_mono [OF readOrders_spec]) (blast intro: orders)
qed

lemma readSnapshot_spec:
  "wp (readSnapshot cfg E) (\<lambda>r t. case r of
      Inl e \<Rightarrow> consecutiveReadFailures t = consecutiveReadFailures s
    | Inr snap \<Rightarrow> consecutiveReadFailures t = 0 \<and> snapshotRead snap (since s t)) s"
  unfolding readSnapshot_def wp_bindE [of "discoverIds cfg E"]
proof (rule wp_mono [OF discoverIds_spec], elim conjE exE, goal_cases)
  case (1 r t n)
  then show ?case
    by (cases r; simp only: sum.case) (split prod.split, intro allI impI, rule readEntities_spec)
qed



end
