(* ===== verification/KeeperRun.thy ===== *)
theory KeeperRun
  imports KeeperCycle
begin

text \<open>
  Properties of whole runs of the keeper: the loop of \<open>start\<close> from the constructor's state, any number of
  turns, against an arbitrary environment.
\<close>




end
