(* ===== verification/Trace.thy ===== *)
theory Trace
  imports Prelude
begin

text \<open>
  Specifications over a log kept in the state, newest event first: \<open>yields_on log m P\<close> states which
  events a computation adds, together with its result. The accessor \<open>log\<close> is a parameter, so the
  same rules serve every component that records what it exchanged with the outside.
\<close>

named_theorems yields_intros \<open>rules for yields_on\<close>

definition grew :: "('s \<Rightarrow> 'e list) \<Rightarrow> ('e list \<Rightarrow> bool) \<Rightarrow> 's \<Rightarrow> 's \<Rightarrow> bool" where
  "grew log P s t \<longleftrightarrow> (\<exists>new. log t = new @ log s \<and> P new)"

definition yields_on :: "('s \<Rightarrow> 'e list) \<Rightarrow> ('s, 'a) prog \<Rightarrow> ('a \<Rightarrow> 'e list \<Rightarrow> bool) \<Rightarrow> bool" where
  "yields_on log m P \<longleftrightarrow> (\<forall>s. wp m (\<lambda>r. grew log (P r) s) s)"

definition news :: "('s \<Rightarrow> 'e list) \<Rightarrow> 's \<Rightarrow> 's \<Rightarrow> 'e list" where
  "news log s t = take (length (log t) - length (log s)) (log t)"

lemma grew_news: "grew log P s t \<Longrightarrow> P (news log s t)"
  by (auto simp: grew_def news_def)

lemma yields_onD: "yields_on log m P \<Longrightarrow> wp m (\<lambda>r. grew log (P r) s) s"
  by (simp add: yields_on_def)

lemma yields_on_news: "yields_on log m P \<Longrightarrow> wp m (\<lambda>r t. P r (news log s t)) s"
  unfolding yields_on_def by (blast intro: wp_mono grew_news)

lemma yields_on_conseq: "yields_on log m P \<Longrightarrow> (\<And>r n. P r n \<Longrightarrow> Q r n) \<Longrightarrow> yields_on log m Q"
  unfolding yields_on_def grew_def by (blast intro: wp_mono)

lemma yields_on_bind:
  assumes "yields_on log m P" "\<And>a n. P a n \<Longrightarrow> yields_on log (k a) (\<lambda>b n'. R b (n' @ n))"
  shows "yields_on log (State_Monad.bind m k) R"
  unfolding yields_on_def wp_bind
proof
  fix s
  show "wp m (\<lambda>a. wp (k a) (\<lambda>b. grew log (R b) s)) s"
  proof (rule wp_mono [OF yields_onD [OF assms(1)]])
    fix a t
    assume "grew log (P a) s t"
    then obtain n where n: "log t = n @ log s" "P a n" by (auto simp: grew_def)
    from yields_onD [OF assms(2) [OF n(2)]]
    show "wp (k a) (\<lambda>b. grew log (R b) s) t"
      by (rule wp_mono) (auto simp: grew_def n(1))
  qed
qed

lemma yields_on_return [simp]: "yields_on log (State_Monad.return a) P \<longleftrightarrow> P a []"
  by (auto simp: yields_on_def grew_def)

lemma yields_on_okay [simp]: "yields_on log (okay a) P \<longleftrightarrow> P (Inr a) []"
  by (auto simp: okay_def)

lemma yields_on_throw [simp]: "yields_on log (throw e) P \<longleftrightarrow> P (Inl e) []"
  by (auto simp: throw_def)

lemma yields_on_bindE:
  assumes "yields_on log m P" "\<And>a n. P (Inr a) n \<Longrightarrow> yields_on log (k a) (\<lambda>b n'. R b (n' @ n))"
    and "\<And>e n. P (Inl e) n \<Longrightarrow> R (Inl e) n"
  shows "yields_on log (bindE m k) R"
  unfolding bindE_def
proof (rule yields_on_bind [OF assms(1)])
  fix r n
  assume "P r n"
  with assms(2,3) show "yields_on log (case r of Inl e \<Rightarrow> throw e | Inr a \<Rightarrow> k a) (\<lambda>b n'. R b (n' @ n))"
    by (cases r) auto
qed

lemma yields_on_catch:
  assumes "yields_on log m P" "\<And>e n. P (Inl e) n \<Longrightarrow> yields_on log (h e) (\<lambda>b n'. R b (n' @ n))"
    and "\<And>a n. P (Inr a) n \<Longrightarrow> R a n"
  shows "yields_on log (catch m h) R"
  unfolding catch_def
proof (rule yields_on_bind [OF assms(1)])
  fix r n
  assume "P r n"
  with assms(2,3) show "yields_on log (case r of Inl e \<Rightarrow> h e | Inr a \<Rightarrow> State_Monad.return a) (\<lambda>b n'. R b (n' @ n))"
    by (cases r) auto
qed

lemma yields_on_lift: "yields_on log (lift m) P \<longleftrightarrow> yields_on log m (\<lambda>r. P (Inr r))"
  by (simp add: yields_on_def)

lemma yields_on_silent: "keeps (\<lambda>s t. log t = log s) m \<Longrightarrow> (\<And>r. P r []) \<Longrightarrow> yields_on log m P"
  unfolding yields_on_def by (auto simp: grew_def elim!: keepsW)

lemma yields_on_gets: "(\<And>s. P (f s) []) \<Longrightarrow> yields_on log (gets f) P"
  by (simp add: yields_on_def grew_def)

lemma yields_on_modify: "(\<And>s. log (f s) = log s) \<Longrightarrow> P () [] \<Longrightarrow> yields_on log (modify f) P"
  by (simp add: yields_on_def grew_def)

lemma yields_on_conj:
  "yields_on log m P \<Longrightarrow> yields_on log m Q \<Longrightarrow> yields_on log m (\<lambda>r n. P r n \<and> Q r n)"
  unfolding yields_on_def grew_def wp_eq_run by (metis append_same_eq)

lemma yields_on_thenE:
  assumes "yields_on log m (\<lambda>_ _. True)" "\<And>x. yields_on log (f x) P"
    and "\<And>r n k. P r n \<Longrightarrow> P r (n @ k)" "\<And>e n. P (Inl e) n"
  shows "yields_on log (bindE m f) P"
  by (rule yields_on_bindE [OF assms(1) yields_on_conseq [OF assms(2)]]) (use assms(3,4) in blast)+

text \<open>Every added event is of one kind, closed under every construct.\<close>

definition only :: "('s \<Rightarrow> 'e list) \<Rightarrow> ('e \<Rightarrow> bool) \<Rightarrow> 's \<Rightarrow> 's \<Rightarrow> bool" where
  "only log ok = grew log (list_all ok)"

lemma only_refl [simp, intro]: "reflp (only log ok)"
  by (simp add: reflp_def only_def grew_def)

lemma only_trans [simp, intro]: "transp (only log ok)"
  unfolding transp_def only_def grew_def by (metis append_assoc list_all_append)

lemma yields_on_only: "keeps (only log ok) m \<Longrightarrow> yields_on log m (\<lambda>_. list_all ok)"
  by (simp add: yields_on_def keeps_def only_def)

lemma keeps_only_modify: "(\<And>s. log (f s) = log s) \<Longrightarrow> keeps (only log ok) (modify f)"
  by (rule keeps_update) (simp add: only_def grew_def)

end
