(* ===== verification/ScArgs.thy ===== *)
theory ScArgs
  imports KeeperState
begin

text \<open>
  Contract values of \<open>scripts/keeper/src/stellar.ts\<close>: call arguments as symbolic \<open>ScVal\<close>s, the two
  generations of router arguments, and the decoding of position and order structs. Encoding an
  \<open>ScVal\<close> to XDR and the range checks of \<open>nativeToScVal\<close> belong to the SDK.
\<close>

section \<open>Definitions\<close>

datatype scval =
    ScAddress string
  | ScU64 int
  | ScU32 int
  | ScI128 int
  | ScSymbol string
  | ScBytes "nat list"
  | ScVec "scval list"
  | ScMap "(string \<times> scval) list"

text \<open>\<open>Buffer.from(s, 'hex')\<close>: pairs of hex digits up to the first pair that is not one.\<close>

definition hexDigit :: "char \<Rightarrow> nat option" where
  "hexDigit c = (let n = of_char c :: nat in
     if 48 \<le> n \<and> n \<le> 57 then Some (n - 48)
     else if 97 \<le> n \<and> n \<le> 102 then Some (n - 87)
     else if 65 \<le> n \<and> n \<le> 70 then Some (n - 55)
     else None)"

fun hexBytes :: "string \<Rightarrow> nat list" where
  "hexBytes (a # b # s) =
     (case (hexDigit a, hexDigit b) of (Some x, Some y) \<Rightarrow> (16 * x + y) # hexBytes s | _ \<Rightarrow> [])"
| "hexBytes _ = []"

text \<open>The subset of an attestation the router entry points consume.\<close>

record router_round =
  rr_price :: int
  rr_timestamp :: int
  rr_round_id :: int
  rr_publisher :: string
  rr_signature :: string

definition buildRouterCallArgs :: "string \<Rightarrow> nat \<Rightarrow> asset \<Rightarrow> router_round \<Rightarrow> scval list" where
  "buildRouterCallArgs actor i a r =
     [ScAddress actor, ScU64 (int i), ScSymbol a, ScI128 (rr_price r), ScU64 (rr_timestamp r),
      ScU64 (rr_round_id r), ScVec [ScBytes (hexBytes (rr_publisher r))],
      ScVec [ScBytes (hexBytes (rr_signature r))]]"

definition buildPriceAttestationScVal :: "asset \<Rightarrow> router_round \<Rightarrow> scval" where
  "buildPriceAttestationScVal a r = ScMap
     [(''asset'', ScSymbol a), (''price'', ScI128 (rr_price r)),
      (''pubkeys'', ScVec [ScBytes (hexBytes (rr_publisher r))]),
      (''round_id'', ScU64 (rr_round_id r)),
      (''sigs'', ScVec [ScBytes (hexBytes (rr_signature r))]),
      (''timestamp'', ScU64 (rr_timestamp r))]"

definition buildPriceAttestationScValV2 :: "asset \<Rightarrow> router_round \<Rightarrow> scval" where
  "buildPriceAttestationScValV2 a r = ScMap
     [(''asset'', ScSymbol a), (''prices'', ScVec [ScI128 (rr_price r)]),
      (''pubkeys'', ScVec [ScBytes (hexBytes (rr_publisher r))]),
      (''round_id'', ScU64 (rr_round_id r)),
      (''sigs'', ScVec [ScBytes (hexBytes (rr_signature r))]),
      (''timestamp'', ScU64 (rr_timestamp r))]"

definition buildRouterCallArgsV2 :: "string \<Rightarrow> nat \<Rightarrow> asset \<Rightarrow> router_round \<Rightarrow> scval list" where
  "buildRouterCallArgsV2 actor i a r =
     [ScAddress actor, ScU64 (int i), buildPriceAttestationScValV2 a r]"

text \<open>
  The structs as \<open>scValToNative\<close> decodes them; a field the deployed contract may lack is an option.
\<close>

record raw_position =
  rp_id :: nat
  rp_trader :: string
  rp_asset :: string
  rp_collateral :: int
  rp_size :: int
  rp_entry_price :: int
  rp_direction :: nat
  rp_leverage :: int
  rp_liquidation_price :: int
  rp_timestamp :: nat
  rp_entry_cumulative_funding :: "int option"
  rp_margin_mode :: "nat option"

record raw_order =
  ro_id :: nat
  ro_trader :: string
  ro_asset :: string
  ro_order_type :: nat
  ro_direction :: nat
  ro_collateral :: int
  ro_leverage :: int
  ro_trigger_price :: int
  ro_trigger_condition :: nat
  ro_slippage_tolerance_bps :: int
  ro_position_id :: nat
  ro_has_position :: bool
  ro_created_at :: nat
  ro_status :: nat
  ro_limit_price :: "int option"
  ro_trailing_percent_bps :: "int option"
  ro_time_in_force :: "nat option"
  ro_stop_limit_phase :: "nat option"

definition or_zero :: "'a::zero option \<Rightarrow> 'a" where
  "or_zero x = (case x of None \<Rightarrow> 0 | Some v \<Rightarrow> v)"

definition directionOf :: "nat \<Rightarrow> direction" where
  "directionOf n = (if n = 0 then Long else Short)"

definition parsePosition :: "raw_position \<Rightarrow> position" where
  "parsePosition r = \<lparr>p_asset = rp_asset r, p_collateral = rp_collateral r, p_size = rp_size r,
     p_entry_price = rp_entry_price r, p_direction = directionOf (rp_direction r),
     p_liquidation_price = rp_liquidation_price r, p_id = rp_id r, p_leverage = rp_leverage r,
     p_trader = rp_trader r, p_timestamp = rp_timestamp r,
     p_entry_cumulative_funding = or_zero (rp_entry_cumulative_funding r),
     p_margin_mode = or_zero (rp_margin_mode r)\<rparr>"

definition orderTypeMap :: "nat \<Rightarrow> order_type option" where
  "orderTypeMap = map_of [(0, LimitEntry), (1, StopLoss), (2, TakeProfit), (3, StopLimit), (4, TrailingStop)]"

definition statusMap :: "nat \<Rightarrow> order_status option" where
  "statusMap = map_of [(0, Pending), (1, Executed), (2, Cancelled), (3, CancelledSlippage), (4, Expired)]"

definition parseOrder :: "raw_order \<Rightarrow> order" where
  "parseOrder r = \<lparr>o_id = ro_id r, o_trader = ro_trader r, o_asset = ro_asset r,
     o_order_type = (case orderTypeMap (ro_order_type r) of None \<Rightarrow> LimitEntry | Some t \<Rightarrow> t),
     o_direction = directionOf (ro_direction r), o_collateral = ro_collateral r, o_leverage = ro_leverage r,
     o_trigger_price = ro_trigger_price r,
     o_trigger_condition = (if ro_trigger_condition r = 0 then Above else Below),
     o_slippage_tolerance_bps = ro_slippage_tolerance_bps r, o_position_id = ro_position_id r,
     o_has_position = ro_has_position r, o_created_at = ro_created_at r,
     o_status = (case statusMap (ro_status r) of None \<Rightarrow> Pending | Some t \<Rightarrow> t),
     o_limit_price = or_zero (ro_limit_price r), o_trailing_percent_bps = or_zero (ro_trailing_percent_bps r),
     o_time_in_force = or_zero (ro_time_in_force r), o_stop_limit_phase = or_zero (ro_stop_limit_phase r)\<rparr>"

section \<open>The contract's encoding\<close>

text \<open>
  The discriminants of the contract's enums, and the structs it stores, as the inverse side of the
  parsers.
\<close>

primrec orderTypeCode :: "order_type \<Rightarrow> nat" where
  "orderTypeCode LimitEntry = 0"
| "orderTypeCode StopLoss = 1"
| "orderTypeCode TakeProfit = 2"
| "orderTypeCode StopLimit = 3"
| "orderTypeCode TrailingStop = 4"

primrec statusCode :: "order_status \<Rightarrow> nat" where
  "statusCode Pending = 0"
| "statusCode Executed = 1"
| "statusCode Cancelled = 2"
| "statusCode CancelledSlippage = 3"
| "statusCode Expired = 4"

definition encodeOrder :: "order \<Rightarrow> raw_order" where
  "encodeOrder x = \<lparr>ro_id = o_id x, ro_trader = o_trader x, ro_asset = o_asset x,
     ro_order_type = orderTypeCode (o_order_type x),
     ro_direction = (if o_direction x = Long then 0 else 1), ro_collateral = o_collateral x,
     ro_leverage = o_leverage x, ro_trigger_price = o_trigger_price x,
     ro_trigger_condition = (if o_trigger_condition x = Above then 0 else 1),
     ro_slippage_tolerance_bps = o_slippage_tolerance_bps x, ro_position_id = o_position_id x,
     ro_has_position = o_has_position x, ro_created_at = o_created_at x,
     ro_status = statusCode (o_status x),
     ro_limit_price = Some (o_limit_price x), ro_trailing_percent_bps = Some (o_trailing_percent_bps x),
     ro_time_in_force = Some (o_time_in_force x), ro_stop_limit_phase = Some (o_stop_limit_phase x)\<rparr>"

definition encodePosition :: "position \<Rightarrow> raw_position" where
  "encodePosition p = \<lparr>rp_id = p_id p, rp_trader = p_trader p, rp_asset = p_asset p,
     rp_collateral = p_collateral p, rp_size = p_size p, rp_entry_price = p_entry_price p,
     rp_direction = (if p_direction p = Long then 0 else 1), rp_leverage = p_leverage p,
     rp_liquidation_price = p_liquidation_price p, rp_timestamp = p_timestamp p,
     rp_entry_cumulative_funding = Some (p_entry_cumulative_funding p),
     rp_margin_mode = Some (p_margin_mode p)\<rparr>"

text \<open>The hex rendering of bytes.\<close>

definition hexChar :: "nat \<Rightarrow> char" where
  "hexChar n = (if n < 10 then char_of (n + 48) else char_of (n + 87))"

definition hexString :: "nat list \<Rightarrow> string" where
  "hexString bs = concat (map (\<lambda>b. [hexChar (b div 16), hexChar (b mod 16)]) bs)"

section \<open>Lemmas\<close>

lemma hexDigit_hexChar: "n < 16 \<Longrightarrow> hexDigit (hexChar n) = Some n"
  by (cases "n < 10") (simp_all add: hexChar_def hexDigit_def Let_def)

lemma hexBytes_hexString: "list_all (\<lambda>b. b < 256) bs \<Longrightarrow> hexBytes (hexString bs) = bs"
proof (induction bs)
  case (Cons b bs)
  then have "b div 16 < 16" "b mod 16 < 16" by (auto simp: less_mult_imp_div_less)
  with Cons show ?case by (simp add: hexString_def hexDigit_hexChar)
qed (simp add: hexString_def)

lemma orderTypeMap_code [simp]: "orderTypeMap (orderTypeCode t) = Some t"
  by (cases t) (simp_all add: orderTypeMap_def)

lemma statusMap_code [simp]: "statusMap (statusCode t) = Some t"
  by (cases t) (simp_all add: statusMap_def)

lemma directionOf_code [simp]: "directionOf (if d = Long then 0 else 1) = d"
  by (cases d) (simp_all add: directionOf_def)

section \<open>Properties\<close>

text \<open>Decoding is faithful: a position or an order survives the contract's encoding and the client's
  parser unchanged, and an order whose discriminants are outside the client's tables is read as a pending
  limit entry.\<close>

theorem parse_roundtrip:
  "parsePosition (encodePosition p) = p \<and> parseOrder (encodeOrder x) = x
   \<and> o_order_type (parseOrder (encodeOrder x\<lparr>ro_order_type := 5 + n, ro_status := 5 + m\<rparr>)) = LimitEntry
   \<and> o_status (parseOrder (encodeOrder x\<lparr>ro_order_type := 5 + n, ro_status := 5 + m\<rparr>)) = Pending"
proof -
  have "parsePosition (encodePosition p) = p"
    by (cases p) (simp add: parsePosition_def encodePosition_def or_zero_def)
  moreover have "parseOrder (encodeOrder x) = x"
    by (cases x; cases "o_trigger_condition x") (simp_all add: parseOrder_def encodeOrder_def or_zero_def)
  moreover have "orderTypeMap (5 + n) = None" "statusMap (5 + m) = None"
    by (simp_all add: orderTypeMap_def statusMap_def)
  ultimately show ?thesis by (simp add: parseOrder_def encodeOrder_def)
qed

end
