(* ===== verification/RpcClient.thy ===== *)
theory RpcClient
  imports Trace ScArgs ContractErrors
begin

text \<open>
  The transport and the write path of \<open>StellarClient\<close> (\<open>scripts/keeper/src/stellar.ts\<close>): endpoint
  failover (\<open>withRpc\<close>), free simulations, one paid submission (\<open>invokeContractWrite\<close>: build, simulate,
  send, poll) and the retry policy over it (\<open>invokeContractWriteWithRetry\<close>). The RPC endpoints are the
  parameter \<open>net\<close>, which answers each request from the log of everything exchanged so far. Building,
  assembling and signing a transaction are the SDK's; a transaction is its sequence number,
  inclusion fee and call, and whether it was assembled from a simulation and signed.
\<close>

section \<open>Definitions: the network\<close>

definition MAX_RETRIES :: nat where "MAX_RETRIES = 3"
definition RETRY_DELAY_MS :: int where "RETRY_DELAY_MS = 2000"
definition CONFIRM_POLL_ATTEMPTS :: nat where "CONFIRM_POLL_ATTEMPTS = 30"
definition CONFIRM_POLL_DELAY_MS :: int where "CONFIRM_POLL_DELAY_MS = 1000"
definition BASE_INCLUSION_FEE :: int where "BASE_INCLUSION_FEE = 10000000"
definition MAX_INCLUSION_FEE :: int where "MAX_INCLUSION_FEE = 50000000"
definition READ_FEE :: int where "READ_FEE = 100"

record contract_call =
  cc_contract :: string
  cc_method :: string
  cc_args :: "scval list"

record transaction =
  tx_seq :: int
  tx_fee :: int
  tx_call :: contract_call
  tx_ready :: bool

text \<open>Return values, by the shapes the client looks for.\<close>

datatype retval =
    VVoid
  | VBool bool
  | VInt int
  | VIds "int list"
  | VNames "string list"
  | VRisk "int option"
  | VPosition raw_position
  | VOrder raw_order

datatype sim_response = SimFailed string | SimDone "retval option"

datatype send_response = SendPending string | SendTryAgain | SendError string | SendOther string

text \<open>A confirmed transaction carries the reward its return value decodes to, if it does.\<close>

datatype tx_response = TxSuccess "int option" | TxNotFound | TxOther string

text \<open>A transport failure: the message of the \<open>Error\<close> and of its cause.\<close>

type_synonym rpc_error = "string \<times> string option"

datatype rpc_event =
    RpcAccount nat "rpc_error + int"
  | RpcSimulate nat transaction "rpc_error + sim_response"
  | RpcSend nat transaction "rpc_error + send_response"
  | RpcGet nat string "rpc_error + tx_response"
  | Waited int
  | Rechecked bool

type_synonym rpc_log = "rpc_event list"

record net =
  n_servers :: nat
  n_account :: "rpc_log \<Rightarrow> nat \<Rightarrow> rpc_error + int"
  n_simulate :: "rpc_log \<Rightarrow> nat \<Rightarrow> transaction \<Rightarrow> rpc_error + sim_response"
  n_send :: "rpc_log \<Rightarrow> nat \<Rightarrow> transaction \<Rightarrow> rpc_error + send_response"
  n_get :: "rpc_log \<Rightarrow> nat \<Rightarrow> string \<Rightarrow> rpc_error + tx_response"

record client =
  c_log :: rpc_log
  serverIndex :: nat
  routerAbiV2Memo :: "bool option"

type_synonym 'a cprog = "(client, 'a) prog"
type_synonym 'a ceprog = "(client, js_error, 'a) eprog"

definition logRpc :: "rpc_event \<Rightarrow> unit cprog" where
  "logRpc ev = modify (\<lambda>s. s\<lparr>c_log := ev # c_log s\<rparr>)"

definition request :: "(rpc_log \<Rightarrow> rpc_error + 'r) \<Rightarrow> (rpc_error + 'r \<Rightarrow> rpc_event) \<Rightarrow> 'r ceprog" where
  "request f mk = do {
     h \<leftarrow> gets c_log;
     logRpc (mk (f h));
     ret (map_sum (\<lambda>(m, c). JsError m c) (\<lambda>r. r) (f h)) }"

definition wait :: "int \<Rightarrow> unit cprog" where
  "wait ms = logRpc (Waited ms)"

text \<open>
  \<open>withRpc\<close>: the operation against the current endpoint, and on a transient failure against the next
  one, each endpoint at most once. With no endpoint at all the loop throws \<open>undefined\<close>.
\<close>

primrec rotateRpc :: "net \<Rightarrow> (nat \<Rightarrow> 'a ceprog) \<Rightarrow> nat \<Rightarrow> js_error \<Rightarrow> 'a ceprog" where
  "rotateRpc N op 0 lastError = throw lastError"
| "rotateRpc N op (Suc k) lastError = do {
     i \<leftarrow> gets serverIndex;
     r \<leftarrow> op i;
     case r of
       Inr a \<Rightarrow> okay a
     | Inl e \<Rightarrow>
         if \<not> isTransientRpcError e \<or> n_servers N = 1 then throw e
         else do {
           modify (\<lambda>s. s\<lparr>serverIndex := (i + 1) mod n_servers N\<rparr>);
           rotateRpc N op k e } }"

definition withRpc :: "net \<Rightarrow> (nat \<Rightarrow> 'a ceprog) \<Rightarrow> 'a ceprog" where
  "withRpc N op = rotateRpc N op (n_servers N) (JsError ''undefined'' None)"

definition rpcAccount :: "net \<Rightarrow> nat \<Rightarrow> int ceprog" where
  "rpcAccount N i = request (\<lambda>h. n_account N h i) (RpcAccount i)"

definition rpcSimulate :: "net \<Rightarrow> transaction \<Rightarrow> nat \<Rightarrow> sim_response ceprog" where
  "rpcSimulate N tx i = request (\<lambda>h. n_simulate N h i tx) (RpcSimulate i tx)"

definition rpcSend :: "net \<Rightarrow> transaction \<Rightarrow> nat \<Rightarrow> send_response ceprog" where
  "rpcSend N tx i = request (\<lambda>h. n_send N h i tx) (RpcSend i tx)"

definition rpcGet :: "net \<Rightarrow> string \<Rightarrow> nat \<Rightarrow> tx_response ceprog" where
  "rpcGet N hash i = request (\<lambda>h. n_get N h i hash) (RpcGet i hash)"

lemmas rpc_defs = rpcAccount_def rpcSimulate_def rpcSend_def rpcGet_def request_def logRpc_def

definition getAccount :: "net \<Rightarrow> int ceprog" where
  "getAccount N = withRpc N (rpcAccount N)"

section \<open>Definitions: simulations\<close>

definition buildTx :: "int \<Rightarrow> int \<Rightarrow> contract_call \<Rightarrow> transaction" where
  "buildTx account fee call = \<lparr>tx_seq = account + 1, tx_fee = fee, tx_call = call, tx_ready = False\<rparr>"

text \<open>The dummy account of simulations has sequence 0.\<close>

definition invokeContractRead :: "net \<Rightarrow> contract_call \<Rightarrow> retval ceprog" where
  "invokeContractRead N call =
     bindE (withRpc N (rpcSimulate N (buildTx 0 READ_FEE call))) (\<lambda>response.
       case response of
         SimFailed m \<Rightarrow> throw (JsError (''Simulation failed: '' @ m) None)
       | SimDone None \<Rightarrow> throw (JsError ''No result from simulation'' None)
       | SimDone (Some v) \<Rightarrow> okay v)"

definition retvalOf :: "retval option \<Rightarrow> sim_retval" where
  "retvalOf v = (if v = Some (VBool True) then RetTrue else if v = Some (VBool False) then RetFalse else RetOther)"

definition simulateContract :: "net \<Rightarrow> contract_call \<Rightarrow> simulation_outcome ceprog" where
  "simulateContract N call =
     bindE (withRpc N (rpcSimulate N (buildTx 0 READ_FEE call))) (\<lambda>response.
       okay (case response of SimFailed m \<Rightarrow> SimErr m | SimDone v \<Rightarrow> SimOk (retvalOf v)))"

section \<open>Definitions: one submission\<close>

definition assemble :: "transaction \<Rightarrow> transaction" where
  "assemble tx = tx\<lparr>tx_ready := True\<rparr>"

primrec sendLoop ::
    "net \<Rightarrow> contract_call \<Rightarrow> int \<Rightarrow> nat \<Rightarrow> transaction \<Rightarrow> send_response option \<Rightarrow> send_response option ceprog" where
  "sendLoop N call fee 0 tx resp = okay resp"
| "sendLoop N call fee (Suc k) tx resp =
     bindE (withRpc N (rpcSend N tx)) (\<lambda>sent.
       case sent of
         SendPending hash \<Rightarrow> okay (Some sent)
       | SendTryAgain \<Rightarrow>
           bindE (lift (wait 3000)) (\<lambda>_.
           bindE (getAccount N) (\<lambda>account.
           bindE (withRpc N (rpcSimulate N (buildTx account fee call))) (\<lambda>sim.
             case sim of
               SimFailed m \<Rightarrow> throw (JsError (''Simulation failed on retry: '' @ m) None)
             | SimDone _ \<Rightarrow> sendLoop N call fee k (assemble (buildTx account fee call)) (Some sent))))
       | SendError detail \<Rightarrow> throw (JsError (''Transaction send failed: '' @ detail) None)
       | SendOther st \<Rightarrow> throw (JsError (''Unexpected send status: '' @ st) None))"

primrec pollTx :: "net \<Rightarrow> string \<Rightarrow> nat \<Rightarrow> tx_response \<Rightarrow> tx_response ceprog" where
  "pollTx N hash 0 resp = okay resp"
| "pollTx N hash (Suc k) resp =
     (if resp \<noteq> TxNotFound then okay resp
      else bindE (lift (wait CONFIRM_POLL_DELAY_MS)) (\<lambda>_.
           bindE (withRpc N (rpcGet N hash)) (\<lambda>again. pollTx N hash k again)))"

definition confirmTx :: "net \<Rightarrow> string \<Rightarrow> execution_result ceprog" where
  "confirmTx N hash =
     bindE (withRpc N (rpcGet N hash)) (\<lambda>first.
     bindE (pollTx N hash CONFIRM_POLL_ATTEMPTS first) (\<lambda>final.
       case final of
         TxSuccess rew \<Rightarrow> okay \<lparr>success = True, txHash = Some hash, reward = rew, error = None, indeterminate = False\<rparr>
       | TxNotFound \<Rightarrow> throw (TxIndeterminateError hash)
       | TxOther st \<Rightarrow> throw (JsError (''Transaction failed: '' @ st) None)))"

fun sendStatus :: "send_response option \<Rightarrow> string" where
  "sendStatus None = ''undefined''"
| "sendStatus (Some (SendPending _)) = ''PENDING''"
| "sendStatus (Some SendTryAgain) = ''TRY_AGAIN_LATER''"
| "sendStatus (Some (SendError _)) = ''ERROR''"
| "sendStatus (Some (SendOther st)) = st"

definition invokeContractWrite :: "net \<Rightarrow> contract_call \<Rightarrow> int \<Rightarrow> execution_result ceprog" where
  "invokeContractWrite N call fee =
     bindE (getAccount N) (\<lambda>account.
     bindE (withRpc N (rpcSimulate N (buildTx account fee call))) (\<lambda>sim.
       case sim of
         SimFailed m \<Rightarrow> throw (JsError (''Simulation failed: '' @ m) None)
       | SimDone _ \<Rightarrow>
           bindE (sendLoop N call fee 3 (assemble (buildTx account fee call)) None) (\<lambda>sent.
             case sent of
               Some (SendPending hash) \<Rightarrow> confirmTx N hash
             | _ \<Rightarrow> throw (JsError (''Transaction not accepted after retries: '' @ sendStatus sent) None))))"

section \<open>Definitions: retries\<close>

record write_options =
  escalateFees :: bool
  maxRetries :: "nat option"
  recheck :: "bool ceprog option"

definition plainWrite :: write_options where
  "plainWrite = \<lparr>escalateFees = False, maxRetries = None, recheck = None\<rparr>"

definition feeAt :: "bool \<Rightarrow> nat \<Rightarrow> int" where
  "feeAt escalate attempt =
     (if escalate then min (BASE_INCLUSION_FEE * 2 ^ (attempt - 1)) MAX_INCLUSION_FEE else BASE_INCLUSION_FEE)"

text \<open>The recheck after an indeterminate submission; absent or throwing, it answers no.\<close>

definition runRecheck :: "bool ceprog option \<Rightarrow> bool cprog" where
  "runRecheck rc = (case rc of
      None \<Rightarrow> ret False
    | Some p \<Rightarrow> do {
        b \<leftarrow> catch p (\<lambda>_. ret False);
        logRpc (Rechecked b);
        ret b })"

definition failedResult :: "string option \<Rightarrow> execution_result" where
  "failedResult e = \<lparr>success = False, txHash = None, reward = None, error = e, indeterminate = False\<rparr>"

text \<open>\<open>left\<close> attempts remain of the budget; \<open>attempt\<close> is the number of the next one.\<close>

primrec writeAttempts ::
    "net \<Rightarrow> contract_call \<Rightarrow> write_options \<Rightarrow> nat \<Rightarrow> nat \<Rightarrow> string option \<Rightarrow> execution_result cprog" where
  "writeAttempts N call opts 0 attempt lastError = ret (failedResult lastError)"
| "writeAttempts N call opts (Suc left) attempt lastError = do {
     r \<leftarrow> invokeContractWrite N call (feeAt (escalateFees opts) attempt);
     case r of
       Inr result \<Rightarrow> ret result
     | Inl (TxIndeterminateError hash) \<Rightarrow> do {
         stillNeeded \<leftarrow> runRecheck (recheck opts);
         if \<not> stillNeeded \<or> left = 0
         then ret \<lparr>success = False, txHash = Some hash, reward = None,
                   error = Some (error_message (TxIndeterminateError hash)), indeterminate = True\<rparr>
         else do {
           wait RETRY_DELAY_MS;
           writeAttempts N call opts left (attempt + 1) (Some (error_message (TxIndeterminateError hash))) } }
     | Inl (JsError m cause) \<Rightarrow>
         if isNonRetryableContractError m then ret (failedResult (Some m))
         else do {
           (if left = 0 then skip else wait RETRY_DELAY_MS);
           writeAttempts N call opts left (attempt + 1) (Some m) } }"

definition budget :: "write_options \<Rightarrow> nat" where
  "budget opts = (case maxRetries opts of None \<Rightarrow> MAX_RETRIES | Some n \<Rightarrow> n)"

definition invokeContractWriteWithRetry ::
    "net \<Rightarrow> contract_call \<Rightarrow> write_options \<Rightarrow> execution_result cprog" where
  "invokeContractWriteWithRetry N call opts = writeAttempts N call opts (budget opts) 1 None"

section \<open>Lemmas: failover\<close>

text \<open>
  The trace of a failed-over request: failures at the endpoints tried, and in front the answer
  if there was one.
\<close>

definition failures :: "(nat \<Rightarrow> rpc_error + 'r \<Rightarrow> rpc_event) \<Rightarrow> rpc_log \<Rightarrow> bool" where
  "failures mk n \<longleftrightarrow> (\<forall>ev \<in> set n. \<exists>i e. ev = mk i (Inl e))"

lemma failures_Nil [simp]: "failures mk []"
  by (simp add: failures_def)

lemma failures_snoc [simp]: "failures mk (n @ [mk i (Inl e)]) \<longleftrightarrow> failures mk n"
  unfolding failures_def set_append list.set by blast

lemma failures_one [simp]: "failures mk [mk i (Inl e)]"
  unfolding failures_def list.set by blast

definition requests ::
    "(nat \<Rightarrow> rpc_error + 'r \<Rightarrow> rpc_event) \<Rightarrow> nat \<Rightarrow> js_error + 'r \<Rightarrow> rpc_log \<Rightarrow> bool" where
  "requests mk k r n \<longleftrightarrow> length n \<le> k \<and>
     (case r of
        Inr a \<Rightarrow> (\<exists>i fails. n = mk i (Inr a) # fails \<and> failures mk fails)
      | Inl e \<Rightarrow> failures mk n \<and> (k \<noteq> 0 \<longrightarrow> n \<noteq> []) \<and> (\<exists>m c. e = JsError m c))"

lemma requests_one:
  "requests mk (Suc k) (map_sum (\<lambda>(m, c). JsError m c) (\<lambda>r. r) x) [mk i x]"
  by (cases x) (auto simp: requests_def split: prod.split)

lemma requests_more:
  assumes "requests mk k r n"
  shows "requests mk (Suc k) r (n @ [mk i (Inl x)])"
  using assms unfolding requests_def by (cases r) fastforce+

lemma yields_rotate:
  assumes "\<And>i. op i = request (f i) (mk i)" "\<exists>m c. e = JsError m c"
  shows "yields_on c_log (rotateRpc N op k e) (requests mk k)"
  using assms(2)
proof (induction k arbitrary: e)
  case 0
  then show ?case by (simp add: requests_def)
next
  case (Suc k)
  have one: "yields_on c_log (op i) (\<lambda>r n. requests mk (Suc k) r n
      \<and> (\<exists>x. n = [mk i x] \<and> r = map_sum (\<lambda>(m, c). JsError m c) (\<lambda>r. r) x))" for i
    unfolding assms(1) request_def logRpc_def
    by (simp add: yields_on_def grew_def requests_one) blast
  show ?case
    unfolding rotateRpc.simps
  proof (rule yields_on_bind [where P = "\<lambda>_ n. n = []"], simp add: yields_on_gets, rule yields_on_bind [OF one])
    fix i :: nat and n m :: rpc_log and r
    assume n: "n = []" and r: "requests mk (Suc k) r m
      \<and> (\<exists>x. m = [mk i x] \<and> r = map_sum (\<lambda>(m, c). JsError m c) (\<lambda>r. r) x)"
    show "yields_on c_log (case r of Inr a \<Rightarrow> okay a
         | Inl e \<Rightarrow> if \<not> isTransientRpcError e \<or> n_servers N = 1 then throw e
             else State_Monad.bind (modify (\<lambda>s. s\<lparr>serverIndex := (i + 1) mod n_servers N\<rparr>)) (\<lambda>_. rotateRpc N op k e))
       (\<lambda>b n'. requests mk (Suc k) b ((n' @ m) @ n))"
    proof (cases r)
      case (Inr a)
      then show ?thesis using r n by simp
    next
      case (Inl e)
      obtain y where y: "m = [mk i y]" "r = map_sum (\<lambda>(m, c). JsError m c) (\<lambda>r. r) y"
        using r by blast
      then obtain x where x: "m = [mk i (Inl x)]" "\<exists>m c. e = JsError m c"
        using Inl by (cases y) (auto split: prod.splits)
      have "yields_on c_log (rotateRpc N op k e) (\<lambda>b n'. requests mk (Suc k) b (n' @ [mk i (Inl x)]))"
        by (rule yields_on_conseq [OF Suc.IH [OF x(2)] requests_more])
      then have "yields_on c_log (State_Monad.bind (modify (\<lambda>s. s\<lparr>serverIndex := (i + 1) mod n_servers N\<rparr>))
          (\<lambda>_. rotateRpc N op k e)) (\<lambda>b n'. requests mk (Suc k) b ((n' @ m) @ n))"
        using n x(1) by (intro yields_on_bind [where P = "\<lambda>_ n. n = []"] yields_on_modify) simp_all
      then show ?thesis using r n Inl by simp
    qed
  qed
qed

lemma yields_withRpc:
  assumes "\<And>i. op i = request (f i) (mk i)"
  shows "yields_on c_log (withRpc N op) (requests mk (n_servers N))"
  unfolding withRpc_def by (rule yields_rotate [OF assms]) blast

lemma yields_requests:
  "yields_on c_log (getAccount N) (requests RpcAccount (n_servers N))"
  "yields_on c_log (withRpc N (rpcSimulate N tx)) (requests (\<lambda>i. RpcSimulate i tx) (n_servers N))"
  "yields_on c_log (withRpc N (rpcSend N tx)) (requests (\<lambda>i. RpcSend i tx) (n_servers N))"
  "yields_on c_log (withRpc N (rpcGet N hash)) (requests (\<lambda>i. RpcGet i hash) (n_servers N))"
  unfolding getAccount_def
  by (rule yields_withRpc; simp add: rpcAccount_def rpcSimulate_def rpcSend_def rpcGet_def)+

section \<open>Lemmas: transactions that may still land\<close>

text \<open>
  Whether a transaction of the write call is outstanding after the events \<open>n\<close> (newest first), given
  whether one was before: acceptance opens it; a poll that reports it unseen leaves it open; a final
  status, a recheck that answers yes, or a poll that fails in transport closes it. (The last
  is the client's blind spot, see \<open>lost_poll_resubmits\<close>.)
\<close>

fun liveAfter :: "bool \<Rightarrow> rpc_log \<Rightarrow> bool" where
  "liveAfter b [] = b"
| "liveAfter b (RpcSend i tx (Inr (SendPending h)) # n) = True"
| "liveAfter b (RpcGet i h (Inr TxNotFound) # n) = True"
| "liveAfter b (RpcGet i h x # n) = False"
| "liveAfter b (Rechecked True # n) = False"
| "liveAfter b (ev # n) = liveAfter b n"

fun isSend :: "rpc_event \<Rightarrow> bool" where
  "isSend (RpcSend _ _ _) = True"
| "isSend _ = False"

primrec safeFrom :: "bool \<Rightarrow> rpc_log \<Rightarrow> bool" where
  "safeFrom b [] = True"
| "safeFrom b (ev # n) = (safeFrom b n \<and> (isSend ev \<longrightarrow> \<not> liveAfter b n))"

lemma liveAfter_append [simp]: "liveAfter b (m @ n) = liveAfter (liveAfter b n) m"
  by (induction b m rule: liveAfter.induct) auto

lemma safeFrom_append [simp]: "safeFrom b (m @ n) \<longleftrightarrow> safeFrom b n \<and> safeFrom (liveAfter b n) m"
  by (induction m) auto

text \<open>Events that neither send nor settle anything.\<close>

fun neutralEvent :: "rpc_event \<Rightarrow> bool" where
  "neutralEvent (RpcAccount _ _) = True"
| "neutralEvent (RpcSimulate _ _ _) = True"
| "neutralEvent (Waited _) = True"
| "neutralEvent (Rechecked b) = (\<not> b)"
| "neutralEvent _ = False"

definition neutral :: "rpc_log \<Rightarrow> bool" where
  "neutral n \<longleftrightarrow> list_all neutralEvent n"

lemma neutral_simps [simp]: "neutral []" "neutral (ev # n) \<longleftrightarrow> neutralEvent ev \<and> neutral n"
  "neutral (m @ n) \<longleftrightarrow> neutral m \<and> neutral n"
  by (simp_all add: neutral_def)

lemma neutralD:
  assumes "neutral n"
  shows "liveAfter b n = b" "safeFrom b n"
proof -
  have "liveAfter b n = b \<and> safeFrom b n" using assms
    by (induction n) (auto elim!: neutralEvent.elims)
  then show "liveAfter b n = b" "safeFrom b n" by blast+
qed

lemma requests_neutral:
  "requests mk k r n \<Longrightarrow> (\<And>i x. neutralEvent (mk i x)) \<Longrightarrow> neutral n"
  unfolding requests_def failures_def neutral_def list_all_iff
  by (cases r) fastforce+

lemma requests_send:
  assumes "requests (\<lambda>i. RpcSend i tx) k r n"
  shows "safeFrom False n" "liveAfter False n \<longleftrightarrow> (\<exists>h. r = Inr (SendPending h))"
proof -
  have f: "safeFrom False m \<and> \<not> liveAfter False m" if "failures (\<lambda>i. RpcSend i tx) m" for m
    using that by (induction m) (auto simp: failures_def)
  from assms show "safeFrom False n" "liveAfter False n \<longleftrightarrow> (\<exists>h. r = Inr (SendPending h))"
  proof (atomize (full), cases r)
    case (Inr a)
    with assms f show "safeFrom False n \<and> liveAfter False n = (\<exists>h. r = Inr (SendPending h))"
      by (cases a) (auto simp: requests_def)
  qed (use assms f in \<open>auto simp: requests_def\<close>)
qed

lemma requests_get:
  assumes "requests (\<lambda>i. RpcGet i h) k r n"
  shows "safeFrom b n" "r = Inr x \<Longrightarrow> liveAfter b n \<longleftrightarrow> x = TxNotFound"
    "r = Inl e \<Longrightarrow> k \<noteq> 0 \<Longrightarrow> \<not> liveAfter b n"
proof -
  have f: "safeFrom b m \<and> (m \<noteq> [] \<longrightarrow> \<not> liveAfter b m)" if "failures (\<lambda>i. RpcGet i h) m" for m
    using that by (induction m) (auto simp: failures_def)
  show "safeFrom b n" using assms f by (cases r) (auto simp: requests_def)
  show "liveAfter b n \<longleftrightarrow> x = TxNotFound" if "r = Inr x"
    using that assms by (cases x) (auto simp: requests_def)
  show "\<not> liveAfter b n" if "r = Inl e" "k \<noteq> 0"
    using that assms f by (auto simp: requests_def)
qed

section \<open>Lemmas: the write path\<close>

lemma yields_wait [simp]: "yields_on c_log (wait ms) P \<longleftrightarrow> P () [Waited ms]"
  by (simp add: yields_on_def grew_def wait_def logRpc_def)

lemma yields_account: "yields_on c_log (getAccount N) (\<lambda>r n. neutral n \<and> (\<forall>e. r = Inl e \<longrightarrow> (\<exists>m c. e = JsError m c)))"
  by (rule yields_on_conseq [OF yields_requests(1)])
    (auto intro: requests_neutral simp: requests_def)

lemma yields_simulateTx:
  "yields_on c_log (withRpc N (rpcSimulate N tx)) (\<lambda>r n. neutral n \<and> (\<forall>e. r = Inl e \<longrightarrow> (\<exists>m c. e = JsError m c)))"
  by (rule yields_on_conseq [OF yields_requests(2)])
    (auto intro: requests_neutral simp: requests_def)

text \<open>A write step started with nothing outstanding: nothing is sent over an outstanding transaction,
  and afterwards one is outstanding exactly in the cases \<open>L\<close>.\<close>

definition settled :: "('r \<Rightarrow> bool) \<Rightarrow> 'r \<Rightarrow> rpc_log \<Rightarrow> bool" where
  "settled L r n \<longleftrightarrow> safeFrom False n \<and> (liveAfter False n \<longleftrightarrow> L r)"

lemma settled_after_neutral: "neutral n \<Longrightarrow> settled L r (m @ n) \<longleftrightarrow> settled L r m"
  by (simp add: settled_def neutralD)

lemma settled_neutral: "neutral n \<Longrightarrow> settled L r n \<longleftrightarrow> \<not> L r"
  by (simp add: settled_def neutralD)

definition pendingSend :: "js_error + send_response option \<Rightarrow> bool" where
  "pendingSend r \<longleftrightarrow> (\<exists>h. r = Inr (Some (SendPending h)))"

definition indeterminateWrite :: "js_error + execution_result \<Rightarrow> bool" where
  "indeterminateWrite r \<longleftrightarrow> (\<exists>h. r = Inl (TxIndeterminateError h))"

lemma requests_error: "requests mk k (Inl e) n \<Longrightarrow> \<exists>m c. e = JsError m c"
  by (simp add: requests_def)

definition sentOff :: "js_error + send_response option \<Rightarrow> rpc_log \<Rightarrow> bool" where
  "sentOff r n \<longleftrightarrow> settled pendingSend r n \<and> (\<forall>e. r = Inl e \<longrightarrow> (\<exists>m c. e = JsError m c))"

lemma sentOff_simps:
  "neutral n \<Longrightarrow> sentOff r (m @ n) \<longleftrightarrow> sentOff r m"
  "neutral n \<Longrightarrow> sentOff r n \<longleftrightarrow> \<not> pendingSend r \<and> (\<forall>e. r = Inl e \<longrightarrow> (\<exists>m c. e = JsError m c))"
  by (simp_all add: sentOff_def settled_after_neutral settled_neutral)

lemma sendLoop_settled:
  "\<not> pendingSend (Inr resp) \<Longrightarrow> yields_on c_log (sendLoop N call fee k tx resp) sentOff"
proof (induction k arbitrary: tx resp)
  case 0
  then show ?case by (simp add: sentOff_simps)
next
  case (Suc k)
  have IH: "yields_on c_log (sendLoop N call fee k tx' (Some SendTryAgain)) sentOff" for tx'
    by (rule Suc.IH) (simp add: pendingSend_def)
  have again: "yields_on c_log (bindE (lift (wait 3000)) (\<lambda>_.
      bindE (getAccount N) (\<lambda>account.
      bindE (withRpc N (rpcSimulate N (buildTx account fee call))) (\<lambda>sim.
        case sim of
          SimFailed m \<Rightarrow> throw (JsError (''Simulation failed on retry: '' @ m) None)
        | SimDone _ \<Rightarrow> sendLoop N call fee k (assemble (buildTx account fee call)) (Some SendTryAgain)))))
      sentOff"
    by (rule yields_on_bindE [where P = "\<lambda>r n. neutral n \<and> (\<exists>x. r = Inr x)"], simp add: yields_on_lift)
      (auto simp: sentOff_simps pendingSend_def split: sim_response.split
        intro!: IH yields_on_bindE [OF yields_account] yields_on_bindE [OF yields_simulateTx])
  have "yields_on c_log (case sent of
         SendPending hash \<Rightarrow> okay (Some sent)
       | SendTryAgain \<Rightarrow>
           bindE (lift (wait 3000)) (\<lambda>_.
           bindE (getAccount N) (\<lambda>account.
           bindE (withRpc N (rpcSimulate N (buildTx account fee call))) (\<lambda>sim.
             case sim of
               SimFailed m \<Rightarrow> throw (JsError (''Simulation failed on retry: '' @ m) None)
             | SimDone _ \<Rightarrow> sendLoop N call fee k (assemble (buildTx account fee call)) (Some sent))))
       | SendError detail \<Rightarrow> throw (JsError (''Transaction send failed: '' @ detail) None)
       | SendOther st \<Rightarrow> throw (JsError (''Unexpected send status: '' @ st) None))
      (\<lambda>r m. sentOff r (m @ n))"
    if "requests (\<lambda>i. RpcSend i tx) (n_servers N) (Inr sent) n" for sent n
  proof (cases sent)
    case SendTryAgain
    then have "\<not> liveAfter False n" "safeFrom False n" using requests_send [OF that] by auto
    then show ?thesis
      unfolding SendTryAgain send_response.case
      by (intro yields_on_conseq [OF again]) (auto simp: sentOff_def settled_def)
  qed (use requests_send [OF that] in \<open>auto simp: sentOff_def settled_def pendingSend_def\<close>)
  then show ?case
    unfolding sendLoop.simps
    by (rule yields_on_bindE [OF yields_requests(3)])
      (auto simp: sentOff_def settled_def pendingSend_def dest: requests_send requests_error)
qed

text \<open>Polling sends nothing, and leaves the transaction outstanding exactly when it is still unseen.\<close>

definition polled :: "bool \<Rightarrow> js_error + tx_response \<Rightarrow> rpc_log \<Rightarrow> bool" where
  "polled b r n \<longleftrightarrow> safeFrom b n \<and> (liveAfter b n \<longleftrightarrow> r = Inr TxNotFound)
     \<and> (\<forall>e. r = Inl e \<longrightarrow> (\<exists>m c. e = JsError m c))"

lemma polled_get: "n_servers N \<noteq> 0 \<Longrightarrow> requests (\<lambda>i. RpcGet i h) (n_servers N) r n \<Longrightarrow> polled b r n"
  by (cases r) (auto simp: polled_def requests_get requests_error)

lemma polled_again: "polled (x = TxNotFound) r m \<Longrightarrow> polled b (Inr x) n \<Longrightarrow> polled b r (m @ n)"
  by (auto simp: polled_def)

lemma pollTx_polled:
  assumes "n_servers N \<noteq> 0"
  shows "yields_on c_log (pollTx N h k resp) (polled (resp = TxNotFound))"
proof (induction k arbitrary: resp)
  case 0
  then show ?case by (simp add: polled_def)
next
  case (Suc k)
  have "yields_on c_log (bindE (lift (wait CONFIRM_POLL_DELAY_MS)) (\<lambda>_.
      bindE (withRpc N (rpcGet N h)) (\<lambda>again. pollTx N h k again))) (polled True)"
  proof (rule yields_on_bindE [where P = "\<lambda>r n. neutral n \<and> (\<exists>x. r = Inr x)"], simp add: yields_on_lift,
      rule yields_on_bindE [OF yields_requests(4)])
    fix u m again n
    assume m: "neutral m \<and> (\<exists>x. Inr u = Inr x)" and n: "requests (\<lambda>i. RpcGet i h) (n_servers N) (Inr again) n"
    have "polled True (Inr again) (n @ m)"
      using polled_get [OF assms n] m by (simp add: polled_def neutralD)
    then show "yields_on c_log (pollTx N h k again) (\<lambda>r n'. polled True r ((n' @ n) @ m))"
      by (intro yields_on_conseq [OF Suc.IH]) (metis append_assoc polled_again)
  next
    fix u m e n
    assume "neutral m \<and> (\<exists>x. Inr u = Inr x)" "requests (\<lambda>i. RpcGet i h) (n_servers N) (Inl e) n"
    then show "polled True (Inl e) (n @ m)"
      using polled_get [OF assms] by (fastforce simp: polled_def neutralD)
  qed auto
  then show ?case by (cases "resp = TxNotFound") (simp, simp add: polled_def)
qed

lemma confirm_settled:
  assumes "n_servers N \<noteq> 0"
  shows "yields_on c_log (confirmTx N h) (\<lambda>r n. safeFrom b n \<and> (liveAfter b n \<longleftrightarrow> indeterminateWrite r))"
  unfolding confirmTx_def
proof (rule yields_on_bindE [OF yields_requests(4)], rule yields_on_bindE [OF pollTx_polled [OF assms]])
  fix first n final m
  assume "requests (\<lambda>i. RpcGet i h) (n_servers N) (Inr first) n" "polled (first = TxNotFound) (Inr final) m"
  then have "polled b (Inr final) (m @ n)"
    using polled_get [OF assms] polled_again by blast
  then show "yields_on c_log (case final of
         TxSuccess rew \<Rightarrow> okay \<lparr>success = True, txHash = Some h, reward = rew, error = None, indeterminate = False\<rparr>
       | TxNotFound \<Rightarrow> throw (TxIndeterminateError h)
       | TxOther st \<Rightarrow> throw (JsError (''Transaction failed: '' @ st) None))
     (\<lambda>r n'. safeFrom b ((n' @ m) @ n) \<and> (liveAfter b ((n' @ m) @ n) \<longleftrightarrow> indeterminateWrite r))"
    by (cases final) (auto simp: polled_def indeterminateWrite_def)
next
  fix first n e m
  assume "requests (\<lambda>i. RpcGet i h) (n_servers N) (Inr first) n" "polled (first = TxNotFound) (Inl e) m"
  then have "polled b (Inl e) (m @ n)"
    using polled_get [OF assms] polled_again by blast
  then show "safeFrom b (m @ n) \<and> (liveAfter b (m @ n) \<longleftrightarrow> indeterminateWrite (Inl e))"
    by (auto simp: polled_def indeterminateWrite_def)
next
  fix e n
  assume "requests (\<lambda>i. RpcGet i h) (n_servers N) (Inl e) n"
  then have "polled b (Inl e) n" by (rule polled_get [OF assms])
  then show "safeFrom b n \<and> (liveAfter b n \<longleftrightarrow> indeterminateWrite (Inl e))"
    by (auto simp: polled_def indeterminateWrite_def)
qed

lemma submit_settled:
  assumes "n_servers N \<noteq> 0"
  shows "yields_on c_log (bindE (sendLoop N call fee k tx None) (\<lambda>sent.
             case sent of
               Some (SendPending hash) \<Rightarrow> confirmTx N hash
             | _ \<Rightarrow> throw (JsError (msg sent) None))) (settled indeterminateWrite)"
proof (rule yields_on_bindE [OF sendLoop_settled], simp add: pendingSend_def)
  fix sent j
  assume "sentOff (Inr sent) j"
  then have j: "settled pendingSend (Inr sent) j" by (simp add: sentOff_def)
  show "yields_on c_log (case sent of Some (SendPending hash) \<Rightarrow> confirmTx N hash
       | _ \<Rightarrow> throw (JsError (msg sent) None)) (\<lambda>r k. settled indeterminateWrite r (k @ j))"
  proof (cases "pendingSend (Inr sent)")
    case True
    then obtain h where "sent = Some (SendPending h)" by (auto simp: pendingSend_def)
    then show ?thesis
      using j True by (auto simp: settled_def intro!: yields_on_conseq [OF confirm_settled [OF assms, of _ True]])
  next
    case False
    then show ?thesis
      using j by (auto simp: settled_def pendingSend_def indeterminateWrite_def
        split: option.split send_response.split)
  qed
qed (auto simp: sentOff_def settled_def pendingSend_def indeterminateWrite_def)

lemma write_settled:
  assumes "n_servers N \<noteq> 0"
  shows "yields_on c_log (invokeContractWrite N call fee) (settled indeterminateWrite)"
  unfolding invokeContractWrite_def
  by (rule yields_on_bindE [OF yields_account], rule yields_on_bindE [OF yields_simulateTx])
    (auto simp: settled_after_neutral settled_neutral indeterminateWrite_def split: sim_response.split
      intro!: submit_settled assms)

text \<open>A recheck is a read: it only simulates.\<close>

definition readOnly :: "bool ceprog option \<Rightarrow> bool" where
  "readOnly rc \<longleftrightarrow> (case rc of None \<Rightarrow> True | Some p \<Rightarrow> yields_on c_log p (\<lambda>_. neutral))"

definition asked :: "bool \<Rightarrow> rpc_log \<Rightarrow> bool" where
  "asked b n \<longleftrightarrow> (\<forall>l. safeFrom l n \<and> (liveAfter l n \<longleftrightarrow> l \<and> \<not> b))"

lemma liveAfter_rechecked: "liveAfter l [Rechecked b] \<longleftrightarrow> l \<and> \<not> b"
  by (cases b) simp_all

lemma recheck_asked: "readOnly rc \<Longrightarrow> yields_on c_log (runRecheck rc) asked"
proof (cases rc)
  case None
  then show ?thesis by (simp add: runRecheck_def asked_def)
next
  case (Some p)
  assume "readOnly rc"
  with Some have "yields_on c_log (catch p (\<lambda>_. ret False)) (\<lambda>_. neutral)"
    by (intro yields_on_catch) (auto simp: readOnly_def)
  then show ?thesis
    unfolding runRecheck_def Some option.case
    by (rule yields_on_bind)
      (auto intro!: yields_on_bind [where P = "\<lambda>_ n. \<exists>b. n = [Rechecked b]"]
        simp: yields_on_def grew_def logRpc_def asked_def neutralD liveAfter_rechecked)
qed

text \<open>The outcome of the whole write: nothing is sent over an outstanding transaction; a transaction is
  left outstanding only under an indeterminate result.\<close>

definition wellRetried :: "execution_result \<Rightarrow> rpc_log \<Rightarrow> bool" where
  "wellRetried r n \<longleftrightarrow> safeFrom False n \<and> (liveAfter False n \<longrightarrow> indeterminate r)"

lemma wellRetried_append:
  "wellRetried r m \<Longrightarrow> safeFrom False n \<Longrightarrow> \<not> liveAfter False n \<Longrightarrow> wellRetried r (m @ n)"
  by (simp add: wellRetried_def)

lemma attempts_wellRetried:
  assumes "n_servers N \<noteq> 0" "readOnly (recheck opts)"
  shows "yields_on c_log (writeAttempts N call opts k a e) wellRetried"
proof (induction k arbitrary: a e)
  case 0
  then show ?case by (simp add: wellRetried_def)
next
  case (Suc k)
  have IH: "yields_on c_log (writeAttempts N call opts k a' e') (\<lambda>r m. wellRetried r (m @ n))"
    if "safeFrom False n" "\<not> liveAfter False n" for a' e' n
    using that by (intro yields_on_conseq [OF Suc.IH] wellRetried_append)
  show ?case
    unfolding writeAttempts.simps
  proof (rule yields_on_bind [OF write_settled [OF assms(1)]])
    fix r n
    assume n: "settled indeterminateWrite r n"
    show "yields_on c_log (case r of
       Inr result \<Rightarrow> ret result
     | Inl (TxIndeterminateError hash) \<Rightarrow> do {
         stillNeeded \<leftarrow> runRecheck (recheck opts);
         if \<not> stillNeeded \<or> k = 0
         then ret \<lparr>success = False, txHash = Some hash, reward = None,
                   error = Some (error_message (TxIndeterminateError hash)), indeterminate = True\<rparr>
         else do {
           wait RETRY_DELAY_MS;
           writeAttempts N call opts k (a + 1) (Some (error_message (TxIndeterminateError hash))) } }
     | Inl (JsError m cause) \<Rightarrow>
         if isNonRetryableContractError m then ret (failedResult (Some m))
         else do {
           (if k = 0 then skip else wait RETRY_DELAY_MS);
           writeAttempts N call opts k (a + 1) (Some m) }) (\<lambda>r' m. wellRetried r' (m @ n))"
      (is "yields_on _ ?body _")
    proof (cases "\<exists>h. r = Inl (TxIndeterminateError h)")
      case True
      then obtain h where h: "r = Inl (TxIndeterminateError h)" by blast
      have live: "safeFrom False n" "liveAfter False n"
        using n h by (auto simp: settled_def indeterminateWrite_def)
      show ?thesis
        unfolding h sum.case js_error.case
      proof (rule yields_on_bind [OF recheck_asked [OF assms(2)]])
        fix b m
        assume "asked b m"
        then have m: "safeFrom False (m @ n)" "liveAfter False (m @ n) \<longleftrightarrow> \<not> b"
          using live by (auto simp: asked_def)
        have "yields_on c_log (do { wait RETRY_DELAY_MS;
             writeAttempts N call opts k (a + 1) e' }) (\<lambda>r' m'. wellRetried r' (m' @ m @ n))" if b for e'
          using m that by (intro yields_on_bind [where P = "\<lambda>_ l. l = [Waited RETRY_DELAY_MS]"])
            (auto intro!: IH [of "Waited RETRY_DELAY_MS # m @ n", simplified])
        then show "yields_on c_log (if \<not> b \<or> k = 0
             then ret \<lparr>success = False, txHash = Some h, reward = None,
                   error = Some (error_message (TxIndeterminateError h)), indeterminate = True\<rparr>
             else do {
               wait RETRY_DELAY_MS;
               writeAttempts N call opts k (a + 1) (Some (error_message (TxIndeterminateError h))) })
             (\<lambda>r' m'. wellRetried r' ((m' @ m) @ n))"
          using m by (auto simp: wellRetried_def)
      qed
    next
      case False
      then have dead: "safeFrom False n" "\<not> liveAfter False n"
        using n by (auto simp: settled_def indeterminateWrite_def)
      have "yields_on c_log (do { (if k = 0 then skip else wait RETRY_DELAY_MS);
             writeAttempts N call opts k (a + 1) e' }) (\<lambda>r' m'. wellRetried r' (m' @ n))" for e'
        using dead by (intro yields_on_bind [where P = "\<lambda>_. neutral"])
          (auto intro!: IH [of "_ @ n", simplified] simp: neutralD)
      then show ?thesis
        using False dead by (auto simp: wellRetried_def split: sum.split js_error.split)
    qed
  qed
qed

section \<open>Lemmas: what is sent\<close>

text \<open>Every transaction sent is the given call, assembled, at one of the given fees.\<close>

definition sends :: "contract_call \<Rightarrow> int set \<Rightarrow> rpc_event \<Rightarrow> bool" where
  "sends call fees ev \<longleftrightarrow> (\<forall>i tx r. ev = RpcSend i tx r \<longrightarrow> tx_call tx = call \<and> tx_ready tx \<and> tx_fee tx \<in> fees)"

lemma sends_simps [simp]:
  "sends call fees (RpcSend i tx r) \<longleftrightarrow> tx_call tx = call \<and> tx_ready tx \<and> tx_fee tx \<in> fees"
  "sends call fees (RpcAccount i x)" "sends call fees (RpcSimulate i tx y)" "sends call fees (RpcGet i h z)"
  "sends call fees (Waited ms)" "sends call fees (Rechecked b)"
  by (auto simp: sends_def)

lemma keeps_only_request: "(\<And>x. ok (mk x)) \<Longrightarrow> keeps (only c_log ok) (request f mk)"
  by (auto simp: request_def logRpc_def keeps_def only_def grew_def)

lemma keeps_only_log: "ok ev \<Longrightarrow> keeps (only c_log ok) (logRpc ev)"
  by (simp add: logRpc_def keeps_def only_def grew_def)

lemma keeps_only_rotate:
  "(\<And>i. keeps (only c_log ok) (op i)) \<Longrightarrow> keeps (only c_log ok) (rotateRpc N op k e)"
  by (induction k arbitrary: e) (auto intro!: keeps_intros keeps_only_modify)

lemma keeps_only_withRpc:
  "(\<And>i. keeps (only c_log ok) (op i)) \<Longrightarrow> keeps (only c_log ok) (withRpc N op)"
  unfolding withRpc_def by (rule keeps_only_rotate)

named_theorems only_intros \<open>events of one kind\<close>

lemma only_calls [only_intros]:
  "keeps (only c_log (sends call fees)) (getAccount N)"
  "keeps (only c_log (sends call fees)) (withRpc N (rpcSimulate N tx))"
  "keeps (only c_log (sends call fees)) (withRpc N (rpcGet N h))"
  "keeps (only c_log (sends call fees)) (wait ms)"
  "tx_call tx = call \<Longrightarrow> tx_ready tx \<Longrightarrow> tx_fee tx \<in> fees \<Longrightarrow>
     keeps (only c_log (sends call fees)) (withRpc N (rpcSend N tx))"
  unfolding getAccount_def rpcAccount_def rpcSimulate_def rpcGet_def rpcSend_def wait_def
  by (auto intro!: keeps_only_withRpc keeps_only_request keeps_only_log)

lemma assembled [simp]:
  "tx_call (assemble (buildTx account fee call)) = call" "tx_ready (assemble (buildTx account fee call))"
  "tx_fee (assemble (buildTx account fee call)) = fee"
  by (simp_all add: assemble_def buildTx_def)

lemma only_sendLoop:
  assumes "fee \<in> fees"
  shows "tx_call tx = call \<Longrightarrow> tx_ready tx \<Longrightarrow> tx_fee tx \<in> fees \<Longrightarrow>
     keeps (only c_log (sends call fees)) (sendLoop N call fee k tx resp)"
proof (induction k arbitrary: tx resp)
  case (Suc k)
  show ?case
    unfolding sendLoop.simps
    by (rule keeps_bindE)
      (auto intro!: keeps_intros only_intros Suc assms simp: assms split: send_response.split sim_response.split)
qed (auto intro: keeps_okay)

lemma only_pollTx: "keeps (only c_log (sends call fees)) (pollTx N h k resp)"
  by (induction k arbitrary: resp) (auto intro!: keeps_intros only_intros)

lemma only_write:
  "fee \<in> fees \<Longrightarrow> keeps (only c_log (sends call fees)) (invokeContractWrite N call fee)"
  unfolding invokeContractWrite_def confirmTx_def
  by (auto intro!: keeps_intros only_intros only_sendLoop only_pollTx
      split: sim_response.split option.split send_response.split tx_response.split)

text \<open>The fees of the attempts left.\<close>

definition feesFrom :: "bool \<Rightarrow> nat \<Rightarrow> nat \<Rightarrow> int set" where
  "feesFrom escalate a k = feeAt escalate ` {a..<a + k}"

lemma feeAt_bounds: "1 \<le> a \<Longrightarrow> BASE_INCLUSION_FEE \<le> feeAt b a \<and> feeAt b a \<le> MAX_INCLUSION_FEE"
  by (simp add: feeAt_def BASE_INCLUSION_FEE_def MAX_INCLUSION_FEE_def)

lemma recheck_neutral: "readOnly (Some p) \<Longrightarrow> yields_on c_log (catch p (\<lambda>_. ret False)) (\<lambda>_. neutral)"
  by (intro yields_on_catch) (auto simp: readOnly_def)

text \<open>How many transmissions a computation makes at most.\<close>

definition transmits :: "nat \<Rightarrow> 'a cprog \<Rightarrow> bool" where
  "transmits k m \<longleftrightarrow> yields_on c_log m (\<lambda>_ n. length (filter isSend n) \<le> k)"

lemma transmits_pure [simp]: "transmits k (okay a)" "transmits k (throw e)" "transmits k (ret b)"
  by (simp_all add: transmits_def)

lemma transmits_bind:
  assumes "transmits j m" "\<And>a. transmits k (f a)"
  shows "transmits (k + j) (State_Monad.bind m f)"
  unfolding transmits_def
proof (rule yields_on_bind [OF assms(1) [unfolded transmits_def]])
  fix a n
  assume "length (filter isSend n) \<le> j"
  then show "yields_on c_log (f a) (\<lambda>b n'. length (filter isSend (n' @ n)) \<le> k + j)"
    by (intro yields_on_conseq [OF assms(2) [unfolded transmits_def]]) simp
qed

lemma transmits_bindE:
  assumes "transmits j m" "\<And>a. transmits k (f a)"
  shows "transmits (k + j) (bindE m f)"
  unfolding bindE_def by (rule transmits_bind [OF assms(1)]) (auto simp: assms(2) split: sum.split)

lemma transmits_then: "transmits 0 m \<Longrightarrow> (\<And>a. transmits k (f a)) \<Longrightarrow> transmits k (State_Monad.bind m f)"
  using transmits_bind [of 0 m k f] by simp

lemma transmits_thenE: "transmits 0 m \<Longrightarrow> (\<And>a. transmits k (f a)) \<Longrightarrow> transmits k (bindE m f)"
  using transmits_bindE [of 0 m k f] by simp

lemma transmits_mono: "transmits j m \<Longrightarrow> j \<le> k \<Longrightarrow> transmits k m"
  unfolding transmits_def by (erule yields_on_conseq) simp

lemma neutral_transmits: "yields_on c_log m (\<lambda>_. neutral) \<Longrightarrow> transmits 0 m"
proof -
  have "neutral n \<Longrightarrow> filter isSend n = []" for n
    by (induction n) (auto elim!: neutralEvent.elims)
  then show "yields_on c_log m (\<lambda>_. neutral) \<Longrightarrow> transmits 0 m"
    unfolding transmits_def by (auto elim: yields_on_conseq)
qed

lemma transmits_calls:
  "transmits 0 (getAccount N)" "transmits 0 (withRpc N (rpcSimulate N tx))" "transmits 0 (lift (wait ms))"
  "transmits 0 (wait ms)" "transmits (n_servers N) (withRpc N (rpcSend N tx))" "transmits 0 (withRpc N (rpcGet N h))"
proof -
  have get: "filter isSend n = []" if "requests (\<lambda>i. RpcGet i h) k r n" for k n and r :: "js_error + tx_response"
    using that by (cases r) (fastforce simp: requests_def failures_def filter_empty_conv)+
  show "transmits 0 (withRpc N (rpcGet N h))"
    unfolding transmits_def by (rule yields_on_conseq [OF yields_requests(4)]) (simp add: get)
  show "transmits (n_servers N) (withRpc N (rpcSend N tx))"
    unfolding transmits_def by (rule yields_on_conseq [OF yields_requests(3)])
      (auto simp: requests_def intro: le_trans [OF length_filter_le])
  show "transmits 0 (getAccount N)" "transmits 0 (withRpc N (rpcSimulate N tx))"
    by (auto intro!: neutral_transmits yields_on_conseq [OF yields_account] yields_on_conseq [OF yields_simulateTx])
  show "transmits 0 (lift (wait ms))" "transmits 0 (wait ms)"
    by (simp_all add: neutral_transmits yields_on_lift)
qed

lemma transmits_sendLoop: "transmits (k * n_servers N) (sendLoop N call fee k tx resp)"
proof (induction k arbitrary: tx resp)
  case (Suc k)
  then show ?case
    unfolding sendLoop.simps mult_Suc add.commute [of "n_servers N"]
    by (intro transmits_bindE transmits_calls)
      (auto intro!: transmits_thenE transmits_calls split: send_response.split sim_response.split)
qed simp

lemma transmits_pollTx: "transmits 0 (pollTx N h k resp)"
  by (induction k arbitrary: resp) (auto intro!: transmits_thenE transmits_calls)

lemma transmits_confirm: "transmits 0 (confirmTx N h)"
  unfolding confirmTx_def
  by (auto intro!: transmits_thenE transmits_calls transmits_pollTx split: tx_response.split)

lemma transmits_write: "transmits (3 * n_servers N) (invokeContractWrite N call fee)"
proof -
  have "transmits (0 + 3 * n_servers N) (bindE (sendLoop N call fee 3 tx None) (\<lambda>sent.
      case sent of Some (SendPending hash) \<Rightarrow> confirmTx N hash | _ \<Rightarrow> throw (JsError (msg sent) None)))" for tx msg
    by (intro transmits_bindE transmits_sendLoop)
      (auto intro: transmits_confirm split: option.split send_response.split)
  then show ?thesis
    unfolding invokeContractWrite_def
    by (auto intro!: transmits_thenE transmits_calls split: sim_response.split)
qed

lemma transmits_recheck: "readOnly rc \<Longrightarrow> transmits 0 (runRecheck rc)"
proof (cases rc)
  case (Some p)
  assume "readOnly rc"
  with Some have "transmits 0 (catch p (\<lambda>_. ret False))"
    by (intro neutral_transmits recheck_neutral) simp
  moreover have "transmits 0 (do { logRpc (Rechecked b); ret b })" for b
    by (simp add: transmits_def yields_on_def grew_def logRpc_def)
  ultimately show ?thesis
    unfolding runRecheck_def Some option.case by (rule transmits_then)
qed (simp add: runRecheck_def)

lemma transmits_attempts:
  assumes "readOnly (recheck opts)"
  shows "transmits (k * (3 * n_servers N)) (writeAttempts N call opts k a e)"
proof (induction k arbitrary: a e)
  case (Suc k)
  show ?case
    unfolding writeAttempts.simps mult_Suc add.commute [of "3 * n_servers N"]
    by (intro transmits_bind transmits_write)
      (auto intro!: transmits_then transmits_calls transmits_recheck assms Suc split: sum.split js_error.split)
qed simp

lemma neutral_sends: "neutral n \<Longrightarrow> list_all (sends call fees) n"
  by (induction n) (auto elim!: neutralEvent.elims)

lemma only_recheck: "readOnly rc \<Longrightarrow> yields_on c_log (runRecheck rc) (\<lambda>_. list_all (sends call fees))"
proof (cases rc)
  case (Some p)
  assume "readOnly rc"
  then show ?thesis
    unfolding runRecheck_def Some option.case
    by (intro yields_on_bind [OF recheck_neutral])
      (auto simp: yields_on_def grew_def logRpc_def neutral_sends)
qed (simp add: runRecheck_def)

lemma only_attempts:
  assumes "readOnly (recheck opts)" "feesFrom (escalateFees opts) a k \<subseteq> fees"
  shows "yields_on c_log (writeAttempts N call opts k a e) (\<lambda>_. list_all (sends call fees))"
  using assms(2)
proof (induction k arbitrary: a e)
  case (Suc k)
  then have fee: "feeAt (escalateFees opts) a \<in> fees" "feesFrom (escalateFees opts) (a + 1) k \<subseteq> fees"
    by (auto simp: feesFrom_def)
  have seq: "yields_on c_log m (\<lambda>_. list_all (sends call fees)) \<Longrightarrow>
      (\<And>x. yields_on c_log (f x) (\<lambda>_. list_all (sends call fees))) \<Longrightarrow>
      yields_on c_log (State_Monad.bind m f) (\<lambda>_. list_all (sends call fees))" for m :: "'x cprog" and f :: "'x \<Rightarrow> 'y cprog"
    by (erule yields_on_bind) (auto elim!: yields_on_conseq)
  have rest: "yields_on c_log (writeAttempts N call opts k (Suc a) e') (\<lambda>_. list_all (sends call fees))" for e'
    using Suc.IH [OF fee(2)] by simp
  show ?case
    unfolding writeAttempts.simps
    by (rule seq [OF yields_on_only [OF only_write [OF fee(1)]]])
      (auto intro!: seq rest only_recheck assms(1) split: sum.split js_error.split)
qed simp

section \<open>Lemmas: results\<close>

text \<open>A success is a transaction of this call that was accepted and then reported final.\<close>

definition wasAccepted :: "string \<Rightarrow> rpc_log \<Rightarrow> bool" where
  "wasAccepted h n \<longleftrightarrow> (\<exists>j tx. RpcSend j tx (Inr (SendPending h)) \<in> set n)"

definition wasFinal :: "string \<Rightarrow> int option \<Rightarrow> rpc_log \<Rightarrow> bool" where
  "wasFinal h rew n \<longleftrightarrow> (\<exists>i. RpcGet i h (Inr (TxSuccess rew)) \<in> set n)"

lemma was_append [simp]:
  "wasAccepted h (m @ n) \<longleftrightarrow> wasAccepted h m \<or> wasAccepted h n"
  "wasFinal h x (m @ n) \<longleftrightarrow> wasFinal h x m \<or> wasFinal h x n"
  by (auto simp: wasAccepted_def wasFinal_def)

lemma was_Cons [simp]:
  "wasAccepted h (RpcSend j tx (Inr (SendPending h)) # n)" "wasFinal h x (RpcGet i h (Inr (TxSuccess x)) # n)"
  by (auto simp: wasAccepted_def wasFinal_def)

definition confirmed :: "execution_result \<Rightarrow> rpc_log \<Rightarrow> bool" where
  "confirmed r n \<longleftrightarrow> (\<exists>h. txHash r = Some h \<and> wasAccepted h n \<and> wasFinal h (reward r) n)"

lemma confirmed_append: "confirmed r n \<Longrightarrow> confirmed r (n @ m)" "confirmed r n \<Longrightarrow> confirmed r (m @ n)"
  by (auto simp: confirmed_def)

lemma yields_any:
  "yields_on c_log (getAccount N) (\<lambda>_ _. True)" "yields_on c_log (withRpc N (rpcSimulate N tx)) (\<lambda>_ _. True)"
  "yields_on c_log (lift (wait ms)) (\<lambda>_ _. True)" "yields_on c_log (withRpc N (rpcGet N h)) (\<lambda>_ _. True)"
  by (simp_all add: yields_on_lift yields_on_conseq [OF yields_requests(1)]
      yields_on_conseq [OF yields_requests(2)] yields_on_conseq [OF yields_requests(4)])

lemma sendLoop_accepted:
  "(\<And>h. resp \<noteq> Some (SendPending h)) \<Longrightarrow>
   yields_on c_log (sendLoop N call fee k tx resp) (\<lambda>r n. \<forall>h. r = Inr (Some (SendPending h)) \<longrightarrow> wasAccepted h n)"
proof (induction k arbitrary: tx resp)
  case (Suc k)
  show ?case
    unfolding sendLoop.simps
  proof (rule yields_on_bindE [OF yields_requests(3)])
    fix sent n
    assume n: "requests (\<lambda>i. RpcSend i tx) (n_servers N) (Inr sent) n"
    have pending: "wasAccepted h n" if "sent = SendPending h" for h
      using n that by (auto simp: requests_def)
    have retry: "yields_on c_log (bindE (lift (wait 3000)) (\<lambda>_.
           bindE (getAccount N) (\<lambda>account.
           bindE (withRpc N (rpcSimulate N (buildTx account fee call))) (\<lambda>sim.
             case sim of
               SimFailed m \<Rightarrow> throw (JsError (''Simulation failed on retry: '' @ m) None)
             | SimDone _ \<Rightarrow> sendLoop N call fee k (assemble (buildTx account fee call)) (Some SendTryAgain)))))
        (\<lambda>r n. \<forall>h. r = Inr (Some (SendPending h)) \<longrightarrow> wasAccepted h n)"
      by (intro yields_on_thenE yields_any) (auto intro!: Suc.IH split: sim_response.split)
    show "yields_on c_log (case sent of
         SendPending hash \<Rightarrow> okay (Some sent)
       | SendTryAgain \<Rightarrow>
           bindE (lift (wait 3000)) (\<lambda>_.
           bindE (getAccount N) (\<lambda>account.
           bindE (withRpc N (rpcSimulate N (buildTx account fee call))) (\<lambda>sim.
             case sim of
               SimFailed m \<Rightarrow> throw (JsError (''Simulation failed on retry: '' @ m) None)
             | SimDone _ \<Rightarrow> sendLoop N call fee k (assemble (buildTx account fee call)) (Some sent))))
       | SendError detail \<Rightarrow> throw (JsError (''Transaction send failed: '' @ detail) None)
       | SendOther st \<Rightarrow> throw (JsError (''Unexpected send status: '' @ st) None))
      (\<lambda>r m. \<forall>h. r = Inr (Some (SendPending h)) \<longrightarrow> wasAccepted h (m @ n))"
    proof (cases sent)
      case SendTryAgain
      show ?thesis
        unfolding SendTryAgain send_response.case was_append
        by (rule yields_on_conseq [OF retry]) simp
    qed (use pending in auto)
  qed simp
qed simp

lemma pollTx_final:
  "(\<And>x. resp = TxSuccess x \<Longrightarrow> wasFinal h x k0) \<Longrightarrow>
   yields_on c_log (pollTx N h k resp) (\<lambda>r n. \<forall>x. r = Inr (TxSuccess x) \<longrightarrow> wasFinal h x (n @ k0))"
proof (induction k arbitrary: resp k0)
  case (Suc k)
  have "yields_on c_log (pollTx N h k again) (\<lambda>r n'. \<forall>x. r = Inr (TxSuccess x) \<longrightarrow> wasFinal h x (((n' @ n) @ m) @ k0))"
    if "requests (\<lambda>i. RpcGet i h) (n_servers N) (Inr again) n" for again n m
  proof -
    have "wasFinal h x n" if "again = TxSuccess x" for x
      using that \<open>requests _ _ _ _\<close> by (auto simp: requests_def)
    then show ?thesis using Suc.IH [of again "n @ m @ k0"] by simp
  qed
  then have "yields_on c_log (bindE (lift (wait CONFIRM_POLL_DELAY_MS)) (\<lambda>_.
      bindE (withRpc N (rpcGet N h)) (\<lambda>again. pollTx N h k again)))
      (\<lambda>r n. \<forall>x. r = Inr (TxSuccess x) \<longrightarrow> wasFinal h x (n @ k0))"
    by (intro yields_on_bindE [OF yields_any(3)] yields_on_bindE [OF yields_requests(4)]) simp_all
  then show ?case using Suc.prems by (cases "resp = TxNotFound") (simp, simp)
qed simp

lemma confirm_confirmed:
  "yields_on c_log (confirmTx N h) (\<lambda>r n. \<forall>x. r = Inr x \<longrightarrow> success x \<and> txHash x = Some h \<and> wasFinal h (reward x) n)"
  unfolding confirmTx_def
proof (rule yields_on_bindE [OF yields_requests(4)], rule yields_on_bindE)
  fix first n
  assume "requests (\<lambda>i. RpcGet i h) (n_servers N) (Inr first) n"
  then have "wasFinal h x n" if "first = TxSuccess x" for x
    using that by (auto simp: requests_def)
  then show "yields_on c_log (pollTx N h CONFIRM_POLL_ATTEMPTS first)
      (\<lambda>r m. \<forall>x. r = Inr (TxSuccess x) \<longrightarrow> wasFinal h x (m @ n))"
    by (rule pollTx_final)
qed (auto split: tx_response.split)

lemma write_confirmed:
  "yields_on c_log (invokeContractWrite N call fee) (\<lambda>r n. \<forall>x. r = Inr x \<longrightarrow> success x \<and> confirmed x n)"
proof -
  have submit: "yields_on c_log (bindE (sendLoop N call fee 3 tx None) (\<lambda>sent.
      case sent of Some (SendPending hash) \<Rightarrow> confirmTx N hash | _ \<Rightarrow> throw (JsError (msg sent) None)))
      (\<lambda>r n. \<forall>x. r = Inr x \<longrightarrow> success x \<and> confirmed x n)" for tx msg
    by (rule yields_on_bindE [OF sendLoop_accepted])
      (auto split: option.split send_response.split intro!: yields_on_conseq [OF confirm_confirmed]
        simp: confirmed_def)
  show ?thesis
    unfolding invokeContractWrite_def
    by (intro yields_on_thenE yields_any) (auto intro!: submit split: sim_response.split simp: confirmed_append)
qed

lemma attempts_confirmed:
  assumes "readOnly (recheck opts)"
  shows "yields_on c_log (writeAttempts N call opts k a e) (\<lambda>r n. success r \<longrightarrow> confirmed r n)"
proof (induction k arbitrary: a e)
  case 0
  then show ?case by (simp add: failedResult_def)
next
  case (Suc k)
  have seq: "yields_on c_log m (\<lambda>_ _. True) \<Longrightarrow> (\<And>x. yields_on c_log (f x) (\<lambda>r n. success r \<longrightarrow> confirmed r n)) \<Longrightarrow>
      yields_on c_log (State_Monad.bind m f) (\<lambda>r n. success r \<longrightarrow> confirmed r n)" for m :: "'x cprog" and f
    by (erule yields_on_bind, rule yields_on_conseq, assumption) (simp add: confirmed_append)
  have rest: "yields_on c_log (writeAttempts N call opts k (Suc a) e') (\<lambda>r m. success r \<longrightarrow> confirmed r m)" for e'
    using Suc [of "Suc a"] by simp
  have rc: "yields_on c_log (runRecheck (recheck opts)) (\<lambda>_ _. True)"
    by (rule yields_on_conseq [OF recheck_asked [OF assms]]) simp
  show ?case
    unfolding writeAttempts.simps
  proof (rule yields_on_bind [OF write_confirmed], goal_cases)
    case (1 r n)
    show ?case
      by (rule yields_on_conseq [where P = "\<lambda>r' m. success r' \<longrightarrow> confirmed r' m \<or> (r = Inr r' \<and> m = [])"])
        (use 1 in \<open>auto simp: failedResult_def confirmed_append split: sum.split js_error.split
           intro!: yields_on_conseq [OF seq [OF rc]] yields_on_conseq [OF seq] rest\<close>)
  qed
qed

end
