(* ===== verification/StellarClient.thy ===== *)
theory StellarClient
  imports RpcClient
begin

text \<open>
  The client methods of \<open>StellarClient\<close> (\<open>scripts/keeper/src/stellar.ts\<close>): for each keeper write the
  contract call it builds and its retry options, the reads the rechecks use, the previews and the
  router generation probe. The keeper's \<open>write_call\<close> and \<open>sim_call\<close> name these methods
  (\<open>clientWrite\<close>, \<open>clientSimulate\<close>). A contract id that is not configured is the empty string. A reply
  that has not the type of the view is a decoding error.
\<close>

section \<open>Definitions: reads\<close>

record client_config =
  cl_publicKey :: string
  cl_market :: string
  cl_noeracle :: string
  cl_factory :: string
  cl_router :: string
  cl_usdc :: string

definition contractCall :: "string \<Rightarrow> string \<Rightarrow> scval list \<Rightarrow> contract_call" where
  "contractCall c m args = \<lparr>cc_contract = c, cc_method = m, cc_args = args\<rparr>"

definition decodeError :: "js_error + 'a" where
  "decodeError = Inl (JsError ''Cannot convert the reply'' None)"

text \<open>\<open>result ? parse(result) : null\<close>.\<close>

fun positionReply :: "retval \<Rightarrow> js_error + position option" where
  "positionReply (VPosition r) = Inr (Some (parsePosition r))"
| "positionReply VVoid = Inr None"
| "positionReply (VBool False) = Inr None"
| "positionReply (VInt n) = (if n = 0 then Inr None else decodeError)"
| "positionReply _ = decodeError"

fun orderReply :: "retval \<Rightarrow> js_error + order option" where
  "orderReply (VOrder r) = Inr (Some (parseOrder r))"
| "orderReply VVoid = Inr None"
| "orderReply (VBool False) = Inr None"
| "orderReply (VInt n) = (if n = 0 then Inr None else decodeError)"
| "orderReply _ = decodeError"

definition getPositionById :: "client_config \<Rightarrow> net \<Rightarrow> nat \<Rightarrow> position option ceprog" where
  "getPositionById cfg N i =
     bindE (invokeContractRead N (contractCall (cl_market cfg) ''get_position'' [ScU64 (int i)]))
       (\<lambda>v. ret (positionReply v))"

definition getOrderById :: "client_config \<Rightarrow> net \<Rightarrow> nat \<Rightarrow> order option ceprog" where
  "getOrderById cfg N i =
     bindE (invokeContractRead N (contractCall (cl_market cfg) ''get_order'' [ScU64 (int i)]))
       (\<lambda>v. ret (orderReply v))"

fun toBigIntArray :: "retval \<Rightarrow> int list" where
  "toBigIntArray (VIds is) = is"
| "toBigIntArray _ = []"

definition getPositionIds :: "client_config \<Rightarrow> net \<Rightarrow> int list ceprog" where
  "getPositionIds cfg N =
     bindE (invokeContractRead N (contractCall (cl_market cfg) ''get_all_position_ids'' []))
       (\<lambda>v. okay (toBigIntArray v))"

definition getOrderIds :: "client_config \<Rightarrow> net \<Rightarrow> int list ceprog" where
  "getOrderIds cfg N =
     bindE (invokeContractRead N (contractCall (cl_market cfg) ''get_all_order_ids'' []))
       (\<lambda>v. okay (toBigIntArray v))"

definition getCrossMarginPositions :: "client_config \<Rightarrow> net \<Rightarrow> address \<Rightarrow> int list ceprog" where
  "getCrossMarginPositions cfg N trader =
     bindE (invokeContractRead N (contractCall (cl_market cfg) ''get_cross_margin_positions'' [ScAddress trader]))
       (\<lambda>v. okay (toBigIntArray v))"

text \<open>\<open>BigInt(result ?? 0)\<close>.\<close>

fun amountReply :: "retval \<Rightarrow> js_error + int" where
  "amountReply (VInt n) = Inr n"
| "amountReply VVoid = Inr 0"
| "amountReply (VBool b) = Inr (if b then 1 else 0)"
| "amountReply _ = decodeError"

definition getCrossMarginBalance :: "client_config \<Rightarrow> net \<Rightarrow> address \<Rightarrow> int ceprog" where
  "getCrossMarginBalance cfg N trader =
     bindE (invokeContractRead N (contractCall (cl_market cfg) ''get_cross_margin_balance'' [ScAddress trader]))
       (\<lambda>v. ret (amountReply v))"

definition getUsdcBalance :: "client_config \<Rightarrow> net \<Rightarrow> address \<Rightarrow> int ceprog" where
  "getUsdcBalance cfg N holder =
     (if cl_usdc cfg = [] then throw (JsError ''usdcTokenContractId not configured'' None)
      else bindE (invokeContractRead N (contractCall (cl_usdc cfg) ''balance'' [ScAddress holder]))
             (\<lambda>v. ret (amountReply v)))"

definition readAdlFlag :: "client_config \<Rightarrow> net \<Rightarrow> asset \<Rightarrow> bool ceprog" where
  "readAdlFlag cfg N a =
     bindE (invokeContractRead N (contractCall (cl_market cfg) ''is_adl_active'' [ScSymbol a]))
       (\<lambda>v. okay (v = VBool True))"

fun riskReply :: "retval \<Rightarrow> int option" where
  "riskReply (VRisk mm) = mm"
| "riskReply _ = None"

definition readAssetRisk :: "client_config \<Rightarrow> net \<Rightarrow> asset \<Rightarrow> int option ceprog" where
  "readAssetRisk cfg N a =
     bindE (invokeContractRead N (contractCall (cl_market cfg) ''get_asset_risk'' [ScSymbol a]))
       (\<lambda>v. okay (riskReply v))"

fun vaultReply :: "retval \<Rightarrow> js_error + int option" where
  "vaultReply (VInt n) = Inr (Some n)"
| "vaultReply VVoid = Inr None"
| "vaultReply (VBool b) = Inr (Some (if b then 1 else 0))"
| "vaultReply _ = decodeError"

definition readOrderVault :: "client_config \<Rightarrow> net \<Rightarrow> nat \<Rightarrow> int option ceprog" where
  "readOrderVault cfg N i =
     (if cl_factory cfg = [] then okay None
      else bindE (invokeContractRead N (contractCall (cl_factory cfg) ''get_order_vault'' [ScU64 (int i)]))
             (\<lambda>v. ret (vaultReply v)))"

definition getStorkStrictAssets :: "client_config \<Rightarrow> net \<Rightarrow> string list cprog" where
  "getStorkStrictAssets cfg N =
     (if cl_router cfg = [] then ret []
      else catch (bindE (invokeContractRead N (contractCall (cl_router cfg) ''get_stork_strict_assets'' []))
                    (\<lambda>v. okay (case v of VNames ns \<Rightarrow> ns | _ \<Rightarrow> [])))
             (\<lambda>e. ret []))"

section \<open>Definitions: the router generation\<close>

definition routerAbiV2 :: "client_config \<Rightarrow> net \<Rightarrow> bool cprog" where
  "routerAbiV2 cfg N = do {
     memo \<leftarrow> gets routerAbiV2Memo;
     case memo of
       Some b \<Rightarrow> ret b
     | None \<Rightarrow>
         if cl_router cfg = [] then ret False
         else do {
           r \<leftarrow> invokeContractRead N (contractCall (cl_router cfg) ''get_reflector_config'' []);
           case r of
             Inr _ \<Rightarrow> do { modify (\<lambda>s. s\<lparr>routerAbiV2Memo := Some True\<rparr>); ret True }
           | Inl e \<Rightarrow>
               if \<not> isMissingContractFunction (error_message e) then ret False
               else do { modify (\<lambda>s. s\<lparr>routerAbiV2Memo := Some False\<rparr>); ret False } } }"

definition toRound :: "attestation \<Rightarrow> router_round" where
  "toRound a = \<lparr>rr_price = a_price a, rr_timestamp = int (a_timestamp a), rr_round_id = int (a_round_id a),
     rr_publisher = a_publisher a, rr_signature = a_signature a\<rparr>"

definition routerCallArgs :: "client_config \<Rightarrow> net \<Rightarrow> nat \<Rightarrow> asset \<Rightarrow> attestation \<Rightarrow> scval list cprog" where
  "routerCallArgs cfg N i a rd = do {
     v2 \<leftarrow> routerAbiV2 cfg N;
     ret (if v2 then buildRouterCallArgsV2 (cl_publicKey cfg) i a (toRound rd)
          else buildRouterCallArgs (cl_publicKey cfg) i a (toRound rd)) }"

section \<open>Definitions: writes\<close>

definition positionExists :: "client_config \<Rightarrow> net \<Rightarrow> nat \<Rightarrow> bool ceprog" where
  "positionExists cfg N i = bindE (getPositionById cfg N i) (\<lambda>p. okay (p \<noteq> None))"

definition orderPending :: "client_config \<Rightarrow> net \<Rightarrow> nat \<Rightarrow> bool ceprog" where
  "orderPending cfg N i =
     bindE (getOrderById cfg N i) (\<lambda>x. okay (case x of None \<Rightarrow> False | Some y \<Rightarrow> o_status y = Pending))"

definition holdsCross :: "client_config \<Rightarrow> net \<Rightarrow> address \<Rightarrow> bool ceprog" where
  "holdsCross cfg N trader = bindE (getCrossMarginPositions cfg N trader) (\<lambda>is. okay (is \<noteq> []))"

definition notConfiguredResult :: "string \<Rightarrow> execution_result" where
  "notConfiguredResult what = failedResult (Some (what @ '' contract id not configured''))"

definition clientLiquidate :: "client_config \<Rightarrow> net \<Rightarrow> nat \<Rightarrow> execution_result cprog" where
  "clientLiquidate cfg N i = invokeContractWriteWithRetry N
     (contractCall (cl_market cfg) ''liquidate'' [ScAddress (cl_publicKey cfg), ScU64 (int i)])
     (plainWrite\<lparr>escalateFees := True, recheck := Some (positionExists cfg N i)\<rparr>)"

definition clientExecuteOrder :: "client_config \<Rightarrow> net \<Rightarrow> nat \<Rightarrow> execution_result cprog" where
  "clientExecuteOrder cfg N i = invokeContractWriteWithRetry N
     (contractCall (cl_market cfg) ''execute_order'' [ScAddress (cl_publicKey cfg), ScU64 (int i)])
     (plainWrite\<lparr>recheck := Some (orderPending cfg N i)\<rparr>)"

definition clientLiquidateCross :: "client_config \<Rightarrow> net \<Rightarrow> address \<Rightarrow> execution_result cprog" where
  "clientLiquidateCross cfg N trader = invokeContractWriteWithRetry N
     (contractCall (cl_market cfg) ''liquidate_cross_account'' [ScAddress (cl_publicKey cfg), ScAddress trader])
     (plainWrite\<lparr>escalateFees := True, recheck := Some (holdsCross cfg N trader)\<rparr>)"

definition clientCheckAdlTrigger :: "client_config \<Rightarrow> net \<Rightarrow> asset \<Rightarrow> execution_result cprog" where
  "clientCheckAdlTrigger cfg N a = invokeContractWriteWithRetry N
     (contractCall (cl_market cfg) ''check_adl_trigger'' [ScSymbol a]) plainWrite"

definition clientAdlClose :: "client_config \<Rightarrow> net \<Rightarrow> nat \<Rightarrow> execution_result cprog" where
  "clientAdlClose cfg N i = invokeContractWriteWithRetry N
     (contractCall (cl_market cfg) ''adl_close'' [ScAddress (cl_publicKey cfg), ScU64 (int i)])
     (plainWrite\<lparr>escalateFees := True, recheck := Some (positionExists cfg N i)\<rparr>)"

definition clientUpdateTrailingPeak :: "client_config \<Rightarrow> net \<Rightarrow> nat \<Rightarrow> execution_result cprog" where
  "clientUpdateTrailingPeak cfg N i = invokeContractWriteWithRetry N
     (contractCall (cl_market cfg) ''update_trailing_peak'' [ScU64 (int i)]) plainWrite"

definition clientApplyFunding :: "client_config \<Rightarrow> net \<Rightarrow> execution_result cprog" where
  "clientApplyFunding cfg N = invokeContractWriteWithRetry N
     (contractCall (cl_market cfg) ''apply_funding'' []) plainWrite"

definition clientSyncAssetPnl :: "client_config \<Rightarrow> net \<Rightarrow> asset \<Rightarrow> execution_result cprog" where
  "clientSyncAssetPnl cfg N a = invokeContractWriteWithRetry N
     (contractCall (cl_market cfg) ''sync_asset_pnl'' [ScSymbol a]) (plainWrite\<lparr>maxRetries := Some 1\<rparr>)"

definition clientReconcileOrder :: "client_config \<Rightarrow> net \<Rightarrow> nat \<Rightarrow> nat \<Rightarrow> execution_result cprog" where
  "clientReconcileOrder cfg N v i =
     (if cl_factory cfg = [] then ret (notConfiguredResult ''vault factory'')
      else invokeContractWriteWithRetry N
             (contractCall (cl_factory cfg) ''reconcile_order'' [ScU32 (int v), ScU64 (int i)]) plainWrite)"

text \<open>The batch push: the shared round fields come from the first attestation.\<close>

definition mixedRounds :: "attestation list \<Rightarrow> bool" where
  "mixedRounds atts = list_ex (\<lambda>a. a_timestamp a \<noteq> a_timestamp (hd atts)
     \<or> a_round_id a \<noteq> a_round_id (hd atts) \<or> a_publisher a \<noteq> a_publisher (hd atts)) atts"

definition batchArgs :: "attestation list \<Rightarrow> scval list" where
  "batchArgs atts =
     [ScVec (map (\<lambda>a. ScBytes (take 8 (hexBytes (a_message a)))) atts),
      ScVec (map (\<lambda>a. ScI128 (a_price a)) atts),
      ScU64 (int (a_timestamp (hd atts))), ScU64 (int (a_round_id (hd atts))),
      ScBytes (hexBytes (a_publisher (hd atts))),
      ScVec (map (\<lambda>a. ScBytes (hexBytes (a_signature a))) atts)]"

definition updateNoeracleBatchPersistent :: "client_config \<Rightarrow> net \<Rightarrow> attestation list \<Rightarrow> execution_result cprog" where
  "updateNoeracleBatchPersistent cfg N atts =
     (if atts = [] then ret (failedResult (Some ''empty attestation batch''))
      else if mixedRounds atts then ret (failedResult (Some ''attestation batch mixes rounds or publishers''))
      else invokeContractWriteWithRetry N
             (contractCall (cl_noeracle cfg) ''update_batch_ed25519_persistent'' (batchArgs atts)) plainWrite)"

text \<open>The router paths.\<close>

definition routerWrite ::
    "client_config \<Rightarrow> net \<Rightarrow> string \<Rightarrow> nat \<Rightarrow> asset \<Rightarrow> attestation \<Rightarrow> write_options \<Rightarrow> execution_result cprog" where
  "routerWrite cfg N m i a rd opts =
     (if cl_router cfg = [] then ret (notConfiguredResult ''router'')
      else do {
        args \<leftarrow> routerCallArgs cfg N i a rd;
        invokeContractWriteWithRetry N (contractCall (cl_router cfg) m args) opts })"

definition executeOrderViaRouter :: "client_config \<Rightarrow> net \<Rightarrow> nat \<Rightarrow> asset \<Rightarrow> attestation \<Rightarrow> execution_result cprog" where
  "executeOrderViaRouter cfg N i a rd = routerWrite cfg N ''execute_with_price'' i a rd
     (plainWrite\<lparr>recheck := Some (orderPending cfg N i)\<rparr>)"

definition liquidateViaRouter :: "client_config \<Rightarrow> net \<Rightarrow> nat \<Rightarrow> asset \<Rightarrow> attestation \<Rightarrow> execution_result cprog" where
  "liquidateViaRouter cfg N i a rd = routerWrite cfg N ''liquidate_with_price'' i a rd
     (plainWrite\<lparr>escalateFees := True, recheck := Some (positionExists cfg N i)\<rparr>)"

definition adlCloseViaRouter :: "client_config \<Rightarrow> net \<Rightarrow> nat \<Rightarrow> asset \<Rightarrow> attestation \<Rightarrow> execution_result cprog" where
  "adlCloseViaRouter cfg N i a rd = routerWrite cfg N ''adl_with_price'' i a rd
     (plainWrite\<lparr>escalateFees := True, recheck := Some (positionExists cfg N i)\<rparr>)"

definition liquidateCrossViaRouter ::
    "client_config \<Rightarrow> net \<Rightarrow> address \<Rightarrow> (asset \<times> attestation) list \<Rightarrow> execution_result cprog" where
  "liquidateCrossViaRouter cfg N trader rounds =
     (if cl_router cfg = [] then ret (notConfiguredResult ''router'')
      else do {
        v2 \<leftarrow> routerAbiV2 cfg N;
        invokeContractWriteWithRetry N
          (contractCall (cl_router cfg) ''liquidate_cross_with_prices''
             [ScAddress (cl_publicKey cfg), ScAddress trader,
              ScVec (map (\<lambda>(a, rd). if v2 then buildPriceAttestationScValV2 a (toRound rd)
                                     else buildPriceAttestationScVal a (toRound rd)) rounds)])
          (plainWrite\<lparr>escalateFees := True, recheck := Some (holdsCross cfg N trader)\<rparr>) })"

definition relayStork :: "client_config \<Rightarrow> net \<Rightarrow> nat list \<Rightarrow> execution_result cprog" where
  "relayStork cfg N payload =
     (if cl_router cfg = [] then ret (notConfiguredResult ''router'')
      else invokeContractWriteWithRetry N
             (contractCall (cl_router cfg) ''relay_stork'' [ScBytes payload]) plainWrite)"

fun clientWrite :: "client_config \<Rightarrow> net \<Rightarrow> write_call \<Rightarrow> execution_result cprog" where
  "clientWrite cfg N (Liquidate i) = clientLiquidate cfg N i"
| "clientWrite cfg N (LiquidateViaRouter i a rd) = liquidateViaRouter cfg N i a rd"
| "clientWrite cfg N (LiquidateCrossAccount t) = clientLiquidateCross cfg N t"
| "clientWrite cfg N (LiquidateCrossViaRouter t rounds) = liquidateCrossViaRouter cfg N t rounds"
| "clientWrite cfg N (ExecuteOrder i) = clientExecuteOrder cfg N i"
| "clientWrite cfg N (ExecuteOrderViaRouter i a rd) = executeOrderViaRouter cfg N i a rd"
| "clientWrite cfg N (ReconcileOrder v i) = clientReconcileOrder cfg N v i"
| "clientWrite cfg N (CheckAdlTrigger a) = clientCheckAdlTrigger cfg N a"
| "clientWrite cfg N (AdlClose i) = clientAdlClose cfg N i"
| "clientWrite cfg N (AdlCloseViaRouter i a rd) = adlCloseViaRouter cfg N i a rd"
| "clientWrite cfg N (UpdateTrailingPeak i) = clientUpdateTrailingPeak cfg N i"
| "clientWrite cfg N ApplyFunding = clientApplyFunding cfg N"
| "clientWrite cfg N (SyncAssetPnl a) = clientSyncAssetPnl cfg N a"
| "clientWrite cfg N (PublishBatch atts) = updateNoeracleBatchPersistent cfg N atts"

section \<open>Definitions: previews\<close>

definition simulateLiquidate :: "client_config \<Rightarrow> net \<Rightarrow> nat \<Rightarrow> simulation_outcome ceprog" where
  "simulateLiquidate cfg N i = simulateContract N
     (contractCall (cl_market cfg) ''liquidate'' [ScAddress (cl_publicKey cfg), ScU64 (int i)])"

definition simulateExecuteOrder :: "client_config \<Rightarrow> net \<Rightarrow> nat \<Rightarrow> simulation_outcome ceprog" where
  "simulateExecuteOrder cfg N i = simulateContract N
     (contractCall (cl_market cfg) ''execute_order'' [ScAddress (cl_publicKey cfg), ScU64 (int i)])"

definition simulateCheckAdlTrigger :: "client_config \<Rightarrow> net \<Rightarrow> asset \<Rightarrow> simulation_outcome ceprog" where
  "simulateCheckAdlTrigger cfg N a = simulateContract N
     (contractCall (cl_market cfg) ''check_adl_trigger'' [ScSymbol a])"

definition simulateUpdateTrailingPeak :: "client_config \<Rightarrow> net \<Rightarrow> nat \<Rightarrow> simulation_outcome ceprog" where
  "simulateUpdateTrailingPeak cfg N i = simulateContract N
     (contractCall (cl_market cfg) ''update_trailing_peak'' [ScU64 (int i)])"

definition simulateRouterFn ::
    "client_config \<Rightarrow> net \<Rightarrow> string \<Rightarrow> nat \<Rightarrow> asset \<Rightarrow> attestation \<Rightarrow> simulation_outcome ceprog" where
  "simulateRouterFn cfg N f i a rd =
     (if cl_router cfg = [] then okay (SimErr ''router contract id not configured'')
      else do {
        args \<leftarrow> routerCallArgs cfg N i a rd;
        simulateContract N (contractCall (cl_router cfg) f args) })"

definition simulateRelayStork :: "client_config \<Rightarrow> net \<Rightarrow> nat list \<Rightarrow> simulation_outcome ceprog" where
  "simulateRelayStork cfg N payload =
     (if cl_router cfg = [] then okay (SimErr ''router contract id not configured'')
      else simulateContract N (contractCall (cl_router cfg) ''relay_stork'' [ScBytes payload]))"

fun clientSimulate :: "client_config \<Rightarrow> net \<Rightarrow> sim_call \<Rightarrow> simulation_outcome ceprog" where
  "clientSimulate cfg N (SimLiquidate i) = simulateLiquidate cfg N i"
| "clientSimulate cfg N (SimExecuteOrder i) = simulateExecuteOrder cfg N i"
| "clientSimulate cfg N (SimRouterExecute i a rd) = simulateRouterFn cfg N ''execute_with_price'' i a rd"
| "clientSimulate cfg N (SimCheckAdlTrigger a) = simulateCheckAdlTrigger cfg N a"
| "clientSimulate cfg N (SimUpdateTrailingPeak i) = simulateUpdateTrailingPeak cfg N i"

section \<open>Lemmas\<close>

lemma yields_on_thenE_neutral:
  "yields_on c_log m (\<lambda>_. neutral) \<Longrightarrow> (\<And>a. yields_on c_log (f a) (\<lambda>_. neutral)) \<Longrightarrow>
   yields_on c_log (bindE m f) (\<lambda>_. neutral)"
  by (erule yields_on_bindE, rule yields_on_conseq, assumption) auto

lemma neutral_read: "yields_on c_log (invokeContractRead N call) (\<lambda>_. neutral)"
  unfolding invokeContractRead_def
  by (intro yields_on_thenE_neutral yields_on_conseq [OF yields_simulateTx])
    (auto split: sim_response.split option.split)

lemma neutral_simulate: "yields_on c_log (simulateContract N call) (\<lambda>_. neutral)"
  unfolding simulateContract_def
  by (intro yields_on_thenE_neutral yields_on_conseq [OF yields_simulateTx]) auto

lemma rechecks_readOnly [simp]:
  "readOnly (Some (positionExists cfg N i))" "readOnly (Some (orderPending cfg N i))"
  "readOnly (Some (holdsCross cfg N trader))" "readOnly None"
  unfolding readOnly_def positionExists_def orderPending_def holdsCross_def
    getPositionById_def getOrderById_def getCrossMarginPositions_def
  by (auto intro!: yields_on_thenE_neutral neutral_read)

lemma plainWrite_simps [simp]:
  "recheck plainWrite = None" "escalateFees plainWrite = False" "maxRetries plainWrite = None"
  by (simp_all add: plainWrite_def)

lemma neutral_routerAbi: "yields_on c_log (routerAbiV2 cfg N) (\<lambda>_. neutral)"
  unfolding routerAbiV2_def
  by (rule yields_on_bind [where P = "\<lambda>_ n. n = []"], simp add: yields_on_gets)
    (auto split: option.split sum.split intro!: yields_on_bind [OF neutral_read]
      yields_on_bind [where P = "\<lambda>_ n. n = []" and m = "State_Monad.update _"] yields_on_modify)

lemma neutral_routerArgs: "yields_on c_log (routerCallArgs cfg N i a rd) (\<lambda>_. neutral)"
  unfolding routerCallArgs_def by (rule yields_on_bind [OF neutral_routerAbi]) simp

text \<open>What every write of the client guarantees of its trace and result.\<close>

definition soundWrite :: "nat \<Rightarrow> execution_result \<Rightarrow> rpc_log \<Rightarrow> bool" where
  "soundWrite k r n \<longleftrightarrow> wellRetried r n \<and> (success r \<longrightarrow> confirmed r n)
     \<and> (\<forall>i tx x. RpcSend i tx x \<in> set n \<longrightarrow>
          tx_ready tx \<and> BASE_INCLUSION_FEE \<le> tx_fee tx \<and> tx_fee tx \<le> MAX_INCLUSION_FEE)
     \<and> length (filter isSend n) \<le> k"

lemma soundWrite_failed: "soundWrite k (failedResult e) []"
  by (simp add: soundWrite_def wellRetried_def failedResult_def)

lemma soundWrite_neutral: "soundWrite k r m \<Longrightarrow> neutral n \<Longrightarrow> soundWrite k r (m @ n)"
proof -
  assume m: "soundWrite k r m" and n: "neutral n"
  then have "\<not> isSend ev" if "ev \<in> set n" for ev
    using that by (auto simp: neutral_def list_all_iff elim!: neutralEvent.elims dest!: bspec)
  then have "filter isSend n = []" "\<forall>i tx x. RpcSend i tx x \<notin> set n"
    by (auto simp: filter_empty_conv) (use isSend.simps(1) in blast)
  with m n show "soundWrite k r (m @ n)"
    by (auto simp: soundWrite_def wellRetried_def neutralD confirmed_append)
qed

lemma retry_sound:
  assumes "n_servers N \<noteq> 0" "readOnly (recheck opts)"
  shows "yields_on c_log (invokeContractWriteWithRetry N call opts) (soundWrite (budget opts * (3 * n_servers N)))"
proof -
  let ?fees = "{BASE_INCLUSION_FEE..MAX_INCLUSION_FEE}"
  have fees: "feesFrom (escalateFees opts) 1 (budget opts) \<subseteq> ?fees"
    using feeAt_bounds by (auto simp: feesFrom_def)
  note specs = attempts_wellRetried [OF assms, of call "budget opts" 1 None]
    attempts_confirmed [OF assms(2), of N call "budget opts" 1 None]
    only_attempts [OF assms(2) fees, of N call None]
    transmits_attempts [OF assms(2), of "budget opts" N call 1 None, unfolded transmits_def]
  show ?thesis
    unfolding invokeContractWriteWithRetry_def
    by (rule yields_on_conseq [OF yields_on_conj [OF specs(1) yields_on_conj [OF specs(2)
        yields_on_conj [OF specs(3,4)]]]])
      (auto simp: soundWrite_def list_all_iff sends_def)
qed

lemma budget_simps [simp]:
  "budget plainWrite = 3" "budget (plainWrite\<lparr>recheck := rc\<rparr>) = 3"
  "budget (plainWrite\<lparr>escalateFees := b, recheck := rc\<rparr>) = 3" "budget (plainWrite\<lparr>maxRetries := Some j\<rparr>) = j"
  by (simp_all add: budget_def MAX_RETRIES_def)

lemma soundWrite_mono: "soundWrite j r n \<Longrightarrow> j \<le> k \<Longrightarrow> soundWrite k r n"
  by (auto simp: soundWrite_def)

lemma retry_sound9:
  assumes "n_servers N \<noteq> 0" "readOnly (recheck opts)" "budget opts \<le> 3"
  shows "yields_on c_log (invokeContractWriteWithRetry N call opts) (soundWrite (9 * n_servers N))"
proof (rule yields_on_conseq [OF retry_sound [OF assms(1,2)]])
  fix r n
  assume "soundWrite (budget opts * (3 * n_servers N)) r n"
  moreover have "budget opts * (3 * n_servers N) \<le> 3 * (3 * n_servers N)"
    using assms(3) by (intro mult_le_mono1)
  ultimately show "soundWrite (9 * n_servers N) r n" by (auto elim: soundWrite_mono)
qed

lemma after_neutral_sound:
  "yields_on c_log m (\<lambda>_. neutral) \<Longrightarrow> (\<And>a. yields_on c_log (f a) (soundWrite k)) \<Longrightarrow>
   yields_on c_log (State_Monad.bind m f) (soundWrite k)"
  by (erule yields_on_bind, rule yields_on_conseq, assumption) (simp add: soundWrite_neutral)

lemma routerWrite_sound:
  "n_servers N \<noteq> 0 \<Longrightarrow> readOnly (recheck opts) \<Longrightarrow> budget opts \<le> 3 \<Longrightarrow>
   yields_on c_log (routerWrite cfg N m i a rd opts) (soundWrite (9 * n_servers N))"
  by (auto simp: routerWrite_def notConfiguredResult_def soundWrite_failed
      intro!: after_neutral_sound neutral_routerArgs retry_sound9)

lemmas clientWrite_defs = clientLiquidate_def clientExecuteOrder_def clientLiquidateCross_def
  clientCheckAdlTrigger_def clientAdlClose_def clientUpdateTrailingPeak_def clientApplyFunding_def
  clientSyncAssetPnl_def clientReconcileOrder_def updateNoeracleBatchPersistent_def
  executeOrderViaRouter_def liquidateViaRouter_def adlCloseViaRouter_def liquidateCrossViaRouter_def

lemma clientWrite_sound:
  "n_servers N \<noteq> 0 \<Longrightarrow> yields_on c_log (clientWrite cfg N c) (soundWrite (9 * n_servers N))"
  by (cases c)
    (auto simp: clientWrite_defs notConfiguredResult_def soundWrite_failed
      intro!: retry_sound9 routerWrite_sound after_neutral_sound neutral_routerAbi)

section \<open>A concrete network\<close>

definition sampleClient :: client where
  "sampleClient = \<lparr>c_log = [], serverIndex = 0, routerAbiV2Memo = None\<rparr>"

definition sampleClientConfig :: client_config where
  "sampleClientConfig = \<lparr>cl_publicKey = ''GKEEPER'', cl_market = ''CMARKET'', cl_noeracle = ''CORACLE'',
     cl_factory = [], cl_router = [], cl_usdc = []\<rparr>"

text \<open>One endpoint that accepts and confirms everything at once.\<close>

definition calmNet :: net where
  "calmNet = \<lparr>n_servers = 1, n_account = (\<lambda>_ _. Inr 41), n_simulate = (\<lambda>_ _ _. Inr (SimDone None)),
     n_send = (\<lambda>_ _ _. Inr (SendPending ''h'')), n_get = (\<lambda>_ _ _. Inr (TxSuccess (Some 5)))\<rparr>"

text \<open>
  One endpoint that accepts every transaction (the account's sequence has advanced after the first) but
  whose first poll fails in transport.
\<close>

definition lossyNet :: net where
  "lossyNet = calmNet\<lparr>
     n_account := (\<lambda>h _. Inr (if h = [] then 41 else 42)),
     n_send := (\<lambda>h _ _. Inr (SendPending (if length h \<le> 3 then ''h1'' else ''h2''))),
     n_get := (\<lambda>h _ _. if length h \<le> 3 then Inl (''fetch failed'', None) else Inr (TxSuccess None))\<rparr>"

section \<open>Properties\<close>



text \<open>C11. A reported success happened: when a write answers success, a transaction of that call was accepted
  by an endpoint under the reported hash, and a poll for that hash reported it final with the reported
  reward.\<close>

theorem write_success_confirmed:
  assumes "n_servers N \<noteq> 0"
  shows "wp (clientWrite cfg N c) (\<lambda>r t. success r \<longrightarrow> (\<exists>h i j tx. txHash r = Some h
     \<and> RpcSend j tx (Inr (SendPending h)) \<in> set (news c_log s t)
     \<and> RpcGet i h (Inr (TxSuccess (reward r))) \<in> set (news c_log s t))) s"
  by (rule wp_mono [OF yields_on_news [OF clientWrite_sound [OF assms]]])
    (auto simp: soundWrite_def confirmed_def wasAccepted_def wasFinal_def)

theorem write_success_witness:
  "\<exists>h i j tx. txHash (fst (run_state (clientWrite sampleClientConfig calmNet (ExecuteOrder 3)) sampleClient)) = Some h
     \<and> RpcSend j tx (Inr (SendPending h)) \<in> set (news c_log sampleClient
          (snd (run_state (clientWrite sampleClientConfig calmNet (ExecuteOrder 3)) sampleClient)))
     \<and> RpcGet i h (Inr (TxSuccess (reward (fst (run_state (clientWrite sampleClientConfig calmNet (ExecuteOrder 3)) sampleClient)))))
         \<in> set (news c_log sampleClient (snd (run_state (clientWrite sampleClientConfig calmNet (ExecuteOrder 3)) sampleClient)))"
proof -
  have "n_servers calmNet \<noteq> 0" by (simp add: calmNet_def)
  moreover have "success (fst (run_state (clientWrite sampleClientConfig calmNet (ExecuteOrder 3)) sampleClient))"
    by code_simp
  ultimately show ?thesis using wp_run [OF write_success_confirmed] by blast
qed

text \<open>Bounded spending: every transaction a write transmits was assembled from a simulation and signed, its
  inclusion fee lies between the base fee and the escalation cap, and one write transmits at most
  nine times per endpoint (three attempts of three transmissions).\<close>

theorem write_spending_bounded:
  assumes "n_servers N \<noteq> 0"
  shows "wp (clientWrite cfg N c) (\<lambda>r t.
     (\<forall>i tx x. RpcSend i tx x \<in> set (news c_log s t) \<longrightarrow>
        tx_ready tx \<and> BASE_INCLUSION_FEE \<le> tx_fee tx \<and> tx_fee tx \<le> MAX_INCLUSION_FEE)
     \<and> length (filter isSend (news c_log s t)) \<le> 9 * n_servers N) s"
  by (rule wp_mono [OF yields_on_news [OF clientWrite_sound [OF assms]]]) (simp add: soundWrite_def)

theorem write_spending_witness:
  "length (filter isSend (news c_log sampleClient (snd (run_state (clientWrite sampleClientConfig lossyNet ApplyFunding) sampleClient)))) \<le> 9
   \<and> length (filter isSend (news c_log sampleClient (snd (run_state (clientWrite sampleClientConfig lossyNet ApplyFunding) sampleClient)))) = 2"
proof
  have "n_servers lossyNet \<noteq> 0" "n_servers lossyNet = 1" by (simp_all add: lossyNet_def calmNet_def)
  with wp_run [OF write_spending_bounded [where N = lossyNet and cfg = sampleClientConfig and c = ApplyFunding and s = sampleClient]]
  show "length (filter isSend (news c_log sampleClient (snd (run_state (clientWrite sampleClientConfig lossyNet ApplyFunding) sampleClient)))) \<le> 9"
    by simp
qed code_simp

text \<open>The blind spot of the retry policy: on a network whose first poll fails in transport after the
  transaction was accepted, one order execution is submitted twice, as two different transactions of the
  same call, without any recheck in between, and success is reported.\<close>

theorem lost_poll_resubmits:
  "\<exists>tx tx'. tx_seq tx \<noteq> tx_seq tx' \<and> tx_call tx = tx_call tx'
     \<and> map (\<lambda>ev. case ev of RpcSend _ t (Inr (SendPending _)) \<Rightarrow> Some t | _ \<Rightarrow> None)
         (filter isSend (c_log (snd (run_state (clientWrite sampleClientConfig lossyNet (ExecuteOrder 3)) sampleClient))))
       = [Some tx', Some tx]
     \<and> list_all (\<lambda>ev. case ev of Rechecked _ \<Rightarrow> False | _ \<Rightarrow> True)
         (c_log (snd (run_state (clientWrite sampleClientConfig lossyNet (ExecuteOrder 3)) sampleClient)))
     \<and> success (fst (run_state (clientWrite sampleClientConfig lossyNet (ExecuteOrder 3)) sampleClient))"
proof -
  let ?call = "contractCall ''CMARKET'' ''execute_order'' [ScAddress ''GKEEPER'', ScU64 3]"
  let ?tx = "assemble (buildTx 41 BASE_INCLUSION_FEE ?call)" and ?tx' = "assemble (buildTx 42 BASE_INCLUSION_FEE ?call)"
  show ?thesis
    by (rule exI [of _ ?tx], rule exI [of _ ?tx']) code_simp
qed

text \<open>The endpoint a request went to.\<close>

fun endpointOf :: "rpc_event \<Rightarrow> nat" where
  "endpointOf (RpcAccount i _) = i"
| "endpointOf (RpcSimulate i _ _) = i"
| "endpointOf (RpcSend i _ _) = i"
| "endpointOf (RpcGet i _ _) = i"
| "endpointOf (Waited _) = 0"
| "endpointOf (Rechecked _) = 0"

text \<open>The endpoints \<open>n\<close> asked from index \<open>i\<close> on: in cyclic order; the one that answered stays current.\<close>

definition rotated :: "nat \<Rightarrow> nat \<Rightarrow> nat \<Rightarrow> bool \<Rightarrow> nat \<Rightarrow> rpc_log \<Rightarrow> bool" where
  "rotated c i k answered i' n \<longleftrightarrow> length n \<le> k
     \<and> map endpointOf (rev n) = map (\<lambda>d. (i + d) mod c) [0..<length n]
     \<and> (answered \<longrightarrow> n \<noteq> [] \<and> i' = endpointOf (hd n))"

lemma rotated_one: "i < c \<Longrightarrow> endpointOf ev = i \<Longrightarrow> rotated c i (Suc k) b i [ev]"
  by (simp add: rotated_def)

lemma rotated_more:
  assumes "rotated c ((i + 1) mod c) k b i' n" "endpointOf ev = i" "i < c"
  shows "rotated c i (Suc k) b i' (n @ [ev])"
proof -
  have "map (\<lambda>d. (i + d) mod c) [0..<Suc j] = i # map (\<lambda>d. ((i + 1) mod c + d) mod c) [0..<j]" for j
    using assms(3) by (subst upt_conv_Cons) (simp_all add: map_Suc_upt [symmetric] mod_simps del: upt_Suc)
  with assms show ?thesis
    by (auto simp: rotated_def simp del: upt_Suc)
qed

lemma rotate_rotated:
  assumes "\<And>i. op i = request (f i) (mk i)" "\<And>i x. endpointOf (mk i x) = i"
  shows "serverIndex s < n_servers N \<Longrightarrow>
    wp (rotateRpc N op k e) (\<lambda>r t. \<exists>n. c_log t = n @ c_log s
      \<and> rotated (n_servers N) (serverIndex s) k (\<not> isl r) (serverIndex t) n) s"
proof (induction k arbitrary: e s)
  case 0
  then show ?case by (simp add: rotated_def)
next
  case (Suc k)
  let ?i = "serverIndex s"
  let ?s = "s\<lparr>c_log := mk ?i (f ?i (c_log s)) # c_log s\<rparr>"
  let ?s' = "?s\<lparr>serverIndex := (?i + 1) mod n_servers N\<rparr>"
  have "n_servers N \<noteq> 0" using Suc.prems by auto
  then have IH: "wp (rotateRpc N op k e) (\<lambda>r t. \<exists>n. c_log t = n @ mk ?i (f ?i (c_log s)) # c_log s
      \<and> rotated (n_servers N) ((?i + 1) mod n_servers N) k (\<not> isl r) (serverIndex t) n) ?s'" for e
    using Suc.IH [of ?s' e] by simp
  have more: "wp (rotateRpc N op k e) (\<lambda>r t. \<exists>n. c_log t = n @ c_log s
      \<and> rotated (n_servers N) ?i (Suc k) (\<not> isl r) (serverIndex t) n) ?s'" for e
  proof (rule wp_mono [OF IH], elim exE conjE)
    fix r t n
    assume n: "c_log t = n @ mk ?i (f ?i (c_log s)) # c_log s"
      "rotated (n_servers N) ((?i + 1) mod n_servers N) k (\<not> isl r) (serverIndex t) n"
    show "\<exists>n. c_log t = n @ c_log s \<and> rotated (n_servers N) ?i (Suc k) (\<not> isl r) (serverIndex t) n"
      by (rule exI [of _ "n @ [mk ?i (f ?i (c_log s))]"]) (simp add: n(1) rotated_more [OF n(2) assms(2) Suc.prems])
  qed
  have one: "wp (op ?i) Q s = Q (map_sum (\<lambda>(m, c). JsError m c) (\<lambda>r. r) (f ?i (c_log s))) ?s" for Q
    by (simp add: assms(1) request_def logRpc_def)
  show ?case
    using Suc.prems more
    by (auto simp: one assms(2) wp_if split: sum.split intro!: exI [of _ "[mk ?i (f ?i (c_log s))]"] rotated_one)
qed

text \<open>Failover: a request asks the endpoints in cyclic order from the current one, none twice; and
  when one answers, it is the last one asked and stays current for the next request.\<close>

theorem failover_in_order:
  assumes "serverIndex s < n_servers N"
  shows "wp (withRpc N (rpcSend N tx)) (\<lambda>r t. \<exists>n. c_log t = n @ c_log s
     \<and> map endpointOf (rev n) = map (\<lambda>d. (serverIndex s + d) mod n_servers N) [0..<length n]
     \<and> distinct (map endpointOf n)
     \<and> (\<not> isl r \<longrightarrow> n \<noteq> [] \<and> serverIndex t = endpointOf (hd n))) s"
proof -
  have dist: "distinct (map endpointOf n)"
    if "map endpointOf (rev n) = map (\<lambda>d. (serverIndex s + d) mod n_servers N) [0..<length n]"
      "length n \<le> n_servers N" for n
  proof -
    have "inj_on (\<lambda>d. (serverIndex s + d) mod n_servers N) {0..<length n}"
    proof (rule inj_onI, goal_cases)
      case (1 x y)
      moreover have "(serverIndex s + d) mod n_servers N
          = (if serverIndex s + d < n_servers N then serverIndex s + d else serverIndex s + d - n_servers N)"
        if "d < n_servers N" for d
        using that assms by (simp add: le_mod_geq)
      ultimately show ?case using that(2) by (simp split: if_splits)
    qed
    then have "distinct (map endpointOf (rev n))" unfolding that(1) by (simp add: distinct_map)
    then show ?thesis by (simp add: rev_map [symmetric])
  qed
  show ?thesis
    unfolding withRpc_def
    by (rule wp_mono [OF rotate_rotated [where f = "\<lambda>i h. n_send N h i tx" and mk = "\<lambda>i. RpcSend i tx"]])
      (auto simp: rpcSend_def rotated_def assms dist)
qed

theorem failover_witness:
  "let N = calmNet\<lparr>n_servers := 3,
       n_send := (\<lambda>h i tx. if i = 1 then Inr (SendPending ''h'') else Inl (''fetch failed'', None))\<rparr>;
     s = sampleClient\<lparr>serverIndex := 2\<rparr>;
     t = snd (run_state (withRpc N (rpcSend N (buildTx 0 READ_FEE (contractCall [] [] [])))) s)
   in map endpointOf (c_log t) = [1, 0, 2] \<and> distinct (map endpointOf (c_log t)) \<and> serverIndex t = 1"
proof -
  let ?N = "calmNet\<lparr>n_servers := 3,
       n_send := (\<lambda>h i tx. if i = 1 then Inr (SendPending ''h'') else Inl (''fetch failed'', None))\<rparr>"
  let ?s = "sampleClient\<lparr>serverIndex := 2\<rparr>"
  let ?p = "withRpc ?N (rpcSend ?N (buildTx 0 READ_FEE (contractCall [] [] [])))"
  have "serverIndex ?s < n_servers ?N" by simp
  from wp_run [OF failover_in_order [OF this, where tx = "buildTx 0 READ_FEE (contractCall [] [] [])"]]
  have "distinct (map endpointOf (c_log (snd (run_state ?p ?s))))"
    by (auto simp: sampleClient_def)
  moreover have "map endpointOf (c_log (snd (run_state ?p ?s))) = [1, 0, 2]" "serverIndex (snd (run_state ?p ?s)) = 1"
    by code_simp+
  ultimately show ?thesis unfolding Let_def by blast
qed

text \<open>A business rejection is final: when the simulation of a write answers an error the contract
  reserves for business rules, the client gives up at once with that error: it made one account
  read and one simulation, transmitted nothing, and used none of its remaining attempts.\<close>

theorem business_rejection_final:
  assumes "budget opts \<noteq> 0" "n_servers N \<noteq> 0"
    and "\<And>h i. \<exists>seq. n_account N h i = Inr seq"
    and "\<And>h i tx. tx_call tx = call \<Longrightarrow> n_simulate N h i tx = Inr (SimFailed m)"
    and "isNonRetryableContractError (''Simulation failed: '' @ m)"
  shows "wp (invokeContractWriteWithRetry N call opts) (\<lambda>r t.
     r = failedResult (Some (''Simulation failed: '' @ m))
     \<and> (\<exists>seq tx. c_log t = [RpcSimulate (serverIndex s) tx (Inr (SimFailed m)), RpcAccount (serverIndex s) (Inr seq)] @ c_log s
          \<and> tx_call tx = call \<and> tx_seq tx = seq + 1)) s"
proof -
  obtain j where j: "budget opts = Suc j" using assms(1) by (cases "budget opts") auto
  obtain c where c: "n_servers N = Suc c" using assms(2) by (cases "n_servers N") auto
  obtain seq where seq: "n_account N (c_log s) (serverIndex s) = Inr seq" using assms(3) by blast
  have call: "tx_call (buildTx seq fee call) = call" "tx_seq (buildTx seq fee call) = seq + 1" for fee
    by (simp_all add: buildTx_def)
  show ?thesis
    using assms(5)
    by (simp add: invokeContractWriteWithRetry_def j invokeContractWrite_def wp_bindE getAccount_def
        withRpc_def c rpc_defs seq assms(4) call)
qed

theorem business_rejection_witness:
  "let N = calmNet\<lparr>n_simulate := (\<lambda>_ _ _. Inr (SimFailed ''Error(Contract, #62)''))\<rparr>
   in fst (run_state (clientWrite sampleClientConfig N ApplyFunding) sampleClient)
        = failedResult (Some ''Simulation failed: Error(Contract, #62)'')
      \<and> length (c_log (snd (run_state (clientWrite sampleClientConfig N ApplyFunding) sampleClient))) = 2"
proof -
  let ?N = "calmNet\<lparr>n_simulate := (\<lambda>_ _ _. Inr (SimFailed ''Error(Contract, #62)''))\<rparr>"
  have "isNonRetryableContractError (''Simulation failed: '' @ ''Error(Contract, #62)'')" by code_simp
  from business_rejection_final [OF _ _ _ _ this, where N = ?N and opts = plainWrite and s = sampleClient
      and call = "contractCall ''CMARKET'' ''apply_funding'' []"]
  have "wp (clientWrite sampleClientConfig ?N ApplyFunding) (\<lambda>r t.
      r = failedResult (Some ''Simulation failed: Error(Contract, #62)'') \<and> length (c_log t) = 2) sampleClient"
    by (auto simp: calmNet_def clientApplyFunding_def sampleClientConfig_def sampleClient_def elim!: wp_mono)
  then show ?thesis unfolding Let_def by (rule wp_run)
qed

end
