(* ===== verification/KeeperClient.thy ===== *)
theory KeeperClient
  imports KeeperRun StellarClient
begin

text \<open>
  Properties that join the keeper (\<open>scripts/keeper/src/index.ts\<close>) with the client it calls
  (\<open>scripts/keeper/src/stellar.ts\<close>): a preview is of the very call submitted, and the batch the keeper
  chooses is one the client accepts.
\<close>

section \<open>Previews and submissions\<close>

definition onlySimulates :: "contract_call \<Rightarrow> rpc_event \<Rightarrow> bool" where
  "onlySimulates call ev \<longleftrightarrow> (case ev of RpcSimulate _ tx _ \<Rightarrow> tx_call tx = call | _ \<Rightarrow> False)"

definition sendsOnly :: "contract_call \<Rightarrow> rpc_event \<Rightarrow> bool" where
  "sendsOnly call ev \<longleftrightarrow> (case ev of RpcSend _ tx _ \<Rightarrow> tx_call tx = call | _ \<Rightarrow> True)"

lemma simulated_call: "yields_on c_log (simulateContract N call) (\<lambda>_. list_all (onlySimulates call))"
  unfolding simulateContract_def rpcSimulate_def
  by (rule yields_on_only)
    (auto intro!: keeps_intros keeps_only_withRpc keeps_only_request simp: buildTx_def onlySimulates_def)

lemma retried_call:
  assumes "readOnly (recheck opts)"
  shows "yields_on c_log (invokeContractWriteWithRetry N call opts) (\<lambda>_. list_all (sendsOnly call))"
  unfolding invokeContractWriteWithRetry_def
  by (rule yields_on_conseq [OF only_attempts [OF assms subset_refl]])
    (auto simp: list_all_iff sends_def sendsOnly_def split: rpc_event.split)

text \<open>The contract call behind a direct (not routed) keeper write.\<close>

fun directCall :: "client_config \<Rightarrow> write_call \<Rightarrow> contract_call option" where
  "directCall cfg (Liquidate i) =
     Some (contractCall (cl_market cfg) ''liquidate'' [ScAddress (cl_publicKey cfg), ScU64 (int i)])"
| "directCall cfg (ExecuteOrder i) =
     Some (contractCall (cl_market cfg) ''execute_order'' [ScAddress (cl_publicKey cfg), ScU64 (int i)])"
| "directCall cfg (UpdateTrailingPeak i) = Some (contractCall (cl_market cfg) ''update_trailing_peak'' [ScU64 (int i)])"
| "directCall cfg _ = None"

text \<open>What is previewed is what is submitted: for a direct liquidation, order execution or trailing
  update, the preview sends out nothing but simulations of one contract call, and every transaction
  the submission transmits carries that same call, whatever the endpoints answer.\<close>

theorem preview_is_the_submitted_call:
  assumes "directCall cfg c = Some call" "preview c = Some (k, V)"
  shows "wp (clientSimulate cfg N k) (\<lambda>_ t. list_all (onlySimulates call) (news c_log s t)) s
     \<and> wp (clientWrite cfg N c) (\<lambda>_ t. list_all (sendsOnly call) (news c_log u t)) u"
proof -
  have "yields_on c_log (clientSimulate cfg N k) (\<lambda>_. list_all (onlySimulates call))"
    using assms by (cases c) (auto simp: simulateLiquidate_def simulateExecuteOrder_def
      simulateUpdateTrailingPeak_def simulated_call)
  moreover have "yields_on c_log (clientWrite cfg N c) (\<lambda>_. list_all (sendsOnly call))"
    using assms(1) by (cases c) (auto simp: clientWrite_defs intro!: retried_call)
  ultimately show ?thesis by (intro conjI yields_on_news)
qed

theorem preview_call_witness:
  "let s = snd (run_state (clientSimulate sampleClientConfig calmNet (SimLiquidate 7)) sampleClient);
       t = snd (run_state (clientWrite sampleClientConfig calmNet (Liquidate 7)) sampleClient);
       call = contractCall ''CMARKET'' ''liquidate'' [ScAddress ''GKEEPER'', ScU64 7]
   in c_log s \<noteq> [] \<and> list_all (onlySimulates call) (c_log s)
      \<and> list_ex isSend (c_log t) \<and> list_all (sendsOnly call) (c_log t)"
proof -
  let ?call = "contractCall ''CMARKET'' ''liquidate'' [ScAddress ''GKEEPER'', ScU64 7]"
  have "directCall sampleClientConfig (Liquidate 7) = Some ?call" "preview (Liquidate 7) = Some (SimLiquidate 7, UNIV)"
    by (simp_all add: sampleClientConfig_def)
  note both = preview_is_the_submitted_call [OF this, where s = sampleClient and u = sampleClient and N = calmNet]
  have "list_ex isSend (c_log (snd (run_state (clientWrite sampleClientConfig calmNet (Liquidate 7)) sampleClient)))"
    by code_simp
  moreover have "c_log (snd (run_state (clientSimulate sampleClientConfig calmNet (SimLiquidate 7)) sampleClient)) \<noteq> []"
    by code_simp
  ultimately show ?thesis
    using wp_run [OF conjunct1 [OF both]] wp_run [OF conjunct2 [OF both]]
    by (simp add: news_def sampleClient_def Let_def)
qed

section \<open>The batch the keeper pushes\<close>

text \<open>The keeper never hands the client a batch it refuses: a batch chosen from eligible attestations
  is not empty and mixes neither rounds nor publishers, so the push goes on to the endpoints.\<close>

theorem chosen_batch_is_accepted:
  assumes "eligible \<noteq> []"
  shows "updateNoeracleBatchPersistent cfg N (selectBatch eligible) =
     invokeContractWriteWithRetry N (contractCall (cl_noeracle cfg) ''update_batch_ed25519_persistent''
       (batchArgs (selectBatch eligible))) plainWrite"
proof -
  obtain a where "a \<in> set eligible" "selectBatch eligible = roundGroup eligible (roundKey a)"
    using selectBatch_group [OF assms] by blast
  then have ne: "selectBatch eligible \<noteq> []" and "\<forall>b \<in> set (selectBatch eligible). roundKey b = roundKey a"
    by (auto simp: roundGroup_def filter_empty_conv)
  then have "\<forall>b \<in> set (selectBatch eligible). roundKey b = roundKey (hd (selectBatch eligible))"
    using hd_in_set [OF ne] by metis
  then have "\<not> mixedRounds (selectBatch eligible)"
    by (auto simp: mixedRounds_def list_ex_iff roundKey_def)
  with ne show ?thesis by (simp add: updateNoeracleBatchPersistent_def)
qed

theorem chosen_batch_witness:
  "let old = sampleRound\<lparr>a_round_id := 3, a_asset := ''BTC/USD''\<rparr>
   in updateNoeracleBatchPersistent sampleClientConfig calmNet (selectBatch [old, sampleRound]) =
     invokeContractWriteWithRetry calmNet (contractCall (cl_noeracle sampleClientConfig) ''update_batch_ed25519_persistent''
       (batchArgs [sampleRound])) plainWrite
      \<and> updateNoeracleBatchPersistent sampleClientConfig calmNet [old, sampleRound]
        = ret (failedResult (Some ''attestation batch mixes rounds or publishers''))"
proof -
  let ?old = "sampleRound\<lparr>a_round_id := 3, a_asset := ''BTC/USD''\<rparr>"
  have "selectBatch [?old, sampleRound] = [sampleRound]" by code_simp
  with chosen_batch_is_accepted [of "[?old, sampleRound]" sampleClientConfig calmNet]
  show ?thesis
    by (simp add: updateNoeracleBatchPersistent_def mixedRounds_def sampleRound_def)
qed

end
