(* ===== verification/StorkFrame.thy ===== *)
theory StorkFrame
  imports ScArgs JsString "HOL-Library.Word"
begin

text \<open>
  Signed Stork Fast payloads (\<open>scripts/keeper/src/storkFast.ts\<close>): the binary layout (65 bytes of
  signature, a 16-bit taxonomy, a 64-bit timestamp, then 18-byte entries of a 16-bit asset id and a
  128-bit signed price, all big-endian) and its parser. Bytes are numbers below 256; \<open>Number(v) / 1e18\<close>
  is the exact quotient. The signature is checked by the router contract, not here.
\<close>

unbundle bit_operations_syntax

section \<open>Definitions\<close>

definition STORK_DEFAULT_ID_SYMBOLS :: "(nat \<times> string) list" where
  "STORK_DEFAULT_ID_SYMBOLS =
     [(3, ''BTC''), (4, ''ETH''), (6, ''ADA''), (11, ''BCH''), (12, ''BNB''), (14, ''DOGE''), (19, ''HYPE''),
      (21, ''LINK''), (22, ''LTC''), (32, ''TRX''), (38, ''XRP''), (39, ''ZEC''), (40, ''SOL'')]"

definition HEADER_LEN :: nat where "HEADER_LEN = 65 + 2 + 8"
definition ENTRY_LEN :: nat where "ENTRY_LEN = 18"

record fast_frame =
  payloadHex :: string
  taxonomy :: nat
  timestampNs :: nat
  entries :: "(nat, rat) jmap"
  receivedAt :: int

text \<open>\<open>readUInt16BE\<close>, \<open>readBigUInt64BE\<close> and \<open>BigInt('0x...')\<close>: big-endian.\<close>

definition fromBE :: "nat list \<Rightarrow> nat" where
  "fromBE bs = foldl (\<lambda>n b. 256 * n + b) 0 bs"

definition readBE :: "nat list \<Rightarrow> nat \<Rightarrow> nat \<Rightarrow> nat" where
  "readBE buf off k = fromBE (take k (drop off buf))"

definition i128be :: "nat list \<Rightarrow> int" where
  "i128be bytes = (if bytes ! 0 AND 0x80 \<noteq> 0 then int (fromBE bytes) - 2 ^ 128 else int (fromBE bytes))"

definition i128beToHuman :: "nat list \<Rightarrow> rat" where
  "i128beToHuman bytes = of_int (i128be bytes) / 10 ^ 18"

text \<open>The loop over the entries; the caller has checked that the rest is a whole number of entries.\<close>

function readEntries :: "nat list \<Rightarrow> nat \<Rightarrow> (nat, rat) jmap \<Rightarrow> (nat, rat) jmap" where
  "readEntries buf off m =
     (if off < length buf
      then readEntries buf (off + ENTRY_LEN)
             (jset (readBE buf off 2) (i128beToHuman (take 16 (drop (off + 2) buf))) m)
      else m)"
  by pat_completeness auto
termination
  by (relation "measure (\<lambda>(buf, off, m). length buf - off)") (auto simp: ENTRY_LEN_def)

declare readEntries.simps [simp del]

definition stripHexPrefix :: "string \<Rightarrow> string" where
  "stripHexPrefix h = (if starts_with ''0x'' h \<or> starts_with ''0X'' h then drop 2 h else h)"

definition parseFastPayload :: "string \<Rightarrow> int \<Rightarrow> string + fast_frame" where
  "parseFastPayload h t =
     (let clean = stripHexPrefix h; buf = hexBytes clean
      in if length buf * 2 \<noteq> length clean then Inl ''payload is not valid hex''
         else if length buf < HEADER_LEN + ENTRY_LEN \<or> (length buf - HEADER_LEN) mod ENTRY_LEN \<noteq> 0
         then Inl (''malformed payload length '' @ show_nat (length buf))
         else Inr \<lparr>payloadHex = hexString buf, taxonomy = readBE buf 65 2, timestampNs = readBE buf 67 8,
                   entries = readEntries buf HEADER_LEN [], receivedAt = t\<rparr>)"

section \<open>The publisher's encoding\<close>

primrec toBE :: "nat \<Rightarrow> nat \<Rightarrow> nat list" where
  "toBE 0 n = []"
| "toBE (Suc k) n = toBE k (n div 256) @ [n mod 256]"

definition encodeI128 :: "int \<Rightarrow> nat list" where
  "encodeI128 v = toBE 16 (nat (v mod 2 ^ 128))"

definition encodeEntry :: "nat \<times> int \<Rightarrow> nat list" where
  "encodeEntry p = toBE 2 (fst p) @ encodeI128 (snd p)"

definition encodePayload :: "nat list \<Rightarrow> nat \<Rightarrow> nat \<Rightarrow> (nat \<times> int) list \<Rightarrow> nat list" where
  "encodePayload sig tax ts es =
     sig @ toBE 2 tax @ toBE 8 ts @ concat (map encodeEntry es)"

section \<open>Lemmas\<close>

lemma fromBE_snoc [simp]: "fromBE (bs @ [b]) = 256 * fromBE bs + b"
  by (simp add: fromBE_def)

lemma length_toBE [simp]: "length (toBE k n) = k"
  by (induction k arbitrary: n) simp_all

lemma toBE_bytes [simp]: "list_all (\<lambda>b. b < 256) (toBE k n)"
  by (induction k arbitrary: n) simp_all

lemma fromBE_toBE: "n < 256 ^ k \<Longrightarrow> fromBE (toBE k n) = n"
proof (induction k arbitrary: n)
  case 0
  then show ?case by (simp add: fromBE_def)
next
  case (Suc k)
  then have "n div 256 < 256 ^ k" by (simp add: less_mult_imp_div_less mult.commute)
  with Suc.IH show ?case by simp
qed

lemma fromBE_bound: "list_all (\<lambda>b. b < 256) bs \<Longrightarrow> fromBE bs < 256 ^ length bs"
proof (induction bs rule: rev_induct)
  case Nil
  then show ?case by (simp add: fromBE_def)
next
  case (snoc b bs)
  then have "fromBE bs + 1 \<le> 256 ^ length bs" "b < 256" by auto
  then have "256 * (fromBE bs + 1) \<le> 256 * 256 ^ length bs" by (intro mult_le_mono2)
  with \<open>b < 256\<close> show ?case by simp
qed

lemma fromBE_Cons: "fromBE (b # bs) = b * 256 ^ length bs + fromBE bs"
proof (induction bs rule: rev_induct)
  case Nil
  then show ?case by (simp add: fromBE_def)
next
  case (snoc c bs)
  have "fromBE (b # bs @ [c]) = 256 * fromBE (b # bs) + c" using fromBE_snoc [of "b # bs" c] by simp
  with snoc show ?case by (simp add: algebra_simps)
qed

lemma high_bit: "b < 256 \<Longrightarrow> b AND 0x80 \<noteq> 0 \<longleftrightarrow> 128 \<le> (b :: nat)"
proof -
  assume b: "b < 256"
  have "b AND 2 ^ 7 \<noteq> 0 \<longleftrightarrow> bit b 7" by (simp only: and_exp_eq_0_iff_not_bit not_not)
  also have "\<dots> \<longleftrightarrow> odd (b div 128)" by (simp add: bit_iff_odd)
  also have "\<dots> \<longleftrightarrow> 128 \<le> b"
  proof (cases "128 \<le> b")
    case True
    with b have "b div 128 = 1" by simp
    with True show ?thesis by simp
  qed simp
  finally show ?thesis by simp
qed

lemma i128be_eq:
  assumes "length bs = 16" "list_all (\<lambda>b. b < 256) bs"
  shows "i128be bs = (if 2 ^ 127 \<le> fromBE bs then int (fromBE bs) - 2 ^ 128 else int (fromBE bs))"
proof -
  obtain c cs where bs: "bs = c # cs" "length cs = 15" using assms(1) by (cases bs) auto
  have cs: "fromBE cs < 256 ^ 15" using fromBE_bound [of cs] assms(2) bs by simp
  have "fromBE bs = c * 256 ^ 15 + fromBE cs" using bs by (simp add: fromBE_Cons)
  with cs have "2 ^ 127 \<le> fromBE bs \<longleftrightarrow> 128 \<le> c"
    by (cases "128 \<le> c") (auto simp: not_le)
  moreover have "c AND 0x80 \<noteq> 0 \<longleftrightarrow> 128 \<le> c" using high_bit assms(2) bs by simp
  ultimately show ?thesis by (simp add: i128be_def bs(1))
qed

lemma encodeI128_bytes [simp]: "length (encodeI128 v) = 16" "list_all (\<lambda>b. b < 256) (encodeI128 v)"
  by (simp_all add: encodeI128_def del: toBE.simps)

lemma i128be_encode: "- (2 ^ 127) \<le> v \<Longrightarrow> v < 2 ^ 127 \<Longrightarrow> i128be (encodeI128 v) = v"
proof -
  assume v: "- (2 ^ 127) \<le> v" "v < 2 ^ 127"
  have "nat (v mod 2 ^ 128) < 256 ^ 16" by (simp add: nat_less_iff)
  then have n: "fromBE (encodeI128 v) = nat (v mod 2 ^ 128)"
    unfolding encodeI128_def by (rule fromBE_toBE)
  have "v mod 2 ^ 128 = (if v < 0 then v + 2 ^ 128 else v)"
  proof (cases "v < 0")
    case True
    then have "(v + 2 ^ 128) mod 2 ^ 128 = v + 2 ^ 128" using v by (intro mod_pos_pos_trivial) auto
    with True show ?thesis by simp
  next
    case False
    then show ?thesis using v by simp
  qed
  with v show ?thesis
    by (subst i128be_eq) (auto simp: n nat_le_iff le_nat_iff)
qed

text \<open>Reading a field of a concatenation.\<close>

lemma readBE_skip: "readBE (xs @ ys) (length xs + off) k = readBE ys off k"
  by (simp add: readBE_def)

lemma readBE_here: "length xs = k \<Longrightarrow> readBE (xs @ ys) 0 k = fromBE xs"
  by (simp add: readBE_def)

lemma length_encodeEntry [simp]: "length (encodeEntry p) = ENTRY_LEN"
  by (simp add: encodeEntry_def ENTRY_LEN_def del: toBE.simps)

definition validEntry :: "nat \<times> int \<Rightarrow> bool" where
  "validEntry p \<longleftrightarrow> fst p < 2 ^ 16 \<and> - (2 ^ 127) \<le> snd p \<and> snd p < 2 ^ 127"

definition humanEntry :: "nat \<times> int \<Rightarrow> nat \<times> rat" where
  "humanEntry p = (fst p, of_int (snd p) / 10 ^ 18)"

lemma readEntries_encoded:
  assumes "\<forall>p \<in> set es. validEntry p" "distinct (jkeys m @ map fst es)"
  shows "readEntries (pre @ concat (map encodeEntry es)) (length pre) m = m @ map humanEntry es"
  using assms
proof (induction es arbitrary: pre m)
  case Nil
  then show ?case by (simp add: readEntries.simps)
next
  case (Cons p es)
  let ?buf = "pre @ concat (map encodeEntry (p # es))"
  have id: "readBE ?buf (length pre) 2 = fst p"
    using Cons.prems(1) by (simp add: readBE_def encodeEntry_def fromBE_toBE validEntry_def del: toBE.simps)
  have "take 16 (drop (length pre + 2) ?buf) = encodeI128 (snd p)"
    by (simp add: encodeEntry_def del: toBE.simps)
  then have v: "i128beToHuman (take 16 (drop (length pre + 2) ?buf)) = of_int (snd p) / 10 ^ 18"
    using Cons.prems(1) by (simp add: i128beToHuman_def i128be_encode validEntry_def)
  have "readEntries ?buf (length pre) m
      = readEntries ?buf (length pre + ENTRY_LEN) (jset (fst p) (of_int (snd p) / 10 ^ 18) m)"
  proof -
    have "length pre < length ?buf" by (simp add: ENTRY_LEN_def)
    then show ?thesis by (subst readEntries.simps) (simp only: id v if_True)
  qed
  also have "\<dots> = readEntries ((pre @ encodeEntry p) @ concat (map encodeEntry es)) (length (pre @ encodeEntry p))
      (m @ [humanEntry p])"
    using Cons.prems(2) by (simp add: jset_new humanEntry_def)
  also have "\<dots> = m @ map humanEntry (p # es)"
    using Cons.prems by (subst Cons.IH) (auto simp: jkeys_def humanEntry_def)
  finally show ?case .
qed

lemma length_encodePayload:
  "length sig = 65 \<Longrightarrow> length (encodePayload sig tax ts es) = HEADER_LEN + ENTRY_LEN * length es"
  by (induction es) (simp_all add: encodePayload_def HEADER_LEN_def ENTRY_LEN_def encodeEntry_def del: toBE.simps)

lemma length_hexString [simp]: "length (hexString bs) = 2 * length bs"
  by (induction bs) (simp_all add: hexString_def)

lemma strip_hexString [simp]:
  "stripHexPrefix (CHR ''0'' # CHR ''x'' # s) = s"
  by (simp add: stripHexPrefix_def starts_with_def)

lemma readEntries_nonempty: "m \<noteq> [] \<Longrightarrow> readEntries buf off m \<noteq> []"
  by (induction buf off m rule: readEntries.induct)
    (subst readEntries.simps, auto simp: jset_def neq_Nil_conv split: if_splits)

lemma parse_encoded:
  assumes "length sig = 65" "list_all (\<lambda>b. b < 256) sig" "tax < 2 ^ 16" "ts < 2 ^ 64"
    and "es \<noteq> []" "distinct (map fst es)" "\<forall>p \<in> set es. validEntry p"
  shows "parseFastPayload (''0x'' @ hexString (encodePayload sig tax ts es)) t =
    Inr \<lparr>payloadHex = hexString (encodePayload sig tax ts es), taxonomy = tax, timestampNs = ts,
         entries = map humanEntry es, receivedAt = t\<rparr>"
proof -
  let ?buf = "encodePayload sig tax ts es"
  have buf: "?buf = (sig @ toBE 2 tax @ toBE 8 ts) @ concat (map encodeEntry es)"
    by (simp add: encodePayload_def)
  have "list_all (\<lambda>b. b < 256) (concat (map encodeEntry es))"
    by (induction es) (simp_all add: encodeEntry_def del: toBE.simps)
  then have bytes: "list_all (\<lambda>b. b < 256) ?buf"
    using assms(2) by (simp add: buf del: toBE.simps)
  have len: "length ?buf = HEADER_LEN + ENTRY_LEN * length es" by (rule length_encodePayload [OF assms(1)])
  have "readBE ?buf 65 2 = tax"
    using assms(1,3) by (simp add: buf readBE_def fromBE_toBE del: toBE.simps)
  moreover have "readBE ?buf 67 8 = ts"
    using assms(1,4) by (simp add: buf readBE_def fromBE_toBE del: toBE.simps)
  moreover have "readEntries ?buf HEADER_LEN [] = map humanEntry es"
    using readEntries_encoded [OF assms(7), of "[]" "sig @ toBE 2 tax @ toBE 8 ts"] assms(1,6)
    by (simp add: buf HEADER_LEN_def jkeys_def del: toBE.simps)
  ultimately show ?thesis
    using assms(5) by (simp add: parseFastPayload_def Let_def hexBytes_hexString [OF bytes] len not_less Suc_le_eq)
qed

section \<open>Properties\<close>

text \<open>Payload round trip: a payload the publisher encodes from a 65-byte signature, a taxonomy, a
  timestamp and entries with distinct ids parses back to exactly those, every price divided by
  \<open>10^18\<close>, and the frame keeps the signed bytes themselves for the relay.\<close>

theorem payload_roundtrip:
  assumes "length sig = 65" "list_all (\<lambda>b. b < 256) sig" "tax < 2 ^ 16" "ts < 2 ^ 64"
    and "es \<noteq> []" "distinct (map fst es)" "\<forall>p \<in> set es. validEntry p"
  shows "parseFastPayload (''0x'' @ hexString (encodePayload sig tax ts es)) t =
    Inr \<lparr>payloadHex = hexString (encodePayload sig tax ts es), taxonomy = tax, timestampNs = ts,
         entries = map humanEntry es, receivedAt = t\<rparr>"
  using assms by (rule parse_encoded)

theorem payload_roundtrip_witness:
  "parseFastPayload (''0x'' @ hexString (encodePayload (replicate 65 7) 1 5 [(3, -2 * 10 ^ 18), (4, 10 ^ 18)])) 9 =
    Inr \<lparr>payloadHex = hexString (encodePayload (replicate 65 7) 1 5 [(3, -2 * 10 ^ 18), (4, 10 ^ 18)]),
         taxonomy = 1, timestampNs = 5, entries = [(3, -2), (4, 1)], receivedAt = 9\<rparr>"
proof -
  have "list_all (\<lambda>b. b < 256) (replicate 65 (7::nat))" by (simp add: list_all_iff)
  moreover have "\<forall>p \<in> set [(3, -2 * 10 ^ 18), (4, 10 ^ 18)]. validEntry p" by (simp add: validEntry_def)
  moreover have "map humanEntry [(3, -2 * 10 ^ 18), (4, 10 ^ 18)] = [(3, -2), (4, 1)]" by (simp add: humanEntry_def)
  ultimately show ?thesis
    using payload_roundtrip [of "replicate 65 7" 1 5 "[(3, -2 * 10 ^ 18), (4, 10 ^ 18)]" 9] by simp
qed

text \<open>Prices are two's complement: the parser's explicit sign branch reads any sixteen bytes as the
  signed value of the 128-bit machine word they spell, so no input wraps.\<close>

theorem price_is_signed_word:
  assumes "length bs = 16" "list_all (\<lambda>b. b < 256) bs"
  shows "i128be bs = sint (word_of_nat (fromBE bs) :: 128 word)"
proof -
  have n: "fromBE bs < 2 ^ 128" using fromBE_bound [OF assms(2)] assms(1) by simp
  have "sint (word_of_nat (fromBE bs) :: 128 word) = signed_take_bit 127 (int (fromBE bs))"
    by (simp add: signed_of_nat)
  also have "\<dots> = (if 2 ^ 127 \<le> fromBE bs then int (fromBE bs) - 2 ^ 128 else int (fromBE bs))"
  proof (cases "2 ^ 127 \<le> fromBE bs")
    case True
    have "(int (fromBE bs) + 2 ^ 127) mod 2 ^ 128 = (int (fromBE bs) + 2 ^ 127 - 2 ^ 128) mod 2 ^ 128"
      by (simp only: minus_mod_self2)
    also have "\<dots> = int (fromBE bs) + 2 ^ 127 - 2 ^ 128" using n True by (intro mod_pos_pos_trivial) auto
    finally show ?thesis using True by (simp add: signed_take_bit_eq_take_bit_shift take_bit_eq_mod)
  next
    case False
    then have "(int (fromBE bs) + 2 ^ 127) mod 2 ^ 128 = int (fromBE bs) + 2 ^ 127" by (intro mod_pos_pos_trivial) auto
    with False show ?thesis by (simp add: signed_take_bit_eq_take_bit_shift take_bit_eq_mod)
  qed
  finally show ?thesis by (simp only: i128be_eq [OF assms])
qed

theorem price_is_signed_word_witness:
  "sint (word_of_nat (fromBE [255, 255, 255, 255, 255, 255, 255, 255, 255, 255, 255, 255, 255, 255, 255, 254]) :: 128 word) = -2"
  using price_is_signed_word [of "[255, 255, 255, 255, 255, 255, 255, 255, 255, 255, 255, 255, 255, 255, 255, 254]"]
  by (simp add: i128be_eq fromBE_def)

text \<open>Malformed payloads are refused, never misread: parsing fails exactly when the text is not whole
  hexadecimal bytes or the bytes are not a header followed by one or more whole entries, and a frame
  always carries at least one price.\<close>

theorem payload_errors:
  "(isl (parseFastPayload h t) \<longleftrightarrow>
      length (hexBytes (stripHexPrefix h)) * 2 \<noteq> length (stripHexPrefix h)
      \<or> (\<nexists>k. k > 0 \<and> length (hexBytes (stripHexPrefix h)) = HEADER_LEN + k * ENTRY_LEN))
   \<and> (case parseFastPayload h t of Inl _ \<Rightarrow> True | Inr f \<Rightarrow> entries f \<noteq> [])"
proof -
  let ?n = "length (hexBytes (stripHexPrefix h))"
  have shape: "(?n < HEADER_LEN + ENTRY_LEN \<or> (?n - HEADER_LEN) mod ENTRY_LEN \<noteq> 0) = (\<nexists>k. k > 0 \<and> ?n = HEADER_LEN + k * ENTRY_LEN)"
    unfolding HEADER_LEN_def ENTRY_LEN_def by presburger
  have "entries f \<noteq> []" if "parseFastPayload h t = Inr f" for f
    using that shape
    by (auto simp: parseFastPayload_def Let_def readEntries.simps [of _ HEADER_LEN] ENTRY_LEN_def jset_def
        readEntries_nonempty split: if_splits)
  with shape show ?thesis
    by (auto simp: parseFastPayload_def Let_def split: sum.split)
qed

end
