(* ===== verification/StorkFeed.thy ===== *)
theory StorkFeed
  imports StorkFrame
begin

text \<open>
  The Stork price feed of the keeper: the price cache of \<open>scripts/keeper/src/stork.ts\<close> and the
  reconnecting WebSocket client of \<open>scripts/keeper/src/storkFast.ts\<close> as a state machine. The socket
  library is outside: \<open>sockets\<close> counts the connections it holds that have not reported \<open>close\<close> yet and
  \<open>timers\<close> the pending \<open>setTimeout\<close>s of the client; a connection reports \<open>close\<close> once. Constructing a
  socket may throw. The frame callback (\<open>onFrame\<close>) is the keeper's: it feeds the cache.
\<close>

section \<open>Definitions: the price cache\<close>

record stork_entry =
  se_price :: rat
  se_fetchedAt :: int

record stork_cache =
  sc_cache :: "(string, stork_entry) jmap"
  sc_consecutiveFailures :: nat
  sc_lastSuccessAt :: int
  sc_lastErrorMessage :: string

definition clearStorkCache :: stork_cache where
  "clearStorkCache = \<lparr>sc_cache = [], sc_consecutiveFailures = 0, sc_lastSuccessAt = 0, sc_lastErrorMessage = []\<rparr>"

definition storkEnabled :: "string \<Rightarrow> bool" where
  "storkEnabled storkApiKey \<longleftrightarrow> length storkApiKey > 0"

definition ingestStorkPrice :: "string \<Rightarrow> jsnum \<Rightarrow> int \<Rightarrow> stork_cache \<Rightarrow> stork_cache" where
  "ingestStorkPrice symbol price t c =
     (case price of
        Num p \<Rightarrow>
          if p \<le> 0 then c
          else c\<lparr>sc_cache := jset symbol \<lparr>se_price = p, se_fetchedAt = t\<rparr> (sc_cache c),
                 sc_consecutiveFailures := 0, sc_lastSuccessAt := t, sc_lastErrorMessage := []\<rparr>
      | _ \<Rightarrow> c)"

definition lookupStorkPrice :: "string \<Rightarrow> int \<Rightarrow> int \<Rightarrow> stork_cache \<Rightarrow> rat option" where
  "lookupStorkPrice symbol maxAgeMs t c =
     (case map_of (sc_cache c) symbol of
        None \<Rightarrow> None
      | Some e \<Rightarrow> if t - se_fetchedAt e > maxAgeMs then None else Some (se_price e))"

record stork_status =
  ss_enabled :: bool
  ss_lastSuccessAt :: "int option"
  ss_consecutiveFailures :: nat
  ss_lastError :: "string option"
  ss_prices :: "(string, rat \<times> int) jmap"

definition getStorkStatus :: "string \<Rightarrow> int \<Rightarrow> stork_cache \<Rightarrow> stork_status" where
  "getStorkStatus storkApiKey t c =
     \<lparr>ss_enabled = storkEnabled storkApiKey,
      ss_lastSuccessAt = (if sc_lastSuccessAt c = 0 then None else Some (sc_lastSuccessAt c)),
      ss_consecutiveFailures = sc_consecutiveFailures c,
      ss_lastError = (if sc_lastErrorMessage c = [] then None else Some (sc_lastErrorMessage c)),
      ss_prices = fold (\<lambda>(symbol, e). jset symbol (se_price e, t - se_fetchedAt e)) (sc_cache c) []\<rparr>"

text \<open>The keeper's frame callback.\<close>

definition ingestFrame :: "fast_frame \<Rightarrow> stork_cache \<Rightarrow> stork_cache" where
  "ingestFrame f c =
     fold (\<lambda>(i, price). case map_of STORK_DEFAULT_ID_SYMBOLS i of
             None \<Rightarrow> (\<lambda>c. c)
           | Some symbol \<Rightarrow> ingestStorkPrice symbol (Num price) (receivedAt f)) (entries f) c"

section \<open>Definitions: the client\<close>

definition RECONNECT_MIN_MS :: nat where "RECONNECT_MIN_MS = 1000"
definition RECONNECT_MAX_MS :: nat where "RECONNECT_MAX_MS = 30000"

datatype ws_state = Connecting | Opened

record fast_client =
  ws :: "ws_state option"
  latestFrame :: "fast_frame option"
  lastFrameAt :: "int option"
  reconnects :: nat
  reconnectDelay :: nat
  fc_lastError :: "string option"
  stopped :: bool
  \<comment> \<open>held by the runtime\<close>
  sockets :: nat
  timers :: "nat list"
  fc_cache :: stork_cache

definition freshClient :: fast_client where
  "freshClient = \<lparr>ws = None, latestFrame = None, lastFrameAt = None, reconnects = 0,
     reconnectDelay = RECONNECT_MIN_MS, fc_lastError = None, stopped = False, sockets = 0, timers = [],
     fc_cache = clearStorkCache\<rparr>"

definition scheduleReconnect :: "fast_client \<Rightarrow> fast_client" where
  "scheduleReconnect c =
     (if stopped c then c
      else c\<lparr>reconnects := reconnects c + 1,
             reconnectDelay := min (reconnectDelay c * 2) RECONNECT_MAX_MS,
             timers := timers c @ [reconnectDelay c]\<rparr>)"

text \<open>\<open>connect\<close>, given what constructing the socket throws.\<close>

definition connect :: "string option \<Rightarrow> fast_client \<Rightarrow> fast_client" where
  "connect failure c =
     (if stopped c then c
      else case failure of
        None \<Rightarrow> c\<lparr>ws := Some Connecting, sockets := sockets c + 1\<rparr>
      | Some e \<Rightarrow> scheduleReconnect (c\<lparr>fc_lastError := Some e\<rparr>))"

definition start :: "string option \<Rightarrow> fast_client \<Rightarrow> fast_client" where
  "start failure c = connect failure (c\<lparr>stopped := False\<rparr>)"

definition stop :: "fast_client \<Rightarrow> fast_client" where
  "stop c = c\<lparr>stopped := True, ws := None\<rparr>"

definition onOpen :: "fast_client \<Rightarrow> fast_client" where
  "onOpen c = c\<lparr>ws := map_option (\<lambda>_. Opened) (ws c), reconnectDelay := RECONNECT_MIN_MS\<rparr>"

text \<open>A message after \<open>JSON.parse\<close>: garbage (with the error), a signed payload, or anything else.\<close>

datatype fast_message = Garbage string | Signed string | OtherMessage

definition onMessage :: "fast_message \<Rightarrow> int \<Rightarrow> fast_client \<Rightarrow> fast_client" where
  "onMessage msg t c =
     (case msg of
        Garbage e \<Rightarrow> c\<lparr>fc_lastError := Some e\<rparr>
      | OtherMessage \<Rightarrow> c
      | Signed p \<Rightarrow>
          (case parseFastPayload p t of
             Inl e \<Rightarrow> c\<lparr>fc_lastError := Some e\<rparr>
           | Inr f \<Rightarrow> c\<lparr>latestFrame := Some f, lastFrameAt := Some (receivedAt f), fc_lastError := None,
                          fc_cache := ingestFrame f (fc_cache c)\<rparr>))"

definition onError :: "string \<Rightarrow> fast_client \<Rightarrow> fast_client" where
  "onError e c = c\<lparr>fc_lastError := Some e\<rparr>"

definition onClose :: "fast_client \<Rightarrow> fast_client" where
  "onClose c = scheduleReconnect (c\<lparr>ws := None, sockets := sockets c - 1\<rparr>)"

definition onTimer :: "string option \<Rightarrow> fast_client \<Rightarrow> fast_client" where
  "onTimer failure c = connect failure (c\<lparr>timers := tl (timers c)\<rparr>)"

definition clientStatus :: "fast_client \<Rightarrow> bool \<times> int option \<times> nat \<times> string option" where
  "clientStatus c = (ws c = Some Opened, lastFrameAt c, reconnects c, fc_lastError c)"

text \<open>
  What can happen to a client, in any order: it is started once (while nothing is connected or pending) and
  may be stopped; open, message, error and close come from a connection that exists; a timer that
  is pending may fire.
\<close>

datatype fast_event =
    Stop | Open | Message fast_message int | Error string | Close | Timer "string option"

inductive fast_step :: "fast_client \<Rightarrow> fast_event \<Rightarrow> fast_client \<Rightarrow> bool" where
  stop: "fast_step c Stop (stop c)"
| opened: "sockets c > 0 \<Longrightarrow> fast_step c Open (onOpen c)"
| message: "sockets c > 0 \<Longrightarrow> fast_step c (Message msg t) (onMessage msg t c)"
| error: "sockets c > 0 \<Longrightarrow> fast_step c (Error e) (onError e c)"
| close: "sockets c > 0 \<Longrightarrow> fast_step c Close (onClose c)"
| timer: "timers c \<noteq> [] \<Longrightarrow> fast_step c (Timer failure) (onTimer failure c)"

inductive fast_run :: "string option \<Rightarrow> fast_event list \<Rightarrow> fast_client \<Rightarrow> bool" where
  started: "fast_run failure [] (start failure freshClient)"
| stepped: "fast_run failure evs c \<Longrightarrow> fast_step c ev d \<Longrightarrow> fast_run failure (evs @ [ev]) d"

inductive_cases fast_stepE: "fast_step c ev d"

section \<open>Lemmas\<close>

lemmas handler_defs = stop_def onOpen_def onMessage_def onError_def onClose_def onTimer_def connect_def
  scheduleReconnect_def start_def

lemma parse_receivedAt: "parseFastPayload h t = Inr f \<Longrightarrow> receivedAt f = t"
  by (auto simp: parseFastPayload_def Let_def split: if_splits)

text \<open>A client that was not stopped is connected or waits to reconnect, and never both.\<close>

definition delayOk :: "nat \<Rightarrow> bool" where
  "delayOk d \<longleftrightarrow> RECONNECT_MIN_MS \<le> d \<and> d \<le> RECONNECT_MAX_MS"

definition alive :: "fast_client \<Rightarrow> bool" where
  "alive c \<longleftrightarrow> (sockets c = 1 \<and> timers c = [] \<or> sockets c = 0 \<and> (\<exists>d. timers c = [d])
       \<or> stopped c \<and> sockets c = 0 \<and> timers c = [])
     \<and> (ws c \<noteq> None \<longrightarrow> sockets c = 1) \<and> delayOk (reconnectDelay c) \<and> list_all delayOk (timers c)
     \<and> lastFrameAt c = map_option receivedAt (latestFrame c)"

lemma alive_start: "alive (start failure freshClient)"
  by (cases failure) (simp_all add: handler_defs freshClient_def alive_def delayOk_def RECONNECT_MIN_MS_def RECONNECT_MAX_MS_def)

lemma delayOk_next: "delayOk d \<Longrightarrow> delayOk (min (d * 2) RECONNECT_MAX_MS)"
  by (auto simp: delayOk_def RECONNECT_MIN_MS_def RECONNECT_MAX_MS_def)

lemma delayOk_min [simp]: "delayOk RECONNECT_MIN_MS"
  by (simp add: delayOk_def RECONNECT_MIN_MS_def RECONNECT_MAX_MS_def)

lemma alive_step: "fast_step c ev d \<Longrightarrow> alive c \<Longrightarrow> alive d"
  by (erule fast_stepE)
    (auto simp: handler_defs alive_def delayOk_next parse_receivedAt split: option.split fast_message.split sum.split)

lemma alive_run: "fast_run failure evs c \<Longrightarrow> alive c"
  by (induction rule: fast_run.induct) (auto intro: alive_start alive_step)

text \<open>Where a cached price comes from.\<close>

definition quoted :: "fast_frame \<Rightarrow> string \<Rightarrow> stork_entry \<Rightarrow> bool" where
  "quoted f symbol e \<longleftrightarrow> 0 < se_price e \<and> se_fetchedAt e = receivedAt f
     \<and> (\<exists>i. (i, se_price e) \<in> set (entries f) \<and> map_of STORK_DEFAULT_ID_SYMBOLS i = Some symbol)"

lemma ingest_quoted:
  assumes "map_of (sc_cache (ingestStorkPrice s (Num p) t c)) symbol = Some e"
  shows "map_of (sc_cache c) symbol = Some e \<or> s = symbol \<and> 0 < p \<and> e = \<lparr>se_price = p, se_fetchedAt = t\<rparr>"
  using assms by (cases "p \<le> 0") (simp_all add: ingestStorkPrice_def split: if_splits)

lemma ingestFrame_quoted:
  assumes "map_of (sc_cache (ingestFrame f c)) symbol = Some e"
  shows "map_of (sc_cache c) symbol = Some e \<or> quoted f symbol e"
proof -
  let ?put = "\<lambda>(i, price). case map_of STORK_DEFAULT_ID_SYMBOLS i of
      None \<Rightarrow> (\<lambda>c. c) | Some symbol \<Rightarrow> ingestStorkPrice symbol (Num price) (receivedAt f)"
  have one: "map_of (sc_cache c) symbol = Some e \<or> quoted f symbol e"
    if "map_of (sc_cache (?put p c)) symbol = Some e" "p \<in> set (entries f)" for p c
  proof (cases p)
    case (Pair i price)
    show ?thesis
    proof (cases "map_of STORK_DEFAULT_ID_SYMBOLS i")
      case (Some s)
      with that Pair ingest_quoted [of s price "receivedAt f" c symbol e] show ?thesis
        by (auto simp: quoted_def)
    qed (use that Pair in simp)
  qed
  have "map_of (sc_cache (fold ?put es c)) symbol = Some e \<Longrightarrow> set es \<subseteq> set (entries f)
      \<Longrightarrow> map_of (sc_cache c) symbol = Some e \<or> quoted f symbol e" for es
  proof (induction es arbitrary: c)
    case (Cons p es)
    then have "map_of (sc_cache (?put p c)) symbol = Some e \<or> quoted f symbol e" by simp
    with Cons.prems(2) one [of p c] show ?case by auto
  qed simp
  with assms show ?thesis by (simp add: ingestFrame_def)
qed

definition received :: "fast_event list \<Rightarrow> fast_frame \<Rightarrow> bool" where
  "received evs f \<longleftrightarrow> (\<exists>h. Message (Signed h) (receivedAt f) \<in> set evs \<and> parseFastPayload h (receivedAt f) = Inr f)"

lemma run_cache:
  "fast_run failure evs c \<Longrightarrow> map_of (sc_cache (fc_cache c)) symbol = Some e \<Longrightarrow> \<exists>f. received evs f \<and> quoted f symbol e"
proof (induction arbitrary: e rule: fast_run.induct)
  case (started failure)
  then show ?case by (cases failure) (simp_all add: handler_defs freshClient_def clearStorkCache_def)
next
  case (stepped failure evs c ev d)
  have old: "\<exists>f. received (evs @ [ev]) f \<and> quoted f symbol e" if "map_of (sc_cache (fc_cache c)) symbol = Some e"
    using stepped.IH [OF that] by (auto simp: received_def)
  show ?case
  proof (cases "fc_cache d = fc_cache c")
    case True
    with old stepped.prems show ?thesis by simp
  next
    case False
    with stepped.hyps(2) obtain h t f where m: "ev = Message (Signed h) t" "parseFastPayload h t = Inr f"
      "fc_cache d = ingestFrame f (fc_cache c)"
      by (cases rule: fast_stepE) (auto simp: handler_defs split: option.splits fast_message.splits sum.splits if_splits)
    then have "received (evs @ [ev]) f" by (auto simp: received_def parse_receivedAt)
    moreover have "map_of (sc_cache (fc_cache c)) symbol = Some e \<or> quoted f symbol e"
      using stepped.prems ingestFrame_quoted by (simp add: m(3))
    ultimately show ?thesis using old by blast
  qed
qed

lemma run_latest:
  "fast_run failure evs c \<Longrightarrow> latestFrame c = Some f \<Longrightarrow> received evs f"
proof (induction arbitrary: f rule: fast_run.induct)
  case (started failure)
  then show ?case by (cases failure) (simp_all add: handler_defs freshClient_def)
next
  case (stepped failure evs c ev d)
  show ?case
  proof (cases "latestFrame d = latestFrame c")
    case True
    with stepped show ?thesis by (auto simp: received_def)
  next
    case False
    with stepped.hyps(2) stepped.prems obtain h t where "ev = Message (Signed h) t" "parseFastPayload h t = Inr f"
      by (cases rule: fast_stepE) (auto simp: handler_defs split: option.splits fast_message.splits sum.splits if_splits)
    then show ?thesis by (auto simp: received_def parse_receivedAt)
  qed
qed

section \<open>Properties\<close>

text \<open>C22. The feed never dies: after any sequence of opens, messages, errors, closes, timers and stops, a
  client that was not stopped has exactly one connection or exactly one pending reconnect (never both,
  never neither), every reconnect waits between one and thirty seconds, and a stopped client schedules
  nothing more.\<close>

theorem feed_never_dies:
  assumes "fast_run failure evs c"
  shows "sockets c + length (timers c) \<le> 1
     \<and> (stopped c \<or> sockets c + length (timers c) = 1)
     \<and> list_all (\<lambda>d. RECONNECT_MIN_MS \<le> d \<and> d \<le> RECONNECT_MAX_MS) (timers c)
     \<and> timers (onClose (stop c)) = timers c"
  using alive_run [OF assms]
  by (auto simp: alive_def delayOk_def [abs_def] onClose_def stop_def scheduleReconnect_def)

theorem feed_never_dies_witness:
  "sockets (onTimer None (onClose (start None freshClient))) + length (timers (onTimer None (onClose (start None freshClient)))) = 1
   \<and> list_all (\<lambda>d. RECONNECT_MIN_MS \<le> d \<and> d \<le> RECONNECT_MAX_MS) (timers (onClose (start None freshClient)))
   \<and> timers (onClose (start None freshClient)) = [1000]"
proof -
  let ?s = "start None freshClient"
  have closed: "fast_run None ([] @ [Close]) (onClose ?s)"
    by (rule fast_run.stepped [OF fast_run.started fast_step.close])
      (simp add: handler_defs freshClient_def)
  moreover have t: "timers (onClose ?s) = [1000]"
    by (simp add: handler_defs freshClient_def RECONNECT_MIN_MS_def)
  ultimately have "fast_run None (([] @ [Close]) @ [Timer None]) (onTimer None (onClose ?s))"
    using fast_run.stepped [OF closed fast_step.timer] by simp
  from feed_never_dies [OF this] feed_never_dies [OF closed] show ?thesis
    by (auto simp: t handler_defs freshClient_def RECONNECT_MIN_MS_def)
qed

text \<open>Backoff: when \<open>k\<close> reconnects in a row fail, their delays were one second doubled each time and
  capped at thirty seconds; and a connection that opens starts over at one second.\<close>

theorem backoff_doubles:
  assumes "\<not> stopped c"
  shows "timers ((scheduleReconnect ^^ k) (onOpen c))
      = timers c @ map (\<lambda>j. min (RECONNECT_MIN_MS * 2 ^ j) RECONNECT_MAX_MS) [0..<k]
    \<and> reconnects ((scheduleReconnect ^^ k) (onOpen c)) = reconnects c + k"
proof -
  have "timers ((scheduleReconnect ^^ k) (onOpen c))
      = timers c @ map (\<lambda>j. min (RECONNECT_MIN_MS * 2 ^ j) RECONNECT_MAX_MS) [0..<k]
    \<and> reconnects ((scheduleReconnect ^^ k) (onOpen c)) = reconnects c + k
    \<and> reconnectDelay ((scheduleReconnect ^^ k) (onOpen c)) = min (RECONNECT_MIN_MS * 2 ^ k) RECONNECT_MAX_MS
    \<and> \<not> stopped ((scheduleReconnect ^^ k) (onOpen c))"
  proof (induction k)
    case 0
    with assms show ?case by (simp add: onOpen_def RECONNECT_MIN_MS_def RECONNECT_MAX_MS_def)
  next
    case (Suc k)
    then show ?case by (auto simp: scheduleReconnect_def min_def)
  qed
  then show ?thesis by blast
qed

theorem backoff_doubles_witness:
  "timers ((scheduleReconnect ^^ 7) (onOpen freshClient)) = [1000, 2000, 4000, 8000, 16000, 30000, 30000]"
  using backoff_doubles [of freshClient 7]
  by (simp add: freshClient_def RECONNECT_MIN_MS_def RECONNECT_MAX_MS_def upt_rec)

text \<open>Every Stork price the cache serves is positive and was quoted, for that symbol, by a signed
  frame this client received at most the permitted age ago; a price that cannot be used never enters.\<close>

theorem stork_price_provenance:
  assumes "fast_run failure evs c" "lookupStorkPrice symbol maxAgeMs t (fc_cache c) = Some p"
  shows "0 < p \<and> (\<exists>h i f. Message (Signed h) (receivedAt f) \<in> set evs
     \<and> parseFastPayload h (receivedAt f) = Inr f \<and> t - receivedAt f \<le> maxAgeMs
     \<and> (i, p) \<in> set (entries f) \<and> map_of STORK_DEFAULT_ID_SYMBOLS i = Some symbol)"
proof -
  obtain e where e: "map_of (sc_cache (fc_cache c)) symbol = Some e" "t - se_fetchedAt e \<le> maxAgeMs" "se_price e = p"
    using assms(2) by (auto simp: lookupStorkPrice_def split: option.splits if_splits)
  from run_cache [OF assms(1) e(1)] obtain f where "received evs f" "quoted f symbol e" by blast
  with e(2,3) show ?thesis unfolding received_def quoted_def by auto
qed

definition sampleSignedPayload :: string where
  "sampleSignedPayload = ''0x'' @ hexString (encodePayload (replicate 65 7) 1 5 [(3, 2 * 10 ^ 18), (99, 10 ^ 18)])"

theorem stork_price_provenance_witness:
  "let c = onMessage (Signed sampleSignedPayload) 100 (start None freshClient)
   in lookupStorkPrice ''BTC'' 60 130 (fc_cache c) = Some 2 \<and> 0 < (2 :: rat)
      \<and> lookupStorkPrice ''BTC'' 60 161 (fc_cache c) = None"
proof -
  let ?es = "[(3, 2 * 10 ^ 18), (99, 10 ^ 18)] :: (nat \<times> int) list"
  let ?c = "onMessage (Signed sampleSignedPayload) 100 (start None freshClient)"
  have "list_all (\<lambda>b. b < 256) (replicate 65 (7::nat))" "\<forall>p \<in> set ?es. validEntry p"
    by (simp_all add: list_all_iff validEntry_def)
  then have parse: "parseFastPayload sampleSignedPayload 100 = Inr \<lparr>payloadHex = hexString (encodePayload (replicate 65 7) 1 5 ?es),
      taxonomy = 1, timestampNs = 5, entries = map humanEntry ?es, receivedAt = 100\<rparr>"
    unfolding sampleSignedPayload_def by (intro parse_encoded) simp_all
  have cache: "fc_cache ?c = ingestStorkPrice ''BTC'' (Num 2) 100 clearStorkCache"
    by (simp add: onMessage_def parse ingestFrame_def humanEntry_def STORK_DEFAULT_ID_SYMBOLS_def handler_defs freshClient_def)
  then have look: "lookupStorkPrice ''BTC'' 60 130 (fc_cache ?c) = Some 2" "lookupStorkPrice ''BTC'' 60 161 (fc_cache ?c) = None"
    by (simp_all add: lookupStorkPrice_def ingestStorkPrice_def)
  have "fast_run None ([] @ [Message (Signed sampleSignedPayload) 100]) ?c"
    by (rule fast_run.stepped [OF fast_run.started fast_step.message]) (simp add: handler_defs freshClient_def)
  from stork_price_provenance [OF this look(1)] look show ?thesis by simp
qed

end
