(* ===== verification/StorkRelay.thy ===== *)
theory StorkRelay
  imports KeeperClient StorkFeed
begin

text \<open>
  The Stork relay of the keeper (\<open>startStorkRelay\<close>, \<open>storkRelayTick\<close> of
  \<open>scripts/keeper/src/index.ts\<close>): each tick hands the newest signed frame to the router through a client
  of its own, and alerts on a dark feed and on a relay that keeps failing. The tick joins the keeper
  (alerts, statistics), the feed client and two RPC clients, each with its own part of the state.
\<close>

section \<open>Definitions\<close>

definition STORK_FEED_DARK_MS :: int where "STORK_FEED_DARK_MS = 2 * 60 * 1000"
definition STORK_FEED_ALERT_THROTTLE_MS :: int where "STORK_FEED_ALERT_THROTTLE_MS = 10 * 60 * 1000"

record relay =
  rl_keeper :: keeper
  stellarClient :: client
  fastClient :: "fast_client option"
  storkRelayClient :: "client option"
  storkRelayFailStreak :: nat
  storkFeedAlertAt :: int
  storkStrictAssets :: "string list"
  storkStrictProbeAt :: int

type_synonym 'a rprog = "(relay, 'a) prog"

definition newClient :: client where
  "newClient = \<lparr>c_log = [], serverIndex = 0, routerAbiV2Memo = None\<rparr>"

definition onKeeper :: "'a kprog \<Rightarrow> 'a rprog" where
  "onKeeper = zoom rl_keeper (\<lambda>k s. s\<lparr>rl_keeper := k\<rparr>)"

definition onStellar :: "'a cprog \<Rightarrow> 'a rprog" where
  "onStellar = zoom stellarClient (\<lambda>c s. s\<lparr>stellarClient := c\<rparr>)"

definition onRelayClient :: "'a cprog \<Rightarrow> 'a rprog" where
  "onRelayClient = zoom (\<lambda>s. the (storkRelayClient s)) (\<lambda>c s. s\<lparr>storkRelayClient := Some c\<rparr>)"

text \<open>Start-up: the feed whenever there is an API key, the relay client only with its own secret key.\<close>

definition startStorkRelay :: "string \<Rightarrow> string \<Rightarrow> string option \<Rightarrow> relay \<Rightarrow> relay" where
  "startStorkRelay storkApiKey storkRelaySecretKey failure s =
     (if \<not> storkEnabled storkApiKey then s
      else let s' = s\<lparr>fastClient := Some (start failure freshClient)\<rparr>
           in if storkRelaySecretKey = [] then s' else s'\<lparr>storkRelayClient := Some newClient\<rparr>)"

definition refreshStrictAssets :: "client_config \<Rightarrow> net \<Rightarrow> int \<Rightarrow> unit rprog" where
  "refreshStrictAssets cfg N t = do {
     probed \<leftarrow> gets storkStrictProbeAt;
     if t - probed > 60 * 60 * 1000
     then do {
       modify (\<lambda>s. s\<lparr>storkStrictProbeAt := t\<rparr>);
       strict \<leftarrow> onStellar (getStorkStrictAssets cfg N);
       modify (\<lambda>s. s\<lparr>storkStrictAssets := strict\<rparr>) }
     else skip }"

fun joinWith :: "string \<Rightarrow> string list \<Rightarrow> string" where
  "joinWith sep [] = []"
| "joinWith sep [x] = x"
| "joinWith sep (x # xs) = x @ sep @ joinWith sep xs"

definition alertDarkFeed :: "env \<Rightarrow> int \<Rightarrow> unit rprog" where
  "alertDarkFeed E t = do {
     alerted \<leftarrow> gets storkFeedAlertAt;
     if t - alerted > STORK_FEED_ALERT_THROTTLE_MS
     then do {
       modify (\<lambda>s. s\<lparr>storkFeedAlertAt := t\<rparr>);
       names \<leftarrow> gets storkStrictAssets;
       onKeeper (sendAlert E (if names \<noteq> [] then Critical else Warn)
         (if names \<noteq> []
          then ''Backup price feed is DOWN '' @ [CHR 0xE2, CHR 0x80, CHR 0x94] @ '' new trades on '' @ joinWith '', '' names @ '' are halted''
          else ''Backup price feed (Stork) is quiet'')) }
     else skip }"

definition streakAlert :: "nat \<Rightarrow> level option" where
  "streakAlert n =
     (let hourly = n > 100 \<and> n mod 120 = 0
      in if n = 5 \<or> n = 25 \<or> n = 100 \<or> hourly
         then Some (if n \<ge> 100 then Critical else Warn) else None)"

definition recordRelay :: "env \<Rightarrow> execution_result \<Rightarrow> unit rprog" where
  "recordRelay E result =
     (if success result
      then do {
        onKeeper (bumpStats (\<lambda>st. st\<lparr>storkRelays := storkRelays st + 1\<rparr>));
        modify (\<lambda>s. s\<lparr>storkRelayFailStreak := 0\<rparr>) }
      else if \<not> indeterminate result
      then do {
        modify (\<lambda>s. s\<lparr>storkRelayFailStreak := storkRelayFailStreak s + 1\<rparr>);
        onKeeper (logThrottled E (''stork-relay-fail'', 0, []));
        n \<leftarrow> gets storkRelayFailStreak;
        case streakAlert n of
          None \<Rightarrow> skip
        | Some lvl \<Rightarrow> onKeeper (sendAlert E lvl ''Stork price relay keeps failing'') }
      else skip)"

definition relayLatest :: "client_config \<Rightarrow> env \<Rightarrow> net \<Rightarrow> int \<Rightarrow> fast_client \<Rightarrow> unit rprog" where
  "relayLatest cfg E R t fc =
     (case latestFrame fc of
        None \<Rightarrow> skip
      | Some frame \<Rightarrow>
          if t - receivedAt frame > 55000 then skip
          else do {
            result \<leftarrow> onRelayClient (relayStork cfg R (hexBytes (payloadHex frame)));
            recordRelay E result })"

definition feedDark :: "int \<Rightarrow> fast_client \<Rightarrow> bool" where
  "feedDark t fc \<longleftrightarrow> t - (case lastFrameAt fc of None \<Rightarrow> 0 | Some f \<Rightarrow> f) > STORK_FEED_DARK_MS"

definition storkRelayTick :: "client_config \<Rightarrow> env \<Rightarrow> net \<Rightarrow> net \<Rightarrow> unit rprog" where
  "storkRelayTick cfg E N R = do {
     s \<leftarrow> gets (\<lambda>s. s);
     case (fastClient s, storkRelayClient s) of
       (Some fc, Some _) \<Rightarrow> do {
         t \<leftarrow> onKeeper (dateNow E);
         refreshStrictAssets cfg N t;
         if feedDark t fc then alertDarkFeed E t else relayLatest cfg E R t fc }
     | _ \<Rightarrow> skip }"

lemmas zoom_defs = onKeeper_def onStellar_def onRelayClient_def

section \<open>Lemmas\<close>

lemma hexDigit_bound: "hexDigit c = Some n \<Longrightarrow> n < 16"
  unfolding hexDigit_def Let_def by (simp split: if_split_asm)

lemma hexBytes_bytes: "list_all (\<lambda>b. b < 256) (hexBytes s)"
  by (induction s rule: hexBytes.induct) (auto split: option.split dest!: hexDigit_bound)

lemma parse_payload:
  "parseFastPayload h t = Inr f \<Longrightarrow> hexBytes (payloadHex f) = hexBytes (stripHexPrefix h)"
  by (auto simp: parseFastPayload_def Let_def hexBytes_hexString hexBytes_bytes split: if_splits)

text \<open>What the parts of a tick leave alone.\<close>

lemma wp_const [simp]: "wp m (\<lambda>_ _. P) s = P"
  by (simp add: wp_eq_run)

lemma refresh_frame:
  "wp (refreshStrictAssets cfg N t) (\<lambda>_ u. storkRelayClient u = storkRelayClient s \<and> fastClient u = fastClient s
     \<and> rl_keeper u = rl_keeper s \<and> storkRelayFailStreak u = storkRelayFailStreak s
     \<and> storkFeedAlertAt u = storkFeedAlertAt s) s"
  by (simp add: refreshStrictAssets_def onStellar_def wp_if)

lemma record_frame: "wp (recordRelay E r) (\<lambda>_ u. storkRelayClient u = storkRelayClient s \<and> fastClient u = fastClient s) s"
  by (simp add: recordRelay_def onKeeper_def wp_if split: option.split)

lemma dark_frame: "wp (alertDarkFeed E t) (\<lambda>_ u. storkRelayClient u = storkRelayClient s \<and> fastClient u = fastClient s) s"
  by (simp add: alertDarkFeed_def onKeeper_def wp_if)

text \<open>The call of a frame.\<close>

definition relayCall :: "client_config \<Rightarrow> fast_frame \<Rightarrow> contract_call" where
  "relayCall cfg f = contractCall (cl_router cfg) ''relay_stork'' [ScBytes (hexBytes (payloadHex f))]"

lemma relayed_call: "yields_on c_log (relayStork cfg R (hexBytes (payloadHex f))) (\<lambda>_. list_all (sendsOnly (relayCall cfg f)))"
  by (auto simp: relayStork_def relayCall_def intro!: retried_call)

lemma relay_sends:
  assumes "storkRelayClient s = Some c"
  shows "wp (relayLatest cfg E R t fc) (\<lambda>_ u. \<exists>c'. storkRelayClient u = Some c'
     \<and> (c' = c \<or> (\<exists>f. latestFrame fc = Some f \<and> t - receivedAt f \<le> 55000
          \<and> list_all (sendsOnly (relayCall cfg f)) (news c_log c c')))) s"
proof (cases "latestFrame fc")
  case None
  with assms show ?thesis by (simp add: relayLatest_def)
next
  case (Some f)
  have "wp (relayStork cfg R (hexBytes (payloadHex f))) (\<lambda>_ c'. list_all (sendsOnly (relayCall cfg f)) (news c_log c c')) c"
    by (rule yields_on_news [OF relayed_call])
  then show ?thesis
    using assms Some
    by (auto simp: relayLatest_def onRelayClient_def wp_if elim!: wp_mono intro!: wp_mono [OF record_frame])
qed

section \<open>Properties\<close>

text \<open>A tick pays only for fresh signed frames: whatever the router and the endpoints answer, every
  transaction the relay client transmits in a tick is the \<open>relay_stork\<close> call carrying exactly the bytes
  of a payload the feed received, parsed, at most 55 seconds before the tick.\<close>

theorem relay_only_fresh_frames:
  assumes "fast_run failure evs fc" "fastClient s = Some fc" "storkRelayClient s = Some c"
  shows "wp (storkRelayTick cfg E N R) (\<lambda>_ u. \<exists>c'. storkRelayClient u = Some c'
     \<and> (\<forall>i tx x. RpcSend i tx x \<in> set (news c_log c c') \<longrightarrow>
          (\<exists>h t0. Message (Signed h) t0 \<in> set evs \<and> \<not> isl (parseFastPayload h t0)
             \<and> e_clock E (hist (rl_keeper s)) - t0 \<le> 55000
             \<and> tx_call tx = contractCall (cl_router cfg) ''relay_stork'' [ScBytes (hexBytes (stripHexPrefix h))]))) s"
proof -
  let ?t = "e_clock E (hist (rl_keeper s))"
  let ?Q = "\<lambda>_ u. \<exists>c'. storkRelayClient u = Some c'
     \<and> (c' = c \<or> (\<exists>f. latestFrame fc = Some f \<and> ?t - receivedAt f \<le> 55000
          \<and> list_all (sendsOnly (relayCall cfg f)) (news c_log c c')))"
  have "wp (if feedDark ?t fc then alertDarkFeed E ?t else relayLatest cfg E R ?t fc) ?Q u"
    if "storkRelayClient u = Some c" for u
    using that relay_sends [OF that] by (auto simp: wp_if intro!: wp_mono [OF dark_frame])
  then have "wp (storkRelayTick cfg E N R) ?Q s"
    using assms(2,3)
    by (simp add: storkRelayTick_def onKeeper_def dateNow_def split del: if_split) (rule wp_mono [OF refresh_frame], simp)
  then show ?thesis
  proof (rule wp_mono, elim exE conjE disjE)
    fix u c'
    assume u: "storkRelayClient u = Some c'" and "c' = c"
    then show "\<exists>c'. storkRelayClient u = Some c'
     \<and> (\<forall>i tx x. RpcSend i tx x \<in> set (news c_log c c') \<longrightarrow>
          (\<exists>h t0. Message (Signed h) t0 \<in> set evs \<and> \<not> isl (parseFastPayload h t0) \<and> ?t - t0 \<le> 55000
             \<and> tx_call tx = contractCall (cl_router cfg) ''relay_stork'' [ScBytes (hexBytes (stripHexPrefix h))]))"
      by (simp add: news_def)
  next
    fix u c' f
    assume u: "storkRelayClient u = Some c'" and f: "latestFrame fc = Some f" "?t - receivedAt f \<le> 55000"
      "list_all (sendsOnly (relayCall cfg f)) (news c_log c c')"
    from run_latest [OF assms(1) f(1)] obtain h where "Message (Signed h) (receivedAt f) \<in> set evs"
      "parseFastPayload h (receivedAt f) = Inr f" by (auto simp: received_def)
    with u f(2,3) show "\<exists>c'. storkRelayClient u = Some c'
     \<and> (\<forall>i tx x. RpcSend i tx x \<in> set (news c_log c c') \<longrightarrow>
          (\<exists>h t0. Message (Signed h) t0 \<in> set evs \<and> \<not> isl (parseFastPayload h t0) \<and> ?t - t0 \<le> 55000
             \<and> tx_call tx = contractCall (cl_router cfg) ''relay_stork'' [ScBytes (hexBytes (stripHexPrefix h))]))"
      by (fastforce simp: list_all_iff sendsOnly_def relayCall_def parse_payload [symmetric])
  qed
qed

definition sampleRelay :: relay where
  "sampleRelay = \<lparr>rl_keeper = sampleKeeper, stellarClient = newClient,
     fastClient = Some (onMessage (Signed sampleSignedPayload) 100 (start None freshClient)),
     storkRelayClient = Some newClient, storkRelayFailStreak = 4, storkFeedAlertAt = 0,
     storkStrictAssets = [], storkStrictProbeAt = 0\<rparr>"

text \<open>The streak after one more result, and after a list of results.\<close>

definition nextStreak :: "execution_result \<Rightarrow> nat \<Rightarrow> nat" where
  "nextStreak r k = (if success r then 0 else if indeterminate r then k else k + 1)"

definition failuresSince :: "execution_result list \<Rightarrow> nat \<Rightarrow> nat" where
  "failuresSince rs k =
     (let decided = filter (\<lambda>r. success r \<or> \<not> indeterminate r) rs
      in if list_ex success decided then length (takeWhile (\<lambda>r. \<not> success r) (rev decided))
         else length decided + k)"

lemma failuresSince_Cons: "failuresSince (r # rs) k = failuresSince rs (nextStreak r k)"
proof -
  define D where "D = filter (\<lambda>r. success r \<or> \<not> indeterminate r) rs"
  have fs: "failuresSince rs j = (if list_ex success D then length (takeWhile (\<lambda>r. \<not> success r) (rev D)) else length D + j)" for j
    by (simp add: failuresSince_def D_def)
  have fc: "failuresSince (r # rs) k = (if success r \<or> \<not> indeterminate r
      then if list_ex success (r # D) then length (takeWhile (\<lambda>r. \<not> success r) (rev D @ [r])) else length (r # D) + k
      else failuresSince rs k)"
    by (simp add: failuresSince_def D_def)
  have "takeWhile (\<lambda>r. \<not> success r) (rev D @ [r]) =
      (if list_ex success D then takeWhile (\<lambda>r. \<not> success r) (rev D)
       else rev D @ takeWhile (\<lambda>r. \<not> success r) [r])"
  proof (cases "list_ex success D")
    case True
    then obtain x where "x \<in> set (rev D)" "\<not> \<not> success x" by (auto simp: list_ex_iff)
    then show ?thesis using True takeWhile_append1 by simp
  next
    case False
    then have "takeWhile (\<lambda>r. \<not> success r) (rev D @ [r]) = rev D @ takeWhile (\<lambda>r. \<not> success r) [r]"
      by (intro takeWhile_append2) (auto simp: list_ex_iff)
    with False show ?thesis by simp
  qed
  then show ?thesis by (simp add: fc fs nextStreak_def)
qed

lemma failuresSince_Nil [simp]: "failuresSince [] k = k"
  by (simp add: failuresSince_def)

text \<open>The failure streak is exact: after any sequence of relay results the counter is the number of
  failures since the last success (indeterminate results counted as neither), and the statistics grew
  by the number of successes.\<close>

theorem relay_streak_exact:
  "wp (for_each rs (recordRelay E)) (\<lambda>_ u.
     storkRelayFailStreak u = failuresSince rs (storkRelayFailStreak s)
     \<and> storkRelays (stats (rl_keeper u)) = storkRelays (stats (rl_keeper s)) + length (filter success rs)) s"
proof (induction rs arbitrary: s)
  case Nil
  then show ?case by simp
next
  case (Cons r rs)
  have logs: "wp (logThrottled E k) (\<lambda>_ t. stats t = stats k') k'" "wp (sendAlert E l ti) (\<lambda>_ t. stats t = stats k') k'" for k l ti k'
    by (simp_all add: logThrottled_def sendAlert_def dateNow_def emit_def wp_if Let_def)
  have same: "stats (snd (run_state (logThrottled E k) k')) = stats k'" "stats (snd (run_state (sendAlert E l ti) k')) = stats k'" for k l ti k'
    using wp_run [OF logs(1)] wp_run [OF logs(2)] by simp_all
  have one: "wp (recordRelay E r) (\<lambda>_ u.
     storkRelayFailStreak u = nextStreak r (storkRelayFailStreak s)
     \<and> storkRelays (stats (rl_keeper u)) = storkRelays (stats (rl_keeper s)) + (if success r then 1 else 0)) s"
    by (simp add: recordRelay_def nextStreak_def onKeeper_def bumpStats_def wp_if wp_eq_run [of "logThrottled _ _"]
        wp_eq_run [of "sendAlert _ _ _"] same split: option.split)
  show ?case
    unfolding for_each.simps wp_bind
    by (rule wp_mono [OF one], rule wp_mono [OF Cons.IH]) (simp add: failuresSince_Cons)
qed

lemma sendAlert_unthrottled:
  assumes "\<And>sent. map_of (lastSentAt k) (l, title) = Some sent \<Longrightarrow> ALERT_DEDUPE_WINDOW_MS \<le> e_clock E (hist k) - sent"
  shows "wp (sendAlert E l title) (\<lambda>_ t. hist t = Alerted l title # hist k) k"
  using assms by (auto simp: sendAlert_def dateNow_def emit_def wp_if)

text \<open>A relay that keeps failing is reported again and again: a failure that makes the streak due is
  alerted unless that alert went out in the last ten minutes, at least one of any 120
  consecutive failure counts is due, and from the hundredth on the alert is critical.\<close>

theorem relay_failure_reported:
  assumes "\<not> success r" "\<not> indeterminate r" "streakAlert (storkRelayFailStreak s + 1) = Some lvl"
    and "case map_of (lastSentAt (rl_keeper s)) (lvl, ''Stork price relay keeps failing'') of
           None \<Rightarrow> True | Some sent \<Rightarrow> ALERT_DEDUPE_WINDOW_MS \<le> e_clock E (hist (rl_keeper s)) - sent"
  shows "wp (recordRelay E r) (\<lambda>_ u.
      hist (rl_keeper u) = Alerted lvl ''Stork price relay keeps failing'' # hist (rl_keeper s)) s
    \<and> (\<exists>m > n. m \<le> n + 120 \<and> streakAlert m \<noteq> None \<and> (m < 100 \<or> streakAlert m = Some Critical))"
proof -
  have logged: "wp (logThrottled E k) (\<lambda>_ t. hist t = hist k' \<and> lastSentAt t = lastSentAt k') k'" for k k'
    by (simp add: logThrottled_def dateNow_def wp_if Let_def)
  have same: "hist (snd (run_state (logThrottled E k) k')) = hist k'"
    "lastSentAt (snd (run_state (logThrottled E k) k')) = lastSentAt k'" for k k'
    using wp_run [OF logged] by simp_all
  have "wp (recordRelay E r) (\<lambda>_ u.
      hist (rl_keeper u) = Alerted lvl ''Stork price relay keeps failing'' # hist (rl_keeper s)) s"
    using assms
    by (auto simp: recordRelay_def onKeeper_def wp_if wp_eq_run [of "logThrottled _ _"] same
        sendAlert_def dateNow_def emit_def split: option.splits)
  moreover have "\<exists>m > n. m \<le> n + 120 \<and> streakAlert m \<noteq> None \<and> (m < 100 \<or> streakAlert m = Some Critical)"
  proof (cases "n < 100")
    case True
    then show ?thesis by (intro exI [of _ "if n < 5 then 5 else if n < 25 then 25 else 100"]) (auto simp: streakAlert_def)
  next
    case False
    have "n < 120 * (n div 120 + 1)" "120 * (n div 120 + 1) \<le> n + 120"
      using div_mult_mod_eq [of n 120] by (simp_all add: less_eq_nat.simps)
    with False show ?thesis by (intro exI [of _ "120 * (n div 120 + 1)"]) (simp add: streakAlert_def Let_def)
  qed
  ultimately show ?thesis by blast
qed

theorem relay_failure_reported_witness:
  "wp (recordRelay failingEnv (failedResult None)) (\<lambda>_ u.
      hist (rl_keeper u) = [Alerted Warn ''Stork price relay keeps failing'']) sampleRelay
   \<and> (\<exists>m > 1000. m \<le> 1120 \<and> streakAlert m \<noteq> None)"
proof -
  have "streakAlert (storkRelayFailStreak sampleRelay + 1) = Some Warn"
    by (simp add: sampleRelay_def streakAlert_def)
  moreover have "lastSentAt (rl_keeper sampleRelay) = []" "hist (rl_keeper sampleRelay) = []"
    by (simp_all add: sampleRelay_def sampleKeeper_def initialKeeper_def)
  ultimately show ?thesis
    using relay_failure_reported [of "failedResult None" sampleRelay Warn failingEnv 1000]
    by (auto simp: failedResult_def)
qed

theorem relay_fresh_witness:
  "let E = failingEnv\<lparr>e_clock := (\<lambda>_. 130)\<rparr>; cfg = sampleClientConfig\<lparr>cl_router := ''CROUTER''\<rparr>;
       u = snd (run_state (storkRelayTick cfg E calmNet calmNet) sampleRelay)
   in list_all (sendsOnly (contractCall ''CROUTER'' ''relay_stork'' [ScBytes (hexBytes (stripHexPrefix sampleSignedPayload))]))
        (c_log (the (storkRelayClient u)))"
proof -
  let ?fc = "onMessage (Signed sampleSignedPayload) 100 (start None freshClient)"
  let ?E = "failingEnv\<lparr>e_clock := (\<lambda>_. 130)\<rparr>" and ?cfg = "sampleClientConfig\<lparr>cl_router := ''CROUTER''\<rparr>"
  have "fast_run None ([] @ [Message (Signed sampleSignedPayload) 100]) ?fc"
    by (rule fast_run.stepped [OF fast_run.started fast_step.message]) (simp add: handler_defs freshClient_def)
  moreover have "fastClient sampleRelay = Some ?fc" "storkRelayClient sampleRelay = Some newClient"
    by (simp_all add: sampleRelay_def)
  ultimately show ?thesis
    using wp_run [OF relay_only_fresh_frames [where s = sampleRelay and cfg = ?cfg and E = ?E and N = calmNet and R = calmNet]]
    by (fastforce simp: Let_def list_all_iff sendsOnly_def news_def newClient_def split: rpc_event.split)
qed

text \<open>A dark feed costs nothing and is reported: when no frame came for two minutes the tick leaves
  the relay client untouched, and when the last report is more than ten minutes old it alerts, critically
  exactly when strict assets make new trades depend on the feed.\<close>

theorem dark_feed_reported:
  assumes "fastClient s = Some fc" "storkRelayClient s = Some c" "feedDark t fc" "t = e_clock E (hist (rl_keeper s))"
    and "STORK_FEED_ALERT_THROTTLE_MS < t - storkFeedAlertAt s"
    and "\<And>k sent. map_of (lastSentAt (rl_keeper s)) k = Some sent \<Longrightarrow> ALERT_DEDUPE_WINDOW_MS \<le> t - sent"
  shows "wp (storkRelayTick cfg E N R) (\<lambda>_ u. storkRelayClient u = Some c \<and> storkFeedAlertAt u = t
     \<and> (\<exists>title. hist (rl_keeper u) =
          Alerted (if storkStrictAssets u \<noteq> [] then Critical else Warn) title # hist (rl_keeper s))) s"
proof -
  have "wp (alertDarkFeed E t) (\<lambda>_ u. storkRelayClient u = Some c \<and> storkFeedAlertAt u = t
     \<and> (\<exists>title. hist (rl_keeper u) =
          Alerted (if storkStrictAssets u \<noteq> [] then Critical else Warn) title # hist (rl_keeper s))) v"
    if "storkRelayClient v = Some c" "rl_keeper v = rl_keeper s" "storkFeedAlertAt v = storkFeedAlertAt s" for v
  proof -
    have sent: "wp (sendAlert E l title) (\<lambda>_ k. hist k = Alerted l title # hist (rl_keeper s)) (rl_keeper s)" for l title
      using assms(4,6) by (intro sendAlert_unthrottled) simp
    show ?thesis
      using that assms(5) by (auto simp: alertDarkFeed_def onKeeper_def wp_if intro!: wp_mono [OF sent])
  qed
  then show ?thesis
    using assms(1-4)
    by (simp add: storkRelayTick_def onKeeper_def dateNow_def split del: if_split)
      (rule wp_mono [OF refresh_frame], simp split del: if_split)
qed

theorem dark_feed_witness:
  "wp (storkRelayTick sampleClientConfig failingEnv calmNet calmNet) (\<lambda>_ u. storkRelayClient u = Some newClient
     \<and> storkFeedAlertAt u = 1700000000000) (sampleRelay\<lparr>fastClient := Some (start None freshClient)\<rparr>)"
proof -
  let ?s = "sampleRelay\<lparr>fastClient := Some (start None freshClient)\<rparr>"
  have "feedDark 1700000000000 (start None freshClient)"
    by (simp add: feedDark_def STORK_FEED_DARK_MS_def handler_defs freshClient_def)
  moreover have "fastClient ?s = Some (start None freshClient)" "storkRelayClient ?s = Some newClient"
    "storkFeedAlertAt ?s = 0" "lastSentAt (rl_keeper ?s) = []" "hist (rl_keeper ?s) = []"
    by (simp_all add: sampleRelay_def sampleKeeper_def initialKeeper_def)
  moreover have "e_clock failingEnv [] = 1700000000000" by (simp add: failingEnv_def)
  ultimately have "wp (storkRelayTick sampleClientConfig failingEnv calmNet calmNet) (\<lambda>_ u. storkRelayClient u = Some newClient
     \<and> storkFeedAlertAt u = 1700000000000
     \<and> (\<exists>title. hist (rl_keeper u) = Alerted (if storkStrictAssets u \<noteq> [] then Critical else Warn) title # hist (rl_keeper ?s))) ?s"
    by (intro dark_feed_reported) (simp_all add: STORK_FEED_ALERT_THROTTLE_MS_def)
  then show ?thesis by (rule wp_mono) simp
qed

end
