(* ===== verification/StateFile.thy ===== *)
theory StateFile
  imports KeeperStart JsString
begin

text \<open>
  The persisted state of the keeper (\<open>scripts/keeper/src/state.ts\<close>): loading with validation of every
  field, and the write-avoiding atomic save. A parsed JSON text is a \<open>json\<close> value, and
  \<open>JSON.stringify\<close> followed by \<open>JSON.parse\<close> is the identity on it (the standard library's contract); a
  JSON number is a rational. The file system is a map of paths whose operations may fail.
\<close>

section \<open>Definitions: the state and its validation\<close>

datatype json = JNull | JBool bool | JNum rat | JStr string | JArr "json list" | JObj "(string \<times> json) list"

record persisted_price =
  pp_price :: rat
  pp_priceScaled :: string
  pp_timestamp :: rat

record persisted_walk =
  pw_watermark :: string
  pw_live :: "string list"

record persisted_state =
  ps_lastPushedPrices :: "(string, persisted_price) jmap"
  ps_lastFundingSubmitTime :: "rat option"
  ps_discovery :: "(persisted_walk \<times> persisted_walk) option"

definition emptyKeeperState :: persisted_state where
  "emptyKeeperState = \<lparr>ps_lastPushedPrices = [], ps_lastFundingSubmitTime = None, ps_discovery = None\<rparr>"

text \<open>Property access: the last binding of a name counts, anything but an object has none.\<close>

fun member :: "string \<Rightarrow> json \<Rightarrow> json option" where
  "member k (JObj fs) = map_of (rev fs) k"
| "member k _ = None"

definition all_digits :: "string \<Rightarrow> bool" where
  "all_digits s \<longleftrightarrow> s \<noteq> [] \<and> list_all is_digit s"

fun digitsOf :: "json option \<Rightarrow> string option" where
  "digitsOf (Some (JStr s)) = (if all_digits s then Some s else None)"
| "digitsOf _ = None"

fun positiveOf :: "json option \<Rightarrow> rat option" where
  "positiveOf (Some (JNum n)) = (if n > 0 then Some n else None)"
| "positiveOf _ = None"

fun digitStrings :: "json list \<Rightarrow> string list option" where
  "digitStrings [] = Some []"
| "digitStrings (j # js) =
     (case (digitsOf (Some j), digitStrings js) of (Some s, Some ss) \<Rightarrow> Some (s # ss) | _ \<Rightarrow> None)"

text \<open>\<open>isValidWalkState\<close> and \<open>isValidPersistedPrice\<close>, answering the typed value when valid.\<close>

definition validWalkState :: "json option \<Rightarrow> persisted_walk option" where
  "validWalkState entry =
     (case entry of
        Some (JObj fs) \<Rightarrow>
          (case (digitsOf (member ''watermark'' (JObj fs)), member ''live'' (JObj fs)) of
             (Some w, Some (JArr ids)) \<Rightarrow>
               (case digitStrings ids of Some l \<Rightarrow> Some \<lparr>pw_watermark = w, pw_live = l\<rparr> | None \<Rightarrow> None)
           | _ \<Rightarrow> None)
      | _ \<Rightarrow> None)"

definition validPersistedPrice :: "json \<Rightarrow> persisted_price option" where
  "validPersistedPrice entry =
     (case entry of
        JObj fs \<Rightarrow>
          (case (positiveOf (member ''price'' entry), digitsOf (member ''priceScaled'' entry), positiveOf (member ''timestamp'' entry)) of
             (Some p, Some s, Some t) \<Rightarrow> Some \<lparr>pp_price = p, pp_priceScaled = s, pp_timestamp = t\<rparr>
           | _ \<Rightarrow> None)
      | _ \<Rightarrow> None)"

text \<open>
  \<open>Object.entries\<close>: each name once, in order of first occurrence, with its last value; an array has its
  indices as names.
\<close>

fun objectEntries :: "json \<Rightarrow> (string \<times> json) list" where
  "objectEntries (JObj fs) = fold (\<lambda>(k, v). jset k v) fs []"
| "objectEntries (JArr js) = zip (map show_nat [0..<length js]) js"
| "objectEntries _ = []"

definition loadPrices :: "json option \<Rightarrow> (string, persisted_price) jmap" where
  "loadPrices j =
     (case j of
        None \<Rightarrow> []
      | Some prices \<Rightarrow> List.map_filter (\<lambda>(symbol, entry). map_option (Pair symbol) (validPersistedPrice entry)) (objectEntries prices))"

definition loadDiscovery :: "json option \<Rightarrow> (persisted_walk \<times> persisted_walk) option" where
  "loadDiscovery d =
     (case d of
        None \<Rightarrow> None
      | Some j \<Rightarrow>
          (case (validWalkState (member ''positions'' j), validWalkState (member ''orders'' j)) of
             (Some p, Some q) \<Rightarrow> Some (p, q)
           | _ \<Rightarrow> None))"

text \<open>
  What the file holds: nothing, text that does not parse (or whose top level is \<open>null\<close>, on which the
  first property access throws), or a value.
\<close>

datatype file_content = Missing | Corrupt | Parsed json

definition loadKeeperState :: "file_content \<Rightarrow> persisted_state" where
  "loadKeeperState f =
     (case f of
        Missing \<Rightarrow> emptyKeeperState
      | Corrupt \<Rightarrow> emptyKeeperState
      | Parsed JNull \<Rightarrow> emptyKeeperState
      | Parsed j \<Rightarrow>
          \<lparr>ps_lastPushedPrices = loadPrices (member ''lastPushedPrices'' j),
           ps_lastFundingSubmitTime = positiveOf (member ''lastFundingSubmitTime'' j),
           ps_discovery = loadDiscovery (member ''discovery'' j)\<rparr>)"

section \<open>Definitions: saving\<close>

definition priceJson :: "persisted_price \<Rightarrow> json" where
  "priceJson p = JObj [(''price'', JNum (pp_price p)), (''priceScaled'', JStr (pp_priceScaled p)),
     (''timestamp'', JNum (pp_timestamp p))]"

definition walkJson :: "persisted_walk \<Rightarrow> json" where
  "walkJson w = JObj [(''watermark'', JStr (pw_watermark w)), (''live'', JArr (map JStr (pw_live w)))]"

text \<open>\<open>JSON.stringify(state)\<close>: an absent optional field is left out.\<close>

definition stateJson :: "persisted_state \<Rightarrow> json" where
  "stateJson s = JObj
     ((''lastPushedPrices'', JObj (map (\<lambda>(k, p). (k, priceJson p)) (ps_lastPushedPrices s)))
      # (case ps_lastFundingSubmitTime s of None \<Rightarrow> [] | Some t \<Rightarrow> [(''lastFundingSubmitTime'', JNum t)])
      @ (case ps_discovery s of None \<Rightarrow> []
         | Some (p, q) \<Rightarrow> [(''discovery'', JObj [(''positions'', walkJson p), (''orders'', walkJson q)])]))"

definition STATE_MIN_WRITE_MS :: int where "STATE_MIN_WRITE_MS = 60000"

record disk =
  files :: "string \<Rightarrow> json option"
  lastWrite :: "(string, json \<times> int) jmap"

text \<open>Which of the file operations of one save fail.\<close>

record disk_faults =
  mkdirFails :: bool
  writeFails :: bool
  renameFails :: bool

definition tmpPath :: "string \<Rightarrow> string" where
  "tmpPath filePath = filePath @ ''.tmp''"

definition skipWrite :: "string \<Rightarrow> json \<Rightarrow> bool \<Rightarrow> int \<Rightarrow> disk \<Rightarrow> bool" where
  "skipWrite filePath payload force t d =
     (case map_of (lastWrite d) filePath of
        None \<Rightarrow> False
      | Some (prev, wrote) \<Rightarrow> prev = payload \<or> (\<not> force \<and> t - wrote < STATE_MIN_WRITE_MS))"

definition writeState :: "disk_faults \<Rightarrow> string \<Rightarrow> persisted_state \<Rightarrow> bool \<Rightarrow> int \<Rightarrow> disk \<Rightarrow> disk" where
  "writeState x filePath s force t d =
     (let payload = stateJson s
      in if skipWrite filePath payload force t d then d
         else if mkdirFails x \<or> writeFails x then d
         else let d' = d\<lparr>files := (files d)(tmpPath filePath \<mapsto> payload)\<rparr>
              in if renameFails x then d'
                 else d'\<lparr>files := (files d')(filePath \<mapsto> payload, tmpPath filePath := None),
                         lastWrite := jset filePath (payload, t) (lastWrite d)\<rparr>)"

definition contentOf :: "disk \<Rightarrow> string \<Rightarrow> file_content" where
  "contentOf d filePath = (case files d filePath of None \<Rightarrow> Missing | Some j \<Rightarrow> Parsed j)"

section \<open>Lemmas\<close>

lemma objectEntries_distinct: "distinct (map fst fs) \<Longrightarrow> objectEntries (JObj fs) = fs"
proof -
  have "distinct (map fst (m @ fs)) \<Longrightarrow> fold (\<lambda>(k, v). jset k v) fs m = m @ fs" for m
  proof (induction fs arbitrary: m)
    case (Cons p fs)
    moreover have "jset (fst p) (snd p) m = m @ [p]"
      using Cons.prems unfolding jset_def by (induction m) auto
    ultimately show ?case by (simp add: case_prod_beta)
  qed simp
  from this [of "[]"] show "distinct (map fst fs) \<Longrightarrow> objectEntries (JObj fs) = fs" by simp
qed

definition validPrice :: "persisted_price \<Rightarrow> bool" where
  "validPrice p \<longleftrightarrow> pp_price p > 0 \<and> all_digits (pp_priceScaled p) \<and> pp_timestamp p > 0"

definition validWalk :: "persisted_walk \<Rightarrow> bool" where
  "validWalk w \<longleftrightarrow> all_digits (pw_watermark w) \<and> list_all all_digits (pw_live w)"

definition validState :: "persisted_state \<Rightarrow> bool" where
  "validState s \<longleftrightarrow> distinct (jkeys (ps_lastPushedPrices s)) \<and> list_all (\<lambda>(_, p). validPrice p) (ps_lastPushedPrices s)
     \<and> (case ps_lastFundingSubmitTime s of None \<Rightarrow> True | Some t \<Rightarrow> t > 0)
     \<and> (case ps_discovery s of None \<Rightarrow> True | Some (p, q) \<Rightarrow> validWalk p \<and> validWalk q)"

lemma validPersistedPrice_json [simp]: "validPrice p \<Longrightarrow> validPersistedPrice (priceJson p) = Some p"
  by (simp add: validPersistedPrice_def priceJson_def validPrice_def)

lemma digitStrings_json: "list_all all_digits ss \<Longrightarrow> digitStrings (map JStr ss) = Some ss"
  by (induction ss) simp_all

lemma validWalkState_json [simp]: "validWalk w \<Longrightarrow> validWalkState (Some (walkJson w)) = Some w"
  by (simp add: validWalkState_def walkJson_def validWalk_def digitStrings_json)

lemma loadPrices_json:
  assumes "distinct (jkeys m)" "list_all (\<lambda>(_, p). validPrice p) m"
  shows "loadPrices (Some (JObj (map (\<lambda>(k, p). (k, priceJson p)) m))) = m"
proof -
  have "List.map_filter (\<lambda>(symbol, entry). map_option (Pair symbol) (validPersistedPrice entry))
      (map (\<lambda>(k, p). (k, priceJson p)) m) = m"
    using assms(2) by (induction m) (auto simp: map_filter_simps)
  moreover have "distinct (map fst (map (\<lambda>(k, p). (k, priceJson p)) m))"
    using assms(1) by (simp add: jkeys_def case_prod_beta comp_def)
  ultimately show ?thesis unfolding loadPrices_def by (simp only: option.case objectEntries_distinct)
qed

lemma load_stateJson: "validState s \<Longrightarrow> loadKeeperState (Parsed (stateJson s)) = s"
  by (cases s) (auto simp: loadKeeperState_def stateJson_def validState_def loadPrices_json loadDiscovery_def
      split: option.splits)

lemma digitsOf_valid: "digitsOf j = Some s \<Longrightarrow> all_digits s"
  by (cases j rule: digitsOf.cases) (auto split: if_splits)

lemma positiveOf_valid: "positiveOf j = Some n \<Longrightarrow> n > 0"
  by (cases j rule: positiveOf.cases) (auto split: if_splits)

lemma digitStrings_valid: "digitStrings js = Some ss \<Longrightarrow> list_all all_digits ss"
  by (induction js arbitrary: ss) (auto split: option.splits dest: digitsOf_valid)

lemma validWalkState_valid: "validWalkState e = Some w \<Longrightarrow> validWalk w"
  by (auto simp: validWalkState_def validWalk_def split: option.splits json.splits dest: digitsOf_valid digitStrings_valid)

lemma validPersistedPrice_valid: "validPersistedPrice e = Some p \<Longrightarrow> validPrice p"
  by (auto simp: validPersistedPrice_def validPrice_def split: option.splits json.splits dest: digitsOf_valid positiveOf_valid)

lemma distinct_objectEntries: "distinct (map fst (objectEntries j))"
proof (cases j rule: objectEntries.cases)
  case (1 fs)
  have "distinct (jkeys m) \<Longrightarrow> distinct (jkeys (fold (\<lambda>(k, v). jset k v) fs m))" for m :: "(string, json) jmap"
    by (induction fs arbitrary: m) auto
  from this [of "[]"] show ?thesis by (simp add: 1 jkeys_def)
next
  case (2 js)
  have "inj show_nat" using parse_show_nat by (metis injI)
  then show ?thesis by (simp add: 2 distinct_map inj_def inj_on_def)
qed simp_all

lemma filtered_entries:
  assumes "distinct (map fst es)"
  shows "distinct (jkeys (List.map_filter (\<lambda>(k, e). map_option (Pair k) (validPersistedPrice e)) es))
    \<and> fst ` set (List.map_filter (\<lambda>(k, e). map_option (Pair k) (validPersistedPrice e)) es) \<subseteq> fst ` set es
    \<and> list_all (\<lambda>(_, p). validPrice p) (List.map_filter (\<lambda>(k, e). map_option (Pair k) (validPersistedPrice e)) es)"
  using assms
  by (induction es) (force simp: map_filter_simps jkeys_def validPersistedPrice_valid split: option.splits)+

lemma valid_load: "validState (loadKeeperState f)"
proof -
  have "distinct (jkeys (loadPrices j)) \<and> list_all (\<lambda>(_, p). validPrice p) (loadPrices j)" for j
    using filtered_entries [OF distinct_objectEntries] by (cases j) (auto simp: loadPrices_def jkeys_def)
  moreover have "case positiveOf j of None \<Rightarrow> True | Some t \<Rightarrow> t > 0" for j
    by (auto split: option.split dest: positiveOf_valid)
  moreover have "case loadDiscovery j of None \<Rightarrow> True | Some (p, q) \<Rightarrow> validWalk p \<and> validWalk q" for j
    by (auto simp: loadDiscovery_def split: option.split dest: validWalkState_valid)
  ultimately show ?thesis
    by (auto simp: loadKeeperState_def validState_def emptyKeeperState_def jkeys_def split: file_content.split json.split)
qed

text \<open>A file that has been written holds what was written last.\<close>

definition synced :: "string \<Rightarrow> disk \<Rightarrow> bool" where
  "synced p d \<longleftrightarrow> (case map_of (lastWrite d) p of None \<Rightarrow> True | Some (payload, _) \<Rightarrow> files d p = Some payload)"

lemma tmpPath_neq [simp]: "tmpPath p \<noteq> p" "p \<noteq> tmpPath p"
  by (simp_all add: tmpPath_def)

lemma synced_write: "synced p d \<Longrightarrow> synced p (writeState x p s force t d)"
  by (auto simp: synced_def writeState_def Let_def split: option.splits)

text \<open>One save of a run: the faults it meets, the state, whether it is forced, and when.\<close>

record save =
  sv_faults :: disk_faults
  sv_state :: persisted_state
  sv_force :: bool
  sv_time :: int

definition doSave :: "string \<Rightarrow> save \<Rightarrow> disk \<Rightarrow> disk" where
  "doSave p v d = writeState (sv_faults v) p (sv_state v) (sv_force v) (sv_time v) d"

lemma synced_saves: "synced p d \<Longrightarrow> synced p (fold (doSave p) vs d)"
  by (induction vs arbitrary: d) (auto simp: doSave_def synced_write)

definition noFaults :: disk_faults where
  "noFaults = \<lparr>mkdirFails = False, writeFails = False, renameFails = False\<rparr>"

text \<open>When the writes of a run happen.\<close>

primrec writeTimes :: "string \<Rightarrow> save list \<Rightarrow> disk \<Rightarrow> int list" where
  "writeTimes p [] d = []"
| "writeTimes p (v # vs) d =
     (if lastWrite (doSave p v d) = lastWrite d then writeTimes p vs (doSave p v d)
      else sv_time v # writeTimes p vs (doSave p v d))"

lemma doSave_time:
  "map_of (lastWrite (doSave p v d)) p = Some (j, t) \<Longrightarrow> map_of (lastWrite d) p = Some (j, t) \<or> t = sv_time v"
  by (auto simp: doSave_def writeState_def Let_def split: if_splits)

lemma doSave_later:
  "lastWrite (doSave p v d) \<noteq> lastWrite d \<Longrightarrow> \<not> sv_force v \<Longrightarrow> map_of (lastWrite d) p = Some (j, t) \<Longrightarrow>
   t + STATE_MIN_WRITE_MS \<le> sv_time v"
  by (auto simp: doSave_def writeState_def skipWrite_def Let_def split: if_splits)

lemma writes_apart:
  assumes "sorted (map sv_time vs)" "list_all (\<lambda>v. \<not> sv_force v) vs"
  shows "sorted_wrt (\<lambda>a b. a + STATE_MIN_WRITE_MS \<le> b) (writeTimes p vs d)
    \<and> (\<forall>j t. map_of (lastWrite d) p = Some (j, t) \<longrightarrow> list_all (\<lambda>b. t + STATE_MIN_WRITE_MS \<le> b) (writeTimes p vs d))"
  using assms
proof (induction vs arbitrary: d)
  case (Cons v vs)
  note IH = Cons.IH [of "doSave p v d"]
  show ?case
  proof (cases "lastWrite (doSave p v d) = lastWrite d")
    case True
    with IH Cons.prems show ?thesis by simp
  next
    case False
    then obtain j where w: "map_of (lastWrite (doSave p v d)) p = Some (j, sv_time v)"
      by (auto simp: doSave_def writeState_def Let_def split: if_splits)
    have "t + STATE_MIN_WRITE_MS \<le> sv_time v" if "map_of (lastWrite d) p = Some (i, t)" for i t
      using doSave_later [OF False _ that] Cons.prems(2) by simp
    moreover have "0 \<le> STATE_MIN_WRITE_MS" by (simp add: STATE_MIN_WRITE_MS_def)
    ultimately show ?thesis
      using False IH Cons.prems w by (fastforce simp: list_all_iff)
  qed
qed simp

section \<open>Properties\<close>

text \<open>State round trip: whatever is on the disk, loading yields a well-formed state, and a well-formed
  state comes back unchanged from what a save writes; so loading is idempotent through a save.\<close>

theorem state_roundtrip:
  "validState (loadKeeperState f) \<and> (\<forall>s \<in> Collect validState. loadKeeperState (Parsed (stateJson s)) = s)
   \<and> loadKeeperState (Parsed (stateJson (loadKeeperState f))) = loadKeeperState f"
  using valid_load load_stateJson by simp

text \<open>A forced save without faults persists: after any history of saves (with any faults, forced or
  throttled) on a disk this process has written alone, it leaves the file holding exactly that state.\<close>

theorem forced_save_persists:
  assumes "synced p d" "validState s"
  shows "loadKeeperState (contentOf (writeState noFaults p s True t (fold (doSave p) vs d)) p) = s"
proof -
  have "synced p (fold (doSave p) vs d)" by (rule synced_saves [OF assms(1)])
  then have "files (writeState noFaults p s True t (fold (doSave p) vs d)) p = Some (stateJson s)"
    by (auto simp: writeState_def skipWrite_def synced_def noFaults_def Let_def split: option.splits)
  then show ?thesis by (simp add: contentOf_def load_stateJson assms(2))
qed

text \<open>Write avoidance: the writes of any run of unforced saves are at least a minute apart.\<close>

theorem unforced_writes_are_rare:
  assumes "sorted (map sv_time vs)" "list_all (\<lambda>v. \<not> sv_force v) vs"
  shows "sorted_wrt (\<lambda>a b. a + 60000 \<le> b) (writeTimes p vs d)"
  using writes_apart [OF assms] by (simp add: STATE_MIN_WRITE_MS_def)

text \<open>Bounded staleness: after any fault-free run of saves, the file holds the last state saved, or it was
  written less than a minute before that save; a crash loses at most that minute.\<close>

theorem saved_state_is_recent:
  assumes "synced p d" "sv_faults v = noFaults"
  shows "let d' = doSave p v (fold (doSave p) vs d)
    in files d' p = Some (stateJson (sv_state v))
       \<or> (\<exists>payload t. map_of (lastWrite d') p = Some (payload, t) \<and> files d' p = Some payload
            \<and> sv_time v - t < 60000)"
proof -
  have "synced p (fold (doSave p) vs d)" by (rule synced_saves [OF assms(1)])
  then show ?thesis
    using assms(2)
    by (auto simp: Let_def doSave_def writeState_def skipWrite_def synced_def noFaults_def STATE_MIN_WRITE_MS_def
        split: option.splits)
qed

section \<open>Witnesses\<close>

definition sampleState :: persisted_state where
  "sampleState = \<lparr>ps_lastPushedPrices = [(''BTC'', \<lparr>pp_price = 60000, pp_priceScaled = ''600000000000'', pp_timestamp = 5\<rparr>)],
     ps_lastFundingSubmitTime = Some 7,
     ps_discovery = Some (\<lparr>pw_watermark = ''12'', pw_live = [''3'', ''9'']\<rparr>, \<lparr>pw_watermark = ''0'', pw_live = []\<rparr>)\<rparr>"

lemma valid_sampleState: "validState sampleState"
  by code_simp

definition emptyDisk :: disk where
  "emptyDisk = \<lparr>files = (\<lambda>_. None), lastWrite = []\<rparr>"

text \<open>An unforced save at the given time.\<close>

definition saveAt :: "persisted_state \<Rightarrow> int \<Rightarrow> save" where
  "saveAt s t = \<lparr>sv_faults = noFaults, sv_state = s, sv_force = False, sv_time = t\<rparr>"

theorem state_roundtrip_witness:
  "loadKeeperState (Parsed (stateJson sampleState)) = sampleState
   \<and> loadKeeperState (Parsed (JObj [(''lastFundingSubmitTime'', JNum (-1)), (''discovery'', JNull)])) = emptyKeeperState"
proof
  show "loadKeeperState (Parsed (stateJson sampleState)) = sampleState"
    using state_roundtrip valid_sampleState by simp
qed code_simp

theorem forced_save_witness:
  "loadKeeperState (contentOf (writeState noFaults ''s.json'' sampleState True 6
     (fold (doSave ''s.json'') [saveAt emptyKeeperState 5] emptyDisk)) ''s.json'') = sampleState"
  by (rule forced_save_persists) (simp_all add: valid_sampleState synced_def emptyDisk_def)

theorem unforced_writes_witness:
  "writeTimes ''s.json'' [saveAt emptyKeeperState 5, saveAt sampleState 6, saveAt sampleState 60005] emptyDisk = [5, 60005]
   \<and> sorted_wrt (\<lambda>a b. a + 60000 \<le> b)
        (writeTimes ''s.json'' [saveAt emptyKeeperState 5, saveAt sampleState 6, saveAt sampleState 60005] emptyDisk)"
proof
  have "sorted (map sv_time [saveAt emptyKeeperState 5, saveAt sampleState 6, saveAt sampleState 60005])"
    "list_all (\<lambda>v. \<not> sv_force v) [saveAt emptyKeeperState 5, saveAt sampleState 6, saveAt sampleState 60005]"
    by (simp_all add: saveAt_def)
  then show "sorted_wrt (\<lambda>a b. a + 60000 \<le> b)
        (writeTimes ''s.json'' [saveAt emptyKeeperState 5, saveAt sampleState 6, saveAt sampleState 60005] emptyDisk)"
    by (rule unforced_writes_are_rare)
qed code_simp

theorem saved_state_witness:
  "\<exists>payload t. map_of (lastWrite (fold (doSave ''s.json'') [saveAt emptyKeeperState 5, saveAt sampleState 6] emptyDisk)) ''s.json'' = Some (payload, t)
     \<and> 6 - t < 60000"
proof -
  have "synced ''s.json'' emptyDisk" by (simp add: synced_def emptyDisk_def)
  from saved_state_is_recent [OF this, of "saveAt sampleState 6" "[saveAt emptyKeeperState 5]"]
  have "files (fold (doSave ''s.json'') [saveAt emptyKeeperState 5, saveAt sampleState 6] emptyDisk) ''s.json'' = Some (stateJson sampleState)
     \<or> (\<exists>payload t. map_of (lastWrite (fold (doSave ''s.json'') [saveAt emptyKeeperState 5, saveAt sampleState 6] emptyDisk)) ''s.json'' = Some (payload, t)
          \<and> 6 - t < 60000)"
    by (auto simp: Let_def saveAt_def)
  moreover have "files (fold (doSave ''s.json'') [saveAt emptyKeeperState 5, saveAt sampleState 6] emptyDisk) ''s.json'' \<noteq> Some (stateJson sampleState)"
    by code_simp
  ultimately show ?thesis by blast
qed

end
