(* ===== verification/ReferenceTicker.thy ===== *)
theory ReferenceTicker
  imports KeeperState JsString
begin

text \<open>
  The independent reference ticker (\<open>scripts/keeper/src/reference.ts\<close>): one HTTP request per symbol,
  cached for thirty seconds when it gave a price and for ten when it did not. The reply of a request is
  an argument: a transport failure or timeout, a status that is not ok, or a body with its \<open>price\<close> field
  after \<open>Number\<close>.
\<close>

section \<open>Definitions\<close>

definition SUCCESS_CACHE_TTL_MS :: int where "SUCCESS_CACHE_TTL_MS = 30000"
definition FAILURE_CACHE_TTL_MS :: int where "FAILURE_CACHE_TTL_MS = 10000"

record ref_entry =
  re_price :: "rat option"
  re_fetchedAt :: int

type_synonym ref_cache = "(string, ref_entry) jmap"

datatype ref_reply = FetchFailed | HttpError nat | Body jsnum

definition parseReply :: "ref_reply \<Rightarrow> rat option" where
  "parseReply r = (case r of Body (Num p) \<Rightarrow> if p > 0 then Some p else None | _ \<Rightarrow> None)"

definition requestUrl :: "string \<Rightarrow> string \<Rightarrow> string" where
  "requestUrl baseUrl symbol =
     baseUrl @ (if str_includes ''?'' baseUrl then ''&'' else ''?'') @ ''symbol='' @ symbol @ ''USDT''"

definition cachedEntry :: "int \<Rightarrow> string \<Rightarrow> ref_cache \<Rightarrow> ref_entry option" where
  "cachedEntry t symbol c =
     (case map_of c symbol of
        None \<Rightarrow> None
      | Some e \<Rightarrow>
          let ttl = (if re_price e = None then FAILURE_CACHE_TTL_MS else SUCCESS_CACHE_TTL_MS)
          in if t - re_fetchedAt e < ttl then Some e else None)"

text \<open>The requested URL (if a request was made), the answer and the new cache.\<close>

definition fetchReferencePrice ::
    "string \<Rightarrow> (string \<Rightarrow> ref_reply) \<Rightarrow> string \<Rightarrow> int \<Rightarrow> ref_cache \<Rightarrow> string option \<times> rat option \<times> ref_cache" where
  "fetchReferencePrice baseUrl web symbol t c =
     (case cachedEntry t symbol c of
        Some e \<Rightarrow> (None, re_price e, c)
      | None \<Rightarrow>
          let url = requestUrl baseUrl symbol; price = parseReply (web url)
          in (Some url, price, jset symbol \<lparr>re_price = price, re_fetchedAt = t\<rparr> c))"

section \<open>Runs of lookups\<close>

text \<open>A lookup: the symbol, the time, and what the web would answer then. Each line of the trace of a run is the
  lookup, whether it made a request, and the answer.\<close>

record lookup =
  lk_symbol :: string
  lk_time :: int
  lk_web :: "string \<Rightarrow> ref_reply"

fun lookups :: "string \<Rightarrow> lookup list \<Rightarrow> ref_cache \<Rightarrow> (lookup \<times> bool \<times> rat option) list" where
  "lookups baseUrl [] c = []"
| "lookups baseUrl (l # ls) c =
     (case fetchReferencePrice baseUrl (lk_web l) (lk_symbol l) (lk_time l) c of
        (url, price, c') \<Rightarrow> (l, url \<noteq> None, price) # lookups baseUrl ls c')"

definition requestTimes :: "string \<Rightarrow> (lookup \<times> bool \<times> rat option) list \<Rightarrow> int list" where
  "requestTimes symbol tr = map (\<lambda>(l, _, _). lk_time l) (filter (\<lambda>(l, fetched, _). fetched \<and> lk_symbol l = symbol) tr)"

section \<open>Lemmas\<close>

lemma cached_within: "cachedEntry t symbol c = Some e \<Longrightarrow> map_of c symbol = Some e \<and> t - re_fetchedAt e < SUCCESS_CACHE_TTL_MS"
  by (auto simp: cachedEntry_def Let_def SUCCESS_CACHE_TTL_MS_def FAILURE_CACHE_TTL_MS_def split: option.splits if_splits)

lemma not_cached: "cachedEntry t symbol c = None \<Longrightarrow> map_of c symbol = Some e \<Longrightarrow> re_fetchedAt e + FAILURE_CACHE_TTL_MS \<le> t"
  by (auto simp: cachedEntry_def Let_def SUCCESS_CACHE_TTL_MS_def FAILURE_CACHE_TTL_MS_def split: option.splits if_splits)

lemma fetch_cases:
  obtains (cached) e where "cachedEntry t symbol c = Some e" "fetchReferencePrice b web symbol t c = (None, re_price e, c)"
  | (fetched) "cachedEntry t symbol c = None"
      "fetchReferencePrice b web symbol t c = (Some (requestUrl b symbol), parseReply (web (requestUrl b symbol)),
         jset symbol \<lparr>re_price = parseReply (web (requestUrl b symbol)), re_fetchedAt = t\<rparr> c)"
  by (cases "cachedEntry t symbol c") (auto simp: fetchReferencePrice_def Let_def)

lemma requests_spaced:
  assumes "sorted (map lk_time ls)"
  shows "sorted_wrt (\<lambda>a b. a + FAILURE_CACHE_TTL_MS \<le> b) (requestTimes symbol (lookups b ls c))
    \<and> (\<forall>e. map_of c symbol = Some e \<longrightarrow>
         list_all (\<lambda>u. re_fetchedAt e + FAILURE_CACHE_TTL_MS \<le> u) (requestTimes symbol (lookups b ls c)))"
  using assms
proof (induction ls arbitrary: c)
  case Nil
  then show ?case by (simp add: requestTimes_def)
next
  case (Cons l ls)
  then have IH: "sorted_wrt (\<lambda>a b. a + FAILURE_CACHE_TTL_MS \<le> b) (requestTimes symbol (lookups b ls c'))"
    "map_of c' symbol = Some e \<Longrightarrow> list_all (\<lambda>u. re_fetchedAt e + FAILURE_CACHE_TTL_MS \<le> u) (requestTimes symbol (lookups b ls c'))"
    for c' e by simp_all
  show ?case
  proof (cases rule: fetch_cases [where b = b and web = "lk_web l" and symbol = "lk_symbol l" and t = "lk_time l" and c = c])
    case (cached e)
    then show ?thesis using IH [of c] by (simp add: requestTimes_def)
  next
    case fetched
    let ?c = "jset (lk_symbol l) \<lparr>re_price = parseReply (lk_web l (requestUrl b (lk_symbol l))), re_fetchedAt = lk_time l\<rparr> c"
    show ?thesis
    proof (cases "lk_symbol l = symbol")
      case True
      have "re_fetchedAt e + FAILURE_CACHE_TTL_MS \<le> lk_time l" if "map_of c symbol = Some e" for e
        using not_cached [OF fetched(1)] that True by simp
      moreover have "0 \<le> FAILURE_CACHE_TTL_MS" by (simp add: FAILURE_CACHE_TTL_MS_def)
      ultimately show ?thesis
        using IH(1) [of ?c] IH(2) [of ?c] True fetched(2)
        by (fastforce simp: requestTimes_def list_all_iff)
    next
      case False
      then show ?thesis using IH [of ?c] fetched(2) by (simp add: requestTimes_def)
    qed
  qed
qed

text \<open>Where an answer comes from.\<close>

definition fromRequest :: "string \<Rightarrow> lookup list \<Rightarrow> string \<Rightarrow> int \<Rightarrow> rat option \<Rightarrow> bool" where
  "fromRequest b ls symbol t price \<longleftrightarrow>
     (\<exists>l \<in> set ls. lk_symbol l = symbol \<and> lk_time l = t \<and> price = parseReply (lk_web l (requestUrl b symbol)))"

lemma answers_from_requests:
  assumes "\<forall>s e. map_of c s = Some e \<longrightarrow> fromRequest b pre s (re_fetchedAt e) (re_price e)"
    and "(l, fetched, price) \<in> set (lookups b ls c)"
  shows "\<exists>t. lk_time l - t < SUCCESS_CACHE_TTL_MS \<and> fromRequest b (pre @ ls) (lk_symbol l) t price"
  using assms
proof (induction ls arbitrary: c pre)
  case (Cons k ls)
  have mono: "fromRequest b xs s t p \<Longrightarrow> set xs \<subseteq> set ys \<Longrightarrow> fromRequest b ys s t p" for xs ys s t p
    by (auto simp: fromRequest_def)
  show ?case
  proof (cases rule: fetch_cases [where b = b and web = "lk_web k" and symbol = "lk_symbol k" and t = "lk_time k" and c = c])
    case (cached e)
    from Cons.prems(2) cached(2) consider "l = k" "price = re_price e" | "(l, fetched, price) \<in> set (lookups b ls c)" by auto
    then show ?thesis
    proof cases
      case 1
      with cached(1) Cons.prems(1) show ?thesis
        by (intro exI [of _ "re_fetchedAt e"]) (auto dest!: cached_within intro: mono [of pre])
    next
      case 2
      from Cons.IH [OF Cons.prems(1) 2] obtain t where t: "lk_time l - t < SUCCESS_CACHE_TTL_MS"
        "fromRequest b (pre @ ls) (lk_symbol l) t price" by blast
      from t(2) have "fromRequest b (pre @ k # ls) (lk_symbol l) t price" by (rule mono) auto
      with t(1) show ?thesis by blast
    qed
  next
    case fetched
    let ?e = "\<lparr>re_price = parseReply (lk_web k (requestUrl b (lk_symbol k))), re_fetchedAt = lk_time k\<rparr>"
    have here: "fromRequest b (pre @ [k]) (lk_symbol k) (lk_time k) (re_price ?e)" by (auto simp: fromRequest_def)
    have inv: "\<forall>s e. map_of (jset (lk_symbol k) ?e c) s = Some e \<longrightarrow> fromRequest b (pre @ [k]) s (re_fetchedAt e) (re_price e)"
      using Cons.prems(1) here by (auto intro: mono [of pre])
    from Cons.prems(2) fetched(2) consider "l = k" "price = re_price ?e"
      | "(l, fetched, price) \<in> set (lookups b ls (jset (lk_symbol k) ?e c))" by auto
    then show ?thesis
    proof cases
      case 1
      with here show ?thesis
        by (intro exI [of _ "lk_time k"]) (auto simp: SUCCESS_CACHE_TTL_MS_def intro: mono)
    next
      case 2
      from Cons.IH [OF inv 2] show ?thesis by simp
    qed
  qed
qed simp

section \<open>Properties\<close>

text \<open>The reference is asked rarely and its answers are fresh: over any run of lookups with a clock
  that does not go back, two requests for a symbol are at least ten seconds apart, and every answer is
  what a request for that symbol, made less than thirty seconds earlier, returned: its price when
  it gave a positive one and nothing otherwise.\<close>

theorem reference_rare_and_fresh:
  assumes "sorted (map lk_time ls)"
  shows "sorted_wrt (\<lambda>a b. a + 10000 \<le> b) (requestTimes symbol (lookups b ls []))
    \<and> list_all (\<lambda>(l, _, price). \<exists>t. lk_time l - t < 30000 \<and> fromRequest b ls (lk_symbol l) t price) (lookups b ls [])"
  using requests_spaced [OF assms, of symbol b "[]"] answers_from_requests [of "[]" b "[]" _ _ _ ls]
  by (auto simp: FAILURE_CACHE_TTL_MS_def SUCCESS_CACHE_TTL_MS_def list_all_iff)

theorem reference_witness:
  "let ask = (\<lambda>t r. \<lparr>lk_symbol = ''BTC'', lk_time = t, lk_web = (\<lambda>_. r)\<rparr>);
       run = lookups ''https://api'' [ask 0 FetchFailed, ask 9999 (Body (Num 5)), ask 10000 (Body (Num 5)), ask 39999 FetchFailed] []
   in map (\<lambda>(_, fetched, price). (fetched, price)) run = [(True, None), (False, None), (True, Some 5), (False, Some 5)]
      \<and> sorted_wrt (\<lambda>a b. a + 10000 \<le> b) (requestTimes ''BTC'' run)"
proof -
  let ?ask = "\<lambda>t r. \<lparr>lk_symbol = ''BTC'', lk_time = t, lk_web = (\<lambda>_. r)\<rparr>"
  let ?ls = "[?ask 0 FetchFailed, ?ask 9999 (Body (Num 5)), ?ask 10000 (Body (Num 5)), ?ask 39999 FetchFailed]"
  have "sorted (map lk_time ?ls)" by simp
  from reference_rare_and_fresh [OF this]
  have "sorted_wrt (\<lambda>a b. a + 10000 \<le> b) (requestTimes ''BTC'' (lookups ''https://api'' ?ls []))" by blast
  moreover have "map (\<lambda>(_, fetched, price). (fetched, price)) (lookups ''https://api'' ?ls [])
      = [(True, None), (False, None), (True, Some 5), (False, Some 5)]" by code_simp
  ultimately show ?thesis by (simp add: Let_def)
qed

end
