(* ===== verification/Capacity.thy ===== *)
theory Capacity
  imports Prelude
begin

text \<open>
  Pool-capacity headroom (\<open>packages/shared/src/capacity.ts\<close>): the vault's four gates on an open and the
  largest notional they accept. All amounts are unbounded integers; bigint division truncates.
\<close>

section \<open>Definitions\<close>

datatype side = LongSide | ShortSide
datatype capacity_binding = Aggregate | SideCap | Skew | Liquidity | MaxPosition

record capacity_inputs =
  aum :: int
  reservedPayout :: int
  reserveCapBps :: int
  usdcBalance :: int
  shortfallReserve :: int
  assetCapBps :: int
  capAbs :: int
  skewCapBps :: int
  longOi :: int
  shortOi :: int
  maxPositionSize :: "int option"

record side_headroom =
  headroom :: int
  binding :: capacity_binding

record capacity_headroom =
  h_long :: side_headroom
  h_short :: side_headroom
  aggregateHeadroom :: int
  aggregateBinding :: capacity_binding
  h_reserveCap :: int
  h_sideCap :: int
  h_skewCap :: int
  h_net :: int

definition BPS :: int where "BPS = 10000"

definition floor0 :: "int \<Rightarrow> int" where
  "floor0 x = (if x < 0 then 0 else x)"

definition reserveCapOf :: "capacity_inputs \<Rightarrow> int" where
  "reserveCapOf i = (aum i * reserveCapBps i) sdiv BPS"

definition sideCapOf :: "capacity_inputs \<Rightarrow> int" where
  "sideCapOf i = (let leg = (aum i * assetCapBps i) sdiv BPS
     in if capAbs i > 0 \<and> capAbs i < leg then capAbs i else leg)"

definition skewCapOf :: "capacity_inputs \<Rightarrow> int" where
  "skewCapOf i = (aum i * skewCapBps i) sdiv BPS"

definition oiOf :: "capacity_inputs \<Rightarrow> side \<Rightarrow> int" where
  "oiOf i sd = (if sd = LongSide then longOi i else shortOi i)"

text \<open>The vault's decision: accepted, or rejected with the gate that fires (none for a size that is not positive).\<close>

datatype vault_answer = Accepted | Rejected "capacity_binding option"

definition vaultAccepts :: "capacity_inputs \<Rightarrow> side \<Rightarrow> int \<Rightarrow> vault_answer" where
  "vaultAccepts i sd sz =
     (if sz \<le> 0 then Rejected None
      else if reservedPayout i + sz > reserveCapOf i then Rejected (Some Aggregate)
      else if oiOf i sd + sz > sideCapOf i then Rejected (Some SideCap)
      else
        let before = longOi i - shortOi i; after = (if sd = LongSide then before + sz else before - sz)
        in if \<bar>after\<bar> > skewCapOf i \<and> \<bar>after\<bar> > \<bar>before\<bar> then Rejected (Some Skew)
           else if reservedPayout i + sz > usdcBalance i - shortfallReserve i then Rejected (Some Liquidity)
           else Accepted)"

definition skewRoom :: "int \<Rightarrow> int \<Rightarrow> side \<Rightarrow> int" where
  "skewRoom net skewCap sd =
     (let a = \<bar>net\<bar>; increasing = (net = 0 \<or> (sd = LongSide) = (net > 0))
      in if increasing then skewCap - a else a + (if a > skewCap then a else skewCap))"

definition aggRoom :: "capacity_inputs \<Rightarrow> int" where
  "aggRoom i = reserveCapOf i - reservedPayout i"

definition liqRoom :: "capacity_inputs \<Rightarrow> int" where
  "liqRoom i = usdcBalance i - shortfallReserve i - reservedPayout i"

definition roomTerms :: "capacity_inputs \<Rightarrow> side \<Rightarrow> (capacity_binding \<times> int) list" where
  "roomTerms i sd =
     [(Aggregate, aggRoom i), (SideCap, sideCapOf i - oiOf i sd),
      (Skew, skewRoom (longOi i - shortOi i) (skewCapOf i) sd), (Liquidity, liqRoom i)]
     @ (case maxPositionSize i of Some m \<Rightarrow> if m > 0 then [(MaxPosition, m)] else [] | None \<Rightarrow> [])"

text \<open>The loop that keeps the first smallest term.\<close>

definition smallestTerm :: "(capacity_binding \<times> int) list \<Rightarrow> capacity_binding \<times> int" where
  "smallestTerm terms = foldl (\<lambda>best t. if snd t < snd best then t else best) (hd terms) (tl terms)"

definition forSide :: "capacity_inputs \<Rightarrow> side \<Rightarrow> side_headroom" where
  "forSide i sd = (let best = smallestTerm (roomTerms i sd) in \<lparr>headroom = floor0 (snd best), binding = fst best\<rparr>)"

definition computeHeadroom :: "capacity_inputs \<Rightarrow> capacity_headroom" where
  "computeHeadroom i = \<lparr>h_long = forSide i LongSide, h_short = forSide i ShortSide,
     aggregateHeadroom = floor0 (if liqRoom i < aggRoom i then liqRoom i else aggRoom i),
     aggregateBinding = (if liqRoom i < aggRoom i then Liquidity else Aggregate),
     h_reserveCap = reserveCapOf i, h_sideCap = sideCapOf i, h_skewCap = skewCapOf i,
     h_net = longOi i - shortOi i\<rparr>"

definition headroomOf :: "capacity_headroom \<Rightarrow> side \<Rightarrow> side_headroom" where
  "headroomOf h sd = (if sd = LongSide then h_long h else h_short h)"

section \<open>Lemmas\<close>

text \<open>Gate by gate, the room is exactly what the gate accepts.\<close>

lemma skewRoom_exact:
  fixes net cap sz :: int
  assumes "0 < sz"
  shows "(\<bar>if sd = LongSide then net + sz else net - sz\<bar> > cap
      \<and> \<bar>if sd = LongSide then net + sz else net - sz\<bar> > \<bar>net\<bar>) \<longleftrightarrow> skewRoom net cap sd < sz"
  using assms by (cases sd) (auto simp: skewRoom_def Let_def abs_if)

lemma accepts_iff_rooms:
  "vaultAccepts i sd sz = Accepted \<longleftrightarrow> 0 < sz \<and> sz \<le> aggRoom i \<and> sz \<le> sideCapOf i - oiOf i sd
     \<and> sz \<le> skewRoom (longOi i - shortOi i) (skewCapOf i) sd \<and> sz \<le> liqRoom i"
  using skewRoom_exact [where sz = sz and sd = sd and net = "longOi i - shortOi i" and cap = "skewCapOf i"]
  by (auto simp: vaultAccepts_def Let_def aggRoom_def liqRoom_def)

text \<open>The smallest term of the four gates and a possible fifth.\<close>

lemma smallest_le:
  "sz \<le> snd (foldl (\<lambda>best t. if snd t < snd best then t else best) b ts) \<longleftrightarrow> sz \<le> snd b \<and> (\<forall>t \<in> set ts. sz \<le> snd t)"
  for sz :: int
  by (induction ts arbitrary: b) auto

lemma smallest_value:
  "sz \<le> snd (smallestTerm (roomTerms i sd)) \<longleftrightarrow> sz \<le> aggRoom i \<and> sz \<le> sideCapOf i - oiOf i sd
     \<and> sz \<le> skewRoom (longOi i - shortOi i) (skewCapOf i) sd \<and> sz \<le> liqRoom i
     \<and> (\<forall>m. maxPositionSize i = Some m \<longrightarrow> 0 < m \<longrightarrow> sz \<le> m)"
  unfolding smallestTerm_def smallest_le by (cases "maxPositionSize i") (simp_all add: roomTerms_def)

lemma headroom_eq: "headroomOf (computeHeadroom i) sd = forSide i sd"
  by (cases sd) (simp_all add: headroomOf_def computeHeadroom_def)

lemma smallest_binding:
  assumes "smallestTerm (roomTerms i sd) = (b, r)"
  shows "case b of
      Aggregate \<Rightarrow> r = aggRoom i
    | SideCap \<Rightarrow> r = sideCapOf i - oiOf i sd \<and> r < aggRoom i
    | Skew \<Rightarrow> r = skewRoom (longOi i - shortOi i) (skewCapOf i) sd \<and> r < aggRoom i \<and> r < sideCapOf i - oiOf i sd
    | Liquidity \<Rightarrow> r = liqRoom i \<and> r < aggRoom i \<and> r < sideCapOf i - oiOf i sd
        \<and> r < skewRoom (longOi i - shortOi i) (skewCapOf i) sd
    | MaxPosition \<Rightarrow> True"
  using assms
  by (cases "maxPositionSize i") (auto simp: smallestTerm_def roomTerms_def split: if_splits capacity_binding.split)

section \<open>Properties\<close>

text \<open>C23. Headroom is exact: on either side an open of positive size passes every gate of the vault (and
  the market's position limit, when there is one) exactly when it is within the headroom, for all states
  of the pool, over-committed ones included.\<close>

theorem headroom_exact:
  assumes "0 < sz"
  shows "(vaultAccepts i sd sz = Accepted \<and> (\<forall>m. maxPositionSize i = Some m \<longrightarrow> 0 < m \<longrightarrow> sz \<le> m))
     \<longleftrightarrow> sz \<le> headroom (headroomOf (computeHeadroom i) sd)"
proof -
  have "sz \<le> headroom (forSide i sd) \<longleftrightarrow> sz \<le> snd (smallestTerm (roomTerms i sd))"
    using assms by (auto simp: forSide_def floor0_def Let_def)
  then show ?thesis using assms by (simp add: headroom_eq smallest_value accepts_iff_rooms)
qed

definition samplePool :: capacity_inputs where
  "samplePool = \<lparr>aum = 1000, reservedPayout = 100, reserveCapBps = 8000, usdcBalance = 900, shortfallReserve = 0,
     assetCapBps = 5000, capAbs = 0, skewCapBps = 2000, longOi = 300, shortOi = 50, maxPositionSize = None\<rparr>"

theorem headroom_exact_witness:
  "vaultAccepts samplePool ShortSide 450 = Accepted \<and> headroom (headroomOf (computeHeadroom samplePool) ShortSide) = 450
   \<and> vaultAccepts samplePool ShortSide 451 = Rejected (Some SideCap)"
proof -
  have "headroom (headroomOf (computeHeadroom samplePool) ShortSide) = 450" by code_simp
  moreover from this have "vaultAccepts samplePool ShortSide 450 = Accepted"
    using headroom_exact [of 450 samplePool ShortSide] by simp
  moreover have "vaultAccepts samplePool ShortSide 451 = Rejected (Some SideCap)" by code_simp
  ultimately show ?thesis by simp
qed

text \<open>The binding gate is the one that fires: when no gate is already over its limit, one unit more than
  the headroom is rejected by exactly the gate reported, ties resolved in the vault's own order.\<close>

theorem binding_gate_fires:
  assumes "\<forall>t \<in> set (roomTerms i sd). 0 \<le> snd t"
    and "binding (headroomOf (computeHeadroom i) sd) \<noteq> MaxPosition"
  shows "vaultAccepts i sd (headroom (headroomOf (computeHeadroom i) sd) + 1)
     = Rejected (Some (binding (headroomOf (computeHeadroom i) sd)))"
proof -
  obtain b r where br: "smallestTerm (roomTerms i sd) = (b, r)" by fastforce
  have rooms: "0 \<le> aggRoom i" "0 \<le> sideCapOf i - oiOf i sd"
    "0 \<le> skewRoom (longOi i - shortOi i) (skewCapOf i) sd" "0 \<le> liqRoom i"
    using assms(1) by (auto simp: roomTerms_def)
  have "0 \<le> r" using smallest_value [of 0 i sd] br assms(1) rooms by (auto simp: roomTerms_def)
  then have h: "forSide i sd = \<lparr>headroom = r, binding = b\<rparr>" by (simp add: forSide_def br floor0_def)
  from assms(2) have "b \<noteq> MaxPosition" by (simp add: headroom_eq h)
  then have "vaultAccepts i sd (r + 1) = Rejected (Some b)"
    using smallest_binding [OF br] \<open>0 \<le> r\<close>
      skewRoom_exact [where sz = "r + 1" and sd = sd and net = "longOi i - shortOi i" and cap = "skewCapOf i"]
    by (cases b) (auto simp: vaultAccepts_def Let_def aggRoom_def liqRoom_def)
  then show ?thesis by (simp add: headroom_eq h)
qed

theorem binding_gate_witness:
  "binding (headroomOf (computeHeadroom samplePool) LongSide) = Skew
   \<and> Rejected (Some Skew) = vaultAccepts (samplePool\<lparr>longOi := 100\<rparr>) LongSide 151"
proof -
  have "\<forall>t \<in> set (roomTerms (samplePool\<lparr>longOi := 100\<rparr>) LongSide). 0 \<le> snd t"
    "binding (headroomOf (computeHeadroom (samplePool\<lparr>longOi := 100\<rparr>)) LongSide) = Skew"
    "headroom (headroomOf (computeHeadroom (samplePool\<lparr>longOi := 100\<rparr>)) LongSide) = 150"
    by code_simp+
  with binding_gate_fires [of "samplePool\<lparr>longOi := 100\<rparr>" LongSide]
  have "vaultAccepts (samplePool\<lparr>longOi := 100\<rparr>) LongSide 151 = Rejected (Some Skew)" by simp
  moreover have "binding (headroomOf (computeHeadroom samplePool) LongSide) = Skew" by code_simp
  ultimately show ?thesis by simp
qed

text \<open>The promise fails once a gate is over its limit: on an over-committed pool the reported binding
  gate is not the one that rejects the next unit.\<close>

theorem binding_gate_diverges:
  "\<exists>i sd. binding (headroomOf (computeHeadroom i) sd) = SideCap
     \<and> vaultAccepts i sd (headroom (headroomOf (computeHeadroom i) sd) + 1) = Rejected (Some Aggregate)"
proof (intro exI)
  let ?i = "samplePool\<lparr>reservedPayout := 801, longOi := 600, shortOi := 600\<rparr>"
  show "binding (headroomOf (computeHeadroom ?i) LongSide) = SideCap
     \<and> vaultAccepts ?i LongSide (headroom (headroomOf (computeHeadroom ?i) LongSide) + 1) = Rejected (Some Aggregate)"
    by code_simp
qed

end
