(* ===== verification/Deployment.thy ===== *)
theory Deployment
  imports JsString
begin

text \<open>
  Which deployment a service works on: the contract manifest with its environment overrides
  (\<open>packages/shared/src/contracts.ts\<close>) and the scope registry of the read models
  (\<open>packages/shared/src/scopes.ts\<close>). The environment is a map of variables; the manifest file, found and
  parsed elsewhere, is an argument (absent when there is none on disk).
\<close>

section \<open>Definitions: strings\<close>

definition to_upper :: "char \<Rightarrow> char" where
  "to_upper c = (if 97 \<le> char_code c \<and> char_code c \<le> 122 then char_of (char_code c - 32) else c)"

section \<open>Definitions: the contract manifest\<close>

type_synonym environment = "string \<Rightarrow> string option"

datatype contract_key =
    NoeracleShim | Noeracle | NoetherRouter | Vault | Market | UsdcToken | NoeToken | VaultFactory | Referral
  | MockOracle | OracleAdapter

definition keyName :: "contract_key \<Rightarrow> string" where
  "keyName k = (case k of
      NoeracleShim \<Rightarrow> ''noeracleShim'' | Noeracle \<Rightarrow> ''noeracle'' | NoetherRouter \<Rightarrow> ''noetherRouter''
    | Vault \<Rightarrow> ''vault'' | Market \<Rightarrow> ''market'' | UsdcToken \<Rightarrow> ''usdcToken'' | NoeToken \<Rightarrow> ''noeToken''
    | VaultFactory \<Rightarrow> ''vaultFactory'' | Referral \<Rightarrow> ''referral'' | MockOracle \<Rightarrow> ''mockOracle''
    | OracleAdapter \<Rightarrow> ''oracleAdapter'')"

record manifest =
  m_network :: string
  m_contracts :: "(contract_key, string) jmap"

definition contractEnvVar :: "contract_key \<Rightarrow> string" where
  "contractEnvVar k =
     ''CONTRACT_'' @ map to_upper (concat (map (\<lambda>c. if is_upper c then [CHR ''_'', c] else [c]) (keyName k)))"

text \<open>\<open>override && override.trim()\<close>.\<close>

definition envValue :: "environment \<Rightarrow> string \<Rightarrow> string option" where
  "envValue env v = (case env v of None \<Rightarrow> None | Some s \<Rightarrow> if trim s = [] then None else Some (trim s))"

definition getContract :: "environment \<Rightarrow> manifest option \<Rightarrow> contract_key \<Rightarrow> string + string" where
  "getContract env m k =
     (case envValue env (contractEnvVar k) of
        Some a \<Rightarrow> Inr a
      | None \<Rightarrow>
          (case m of
             None \<Rightarrow> Inl ''contracts.json not found''
           | Some mf \<Rightarrow>
               (case map_of (m_contracts mf) k of
                  Some a \<Rightarrow> if a = [] then Inl (''Contract '' @ keyName k @ '' not present in contracts.json'') else Inr a
                | None \<Rightarrow> Inl (''Contract '' @ keyName k @ '' not present in contracts.json''))))"

definition hasContract :: "environment \<Rightarrow> manifest \<Rightarrow> contract_key \<Rightarrow> bool" where
  "hasContract env m k \<longleftrightarrow> envValue env (contractEnvVar k) \<noteq> None
     \<or> (case map_of (m_contracts m) k of None \<Rightarrow> False | Some a \<Rightarrow> a \<noteq> [])"

definition resolvedManifest :: "environment \<Rightarrow> manifest \<Rightarrow> manifest" where
  "resolvedManifest env m = m\<lparr>m_contracts := map (\<lambda>(k, a). (k, case envValue env (contractEnvVar k) of None \<Rightarrow> a | Some b \<Rightarrow> b))
     (m_contracts m)\<rparr>"

datatype contract_source = FromEnv | FromManifest | Unset

definition resolvedContract :: "environment \<Rightarrow> manifest \<Rightarrow> contract_key \<Rightarrow> string \<times> contract_source" where
  "resolvedContract env m k =
     (case envValue env (contractEnvVar k) of
        Some a \<Rightarrow> (a, FromEnv)
      | None \<Rightarrow>
          (case map_of (m_contracts m) k of
             Some a \<Rightarrow> if a = [] then ([], Unset) else (a, FromManifest)
           | None \<Rightarrow> ([], Unset)))"

definition resolvedContracts ::
    "environment \<Rightarrow> manifest \<Rightarrow> contract_key list \<Rightarrow> (contract_key, string \<times> contract_source) jmap" where
  "resolvedContracts env m ks = fold (\<lambda>k. jset k (resolvedContract env m k)) ks []"

section \<open>Definitions: scopes\<close>

datatype scope_id = Testnet | Mainnet
datatype scope_network = TestnetNetwork | PublicNetwork

record deployment_scope =
  ds_id :: scope_id
  ds_network :: scope_network
  ds_label :: string
  ds_marketIds :: "string list"
  ds_legacyScopeKey :: "string option"

definition parseIdList :: "string option \<Rightarrow> string list option" where
  "parseIdList raw =
     (case raw of
        None \<Rightarrow> None
      | Some s \<Rightarrow>
          if s = [] then None
          else let ids = filter (\<lambda>w. w \<noteq> []) (map trim (splitOn CHR '','' s))
               in if ids = [] then None else Some ids)"

text \<open>\<open>currentMarketId\<close> is the caller's configured market; the empty string counts as absent.\<close>

definition testnetMarketIds :: "environment \<Rightarrow> manifest option \<Rightarrow> string \<Rightarrow> string list" where
  "testnetMarketIds env m currentMarketId =
     (case parseIdList (env ''SCOPE_TESTNET_MARKET_IDS'') of
        Some ids \<Rightarrow> ids
      | None \<Rightarrow>
          if currentMarketId \<noteq> [] then [currentMarketId]
          else (case getContract env m Market of Inr a \<Rightarrow> [a] | Inl _ \<Rightarrow> []))"

definition mainnetMarketIds :: "environment \<Rightarrow> string list" where
  "mainnetMarketIds env = (case parseIdList (env ''SCOPE_MAINNET_MARKET_IDS'') of Some ids \<Rightarrow> ids | None \<Rightarrow> [])"

definition resolveScope :: "environment \<Rightarrow> manifest option \<Rightarrow> string \<Rightarrow> string \<Rightarrow> deployment_scope option" where
  "resolveScope env m currentMarketId i =
     (let scopeId = (if i = [] then ''testnet'' else i)
      in if scopeId = ''testnet''
         then Some \<lparr>ds_id = Testnet, ds_network = TestnetNetwork, ds_label = ''Stellar Testnet'',
                    ds_marketIds = testnetMarketIds env m currentMarketId, ds_legacyScopeKey = Some ''testnet''\<rparr>
         else if scopeId = ''mainnet''
         then Some \<lparr>ds_id = Mainnet, ds_network = PublicNetwork, ds_label = ''Stellar Mainnet'',
                    ds_marketIds = mainnetMarketIds env, ds_legacyScopeKey = None\<rparr>
         else None)"

definition scopeFromEnv :: "environment \<Rightarrow> manifest option \<Rightarrow> string \<Rightarrow> string + deployment_scope" where
  "scopeFromEnv env m currentMarketId =
     (let raw = (case env ''LEADERBOARD_SCOPE'' of None \<Rightarrow> [] | Some s \<Rightarrow> trim s)
      in case resolveScope env m currentMarketId raw of
           None \<Rightarrow> Inl (''LEADERBOARD_SCOPE is set to an unknown scope '' @ raw)
         | Some s \<Rightarrow> Inr s)"

definition networkName :: "scope_network \<Rightarrow> string" where
  "networkName n = (case n of TestnetNetwork \<Rightarrow> ''testnet'' | PublicNetwork \<Rightarrow> ''public'')"

definition scopeServedByNetwork :: "deployment_scope \<Rightarrow> string \<Rightarrow> bool" where
  "scopeServedByNetwork s network \<longleftrightarrow> networkName (ds_network s) = (if network = ''mainnet'' then ''public'' else network)"

section \<open>Lemmas\<close>

definition allKeys :: "contract_key list" where
  "allKeys = [NoeracleShim, Noeracle, NoetherRouter, Vault, Market, UsdcToken, NoeToken, VaultFactory, Referral,
     MockOracle, OracleAdapter]"

lemma contractEnvVar_inj: "contractEnvVar k = contractEnvVar l \<Longrightarrow> k = l"
proof -
  have "k \<in> set allKeys" for k by (cases k) (simp_all add: allKeys_def)
  moreover have "distinct (map contractEnvVar allKeys)"
    by (simp add: allKeys_def contractEnvVar_def keyName_def to_upper_def is_upper_def char_code_def)
  ultimately show "contractEnvVar k = contractEnvVar l \<Longrightarrow> k = l"
    unfolding distinct_map inj_on_def by blast
qed

lemma map_of_resolved:
  "map_of (m_contracts (resolvedManifest env m)) k =
     (case map_of (m_contracts m) k of None \<Rightarrow> None
      | Some a \<Rightarrow> Some (case envValue env (contractEnvVar k) of None \<Rightarrow> a | Some b \<Rightarrow> b))"
proof -
  have "map_of (map (\<lambda>(k, a). (k, case envValue env (contractEnvVar k) of None \<Rightarrow> a | Some b \<Rightarrow> b)) cs) k =
     (case map_of cs k of None \<Rightarrow> None
      | Some a \<Rightarrow> Some (case envValue env (contractEnvVar k) of None \<Rightarrow> a | Some b \<Rightarrow> b))" for cs
    by (induction cs) (auto split: option.split)
  then show ?thesis by (simp add: resolvedManifest_def)
qed

section \<open>Properties\<close>

text \<open>An environment override repoints exactly one contract: setting the variable of one contract changes the
  answer for that contract to the trimmed value and for no other, in every reader of the manifest
  alike (direct lookup, resolved manifest, health report).\<close>

theorem override_repoints_one:
  assumes "map_of (m_contracts m) k = Some a" "trim v \<noteq> []"
  shows "let env' = env(contractEnvVar k \<mapsto> v) in
     getContract env' (Some m) k = Inr (trim v)
     \<and> map_of (m_contracts (resolvedManifest env' m)) k = Some (trim v)
     \<and> resolvedContract env' m k = (trim v, FromEnv)
     \<and> (\<forall>l. l = k \<or> (getContract env' (Some m) l = getContract env (Some m) l
          \<and> map_of (m_contracts (resolvedManifest env' m)) l = map_of (m_contracts (resolvedManifest env m)) l
          \<and> resolvedContract env' m l = resolvedContract env m l))"
proof -
  have own: "envValue (env(contractEnvVar k \<mapsto> v)) (contractEnvVar k) = Some (trim v)"
    using assms(2) by (simp add: envValue_def)
  have other: "envValue (env(contractEnvVar k \<mapsto> v)) (contractEnvVar l) = envValue env (contractEnvVar l)" if "l \<noteq> k" for l
    using that contractEnvVar_inj by (auto simp: envValue_def)
  have "l = k \<or> (getContract (env(contractEnvVar k \<mapsto> v)) (Some m) l = getContract env (Some m) l
          \<and> map_of (m_contracts (resolvedManifest (env(contractEnvVar k \<mapsto> v)) m)) l = map_of (m_contracts (resolvedManifest env m)) l
          \<and> resolvedContract (env(contractEnvVar k \<mapsto> v)) m l = resolvedContract env m l)" for l
    using other [of l] by (cases "l = k") (simp_all add: getContract_def resolvedContract_def map_of_resolved split: option.split)
  then show ?thesis
    using assms(1) own by (simp add: Let_def getContract_def resolvedContract_def map_of_resolved)
qed

definition sampleManifest :: manifest where
  "sampleManifest = \<lparr>m_network = ''testnet'', m_contracts = [(Market, ''CMARKET''), (Vault, ''CVAULT'')]\<rparr>"

theorem override_witness:
  "getContract (Map.empty(''CONTRACT_MARKET'' \<mapsto> '' CNEW '')) (Some sampleManifest) Market = Inr ''CNEW''
   \<and> getContract (Map.empty(''CONTRACT_MARKET'' \<mapsto> '' CNEW '')) (Some sampleManifest) Vault = Inr ''CVAULT''"
proof -
  have var: "contractEnvVar Market = ''CONTRACT_MARKET''" and t: "trim '' CNEW '' = ''CNEW''" by code_simp+
  have "map_of (m_contracts sampleManifest) Market = Some ''CMARKET''" by (simp add: sampleManifest_def)
  from override_repoints_one [OF this, of "'' CNEW ''" Map.empty]
  have "getContract (Map.empty(''CONTRACT_MARKET'' \<mapsto> '' CNEW '')) (Some sampleManifest) Market = Inr ''CNEW''"
    "getContract (Map.empty(''CONTRACT_MARKET'' \<mapsto> '' CNEW '')) (Some sampleManifest) Vault
       = getContract Map.empty (Some sampleManifest) Vault"
    unfolding var t Let_def by auto
  then show ?thesis by (simp add: getContract_def envValue_def sampleManifest_def)
qed

text \<open>A mainnet page never shows testnet rows: the mainnet scope depends on its own variable alone (no
  configured market, no manifest, no testnet variable leaks in), is empty until that variable names a
  market, and inherits no legacy rows; and an unknown scope name never resolves.\<close>

theorem mainnet_scope_isolated:
  "(\<forall>env m c env' m' c'. env ''SCOPE_MAINNET_MARKET_IDS'' = env' ''SCOPE_MAINNET_MARKET_IDS'' \<longrightarrow>
      resolveScope env m c ''mainnet'' = resolveScope env' m' c' ''mainnet'')
   \<and> (\<exists>s. resolveScope env m c ''mainnet'' = Some s \<and> ds_legacyScopeKey s = None \<and> ds_network s = PublicNetwork
        \<and> (parseIdList (env ''SCOPE_MAINNET_MARKET_IDS'') = None \<longrightarrow> ds_marketIds s = []))
   \<and> (resolveScope env m c i = None \<longleftrightarrow> i \<notin> {[], ''testnet'', ''mainnet''})"
  by (auto simp: resolveScope_def mainnetMarketIds_def)

theorem mainnet_scope_witness:
  "ds_marketIds (the (resolveScope (Map.empty(''SCOPE_TESTNET_MARKET_IDS'' \<mapsto> ''CA,CB'')) (Some sampleManifest) ''CLIVE'' ''mainnet'')) = []"
  using mainnet_scope_isolated [of "Map.empty(''SCOPE_TESTNET_MARKET_IDS'' \<mapsto> ''CA,CB'')" "Some sampleManifest" "''CLIVE''" "[]"]
  by (auto simp: parseIdList_def)

end
