(* ===== verification/Precision.thy ===== *)
theory Precision
  imports JsString
begin

text \<open>
  Display of fixed-point amounts (\<open>formatPrecision\<close> of \<open>packages/shared/src/precision.ts\<close>): seven-decimal
  integers as decimal strings, by bigint arithmetic and string slicing. The conversions through
  floating-point numbers of the same file are not modelled.
\<close>

section \<open>Definitions\<close>

definition PRECISION_DECIMALS :: nat where "PRECISION_DECIMALS = 7"

definition padStart :: "nat \<Rightarrow> char \<Rightarrow> string \<Rightarrow> string" where
  "padStart n c s = replicate (n - length s) c @ s"

definition formatPrecision :: "int \<Rightarrow> nat \<Rightarrow> nat \<Rightarrow> string" where
  "formatPrecision value decimals displayDecimals =
     (let negative = value < 0; abs = nat \<bar>value\<bar>; divisor = 10 ^ decimals;
          whole = abs div divisor; frac = abs mod divisor;
          fracStr = padStart decimals CHR ''0'' (show_nat frac);
          trimmed = (if displayDecimals \<ge> decimals then fracStr else take displayDecimals fracStr);
          sign = (if negative then ''-'' else [])
      in if displayDecimals = 0 then sign @ show_nat whole else sign @ show_nat whole @ ''.'' @ trimmed)"

section \<open>Lemmas\<close>

lemma parse_nat_append: "parse_nat (a @ b) = parse_nat a * 10 ^ length b + parse_nat b"
proof (induction b rule: rev_induct)
  case (snoc c b)
  then show ?case unfolding append_assoc [symmetric] parse_nat_snoc by (simp add: algebra_simps)
qed (simp add: parse_nat_def)

lemma parse_nat_zeros [simp]: "parse_nat (replicate n CHR ''0'' @ s) = parse_nat s"
proof -
  have "parse_nat (replicate n CHR ''0'') = 0"
    by (induction n) (simp_all add: parse_nat_def char_code_def)
  then show ?thesis by (simp add: parse_nat_append)
qed

lemma parse_nat_bound: "\<forall>c \<in> set s. is_digit c \<Longrightarrow> parse_nat s < 10 ^ length s"
proof (induction s rule: rev_induct)
  case (snoc c s)
  then have "parse_nat s + 1 \<le> 10 ^ length s" "char_code c - 48 < 10" by (auto simp: is_digit_def)
  then have "10 * (parse_nat s + 1) \<le> 10 * 10 ^ length s" by (intro mult_le_mono2)
  with \<open>char_code c - 48 < 10\<close> show ?case by (simp add: parse_nat_snoc)
qed (simp add: parse_nat_def)

lemma parse_nat_take:
  assumes "\<forall>c \<in> set s. is_digit c" "k \<le> length s"
  shows "parse_nat (take k s) = parse_nat s div 10 ^ (length s - k)"
proof -
  have "parse_nat s = parse_nat (take k s) * 10 ^ (length s - k) + parse_nat (drop k s)"
    using parse_nat_append [of "take k s" "drop k s"] by simp
  moreover have "parse_nat (drop k s) < 10 ^ (length s - k)"
    using parse_nat_bound [of "drop k s"] assms(1) by (auto dest: in_set_dropD)
  ultimately show ?thesis by simp
qed

lemma show_nat_short: "0 < d \<Longrightarrow> n < 10 ^ d \<Longrightarrow> length (show_nat n) \<le> d"
proof (induction d arbitrary: n)
  case (Suc d)
  show ?case
  proof (cases "n < 10")
    case True
    then show ?thesis by (subst show_nat.simps) simp
  next
    case False
    with Suc.prems have "n div 10 < 10 ^ d" "0 < d" by (auto simp: less_mult_imp_div_less mult.commute intro: gr0I)
    with Suc.IH False show ?thesis by (subst show_nat.simps) simp
  qed
qed simp

lemma padded:
  assumes "0 < d" "n < 10 ^ d"
  shows "length (padStart d CHR ''0'' (show_nat n)) = d" "parse_nat (padStart d CHR ''0'' (show_nat n)) = n"
    "\<forall>c \<in> set (padStart d CHR ''0'' (show_nat n)). is_digit c"
  using show_nat_short [OF assms] show_nat_digits [of n]
  by (auto simp: padStart_def parse_show_nat is_digit_def char_code_def)

section \<open>Properties\<close>

text \<open>Formatting loses nothing it shows: the string is the sign, the whole digits, and (unless no decimals are
  displayed) a point and exactly the displayed number of decimals; read as one number its digits are the
  amount truncated toward zero to those decimals, and the amount itself when all decimals are shown.\<close>

theorem format_reads_back:
  assumes "0 < decimals"
  shows "\<exists>w f. formatPrecision value decimals displayDecimals
       = (if value < 0 then ''-'' else []) @ w @ (if displayDecimals = 0 then [] else CHR ''.'' # f)
     \<and> length f = min displayDecimals decimals \<and> (\<forall>c \<in> set (w @ f). is_digit c)
     \<and> parse_nat (w @ f) = nat \<bar>value\<bar> div 10 ^ (decimals - min displayDecimals decimals)"
proof -
  let ?n = "nat \<bar>value\<bar>" and ?k = "min displayDecimals decimals"
  let ?w = "show_nat (?n div 10 ^ decimals)" and ?s = "padStart decimals CHR ''0'' (show_nat (?n mod 10 ^ decimals))"
  note s = padded [OF assms, of "?n mod 10 ^ decimals"]
  have digits: "\<forall>c \<in> set (?w @ ?s). is_digit c" using s(3) show_nat_digits by auto
  have "parse_nat (?w @ ?s) = ?n"
    using s div_mult_mod_eq [of ?n "10 ^ decimals"] by (simp add: parse_nat_append parse_show_nat)
  moreover have "take (length ?w + ?k) (?w @ ?s) = ?w @ take ?k ?s" by simp
  ultimately have "parse_nat (?w @ take ?k ?s) = ?n div 10 ^ (decimals - ?k)"
    using parse_nat_take [OF digits, of "length ?w + ?k"] s(1) by simp
  moreover have "\<forall>c \<in> set (?w @ take ?k ?s). is_digit c" using digits by (auto dest: in_set_takeD)
  moreover have "formatPrecision value decimals displayDecimals
      = (if value < 0 then ''-'' else []) @ ?w @ (if displayDecimals = 0 then [] else CHR ''.'' # take ?k ?s)"
    using s(1) by (simp add: formatPrecision_def Let_def min_def)
  moreover have "length (take ?k ?s) = ?k" using s(1) by simp
  ultimately show ?thesis by (intro exI [of _ ?w] exI [of _ "take ?k ?s"] conjI)
qed

theorem format_reads_back_witness:
  "\<exists>w f. formatPrecision (-123) 2 1 = ''-'' @ w @ CHR ''.'' # f \<and> formatPrecision (-123) 2 1 = ''-1.2''
     \<and> length f = 1 \<and> parse_nat (w @ f) = 12"
proof -
  have "char_of (49 :: nat) = CHR ''1''" "char_of (50 :: nat) = CHR ''2''" "char_of (51 :: nat) = CHR ''3''"
    by (simp_all add: char_of_def bit_iff_odd)
  then have "show_nat 1 = ''1''" "show_nat 23 = ''23''"
    by (simp_all add: show_nat.simps [of 1] show_nat.simps [of 23] show_nat.simps [of 2] del: One_nat_def)
  then have eq: "formatPrecision (-123) 2 1 = ''-1.2''"
    by (simp add: formatPrecision_def padStart_def Let_def)
  have "0 < (2 :: nat)" by simp
  from format_reads_back [OF this, of "-123" 1] obtain w f where
    a: "formatPrecision (-123) 2 1 = (if (-123::int) < 0 then ''-'' else []) @ w @ (if (1::nat) = 0 then [] else CHR ''.'' # f)"
    and b: "length f = min 1 2" and c: "parse_nat (w @ f) = nat \<bar>-123::int\<bar> div 10 ^ (2 - min 1 2)"
    by blast
  from a have "formatPrecision (-123) 2 1 = ''-'' @ w @ CHR ''.'' # f" by simp
  moreover from b have "length f = 1" by simp
  moreover from c have "parse_nat (w @ f) = 12" by simp
  ultimately show ?thesis using eq by (intro exI [of _ w] exI [of _ f] conjI)
qed

end
