(* ===== verification/SqlRewrite.thy ===== *)
theory SqlRewrite
  imports JsString
begin

text \<open>
  The placeholder rewriter of the database layer (\<open>packages/db/src/rewrite.ts\<close>): \<open>?\<close> becomes \<open>$1\<close>,
  \<open>$2\<close>, \dots outside comments, string literals, quoted identifiers and dollar-quoted strings; inputs
  that mix both styles or use the jsonb operators throw.
\<close>

section \<open>Definitions: one token\<close>

datatype sql_error = JsonbOperator char | MixedStyles

text \<open>\<open>s.indexOf(p)\<close>.\<close>

fun indexOf :: "string \<Rightarrow> string \<Rightarrow> nat option" where
  "indexOf p [] = (if p = [] then Some 0 else None)"
| "indexOf p (c # s) = (if starts_with p (c # s) then Some 0 else map_option Suc (indexOf p s))"

text \<open>The inner loop over a string literal, after its opening quote: what it consumes.\<close>

fun literalLength :: "string \<Rightarrow> nat" where
  "literalLength [] = 0"
| "literalLength (c # s) =
     (if c = CHR 0x27
      then (case s of [] \<Rightarrow> 1 | d # s' \<Rightarrow> if d = CHR 0x27 then 2 + literalLength s' else 1)
      else 1 + literalLength s)"

definition is_letter :: "char \<Rightarrow> bool" where
  "is_letter c \<longleftrightarrow> (65 \<le> char_code c \<and> char_code c \<le> 90) \<or> (97 \<le> char_code c \<and> char_code c \<le> 122)
     \<or> c = CHR ''_''"

text \<open>\<open>/^\$(?:[A-Za-z_][A-Za-z0-9_]*)?\$/\<close> on a string that starts with a dollar sign.\<close>

definition dollarTag :: "string \<Rightarrow> string option" where
  "dollarTag s =
     (let body = takeWhile (\<lambda>c. is_letter c \<or> is_digit c) (tl s); rest = drop (length body) (tl s)
      in if starts_with ''$'' rest \<and> (body = [] \<or> is_letter (hd body)) then Some (''$'' @ body @ ''$'') else None)"

text \<open>
  How many characters of a string that is not empty the loop copies verbatim in one step, and whether the step
  saw a numbered parameter; nothing when the step is at a placeholder.
\<close>

definition commentLength :: "string \<Rightarrow> nat" where
  "commentLength s = (case indexOf [CHR 0x0A] s of None \<Rightarrow> length s | Some e \<Rightarrow> e)"

definition blockLength :: "string \<Rightarrow> nat" where
  "blockLength s = (case indexOf ''*/'' (drop 2 s) of None \<Rightarrow> length s | Some e \<Rightarrow> e + 4)"

definition identLength :: "string \<Rightarrow> nat" where
  "identLength s = min (length (takeWhile (\<lambda>c. c \<noteq> CHR 0x22) (tl s)) + 2) (length s)"

definition dollarLength :: "string \<Rightarrow> string \<Rightarrow> nat" where
  "dollarLength tag s = (case indexOf tag (drop (length tag) s) of None \<Rightarrow> length s | Some e \<Rightarrow> e + 2 * length tag)"

definition copyLength :: "string \<Rightarrow> (nat \<times> bool) option" where
  "copyLength s =
     (if starts_with ''--'' s then Some (commentLength s, False)
      else if starts_with ''/*'' s then Some (blockLength s, False)
      else if starts_with [CHR 0x27] s then Some (1 + literalLength (tl s), False)
      else if starts_with [CHR 0x22] s then Some (identLength s, False)
      else if starts_with ''$'' s
      then (case dollarTag s of
              Some tag \<Rightarrow> Some (dollarLength tag s, False)
            | None \<Rightarrow>
                let digits = takeWhile is_digit (tl s)
                in if digits \<noteq> [] then Some (1 + length digits, True) else Some (1, False))
      else if starts_with ''?'' s then None
      else Some (1, False))"

section \<open>Definitions: the loop\<close>

function scan :: "string \<Rightarrow> string \<Rightarrow> nat \<Rightarrow> bool \<Rightarrow> sql_error + string \<times> nat \<times> bool" where
  "scan [] out param sawPositional = Inr (out, param, sawPositional)"
| "scan (c # s) out param sawPositional =
     (case copyLength (c # s) of
        Some (k, pos) \<Rightarrow>
          scan (drop (max 1 k) (c # s)) (out @ take k (c # s)) param (sawPositional \<or> pos)
      | None \<Rightarrow>
          if s \<noteq> [] \<and> (hd s = CHR ''|'' \<or> hd s = CHR ''&'') then Inl (JsonbOperator (hd s))
          else scan s (out @ ''$'' @ show_nat (param + 1)) (param + 1) sawPositional)"
  by pat_completeness auto
termination by (relation "measure (\<lambda>(s, _). length s)") auto

definition rewriteWithCount :: "string \<Rightarrow> sql_error + string \<times> nat" where
  "rewriteWithCount sql =
     (case scan sql [] 0 False of
        Inl e \<Rightarrow> Inl e
      | Inr (out, param, sawPositional) \<Rightarrow> if sawPositional \<and> param > 0 then Inl MixedStyles else Inr (out, param))"

definition rewritePlaceholders :: "string \<Rightarrow> sql_error + string" where
  "rewritePlaceholders sql = map_sum id fst (rewriteWithCount sql)"

section \<open>Lemmas\<close>

text \<open>The statement as a list of tokens: copied text (a numbered parameter or not), and placeholders.\<close>

datatype sql_token = Copied string bool | Question

primrec sourceText :: "sql_token \<Rightarrow> string" where
  "sourceText (Copied t _) = t"
| "sourceText Question = ''?''"

primrec numberFrom :: "nat \<Rightarrow> sql_token list \<Rightarrow> string" where
  "numberFrom n [] = []"
| "numberFrom n (t # ts) =
     (case t of Copied x _ \<Rightarrow> x @ numberFrom n ts | Question \<Rightarrow> ''$'' @ show_nat (n + 1) @ numberFrom (n + 1) ts)"

definition questions :: "sql_token list \<Rightarrow> nat" where
  "questions ts = length (filter (\<lambda>t. t = Question) ts)"

definition numbered :: "sql_token list \<Rightarrow> bool" where
  "numbered ts \<longleftrightarrow> (\<exists>x. Copied x True \<in> set ts)"

text \<open>Text that may hold a question mark: a comment, a literal, a quoted identifier, a dollar-quoted string.\<close>

definition protectedText :: "string \<Rightarrow> bool" where
  "protectedText t \<longleftrightarrow> starts_with ''--'' t \<or> starts_with ''/*'' t \<or> starts_with [CHR 0x27] t \<or> starts_with [CHR 0x22] t
     \<or> (\<exists>tag. dollarTag t = Some tag)"

definition guardedToken :: "sql_token \<Rightarrow> bool" where
  "guardedToken t \<longleftrightarrow> (case t of Copied x _ \<Rightarrow> CHR ''?'' \<in> set x \<longrightarrow> protectedText x | Question \<Rightarrow> True)"

lemma starts_with_length: "starts_with p s \<Longrightarrow> length p \<le> length s"
  by (auto simp: starts_with_iff)

lemma indexOf_bound: "indexOf p s = Some e \<Longrightarrow> e + length p \<le> length s"
  by (induction s arbitrary: e) (auto dest: starts_with_length split: if_splits)

lemma indexOf_start: "indexOf [a] (b # s) = Some 0 \<longleftrightarrow> a = b"
  by (auto simp: starts_with_def)

lemma copyLength_pos: "s \<noteq> [] \<Longrightarrow> copyLength s = Some (k, b) \<Longrightarrow> 1 \<le> k"
  by (auto simp: copyLength_def commentLength_def blockLength_def identLength_def dollarLength_def Let_def Suc_le_eq
      starts_with_def indexOf_start dollarTag_def split: if_splits option.splits) (cases s; auto simp: starts_with_def)+

lemma starts_with_take: "starts_with p s \<Longrightarrow> length p \<le> k \<Longrightarrow> starts_with p (take k s)"
  by (simp add: starts_with_def min_def)

lemma dollarTag_take:
  assumes "dollarTag s = Some tag" "length tag \<le> k"
  shows "dollarTag (take k s) = Some tag"
proof (cases s)
  case Nil
  then show ?thesis using assms by (simp add: dollarTag_def starts_with_def Let_def)
next
  case (Cons c r)
  let ?P = "\<lambda>c. is_letter c \<or> is_digit c"
  let ?b = "takeWhile ?P r"
  have tag: "tag = ''$'' @ ?b @ ''$''" "starts_with ''$'' (drop (length ?b) r)" "?b = [] \<or> is_letter (hd ?b)"
    using assms(1) Cons by (auto simp: dollarTag_def Let_def split: if_splits)
  then obtain t where t: "drop (length ?b) r = CHR ''$'' # t" by (auto simp: starts_with_iff)
  obtain j where j: "k = length ?b + 2 + j" using assms(2) tag(1) by (auto simp: le_iff_add)
  have r: "r = ?b @ CHR ''$'' # t" using t by (metis append_take_drop_id takeWhile_eq_take)
  then have "take k s = c # ?b @ CHR ''$'' # take j t"
    using Cons j by (metis (no_types, lifting) add.commute append_eq_conv_conj plus_nat.simps(2) add_2_eq_Suc take_Suc_Cons take_add append_take_drop_id drop_append)
  moreover have "takeWhile ?P (?b @ CHR ''$'' # take j t) = ?b"
    by (subst takeWhile_append2) (auto simp: is_letter_def is_digit_def char_code_def dest: set_takeWhileD)
  ultimately show ?thesis using tag by (simp add: dollarTag_def Let_def starts_with_def)
qed


lemma copied_guarded:
  assumes "s \<noteq> []" "copyLength s = Some (k, b)"
  shows "guardedToken (Copied (take k s) b)"
proof -
  have one: "CHR ''?'' \<notin> set (take 1 s)" if "\<not> starts_with ''?'' s"
    using that assms(1) by (cases s) (auto simp: starts_with_def)
  have line_len: "2 \<le> commentLength s" if "starts_with ''--'' s"
    using that by (auto simp: commentLength_def starts_with_iff split: option.split)
  have block_len: "2 \<le> blockLength s" if "starts_with ''/*'' s"
    using that by (auto simp: blockLength_def starts_with_iff split: option.split)
  have digits: "CHR ''?'' \<notin> set (take (Suc (length (takeWhile is_digit (tl s)))) s)" if "starts_with ''$'' s"
    using that set_takeWhileD [of "CHR ''?''" is_digit]
    by (auto simp: starts_with_iff takeWhile_eq_take [symmetric] is_digit_def char_code_def)
  have dollar: "length tag \<le> dollarLength tag s" if "dollarTag s = Some tag" for tag
  proof -
    have "length tag \<le> length s"
      using that by (cases s) (auto simp: dollarTag_def Let_def dest!: starts_with_length split: if_splits)
    then show ?thesis by (simp add: dollarLength_def split: option.split)
  qed
  have k: "1 \<le> k" by (rule copyLength_pos [OF assms])
  consider (line) "starts_with ''--'' s" "k = commentLength s" | (block) "starts_with ''/*'' s" "k = blockLength s"
    | (lit) "starts_with [CHR 0x27] s" | (ident) "starts_with [CHR 0x22] s"
    | (tag) tag where "dollarTag s = Some tag" "k = dollarLength tag s"
    | (num) "starts_with ''$'' s" "k = Suc (length (takeWhile is_digit (tl s)))"
    | (single) "k = 1" "\<not> starts_with ''?'' s"
    using assms(2) unfolding copyLength_def Let_def
    by (auto split: if_split_asm option.split_asm simp: starts_with_def)
  then have "protectedText (take k s) \<or> CHR ''?'' \<notin> set (take k s)"
  proof cases
    case line
    then have "starts_with ''--'' (take k s)" using line_len by (intro starts_with_take) simp_all
    then show ?thesis by (simp add: protectedText_def)
  next
    case block
    then have "starts_with ''/*'' (take k s)" using block_len by (intro starts_with_take) simp_all
    then show ?thesis by (simp add: protectedText_def)
  next
    case lit
    then have "starts_with [CHR 0x27] (take k s)" using k by (intro starts_with_take) simp_all
    then show ?thesis by (simp add: protectedText_def)
  next
    case ident
    then have "starts_with [CHR 0x22] (take k s)" using k by (intro starts_with_take) simp_all
    then show ?thesis by (simp add: protectedText_def)
  next
    case tag
    then show ?thesis using dollarTag_take [OF tag(1)] dollar [OF tag(1)] by (auto simp: protectedText_def)
  next
    case num
    then show ?thesis using digits by simp
  next
    case single
    then show ?thesis using one by simp
  qed
  then show ?thesis by (auto simp: guardedToken_def)
qed

lemma guarded_Question: "guardedToken Question"
  by (simp add: guardedToken_def)

lemma scan_tokens:
  "scan s out p saw = Inr (out', p', saw') \<Longrightarrow>
   \<exists>ts. concat (map sourceText ts) = s \<and> out' = out @ numberFrom p ts \<and> p' = p + questions ts
     \<and> saw' = (saw \<or> numbered ts) \<and> list_all guardedToken ts"
proof (induction s out p saw rule: scan.induct)
  case (1 out p saw)
  then show ?case by (intro exI [of _ "[]"]) (simp add: questions_def numbered_def)
next
  case (2 c s out p saw)
  show ?case
  proof (cases "copyLength (c # s)")
    case (Some kb)
    then obtain k b where kb: "copyLength (c # s) = Some (k, b)" by (cases kb) auto
    have k: "max 1 k = k" using copyLength_pos [OF _ kb] by simp
    have "scan (drop (max 1 k) (c # s)) (out @ take k (c # s)) p (saw \<or> b) = Inr (out', p', saw')"
      using 2(3) kb by simp
    from 2(2) [OF kb refl this] obtain ts where ts:
      "concat (map sourceText ts) = drop k (c # s)" "out' = (out @ take k (c # s)) @ numberFrom p ts"
      "p' = p + questions ts" "saw' = ((saw \<or> b) \<or> numbered ts)" "list_all guardedToken ts"
      unfolding k by blast
    have "guardedToken (Copied (take k (c # s)) b)" by (rule copied_guarded [OF _ kb]) simp
    with ts show ?thesis
      by (intro exI [of _ "Copied (take k (c # s)) b # ts"]) (auto simp: questions_def numbered_def)
  next
    case None
    have q: "c = CHR ''?''"
      using None by (auto simp: copyLength_def starts_with_def Let_def split: if_splits option.splits)
    with 2(3) None have "\<not> (s \<noteq> [] \<and> (hd s = CHR ''|'' \<or> hd s = CHR ''&''))"
      and "scan s (out @ ''$'' @ show_nat (p + 1)) (p + 1) saw = Inr (out', p', saw')"
      by (simp_all split: if_splits)
    from 2(1) [OF None this] obtain ts where
      "concat (map sourceText ts) = s" "out' = (out @ ''$'' @ show_nat (p + 1)) @ numberFrom (p + 1) ts"
      "p' = p + 1 + questions ts" "saw' = (saw \<or> numbered ts)" "list_all guardedToken ts" by blast
    then show ?thesis
      using q by (intro exI [of _ "Question # ts"]) (auto simp: questions_def numbered_def guarded_Question)
  qed
qed

section \<open>Properties\<close>

text \<open>The rewrite changes placeholders and nothing else: a statement that is accepted is a sequence of
  copied texts and placeholders; the output is the same sequence with the placeholders numbered from one
  in order, as many as reported; a question mark inside copied text stands in a comment, a literal, a
  quoted identifier or a dollar-quoted string; and numbered parameters never stand beside placeholders.\<close>

theorem rewrite_only_placeholders:
  assumes "rewriteWithCount sql = Inr (out, n)"
  shows "\<exists>ts. concat (map sourceText ts) = sql \<and> out = numberFrom 0 ts \<and> n = questions ts
     \<and> list_all guardedToken ts \<and> (n = 0 \<or> \<not> numbered ts)"
proof -
  from assms obtain p saw where s: "scan sql [] 0 False = Inr (out, p, saw)" "\<not> (saw \<and> p > 0)" "p = n"
    by (auto simp: rewriteWithCount_def split: sum.splits prod.splits if_splits)
  from scan_tokens [OF s(1)] s(2,3) show ?thesis by auto
qed

lemma numberFrom_none: "questions ts = 0 \<Longrightarrow> numberFrom n ts = concat (map sourceText ts)"
  by (induction ts) (auto simp: questions_def split: sql_token.split)

text \<open>A statement without placeholders passes through untouched: when nothing was rewritten, the
  output is the input, whatever comments, literals and numbered parameters it has.\<close>

theorem rewrite_untouched:
  assumes "rewriteWithCount sql = Inr (out, 0)"
  shows "out = sql"
proof -
  obtain p saw where "scan sql [] 0 False = Inr (out, p, saw)" "p = 0"
    using assms by (auto simp: rewriteWithCount_def split: sum.splits prod.splits if_splits)
  from scan_tokens [OF this(1)] this(2) show ?thesis by (auto simp: numberFrom_none)
qed

theorem rewrite_only_placeholders_witness:
  "\<exists>out ts. rewriteWithCount [CHR ''?'', CHR 0x27, CHR ''?'', CHR 0x27] = Inr (out, 1)
     \<and> concat (map sourceText ts) = [CHR ''?'', CHR 0x27, CHR ''?'', CHR 0x27] \<and> out = numberFrom 0 ts
     \<and> questions ts = 1 \<and> list_all guardedToken ts"
proof -
  have eq: "rewriteWithCount [CHR ''?'', CHR 0x27, CHR ''?'', CHR 0x27]
      = Inr (''$'' @ show_nat 1 @ [CHR 0x27, CHR ''?'', CHR 0x27], 1)"
    by (simp add: rewriteWithCount_def copyLength_def starts_with_def eval_nat_numeral)
  from rewrite_only_placeholders [OF this] show ?thesis using eq by auto
qed

theorem rewrite_untouched_witness:
  "\<exists>out. rewriteWithCount (''$1 '' @ [CHR 0x27, CHR ''?'', CHR 0x27]) = Inr (out, 0) \<and> out = ''$1 '' @ [CHR 0x27, CHR ''?'', CHR 0x27]"
proof -
  have eq: "rewriteWithCount (''$1 '' @ [CHR 0x27, CHR ''?'', CHR 0x27]) = Inr (''$1 '' @ [CHR 0x27, CHR ''?'', CHR 0x27], 0)"
    by (simp add: rewriteWithCount_def copyLength_def starts_with_def dollarTag_def is_letter_def is_digit_def char_code_def
        eval_nat_numeral Let_def)
  from rewrite_untouched [OF this] show ?thesis using eq by blast
qed

end
