(* ===== verification/FootprintGuard.thy ===== *)
theory FootprintGuard
  imports ScArgs JsString
begin

text \<open>
  Preparing a trade transaction (\<open>packages/tx-builders/src/footprintGuard.ts\<close>, kept verbatim in
  \<open>web/lib/stellar/footprintGuard.ts\<close>, and \<open>packages/tx-builders/src/client.ts\<close>): the ledger keys an
  operation may write, moving them into the read-write footprint, the resource margin, and the classification
  of failures. A ledger key is compared through its XDR in the code; here keys are values and compared as such.
  The SDK's \<open>TransactionBuilder\<close> is outside: \<open>sdk_clone\<close> rebuilds a transaction with an inclusion fee per
  operation and new Soroban data.
\<close>

section \<open>Definitions: the keys of an operation\<close>

datatype trade_op =
    OpOpen | OpOpenCross | OpClose | OpClosePartial | OpCloseCross | OpPlaceOrder | OpCancelOrder | OpExecuteOrder
  | OpLiquidate | OpLiquidateCross | OpAdl | OpOther

record key_ctx =
  kc_vault :: string
  kc_market :: string
  kc_trader :: string
  kc_asset :: "string option"
  kc_assets :: "string list option"
  kc_positionId :: "int option"

datatype durability = Persistent | Temporary

datatype ledger_key =
    ContractData string scval durability
  | OtherKey string

definition contractDataKey :: "string \<Rightarrow> string \<Rightarrow> scval list \<Rightarrow> durability \<Rightarrow> ledger_key" where
  "contractDataKey contract variant payload dur = ContractData contract (ScVec (ScSymbol variant # payload)) dur"

definition plainKey :: "string \<Rightarrow> string \<Rightarrow> ledger_key" where
  "plainKey contract variant = contractDataKey contract variant [] Persistent"

definition vaultSettlementKeys :: "string \<Rightarrow> string \<Rightarrow> ledger_key list" where
  "vaultSettlementKeys vault trader =
     [plainKey vault ''BufferBalance'', plainKey vault ''TotalUsdc'', plainKey vault ''TotalFees'',
      plainKey vault ''ShortfallReserve'', plainKey vault ''Shortfall'', plainKey vault ''CumShortfall'',
      contractDataKey vault ''ShortfallOwed'' [ScAddress trader] Persistent,
      plainKey vault ''CumBadDebtCovered'', plainKey vault ''CumBadDebtLpAbsorbed'']"

text \<open>An asset that is absent or the empty string counts as none.\<close>

definition someAsset :: "string option \<Rightarrow> string option" where
  "someAsset a = (case a of None \<Rightarrow> None | Some s \<Rightarrow> if s = [] then None else Some s)"

definition marketSettlementKeys :: "string \<Rightarrow> string option \<Rightarrow> ledger_key list" where
  "marketSettlementKeys market a =
     (case someAsset a of
        None \<Rightarrow> []
      | Some s \<Rightarrow> [contractDataKey market ''AdlActive'' [ScSymbol s] Persistent,
                   contractDataKey market ''LastGoodPrice'' [ScSymbol s] Persistent])"

definition openKeys :: "key_ctx \<Rightarrow> ledger_key list" where
  "openKeys ctx =
     [plainKey (kc_vault ctx) ''BufferBalance'', plainKey (kc_vault ctx) ''TotalUsdc'',
      plainKey (kc_vault ctx) ''TotalFees'', plainKey (kc_vault ctx) ''ShortfallReserve'']
     @ take 1 (drop 1 (marketSettlementKeys (kc_market ctx) (kc_asset ctx)))"

definition closeKeys :: "key_ctx \<Rightarrow> ledger_key list" where
  "closeKeys ctx = vaultSettlementKeys (kc_vault ctx) (kc_trader ctx)
     @ marketSettlementKeys (kc_market ctx) (kc_asset ctx)"

definition dedupe :: "ledger_key list \<Rightarrow> ledger_key list" where
  "dedupe ks = rev (fold (\<lambda>k out. if k \<in> set out then out else k # out) ks [])"

definition orderAssetKeys :: "key_ctx \<Rightarrow> ledger_key list" where
  "orderAssetKeys ctx =
     (case someAsset (kc_asset ctx) of
        None \<Rightarrow> []
      | Some s \<Rightarrow> [contractDataKey (kc_market ctx) ''AssetExposure'' [ScSymbol s] Persistent,
                   contractDataKey (kc_vault ctx) ''AssetUnrealizedPnl'' [ScSymbol s] Persistent])"

definition positionKeys :: "key_ctx \<Rightarrow> (int \<Rightarrow> ledger_key list) \<Rightarrow> ledger_key list" where
  "positionKeys ctx f = (case kc_positionId ctx of None \<Rightarrow> [] | Some i \<Rightarrow> f i)"

definition crossAssets :: "key_ctx \<Rightarrow> string list" where
  "crossAssets ctx =
     (case kc_assets ctx of
        Some xs \<Rightarrow> xs
      | None \<Rightarrow> (case someAsset (kc_asset ctx) of None \<Rightarrow> [] | Some s \<Rightarrow> [s]))"

definition conditionalWriteKeys :: "trade_op \<Rightarrow> key_ctx \<Rightarrow> ledger_key list" where
  "conditionalWriteKeys op ctx =
     (case op of
        OpOpen \<Rightarrow> openKeys ctx
      | OpOpenCross \<Rightarrow> openKeys ctx
      | OpClose \<Rightarrow> closeKeys ctx
      | OpClosePartial \<Rightarrow> closeKeys ctx
      | OpCloseCross \<Rightarrow> closeKeys ctx
      | OpAdl \<Rightarrow> closeKeys ctx
      | OpExecuteOrder \<Rightarrow> dedupe
          (openKeys ctx @ closeKeys ctx @ orderAssetKeys ctx
           @ [plainKey (kc_vault ctx) ''UnrealizedPnl'', plainKey (kc_vault ctx) ''ReservedPayout'']
           @ positionKeys ctx (\<lambda>i. [contractDataKey (kc_market ctx) ''ClosedProceeds'' [ScU64 i] Temporary]))
      | OpLiquidate \<Rightarrow> dedupe
          (closeKeys ctx @ [plainKey (kc_vault ctx) ''ShortfallReserve'']
           @ positionKeys ctx (\<lambda>i. [contractDataKey (kc_market ctx) ''PartialLiqTs'' [ScU64 i] Persistent,
                                   contractDataKey (kc_market ctx) ''ClosedProceeds'' [ScU64 i] Temporary]))
      | OpLiquidateCross \<Rightarrow> dedupe
          (vaultSettlementKeys (kc_vault ctx) (kc_trader ctx) @ [plainKey (kc_vault ctx) ''ShortfallReserve'']
           @ concat (map (\<lambda>a. marketSettlementKeys (kc_market ctx) (Some a)) (crossAssets ctx))
           @ [contractDataKey (kc_market ctx) ''CrossPartialLiqTs'' [ScAddress (kc_trader ctx)] Persistent])
      | OpPlaceOrder \<Rightarrow> []
      | OpCancelOrder \<Rightarrow> []
      | OpOther \<Rightarrow> [])"

section \<open>Definitions: padding and margin\<close>

record soroban_data =
  sd_readOnly :: "ledger_key list"
  sd_readWrite :: "ledger_key list"
  sd_instructions :: int
  sd_diskReadBytes :: int
  sd_writeBytes :: int
  sd_resourceFee :: int

text \<open>Of a transaction, what these functions read; \<open>tx_body\<close> stands for the rest of the envelope.\<close>

record transaction =
  tx_fee :: int
  tx_operations :: nat
  tx_soroban :: "soroban_data option"
  tx_body :: string

record sdk =
  sdk_BASE_FEE :: int
  sdk_clone :: "transaction \<Rightarrow> int \<Rightarrow> soroban_data \<Rightarrow> transaction"

record pad_options =
  bytesPerKey :: int
  feePerKey :: int

definition defaultPad :: pad_options where
  "defaultPad = \<lparr>bytesPerKey = 256, feePerKey = 30000\<rparr>"

definition perOpBase :: "sdk \<Rightarrow> transaction \<Rightarrow> int \<Rightarrow> int" where
  "perOpBase S tx originalResourceFee =
     (let numOps = (if tx_operations tx = 0 then 1 else int (tx_operations tx));
          basePortion = tx_fee tx - originalResourceFee
      in if basePortion > 0 then basePortion sdiv numOps else sdk_BASE_FEE S)"

definition padFootprint :: "sdk \<Rightarrow> pad_options \<Rightarrow> transaction \<Rightarrow> ledger_key list \<Rightarrow> transaction" where
  "padFootprint S opts tx ks =
     (case tx_soroban tx of
        None \<Rightarrow> tx
      | Some d \<Rightarrow>
          if ks = [] then tx
          else
            let wanted = dedupe ks;
                readOnly = filter (\<lambda>k. k \<notin> set wanted) (sd_readOnly d);
                added = filter (\<lambda>k. k \<notin> set (sd_readWrite d)) wanted;
                moved = length (sd_readOnly d) - length readOnly;
                extraBytes = int (length added) * bytesPerKey opts
            in if length added = 0 \<and> moved = 0 then tx
               else sdk_clone S tx (perOpBase S tx (sd_resourceFee d))
                 (d\<lparr>sd_readOnly := readOnly, sd_readWrite := sd_readWrite d @ added,
                    sd_diskReadBytes := sd_diskReadBytes d + extraBytes, sd_writeBytes := sd_writeBytes d + extraBytes,
                    sd_resourceFee := sd_resourceFee d + int (length added) * feePerKey opts\<rparr>))"

definition RESOURCE_MARGIN :: rat where "RESOURCE_MARGIN = 5 / 4"

definition widen :: "int \<Rightarrow> int" where
  "widen x = \<lceil>of_int x * RESOURCE_MARGIN\<rceil>"

definition withResourceHeadroom :: "sdk \<Rightarrow> transaction \<Rightarrow> transaction" where
  "withResourceHeadroom S tx =
     (case tx_soroban tx of
        None \<Rightarrow> tx
      | Some d \<Rightarrow> sdk_clone S tx (perOpBase S tx (sd_resourceFee d))
          (d\<lparr>sd_instructions := widen (sd_instructions d), sd_diskReadBytes := widen (sd_diskReadBytes d),
             sd_writeBytes := widen (sd_writeBytes d), sd_resourceFee := widen (sd_resourceFee d)\<rparr>))"

record build_context =
  bc_market :: "string option"
  bc_vault :: "string option"

record build_options =
  bo_op :: "trade_op option"
  bo_asset :: "string option"
  bo_assets :: "string list option"
  bo_positionId :: "int option"

definition guardKeys :: "build_context \<Rightarrow> string \<Rightarrow> build_options \<Rightarrow> ledger_key list" where
  "guardKeys ctx trader opts =
     (case (bo_op opts, someAsset (bc_market ctx), someAsset (bc_vault ctx)) of
        (Some op, Some market, Some vault) \<Rightarrow>
          conditionalWriteKeys op \<lparr>kc_vault = vault, kc_market = market, kc_trader = trader,
            kc_asset = bo_asset opts, kc_assets = bo_assets opts, kc_positionId = bo_positionId opts\<rparr>
      | _ \<Rightarrow> [])"

text \<open>
  \<open>buildContractTx\<close> after the RPC has answered the simulation: an error is thrown, otherwise the SDK's assembled
  transaction is padded and widened.
\<close>

definition prepareTx :: "sdk \<Rightarrow> build_context \<Rightarrow> string \<Rightarrow> build_options \<Rightarrow> string + transaction \<Rightarrow> string + transaction" where
  "prepareTx S ctx trader opts sim =
     (case sim of
        Inl e \<Rightarrow> Inl (''Simulation failed: '' @ e)
      | Inr assembled \<Rightarrow> Inr (withResourceHeadroom S (padFootprint S defaultPad assembled (guardKeys ctx trader opts))))"

section \<open>Definitions: failures\<close>

datatype failure_class = StaleFootprint | TryAgainLater | NoRetry

record tx_failure =
  tf_sendStatus :: "string option"
  tf_txResultCode :: "string option"
  tf_hostError :: "(string \<times> string) option"
  tf_contractCode :: "int option"

definition classifyTxFailure :: "tx_failure \<Rightarrow> failure_class" where
  "classifyTxFailure f =
     (if tf_contractCode f \<noteq> None then NoRetry
      else if tf_sendStatus f = Some ''TRY_AGAIN_LATER'' then TryAgainLater
      else let code = map to_lower (case tf_txResultCode f of None \<Rightarrow> [] | Some c \<Rightarrow> c)
           in if code = ''txsorobaninvalid'' \<or> code = ''txinsufficientrefundablefee'' then StaleFootprint
              else case tf_hostError f of
                Some (ty, c) \<Rightarrow>
                  if c = ''exceeded_limit'' \<and> (ty = ''storage'' \<or> ty = ''budget'') then StaleFootprint else NoRetry
              | None \<Rightarrow> NoRetry)"

section \<open>Lemmas\<close>

lemma dedupe_fold:
  "set (fold (\<lambda>k out. if k \<in> set out then out else k # out) ks out) = set out \<union> set ks
   \<and> (distinct out \<longrightarrow> distinct (fold (\<lambda>k out. if k \<in> set out then out else k # out) ks out))"
  by (induction ks arbitrary: out) auto

lemma set_dedupe [simp]: "set (dedupe ks) = set ks"
  using dedupe_fold [of ks "[]"] by (simp add: dedupe_def)

lemma distinct_dedupe [simp]: "distinct (dedupe ks)"
  using dedupe_fold [of ks "[]"] by (simp add: dedupe_def)

text \<open>The documented behaviour of the builder: fee per operation times operations, plus the resource fee.\<close>

definition builds :: "sdk \<Rightarrow> bool" where
  "builds S \<longleftrightarrow> (\<forall>tx f d. sdk_clone S tx f d = tx\<lparr>tx_fee := f * int (tx_operations tx) + sd_resourceFee d,
     tx_soroban := Some d\<rparr>)"

text \<open>What padding does to the Soroban data.\<close>

definition padded :: "pad_options \<Rightarrow> ledger_key list \<Rightarrow> soroban_data \<Rightarrow> soroban_data" where
  "padded opts ks d =
     (let added = filter (\<lambda>k. k \<notin> set (sd_readWrite d)) (dedupe ks); extra = int (length added) * bytesPerKey opts
      in d\<lparr>sd_readOnly := filter (\<lambda>k. k \<notin> set ks) (sd_readOnly d), sd_readWrite := sd_readWrite d @ added,
           sd_diskReadBytes := sd_diskReadBytes d + extra, sd_writeBytes := sd_writeBytes d + extra,
           sd_resourceFee := sd_resourceFee d + int (length added) * feePerKey opts\<rparr>)"

definition quiet_pad :: "ledger_key list \<Rightarrow> soroban_data \<Rightarrow> bool" where
  "quiet_pad ks d \<longleftrightarrow> set ks \<subseteq> set (sd_readWrite d) \<and> set ks \<inter> set (sd_readOnly d) = {}"

lemma filter_all: "length xs - length (filter P xs) = 0 \<longleftrightarrow> (\<forall>x\<in>set xs. P x)"
proof
  assume "length xs - length (filter P xs) = 0"
  then have "\<not> length (filter P xs) < length xs" by simp
  then show "\<forall>x\<in>set xs. P x" using length_filter_less [of _ xs P] by blast
next
  assume "\<forall>x\<in>set xs. P x"
  then have "filter P xs = xs" by (simp only: filter_id_conv)
  then show "length xs - length (filter P xs) = 0" by simp
qed

lemma padded_quiet:
  assumes "quiet_pad ks d"
  shows "padded opts ks d = d"
proof -
  have "filter (\<lambda>k. k \<notin> set ks) (sd_readOnly d) = sd_readOnly d"
    "filter (\<lambda>k. k \<notin> set (sd_readWrite d)) (dedupe ks) = []"
    using assms by (auto simp: quiet_pad_def filter_empty_conv filter_id_conv)
  then show ?thesis by (simp add: padded_def)
qed

lemma quiet_padded: "quiet_pad ks (padded opts ks d)"
  by (auto simp: padded_def quiet_pad_def Let_def)

lemma padFootprint_eq:
  assumes "tx_soroban tx = Some d"
  shows "padFootprint S opts tx ks =
     (if quiet_pad ks d then tx else sdk_clone S tx (perOpBase S tx (sd_resourceFee d)) (padded opts ks d))"
proof -
  have "(filter (\<lambda>k. k \<notin> set (sd_readWrite d)) (dedupe ks) = [] \<and> (\<forall>x\<in>set (sd_readOnly d). x \<notin> set ks)) \<longleftrightarrow> quiet_pad ks d"
    by (auto simp: quiet_pad_def filter_empty_conv)
  moreover have "length (sd_readOnly d) - length (filter (\<lambda>k. k \<notin> set ks) (sd_readOnly d)) = 0
      \<longleftrightarrow> (\<forall>x\<in>set (sd_readOnly d). x \<notin> set ks)"
    by (rule filter_all)
  moreover have "quiet_pad [] d" by (simp add: quiet_pad_def)
  ultimately show ?thesis
    unfolding padFootprint_def assms option.case Let_def set_dedupe
    by (auto simp: padded_def Let_def)
qed

lemma padFootprint_data:
  assumes "builds S" "tx_soroban tx = Some d"
  shows "tx_soroban (padFootprint S opts tx ks) = Some (padded opts ks d)"
  using assms by (simp add: padFootprint_eq builds_def padded_quiet)

lemma length_added:
  "length (filter (\<lambda>k. k \<notin> set xs) (dedupe ks)) = card (set ks - set xs)"
proof -
  have "card (set (filter (\<lambda>k. k \<notin> set xs) (dedupe ks))) = length (filter (\<lambda>k. k \<notin> set xs) (dedupe ks))"
    by (intro distinct_card distinct_filter distinct_dedupe)
  moreover have "set (filter (\<lambda>k. k \<notin> set xs) (dedupe ks)) = set ks - set xs" by auto
  ultimately show ?thesis by simp
qed

lemma inclusion_kept:
  assumes "builds S" "tx_operations tx = 1" "tx_fee tx > sd_resourceFee d"
  shows "tx_fee (sdk_clone S tx (perOpBase S tx (sd_resourceFee d)) e) - sd_resourceFee e = tx_fee tx - sd_resourceFee d"
  using assms by (simp add: builds_def perOpBase_def Let_def)

lemma inclusion_padded:
  assumes "builds S" "tx_soroban tx = Some d" "tx_operations tx = 1" "tx_fee tx > sd_resourceFee d"
  shows "tx_fee (padFootprint S opts tx ks) - sd_resourceFee (padded opts ks d) = tx_fee tx - sd_resourceFee d"
  using assms inclusion_kept [OF assms(1,3,4)] by (simp add: padFootprint_eq padded_quiet)

lemma widen_bounds: "of_int x * (5 / 4) \<le> rat_of_int (widen x)" "rat_of_int (widen x) < of_int x * (5 / 4) + 1"
  by (simp_all add: widen_def RESOURCE_MARGIN_def) (linarith | simp add: ceiling_less_iff)+

section \<open>Properties\<close>

text \<open>Padding a transaction moves exactly the wanted keys into the read-write footprint and pays for what it
  adds: every wanted key ends read-write and none stays read-only, no other key changes its place, each key that was
  not read-write yet adds its bytes and its fee once, and the inclusion fee of a single-operation transaction is
  unchanged.\<close>

theorem pad_declares_keys:
  assumes "builds S" "tx_soroban tx = Some d" "tx_operations tx = 1" "tx_fee tx > sd_resourceFee d"
  shows "\<exists>e. tx_soroban (padFootprint S opts tx ks) = Some e
     \<and> set (sd_readWrite e) = set (sd_readWrite d) \<union> set ks
     \<and> set (sd_readOnly e) = set (sd_readOnly d) - set ks
     \<and> sd_writeBytes e = sd_writeBytes d + int (card (set ks - set (sd_readWrite d))) * bytesPerKey opts
     \<and> sd_resourceFee e = sd_resourceFee d + int (card (set ks - set (sd_readWrite d))) * feePerKey opts
     \<and> tx_fee (padFootprint S opts tx ks) - sd_resourceFee e = tx_fee tx - sd_resourceFee d"
proof (intro exI conjI)
  show "tx_soroban (padFootprint S opts tx ks) = Some (padded opts ks d)" by (rule padFootprint_data [OF assms(1,2)])
  show "tx_fee (padFootprint S opts tx ks) - sd_resourceFee (padded opts ks d) = tx_fee tx - sd_resourceFee d"
    by (rule inclusion_padded [OF assms])
qed (auto simp: padded_def Let_def length_added)

text \<open>Padding is idempotent: a second padding with the same keys returns the very same transaction.\<close>

theorem pad_idempotent:
  assumes "builds S"
  shows "padFootprint S opts' (padFootprint S opts tx ks) ks = padFootprint S opts tx ks"
proof (cases "tx_soroban tx")
  case (Some d)
  with padFootprint_data [OF assms Some] show ?thesis
    by (simp add: padFootprint_eq quiet_padded)
qed (simp add: padFootprint_def)

lemma headroom_data:
  assumes "builds S" "tx_soroban tx = Some d"
  shows "tx_soroban (withResourceHeadroom S tx) = Some (d\<lparr>sd_instructions := widen (sd_instructions d),
     sd_diskReadBytes := widen (sd_diskReadBytes d), sd_writeBytes := widen (sd_writeBytes d),
     sd_resourceFee := widen (sd_resourceFee d)\<rparr>)"
  using assms by (simp add: withResourceHeadroom_def builds_def)

lemma operations_padded: "builds S \<Longrightarrow> tx_operations (padFootprint S opts tx ks) = tx_operations tx"
  by (auto simp: padFootprint_def builds_def Let_def split: option.split)

lemma operations_headroom: "builds S \<Longrightarrow> tx_operations (withResourceHeadroom S tx) = tx_operations tx"
  by (auto simp: withResourceHeadroom_def builds_def split: option.split)


fun keyContract :: "ledger_key \<Rightarrow> string option" where
  "keyContract (ContractData c v d) = Some c"
| "keyContract (OtherKey x) = None"

lemmas key_defs = openKeys_def closeKeys_def vaultSettlementKeys_def marketSettlementKeys_def orderAssetKeys_def
  positionKeys_def plainKey_def contractDataKey_def

text \<open>The declared keys cover the settlements an operation can turn into: executing an order declares all keys of
  an open and of a close, a liquidation those of a close, and a cross liquidation those of a close in every asset of
  the account; all of them are entries of the vault or the market, and none is declared twice.\<close>

theorem settlement_keys_covered:
  "set (conditionalWriteKeys OpOpen ctx) \<union> set (conditionalWriteKeys OpClose ctx) \<subseteq> set (conditionalWriteKeys OpExecuteOrder ctx)
   \<and> set (conditionalWriteKeys OpClose ctx) \<subseteq> set (conditionalWriteKeys OpLiquidate ctx)
   \<and> (\<Union>a \<in> set (crossAssets ctx). set (conditionalWriteKeys OpClose (ctx\<lparr>kc_asset := Some a\<rparr>)))
       \<subseteq> set (conditionalWriteKeys OpLiquidateCross ctx)
   \<and> (\<forall>k \<in> set (conditionalWriteKeys op ctx). keyContract k = Some (kc_vault ctx) \<or> keyContract k = Some (kc_market ctx))
   \<and> distinct (conditionalWriteKeys op ctx)"
proof (intro conjI)
  show "\<forall>k \<in> set (conditionalWriteKeys op ctx). keyContract k = Some (kc_vault ctx) \<or> keyContract k = Some (kc_market ctx)"
    by (cases op) (auto simp: conditionalWriteKeys_def key_defs split: option.splits)
  show "distinct (conditionalWriteKeys op ctx)"
    by (cases op) (auto simp: conditionalWriteKeys_def key_defs split: option.split)
qed (auto simp: conditionalWriteKeys_def closeKeys_def)

section \<open>Witnesses\<close>

definition sampleSdk :: sdk where
  "sampleSdk = \<lparr>sdk_BASE_FEE = 100,
     sdk_clone = (\<lambda>tx f d. tx\<lparr>tx_fee := f * int (tx_operations tx) + sd_resourceFee d, tx_soroban := Some d\<rparr>)\<rparr>"

lemma builds_sampleSdk: "builds sampleSdk"
  by (simp add: builds_def sampleSdk_def)

text \<open>An assembled close whose simulation read the fee bucket only and did not touch the insurance buffer.\<close>

definition sampleData :: soroban_data where
  "sampleData = \<lparr>sd_readOnly = [plainKey ''V'' ''TotalFees'', OtherKey ''code''],
     sd_readWrite = [plainKey ''V'' ''TotalUsdc''], sd_instructions = 1000, sd_diskReadBytes = 400,
     sd_writeBytes = 402, sd_resourceFee = 5000\<rparr>"

definition sampleTx :: transaction where
  "sampleTx = \<lparr>tx_fee = 5100, tx_operations = 1, tx_soroban = Some sampleData, tx_body = ''close''\<rparr>"

definition sampleOptions :: build_options where
  "sampleOptions = \<lparr>bo_op = Some OpClose, bo_asset = Some ''BTC'', bo_assets = None, bo_positionId = Some 7\<rparr>"

theorem pad_declares_witness:
  "\<exists>e. tx_soroban (padFootprint sampleSdk defaultPad sampleTx [plainKey ''V'' ''TotalFees'', plainKey ''V'' ''BufferBalance'']) = Some e
     \<and> set (sd_readOnly e) = {OtherKey ''code''} \<and> sd_resourceFee e = 65000"
proof -
  have "tx_soroban sampleTx = Some sampleData" "tx_operations sampleTx = 1" "tx_fee sampleTx > sd_resourceFee sampleData"
    by (simp_all add: sampleTx_def sampleData_def)
  from pad_declares_keys [OF builds_sampleSdk this, of defaultPad "[plainKey ''V'' ''TotalFees'', plainKey ''V'' ''BufferBalance'']"]
  show ?thesis
    by (auto simp: sampleData_def plainKey_def contractDataKey_def defaultPad_def insert_Diff_if)
qed

theorem pad_idempotent_witness:
  "padFootprint sampleSdk defaultPad (padFootprint sampleSdk defaultPad sampleTx [plainKey ''V'' ''BufferBalance''])
     [plainKey ''V'' ''BufferBalance'']
   = padFootprint sampleSdk defaultPad sampleTx [plainKey ''V'' ''BufferBalance'']"
  by (rule pad_idempotent [OF builds_sampleSdk])


end
