(* ===== verification/TxFlow.thy ===== *)
theory TxFlow
  imports FootprintGuard
begin

text \<open>
  Submitting a trade: the build, sign and submit flow of the web app with its automatic rebuild
  (\<open>web/lib/stellar/txFlow.ts\<close>, errors of \<open>txErrors.ts\<close>), and sending a signed transaction and polling for its
  outcome (\<open>submitSignedTx\<close> of \<open>packages/tx-builders/src/client.ts\<close>). The callbacks and the RPC are the
  environment; the answer to a call is indexed by the attempt, respectively the poll, it belongs to.
\<close>

section \<open>Definitions: the trade flow\<close>

datatype trade_progress = Building | Signing | Submitting | Retrying

text \<open>An error the flow can catch: a structured failure or any other.\<close>

datatype flow_error = PlainError string | TxFailedError tx_failure

record trade_env =
  te_build :: "nat \<Rightarrow> flow_error + string"
  te_sign :: "nat \<Rightarrow> string \<Rightarrow> flow_error + string"
  te_submit :: "nat \<Rightarrow> string \<Rightarrow> flow_error + string"

record trade_options =
  maxRetries :: nat
  retryDelayMs :: nat

definition defaultTrade :: trade_options where
  "defaultTrade = \<lparr>maxRetries = 1, retryDelayMs = 2000\<rparr>"

datatype flow_event = Progress trade_progress | Submitted string | Slept nat

definition flowClass :: "flow_error \<Rightarrow> failure_class" where
  "flowClass err = (case err of TxFailedError f \<Rightarrow> classifyTxFailure f | PlainError _ \<Rightarrow> NoRetry)"

definition isRetryableTradeFailure :: "flow_error \<Rightarrow> bool" where
  "isRetryableTradeFailure err = (case err of PlainError _ \<Rightarrow> False | TxFailedError f \<Rightarrow> classifyTxFailure f \<noteq> NoRetry)"

function tradeLoop :: "trade_env \<Rightarrow> trade_options \<Rightarrow> nat \<Rightarrow> flow_event list \<times> (flow_error + string)" where
  "tradeLoop E opts attempt =
     (let started = [Progress (if attempt = 0 then Building else Retrying)] in
      case te_build E attempt of
        Inl e \<Rightarrow> (started, Inl e)
      | Inr unsigned \<Rightarrow>
          (case te_sign E attempt unsigned of
             Inl e \<Rightarrow> (started @ [Progress Signing], Inl e)
           | Inr signed \<Rightarrow>
               let sent = started @ [Progress Signing, Progress Submitting, Submitted signed] in
               case te_submit E attempt signed of
                 Inr r \<Rightarrow> (sent, Inr r)
               | Inl err \<Rightarrow>
                   let cls = flowClass err in
                   if cls = NoRetry \<or> attempt \<ge> maxRetries opts then (sent, Inl err)
                   else
                     let paused = (if cls = TryAgainLater then [Slept (retryDelayMs opts)] else []);
                         rest = tradeLoop E opts (attempt + 1)
                     in (sent @ paused @ fst rest, snd rest)))"
  by pat_completeness auto
termination by (relation "measure (\<lambda>(E, opts, attempt). maxRetries opts - attempt)") auto

declare tradeLoop.simps [simp del]

definition runTradeTx :: "trade_env \<Rightarrow> trade_options \<Rightarrow> flow_event list \<times> (flow_error + string)" where
  "runTradeTx E opts = tradeLoop E opts 0"

section \<open>Definitions: submitting and polling\<close>

datatype get_status = GetSuccess | GetFailed | GetNotFound
datatype submitted_status = SubSuccess | SubFailed | SubPending

datatype send_status = SendError string | SendOk string

record submit_options =
  pollTimeoutMs :: int
  pollIntervalMs :: int

definition defaultSubmit :: submit_options where
  "defaultSubmit = \<lparr>pollTimeoutMs = 30000, pollIntervalMs = 1000\<rparr>"

text \<open>
  The polling loop from poll number \<open>k\<close> on: \<open>clock k\<close> is what \<open>Date.now()\<close> answers before that poll, \<open>reply k\<close> the
  answer of \<open>getTransaction\<close> (an error is thrown). It returns how many polls were made and the outcome; a loop whose
  deadline never comes does not return.
\<close>

partial_function (option) pollUntil ::
    "(nat \<Rightarrow> int) \<Rightarrow> (nat \<Rightarrow> string + get_status) \<Rightarrow> int \<Rightarrow> nat \<Rightarrow> (nat \<times> (string + submitted_status)) option" where
  "pollUntil clock reply deadline k =
     (if clock k < deadline
      then (case reply k of
              Inl e \<Rightarrow> Some (k + 1, Inl e)
            | Inr st \<Rightarrow>
                if st = GetSuccess then Some (k + 1, Inr SubSuccess)
                else if st = GetFailed then Some (k + 1, Inr SubFailed)
                else pollUntil clock reply deadline (k + 1))
      else Some (k, Inr SubPending))"

text \<open>The deadline is set from a clock reading \<open>sentAt\<close> after the transaction was sent.\<close>

definition submitSignedTx ::
    "submit_options \<Rightarrow> string + send_status \<Rightarrow> int \<Rightarrow> (nat \<Rightarrow> int) \<Rightarrow> (nat \<Rightarrow> string + get_status)
     \<Rightarrow> (nat \<times> (string + submitted_status)) option" where
  "submitSignedTx opts send sentAt clock reply =
     (case send of
        Inl e \<Rightarrow> Some (0, Inl e)
      | Inr (SendError h) \<Rightarrow> Some (0, Inl ''Submission rejected by RPC'')
      | Inr (SendOk h) \<Rightarrow> pollUntil clock reply (sentAt + pollTimeoutMs opts) 0)"

section \<open>Lemmas\<close>

fun submission :: "flow_event \<Rightarrow> string option" where
  "submission (Submitted s) = Some s"
| "submission _ = None"

definition submissions :: "flow_event list \<Rightarrow> string list" where
  "submissions evs = List.map_filter submission evs"

lemma submissions_simps [simp]:
  "submissions [] = []"
  "submissions (Progress p # evs) = submissions evs"
  "submissions (Submitted s # evs) = s # submissions evs"
  "submissions (Slept d # evs) = submissions evs"
  "submissions (xs @ ys) = submissions xs @ submissions ys"
  by (simp_all add: submissions_def map_filter_def)

text \<open>
  The submissions of the flow from attempt \<open>k\<close>: each of a fresh build, each but the last refused for a reason that a
  rebuild can fix, and the outcome that of the last one.
\<close>

definition retriedFrom :: "trade_env \<Rightarrow> nat \<Rightarrow> string list \<Rightarrow> bool" where
  "retriedFrom E k ss \<longleftrightarrow>
     (\<forall>i < length ss. \<exists>unsigned. te_build E (k + i) = Inr unsigned \<and> te_sign E (k + i) unsigned = Inr (ss ! i))
     \<and> (\<forall>i. Suc i < length ss \<longrightarrow> (\<exists>f. te_submit E (k + i) (ss ! i) = Inl (TxFailedError f) \<and> classifyTxFailure f \<noteq> NoRetry))"

lemma retriedFrom_Nil [simp]: "retriedFrom E k []"
  by (simp add: retriedFrom_def)

lemma retriedFrom_one:
  "te_build E k = Inr u \<Longrightarrow> te_sign E k u = Inr s \<Longrightarrow> retriedFrom E k [s]"
  by (simp add: retriedFrom_def)

lemma retriedFrom_Cons:
  assumes first: "te_build E k = Inr u" "te_sign E k u = Inr s"
    "te_submit E k s = Inl (TxFailedError f)" "classifyTxFailure f \<noteq> NoRetry"
    and rest: "retriedFrom E (Suc k) ss"
  shows "retriedFrom E k (s # ss)"
  unfolding retriedFrom_def
proof (intro conjI allI impI)
  fix i assume "i < length (s # ss)"
  then show "\<exists>unsigned. te_build E (k + i) = Inr unsigned \<and> te_sign E (k + i) unsigned = Inr ((s # ss) ! i)"
    using first rest by (cases i) (auto simp: retriedFrom_def)
next
  fix i assume "Suc i < length (s # ss)"
  then show "\<exists>f. te_submit E (k + i) ((s # ss) ! i) = Inl (TxFailedError f) \<and> classifyTxFailure f \<noteq> NoRetry"
    using first rest by (cases i) (auto simp: retriedFrom_def)
qed

lemma tradeLoop_retried:
  "retriedFrom E k (submissions (fst (tradeLoop E opts k)))
   \<and> length (submissions (fst (tradeLoop E opts k))) \<le> Suc (maxRetries opts - k)
   \<and> (\<forall>r. snd (tradeLoop E opts k) = Inr r \<longrightarrow>
        (let ss = submissions (fst (tradeLoop E opts k)) in ss \<noteq> [] \<and> te_submit E (k + length ss - 1) (last ss) = Inr r))"
proof (induction E opts k rule: tradeLoop.induct)
  case (1 E opts k)
  show ?case
  proof (cases "te_build E k")
    case (Inr u)
    note built = Inr
    show ?thesis
    proof (cases "te_sign E k u")
      case (Inr s)
      note signed = Inr
      show ?thesis
      proof (cases "te_submit E k s")
        case (Inl err)
        show ?thesis
        proof (cases "flowClass err = NoRetry \<or> k \<ge> maxRetries opts")
          case False
          let ?ss = "submissions (fst (tradeLoop E opts (k + 1)))"
          from False obtain f where f: "err = TxFailedError f" "classifyTxFailure f \<noteq> NoRetry"
            by (cases err) (auto simp: flowClass_def)
          have unfold: "submissions (fst (tradeLoop E opts k)) = s # ?ss" "snd (tradeLoop E opts k) = snd (tradeLoop E opts (k + 1))"
            using False by (simp_all add: tradeLoop.simps [of E opts k] built signed Inl Let_def)
          have IH: "retriedFrom E (k + 1) ?ss" "length ?ss \<le> Suc (maxRetries opts - (k + 1))"
            "\<And>r. snd (tradeLoop E opts (k + 1)) = Inr r \<Longrightarrow> ?ss \<noteq> [] \<and> te_submit E (k + 1 + length ?ss - 1) (last ?ss) = Inr r"
            using 1 [OF refl built signed refl Inl refl False refl] by (simp_all add: Let_def)
          have "length ?ss \<le> maxRetries opts - k" using IH(2) False by linarith
          then show ?thesis
            using retriedFrom_Cons [OF built signed _ f(2)] IH(1,3) Inl f(1) by (auto simp: unfold Let_def)
        qed (simp add: tradeLoop.simps [of E opts k] built signed Inl Let_def retriedFrom_one)
      qed (simp add: tradeLoop.simps [of E opts k] built signed Let_def retriedFrom_one)
    qed (simp add: tradeLoop.simps [of E opts k] built Let_def)
  qed (simp add: tradeLoop.simps [of E opts k] Let_def)
qed

lemma poll_by_deadline:
  assumes "clock (k + n) \<ge> deadline"
  shows "\<exists>m r. pollUntil clock reply deadline k = Some (m, r) \<and> m \<le> k + n"
  using assms
proof (induction n arbitrary: k)
  case 0
  then show ?case by (simp add: pollUntil.simps [of _ _ _ k])
next
  case (Suc n)
  from Suc.prems have "clock (k + 1 + n) \<ge> deadline" by simp
  from Suc.IH [OF this] obtain m r where "pollUntil clock reply deadline (k + 1) = Some (m, r)" "m \<le> k + 1 + n"
    by blast
  then show ?case
    by (subst pollUntil.simps) (auto split: sum.split)
qed

lemma clock_advances:
  assumes "\<forall>k. clock (Suc k) \<ge> clock k + step"
  shows "clock k \<ge> clock 0 + int k * step"
proof (induction k)
  case (Suc k)
  with assms [rule_format, of k] show ?case by (simp add: algebra_simps)
qed simp

section \<open>Properties\<close>

text \<open>C13. The trade flow rebuilds only what a rebuild can fix: it submits at most one transaction more than the
  allowed retries, each one freshly built and signed for its attempt, a further one only after a structured failure
  that is not a contract revert, and a success it returns is the answer to its last submission.\<close>

theorem trade_flow_retries:
  assumes "runTradeTx E opts = (evs, result)"
  shows "length (submissions evs) \<le> maxRetries opts + 1
     \<and> (\<forall>i < length (submissions evs). \<exists>unsigned. te_build E i = Inr unsigned \<and> te_sign E i unsigned = Inr (submissions evs ! i))
     \<and> (\<forall>i. Suc i < length (submissions evs) \<longrightarrow>
          (\<exists>f. te_submit E i (submissions evs ! i) = Inl (TxFailedError f) \<and> tf_contractCode f = None \<and> classifyTxFailure f \<noteq> NoRetry))
     \<and> (\<forall>r. result = Inr r \<longrightarrow> submissions evs \<noteq> [] \<and> te_submit E (length (submissions evs) - 1) (last (submissions evs)) = Inr r)"
proof -
  have "classifyTxFailure f \<noteq> NoRetry \<Longrightarrow> tf_contractCode f = None" for f
    by (cases "tf_contractCode f") (simp_all add: classifyTxFailure_def)
  moreover have "fst (tradeLoop E opts 0) = evs" "snd (tradeLoop E opts 0) = result"
    using assms by (simp_all add: runTradeTx_def)
  ultimately show ?thesis
    using tradeLoop_retried [of E 0 opts] by (simp add: retriedFrom_def Let_def) blast
qed

text \<open>C25. Submitting a signed transaction returns: when every pause between two polls takes at least the
  interval, it ends after no more polls than fit into the timeout (one more for the remainder), whatever the RPC
  answers.\<close>

theorem submit_terminates:
  assumes "0 < pollIntervalMs opts" "0 \<le> pollTimeoutMs opts"
    and "sentAt \<le> clock 0" "\<forall>k. clock (Suc k) \<ge> clock k + pollIntervalMs opts"
  shows "\<exists>m r. submitSignedTx opts send sentAt clock reply = Some (m, r)
     \<and> int m \<le> pollTimeoutMs opts div pollIntervalMs opts + 1"
proof (cases send)
  case (Inr st)
  let ?n = "nat (pollTimeoutMs opts div pollIntervalMs opts + 1)"
  have "pollTimeoutMs opts < (pollTimeoutMs opts div pollIntervalMs opts + 1) * pollIntervalMs opts"
    using div_mult_mod_eq [of "pollTimeoutMs opts" "pollIntervalMs opts"] pos_mod_bound [OF assms(1), of "pollTimeoutMs opts"]
    unfolding distrib_right by linarith
  moreover have "0 \<le> pollTimeoutMs opts div pollIntervalMs opts" using assms(1,2) by (simp add: pos_imp_zdiv_nonneg_iff)
  ultimately have "clock (0 + ?n) \<ge> sentAt + pollTimeoutMs opts"
    using clock_advances [OF assms(4), of ?n] assms(3) by simp
  from poll_by_deadline [where clock = clock, OF this, of reply]
  show ?thesis
    using Inr \<open>0 \<le> pollTimeoutMs opts div pollIntervalMs opts\<close>
    by (cases st) (auto simp: submitSignedTx_def)
qed (use assms in \<open>simp add: submitSignedTx_def pos_imp_zdiv_nonneg_iff\<close>)

section \<open>Witnesses\<close>

definition sampleTrade :: trade_env where
  "sampleTrade = \<lparr>te_build = (\<lambda>k. Inr (if k = 0 then ''tx0'' else ''tx1'')), te_sign = (\<lambda>k x. Inr (x @ ''-signed'')),
     te_submit = (\<lambda>k s. if k = 0
       then Inl (TxFailedError \<lparr>tf_sendStatus = Some ''TRY_AGAIN_LATER'', tf_txResultCode = None, tf_hostError = None, tf_contractCode = None\<rparr>)
       else Inr ''hash'')\<rparr>"

lemma sampleTrade_run:
  "runTradeTx sampleTrade defaultTrade =
     ([Progress Building, Progress Signing, Progress Submitting, Submitted ''tx0-signed'', Slept 2000,
       Progress Retrying, Progress Signing, Progress Submitting, Submitted ''tx1-signed''], Inr ''hash'')"
  by (simp add: runTradeTx_def tradeLoop.simps sampleTrade_def defaultTrade_def flowClass_def classifyTxFailure_def)

theorem trade_flow_witness:
  "te_submit sampleTrade 1 ''tx1-signed'' = Inr ''hash''
   \<and> (\<exists>f. te_submit sampleTrade 0 ''tx0-signed'' = Inl (TxFailedError f) \<and> tf_contractCode f = None)"
  using trade_flow_retries [OF sampleTrade_run] by auto

theorem submit_terminates_witness:
  "\<exists>m r. submitSignedTx defaultSubmit (Inr (SendOk ''h'')) 5 (\<lambda>k. 5 + 1000 * int k) (\<lambda>k. Inr GetNotFound) = Some (m, r)
     \<and> m \<le> 31"
proof -
  have "0 < pollIntervalMs defaultSubmit" "0 \<le> pollTimeoutMs defaultSubmit" "(5::int) \<le> 5 + 1000 * int 0"
    "\<forall>k. 5 + 1000 * int (Suc k) \<ge> 5 + 1000 * int k + pollIntervalMs defaultSubmit"
    by (simp_all add: defaultSubmit_def)
  from submit_terminates [OF this, of "Inr (SendOk ''h'')" "\<lambda>k. Inr GetNotFound"]
  show ?thesis by (auto simp: defaultSubmit_def)
qed

end
