(* ===== verification/IndexerEvents.thy ===== *)
theory IndexerEvents
  imports Prelude
begin

text \<open>
  Events of the market contract in the indexer: their types (\<open>indexer/src/types/events.ts\<close>), the typed reads of
  decoded values (\<open>decoders/scval.ts\<close>) and the decoders (\<open>decoders/market.ts\<close>). Turning an \<open>ScVal\<close> into a native
  value belongs to the SDK (it may throw); a raw event carries the outcome. Numbers and bigints are integers: the
  conversion of a 64-bit id to a number is exact up to \<open>2 ^ 53\<close>.
\<close>

section \<open>Definitions: event types\<close>

datatype native =
    NBig int | NNum int | NStr string | NBool bool | NNull | NArr "native list" | NOther

datatype event_body =
    PositionOpened (ev_positionId: int) (ev_trader: string) (ev_asset: string) (ev_direction: int) (ev_size: int) (ev_entryPrice: int)
  | PositionClosed (ev_positionId: int) (ev_trader: string) (ev_asset: string) (ev_direction: int) (ev_size: int) (ev_entryPrice: int)
      (ev_closePrice: int) (ev_pnl: int)
  | PositionLiquidated (ev_positionId: int) (ev_trader: string) (ev_asset: string) (ev_direction: int) (ev_size: int)
      (ev_keeperReward: int) (ev_closePrice: int)
  | PositionPartialLiq (ev_positionId: int) (ev_trader: string) (ev_asset: string) (ev_direction: int) (ev_size: int)
      (ev_keeperReward: int) (ev_closePrice: int)
  | PositionReduced (ev_positionId: int) (ev_trader: string) (ev_asset: string) (ev_closedSize: int) (ev_remainingSize: int)
      (ev_closePrice: int) (ev_pnl: int)
  | CrossLiquidated (ev_trader: string) (ev_totalPnl: int) (ev_keeperReward: int)
  | OrderPlaced (ev_orderId: int) (ev_trader: string) (ev_triggerPrice: int)
  | OrderCancelled (ev_orderId: int) (ev_reason: string)
  | OrderExecuted (ev_orderId: int) (ev_keeperReward: int)
  | FundingApplied (ev_fundingAsset: "string option") (ev_fundingRate: int) (ev_hoursElapsed: int) (ev_cumulativeIndex: "int option")
  | Initialized (ev_admin: string) (ev_vault: string) (ev_oracleAdapter: string)
  | LiqRefund (ev_trader: string) (ev_positionId: int) (ev_refund: int) (ev_penalty: int)
  | BadDebtRecorded (ev_trader: string) (ev_asset: string) (ev_amount: int) (ev_bufferCovered: int) (ev_lpAbsorbed: int)
  | AdlExecuted (ev_positionId: int) (ev_trader: string) (ev_asset: string) (ev_direction: int) (ev_size: int) (ev_price: int)
      (ev_pnl: int) (ev_score: int)
  | AdlFlag (ev_triggered: bool) (ev_asset: string) (ev_adlReason: int) (ev_payableUpnl: int) (ev_coverage: int)
  | Paused (ev_mode: int) (ev_since: int)
  | PauseDegraded (ev_fromMode: int) (ev_toMode: int)
  | AssetHaltSet (ev_asset: string) (ev_halted: bool)
  | CollateralChanged (ev_added: bool) (ev_positionId: int) (ev_trader: string) (ev_amount: int) (ev_liquidationPrice: int)

record market_event =
  me_id :: string
  me_contractId :: string
  me_ledger :: int
  me_ledgerCloseTs :: int
  me_txHash :: string
  me_body :: event_body
  me_rawXdr :: "(string list \<times> string) option"

definition topicOf :: "event_body \<Rightarrow> string" where
  "topicOf b = (case b of
      PositionOpened _ _ _ _ _ _ \<Rightarrow> ''position_opened''
    | PositionClosed _ _ _ _ _ _ _ _ \<Rightarrow> ''position_closed''
    | PositionLiquidated _ _ _ _ _ _ _ \<Rightarrow> ''position_liquidated''
    | PositionPartialLiq _ _ _ _ _ _ _ \<Rightarrow> ''position_partial_liq''
    | PositionReduced _ _ _ _ _ _ _ \<Rightarrow> ''position_reduced''
    | CrossLiquidated _ _ _ \<Rightarrow> ''cross_liq''
    | OrderPlaced _ _ _ \<Rightarrow> ''order_placed''
    | OrderCancelled _ _ \<Rightarrow> ''order_cancelled''
    | OrderExecuted _ _ \<Rightarrow> ''order_executed''
    | FundingApplied _ _ _ _ \<Rightarrow> ''funding_applied''
    | Initialized _ _ _ \<Rightarrow> ''initialized''
    | LiqRefund _ _ _ _ \<Rightarrow> ''liq_refund''
    | BadDebtRecorded _ _ _ _ _ \<Rightarrow> ''bad_debt_recorded''
    | AdlExecuted _ _ _ _ _ _ _ _ \<Rightarrow> ''adl_executed''
    | AdlFlag t _ _ _ _ \<Rightarrow> (if t then ''adl_triggered'' else ''adl_cleared'')
    | Paused _ _ \<Rightarrow> ''paused''
    | PauseDegraded _ _ \<Rightarrow> ''pause_degraded''
    | AssetHaltSet _ _ \<Rightarrow> ''asset_halt_set''
    | CollateralChanged a _ _ _ _ \<Rightarrow> (if a then ''collateral_added'' else ''collateral_removed''))"

section \<open>Definitions: typed reads\<close>

text \<open>An index past the end of the payload reads \<open>undefined\<close>, which no conversion accepts.\<close>

definition at_index :: "native list \<Rightarrow> nat \<Rightarrow> native" where
  "at_index v i = (if i < length v then v ! i else NOther)"

fun asBigInt :: "native \<Rightarrow> string \<Rightarrow> string + int" where
  "asBigInt (NBig n) label = Inr n"
| "asBigInt (NNum n) label = Inr n"
| "asBigInt _ label = Inl (''Expected bigint for '' @ label)"

fun asNumber :: "native \<Rightarrow> string \<Rightarrow> string + int" where
  "asNumber (NNum n) label = Inr n"
| "asNumber (NBig n) label = Inr n"
| "asNumber _ label = Inl (''Expected number for '' @ label)"

fun asBool :: "native \<Rightarrow> string \<Rightarrow> string + bool" where
  "asBool (NBool b) label = Inr b"
| "asBool _ label = Inl (label @ '': expected bool'')"

fun asString :: "native \<Rightarrow> string \<Rightarrow> string + string" where
  "asString (NStr s) label = Inr s"
| "asString _ label = Inl (''Expected string for '' @ label)"

text \<open>A payload that is not a vector counts as a one-element vector.\<close>

fun decodeEventValue :: "native \<Rightarrow> native list" where
  "decodeEventValue (NArr vs) = vs"
| "decodeEventValue v = [v]"

section \<open>Definitions: decoders\<close>

record raw_event =
  re_id :: string
  re_contractId :: string
  re_ledger :: int
  re_ledgerClosedAtMs :: int
  re_txHash :: string
  re_topics :: "string + native list"
  re_value :: "string + native"
  re_xdr :: "(string list \<times> string) option"

definition envelope :: "raw_event \<Rightarrow> event_body \<Rightarrow> market_event" where
  "envelope raw b = \<lparr>me_id = re_id raw, me_contractId = re_contractId raw, me_ledger = re_ledger raw,
     me_ledgerCloseTs = re_ledgerClosedAtMs raw div 1000, me_txHash = re_txHash raw, me_body = b, me_rawXdr = None\<rparr>"

text \<open>Sequencing of reads that may throw.\<close>

definition reads :: "string + 'a \<Rightarrow> ('a \<Rightarrow> string + 'b) \<Rightarrow> string + 'b" where
  "reads m f = (case m of Inl e \<Rightarrow> Inl e | Inr x \<Rightarrow> f x)"

abbreviation num :: "native list \<Rightarrow> nat \<Rightarrow> string \<Rightarrow> (int \<Rightarrow> string + 'b) \<Rightarrow> string + 'b" where
  "num v i l f \<equiv> reads (asNumber (at_index v i) l) f"
abbreviation big :: "native list \<Rightarrow> nat \<Rightarrow> string \<Rightarrow> (int \<Rightarrow> string + 'b) \<Rightarrow> string + 'b" where
  "big v i l f \<equiv> reads (asBigInt (at_index v i) l) f"
abbreviation str :: "native list \<Rightarrow> nat \<Rightarrow> string \<Rightarrow> (string \<Rightarrow> string + 'b) \<Rightarrow> string + 'b" where
  "str v i l f \<equiv> reads (asString (at_index v i) l) f"

definition decodePositionOpened :: "native list \<Rightarrow> string + event_body" where
  "decodePositionOpened v =
     num v 0 ''position_opened.position_id'' (\<lambda>i. str v 1 ''position_opened.trader'' (\<lambda>t. str v 2 ''position_opened.asset'' (\<lambda>a.
     num v 3 ''position_opened.direction'' (\<lambda>d. big v 4 ''position_opened.size'' (\<lambda>s. big v 5 ''position_opened.entry_price'' (\<lambda>p.
     Inr (PositionOpened i t a d s p)))))))"

definition decodePositionClosed :: "native list \<Rightarrow> string + event_body" where
  "decodePositionClosed v =
     num v 0 ''position_closed.position_id'' (\<lambda>i. str v 1 ''position_closed.trader'' (\<lambda>t. str v 2 ''position_closed.asset'' (\<lambda>a.
     num v 3 ''position_closed.direction'' (\<lambda>d. big v 4 ''position_closed.size'' (\<lambda>s. big v 5 ''position_closed.entry_price'' (\<lambda>p.
     big v 6 ''position_closed.close_price'' (\<lambda>c. big v 7 ''position_closed.pnl'' (\<lambda>n.
     Inr (PositionClosed i t a d s p c n)))))))))"

definition decodePositionLiquidated :: "native list \<Rightarrow> string + event_body" where
  "decodePositionLiquidated v =
     num v 0 ''position_liquidated.position_id'' (\<lambda>i. str v 1 ''position_liquidated.trader'' (\<lambda>t. str v 2 ''position_liquidated.asset'' (\<lambda>a.
     num v 3 ''position_liquidated.direction'' (\<lambda>d. big v 4 ''position_liquidated.size'' (\<lambda>s. big v 5 ''position_liquidated.keeper_reward'' (\<lambda>r.
     big v 6 ''position_liquidated.close_price'' (\<lambda>c. Inr (PositionLiquidated i t a d s r c))))))))"

definition decodePositionPartialLiq :: "native list \<Rightarrow> string + event_body" where
  "decodePositionPartialLiq v =
     num v 0 ''position_partial_liq.position_id'' (\<lambda>i. str v 1 ''position_partial_liq.trader'' (\<lambda>t. str v 2 ''position_partial_liq.asset'' (\<lambda>a.
     num v 3 ''position_partial_liq.direction'' (\<lambda>d. big v 4 ''position_partial_liq.closed_size'' (\<lambda>s. big v 5 ''position_partial_liq.keeper_reward'' (\<lambda>r.
     big v 6 ''position_partial_liq.close_price'' (\<lambda>c. Inr (PositionPartialLiq i t a d s r c))))))))"

definition decodePositionReduced :: "native list \<Rightarrow> string + event_body" where
  "decodePositionReduced v =
     num v 0 ''position_reduced.position_id'' (\<lambda>i. str v 1 ''position_reduced.trader'' (\<lambda>t. str v 2 ''position_reduced.asset'' (\<lambda>a.
     big v 3 ''position_reduced.closed_size'' (\<lambda>s. big v 4 ''position_reduced.remaining_size'' (\<lambda>r. big v 5 ''position_reduced.close_price'' (\<lambda>c.
     big v 6 ''position_reduced.pnl'' (\<lambda>n. Inr (PositionReduced i t a s r c n))))))))"

definition decodeCrossLiq :: "native list \<Rightarrow> string + event_body" where
  "decodeCrossLiq v =
     str v 0 ''cross_liq.trader'' (\<lambda>t. big v 1 ''cross_liq.total_pnl'' (\<lambda>p. big v 2 ''cross_liq.keeper_reward'' (\<lambda>r.
     Inr (CrossLiquidated t p r))))"

definition decodeLiqRefund :: "native list \<Rightarrow> string + event_body" where
  "decodeLiqRefund v =
     str v 0 ''liq_refund.trader'' (\<lambda>t. num v 1 ''liq_refund.position_id'' (\<lambda>i. big v 2 ''liq_refund.refund'' (\<lambda>r.
     big v 3 ''liq_refund.penalty'' (\<lambda>p. Inr (LiqRefund t i r p)))))"

definition decodeBadDebtRecorded :: "native list \<Rightarrow> string + event_body" where
  "decodeBadDebtRecorded v =
     str v 0 ''bad_debt_recorded.trader'' (\<lambda>t. str v 1 ''bad_debt_recorded.asset'' (\<lambda>a. big v 2 ''bad_debt_recorded.amount'' (\<lambda>m.
     big v 3 ''bad_debt_recorded.buffer_covered'' (\<lambda>b. big v 4 ''bad_debt_recorded.lp_absorbed'' (\<lambda>l.
     Inr (BadDebtRecorded t a m b l))))))"

definition decodeAdlExecuted :: "native list \<Rightarrow> string + event_body" where
  "decodeAdlExecuted v =
     num v 0 ''adl_executed.position_id'' (\<lambda>i. str v 1 ''adl_executed.trader'' (\<lambda>t. str v 2 ''adl_executed.asset'' (\<lambda>a.
     num v 3 ''adl_executed.direction'' (\<lambda>d. big v 4 ''adl_executed.size'' (\<lambda>s. big v 5 ''adl_executed.price'' (\<lambda>p.
     big v 6 ''adl_executed.pnl'' (\<lambda>n. big v 7 ''adl_executed.score'' (\<lambda>c. Inr (AdlExecuted i t a d s p n c)))))))))"

definition decodeAdlFlag :: "bool \<Rightarrow> native list \<Rightarrow> string + event_body" where
  "decodeAdlFlag triggered v =
     (let topic = (if triggered then ''adl_triggered'' else ''adl_cleared'')
      in str v 0 (topic @ ''.asset'') (\<lambda>a. num v 1 (topic @ ''.reason'') (\<lambda>r. big v 2 (topic @ ''.payable_upnl'') (\<lambda>p.
         big v 3 (topic @ ''.coverage'') (\<lambda>c. Inr (AdlFlag triggered a r p c))))))"

definition decodeOrderPlaced :: "native list \<Rightarrow> string + event_body" where
  "decodeOrderPlaced v =
     num v 0 ''order_placed.order_id'' (\<lambda>i. str v 1 ''order_placed.trader'' (\<lambda>t. big v 2 ''order_placed.trigger_price'' (\<lambda>p.
     Inr (OrderPlaced i t p))))"

definition decodeOrderCancelled :: "native list \<Rightarrow> string + event_body" where
  "decodeOrderCancelled v =
     (let reason = (case at_index v 1 of NStr s \<Rightarrow> s | _ \<Rightarrow> ''unknown'')
      in num v 0 ''order_cancelled.order_id'' (\<lambda>i. Inr (OrderCancelled i reason)))"

definition decodeOrderExecuted :: "native list \<Rightarrow> string + event_body" where
  "decodeOrderExecuted v =
     num v 0 ''order_executed.order_id'' (\<lambda>i. big v 1 ''order_executed.keeper_reward'' (\<lambda>r. Inr (OrderExecuted i r)))"

definition decodeFundingApplied :: "native list \<Rightarrow> string + event_body" where
  "decodeFundingApplied v =
     (if length v \<ge> 4
      then str v 0 ''funding_applied.asset'' (\<lambda>a. big v 1 ''funding_applied.funding_rate'' (\<lambda>r.
           big v 2 ''funding_applied.hours_elapsed'' (\<lambda>h. big v 3 ''funding_applied.cumulative_index'' (\<lambda>c.
           Inr (FundingApplied (Some a) r h (Some c))))))
      else big v 0 ''funding_applied.funding_rate'' (\<lambda>r. big v 1 ''funding_applied.hours_elapsed'' (\<lambda>h.
           Inr (FundingApplied None r h None))))"

definition decodeInitialized :: "native list \<Rightarrow> string + event_body" where
  "decodeInitialized v =
     str v 0 ''initialized.admin'' (\<lambda>a. str v 1 ''initialized.vault'' (\<lambda>u. str v 2 ''initialized.oracle_adapter'' (\<lambda>r.
     Inr (Initialized a u r))))"

definition decodePaused :: "native list \<Rightarrow> string + event_body" where
  "decodePaused v = num v 0 ''paused.mode'' (\<lambda>m. num v 1 ''paused.since'' (\<lambda>s. Inr (Paused m s)))"

definition decodePauseDegraded :: "native list \<Rightarrow> string + event_body" where
  "decodePauseDegraded v = num v 0 ''pause_degraded.from'' (\<lambda>f. num v 1 ''pause_degraded.to'' (\<lambda>t. Inr (PauseDegraded f t)))"

definition decodeAssetHaltSet :: "native list \<Rightarrow> native list \<Rightarrow> string + event_body" where
  "decodeAssetHaltSet topics v =
     str topics 1 ''asset_halt_set topic[1] (asset)'' (\<lambda>a. reads (asBool (at_index v 0) ''asset_halt_set.halted'') (\<lambda>h.
     Inr (AssetHaltSet a h)))"

definition decodeCollateralChanged :: "bool \<Rightarrow> native list \<Rightarrow> string + event_body" where
  "decodeCollateralChanged added v =
     (let topic = (if added then ''collateral_added'' else ''collateral_removed'')
      in num v 0 (topic @ ''.position_id'') (\<lambda>i. str v 1 (topic @ ''.trader'') (\<lambda>t. big v 2 (topic @ ''.amount'') (\<lambda>m.
         big v 3 (topic @ ''.liquidation_price'') (\<lambda>p. Inr (CollateralChanged added i t m p))))))"

text \<open>The dispatch on the topic: nothing for a topic the indexer does not know.\<close>

definition decodeBody :: "string \<Rightarrow> native list \<Rightarrow> native list \<Rightarrow> (string + event_body) option" where
  "decodeBody topic topics v =
     (if topic = ''position_opened'' then Some (decodePositionOpened v)
      else if topic = ''position_closed'' then Some (decodePositionClosed v)
      else if topic = ''position_liquidated'' then Some (decodePositionLiquidated v)
      else if topic = ''position_partial_liq'' then Some (decodePositionPartialLiq v)
      else if topic = ''position_reduced'' then Some (decodePositionReduced v)
      else if topic = ''cross_liq'' then Some (decodeCrossLiq v)
      else if topic = ''order_placed'' then Some (decodeOrderPlaced v)
      else if topic = ''order_cancelled'' then Some (decodeOrderCancelled v)
      else if topic = ''order_executed'' then Some (decodeOrderExecuted v)
      else if topic = ''funding_applied'' then Some (decodeFundingApplied v)
      else if topic = ''initialized'' then Some (decodeInitialized v)
      else if topic = ''liq_refund'' then Some (decodeLiqRefund v)
      else if topic = ''bad_debt_recorded'' then Some (decodeBadDebtRecorded v)
      else if topic = ''adl_executed'' then Some (decodeAdlExecuted v)
      else if topic = ''adl_triggered'' then Some (decodeAdlFlag True v)
      else if topic = ''adl_cleared'' then Some (decodeAdlFlag False v)
      else if topic = ''paused'' then Some (decodePaused v)
      else if topic = ''pause_degraded'' then Some (decodePauseDegraded v)
      else if topic = ''asset_halt_set'' then Some (decodeAssetHaltSet topics v)
      else if topic = ''collateral_added'' then Some (decodeCollateralChanged True v)
      else if topic = ''collateral_removed'' then Some (decodeCollateralChanged False v)
      else None)"

definition decodeMarketEvent :: "raw_event \<Rightarrow> string + market_event option" where
  "decodeMarketEvent raw =
     reads (re_topics raw) (\<lambda>topics.
       case at_index topics 0 of
         NStr topic \<Rightarrow>
           reads (re_value raw) (\<lambda>value.
             case decodeBody topic topics (decodeEventValue value) of
               None \<Rightarrow> Inr None
             | Some r \<Rightarrow> map_sum id (\<lambda>b. Some (envelope raw b)) r)
       | _ \<Rightarrow> Inr None)"

section \<open>Definitions: what the contract emits\<close>

text \<open>
  The payload tuple of each event, as the contract publishes it: ids are 64-bit (bigints after decoding), directions
  and modes 32-bit (numbers), amounts 128-bit; the legacy funding event has two fields only.
\<close>

definition emitted :: "event_body \<Rightarrow> native list" where
  "emitted b = (case b of
      PositionOpened i t a d s p \<Rightarrow> [NBig i, NStr t, NStr a, NNum d, NBig s, NBig p]
    | PositionClosed i t a d s p c n \<Rightarrow> [NBig i, NStr t, NStr a, NNum d, NBig s, NBig p, NBig c, NBig n]
    | PositionLiquidated i t a d s r c \<Rightarrow> [NBig i, NStr t, NStr a, NNum d, NBig s, NBig r, NBig c]
    | PositionPartialLiq i t a d s r c \<Rightarrow> [NBig i, NStr t, NStr a, NNum d, NBig s, NBig r, NBig c]
    | PositionReduced i t a s r c n \<Rightarrow> [NBig i, NStr t, NStr a, NBig s, NBig r, NBig c, NBig n]
    | CrossLiquidated t p r \<Rightarrow> [NStr t, NBig p, NBig r]
    | OrderPlaced i t p \<Rightarrow> [NBig i, NStr t, NBig p]
    | OrderCancelled i r \<Rightarrow> [NBig i, NStr r]
    | OrderExecuted i r \<Rightarrow> [NBig i, NBig r]
    | FundingApplied a r h c \<Rightarrow>
        (case (a, c) of (Some x, Some k) \<Rightarrow> [NStr x, NBig r, NBig h, NBig k] | _ \<Rightarrow> [NBig r, NBig h])
    | Initialized a u r \<Rightarrow> [NStr a, NStr u, NStr r]
    | LiqRefund t i r p \<Rightarrow> [NStr t, NBig i, NBig r, NBig p]
    | BadDebtRecorded t a m f l \<Rightarrow> [NStr t, NStr a, NBig m, NBig f, NBig l]
    | AdlExecuted i t a d s p n c \<Rightarrow> [NBig i, NStr t, NStr a, NNum d, NBig s, NBig p, NBig n, NBig c]
    | AdlFlag _ a r p c \<Rightarrow> [NStr a, NNum r, NBig p, NBig c]
    | Paused m s \<Rightarrow> [NNum m, NBig s]
    | PauseDegraded f t \<Rightarrow> [NNum f, NNum t]
    | AssetHaltSet _ h \<Rightarrow> [NBool h]
    | CollateralChanged _ i t m p \<Rightarrow> [NBig i, NStr t, NBig m, NBig p])"

definition emittedTopics :: "event_body \<Rightarrow> native list" where
  "emittedTopics b = NStr (topicOf b) # (case b of AssetHaltSet a _ \<Rightarrow> [NStr a] | _ \<Rightarrow> [])"

text \<open>A funding event has both per-asset fields or none.\<close>

definition wellFormed :: "event_body \<Rightarrow> bool" where
  "wellFormed b = (case b of FundingApplied a _ _ c \<Rightarrow> (a = None) = (c = None) | _ \<Rightarrow> True)"

section \<open>Lemmas\<close>

lemma at_index_simps [simp]:
  "at_index [] i = NOther"
  "at_index (x # xs) 0 = x"
  "at_index (x # xs) (Suc i) = at_index xs i"
  by (simp_all add: at_index_def)

lemma at_index_numeral [simp]: "at_index (x # xs) (numeral k) = at_index xs (pred_numeral k)"
  by (simp add: numeral_eq_Suc)

lemma reads_simps [simp]: "reads (Inr x) f = f x" "reads (Inl e) f = Inl e"
  by (simp_all add: reads_def)

lemmas decoder_defs = decodePositionOpened_def decodePositionClosed_def decodePositionLiquidated_def
  decodePositionPartialLiq_def decodePositionReduced_def decodeCrossLiq_def decodeLiqRefund_def
  decodeBadDebtRecorded_def decodeAdlExecuted_def decodeAdlFlag_def decodeOrderPlaced_def decodeOrderCancelled_def
  decodeOrderExecuted_def decodeFundingApplied_def decodeInitialized_def decodePaused_def decodePauseDegraded_def
  decodeAssetHaltSet_def decodeCollateralChanged_def

lemma decodeBody_emitted:
  "wellFormed b \<Longrightarrow> decodeBody (topicOf b) (emittedTopics b) (emitted b) = Some (Inr b)"
  by (cases b) (auto simp: decodeBody_def topicOf_def emitted_def emittedTopics_def wellFormed_def decoder_defs split: option.splits)

lemma reads_Inr: "reads m f = Inr y \<Longrightarrow> \<exists>x. m = Inr x \<and> f x = Inr y"
  by (cases m) simp_all

lemma decodeBody_topic: "decodeBody topic topics v = Some (Inr b) \<Longrightarrow> topicOf b = topic"
  unfolding decodeBody_def decoder_defs Let_def
  by (auto simp: topicOf_def dest!: reads_Inr split: if_split_asm)

lemma wellFormed_decoded: "decodeBody topic topics v = Some (Inr b) \<Longrightarrow> wellFormed b"
  unfolding decodeBody_def decoder_defs Let_def
  by (auto simp: wellFormed_def dest!: reads_Inr split: if_split_asm)

section \<open>Properties\<close>


definition sampleRaw :: raw_event where
  "sampleRaw = \<lparr>re_id = ''7-0'', re_contractId = ''CMARKET'', re_ledger = 7, re_ledgerClosedAtMs = 1700000000999,
     re_txHash = ''tx'', re_topics = Inr [NStr ''order_cancelled''], re_value = Inr (NArr [NBig 4, NStr ''user'']), re_xdr = None\<rparr>"


text \<open>C24. What a decoder accepts is typed: the variant of a decoded event is the one of its raw topic, its envelope is
  the raw event's, and a funding event has both per-asset fields or none.\<close>

theorem decode_typed:
  assumes "decodeMarketEvent raw = Inr (Some e)"
  shows "\<exists>topics. re_topics raw = Inr topics \<and> at_index topics 0 = NStr (topicOf (me_body e))
     \<and> wellFormed (me_body e) \<and> e = envelope raw (me_body e)"
proof -
  have mapped: "map_sum id f r = Inr y \<longleftrightarrow> (\<exists>b. r = Inr b \<and> y = f b)" for f :: "event_body \<Rightarrow> market_event option" and r y
    by (cases r) auto
  from assms obtain topics topic r b v where topics: "re_topics raw = Inr topics" "at_index topics 0 = NStr topic"
      "decodeBody topic topics v = Some (Inr b)" "e = envelope raw b"
    by (auto simp: decodeMarketEvent_def reads_def mapped split: sum.splits native.splits option.splits)
  then show ?thesis
    using decodeBody_topic [OF topics(3)] wellFormed_decoded [OF topics(3)]
    by (auto simp: envelope_def)
qed

theorem decode_typed_witness:
  "at_index [NStr ''order_cancelled''] 0 = NStr (topicOf (OrderCancelled 4 ''user''))"
proof -
  have "decodeMarketEvent sampleRaw = Inr (Some (envelope sampleRaw (OrderCancelled 4 ''user'')))"
    by (simp add: decodeMarketEvent_def sampleRaw_def decodeBody_def decodeOrderCancelled_def)
  from decode_typed [OF this] show ?thesis by (auto simp: sampleRaw_def envelope_def)
qed

end
