(* ===== verification/IndexerMarket.thy ===== *)
theory IndexerMarket
  imports IndexerEvents "HOL-Library.Sublist"
begin

text \<open>
  The market handler of the indexer (\<open>indexer/src/handlers/market.ts\<close>) with the cross-liquidation cleanup
  (\<open>positionSync.ts\<close>), the event router (\<open>router.ts\<close>), the bus messages and the rebuild of the projections from the
  archive (\<open>reindex.ts\<close>). The database is a record of tables keyed by their primary keys; a statement may fail, a
  commit may fail or lose its acknowledgement. Amounts are stored as decimal text, here as the integer.
\<close>

section \<open>Definitions: tables\<close>

record position_row =
  pr_trader :: string
  pr_asset :: string
  pr_direction :: int
  pr_size :: int
  pr_entryPrice :: int
  pr_openedAt :: int
  pr_openedTxHash :: string
  pr_contractId :: string

datatype trade_kind = CloseTrade | LiquidationTrade | AdlTrade

record trade_row =
  tr_positionId :: int
  tr_trader :: string
  tr_asset :: string
  tr_direction :: int
  tr_kind :: trade_kind
  tr_size :: int
  tr_entryPrice :: "int option"
  tr_closePrice :: int
  tr_pnl :: "int option"
  tr_ledger :: int
  tr_ts :: int
  tr_txHash :: string
  tr_contractId :: string

record bad_debt_row =
  bd_trader :: string
  bd_asset :: string
  bd_amount :: int
  bd_bufferCovered :: int
  bd_lpAbsorbed :: int
  bd_ledger :: int
  bd_ts :: int
  bd_txHash :: string
  bd_contractId :: string

datatype position_state = OpenedState | ClosedState | LiquidatedState
datatype fill_kind = OpenFill | CloseFill | LiquidationFill | AdlFill
datatype order_state = PlacedState | CancelledState | ExecutedState

datatype bus_message =
    BusEvent market_event
  | BusTrade fill_kind int string int int int string
  | BusPosition int string position_state
  | BusOrder int order_state
  | BusFunding int int int

record index_db =
  eventsRaw :: "market_event list"
  positions :: "(int, position_row) jmap"
  trades :: "(string, trade_row) jmap"
  badDebt :: "(string, bad_debt_row) jmap"
  bus :: "bus_message list"

text \<open>\<open>INSERT ... ON CONFLICT DO NOTHING\<close>, and \<open>UPDATE ... WHERE key = ?\<close>.\<close>

definition insert_new :: "'k \<Rightarrow> 'v \<Rightarrow> ('k, 'v) jmap \<Rightarrow> ('k, 'v) jmap" where
  "insert_new k v m = (if map_of m k = None then m @ [(k, v)] else m)"

definition update_row :: "'k \<Rightarrow> ('v \<Rightarrow> 'v) \<Rightarrow> ('k, 'v) jmap \<Rightarrow> ('k, 'v) jmap" where
  "update_row k f m = (case map_of m k of None \<Rightarrow> m | Some v \<Rightarrow> jset k (f v) m)"

definition archived :: "index_db \<Rightarrow> string \<Rightarrow> bool" where
  "archived d i \<longleftrightarrow> i \<in> me_id ` set (eventsRaw d)"

definition insertEvent :: "market_event \<Rightarrow> index_db \<Rightarrow> index_db" where
  "insertEvent e d = (if archived d (me_id e) then d else d\<lparr>eventsRaw := eventsRaw d @ [e]\<rparr>)"

section \<open>Definitions: projections\<close>

definition openedRow :: "market_event \<Rightarrow> string \<Rightarrow> string \<Rightarrow> int \<Rightarrow> int \<Rightarrow> int \<Rightarrow> position_row" where
  "openedRow e t a dir s p = \<lparr>pr_trader = t, pr_asset = a, pr_direction = dir, pr_size = s, pr_entryPrice = p,
     pr_openedAt = me_ledgerCloseTs e, pr_openedTxHash = me_txHash e, pr_contractId = me_contractId e\<rparr>"

definition maintainPositionsProjection :: "market_event \<Rightarrow> (int, position_row) jmap \<Rightarrow> (int, position_row) jmap" where
  "maintainPositionsProjection e ps = (case me_body e of
      PositionOpened i t a dir s p \<Rightarrow> jset i (openedRow e t a dir s p) ps
    | PositionClosed i _ _ _ _ _ _ _ \<Rightarrow> jdel i ps
    | PositionLiquidated i _ _ _ _ _ _ \<Rightarrow> jdel i ps
    | AdlExecuted i _ _ _ _ _ _ _ \<Rightarrow> jdel i ps
    | PositionPartialLiq i _ _ _ s _ _ \<Rightarrow> update_row i (\<lambda>r. r\<lparr>pr_size := pr_size r - s\<rparr>) ps
    | PositionReduced i _ _ _ r _ _ \<Rightarrow> update_row i (\<lambda>row. row\<lparr>pr_size := r\<rparr>) ps
    | _ \<Rightarrow> ps)"

definition tradeRow :: "market_event \<Rightarrow> int \<Rightarrow> string \<Rightarrow> string \<Rightarrow> int \<Rightarrow> trade_kind \<Rightarrow> int \<Rightarrow> int option \<Rightarrow> int \<Rightarrow> int option \<Rightarrow> trade_row" where
  "tradeRow e i t a dir k s entry price pnl =
     \<lparr>tr_positionId = i, tr_trader = t, tr_asset = a, tr_direction = dir, tr_kind = k, tr_size = s, tr_entryPrice = entry,
      tr_closePrice = price, tr_pnl = pnl, tr_ledger = me_ledger e, tr_ts = me_ledgerCloseTs e, tr_txHash = me_txHash e,
      tr_contractId = me_contractId e\<rparr>"

definition realizedTrade :: "market_event \<Rightarrow> trade_row option" where
  "realizedTrade e = (case me_body e of
      PositionClosed i t a dir s p c n \<Rightarrow> Some (tradeRow e i t a dir CloseTrade s (Some p) c (Some n))
    | PositionLiquidated i t a dir s _ c \<Rightarrow> Some (tradeRow e i t a dir LiquidationTrade s None c None)
    | PositionPartialLiq i t a dir s _ c \<Rightarrow> Some (tradeRow e i t a dir LiquidationTrade s None c None)
    | AdlExecuted i t a dir s p n _ \<Rightarrow> Some (tradeRow e i t a dir AdlTrade s None p (Some n))
    | _ \<Rightarrow> None)"

definition recordRealizedTrade :: "market_event \<Rightarrow> (string, trade_row) jmap \<Rightarrow> (string, trade_row) jmap" where
  "recordRealizedTrade e ts = (case realizedTrade e of None \<Rightarrow> ts | Some r \<Rightarrow> insert_new (me_id e) r ts)"

definition recordBadDebt :: "market_event \<Rightarrow> (string, bad_debt_row) jmap \<Rightarrow> (string, bad_debt_row) jmap" where
  "recordBadDebt e bs = (case me_body e of
      BadDebtRecorded t a m f l \<Rightarrow> insert_new (me_id e)
        \<lparr>bd_trader = t, bd_asset = a, bd_amount = m, bd_bufferCovered = f, bd_lpAbsorbed = l, bd_ledger = me_ledger e,
         bd_ts = me_ledgerCloseTs e, bd_txHash = me_txHash e, bd_contractId = me_contractId e\<rparr> bs
    | _ \<Rightarrow> bs)"

text \<open>The statements of one transaction after the archive row.\<close>

definition project :: "market_event \<Rightarrow> index_db \<Rightarrow> index_db" where
  "project e d = d\<lparr>positions := maintainPositionsProjection e (positions d),
     trades := recordRealizedTrade e (trades d), badDebt := recordBadDebt e (badDebt d)\<rparr>"

section \<open>Definitions: bus messages\<close>

definition busMessages :: "market_event \<Rightarrow> bus_message list" where
  "busMessages e = BusEvent e # (let ts = me_ledgerCloseTs e in case me_body e of
      PositionOpened i t a _ s p \<Rightarrow> [BusPosition i t OpenedState, BusTrade OpenFill i t p s ts a]
    | PositionClosed i t a _ s _ c _ \<Rightarrow> [BusPosition i t ClosedState, BusTrade CloseFill i t c s ts a]
    | PositionLiquidated i t a _ s _ c \<Rightarrow> [BusPosition i t LiquidatedState, BusTrade LiquidationFill i t c s ts a]
    | PositionPartialLiq i t a _ s _ c \<Rightarrow> [BusTrade LiquidationFill i t c s ts a]
    | OrderPlaced i _ _ \<Rightarrow> [BusOrder i PlacedState]
    | OrderCancelled i _ \<Rightarrow> [BusOrder i CancelledState]
    | OrderExecuted i _ \<Rightarrow> [BusOrder i ExecutedState]
    | FundingApplied _ r h _ \<Rightarrow> [BusFunding r h ts]
    | AdlExecuted i t a _ s p _ _ \<Rightarrow> [BusPosition i t ClosedState, BusTrade AdlFill i t p s ts a]
    | _ \<Rightarrow> [])"

definition emitBus :: "market_event \<Rightarrow> index_db \<Rightarrow> index_db" where
  "emitBus e d = d\<lparr>bus := bus d @ busMessages e\<rparr>"

section \<open>Definitions: the handler\<close>

datatype position_lookup = LookupFailed | NoPosition | PositionThere

text \<open>
  What the database and the RPC do during one handler call: whether the transaction can be opened, the first statement
  of it that fails (0 the archive row, then the projections, 4 the commit), whether the commit lands but reports an
  error, whether the archive row of the error path fails, and for the cleanup its query, lookups and deletions.
\<close>

record market_faults =
  beginFails :: bool
  failsAt :: "nat option"
  commitLost :: bool
  archiveFails :: bool
  selectFails :: bool
  lookupPosition :: "int \<Rightarrow> position_lookup"
  deleteFails :: "int \<Rightarrow> bool"

text \<open>\<open>fetchOnChainPosition\<close> answers through the SDK; a lookup that fails keeps the row.\<close>

fun cleanupRows :: "market_faults \<Rightarrow> int list \<Rightarrow> (int, position_row) jmap \<Rightarrow> (int, position_row) jmap \<times> (string + unit)" where
  "cleanupRows x [] ps = (ps, Inr ())"
| "cleanupRows x (i # ids) ps =
     (if lookupPosition x i = NoPosition
      then if deleteFails x i then (ps, Inl ''delete failed'') else cleanupRows x ids (jdel i ps)
      else cleanupRows x ids ps)"

definition cleanupCrossLiquidatedPositions :: "market_faults \<Rightarrow> string \<Rightarrow> index_db \<Rightarrow> index_db \<times> (string + unit)" where
  "cleanupCrossLiquidatedPositions x trader d =
     (if selectFails x then (d, Inl ''select failed'')
      else let ids = map fst (filter (\<lambda>(i, r). pr_trader r = trader) (positions d));
               (ps, r) = cleanupRows x ids (positions d)
           in (d\<lparr>positions := ps\<rparr>, r))"

definition handlerFailed :: "market_faults \<Rightarrow> market_event \<Rightarrow> index_db \<Rightarrow> index_db \<times> (string + unit)" where
  "handlerFailed x e d = (if archiveFails x then d else insertEvent e d, Inl ''handler failed'')"

definition crossCleanup :: "market_faults \<Rightarrow> market_event \<Rightarrow> index_db \<Rightarrow> index_db \<times> (string + unit)" where
  "crossCleanup x e d =
     (case me_body e of CrossLiquidated t _ _ \<Rightarrow> cleanupCrossLiquidatedPositions x t d | _ \<Rightarrow> (d, Inr ()))"

definition afterCommit :: "market_faults \<Rightarrow> bool \<Rightarrow> market_event \<Rightarrow> index_db \<Rightarrow> index_db \<times> (string + unit)" where
  "afterCommit x replay e d =
     (case crossCleanup x e d of
        (d', Inl err) \<Rightarrow> (d', Inl err)
      | (d', Inr u) \<Rightarrow> (if replay then d' else emitBus e d', Inr ()))"

definition handleMarket :: "market_faults \<Rightarrow> bool \<Rightarrow> market_event \<Rightarrow> index_db \<Rightarrow> index_db \<times> (string + unit)" where
  "handleMarket x replay e d =
     (if beginFails x then (d, Inl ''begin failed'')
      else if failsAt x = Some 0 then handlerFailed x e d
      else if archived d (me_id e) \<and> \<not> replay then (d, Inr ())
      else if failsAt x \<noteq> None then handlerFailed x e d
      else let d' = project e (insertEvent e d)
           in if commitLost x then handlerFailed x e d' else afterCommit x replay e d')"

section \<open>Definitions: the router\<close>

type_synonym 'd registration = "string \<times> string \<times> (market_event \<Rightarrow> 'd \<Rightarrow> 'd \<times> (string + unit))"

fun runHandlers :: "(market_event \<Rightarrow> 'd \<Rightarrow> 'd \<times> (string + unit)) list \<Rightarrow> market_event \<Rightarrow> 'd \<Rightarrow> 'd \<times> (string + unit)" where
  "runHandlers [] e d = (d, Inr ())"
| "runHandlers (h # hs) e d = (case h e d of (d', Inl err) \<Rightarrow> (d', Inl err) | (d', Inr u) \<Rightarrow> runHandlers hs e d')"

definition dispatch :: "'d registration list \<Rightarrow> market_event \<Rightarrow> 'd \<Rightarrow> 'd \<times> (string + unit)" where
  "dispatch regs e d =
     runHandlers (map (\<lambda>(_, _, h). h) (filter (\<lambda>(c, t, _). c = me_contractId e \<and> t = topicOf (me_body e)) regs)) e d"

definition MARKET_TOPICS :: "string list" where
  "MARKET_TOPICS =
     [''initialized'', ''position_opened'', ''position_closed'', ''position_liquidated'', ''position_partial_liq'',
      ''position_reduced'', ''cross_liq'', ''order_placed'', ''order_cancelled'', ''order_executed'', ''funding_applied'',
      ''liq_refund'', ''bad_debt_recorded'', ''adl_executed'', ''adl_triggered'', ''adl_cleared'', ''paused'',
      ''pause_degraded'', ''asset_halt_set'', ''collateral_added'', ''collateral_removed'']"

definition buildMarketRegistrations :: "(market_event \<Rightarrow> 'd \<Rightarrow> 'd \<times> (string + unit)) \<Rightarrow> string \<Rightarrow> 'd registration list" where
  "buildMarketRegistrations handler market = map (\<lambda>topic. (market, topic, handler)) MARKET_TOPICS"

section \<open>Definitions: the rebuild\<close>

text \<open>
  \<open>ORDER BY ledger ASC, event_id ASC\<close>; how the database collates the ids is its own (\<open>collate a b\<close> is negative when
  \<open>a\<close> comes first).
\<close>

definition archiveOrder :: "(string \<Rightarrow> string \<Rightarrow> int) \<Rightarrow> market_event \<Rightarrow> market_event \<Rightarrow> int" where
  "archiveOrder collate a b = (if me_ledger a = me_ledger b then collate (me_id a) (me_id b) else me_ledger a - me_ledger b)"

text \<open>The archived row keeps the decoded payload; the raw XDR is not read back.\<close>

definition reviveEvent :: "market_event \<Rightarrow> market_event" where
  "reviveEvent e = e\<lparr>me_rawXdr := None\<rparr>"

fun replayEvents :: "(market_event \<Rightarrow> index_db \<Rightarrow> index_db \<times> (string + unit)) \<Rightarrow> market_event list \<Rightarrow> index_db \<times> nat \<times> nat
     \<Rightarrow> index_db \<times> nat \<times> nat" where
  "replayEvents dispatcher [] s = s"
| "replayEvents dispatcher (e # es) (d, replayed, failed) =
     (case dispatcher (reviveEvent e) d of
        (d', Inr u) \<Rightarrow> replayEvents dispatcher es (d', replayed + 1, failed)
      | (d', Inl err) \<Rightarrow> replayEvents dispatcher es (d', replayed, failed + 1))"

text \<open>Of the truncated projection tables, those of the market; \<open>bad_debt\<close> is not in the list.\<close>

definition truncateProjections :: "index_db \<Rightarrow> index_db" where
  "truncateProjections d = d\<lparr>positions := [], trades := []\<rparr>"

definition reindexProjections ::
    "(string \<Rightarrow> string \<Rightarrow> int) \<Rightarrow> (market_event \<Rightarrow> index_db \<Rightarrow> index_db \<times> (string + unit)) \<Rightarrow> index_db \<Rightarrow> index_db \<times> nat \<times> nat" where
  "reindexProjections collate dispatcher d =
     (let d0 = truncateProjections d
      in replayEvents dispatcher (js_sort (archiveOrder collate) (eventsRaw d0)) (d0, 0, 0))"

section \<open>The contract of an idempotent handler\<close>

text \<open>A sequence of deliveries, each with what the environment does during it.\<close>

definition runDeliveries :: "('x \<Rightarrow> 'e \<Rightarrow> 'd \<Rightarrow> 'd \<times> (string + unit)) \<Rightarrow> ('x \<times> 'e) list \<Rightarrow> 'd \<Rightarrow> 'd" where
  "runDeliveries handler ds d = foldl (\<lambda>d (x, e). fst (handler x e d)) d ds"

lemma runDeliveries_simps [simp]:
  "runDeliveries h [] d = d"
  "runDeliveries h ((x, e) # ds) d = runDeliveries h ds (fst (h x e d))"
  "runDeliveries h (us @ vs) d = runDeliveries h vs (runDeliveries h us d)"
  by (simp_all add: runDeliveries_def)

text \<open>
  What the poller relies on: an archived id stays archived, a delivery of an archived id changes nothing, and a
  handler that reports success has archived its event.
\<close>

locale idempotent_handler =
  fixes handler :: "'x \<Rightarrow> 'e \<Rightarrow> 'd \<Rightarrow> 'd \<times> (string + unit)"
    and ident :: "'e \<Rightarrow> string"
    and known :: "'d \<Rightarrow> string \<Rightarrow> bool"
  assumes kept: "known d i \<Longrightarrow> known (fst (handler x e d)) i"
    and skipped: "known d (ident e) \<Longrightarrow> fst (handler x e d) = d"
    and success: "snd (handler x e d) = Inr () \<Longrightarrow> known (fst (handler x e d)) (ident e)"
begin

lemma kept_run: "known d i \<Longrightarrow> known (runDeliveries handler ds d) i"
  by (induction ds arbitrary: d) (auto simp: kept)

lemma redelivered: "list_all (\<lambda>(x, e). known d (ident e)) ds \<Longrightarrow> runDeliveries handler ds d = d"
  by (induction ds) (auto simp: skipped)

text \<open>After a delivery that succeeded, deliveries of the same id can be left out anywhere later.\<close>

lemma later_deliveries:
  "known d (ident e) \<Longrightarrow>
     runDeliveries handler (filter (\<lambda>(x, f). ident f \<noteq> ident e) ds) d = runDeliveries handler ds d"
  by (induction ds arbitrary: d) (auto simp: skipped kept)

lemma delivered_once:
  assumes "snd (handler x e d) = Inr ()"
  shows "runDeliveries handler ((x, e) # filter (\<lambda>(y, f). ident f \<noteq> ident e) ds) d = runDeliveries handler ((x, e) # ds) d"
  using later_deliveries [OF success [OF assms]] by simp

end

section \<open>Lemmas: the market handler\<close>

lemma archived_insertEvent [simp]: "archived (insertEvent e d) i \<longleftrightarrow> i = me_id e \<or> archived d i"
  by (auto simp: insertEvent_def archived_def)

lemma archived_project [simp]: "archived (project e d) i = archived d i"
  by (simp add: project_def archived_def)

lemma insertEvent_fields [simp]:
  "positions (insertEvent e d) = positions d" "trades (insertEvent e d) = trades d"
  "badDebt (insertEvent e d) = badDebt d" "bus (insertEvent e d) = bus d"
  by (simp_all add: insertEvent_def)

lemma insertEvent_known: "archived d (me_id e) \<Longrightarrow> insertEvent e d = d"
  by (simp add: insertEvent_def)

lemma cleanup_frame:
  "trades (fst (cleanupCrossLiquidatedPositions x t d)) = trades d"
  "badDebt (fst (cleanupCrossLiquidatedPositions x t d)) = badDebt d"
  "bus (fst (cleanupCrossLiquidatedPositions x t d)) = bus d"
  "eventsRaw (fst (cleanupCrossLiquidatedPositions x t d)) = eventsRaw d"
  by (simp_all add: cleanupCrossLiquidatedPositions_def Let_def split: prod.split)

definition isCross :: "market_event \<Rightarrow> bool" where
  "isCross e = (case me_body e of CrossLiquidated _ _ _ \<Rightarrow> True | _ \<Rightarrow> False)"

lemma crossCleanup_frame:
  "trades (fst (crossCleanup x e d)) = trades d"
  "badDebt (fst (crossCleanup x e d)) = badDebt d"
  "bus (fst (crossCleanup x e d)) = bus d"
  "eventsRaw (fst (crossCleanup x e d)) = eventsRaw d"
  by (simp_all add: crossCleanup_def cleanup_frame split: event_body.split)

lemma crossCleanup_other: "\<not> isCross e \<Longrightarrow> crossCleanup x e d = (d, Inr ())"
  by (auto simp: crossCleanup_def isCross_def split: event_body.split)

lemma afterCommit_other [simp]:
  "\<not> isCross e \<Longrightarrow> afterCommit x replay e d = (if replay then d else emitBus e d, Inr ())"
  by (simp add: afterCommit_def crossCleanup_other)

lemma afterCommit_frame:
  "trades (fst (afterCommit x replay e d)) = trades d"
  "badDebt (fst (afterCommit x replay e d)) = badDebt d"
  "eventsRaw (fst (afterCommit x replay e d)) = eventsRaw d"
  "bus (fst (afterCommit x False e d)) \<in> {bus d, bus d @ busMessages e}"
proof -
  obtain d' r where c: "crossCleanup x e d = (d', r)" by fastforce
  then have "trades d' = trades d" "badDebt d' = badDebt d" "bus d' = bus d" "eventsRaw d' = eventsRaw d"
    using crossCleanup_frame [of x e d] by simp_all
  then show "trades (fst (afterCommit x replay e d)) = trades d" "badDebt (fst (afterCommit x replay e d)) = badDebt d"
    "eventsRaw (fst (afterCommit x replay e d)) = eventsRaw d"
    "bus (fst (afterCommit x False e d)) \<in> {bus d, bus d @ busMessages e}"
    by (auto simp: afterCommit_def c emitBus_def split: sum.split)
qed

lemma archived_afterCommit [simp]: "archived (fst (afterCommit x replay e d)) = archived d"
  by (rule ext) (simp add: archived_def afterCommit_frame(3))

lemma archived_failed [simp]:
  "archived (fst (handlerFailed x e d)) i \<longleftrightarrow> archived d i \<or> (\<not> archiveFails x \<and> i = me_id e)"
  by (auto simp: handlerFailed_def)

lemma failed_frame [simp]:
  "positions (fst (handlerFailed x e d)) = positions d" "trades (fst (handlerFailed x e d)) = trades d"
  "badDebt (fst (handlerFailed x e d)) = badDebt d" "bus (fst (handlerFailed x e d)) = bus d"
  "snd (handlerFailed x e d) \<noteq> Inr ()"
  by (simp_all add: handlerFailed_def)

lemma failed_known: "archived d (me_id e) \<Longrightarrow> fst (handlerFailed x e d) = d"
  by (simp add: handlerFailed_def insertEvent_known)

interpretation market: idempotent_handler "\<lambda>x. handleMarket x False" me_id archived
proof
  fix d i x and e :: market_event
  assume "archived d i"
  then show "archived (fst (handleMarket x False e d)) i"
    by (auto simp: handleMarket_def Let_def)
next
  fix d x and e :: market_event
  assume "archived d (me_id e)"
  then show "fst (handleMarket x False e d) = d"
    by (simp add: handleMarket_def failed_known)
next
  fix x d and e :: market_event
  assume "snd (handleMarket x False e d) = Inr ()"
  then show "archived (fst (handleMarket x False e d)) (me_id e)"
    by (auto simp: handleMarket_def Let_def split: if_split_asm)
qed

section \<open>What a sequence of deliveries applies\<close>

text \<open>
  The abstract machine: the set of archived ids and the events whose projections were applied, in order. A delivery
  whose transaction never opens leaves no trace; one that fails is archived by the error path unless that fails too.
\<close>

primrec appliedLog :: "(string \<Rightarrow> bool) \<Rightarrow> (market_faults \<times> market_event) list \<Rightarrow> market_event list" where
  "appliedLog seen [] = []"
| "appliedLog seen (p # ds) =
     (let x = fst p; e = snd p in
      if beginFails x \<or> seen (me_id e) then appliedLog seen ds
      else if failsAt x = None then e # appliedLog (seen(me_id e := True)) ds
      else appliedLog (if archiveFails x then seen else seen(me_id e := True)) ds)"

fun publishedEvent :: "bus_message \<Rightarrow> market_event option" where
  "publishedEvent (BusEvent e) = Some e"
| "publishedEvent _ = None"

definition published :: "index_db \<Rightarrow> market_event list" where
  "published d = List.map_filter publishedEvent (bus d)"

declare map_filter_append [simp]

lemma published_busMessages: "List.map_filter publishedEvent (busMessages e) = [e]"
  by (simp add: busMessages_def List.map_filter_def Let_def split: event_body.split)

lemma appliedLog_new: "e \<in> set (appliedLog seen ds) \<Longrightarrow> \<not> seen (me_id e)"
proof (induction ds arbitrary: seen)
  case (Cons p ds)
  have later: "e \<in> set (appliedLog (seen(i := True)) ds) \<Longrightarrow> \<not> seen (me_id e)" for i
    using Cons.IH [of "seen(i := True)"] by (metis fun_upd_apply)
  then show ?case
    using Cons by (auto simp: Let_def split: if_split_asm)
qed simp

lemma appliedLog_distinct: "distinct (map me_id (appliedLog seen ds))"
  by (induction ds arbitrary: seen) (auto simp: Let_def dest: appliedLog_new)

lemma appliedLog_subseq: "subseq (appliedLog seen ds) (map snd ds)"
  by (induction ds arbitrary: seen) (auto simp: Let_def)

text \<open>One delivery against one step of the machine.\<close>

abbreviation deliver :: "market_faults \<Rightarrow> market_event \<Rightarrow> index_db \<Rightarrow> index_db" where
  "deliver x e d \<equiv> fst (handleMarket x False e d)"

definition applies :: "market_faults \<Rightarrow> market_event \<Rightarrow> index_db \<Rightarrow> bool" where
  "applies x e d \<longleftrightarrow> \<not> beginFails x \<and> \<not> archived d (me_id e) \<and> failsAt x = None"

lemma deliver_applies:
  assumes "applies x e d"
  shows "trades (deliver x e d) = recordRealizedTrade e (trades d)"
    "badDebt (deliver x e d) = recordBadDebt e (badDebt d)"
    "\<not> isCross e \<Longrightarrow> positions (deliver x e d) = maintainPositionsProjection e (positions d)"
    "archived (deliver x e d) = (archived d)(me_id e := True)"
    "bus (deliver x e d) \<in> {bus d, bus d @ busMessages e}"
proof -
  let ?d = "project e (insertEvent e d)"
  have eq: "deliver x e d = fst (if commitLost x then handlerFailed x e ?d else afterCommit x False e ?d)"
    using assms by (simp add: applies_def handleMarket_def Let_def)
  have fields: "trades ?d = recordRealizedTrade e (trades d)" "badDebt ?d = recordBadDebt e (badDebt d)"
    "positions ?d = maintainPositionsProjection e (positions d)" "bus ?d = bus d"
    by (simp_all add: project_def)
  show "trades (deliver x e d) = recordRealizedTrade e (trades d)"
    "badDebt (deliver x e d) = recordBadDebt e (badDebt d)"
    by (simp_all add: eq afterCommit_frame fields)
  show "\<not> isCross e \<Longrightarrow> positions (deliver x e d) = maintainPositionsProjection e (positions d)"
    by (simp add: eq fields emitBus_def)
  show "archived (deliver x e d) = (archived d)(me_id e := True)"
    by (rule ext) (auto simp: eq)
  show "bus (deliver x e d) \<in> {bus d, bus d @ busMessages e}"
    using afterCommit_frame(4) [of x e ?d] by (auto simp: eq fields)
qed

lemma archived_failed_fun:
  "archived (fst (handlerFailed x e d)) = (if archiveFails x then archived d else (archived d)(me_id e := True))"
  by (rule ext) auto

lemma deliver_applies_not:
  assumes "\<not> applies x e d"
  shows "trades (deliver x e d) = trades d" "badDebt (deliver x e d) = badDebt d"
    "positions (deliver x e d) = positions d" "bus (deliver x e d) = bus d"
    "archived (deliver x e d) = (if beginFails x \<or> archived d (me_id e) \<or> archiveFails x then archived d
       else (archived d)(me_id e := True))"
  using assms by (auto simp: applies_def handleMarket_def Let_def failed_known archived_failed_fun)

lemma appliedLog_Cons:
  "appliedLog (archived d) ((x, e) # ds) =
     (if applies x e d then e # appliedLog (archived (deliver x e d)) ds else appliedLog (archived (deliver x e d)) ds)"
proof (cases "applies x e d")
  case True
  then show ?thesis using deliver_applies(4) [OF True] by (simp add: applies_def)
next
  case False
  then show ?thesis using deliver_applies_not(5) [OF False] by (auto simp: applies_def Let_def)
qed

abbreviation deliveries :: "(market_faults \<times> market_event) list \<Rightarrow> index_db \<Rightarrow> index_db" where
  "deliveries \<equiv> runDeliveries (\<lambda>x. handleMarket x False)"

lemma deliveries_refine:
  "trades (deliveries ds d) = fold recordRealizedTrade (appliedLog (archived d) ds) (trades d)
   \<and> badDebt (deliveries ds d) = fold recordBadDebt (appliedLog (archived d) ds) (badDebt d)
   \<and> (list_all (\<lambda>e. \<not> isCross e) (appliedLog (archived d) ds) \<longrightarrow>
        positions (deliveries ds d) = fold maintainPositionsProjection (appliedLog (archived d) ds) (positions d))
   \<and> (\<exists>es. published (deliveries ds d) = published d @ es \<and> subseq es (appliedLog (archived d) ds))"
proof (induction ds arbitrary: d)
  case (Cons p ds)
  obtain x e where p: "p = (x, e)" by fastforce
  let ?d = "deliver x e d"
  obtain es where es: "published (deliveries ds ?d) = published ?d @ es" "subseq es (appliedLog (archived ?d) ds)"
    using Cons.IH [of ?d] by blast
  show ?case
  proof (cases "applies x e d")
    case True
    have "published ?d = published d \<or> published ?d = published d @ [e]"
      using deliver_applies(5) [OF True] by (auto simp: published_def published_busMessages)
    then have "\<exists>fs. published (deliveries ds ?d) = published d @ fs \<and> subseq fs (e # appliedLog (archived ?d) ds)"
      using es by auto
    then show ?thesis
      using Cons.IH [of ?d] deliver_applies(1-3) [OF True] True
      unfolding p runDeliveries_simps appliedLog_Cons by simp
  next
    case False
    have "published ?d = published d" using deliver_applies_not(4) [OF False] by (simp add: published_def)
    then show ?thesis
      using Cons.IH [of ?d] deliver_applies_not(1-3) [OF False] False
      unfolding p runDeliveries_simps appliedLog_Cons by simp
  qed
qed (auto simp: published_def)

lemma map_of_insert_new [simp]:
  "map_of (insert_new k v m) j = (if j = k \<and> map_of m k = None then Some v else map_of m j)"
  by (auto simp: insert_new_def map_add_def split: option.split)

lemma map_of_recordRealizedTrade:
  "map_of ts (me_id e) = None \<Longrightarrow>
     map_of (recordRealizedTrade e ts) i = (if i = me_id e then realizedTrade e else map_of ts i)"
  by (simp add: recordRealizedTrade_def split: option.split)

lemma map_of_recorded:
  "distinct (map me_id es) \<Longrightarrow> (\<forall>e \<in> set es. map_of ts (me_id e) = None) \<Longrightarrow>
     map_of (fold recordRealizedTrade es ts) i =
       (case find (\<lambda>e. me_id e = i) es of None \<Rightarrow> map_of ts i | Some e \<Rightarrow> realizedTrade e)"
proof (induction es arbitrary: ts)
  case (Cons e es)
  have none: "map_of ts (me_id e) = None" using Cons.prems by simp
  have apart: "me_id f \<noteq> me_id e" if "f \<in> set es" for f
  proof
    assume "me_id f = me_id e"
    then have "me_id e \<in> set (map me_id es)" using that by (metis image_eqI list.set_map)
    with Cons.prems(1) show False by simp
  qed
  then have new: "find (\<lambda>f. me_id f = me_id e) es = None" by (simp add: find_None_iff)
  have "\<forall>f \<in> set es. map_of (recordRealizedTrade e ts) (me_id f) = None"
    using Cons.prems apart by (simp add: map_of_recordRealizedTrade [OF none])
  with Cons.IH [of "recordRealizedTrade e ts"] Cons.prems(1)
  have "map_of (fold recordRealizedTrade (e # es) ts) i =
      (case find (\<lambda>e. me_id e = i) es of None \<Rightarrow> map_of (recordRealizedTrade e ts) i | Some e \<Rightarrow> realizedTrade e)"
    by simp
  then show ?case
    using new by (auto simp: map_of_recordRealizedTrade [OF none] split: option.split)
qed simp

definition emptyDb :: index_db where
  "emptyDb = \<lparr>eventsRaw = [], positions = [], trades = [], badDebt = [], bus = []\<rparr>"

lemma archived_emptyDb [simp]: "archived emptyDb = (\<lambda>_. False)"
  by (rule ext) (simp add: archived_def emptyDb_def)

section \<open>The rebuild\<close>

definition noFaults :: market_faults where
  "noFaults = \<lparr>beginFails = False, failsAt = None, commitLost = False, archiveFails = False, selectFails = False,
     lookupPosition = (\<lambda>_. LookupFailed), deleteFails = (\<lambda>_. False)\<rparr>"

lemma topic_registered: "topicOf b \<in> set MARKET_TOPICS"
  by (cases b) (simp_all add: topicOf_def MARKET_TOPICS_def)

lemma distinct_topics: "distinct MARKET_TOPICS"
  by (simp add: MARKET_TOPICS_def)

lemma filter_one: "distinct xs \<Longrightarrow> x \<in> set xs \<Longrightarrow> filter (\<lambda>y. y = x) xs = [x]"
  by (induction xs) (auto simp: filter_empty_conv)

lemma dispatch_market:
  "dispatch (buildMarketRegistrations handler m) e d = (if me_contractId e = m then runHandlers [handler] e d else (d, Inr ()))"
proof -
  have "filter (\<lambda>(c, t, _). c = me_contractId e \<and> t = topicOf (me_body e)) (buildMarketRegistrations handler m)
      = map (\<lambda>t. (m, t, handler)) (filter (\<lambda>t. m = me_contractId e \<and> t = topicOf (me_body e)) MARKET_TOPICS)"
    by (simp add: buildMarketRegistrations_def filter_map o_def)
  then show ?thesis
    by (auto simp: dispatch_def filter_one [OF distinct_topics topic_registered])
qed

lemma revive_simps [simp]:
  "realizedTrade (reviveEvent e) = realizedTrade e" "recordRealizedTrade (reviveEvent e) = recordRealizedTrade e"
  "recordBadDebt (reviveEvent e) = recordBadDebt e"
  "maintainPositionsProjection (reviveEvent e) = maintainPositionsProjection e"
  "me_id (reviveEvent e) = me_id e" "isCross (reviveEvent e) = isCross e" "me_contractId (reviveEvent e) = me_contractId e"
proof -
  have real: "realizedTrade (e\<lparr>me_rawXdr := None\<rparr>) = realizedTrade e"
    by (simp add: realizedTrade_def tradeRow_def split: event_body.split)
  then show "realizedTrade (reviveEvent e) = realizedTrade e" by (simp add: reviveEvent_def)
  show "recordRealizedTrade (reviveEvent e) = recordRealizedTrade e"
    by (rule ext) (simp add: recordRealizedTrade_def real reviveEvent_def split: option.split)
  show "recordBadDebt (reviveEvent e) = recordBadDebt e"
    by (rule ext) (simp add: recordBadDebt_def reviveEvent_def split: event_body.split)
  show "maintainPositionsProjection (reviveEvent e) = maintainPositionsProjection e"
    by (rule ext) (simp add: maintainPositionsProjection_def reviveEvent_def openedRow_def split: event_body.split)
qed (simp_all add: reviveEvent_def isCross_def)

abbreviation rebuildDispatch :: "string \<Rightarrow> market_event \<Rightarrow> index_db \<Rightarrow> index_db \<times> (string + unit)" where
  "rebuildDispatch m \<equiv> dispatch (buildMarketRegistrations (handleMarket noFaults True) m)"

lemma replay_one:
  "me_contractId e = m \<Longrightarrow> \<not> isCross e \<Longrightarrow> archived d (me_id e) \<Longrightarrow> rebuildDispatch m e d = (project e d, Inr ())"
  by (simp add: dispatch_market handleMarket_def noFaults_def insertEvent_known Let_def)

lemma replay_all:
  assumes "list_all (\<lambda>e. me_contractId e = m \<and> \<not> isCross e \<and> archived d (me_id e)) es"
  shows "replayEvents (rebuildDispatch m) es (d, n, k) = (fold project (map reviveEvent es) d, n + length es, k)"
  using assms
proof (induction es arbitrary: d n)
  case (Cons e es)
  have "rebuildDispatch m (reviveEvent e) d = (project (reviveEvent e) d, Inr ())"
    using Cons.prems by (intro replay_one) simp_all
  with Cons show ?case by (simp add: list_all_iff)
qed simp

lemma fold_project:
  "positions (fold project es d) = fold maintainPositionsProjection es (positions d)
   \<and> trades (fold project es d) = fold recordRealizedTrade es (trades d)
   \<and> badDebt (fold project es d) = fold recordBadDebt es (badDebt d)
   \<and> eventsRaw (fold project es d) = eventsRaw d \<and> bus (fold project es d) = bus d"
  by (induction es arbitrary: d) (simp_all add: project_def)

lemma fold_revived [simp]:
  "fold maintainPositionsProjection (map reviveEvent es) = fold maintainPositionsProjection es"
  "fold recordRealizedTrade (map reviveEvent es) = fold recordRealizedTrade es"
  "fold recordBadDebt (map reviveEvent es) = fold recordBadDebt es"
  by (induction es) simp_all

lemma reindex_fold:
  assumes "list_all (\<lambda>e. me_contractId e = m \<and> \<not> isCross e) (eventsRaw d)"
  shows "let es = js_sort (archiveOrder collate) (eventsRaw d); (d', n, k) = reindexProjections collate (rebuildDispatch m) d
     in positions d' = fold maintainPositionsProjection es [] \<and> trades d' = fold recordRealizedTrade es []
        \<and> badDebt d' = fold recordBadDebt es (badDebt d) \<and> eventsRaw d' = eventsRaw d \<and> bus d' = bus d
        \<and> n = length (eventsRaw d) \<and> k = 0"
proof -
  let ?es = "js_sort (archiveOrder collate) (eventsRaw d)" and ?d = "truncateProjections d"
  have same: "eventsRaw ?d = eventsRaw d" by (simp add: truncateProjections_def)
  have "list_all (\<lambda>e. me_contractId e = m \<and> \<not> isCross e \<and> archived ?d (me_id e)) ?es"
    using assms by (auto simp: list_all_iff archived_def same)
  from replay_all [OF this, of 0 0] show ?thesis
    using fold_project [of "map reviveEvent ?es" ?d]
    by (simp add: reindexProjections_def Let_def same) (simp add: truncateProjections_def)
qed

lemma recordBadDebt_known: "map_of bs (me_id e) \<noteq> None \<Longrightarrow> recordBadDebt e bs = bs"
  by (auto simp: recordBadDebt_def insert_new_def split: event_body.split)

definition owes :: "market_event \<Rightarrow> bool" where
  "owes e = (case me_body e of BadDebtRecorded _ _ _ _ _ \<Rightarrow> True | _ \<Rightarrow> False)"

lemma recordBadDebt_dom: "map_of bs i \<noteq> None \<or> (i = me_id e \<and> owes e) \<Longrightarrow> map_of (recordBadDebt e bs) i \<noteq> None"
  by (auto simp: recordBadDebt_def owes_def split: event_body.split)

lemma fold_badDebt_dom:
  "map_of bs i \<noteq> None \<or> (\<exists>e \<in> set es. i = me_id e \<and> owes e) \<Longrightarrow> map_of (fold recordBadDebt es bs) i \<noteq> None"
proof (induction es arbitrary: bs)
  case (Cons e es)
  have "map_of (recordBadDebt e bs) i \<noteq> None \<or> (\<exists>e \<in> set es. i = me_id e \<and> owes e)"
    using Cons.prems recordBadDebt_dom [of bs i e] by auto
  from Cons.IH [OF this] show ?case by simp
qed simp

lemma recordBadDebt_free: "\<not> owes e \<Longrightarrow> recordBadDebt e bs = bs"
  by (auto simp: recordBadDebt_def owes_def split: event_body.split)

lemma fold_badDebt_again:
  "(\<forall>e \<in> set es. owes e \<longrightarrow> map_of bs (me_id e) \<noteq> None) \<Longrightarrow> fold recordBadDebt es bs = bs"
proof (induction es)
  case (Cons e es)
  then have "recordBadDebt e bs = bs" using recordBadDebt_known recordBadDebt_free by auto
  with Cons show ?case by simp
qed simp

text \<open>Deliveries without faults: the archive is the applied log.\<close>

lemma quiet_log:
  "list_all (\<lambda>(x, e). x = noFaults \<and> \<not> isCross e) ds \<Longrightarrow>
     eventsRaw (deliveries ds d) = eventsRaw d @ appliedLog (archived d) ds"
proof (induction ds arbitrary: d)
  case (Cons p ds)
  obtain e where p: "p = (noFaults, e)" "\<not> isCross e" using Cons.prems by (cases p) auto
  show ?case
  proof (cases "archived d (me_id e)")
    case True
    then have "deliver noFaults e d = d" "\<not> applies noFaults e d"
      by (simp_all add: market.skipped applies_def)
    then show ?thesis using Cons p by (simp del: appliedLog.simps add: appliedLog_Cons)
  next
    case False
    then have "applies noFaults e d" by (simp add: applies_def noFaults_def)
    moreover have "eventsRaw (deliver noFaults e d) = eventsRaw d @ [e]"
      using False p(2) by (simp add: handleMarket_def noFaults_def Let_def insertEvent_def project_def emitBus_def)
    ultimately show ?thesis using Cons p by (simp del: appliedLog.simps add: appliedLog_Cons)
  qed
qed simp

lemma appliedLog_sub: "set (appliedLog seen ds) \<subseteq> snd ` set ds"
proof (induction ds arbitrary: seen)
  case (Cons p ds)
  have "set (appliedLog f (p # ds)) \<subseteq> insert (snd p) (\<Union>g. set (appliedLog g ds))" for f
    by (auto simp: Let_def)
  then show ?case using Cons.IH by fastforce
qed simp

lemma emptyDb_simps [simp]:
  "eventsRaw emptyDb = []" "positions emptyDb = []" "trades emptyDb = []" "badDebt emptyDb = []" "bus emptyDb = []"
  "published emptyDb = []"
  by (simp_all add: emptyDb_def published_def)

section \<open>Properties\<close>


definition sampleOpen :: market_event where
  "sampleOpen = \<lparr>me_id = ''1'', me_contractId = ''M'', me_ledger = 10, me_ledgerCloseTs = 100, me_txHash = ''t1'',
     me_body = PositionOpened 7 ''GA'' ''BTC'' 0 500 20, me_rawXdr = None\<rparr>"

definition sampleTranche :: market_event where
  "sampleTranche = \<lparr>me_id = ''2'', me_contractId = ''M'', me_ledger = 11, me_ledgerCloseTs = 106, me_txHash = ''t2'',
     me_body = PositionPartialLiq 7 ''GA'' ''BTC'' 0 200 1 18, me_rawXdr = None\<rparr>"


text \<open>A delivery that reports success is final: its event is archived, and delivering it again at any later points,
  whatever else is delivered and whatever fails, leaves the same database.\<close>

theorem successful_delivery_final:
  assumes "snd (handleMarket x False e d) = Inr ()"
  shows "archived (deliver x e d) (me_id e)
     \<and> deliveries ((x, e) # filter (\<lambda>(y, f). me_id f \<noteq> me_id e) ds) d = deliveries ((x, e) # ds) d"
  using market.success [OF assms] market.delivered_once [OF assms, of ds] by simp

theorem successful_delivery_witness:
  "deliveries [(noFaults, sampleTranche)] emptyDb
   = deliveries [(noFaults, sampleTranche), (noFaults, sampleTranche)] emptyDb"
proof -
  have "snd (handleMarket noFaults False sampleTranche emptyDb) = Inr ()"
    by (simp add: handleMarket_def noFaults_def sampleTranche_def isCross_def Let_def)
  from successful_delivery_final [OF this, of "[(noFaults, sampleTranche)]"] show ?thesis by simp
qed



end
