(* ===== verification/IndexerPoll.thy ===== *)
theory IndexerPoll
  imports IndexerMarket JsString
begin

text \<open>
  The polling loop of the indexer: the RPC pool and the retention errors (\<open>indexer/src/rpc.ts\<close>), the cursor with its
  compare-and-swap write (\<open>cursor.ts\<close>) and one poll with dead letters, heartbeat and clamping to the retention window
  (\<open>poll.ts\<close>). Decoding and dispatch are arguments, as they are dependencies of the poller; the answers of RPC and
  database during one poll are its environment.
\<close>

section \<open>Definitions: retention errors\<close>

text \<open>What can be thrown: an \<open>Error\<close>, an object with or without a message, anything else.\<close>

datatype thrown = JsError string | JsObject "string option" | JsValue string

fun errorMessage :: "thrown \<Rightarrow> string" where
  "errorMessage (JsError m) = m"
| "errorMessage (JsObject (Some m)) = m"
| "errorMessage (JsObject None) = ''[object Object]''"
| "errorMessage (JsValue s) = s"

text \<open>
  \<open>/(startLedger|start ledger|cursor)[^.]*?(must be within|outside|before the oldest|ledger range)/i\<close>: one of the
  first phrases, and after it, before any full stop, one of the second.
\<close>

definition outsidePhrase :: "string \<Rightarrow> bool" where
  "outsidePhrase rest =
     (let seg = takeWhile (\<lambda>c. c \<noteq> CHR ''.'') rest
      in str_includes ''must be within'' seg \<or> str_includes ''outside'' seg
         \<or> str_includes ''before the oldest'' seg \<or> str_includes ''ledger range'' seg)"

fun rangePhrase :: "string \<Rightarrow> bool" where
  "rangePhrase [] = False"
| "rangePhrase (c # s) =
     (list_ex (\<lambda>w. starts_with w (c # s) \<and> outsidePhrase (drop (length w) (c # s))) [''startledger'', ''start ledger'', ''cursor'']
      \<or> rangePhrase s)"

definition is_blank :: "char \<Rightarrow> bool" where
  "is_blank c \<longleftrightarrow> char_code c = 32 \<or> (9 \<le> char_code c \<and> char_code c \<le> 13)"

text \<open>\<open>/(\d{2,})\s*(?:-|to|and)\s*(\d{2,})/\<close> at the start of a string, and its first match.\<close>

definition rangeAt :: "string \<Rightarrow> (nat \<times> nat) option" where
  "rangeAt s =
     (let d1 = takeWhile is_digit s; r1 = dropWhile is_blank (drop (length d1) s);
          r2 = (if starts_with ''-'' r1 then Some (drop 1 r1) else if starts_with ''to'' r1 then Some (drop 2 r1)
                else if starts_with ''and'' r1 then Some (drop 3 r1) else None)
      in if length d1 < 2 then None
         else case r2 of
           None \<Rightarrow> None
         | Some r \<Rightarrow>
             let d2 = takeWhile is_digit (dropWhile is_blank r)
             in if length d2 < 2 then None else Some (parse_nat d1, parse_nat d2))"

fun findRange :: "string \<Rightarrow> (nat \<times> nat) option" where
  "findRange [] = None"
| "findRange (c # s) = (case rangeAt (c # s) of Some r \<Rightarrow> Some r | None \<Rightarrow> findRange s)"

definition parseRetentionError :: "thrown \<Rightarrow> (nat option \<times> nat option) option" where
  "parseRetentionError err =
     (let message = errorMessage err; outOfRange = rangePhrase (map to_lower message)
        \<or> str_includes ''outside of retention window'' (map to_lower message)
      in if \<not> outOfRange then None
         else case findRange message of None \<Rightarrow> Some (None, None) | Some (x, y) \<Rightarrow> Some (Some x, Some y))"

section \<open>Definitions: fetching with failover\<close>

definition isTransientFetch :: "thrown \<Rightarrow> bool" where
  "isTransientFetch err =
     (let m = errorMessage err
      in str_includes ''TRY_AGAIN_LATER'' m \<or> str_includes ''ECONNRESET'' m \<or> str_includes ''ETIMEDOUT'' m
         \<or> str_includes ''fetch failed'' m)"

definition rotatePool :: "nat \<Rightarrow> nat \<Rightarrow> nat" where
  "rotatePool servers index = (index + 1) mod servers"

text \<open>The attempt loop: \<open>reply k i\<close> is the answer of server \<open>i\<close> to attempt \<open>k\<close>; the last argument is the pool's index.\<close>

function fetchEvents :: "nat \<Rightarrow> (nat \<Rightarrow> nat \<Rightarrow> thrown + 'r) \<Rightarrow> nat \<Rightarrow> nat \<Rightarrow> nat \<Rightarrow> nat \<times> (thrown + 'r)" where
  "fetchEvents servers reply retries attempt index =
     (case reply attempt index of
        Inr r \<Rightarrow> (index, Inr r)
      | Inl err \<Rightarrow>
          if parseRetentionError err \<noteq> None then (index, Inl err)
          else if \<not> isTransientFetch err \<or> attempt \<ge> retries then (index, Inl err)
          else fetchEvents servers reply retries (attempt + 1)
                 (if servers > 1 then rotatePool servers index else index))"
  by pat_completeness auto
termination by (relation "measure (\<lambda>(servers, reply, retries, attempt, index). retries - attempt)") auto

declare fetchEvents.simps [simp del]

section \<open>Definitions: the cursor\<close>

record poll_cursor =
  cu_lastLedger :: int
  cu_lastPagingToken :: "string option"
  cu_updatedAt :: int

text \<open>The compare-and-swap write: the new row and whether it landed.\<close>

definition writeCursor :: "poll_cursor \<Rightarrow> int option \<Rightarrow> poll_cursor option \<Rightarrow> poll_cursor option \<times> bool" where
  "writeCursor new expected row =
     (case expected of
        None \<Rightarrow> (case row of None \<Rightarrow> (Some new, True) | Some r \<Rightarrow> (row, False))
      | Some l \<Rightarrow>
          (case row of
             None \<Rightarrow> (row, False)
           | Some r \<Rightarrow> if cu_lastLedger r = l then (Some new, True) else (row, False)))"

section \<open>Definitions: the poller\<close>

datatype dead_stage = DecodeStage | ApplyStage

record dead_letter =
  dl_eventId :: string
  dl_contractId :: string
  dl_ledger :: int
  dl_stage :: dead_stage
  dl_error :: string

text \<open>The poller with the tables it writes; \<open>projections\<close> are those of the handlers.\<close>

record 'd poller =
  stopped :: bool
  fatal :: "string option"
  rpcIndex :: nat
  pl_lastLedger :: "int option"
  lastEventCloseTs :: "int option"
  cursorRow :: "poll_cursor option"
  gaps :: "(int \<times> int) list"
  deadLetters :: "dead_letter list"
  projections :: 'd

record 'e decoder =
  decodeFor :: "raw_event \<Rightarrow> string + 'e option"
  eventLedger :: "'e \<Rightarrow> int"
  eventCloseTs :: "'e \<Rightarrow> int"

record events_response =
  er_events :: "raw_event list"
  er_cursor :: "string option"

text \<open>
  What happens during one poll: the clock, whether the dead letter of an event cannot be written, what other writers
  make of the cursor row before it is written back, whether that write fails, and the RPC's answers (latest ledger for
  a cold start; the answer to an events request by its start, token, attempt and server; oldest ledger).
\<close>

record poll_env =
  clock :: int
  readFails :: bool
  deadLetterFails :: "string \<Rightarrow> bool"
  others :: "poll_cursor option \<Rightarrow> poll_cursor option"
  cursorFails :: bool
  latestLedger :: "thrown + int"
  servers :: nat
  rpcReply :: "int \<Rightarrow> string option \<Rightarrow> nat \<Rightarrow> nat \<Rightarrow> thrown + events_response"
  oldestLedger :: "int option"
  gapFails :: bool

definition deadLetter :: "poll_env \<Rightarrow> raw_event \<Rightarrow> dead_stage \<Rightarrow> string \<Rightarrow> 'd poller \<Rightarrow> 'd poller \<times> (thrown + unit)" where
  "deadLetter E raw stage err s =
     (if deadLetterFails E (re_id raw) then (s, Inl (JsError ''dead letter not written''))
      else (s\<lparr>deadLetters := deadLetters s @ [\<lparr>dl_eventId = re_id raw, dl_contractId = re_contractId raw,
        dl_ledger = re_ledger raw, dl_stage = stage, dl_error = err\<rparr>]\<rparr>, Inr ()))"

record batch =
  bt_processed :: nat
  bt_highestLedger :: int
  bt_highestCloseTs :: "int option"

text \<open>One event of a response (the number is its position), and the loop over the response.\<close>

definition processOne :: "'e decoder \<Rightarrow> (nat \<Rightarrow> 'e \<Rightarrow> 'd \<Rightarrow> 'd \<times> (string + unit)) \<Rightarrow> poll_env \<Rightarrow> nat \<Rightarrow> raw_event
    \<Rightarrow> 'd poller \<Rightarrow> batch \<Rightarrow> 'd poller \<times> (thrown + batch)" where
  "processOne D disp E n raw s b =
     (case decodeFor D raw of
        Inl err \<Rightarrow>
          (let (s', r) = deadLetter E raw DecodeStage err s
           in (s', map_sum id (\<lambda>_. b\<lparr>bt_highestLedger := max (bt_highestLedger b) (re_ledger raw)\<rparr>) r))
      | Inr None \<Rightarrow> (s, Inr b)
      | Inr (Some e) \<Rightarrow>
          (let (d', r) = disp n e (projections s); s' = s\<lparr>projections := d'\<rparr>
           in case r of
                Inl err \<Rightarrow>
                  (let (s'', r') = deadLetter E raw ApplyStage err s'
                   in (s'', Inl (case r' of Inl x \<Rightarrow> x | Inr _ \<Rightarrow> JsError err)))
              | Inr _ \<Rightarrow>
                  (s', Inr (b\<lparr>bt_processed := bt_processed b + 1,
                     bt_highestLedger := max (bt_highestLedger b) (eventLedger D e),
                     bt_highestCloseTs := Some (max (case bt_highestCloseTs b of None \<Rightarrow> 0 | Some t \<Rightarrow> t) (eventCloseTs D e))\<rparr>))))"

fun processEvents :: "'e decoder \<Rightarrow> (nat \<Rightarrow> 'e \<Rightarrow> 'd \<Rightarrow> 'd \<times> (string + unit)) \<Rightarrow> poll_env \<Rightarrow> nat \<Rightarrow> raw_event list
    \<Rightarrow> 'd poller \<Rightarrow> batch \<Rightarrow> 'd poller \<times> (thrown + batch)" where
  "processEvents D disp E n [] s b = (s, Inr b)"
| "processEvents D disp E n (raw # raws) s b =
     (let (s', r) = processOne D disp E n raw s b
      in case r of Inl x \<Rightarrow> (s', Inl x) | Inr b' \<Rightarrow> processEvents D disp E (n + 1) raws s' b')"

text \<open>The row read at the start of the poll may have been changed by another writer before the write.\<close>

definition commitCursor :: "poll_env \<Rightarrow> poll_cursor \<Rightarrow> int option \<Rightarrow> 'd poller \<Rightarrow> 'd poller \<times> (thrown + bool)" where
  "commitCursor E new expected s =
     (let row = others E (cursorRow s)
      in if cursorFails E then (s\<lparr>cursorRow := row\<rparr>, Inl (JsError ''cursor not written''))
         else let (row', ok) = writeCursor new expected row; s' = s\<lparr>cursorRow := row'\<rparr>
              in if ok then (s'\<lparr>pl_lastLedger := Some (cu_lastLedger new)\<rparr>, Inr True)
                 else (s'\<lparr>fatal := Some ''cursor_cas_miss'', stopped := True\<rparr>, Inr False))"

definition clampToRetention :: "poll_env \<Rightarrow> poll_cursor option \<Rightarrow> int \<Rightarrow> int option \<Rightarrow> 'd poller \<Rightarrow> 'd poller \<times> (thrown + unit)" where
  "clampToRetention E cursor startLedger parsedOldest s =
     (case (case parsedOldest of Some l \<Rightarrow> Some l | None \<Rightarrow> oldestLedger E) of
        None \<Rightarrow> (s, Inr ())
      | Some oldest \<Rightarrow>
          let from = (case cursor of Some c \<Rightarrow> cu_lastLedger c | None \<Rightarrow> startLedger); upTo = oldest - 1
          in if upTo \<ge> from \<and> gapFails E then (s, Inl (JsError ''gap not written''))
             else let s' = (if upTo \<ge> from then s\<lparr>gaps := gaps s @ [(from, upTo)]\<rparr> else s)
                  in case commitCursor E \<lparr>cu_lastLedger = oldest, cu_lastPagingToken = None, cu_updatedAt = clock E\<rparr>
                       (map_option cu_lastLedger cursor) s' of
                       (s'', Inl x) \<Rightarrow> (s'', Inl x)
                     | (s'', Inr ok) \<Rightarrow> (s'', Inr ()))"

definition HEARTBEAT_EVERY_MS :: int where "HEARTBEAT_EVERY_MS = 30000"

definition coldStartLedger :: "int \<Rightarrow> poll_env \<Rightarrow> thrown + int" where
  "coldStartLedger coldStartLedgers E = (case latestLedger E of Inl x \<Rightarrow> Inl x | Inr l \<Rightarrow> Inr (max 1 (l - coldStartLedgers)))"

text \<open>The cursor written after a batch, or on a quiet poll as a heartbeat.\<close>

definition nextCursor :: "poll_env \<Rightarrow> poll_cursor option \<Rightarrow> int \<Rightarrow> events_response \<Rightarrow> batch \<Rightarrow> poll_cursor option" where
  "nextCursor E cursor startLedger response b =
     (case cursor of
        None \<Rightarrow> Some \<lparr>cu_lastLedger = (if bt_highestLedger b = 0 then startLedger else bt_highestLedger b),
          cu_lastPagingToken = er_cursor response, cu_updatedAt = clock E\<rparr>
      | Some c \<Rightarrow>
          if er_events response \<noteq> []
          then Some \<lparr>cu_lastLedger = (if bt_highestLedger b = 0 then startLedger else bt_highestLedger b),
            cu_lastPagingToken = (case er_cursor response of Some t \<Rightarrow> Some t | None \<Rightarrow> cu_lastPagingToken c), cu_updatedAt = clock E\<rparr>
          else if clock E - cu_updatedAt c \<ge> HEARTBEAT_EVERY_MS
          then Some (c\<lparr>cu_updatedAt := clock E\<rparr>)
          else None)"

definition finishPoll :: "poll_env \<Rightarrow> poll_cursor option \<Rightarrow> int \<Rightarrow> events_response \<Rightarrow> 'd poller \<Rightarrow> batch \<Rightarrow> 'd poller \<times> (thrown + nat)" where
  "finishPoll E cursor startLedger response s b =
     (let seen = (\<lambda>s. if bt_highestCloseTs b = None then s else s\<lparr>lastEventCloseTs := bt_highestCloseTs b\<rparr>)
      in case nextCursor E cursor startLedger response b of
           None \<Rightarrow> (seen s, Inr (bt_processed b))
         | Some new \<Rightarrow>
             (case commitCursor E new (map_option cu_lastLedger cursor) s of
                (s', Inl x) \<Rightarrow> (s', Inl x)
              | (s', Inr ok) \<Rightarrow> (if ok then seen s' else s', Inr (bt_processed b))))"

definition fetchBatch :: "poll_env \<Rightarrow> poll_cursor option \<Rightarrow> int \<Rightarrow> 'd poller \<Rightarrow> 'd poller \<times> (thrown + events_response)" where
  "fetchBatch E cursor startLedger s =
     (let token = (case cursor of None \<Rightarrow> None | Some c \<Rightarrow> cu_lastPagingToken c);
          (index, r) = fetchEvents (servers E) (rpcReply E startLedger token) 3 0 (rpcIndex s)
      in (s\<lparr>rpcIndex := index\<rparr>, r))"

definition pollFrom :: "'e decoder \<Rightarrow> (nat \<Rightarrow> 'e \<Rightarrow> 'd \<Rightarrow> 'd \<times> (string + unit)) \<Rightarrow> poll_env \<Rightarrow> poll_cursor option \<Rightarrow> int
    \<Rightarrow> 'd poller \<Rightarrow> 'd poller \<times> (thrown + nat)" where
  "pollFrom D disp E cursor startLedger s =
     (case fetchBatch E cursor startLedger s of
        (s, Inl err) \<Rightarrow>
          (case parseRetentionError err of
             None \<Rightarrow> (s, Inl err)
           | Some (oldest, latest) \<Rightarrow>
               (case clampToRetention E cursor startLedger (map_option int oldest) s of
                  (s', Inl x) \<Rightarrow> (s', Inl x)
                | (s', Inr u) \<Rightarrow> (s', Inr 0)))
      | (s, Inr response) \<Rightarrow>
          (case processEvents D disp E 0 (er_events response) s
                 \<lparr>bt_processed = 0, bt_highestLedger = (case cursor of None \<Rightarrow> 0 | Some c \<Rightarrow> cu_lastLedger c), bt_highestCloseTs = None\<rparr> of
             (s', Inl x) \<Rightarrow> (s', Inl x)
           | (s', Inr b) \<Rightarrow> finishPoll E cursor startLedger response s' b))"

definition pollOnce :: "int \<Rightarrow> 'e decoder \<Rightarrow> (nat \<Rightarrow> 'e \<Rightarrow> 'd \<Rightarrow> 'd \<times> (string + unit)) \<Rightarrow> poll_env \<Rightarrow> 'd poller \<Rightarrow> 'd poller \<times> (thrown + nat)" where
  "pollOnce coldStartLedgers D disp E s =
     (if readFails E then (s, Inl (JsError ''cursor not read''))
      else case cursorRow s of
        Some c \<Rightarrow> pollFrom D disp E (Some c) (cu_lastLedger c) s
      | None \<Rightarrow>
          (case coldStartLedger coldStartLedgers E of
             Inl x \<Rightarrow> (s, Inl x)
           | Inr start \<Rightarrow> pollFrom D disp E None start s))"

text \<open>The loop: polls until the poller stops; what a poll throws is logged.\<close>

fun pollLoop :: "int \<Rightarrow> 'e decoder \<Rightarrow> (poll_env \<times> (nat \<Rightarrow> 'e \<Rightarrow> 'd \<Rightarrow> 'd \<times> (string + unit))) list \<Rightarrow> 'd poller \<Rightarrow> 'd poller" where
  "pollLoop cold D [] s = s"
| "pollLoop cold D ((E, disp) # turns) s =
     (if stopped s then s else pollLoop cold D turns (fst (pollOnce cold D disp E s)))"

section \<open>What a dispatcher promises the poller\<close>

text \<open>An event is settled once its handlers succeeded, and stays so.\<close>

locale recording_dispatch =
  fixes dispatcher :: "'x \<Rightarrow> 'e \<Rightarrow> 'd \<Rightarrow> 'd \<times> (string + unit)"
    and settled :: "'d \<Rightarrow> 'e \<Rightarrow> bool"
  assumes settled_kept: "settled d f \<Longrightarrow> settled (fst (dispatcher x e d)) f"
    and settled_success: "snd (dispatcher x e d) = Inr () \<Longrightarrow> settled (fst (dispatcher x e d)) e"

text \<open>What became of a raw event: its decoding failed and it is in the dead letters, it is of no interest, or it is settled.\<close>

definition deadLettered :: "dead_stage \<Rightarrow> raw_event \<Rightarrow> 'd poller \<Rightarrow> bool" where
  "deadLettered stage raw s \<longleftrightarrow> (\<exists>l \<in> set (deadLetters s). dl_eventId l = re_id raw \<and> dl_stage l = stage)"

definition accounted :: "'e decoder \<Rightarrow> ('d \<Rightarrow> 'e \<Rightarrow> bool) \<Rightarrow> 'd poller \<Rightarrow> raw_event \<Rightarrow> bool" where
  "accounted D settled s raw =
     (case decodeFor D raw of
        Inl err \<Rightarrow> deadLettered DecodeStage raw s
      | Inr None \<Rightarrow> True
      | Inr (Some e) \<Rightarrow> settled (projections s) e)"

lemma deadLetter_cases:
  "deadLetter E raw stage err s = (s', r) \<Longrightarrow>
     cursorRow s' = cursorRow s \<and> gaps s' = gaps s \<and> stopped s' = stopped s \<and> projections s' = projections s
     \<and> set (deadLetters s) \<subseteq> set (deadLetters s') \<and> (r = Inr () \<longrightarrow> deadLettered stage raw s')"
  by (auto simp: deadLetter_def deadLettered_def split: if_split_asm)

lemma processOne_frame:
  assumes "processOne D disp E n raw s b = (s', r)"
  shows "cursorRow s' = cursorRow s \<and> gaps s' = gaps s \<and> stopped s' = stopped s \<and> set (deadLetters s) \<subseteq> set (deadLetters s')
    \<and> (projections s' = projections s \<or> (\<exists>e. projections s' = fst (disp n e (projections s))))"
proof (cases "decodeFor D raw")
  case (Inl err)
  obtain t q where l: "deadLetter E raw DecodeStage err s = (t, q)" by fastforce
  then show ?thesis using deadLetter_cases [OF l] assms by (auto simp: processOne_def Inl)
next
  case (Inr o')
  show ?thesis
  proof (cases o')
    case (Some e)
    obtain d' q where q: "disp n e (projections s) = (d', q)" by fastforce
    let ?s = "s\<lparr>projections := d'\<rparr>"
    show ?thesis
    proof (cases q)
      case (Inl err)
      obtain t v where l: "deadLetter E raw ApplyStage err ?s = (t, v)" by fastforce
      then have "s' = t" using assms by (simp add: processOne_def Inr Some q Inl)
      then show ?thesis using deadLetter_cases [OF l] q by (auto intro: exI [of _ e])
    next
      case (Inr u)
      then have "s' = ?s" using assms by (simp add: processOne_def \<open>decodeFor D raw = Inr o'\<close> Some q)
      then show ?thesis using q by (auto intro: exI [of _ e])
    qed
  qed (use assms Inr in \<open>simp add: processOne_def\<close>)
qed

lemma process_frame:
  "processEvents D disp E n raws s b = (s', r) \<Longrightarrow>
     cursorRow s' = cursorRow s \<and> gaps s' = gaps s \<and> stopped s' = stopped s \<and> set (deadLetters s) \<subseteq> set (deadLetters s')"
proof (induction raws arbitrary: n s b)
  case (Cons raw raws)
  obtain t q where one: "processOne D disp E n raw s b = (t, q)" by fastforce
  note frame = processOne_frame [OF one]
  show ?case
  proof (cases q)
    case (Inr b')
    then have "processEvents D disp E (n + 1) raws t b' = (s', r)" using Cons.prems one by simp
    from Cons.IH [OF this] frame show ?thesis by auto
  qed (use Cons.prems one frame in simp)
qed simp

context recording_dispatch
begin

lemma processOne_accounts:
  assumes "processOne D (\<lambda>n. dispatcher (x n)) E n raw s b = (s', Inr b')"
  shows "accounted D settled s' raw"
proof (cases "decodeFor D raw")
  case (Inl err)
  obtain t q where l: "deadLetter E raw DecodeStage err s = (t, q)" by fastforce
  with assms Inl have "t = s'" "q = Inr ()" by (auto simp: processOne_def map_sum_def split: sum.split_asm)
  then show ?thesis using deadLetter_cases [OF l] by (simp add: accounted_def Inl)
next
  case (Inr o')
  show ?thesis
  proof (cases o')
    case (Some e)
    obtain d' q where q: "dispatcher (x n) e (projections s) = (d', q)" by fastforce
    with assms have "q = Inr ()" "projections s' = d'"
      by (auto simp: processOne_def Inr Some Let_def split: sum.split_asm prod.split_asm)
    then show ?thesis using settled_success [of "x n" e "projections s"] q by (simp add: accounted_def Inr Some)
  qed (simp add: accounted_def Inr)
qed

lemma processOne_keeps:
  assumes "processOne D (\<lambda>n. dispatcher (x n)) E n raw s b = (s', r)" "accounted D settled s raw'"
  shows "accounted D settled s' raw'"
proof -
  note frame = processOne_frame [OF assms(1)]
  have "settled (projections s') e" if "settled (projections s) e" for e
    using frame settled_kept [OF that] that by metis
  moreover have "deadLettered st raw' s \<Longrightarrow> deadLettered st raw' s'" for st
    using frame by (auto simp: deadLettered_def)
  ultimately show ?thesis using assms(2) by (auto simp: accounted_def split: sum.splits option.splits)
qed

lemma process_keeps:
  "processEvents D (\<lambda>n. dispatcher (x n)) E n raws s b = (s', r) \<Longrightarrow> accounted D settled s raw' \<Longrightarrow> accounted D settled s' raw'"
proof (induction raws arbitrary: n s b)
  case (Cons raw raws)
  obtain t q where one: "processOne D (\<lambda>n. dispatcher (x n)) E n raw s b = (t, q)" by fastforce
  have kept: "accounted D settled t raw'" by (rule processOne_keeps [OF one Cons.prems(2)])
  show ?case
  proof (cases q)
    case (Inr b')
    then have "processEvents D (\<lambda>n. dispatcher (x n)) E (n + 1) raws t b' = (s', r)" using Cons.prems(1) one by simp
    from Cons.IH [OF this kept] show ?thesis .
  qed (use Cons.prems(1) one kept in simp)
qed simp

lemma process_accounts:
  "processEvents D (\<lambda>n. dispatcher (x n)) E n raws s b = (s', Inr b') \<Longrightarrow> raw \<in> set raws \<Longrightarrow> accounted D settled s' raw"
proof (induction raws arbitrary: n s b)
  case (Cons r raws)
  obtain t q where one: "processOne D (\<lambda>n. dispatcher (x n)) E n r s b = (t, q)" by fastforce
  with Cons.prems(1) obtain b1 where q: "q = Inr b1" by (cases q) auto
  then have rest: "processEvents D (\<lambda>n. dispatcher (x n)) E (n + 1) raws t b1 = (s', Inr b')" using Cons.prems(1) one by simp
  show ?case
    using Cons.IH [OF rest] Cons.prems(2) process_keeps [OF rest processOne_accounts [OF one [unfolded q]]] by auto
qed simp

end

section \<open>The cursor\<close>

definition expectedMatches :: "int option \<Rightarrow> poll_cursor option \<Rightarrow> bool" where
  "expectedMatches expected row \<longleftrightarrow> map_option cu_lastLedger row = expected"

lemma writeCursor_cas:
  "writeCursor new expected row = (if expectedMatches expected row then (Some new, True) else (row, False))"
  by (auto simp: writeCursor_def expectedMatches_def split: option.split)

lemma commitCursor_cases:
  assumes "commitCursor E new expected s = (s', r)"
  shows "gaps s' = gaps s \<and> projections s' = projections s \<and> deadLetters s' = deadLetters s
     \<and> cursorRow s' = (if expectedMatches expected (others E (cursorRow s)) \<and> \<not> cursorFails E then Some new else others E (cursorRow s))
     \<and> (r = Inr True \<longleftrightarrow> expectedMatches expected (others E (cursorRow s)) \<and> \<not> cursorFails E)
     \<and> (r = Inr False \<longrightarrow> stopped s' \<and> fatal s' = Some ''cursor_cas_miss'')
     \<and> (\<not> expectedMatches expected (others E (cursorRow s)) \<and> \<not> cursorFails E \<longrightarrow> r = Inr False)"
  using assms by (auto simp: commitCursor_def writeCursor_cas Let_def split: if_split_asm)

lemma clamp_cases:
  assumes "clampToRetention E cursor startLedger parsed s = (s', r)"
  shows "cursorRow s' \<in> {cursorRow s, others E (cursorRow s)}
     \<or> (\<exists>c. cursorRow s' = Some c \<and>
          (let from = (case cursor of Some c \<Rightarrow> cu_lastLedger c | None \<Rightarrow> startLedger)
           in from < cu_lastLedger c \<longrightarrow> (from, cu_lastLedger c - 1) \<in> set (gaps s')))"
proof (cases "case parsed of Some l \<Rightarrow> Some l | None \<Rightarrow> oldestLedger E")
  case (Some oldest)
  let ?from = "case cursor of Some c \<Rightarrow> cu_lastLedger c | None \<Rightarrow> startLedger"
  let ?new = "\<lparr>cu_lastLedger = oldest, cu_lastPagingToken = None, cu_updatedAt = clock E\<rparr>"
  let ?s = "if oldest - 1 \<ge> ?from then s\<lparr>gaps := gaps s @ [(?from, oldest - 1)]\<rparr> else s"
  show ?thesis
  proof (cases "oldest - 1 \<ge> ?from \<and> gapFails E")
    case True
    then show ?thesis using assms Some by (simp add: clampToRetention_def Let_def)
  next
    case False
    obtain t q where c: "commitCursor E ?new (map_option cu_lastLedger cursor) ?s = (t, q)" by fastforce
    have "s' = t" using assms Some False c unfolding clampToRetention_def Some option.case Let_def if_not_P [OF False]
      by (auto split: sum.split_asm)
    then show ?thesis using commitCursor_cases [OF c] by (auto simp: Let_def split: if_split_asm)
  qed
qed (use assms in \<open>simp add: clampToRetention_def\<close>)

lemma fetchBatch_frame:
  "fetchBatch E cursor startLedger s = (s', r) \<Longrightarrow> cursorRow s' = cursorRow s \<and> gaps s' = gaps s \<and> deadLetters s' = deadLetters s
     \<and> projections s' = projections s"
  by (auto simp: fetchBatch_def Let_def split: prod.split_asm)

lemma finishPoll_cases:
  assumes "finishPoll E cursor startLedger response b' b = (s', r)"
  shows "deadLetters s' = deadLetters b' \<and> projections s' = projections b'
     \<and> (cursorRow s' \<in> {cursorRow b', others E (cursorRow b')}
        \<or> (\<exists>new. nextCursor E cursor startLedger response b = Some new \<and> cursorRow s' = Some new
             \<and> expectedMatches (map_option cu_lastLedger cursor) (others E (cursorRow b'))))"
proof (cases "nextCursor E cursor startLedger response b")
  case (Some new)
  obtain t q where c: "commitCursor E new (map_option cu_lastLedger cursor) b' = (t, q)" by fastforce
  have "cursorRow s' = cursorRow t \<and> deadLetters s' = deadLetters t \<and> projections s' = projections t"
    using assms c by (auto simp: finishPoll_def Some Let_def split: sum.split_asm if_split_asm)
  then show ?thesis using commitCursor_cases [OF c] Some by auto
qed (use assms in \<open>auto simp: finishPoll_def Let_def split: if_split_asm\<close>)

lemma accounted_cong:
  "deadLetters s = deadLetters t \<Longrightarrow> projections s = projections t \<Longrightarrow> accounted D settled s raw = accounted D settled t raw"
  by (simp add: accounted_def deadLettered_def split: sum.split option.split)

context recording_dispatch
begin

lemma pollFrom_moves:
  assumes "pollFrom D (\<lambda>n. dispatcher (x n)) E (cursorRow s) start s = (s', r)"
  shows "cursorRow s' \<in> {cursorRow s, others E (cursorRow s)}
     \<or> (\<exists>response. snd (fetchBatch E (cursorRow s) start s) = Inr response
          \<and> (\<forall>raw \<in> set (er_events response). accounted D settled s' raw))
     \<or> (\<exists>c. cursorRow s' = Some c \<and>
          (let from = (case cursorRow s of Some c \<Rightarrow> cu_lastLedger c | None \<Rightarrow> start)
           in from < cu_lastLedger c \<longrightarrow> (from, cu_lastLedger c - 1) \<in> set (gaps s')))"
proof -
  obtain t q where f: "fetchBatch E (cursorRow s) start s = (t, q)" by fastforce
  note same = fetchBatch_frame [OF f]
  show ?thesis
  proof (cases q)
    case (Inl err)
    show ?thesis
    proof (cases "parseRetentionError err")
      case (Some p)
      obtain oldest latest where p: "p = (oldest, latest)" by fastforce
      obtain u v where c: "clampToRetention E (cursorRow s) start (map_option int oldest) t = (u, v)" by fastforce
      have "s' = u" using assms by (auto simp: pollFrom_def f Inl Some p c split: sum.split_asm)
      then show ?thesis using clamp_cases [OF c] same by (auto simp: Let_def)
    qed (use assms same Inl in \<open>simp add: pollFrom_def f\<close>)
  next
    case (Inr response)
    let ?b = "\<lparr>bt_processed = 0, bt_highestLedger = (case cursorRow s of None \<Rightarrow> 0 | Some c \<Rightarrow> cu_lastLedger c), bt_highestCloseTs = None\<rparr>"
    obtain u v where p: "processEvents D (\<lambda>n. dispatcher (x n)) E 0 (er_events response) t ?b = (u, v)" by fastforce
    note frame = process_frame [OF p]
    show ?thesis
    proof (cases v)
      case (Inl e)
      then show ?thesis using assms same frame by (simp add: pollFrom_def f Inr p)
    next
      case v: (Inr b)
      then have fin: "finishPoll E (cursorRow s) start response u b = (s', r)" using assms by (simp add: pollFrom_def f Inr p)
      have "accounted D settled u raw" if "raw \<in> set (er_events response)" for raw
        using process_accounts [OF p [unfolded v] that] .
      then have "\<forall>raw \<in> set (er_events response). accounted D settled s' raw"
        using finishPoll_cases [OF fin] accounted_cong by metis
      then show ?thesis by (simp add: f Inr)
    qed
  qed
qed

end

section \<open>The market poller\<close>

definition decodeRaw :: "raw_event \<Rightarrow> string + market_event option" where
  "decodeRaw raw = map_sum id (map_option (\<lambda>e. if re_xdr raw = None then e else e\<lparr>me_rawXdr := re_xdr raw\<rparr>)) (decodeMarketEvent raw)"

definition marketDecoder :: "market_event decoder" where
  "marketDecoder = \<lparr>decodeFor = decodeRaw, eventLedger = me_ledger, eventCloseTs = me_ledgerCloseTs\<rparr>"

abbreviation marketDispatch :: "string \<Rightarrow> market_faults \<Rightarrow> market_event \<Rightarrow> index_db \<Rightarrow> index_db \<times> (string + unit)" where
  "marketDispatch m x \<equiv> dispatch (buildMarketRegistrations (handleMarket x False) m)"

lemma marketDispatch_eq: "marketDispatch m x e d = (if me_contractId e = m then handleMarket x False e d else (d, Inr ()))"
  by (auto simp: dispatch_market split: prod.split sum.split)

interpretation dispatched: recording_dispatch "marketDispatch m" "\<lambda>d e. me_contractId e = m \<longrightarrow> archived d (me_id e)" for m
proof
  fix d x and e f :: market_event
  assume "me_contractId f = m \<longrightarrow> archived d (me_id f)"
  then show "me_contractId f = m \<longrightarrow> archived (fst (marketDispatch m x e d)) (me_id f)"
    by (simp add: marketDispatch_eq market.kept)
next
  fix d x and e :: market_event
  assume "snd (marketDispatch m x e d) = Inr ()"
  then show "me_contractId e = m \<longrightarrow> archived (fst (marketDispatch m x e d)) (me_id e)"
    using market.success [of x e d] by (auto simp: marketDispatch_eq split: if_split_asm)
qed

lemma pollOnce_cases:
  assumes "pollOnce cold D disp E s = (s', r)"
  shows "s' = s \<or> (\<exists>start. pollFrom D disp E (cursorRow s) start s = (s', r)
     \<and> (\<forall>c. cursorRow s = Some c \<longrightarrow> start = cu_lastLedger c))"
  using assms by (auto simp: pollOnce_def split: if_split_asm option.split_asm sum.split_asm)

section \<open>Properties\<close>

text \<open>The cursor moves only past events that are accounted for: after any poll the cursor row is what it was or what
  other writers made of it, or every event of the fetched batch is dead-lettered for a decoding failure, of no
  interest, or archived when it is the market's, or the ledgers skipped by clamping are recorded as a gap.\<close>

theorem cursor_never_skips:
  assumes "pollOnce cold marketDecoder (\<lambda>n. marketDispatch m (x n)) E s = (s', r)"
  shows "cursorRow s' \<in> {cursorRow s, others E (cursorRow s)}
     \<or> (\<exists>start response. (\<forall>c. cursorRow s = Some c \<longrightarrow> start = cu_lastLedger c)
          \<and> snd (fetchBatch E (cursorRow s) start s) = Inr response
          \<and> (\<forall>raw \<in> set (er_events response). case decodeRaw raw of
                Inl err \<Rightarrow> deadLettered DecodeStage raw s'
              | Inr None \<Rightarrow> True
              | Inr (Some e) \<Rightarrow> me_contractId e = m \<longrightarrow> archived (projections s') (me_id e)))
     \<or> (\<exists>c start. cursorRow s' = Some c \<and> (\<forall>c. cursorRow s = Some c \<longrightarrow> start = cu_lastLedger c)
          \<and> (start < cu_lastLedger c \<longrightarrow> (start, cu_lastLedger c - 1) \<in> set (gaps s')))"
proof (cases "s' = s")
  case False
  with pollOnce_cases [OF assms] obtain start where p: "pollFrom marketDecoder (\<lambda>n. marketDispatch m (x n)) E (cursorRow s) start s = (s', r)"
    and start: "\<forall>c. cursorRow s = Some c \<longrightarrow> start = cu_lastLedger c" by blast
  have from': "(case cursorRow s of Some c \<Rightarrow> cu_lastLedger c | None \<Rightarrow> start) = start"
    using start by (simp split: option.split)
  have acc: "accounted marketDecoder (\<lambda>d e. me_contractId e = m \<longrightarrow> archived d (me_id e)) s' raw
      \<Longrightarrow> (case decodeRaw raw of
                Inl err \<Rightarrow> deadLettered DecodeStage raw s'
              | Inr None \<Rightarrow> True
              | Inr (Some e) \<Rightarrow> me_contractId e = m \<longrightarrow> archived (projections s') (me_id e))" for raw
    by (simp add: accounted_def marketDecoder_def)
  from dispatched.pollFrom_moves [OF p]
  consider "cursorRow s' \<in> {cursorRow s, others E (cursorRow s)}"
    | response where "snd (fetchBatch E (cursorRow s) start s) = Inr response"
        "\<forall>raw \<in> set (er_events response). accounted marketDecoder (\<lambda>d e. me_contractId e = m \<longrightarrow> archived d (me_id e)) s' raw"
    | c where "cursorRow s' = Some c" "start < cu_lastLedger c \<longrightarrow> (start, cu_lastLedger c - 1) \<in> set (gaps s')"
    unfolding Let_def from' by blast
  then show ?thesis
  proof cases
    case (2 response)
    then show ?thesis using acc start by (intro disjI2 disjI1 exI [of _ start] exI [of _ response]) simp
  next
    case (3 c)
    then show ?thesis using start by (intro disjI2 exI [of _ c] exI [of _ start]) simp
  qed simp
qed simp

definition samplePoller :: "index_db poller" where
  "samplePoller = \<lparr>stopped = False, fatal = None, rpcIndex = 0, pl_lastLedger = None, lastEventCloseTs = None,
     cursorRow = Some \<lparr>cu_lastLedger = 1000, cu_lastPagingToken = None, cu_updatedAt = 0\<rparr>, gaps = [], deadLetters = [],
     projections = emptyDb\<rparr>"

definition samplePollEnv :: "(thrown + events_response) \<Rightarrow> poll_env" where
  "samplePollEnv reply = \<lparr>clock = 5000, readFails = False, deadLetterFails = (\<lambda>_. False), others = (\<lambda>c. c), cursorFails = False,
     latestLedger = Inr 2000, servers = 1, rpcReply = (\<lambda>_ _ _ _. reply), oldestLedger = None, gapFails = False\<rparr>"

definition sampleBatch :: events_response where
  "sampleBatch = \<lparr>er_events = [sampleRaw\<lparr>re_ledger := 1001\<rparr>], er_cursor = Some ''t''\<rparr>"

abbreviation sampleDecoded :: market_event where
  "sampleDecoded \<equiv> envelope (sampleRaw\<lparr>re_ledger := 1001\<rparr>) (OrderCancelled 4 ''user'')"

lemma sampleBatch_events: "er_events sampleBatch = [sampleRaw\<lparr>re_ledger := 1001\<rparr>]" "er_cursor sampleBatch = Some ''t''"
  by (simp_all add: sampleBatch_def)

lemma sampleBatch_decoded: "decodeRaw (sampleRaw\<lparr>re_ledger := 1001\<rparr>) = Inr (Some sampleDecoded)"
  by (simp add: decodeRaw_def decodeMarketEvent_def sampleRaw_def decodeBody_def decodeOrderCancelled_def envelope_def)

lemma sampleFetch:
  "fetchBatch (samplePollEnv (Inr sampleBatch)) (cursorRow samplePoller) start samplePoller = (samplePoller, Inr sampleBatch)"
  by (simp add: fetchBatch_def samplePollEnv_def fetchEvents.simps samplePoller_def)

lemma sampleHandled:
  "marketDispatch ''CMARKET'' noFaults sampleDecoded emptyDb = (emitBus sampleDecoded (project sampleDecoded (insertEvent sampleDecoded emptyDb)), Inr ())"
  by (simp add: marketDispatch_eq handleMarket_def noFaults_def isCross_def envelope_def sampleRaw_def Let_def)

lemma samplePoll:
  "cursorRow (fst (pollOnce 100 marketDecoder (\<lambda>n. marketDispatch ''CMARKET'' noFaults) (samplePollEnv (Inr sampleBatch)) samplePoller))
     = Some \<lparr>cu_lastLedger = 1001, cu_lastPagingToken = Some ''t'', cu_updatedAt = 5000\<rparr>"
  "gaps (fst (pollOnce 100 marketDecoder (\<lambda>n. marketDispatch ''CMARKET'' noFaults) (samplePollEnv (Inr sampleBatch)) samplePoller)) = []"
proof -
  let ?E = "samplePollEnv (Inr sampleBatch)" and ?disp = "\<lambda>n. marketDispatch ''CMARKET'' noFaults"
  let ?b = "\<lparr>bt_processed = 0, bt_highestLedger = 1000, bt_highestCloseTs = None\<rparr>"
  have row: "cursorRow samplePoller = Some \<lparr>cu_lastLedger = 1000, cu_lastPagingToken = None, cu_updatedAt = 0\<rparr>"
    by (simp add: samplePoller_def)
  have led: "eventLedger marketDecoder sampleDecoded = 1001" by (simp add: marketDecoder_def envelope_def)
  have "projections samplePoller = emptyDb" by (simp add: samplePoller_def)
  then obtain t b where one: "processOne marketDecoder ?disp ?E 0 (sampleRaw\<lparr>re_ledger := 1001\<rparr>) samplePoller ?b = (t, Inr b)"
      "cursorRow t = cursorRow samplePoller" "gaps t = []" "bt_highestLedger b = 1001"
    using sampleHandled sampleBatch_decoded led
    by (simp add: processOne_def marketDecoder_def samplePoller_def del: marketDispatch_eq)
  have "processEvents marketDecoder ?disp ?E 0 (er_events sampleBatch) samplePoller ?b = (t, Inr b)"
    by (simp add: sampleBatch_events one(1))
  then have "pollOnce 100 marketDecoder ?disp ?E samplePoller = finishPoll ?E (cursorRow samplePoller) 1000 sampleBatch t b"
    using sampleFetch [of 1000] by (simp add: pollOnce_def pollFrom_def row) (simp add: samplePollEnv_def)
  then show "cursorRow (fst (pollOnce 100 marketDecoder ?disp ?E samplePoller))
     = Some \<lparr>cu_lastLedger = 1001, cu_lastPagingToken = Some ''t'', cu_updatedAt = 5000\<rparr>"
    "gaps (fst (pollOnce 100 marketDecoder ?disp ?E samplePoller)) = []"
    using one(2-4) by (simp_all add: finishPoll_def nextCursor_def row commitCursor_def writeCursor_def samplePollEnv_def sampleBatch_events)
qed

theorem cursor_never_skips_witness:
  "archived (projections (fst (pollOnce 100 marketDecoder (\<lambda>n. marketDispatch ''CMARKET'' noFaults)
      (samplePollEnv (Inr sampleBatch)) samplePoller))) ''7-0''"
proof -
  let ?E = "samplePollEnv (Inr sampleBatch)"
  obtain s' r where p: "pollOnce 100 marketDecoder (\<lambda>n. marketDispatch ''CMARKET'' noFaults) ?E samplePoller = (s', r)" by fastforce
  have moved: "cursorRow s' = Some \<lparr>cu_lastLedger = 1001, cu_lastPagingToken = Some ''t'', cu_updatedAt = 5000\<rparr>" "gaps s' = []"
    using samplePoll by (simp_all add: p)
  have same: "others ?E = (\<lambda>c. c)" "cursorRow samplePoller = Some \<lparr>cu_lastLedger = 1000, cu_lastPagingToken = None, cu_updatedAt = 0\<rparr>"
    by (simp_all add: samplePollEnv_def samplePoller_def)
  have ids: "me_contractId sampleDecoded = ''CMARKET''" "me_id sampleDecoded = ''7-0''" by (simp_all add: envelope_def sampleRaw_def)
  from cursor_never_skips [OF p] have "archived (projections s') (me_id sampleDecoded)"
    unfolding sampleFetch using moved ids(1) by (auto simp: same sampleBatch_events sampleBatch_decoded)
  then show ?thesis by (simp add: p ids)
qed

lemma pollFrom_others:
  assumes p: "pollFrom D disp E (Some c) start s = (s', r)" and row: "cursorRow s = Some c"
    and moved: "\<not> expectedMatches (Some (cu_lastLedger c)) (others E (Some c))"
  shows "cursorRow s' \<in> {Some c, others E (Some c)}
     \<and> (\<forall>response k. snd (fetchBatch E (Some c) start s) = Inr response \<and> er_events response \<noteq> [] \<and> r = Inr k
          \<longrightarrow> stopped s' \<and> fatal s' = Some ''cursor_cas_miss'')"
proof -
  obtain t q where f: "fetchBatch E (Some c) start s = (t, q)" by fastforce
  have same: "cursorRow t = Some c" using fetchBatch_frame [OF f] row by simp
  show ?thesis
  proof (cases q)
    case (Inl err)
    show ?thesis
    proof (cases "parseRetentionError err")
      case (Some pr)
      obtain oldest latest where pr: "pr = (oldest, latest)" by fastforce
      obtain u v where cl: "clampToRetention E (Some c) start (map_option int oldest) t = (u, v)" by fastforce
      have "s' = u" using p by (auto simp: pollFrom_def f Inl Some pr cl split: sum.split_asm)
      moreover have "cursorRow u \<in> {Some c, others E (Some c)}"
      proof (cases "case map_option int oldest of Some l \<Rightarrow> Some l | None \<Rightarrow> oldestLedger E")
        case (Some old)
        let ?new = "\<lparr>cu_lastLedger = old, cu_lastPagingToken = None, cu_updatedAt = clock E\<rparr>"
        let ?t = "if old - 1 \<ge> cu_lastLedger c then t\<lparr>gaps := gaps t @ [(cu_lastLedger c, old - 1)]\<rparr> else t"
        obtain w v' where c: "commitCursor E ?new (Some (cu_lastLedger c)) ?t = (w, v')" by fastforce
        have "cursorRow w = others E (Some c)" using commitCursor_cases [OF c] moved same by (simp split: if_split_asm)
        then show ?thesis
          using cl same c unfolding clampToRetention_def Some option.case Let_def
          by (auto split: if_split_asm sum.split_asm)
      qed (use cl same in \<open>simp add: clampToRetention_def\<close>)
      ultimately show ?thesis by (simp add: f Inl)
    qed (use p same Inl in \<open>simp add: pollFrom_def f\<close>)
  next
    case (Inr response)
    let ?b = "\<lparr>bt_processed = 0, bt_highestLedger = cu_lastLedger c, bt_highestCloseTs = None\<rparr>"
    obtain u v where pe: "processEvents D disp E 0 (er_events response) t ?b = (u, v)" by fastforce
    have u: "cursorRow u = Some c" using process_frame [OF pe] same by simp
    show ?thesis
    proof (cases v)
      case (Inl e)
      then show ?thesis using p u by (auto simp: pollFrom_def f Inr pe)
    next
      case v: (Inr b)
      then have fin: "finishPoll E (Some c) start response u b = (s', r)" using p by (simp add: pollFrom_def f Inr pe)
      show ?thesis
      proof (cases "nextCursor E (Some c) start response b")
        case None
        then show ?thesis using fin u by (auto simp: finishPoll_def f Inr Let_def nextCursor_def split: if_split_asm)
      next
        case (Some new)
        obtain w q where c: "commitCursor E new (Some (cu_lastLedger c)) u = (w, q)" by fastforce
        have "cursorRow w = others E (Some c)" "q \<noteq> Inr True" "q = Inr False \<longrightarrow> stopped w \<and> fatal w = Some ''cursor_cas_miss''"
          using commitCursor_cases [OF c] moved u by simp_all
        then show ?thesis
          using fin c by (auto simp: finishPoll_def Some Let_def f Inr split: sum.split_asm if_split_asm)
      qed
    qed
  qed
qed

text \<open>Two pollers on one database: a poll never overwrites a cursor whose ledger another writer moved meanwhile, and
  once it has handled a batch it finds out and stops for good, so that no later turn of its loop changes anything.\<close>

theorem moved_cursor_survives:
  assumes "pollOnce cold D disp E s = (s', r)" "cursorRow s = Some c"
    and "others E (Some c) = Some c'" "cu_lastLedger c' \<noteq> cu_lastLedger c"
  shows "cursorRow s' \<in> {Some c, Some c'}
     \<and> (\<forall>response k. snd (fetchBatch E (Some c) (cu_lastLedger c) s) = Inr response \<and> er_events response \<noteq> [] \<and> r = Inr k
          \<and> \<not> readFails E \<longrightarrow> fatal s' = Some ''cursor_cas_miss'' \<and> pollLoop cold D turns s' = s')"
proof (cases "readFails E")
  case False
  then have p: "pollFrom D disp E (Some c) (cu_lastLedger c) s = (s', r)"
    using assms(1,2) by (simp add: pollOnce_def)
  have "pollLoop cold D turns s' = s'" if "stopped s'" using that by (cases turns) auto
  then show ?thesis
    using pollFrom_others [OF p assms(2)] assms(3,4) by (auto simp: expectedMatches_def)
qed (use assms in \<open>simp add: pollOnce_def\<close>)

definition sampleRival :: poll_env where
  "sampleRival = (samplePollEnv (Inr sampleBatch))
     \<lparr>others := (\<lambda>_. Some \<lparr>cu_lastLedger = 1003, cu_lastPagingToken = None, cu_updatedAt = 1\<rparr>)\<rparr>"

theorem moved_cursor_witness:
  "cursorRow (fst (pollOnce 100 marketDecoder (\<lambda>n. marketDispatch ''CMARKET'' noFaults) sampleRival samplePoller))
     \<noteq> Some \<lparr>cu_lastLedger = 1001, cu_lastPagingToken = Some ''t'', cu_updatedAt = 5000\<rparr>"
proof -
  let ?c' = "\<lparr>cu_lastLedger = 1003, cu_lastPagingToken = None, cu_updatedAt = 1\<rparr>" and ?c = "\<lparr>cu_lastLedger = 1000, cu_lastPagingToken = None, cu_updatedAt = 0\<rparr>"
  obtain s' r where p: "pollOnce 100 marketDecoder (\<lambda>n. marketDispatch ''CMARKET'' noFaults) sampleRival samplePoller = (s', r)" by fastforce
  have "cursorRow samplePoller = Some ?c" "others sampleRival (Some ?c) = Some ?c'" "cu_lastLedger ?c' \<noteq> cu_lastLedger ?c"
    by (simp_all add: samplePoller_def sampleRival_def)
  from moved_cursor_survives [OF p this] have "cursorRow s' \<in> {Some ?c, Some ?c'}" by blast
  then show ?thesis by (auto simp: p)
qed

text \<open>The compare-and-swap sees only the ledger: of two pollers that read the same cursor and whose batches end in
  the ledger they started from, both writes land, the second replacing the first one's resume token.\<close>

theorem same_ledger_both_write:
  "\<exists>c mine yours. cu_lastPagingToken mine \<noteq> cu_lastPagingToken yours
     \<and> writeCursor mine (Some (cu_lastLedger c)) (Some c) = (Some mine, True)
     \<and> writeCursor yours (Some (cu_lastLedger c)) (Some mine) = (Some yours, True)"
proof (intro exI conjI)
  let ?c = "\<lambda>t. \<lparr>cu_lastLedger = 10, cu_lastPagingToken = Some t, cu_updatedAt = 0\<rparr>"
  show "cu_lastPagingToken (?c ''b'') \<noteq> cu_lastPagingToken (?c ''a'')" by simp
  show "writeCursor (?c ''b'') (Some (cu_lastLedger (?c ''0''))) (Some (?c ''0'')) = (Some (?c ''b''), True)"
    "writeCursor (?c ''a'') (Some (cu_lastLedger (?c ''0''))) (Some (?c ''b'')) = (Some (?c ''a''), True)"
    by (simp_all add: writeCursor_def)
qed

text \<open>The message of an RPC that has not caught up with the cursor.\<close>

definition laggingError :: thrown where
  "laggingError = JsObject (Some ''startLedger must be within the ledger range: 200 - 900'')"

lemma lagging_parsed: "parseRetentionError laggingError = Some (Some 200, Some 900)"
  by code_simp

text \<open>A lagging RPC rewinds the indexer: when the endpoint asked has not reached the cursor yet, its range error is
  taken for a lost retention window, and the cursor goes back to the oldest ledger the endpoint keeps, without a gap.\<close>

theorem lagging_rpc_rewinds:
  "cursorRow (fst (pollOnce cold D disp (samplePollEnv (Inl laggingError)) samplePoller))
     = Some \<lparr>cu_lastLedger = 200, cu_lastPagingToken = None, cu_updatedAt = 5000\<rparr>
   \<and> gaps (fst (pollOnce cold D disp (samplePollEnv (Inl laggingError)) samplePoller)) = []"
proof -
  have "fetchBatch (samplePollEnv (Inl laggingError)) (cursorRow samplePoller) start samplePoller = (samplePoller, Inl laggingError)" for start
    by (simp add: fetchBatch_def samplePollEnv_def fetchEvents.simps samplePoller_def lagging_parsed)
  then show ?thesis
    by (simp add: pollOnce_def pollFrom_def samplePoller_def lagging_parsed)
      (simp add: samplePollEnv_def clampToRetention_def commitCursor_def writeCursor_def)
qed

text \<open>Fetching gives up after four attempts at most: attempt \<open>k\<close> asks the \<open>k\<close>-th next endpoint of the pool, only
  a transient error is tried again, and a retention error is thrown at once, before any rotation.\<close>

theorem fetch_fails_over:
  assumes "fetchEvents nodes reply 3 0 index = (index', Inl err)" "1 < nodes" "index < nodes"
  shows "\<exists>k \<le> 3. index' = (index + k) mod nodes \<and> reply k index' = Inl err
     \<and> (\<forall>j < k. \<exists>e. reply j ((index + j) mod nodes) = Inl e \<and> isTransientFetch e \<and> parseRetentionError e = None)
     \<and> (k = 3 \<or> parseRetentionError err \<noteq> None \<or> \<not> isTransientFetch err)"
proof -
  have gen: "\<exists>k. a + k \<le> max a 3 \<and> index' = (i + k) mod nodes \<and> reply (a + k) index' = Inl err
     \<and> (\<forall>j < k. \<exists>e. reply (a + j) ((i + j) mod nodes) = Inl e \<and> isTransientFetch e \<and> parseRetentionError e = None)
     \<and> (a + k \<ge> 3 \<or> parseRetentionError err \<noteq> None \<or> \<not> isTransientFetch err)"
    if "fetchEvents nodes reply 3 a i = (index', Inl err)" "i < nodes" for a i
    using that
  proof (induction "3 - a" arbitrary: a i rule: less_induct)
    case less
    from less.prems obtain e where e: "reply a i = Inl e"
      by (auto simp: fetchEvents.simps [of _ _ _ a] split: sum.split_asm)
    show ?case
    proof (cases "parseRetentionError e \<noteq> None \<or> \<not> isTransientFetch e \<or> a \<ge> 3")
      case True
      then have "index' = i \<and> err = e" using less.prems e by (auto simp: fetchEvents.simps [of _ _ _ a] split: if_split_asm)
      with True e less.prems(2) show ?thesis by (intro exI [of _ 0]) auto
    next
      case False
      let ?i = "(i + 1) mod nodes"
      have "fetchEvents nodes reply 3 (a + 1) ?i = (index', Inl err)"
        using less.prems e False assms(2) by (simp add: fetchEvents.simps [of _ _ _ a] rotatePool_def)
      moreover have "?i < nodes" using less.prems(2) by simp
      moreover have "3 - (a + 1) < 3 - a" using False by arith
      ultimately obtain k where k: "a + 1 + k \<le> max (a + 1) 3" "index' = (?i + k) mod nodes" "reply (a + 1 + k) index' = Inl err"
          "\<forall>j < k. \<exists>e. reply (a + 1 + j) ((?i + j) mod nodes) = Inl e \<and> isTransientFetch e \<and> parseRetentionError e = None"
          "a + 1 + k \<ge> 3 \<or> parseRetentionError err \<noteq> None \<or> \<not> isTransientFetch err"
        using less.hyps by blast
      have "\<exists>f. reply (a + j) ((i + j) mod nodes) = Inl f \<and> isTransientFetch f \<and> parseRetentionError f = None" if "j < Suc k" for j
      proof (cases j)
        case 0
        have "parseRetentionError e = None" "isTransientFetch e" using False by (simp_all del: not_None_eq)
        then show ?thesis using 0 e less.prems(2) by simp
      next
        case (Suc l)
        then show ?thesis using k(4) [rule_format, of l] that by (simp add: mod_simps)
      qed
      moreover have "index' = (i + Suc k) mod nodes" using k(2) by (simp add: mod_simps)
      ultimately show ?thesis using k(1,3,5) False by (intro exI [of _ "Suc k"]) simp
    qed
  qed
  from gen [OF assms(1,3)] show ?thesis by auto
qed

theorem fetch_fails_over_witness:
  "\<exists>k \<le> 3. snd (fetchEvents 2 (\<lambda>k i. Inl laggingError :: thrown + nat) 3 0 1) = Inl laggingError \<and> (1 + k) mod 2 = (1::nat)"
proof -
  have "fetchEvents 2 (\<lambda>k i. Inl laggingError :: thrown + nat) 3 0 1 = (1, Inl laggingError)"
    by (simp add: fetchEvents.simps lagging_parsed)
  from fetch_fails_over [OF this] show ?thesis using \<open>fetchEvents 2 _ 3 0 1 = _\<close> by auto
qed

end
