(* ===== verification/IndexerTx.thy ===== *)
theory IndexerTx
  imports IndexerMarket
begin

text \<open>
  The transaction that the vault, referral and LP handlers of the indexer share (\<open>makeHandler\<close> in
  \<open>indexer/src/handlers/vault.ts\<close>, \<open>referral.ts\<close> and \<open>lpVault.ts\<close>): archive the event, skip a duplicate, apply the
  projections, commit; on a failure roll back and keep the archive row; then the work after the commit and the bus.
  Each handler gives its projections (\<open>apply\<close>, which may throw) and its work after the commit (\<open>after\<close>).
\<close>

section \<open>Definitions\<close>

text \<open>What the database does during one call, as in \<open>market_faults\<close>, and the clock.\<close>

record tx_faults =
  hx_beginFails :: bool
  hx_failsAt :: "nat option"
  hx_commitLost :: bool
  hx_archiveFails :: bool
  hx_now :: int

text \<open>The archive rows of one contract, its projection tables, and its events on the bus.\<close>

record ('e, 'v) store =
  st_raw :: "'e list"
  st_tables :: 'v
  st_bus :: "'e list"

definition archivedIn :: "('e \<Rightarrow> string) \<Rightarrow> ('e, 'v) store \<Rightarrow> string \<Rightarrow> bool" where
  "archivedIn ident s i = (i \<in> ident ` set (st_raw s))"

definition persistRaw :: "('e \<Rightarrow> string) \<Rightarrow> 'e \<Rightarrow> ('e, 'v) store \<Rightarrow> ('e, 'v) store" where
  "persistRaw ident e s = (if archivedIn ident s (ident e) then s else s\<lparr>st_raw := st_raw s @ [e]\<rparr>)"

definition rolledBack :: "('e \<Rightarrow> string) \<Rightarrow> 'x tx_faults_scheme \<Rightarrow> string \<Rightarrow> 'e \<Rightarrow> ('e, 'v) store \<Rightarrow> ('e, 'v) store \<times> (string + unit)" where
  "rolledBack ident x err e s = (if hx_archiveFails x then s else persistRaw ident e s, Inl err)"

definition transactional ::
    "('e \<Rightarrow> string) \<Rightarrow> ('x tx_faults_scheme \<Rightarrow> 'e \<Rightarrow> 'v \<Rightarrow> string + 'v) \<Rightarrow> ('x tx_faults_scheme \<Rightarrow> 'e \<Rightarrow> 'v \<Rightarrow> 'v)
     \<Rightarrow> 'x tx_faults_scheme \<Rightarrow> bool \<Rightarrow> 'e \<Rightarrow> ('e, 'v) store \<Rightarrow> ('e, 'v) store \<times> (string + unit)" where
  "transactional ident app after x replay e s =
     (if hx_beginFails x then (s, Inl ''begin failed'')
      else if hx_failsAt x = Some 0 then rolledBack ident x ''archive failed'' e s
      else if archivedIn ident s (ident e) \<and> \<not> replay then (s, Inr ())
      else case app x e (st_tables s) of
        Inl err \<Rightarrow> rolledBack ident x err e s
      | Inr t \<Rightarrow>
          if hx_failsAt x \<noteq> None then rolledBack ident x ''statement failed'' e s
          else let s' = (persistRaw ident e s)\<lparr>st_tables := t\<rparr>
               in if hx_commitLost x then rolledBack ident x ''commit lost'' e s'
                  else (s'\<lparr>st_tables := after x e t, st_bus := (if replay then st_bus s' else st_bus s' @ [e])\<rparr>, Inr ()))"

text \<open>
  The abstract machine: each event that gets through is applied once, with what the environment did then. A delivery
  whose transaction never opens leaves no trace; one that fails is archived by the error path unless that fails too.
\<close>

primrec effective :: "('e \<Rightarrow> string) \<Rightarrow> ('x tx_faults_scheme \<Rightarrow> 'e \<Rightarrow> bool) \<Rightarrow> (string \<Rightarrow> bool)
    \<Rightarrow> ('x tx_faults_scheme \<times> 'e) list \<Rightarrow> ('x tx_faults_scheme \<times> 'e) list" where
  "effective ident rejects seen [] = []"
| "effective ident rejects seen (p # ds) =
     (let x = fst p; e = snd p in
      if hx_beginFails x \<or> seen (ident e) then effective ident rejects seen ds
      else if hx_failsAt x = None \<and> \<not> rejects x e then p # effective ident rejects (seen(ident e := True)) ds
      else effective ident rejects (if hx_archiveFails x then seen else seen(ident e := True)) ds)"

text \<open>What an applied event does to the tables; the work after the commit is lost with the acknowledgement.\<close>

definition effect :: "('x tx_faults_scheme \<Rightarrow> 'e \<Rightarrow> 'v \<Rightarrow> string + 'v) \<Rightarrow> ('x tx_faults_scheme \<Rightarrow> 'e \<Rightarrow> 'v \<Rightarrow> 'v)
    \<Rightarrow> 'x tx_faults_scheme \<times> 'e \<Rightarrow> 'v \<Rightarrow> 'v" where
  "effect app after p t =
     (case app (fst p) (snd p) t of Inl err \<Rightarrow> t | Inr u \<Rightarrow> if hx_commitLost (fst p) then u else after (fst p) (snd p) u)"

section \<open>Lemmas\<close>

lemma map_of_update_row: "map_of (update_row k f m) i = (if i = k then map_option f (map_of m i) else map_of m i)"
  by (simp add: update_row_def split: option.split)

lemma keys_update_row [simp]: "map fst (update_row k f m) = map fst m"
  by (auto simp: update_row_def jset_def update_keys map_of_eq_None_iff split: option.split dest: map_of_SomeD intro: rev_image_eqI)

lemma archivedIn_persistRaw [simp]:
  "archivedIn ident (persistRaw ident e s) i \<longleftrightarrow> i = ident e \<or> archivedIn ident s i"
  by (auto simp: persistRaw_def archivedIn_def)

lemma archivedIn_update [simp]:
  "archivedIn ident (s\<lparr>st_tables := t\<rparr>) = archivedIn ident s" "archivedIn ident (s\<lparr>st_bus := b\<rparr>) = archivedIn ident s"
  by (simp_all add: archivedIn_def fun_eq_iff)

lemma archivedIn_empty [simp]: "archivedIn ident \<lparr>st_raw = [], st_tables = t, st_bus = b\<rparr> = (\<lambda>_. False)"
  by (simp add: archivedIn_def fun_eq_iff)

lemma persistRaw_fields [simp]:
  "st_tables (persistRaw ident e s) = st_tables s" "st_bus (persistRaw ident e s) = st_bus s"
  by (simp_all add: persistRaw_def)

lemma persistRaw_known: "archivedIn ident s (ident e) \<Longrightarrow> persistRaw ident e s = s"
  by (simp add: persistRaw_def)

lemma archivedIn_rolledBack [simp]:
  "archivedIn ident (fst (rolledBack ident x err e s)) i \<longleftrightarrow> archivedIn ident s i \<or> \<not> hx_archiveFails x \<and> i = ident e"
  by (auto simp: rolledBack_def)

lemma rolledBack_fields [simp]:
  "st_tables (fst (rolledBack ident x err e s)) = st_tables s" "st_bus (fst (rolledBack ident x err e s)) = st_bus s"
  "snd (rolledBack ident x err e s) = Inl err"
  by (simp_all add: rolledBack_def)

lemma rolledBack_known: "archivedIn ident s (ident e) \<Longrightarrow> fst (rolledBack ident x err e s) = s"
  by (simp add: rolledBack_def persistRaw_known)

lemma transactional_kept: "archivedIn ident s i \<Longrightarrow> archivedIn ident (fst (transactional ident app after x False e s)) i"
  by (auto simp: transactional_def Let_def split: sum.split)

lemma transactional_skipped: "archivedIn ident s (ident e) \<Longrightarrow> fst (transactional ident app after x False e s) = s"
  by (simp add: transactional_def rolledBack_known)

lemma transactional_success:
  "snd (transactional ident app after x False e s) = Inr () \<Longrightarrow> archivedIn ident (fst (transactional ident app after x False e s)) (ident e)"
  by (auto simp: transactional_def Let_def split: if_split_asm sum.split_asm)

interpretation tx: idempotent_handler "\<lambda>x. transactional ident app after x False" ident "archivedIn ident" for ident app after
  by unfold_locales (rule transactional_kept transactional_skipped transactional_success; assumption)+

lemma effective_new: "p \<in> set (effective ident rejects seen ds) \<Longrightarrow> \<not> seen (ident (snd p))"
proof (induction ds arbitrary: seen)
  case (Cons q ds)
  then consider "p = q" "\<not> seen (ident (snd q))"
    | s' where "p \<in> set (effective ident rejects s' ds)" "s' = seen \<or> s' = seen(ident (snd q) := True)"
    by (auto simp: Let_def split: if_split_asm)
  then show ?case
  proof cases
    case (2 s')
    then show ?thesis using Cons.IH [OF 2(1)] by (auto split: if_split_asm)
  qed simp
qed simp

lemma effective_distinct: "distinct (map (\<lambda>p. ident (snd p)) (effective ident rejects seen ds))"
  by (induction ds arbitrary: seen) (auto simp: Let_def dest: effective_new)

lemma effective_subseq: "subseq (effective ident rejects seen ds) ds"
  by (induction ds arbitrary: seen) (auto simp: Let_def)

lemma effective_accepted: "p \<in> set (effective ident rejects seen ds) \<Longrightarrow> \<not> rejects (fst p) (snd p)"
  by (induction ds arbitrary: seen) (auto simp: Let_def split: if_split_asm)

text \<open>One delivery against one step of the machine.\<close>

definition admitted :: "('e \<Rightarrow> string) \<Rightarrow> ('x tx_faults_scheme \<Rightarrow> 'e \<Rightarrow> bool) \<Rightarrow> 'x tx_faults_scheme \<Rightarrow> 'e \<Rightarrow> ('e, 'v) store \<Rightarrow> bool" where
  "admitted ident rejects x e s \<longleftrightarrow> \<not> hx_beginFails x \<and> \<not> archivedIn ident s (ident e) \<and> hx_failsAt x = None \<and> \<not> rejects x e"

lemma delivery_step:
  assumes "\<And>x e t. (\<exists>err. app x e t = Inl err) \<longleftrightarrow> rejects x e" "s' = fst (transactional ident app after x False e s)"
  shows "admitted ident rejects x e s \<Longrightarrow> st_tables s' = effect app after (x, e) (st_tables s) \<and> st_bus s' \<in> {st_bus s, st_bus s @ [e]}"
    and "\<not> admitted ident rejects x e s \<Longrightarrow> st_tables s' = st_tables s \<and> st_bus s' = st_bus s"
    and "archivedIn ident s' = (if hx_beginFails x \<or> archivedIn ident s (ident e) then archivedIn ident s
       else if hx_archiveFails x \<and> (hx_failsAt x \<noteq> None \<or> rejects x e) then archivedIn ident s
       else (archivedIn ident s)(ident e := True))"
proof -
  show "admitted ident rejects x e s \<Longrightarrow> st_tables s' = effect app after (x, e) (st_tables s) \<and> st_bus s' \<in> {st_bus s, st_bus s @ [e]}"
    using assms(1) [of x e "st_tables s"]
    by (cases "app x e (st_tables s)") (auto simp: assms(2) admitted_def transactional_def effect_def Let_def)
  show "\<not> admitted ident rejects x e s \<Longrightarrow> st_tables s' = st_tables s \<and> st_bus s' = st_bus s"
    using assms(1) [of x e "st_tables s"]
    by (cases "app x e (st_tables s)") (auto simp: assms(2) admitted_def transactional_def)
  show "archivedIn ident s' = (if hx_beginFails x \<or> archivedIn ident s (ident e) then archivedIn ident s
       else if hx_archiveFails x \<and> (hx_failsAt x \<noteq> None \<or> rejects x e) then archivedIn ident s
       else (archivedIn ident s)(ident e := True))"
    using assms(1) [of x e "st_tables s"]
    by (cases "app x e (st_tables s)")
      (auto simp: assms(2) transactional_def Let_def rolledBack_known fun_eq_iff)
qed

text \<open>Over any deliveries the tables are those of the abstract machine.\<close>

lemma deliveries_effective:
  assumes "\<And>x e t. (\<exists>err. app x e t = Inl err) \<longleftrightarrow> rejects x e"
  shows "st_tables (runDeliveries (\<lambda>x. transactional ident app after x False) ds s)
       = fold (effect app after) (effective ident rejects (archivedIn ident s) ds) (st_tables s)
     \<and> (\<exists>es. st_bus (runDeliveries (\<lambda>x. transactional ident app after x False) ds s) = st_bus s @ es
          \<and> subseq es (map snd (effective ident rejects (archivedIn ident s) ds)))"
proof (induction ds arbitrary: s)
  case (Cons p ds)
  obtain x e where p: "p = (x, e)" by fastforce
  let ?s = "fst (transactional ident app after x False e s)"
  note step = delivery_step [where app = app and rejects = rejects and x = x and e = e and s = s and ident = ident and after = after, OF assms refl]
  have log: "effective ident rejects (archivedIn ident s) (p # ds)
      = (if admitted ident rejects x e s then p # effective ident rejects (archivedIn ident ?s) ds
         else effective ident rejects (archivedIn ident ?s) ds)"
    using step(3) by (auto simp: p admitted_def Let_def)
  show ?case
  proof (cases "admitted ident rejects x e s")
    case True
    then show ?thesis using step(1) Cons.IH [of ?s] unfolding log by (auto simp: p)
  next
    case False
    then show ?thesis using step(2) Cons.IH [of ?s] unfolding log by (auto simp: p)
  qed
qed simp

end
