(* ===== verification/IndexerVault.thy ===== *)
theory IndexerVault
  imports IndexerTx Deployment
begin

text \<open>
  The vault factory in the indexer: the decoder (\<open>indexer/src/decoders/vault.ts\<close>), the projections of its events
  (\<open>handlers/vault.ts\<close>), the resync from the chain, the reconcile at start-up and the pruning of a retired factory's rows
  (\<open>vaultSync.ts\<close>). Amounts are NUMERIC or decimal text in the database, here integers; what \<open>view_vault\<close> answers is
  an argument.
\<close>

section \<open>Definitions: events\<close>

datatype vault_body =
    VaultCreated (vb_leader: string) (vb_name: string)
  | VaultDeposit (vb_depositor: string) (vb_amount: int) (vb_shares: int)
  | VaultWithdraw (vb_depositor: string) (vb_shares: int) (vb_usdcOut: int)
  | VaultFeesClaimed (vb_leader: string) (vb_owed: int) (vb_newNav: int)
  | VaultPausedEv (vb_byAdmin: bool) (vb_paused: bool)
  | VaultLeaderOpen (vb_leader: string) (vb_positionId: int) (vb_collateral: int)
  | VaultLeaderClose (vb_leader: string) (vb_positionId: int)
  | VaultLeaderOrder (vb_topic: string) (vb_leader: string) (vb_orderId: int)
  | VaultLeaderProtective (vb_topic: string) (vb_leader: string) (vb_orderId: int) (vb_positionId: int)
  | VaultOrderReconciled (vb_orderId: int) (vb_positionId: int) (vb_credited: int)
  | VaultPositionReconciled (vb_positionId: int) (vb_proceeds: int)

record vault_event =
  vx_id :: string
  vx_contractId :: string
  vx_vaultId :: int
  vx_ledger :: int
  vx_ledgerCloseTs :: int
  vx_txHash :: string
  vx_body :: vault_body
  vx_rawXdr :: "(string list \<times> string) option"

definition vaultTopicOf :: "vault_body \<Rightarrow> string" where
  "vaultTopicOf b = (case b of
      VaultCreated _ _ \<Rightarrow> ''vault_created'' | VaultDeposit _ _ _ \<Rightarrow> ''deposit'' | VaultWithdraw _ _ _ \<Rightarrow> ''withdraw''
    | VaultFeesClaimed _ _ _ \<Rightarrow> ''fees_claimed''
    | VaultPausedEv adm p \<Rightarrow> (if adm then ''admin_'' else '''') @ (if p then ''paused'' else ''unpaused'')
    | VaultLeaderOpen _ _ _ \<Rightarrow> ''leader_open'' | VaultLeaderClose _ _ \<Rightarrow> ''leader_close''
    | VaultLeaderOrder t _ _ \<Rightarrow> t | VaultLeaderProtective t _ _ _ \<Rightarrow> t
    | VaultOrderReconciled _ _ _ \<Rightarrow> ''order_reconciled'' | VaultPositionReconciled _ _ \<Rightarrow> ''position_reconciled'')"

definition VAULT_TOPICS :: "string list" where
  "VAULT_TOPICS =
     [''vault_created'', ''deposit'', ''withdraw'', ''fees_claimed'', ''paused'', ''unpaused'', ''admin_paused'',
      ''admin_unpaused'', ''leader_open'', ''leader_close'', ''leader_limit'', ''leader_cancel'', ''leader_stop_limit'',
      ''leader_sl'', ''leader_tp'', ''leader_trail'', ''order_reconciled'', ''position_reconciled'']"

section \<open>Definitions: decoding\<close>

definition vaultEnvelope :: "raw_event \<Rightarrow> int \<Rightarrow> vault_body \<Rightarrow> vault_event" where
  "vaultEnvelope raw vaultId b =
     \<lparr>vx_id = re_id raw, vx_contractId = re_contractId raw, vx_vaultId = vaultId, vx_ledger = re_ledger raw,
      vx_ledgerCloseTs = re_ledgerClosedAtMs raw div 1000, vx_txHash = re_txHash raw, vx_body = b, vx_rawXdr = None\<rparr>"

text \<open>The switch of \<open>decodeVaultEvent\<close>; the labels are those of the thrown messages.\<close>

definition decodeVaultBody :: "string \<Rightarrow> native list \<Rightarrow> (string + vault_body) option" where
  "decodeVaultBody topic v =
     (if topic = ''vault_created'' then Some
        (str v 0 ''vault_created.leader'' (\<lambda>l.
         str v 1 ''vault_created.name'' (\<lambda>n. Inr (VaultCreated l n))))
      else if topic = ''deposit'' then Some
        (str v 0 ''vault.deposit.depositor'' (\<lambda>d.
         big v 1 ''vault.deposit.amount'' (\<lambda>a.
         big v 2 ''vault.deposit.shares'' (\<lambda>s. Inr (VaultDeposit d a s)))))
      else if topic = ''withdraw'' then Some
        (str v 0 ''vault.withdraw.depositor'' (\<lambda>d.
         big v 1 ''vault.withdraw.shares'' (\<lambda>s.
         big v 2 ''vault.withdraw.usdc_out'' (\<lambda>u. Inr (VaultWithdraw d s u)))))
      else if topic = ''fees_claimed'' then Some
        (str v 0 ''vault.fees_claimed.leader'' (\<lambda>l.
         big v 1 ''vault.fees_claimed.owed'' (\<lambda>w.
         big v 2 ''vault.fees_claimed.new_nav'' (\<lambda>n. Inr (VaultFeesClaimed l w n)))))
      else if topic = ''paused'' then Some (Inr (VaultPausedEv False True))
      else if topic = ''unpaused'' then Some (Inr (VaultPausedEv False False))
      else if topic = ''admin_paused'' then Some (Inr (VaultPausedEv True True))
      else if topic = ''admin_unpaused'' then Some (Inr (VaultPausedEv True False))
      else if topic = ''leader_open'' then Some
        (str v 0 ''vault.leader_open.leader'' (\<lambda>l.
         big v 1 ''vault.leader_open.position_id'' (\<lambda>i.
         big v 2 ''vault.leader_open.collateral'' (\<lambda>c. Inr (VaultLeaderOpen l i c)))))
      else if topic = ''leader_close'' then Some
        (str v 0 ''vault.leader_close.leader'' (\<lambda>l.
         big v 1 ''vault.leader_close.position_id'' (\<lambda>i. Inr (VaultLeaderClose l i))))
      else if topic \<in> {''leader_limit'', ''leader_cancel'', ''leader_stop_limit''} then Some
        (str v 0 (''vault.'' @ topic @ ''.leader'') (\<lambda>l.
         big v 1 (''vault.'' @ topic @ ''.order_id'') (\<lambda>i. Inr (VaultLeaderOrder topic l i))))
      else if topic \<in> {''leader_sl'', ''leader_tp'', ''leader_trail''} then Some
        (str v 0 (''vault.'' @ topic @ ''.leader'') (\<lambda>l.
         big v 1 (''vault.'' @ topic @ ''.order_id'') (\<lambda>i.
         big v 2 (''vault.'' @ topic @ ''.position_id'') (\<lambda>p. Inr (VaultLeaderProtective topic l i p)))))
      else if topic = ''order_reconciled'' then Some
        (big v 0 ''vault.order_reconciled.order_id'' (\<lambda>i.
         big v 1 ''vault.order_reconciled.position_id'' (\<lambda>p.
         big v 2 ''vault.order_reconciled.credited'' (\<lambda>c. Inr (VaultOrderReconciled i p c)))))
      else if topic = ''position_reconciled'' then Some
        (big v 0 ''vault.position_reconciled.position_id'' (\<lambda>p.
         big v 1 ''vault.position_reconciled.proceeds'' (\<lambda>c. Inr (VaultPositionReconciled p c))))
      else None)"

definition decodeVaultEvent :: "raw_event \<Rightarrow> string + vault_event option" where
  "decodeVaultEvent raw =
     reads (re_topics raw) (\<lambda>topics.
       case at_index topics 0 of
         NStr topic \<Rightarrow>
           if topic \<notin> set VAULT_TOPICS then Inr None
           else num topics 1 ''vault topic[1] (vault_id)'' (\<lambda>vaultId.
             reads (re_value raw) (\<lambda>value.
               case decodeVaultBody topic (decodeEventValue value) of
                 None \<Rightarrow> Inr None
               | Some r \<Rightarrow> map_sum id (\<lambda>b. Some (vaultEnvelope raw vaultId b)) r))
       | _ \<Rightarrow> Inr None)"

section \<open>Definitions: tables\<close>

record vault_row =
  vr_leader :: string
  vr_name :: string
  vr_createdAt :: int
  vr_totalUsdc :: int
  vr_circulatingShares :: int
  vr_hwmNav :: int
  vr_realizedPnl :: int
  vr_leaderShares :: int
  vr_profitShareBps :: int
  vr_paused :: bool
  vr_contractId :: "string option"
  vr_updatedAt :: int

text \<open>The rows of the three activity logs, keyed by the event id, have one shape: who, two amounts, and the envelope.\<close>

record vault_log_row =
  vl_vaultId :: int
  vl_who :: string
  vl_first :: int
  vl_second :: int
  vl_ledger :: int
  vl_ts :: int
  vl_txHash :: string
  vl_contractId :: "string option"

datatype trade_action = OpenAction | CloseAction

text \<open>\<open>vault_trades\<close> is unique in vault, position, action and transaction.\<close>

record vault_trade_row =
  vt_leader :: string
  vt_collateral :: int
  vt_pnl :: "int option"
  vt_ledger :: int
  vt_ts :: int
  vt_contractId :: "string option"

record vault_tables =
  vaults :: "(int, vault_row) jmap"
  vaultDeposits :: "(string, vault_log_row) jmap"
  vaultWithdraws :: "(string, vault_log_row) jmap"
  vaultFeeClaims :: "(string, vault_log_row) jmap"
  vaultTrades :: "(int \<times> int \<times> trade_action \<times> string, vault_trade_row) jmap"

text \<open>What \<open>view_vault\<close> returns; the lookup may also throw or find nothing.\<close>

record on_chain_vault =
  oc_totalUsdc :: int
  oc_circulatingShares :: int
  oc_hwmNav :: int
  oc_realizedPnl :: int
  oc_leaderShares :: int
  oc_paused :: bool

record vault_env = tx_faults +
  hx_chainVault :: "int \<Rightarrow> string + on_chain_vault option"
  hx_syncFails :: bool

section \<open>Definitions: projections\<close>

definition createdRow :: "int \<Rightarrow> string \<Rightarrow> vault_event \<Rightarrow> string \<Rightarrow> string \<Rightarrow> vault_row" where
  "createdRow now contract v leader name =
     \<lparr>vr_leader = leader, vr_name = name, vr_createdAt = vx_ledgerCloseTs v, vr_totalUsdc = 0, vr_circulatingShares = 0,
      vr_hwmNav = 10000000, vr_realizedPnl = 0, vr_leaderShares = 0, vr_profitShareBps = 1000, vr_paused = False,
      vr_contractId = Some contract, vr_updatedAt = now\<rparr>"

text \<open>The leader's own shares move only with the leader's own deposits and withdrawals.\<close>

definition moveFunds :: "int \<Rightarrow> string \<Rightarrow> int \<Rightarrow> int \<Rightarrow> vault_row \<Rightarrow> vault_row" where
  "moveFunds now who usdc shares r =
     r\<lparr>vr_totalUsdc := vr_totalUsdc r + usdc, vr_circulatingShares := vr_circulatingShares r + shares,
       vr_leaderShares := vr_leaderShares r + (if vr_leader r = who then shares else 0), vr_updatedAt := now\<rparr>"

definition upsertVault :: "int \<Rightarrow> string \<Rightarrow> vault_event \<Rightarrow> (int, vault_row) jmap \<Rightarrow> (int, vault_row) jmap" where
  "upsertVault now contract v vs = (case vx_body v of
      VaultCreated l n \<Rightarrow> jset (vx_vaultId v) (createdRow now contract v l n) vs
    | VaultDeposit who amount shares \<Rightarrow> update_row (vx_vaultId v) (moveFunds now who amount shares) vs
    | VaultWithdraw who shares usdcOut \<Rightarrow> update_row (vx_vaultId v) (moveFunds now who (- usdcOut) (- shares)) vs
    | VaultFeesClaimed _ owed nav \<Rightarrow> update_row (vx_vaultId v)
        (\<lambda>r. r\<lparr>vr_totalUsdc := vr_totalUsdc r - owed, vr_realizedPnl := vr_realizedPnl r + owed, vr_hwmNav := nav, vr_updatedAt := now\<rparr>) vs
    | VaultPausedEv _ p \<Rightarrow> update_row (vx_vaultId v) (\<lambda>r. r\<lparr>vr_paused := p, vr_updatedAt := now\<rparr>) vs
    | _ \<Rightarrow> vs)"

definition logRow :: "string \<Rightarrow> vault_event \<Rightarrow> string \<Rightarrow> int \<Rightarrow> int \<Rightarrow> vault_log_row" where
  "logRow contract v who a b = \<lparr>vl_vaultId = vx_vaultId v, vl_who = who, vl_first = a, vl_second = b, vl_ledger = vx_ledger v,
     vl_ts = vx_ledgerCloseTs v, vl_txHash = vx_txHash v, vl_contractId = Some contract\<rparr>"

text \<open>The settled amount of a closing trade is looked up in the market's archived close of the same transaction.\<close>

definition closePnl :: "market_event list \<Rightarrow> string \<Rightarrow> int \<Rightarrow> int option" where
  "closePnl marketRaw txHash pid =
     List.find (\<lambda>_. True) (List.map_filter (\<lambda>e. case me_body e of
        PositionClosed i _ _ _ _ _ _ pnl \<Rightarrow> if me_txHash e = txHash \<and> i = pid then Some pnl else None | _ \<Rightarrow> None) marketRaw)"

definition logActivity :: "market_event list \<Rightarrow> string \<Rightarrow> vault_event \<Rightarrow> vault_tables \<Rightarrow> vault_tables" where
  "logActivity marketRaw contract v t = (case vx_body v of
      VaultDeposit who amount shares \<Rightarrow> t\<lparr>vaultDeposits := insert_new (vx_id v) (logRow contract v who amount shares) (vaultDeposits t)\<rparr>
    | VaultWithdraw who shares usdcOut \<Rightarrow> t\<lparr>vaultWithdraws := insert_new (vx_id v) (logRow contract v who shares usdcOut) (vaultWithdraws t)\<rparr>
    | VaultFeesClaimed l owed nav \<Rightarrow> t\<lparr>vaultFeeClaims := insert_new (vx_id v) (logRow contract v l owed nav) (vaultFeeClaims t)\<rparr>
    | VaultLeaderOpen l pid collateral \<Rightarrow> t\<lparr>vaultTrades := insert_new (vx_vaultId v, pid, OpenAction, vx_txHash v)
        \<lparr>vt_leader = l, vt_collateral = collateral, vt_pnl = None, vt_ledger = vx_ledger v, vt_ts = vx_ledgerCloseTs v,
         vt_contractId = Some contract\<rparr> (vaultTrades t)\<rparr>
    | VaultLeaderClose l pid \<Rightarrow> t\<lparr>vaultTrades := insert_new (vx_vaultId v, pid, CloseAction, vx_txHash v)
        \<lparr>vt_leader = l, vt_collateral = 0, vt_pnl = closePnl marketRaw (vx_txHash v) pid, vt_ledger = vx_ledger v,
         vt_ts = vx_ledgerCloseTs v, vt_contractId = Some contract\<rparr> (vaultTrades t)\<rparr>
    | _ \<Rightarrow> t)"

definition applyVault :: "market_event list \<Rightarrow> string \<Rightarrow> 'x tx_faults_scheme \<Rightarrow> vault_event \<Rightarrow> vault_tables \<Rightarrow> string + vault_tables" where
  "applyVault marketRaw contract x v t =
     Inr (logActivity marketRaw contract v (t\<lparr>vaults := upsertVault (hx_now x) contract v (vaults t)\<rparr>))"

section \<open>Definitions: resync from the chain\<close>

definition syncedRow :: "int \<Rightarrow> on_chain_vault \<Rightarrow> vault_row \<Rightarrow> vault_row" where
  "syncedRow now c r = r\<lparr>vr_totalUsdc := oc_totalUsdc c, vr_circulatingShares := oc_circulatingShares c, vr_hwmNav := oc_hwmNav c,
     vr_realizedPnl := oc_realizedPnl c, vr_leaderShares := oc_leaderShares c, vr_paused := oc_paused c, vr_updatedAt := now\<rparr>"

definition syncVaultRow :: "'x vault_env_scheme \<Rightarrow> int \<Rightarrow> (int, vault_row) jmap \<Rightarrow> (int, vault_row) jmap \<times> (string + unit)" where
  "syncVaultRow x i vs =
     (case hx_chainVault x i of
        Inl err \<Rightarrow> (vs, Inl err)
      | Inr None \<Rightarrow> (vs, Inr ())
      | Inr (Some c) \<Rightarrow> if hx_syncFails x then (vs, Inl ''update failed'') else (update_row i (syncedRow (hx_now x) c) vs, Inr ()))"

text \<open>The events after which the row is read back; a failing resync is only logged.\<close>

definition resyncs :: "vault_body \<Rightarrow> bool" where
  "resyncs b = (case b of VaultLeaderOpen _ _ _ \<Rightarrow> True | VaultLeaderClose _ _ \<Rightarrow> True | VaultOrderReconciled _ _ _ \<Rightarrow> True
     | VaultPositionReconciled _ _ \<Rightarrow> True | _ \<Rightarrow> False)"

definition afterVault :: "'x vault_env_scheme \<Rightarrow> vault_event \<Rightarrow> vault_tables \<Rightarrow> vault_tables" where
  "afterVault x v t = (if resyncs (vx_body v) then t\<lparr>vaults := fst (syncVaultRow x (vx_vaultId v) (vaults t))\<rparr> else t)"

definition handleVault :: "market_event list \<Rightarrow> string \<Rightarrow> 'x vault_env_scheme \<Rightarrow> bool \<Rightarrow> vault_event
    \<Rightarrow> (vault_event, vault_tables) store \<Rightarrow> (vault_event, vault_tables) store \<times> (string + unit)" where
  "handleVault marketRaw contract = transactional vx_id (applyVault marketRaw contract) afterVault"

text \<open>At start-up every row is read back; a row whose lookup fails is kept.\<close>

definition reconcileAllVaults :: "'x vault_env_scheme \<Rightarrow> (int, vault_row) jmap \<Rightarrow> (int, vault_row) jmap" where
  "reconcileAllVaults x vs = foldl (\<lambda>vs i. fst (syncVaultRow x i vs)) vs (sort (map fst vs))"

definition pruneRetiredFactoryRows :: "string \<Rightarrow> vault_tables \<Rightarrow> vault_tables" where
  "pruneRetiredFactoryRows currentFactory t =
     (if trim currentFactory = [] then t
      else t\<lparr>vaults := filter (\<lambda>(_, r). vr_contractId r = Some currentFactory) (vaults t),
        vaultDeposits := filter (\<lambda>(_, r). vl_contractId r = Some currentFactory) (vaultDeposits t),
        vaultWithdraws := filter (\<lambda>(_, r). vl_contractId r = Some currentFactory) (vaultWithdraws t),
        vaultFeeClaims := filter (\<lambda>(_, r). vl_contractId r = Some currentFactory) (vaultFeeClaims t),
        vaultTrades := filter (\<lambda>(_, r). vt_contractId r = Some currentFactory) (vaultTrades t)\<rparr>)"

section \<open>Lemmas: the rows\<close>

interpretation factory: idempotent_handler "\<lambda>x. handleVault marketRaw contract x False" vx_id "archivedIn vx_id" for marketRaw contract
  unfolding handleVault_def by (rule tx.idempotent_handler_axioms)

text \<open>What an event adds to the funds, the shares and the leader's shares of its vault.\<close>

definition usdcMove :: "vault_event \<Rightarrow> int" where
  "usdcMove v = (case vx_body v of VaultDeposit _ a _ \<Rightarrow> a | VaultWithdraw _ _ u \<Rightarrow> - u | VaultFeesClaimed _ w _ \<Rightarrow> - w | _ \<Rightarrow> 0)"

definition shareMove :: "vault_event \<Rightarrow> int" where
  "shareMove v = (case vx_body v of VaultDeposit _ _ s \<Rightarrow> s | VaultWithdraw _ s _ \<Rightarrow> - s | _ \<Rightarrow> 0)"

definition leaderMove :: "string \<Rightarrow> vault_event \<Rightarrow> int" where
  "leaderMove leader v = (case vx_body v of VaultDeposit w _ s \<Rightarrow> if leader = w then s else 0
     | VaultWithdraw w s _ \<Rightarrow> if leader = w then - s else 0 | _ \<Rightarrow> 0)"

definition isCreation :: "vault_event \<Rightarrow> bool" where
  "isCreation v = (case vx_body v of VaultCreated _ _ \<Rightarrow> True | _ \<Rightarrow> False)"

abbreviation vaultEffect :: "market_event list \<Rightarrow> string \<Rightarrow> 'x vault_env_scheme \<times> vault_event \<Rightarrow> vault_tables \<Rightarrow> vault_tables" where
  "vaultEffect marketRaw contract \<equiv> effect (applyVault marketRaw contract) afterVault"

lemma vaults_logActivity [simp]: "vaults (logActivity m c v t) = vaults t"
  by (simp add: logActivity_def split: vault_body.split)

lemma vaults_effect:
  "vaults (vaultEffect m c (x, v) t) =
     (let vs = upsertVault (hx_now x) c v (vaults t)
      in if hx_commitLost x \<or> \<not> resyncs (vx_body v) then vs else fst (syncVaultRow x (vx_vaultId v) vs))"
  by (simp add: effect_def applyVault_def afterVault_def Let_def)

lemma syncVaultRow_other: "i \<noteq> j \<Longrightarrow> map_of (fst (syncVaultRow x j vs)) i = map_of vs i"
  by (simp add: syncVaultRow_def map_of_update_row split: sum.split option.split)

lemma upsertVault_other: "i \<noteq> vx_vaultId v \<Longrightarrow> map_of (upsertVault now c v vs) i = map_of vs i"
  by (simp add: upsertVault_def map_of_update_row split: vault_body.split)

lemma effect_other: "i \<noteq> vx_vaultId v \<Longrightarrow> map_of (vaults (vaultEffect m c (x, v) t)) i = map_of (vaults t) i"
  by (simp add: vaults_effect Let_def syncVaultRow_other upsertVault_other)

lemma upsertVault_own:
  assumes "map_of vs (vx_vaultId v) = Some r" "\<not> isCreation v"
  shows "\<exists>r'. map_of (upsertVault now c v vs) (vx_vaultId v) = Some r' \<and> vr_leader r' = vr_leader r
     \<and> vr_totalUsdc r' = vr_totalUsdc r + usdcMove v \<and> vr_circulatingShares r' = vr_circulatingShares r + shareMove v
     \<and> vr_leaderShares r' = vr_leaderShares r + leaderMove (vr_leader r) v"
  using assms
  by (cases "vx_body v")
    (auto simp: upsertVault_def map_of_update_row moveFunds_def usdcMove_def shareMove_def leaderMove_def isCreation_def)

text \<open>Without a resync that lands, an event moves the row by its own amounts.\<close>

definition resynced :: "'x vault_env_scheme \<times> vault_event \<Rightarrow> on_chain_vault option" where
  "resynced p = (case p of (x, v) \<Rightarrow> if hx_commitLost x \<or> \<not> resyncs (vx_body v) \<or> hx_syncFails x then None
     else case hx_chainVault x (vx_vaultId v) of Inr (Some c) \<Rightarrow> Some c | _ \<Rightarrow> None)"

lemma effect_own:
  assumes "map_of (vaults t) (vx_vaultId v) = Some r" "\<not> isCreation v" "resynced (x, v) = None"
  shows "\<exists>r'. map_of (vaults (vaultEffect m c (x, v) t)) (vx_vaultId v) = Some r' \<and> vr_leader r' = vr_leader r
     \<and> vr_totalUsdc r' = vr_totalUsdc r + usdcMove v \<and> vr_circulatingShares r' = vr_circulatingShares r + shareMove v
     \<and> vr_leaderShares r' = vr_leaderShares r + leaderMove (vr_leader r) v"
proof -
  have "map_of (vaults (vaultEffect m c (x, v) t)) (vx_vaultId v) = map_of (upsertVault (hx_now x) c v (vaults t)) (vx_vaultId v)"
    using assms(3) by (auto simp: vaults_effect Let_def resynced_def syncVaultRow_def split: sum.splits option.splits if_splits)
  then show ?thesis using upsertVault_own [OF assms(1,2)] by simp
qed

lemma effect_resynced:
  assumes "map_of (vaults t) (vx_vaultId v) = Some r" "resynced (x, v) = Some k"
  shows "\<exists>r'. map_of (vaults (vaultEffect m c (x, v) t)) (vx_vaultId v) = Some r' \<and> vr_leader r' = vr_leader r
     \<and> vr_totalUsdc r' = oc_totalUsdc k \<and> vr_circulatingShares r' = oc_circulatingShares k \<and> vr_leaderShares r' = oc_leaderShares k"
proof -
  have k: "hx_chainVault x (vx_vaultId v) = Inr (Some k)" "\<not> hx_syncFails x" "\<not> hx_commitLost x" "resyncs (vx_body v)"
    using assms(2) by (auto simp: resynced_def split: if_split_asm sum.split_asm option.split_asm)
  have "upsertVault (hx_now x) c v (vaults t) = vaults t"
    using k(4) by (cases "vx_body v") (simp_all add: upsertVault_def resyncs_def)
  then show ?thesis
    using assms(1) k by (simp add: vaults_effect Let_def syncVaultRow_def map_of_update_row syncedRow_def)
qed

lemma fold_own:
  assumes "map_of (vaults t) i = Some r"
    and "list_all (\<lambda>(x, v). vx_vaultId v = i \<longrightarrow> \<not> isCreation v \<and> resynced (x, v) = None) ps"
  defines "own \<equiv> map snd (filter (\<lambda>(x, v). vx_vaultId v = i) ps)"
  shows "\<exists>r'. map_of (vaults (fold (vaultEffect m c) ps t)) i = Some r' \<and> vr_leader r' = vr_leader r
     \<and> vr_totalUsdc r' = vr_totalUsdc r + sum_list (map usdcMove own)
     \<and> vr_circulatingShares r' = vr_circulatingShares r + sum_list (map shareMove own)
     \<and> vr_leaderShares r' = vr_leaderShares r + sum_list (map (leaderMove (vr_leader r)) own)"
  using assms(1,2) unfolding own_def
proof (induction ps arbitrary: t r)
  case (Cons p ps)
  obtain x v where p: "p = (x, v)" by fastforce
  let ?t = "vaultEffect m c (x, v) t"
  have rest: "list_all (\<lambda>(x, v). vx_vaultId v = i \<longrightarrow> \<not> isCreation v \<and> resynced (x, v) = None) ps" using Cons.prems(2) by simp
  show ?case
  proof (cases "vx_vaultId v = i")
    case True
    with Cons.prems p obtain r1 where "map_of (vaults ?t) i = Some r1" "vr_leader r1 = vr_leader r"
        "vr_totalUsdc r1 = vr_totalUsdc r + usdcMove v" "vr_circulatingShares r1 = vr_circulatingShares r + shareMove v"
        "vr_leaderShares r1 = vr_leaderShares r + leaderMove (vr_leader r) v"
      using effect_own [of t v r x m c] by auto
    then show ?thesis using Cons.IH [of ?t r1] rest True by (auto simp: p add.assoc)
  next
    case False
    then have "map_of (vaults ?t) i = Some r" using Cons.prems(1) effect_other [of i v m c x t] by (metis (no_types))
    then show ?thesis using Cons.IH [of ?t r] rest False by (simp add: p)
  qed
qed simp

section \<open>Properties\<close>

text \<open>A vault's projected books: after any deliveries and faults the row of a vault is what the last resync that
  landed read from the chain, plus the amounts of every event of the vault applied since, each once, whether or not the
  chain had counted it already; the leader's shares move with the leader's own deposits and withdrawals only.\<close>

theorem vault_row_since_resync:
  assumes "effective vx_id (\<lambda>_ _. False) (\<lambda>_. False) ds = pre @ (x, v) # post"
    and "map_of (vaults (fold (vaultEffect marketRaw contract) pre t)) (vx_vaultId v) = Some r" "resynced (x, v) = Some k"
    and "list_all (\<lambda>(y, w). vx_vaultId w = vx_vaultId v \<longrightarrow> \<not> isCreation w \<and> resynced (y, w) = None) post"
  defines "own \<equiv> map snd (filter (\<lambda>(y, w). vx_vaultId w = vx_vaultId v) post)"
  shows "\<exists>r'. map_of (vaults (st_tables (runDeliveries (\<lambda>x. handleVault marketRaw contract x False) ds
       \<lparr>st_raw = [], st_tables = t, st_bus = []\<rparr>))) (vx_vaultId v) = Some r'
     \<and> vr_totalUsdc r' = oc_totalUsdc k + sum_list (map usdcMove own)
     \<and> vr_circulatingShares r' = oc_circulatingShares k + sum_list (map shareMove own)
     \<and> vr_leaderShares r' = oc_leaderShares k + sum_list (map (leaderMove (vr_leader r)) own)"
proof -
  let ?s = "\<lparr>st_raw = [], st_tables = t, st_bus = []\<rparr>" and ?t = "fold (vaultEffect marketRaw contract) pre t"
  have "st_tables (runDeliveries (\<lambda>x. handleVault marketRaw contract x False) ds ?s)
      = fold (vaultEffect marketRaw contract) (pre @ (x, v) # post) t"
    using deliveries_effective [of "applyVault marketRaw contract" "\<lambda>_ _. False" vx_id afterVault ds ?s] assms(1)
    by (simp add: handleVault_def applyVault_def)
  moreover obtain r1 where "map_of (vaults (vaultEffect marketRaw contract (x, v) ?t)) (vx_vaultId v) = Some r1"
      "vr_leader r1 = vr_leader r" "vr_totalUsdc r1 = oc_totalUsdc k" "vr_circulatingShares r1 = oc_circulatingShares k"
      "vr_leaderShares r1 = oc_leaderShares k"
    using effect_resynced [OF assms(2,3)] by blast
  ultimately show ?thesis
    using fold_own [of "vaultEffect marketRaw contract (x, v) ?t" "vx_vaultId v" r1 post marketRaw contract] assms(4)
    unfolding own_def by auto
qed

text \<open>C27. A resync that runs ahead of the events counts a deposit twice: the leader's trade is read back from the chain
  after a deposit that the poller has not delivered yet, and the deposit's event then adds its amount again.\<close>

theorem resync_counts_twice:
  assumes "map_of (vaults t) i = Some r" "vx_vaultId v = i" "vx_vaultId w = i"
    and "vx_body v = VaultLeaderOpen l pid collateral" "vx_body w = VaultDeposit who amount shares"
    and "hx_chainVault x i = Inr (Some k)" "oc_totalUsdc k = settled + amount" "\<not> hx_syncFails x" "\<not> hx_commitLost x"
  shows "\<exists>r'. map_of (vaults (fold (vaultEffect marketRaw contract) [(x, v), (y, w)] t)) i = Some r'
     \<and> vr_totalUsdc r' = settled + 2 * amount"
proof -
  have "resynced (x, v) = Some k" "resynced (y, w) = None" "\<not> isCreation w" "usdcMove w = amount"
    using assms by (simp_all add: resynced_def resyncs_def isCreation_def usdcMove_def)
  then show ?thesis
    using effect_resynced [of t v r x k marketRaw contract] assms(1,2,3,7)
      effect_own [of "vaultEffect marketRaw contract (x, v) t" w _ y marketRaw contract]
    by fastforce
qed

lemma syncVaultRow_known:
  "map_of (fst (syncVaultRow x i vs)) j = (if i = j then (case hx_chainVault x i of Inr (Some c) \<Rightarrow>
     if hx_syncFails x then map_of vs j else map_option (syncedRow (hx_now x) c) (map_of vs j) | _ \<Rightarrow> map_of vs j) else map_of vs j)"
  by (simp add: syncVaultRow_def map_of_update_row split: sum.split option.split)

lemma syncedRow_twice [simp]: "syncedRow n c (syncedRow n c r) = syncedRow n c r"
  by (simp add: syncedRow_def)

lemma map_of_reconcile:
  "map_of (foldl (\<lambda>vs i. fst (syncVaultRow x i vs)) vs js) i =
     (if i \<in> set js then map_of (fst (syncVaultRow x i vs)) i else map_of vs i)"
proof (induction js arbitrary: vs)
  case (Cons j js)
  then show ?case
    by (auto simp: syncVaultRow_known option.map_comp comp_def split: sum.split option.split)
qed simp

text \<open>After the start-up only live rows are left and they are fresh: pruning keeps exactly the rows stamped with the
  configured factory, and the reconcile then overwrites the amounts of every row whose lookup answers, and no other.\<close>

theorem startup_rows_live:
  assumes "trim factory \<noteq> []" "distinct (map fst (vaults t))" "\<not> hx_syncFails x"
  shows "map_of (reconcileAllVaults x (vaults (pruneRetiredFactoryRows factory t))) i =
     (case map_of (vaults t) i of
        None \<Rightarrow> None
      | Some r \<Rightarrow> if vr_contractId r \<noteq> Some factory then None
                  else case hx_chainVault x i of Inr (Some c) \<Rightarrow> Some (syncedRow (hx_now x) c r) | _ \<Rightarrow> Some r)"
proof -
  let ?vs = "filter (\<lambda>(_, r). vr_contractId r = Some factory) (vaults t)"
  have kept: "map_of (filter (\<lambda>(_, r). vr_contractId r = Some factory) vs) i
      = (case map_of vs i of Some r \<Rightarrow> if vr_contractId r = Some factory then Some r else None | None \<Rightarrow> None)"
    if "distinct (map fst vs)" for vs
    using that by (induction vs) (auto simp: map_of_eq_None_iff split: option.split dest: map_of_SomeD intro: rev_image_eqI)
  have "i \<in> set (map fst ?vs) \<longleftrightarrow> map_of ?vs i \<noteq> None" by (metis (no_types) map_of_eq_None_iff list.set_map)
  then show ?thesis
    using kept [OF assms(2)] assms(1,3)
    by (auto simp: reconcileAllVaults_def pruneRetiredFactoryRows_def map_of_reconcile syncVaultRow_known
        split: option.split sum.split)
qed

text \<open>The poller never gets stuck on a factory event: once a delivery reached its transaction and either succeeded or
  left its archive row, delivering the event again reports success and changes nothing.\<close>

theorem factory_event_settles:
  assumes "archivedIn vx_id (fst (handleVault marketRaw contract x False v s)) (vx_id v)"
    and "\<not> hx_beginFails y" "hx_failsAt y \<noteq> Some 0"
  shows "handleVault marketRaw contract y False v (fst (handleVault marketRaw contract x False v s))
     = (fst (handleVault marketRaw contract x False v s), Inr ())"
  using assms by (simp add: handleVault_def transactional_def [of _ _ _ y])

section \<open>What the factory emits\<close>

definition emittedVault :: "vault_body \<Rightarrow> native list" where
  "emittedVault b = (case b of
      VaultCreated l n \<Rightarrow> [NStr l, NStr n]
    | VaultDeposit d a s \<Rightarrow> [NStr d, NBig a, NBig s]
    | VaultWithdraw d s u \<Rightarrow> [NStr d, NBig s, NBig u]
    | VaultFeesClaimed l w n \<Rightarrow> [NStr l, NBig w, NBig n]
    | VaultPausedEv _ _ \<Rightarrow> []
    | VaultLeaderOpen l i c \<Rightarrow> [NStr l, NBig i, NBig c]
    | VaultLeaderClose l i \<Rightarrow> [NStr l, NBig i]
    | VaultLeaderOrder _ l i \<Rightarrow> [NStr l, NBig i]
    | VaultLeaderProtective _ l i p \<Rightarrow> [NStr l, NBig i, NBig p]
    | VaultOrderReconciled i p c \<Rightarrow> [NBig i, NBig p, NBig c]
    | VaultPositionReconciled p c \<Rightarrow> [NBig p, NBig c])"

definition wellFormedVault :: "vault_body \<Rightarrow> bool" where
  "wellFormedVault b = (case b of
      VaultLeaderOrder t _ _ \<Rightarrow> t \<in> {''leader_limit'', ''leader_cancel'', ''leader_stop_limit''}
    | VaultLeaderProtective t _ _ _ \<Rightarrow> t \<in> {''leader_sl'', ''leader_tp'', ''leader_trail''}
    | _ \<Rightarrow> True)"

lemma decodeVaultBody_emitted:
  assumes "wellFormedVault b"
  shows "vaultTopicOf b \<in> set VAULT_TOPICS \<and> decodeVaultBody (vaultTopicOf b) (emittedVault b) = Some (Inr b)"
proof -
  note defs = decodeVaultBody_def vaultTopicOf_def emittedVault_def VAULT_TOPICS_def
  show ?thesis
  proof (cases b)
    case (VaultPausedEv adm p)
    then show ?thesis by (cases adm; cases p) (simp_all add: defs)
  next
    case (VaultLeaderOrder t l i)
    with assms consider "t = ''leader_limit''" | "t = ''leader_cancel''" | "t = ''leader_stop_limit''"
      by (auto simp: wellFormedVault_def)
    then show ?thesis by cases (simp_all add: VaultLeaderOrder defs)
  next
    case (VaultLeaderProtective t l i p)
    with assms consider "t = ''leader_sl''" | "t = ''leader_tp''" | "t = ''leader_trail''"
      by (auto simp: wellFormedVault_def)
    then show ?thesis by cases (simp_all add: VaultLeaderProtective defs)
  qed (simp_all add: defs)
qed

text \<open>Decoding inverts what the vault factory emits: an event with the topics (name, vault id) and the payload of a
  body is decoded to that body and vault id, with the envelope of the raw event, for each of the eighteen topics.\<close>

theorem decode_vault_emitted:
  assumes "wellFormedVault b" "re_topics raw = Inr [NStr (vaultTopicOf b), NNum vaultId]" "re_value raw = Inr (NArr (emittedVault b))"
  shows "decodeVaultEvent raw = Inr (Some (vaultEnvelope raw vaultId b))"
  using decodeVaultBody_emitted [OF assms(1)] by (simp add: decodeVaultEvent_def assms)

section \<open>Witnesses\<close>

definition sampleVaultRaw :: raw_event where
  "sampleVaultRaw = \<lparr>re_id = ''9-1'', re_contractId = ''CFACTORY'', re_ledger = 9, re_ledgerClosedAtMs = 1700000000999,
     re_txHash = ''tx'', re_topics = Inr [NStr ''leader_tp'', NNum 4], re_value = Inr (NArr [NStr ''GL'', NBig 7, NBig 8]), re_xdr = None\<rparr>"

theorem decode_vault_witness:
  "decodeVaultEvent sampleVaultRaw = Inr (Some (vaultEnvelope sampleVaultRaw 4 (VaultLeaderProtective ''leader_tp'' ''GL'' 7 8)))"
  by (rule decode_vault_emitted) (simp_all add: sampleVaultRaw_def wellFormedVault_def emittedVault_def vaultTopicOf_def)

definition sampleVault :: "string \<Rightarrow> vault_body \<Rightarrow> vault_event" where
  "sampleVault i b = \<lparr>vx_id = i, vx_contractId = ''F'', vx_vaultId = 3, vx_ledger = 9, vx_ledgerCloseTs = 90, vx_txHash = ''t'',
     vx_body = b, vx_rawXdr = None\<rparr>"

definition sampleVaultEnv :: vault_env where
  "sampleVaultEnv = \<lparr>hx_beginFails = False, hx_failsAt = None, hx_commitLost = False, hx_archiveFails = False, hx_now = 1,
     hx_chainVault = (\<lambda>_. Inr (Some \<lparr>oc_totalUsdc = 150, oc_circulatingShares = 150, oc_hwmNav = 1, oc_realizedPnl = 0,
       oc_leaderShares = 100, oc_paused = False\<rparr>)), hx_syncFails = False\<rparr>"

definition emptyVaults :: vault_tables where
  "emptyVaults = \<lparr>vaults = [], vaultDeposits = [], vaultWithdraws = [], vaultFeeClaims = [], vaultTrades = []\<rparr>"

definition sampleVaults :: vault_tables where
  "sampleVaults = emptyVaults\<lparr>vaults := [(3, (createdRow 1 ''F'' (sampleVault ''a'' (VaultCreated ''GL'' ''v'')) ''GL'' ''v'')
     \<lparr>vr_totalUsdc := 100, vr_circulatingShares := 100, vr_leaderShares := 100\<rparr>)]\<rparr>"

abbreviation sampleVaultRun :: "(vault_env \<times> vault_event) list" where
  "sampleVaultRun \<equiv> [(sampleVaultEnv, sampleVault ''b'' (VaultLeaderOpen ''GL'' 7 40)),
     (sampleVaultEnv, sampleVault ''c'' (VaultDeposit ''GD'' 50 50)), (sampleVaultEnv, sampleVault ''c'' (VaultDeposit ''GD'' 50 50))]"

theorem vault_row_witness:
  "\<exists>r. map_of (vaults (st_tables (runDeliveries (\<lambda>x. handleVault [] ''F'' x False) sampleVaultRun
       \<lparr>st_raw = [], st_tables = sampleVaults, st_bus = []\<rparr>))) 3 = Some r \<and> vr_totalUsdc r = 200 \<and> vr_leaderShares r = 100"
proof -
  let ?v = "sampleVault ''b'' (VaultLeaderOpen ''GL'' 7 40)" and ?w = "sampleVault ''c'' (VaultDeposit ''GD'' 50 50)"
  have ids: "vx_vaultId ?v = 3" "vx_vaultId ?w = 3" "resynced (sampleVaultEnv, ?w) = None" "\<not> isCreation ?w"
    "usdcMove ?w = 50" "shareMove ?w = 50" "leaderMove ''GL'' ?w = 0"
    by (simp_all add: sampleVault_def resynced_def resyncs_def isCreation_def usdcMove_def shareMove_def leaderMove_def)
  have es: "effective vx_id (\<lambda>_ _. False) (\<lambda>_. False) sampleVaultRun = [] @ (sampleVaultEnv, ?v) # [(sampleVaultEnv, ?w)]"
    by (simp add: sampleVault_def sampleVaultEnv_def Let_def)
  have row: "map_of (vaults (fold (vaultEffect [] ''F'') ([] :: (vault_env \<times> vault_event) list) sampleVaults)) (vx_vaultId ?v)
      = Some ((createdRow 1 ''F'' (sampleVault ''a'' (VaultCreated ''GL'' ''v'')) ''GL'' ''v'')
        \<lparr>vr_totalUsdc := 100, vr_circulatingShares := 100, vr_leaderShares := 100\<rparr>)"
    by (simp add: sampleVaults_def emptyVaults_def ids)
  have res: "resynced (sampleVaultEnv, ?v) = Some \<lparr>oc_totalUsdc = 150, oc_circulatingShares = 150, oc_hwmNav = 1, oc_realizedPnl = 0,
       oc_leaderShares = 100, oc_paused = False\<rparr>"
    by (simp add: resynced_def resyncs_def sampleVault_def sampleVaultEnv_def)
  have quiet: "list_all (\<lambda>(y, w). vx_vaultId w = vx_vaultId ?v \<longrightarrow> \<not> isCreation w \<and> resynced (y, w) = None) [(sampleVaultEnv, ?w)]"
    using ids by simp
  from vault_row_since_resync [OF es row res quiet]
  show ?thesis by (simp add: ids createdRow_def del: runDeliveries_simps) blast
qed

theorem resync_counts_twice_witness:
  "\<exists>r. map_of (vaults (fold (vaultEffect [] ''F'') [(sampleVaultEnv, sampleVault ''b'' (VaultLeaderOpen ''GL'' 7 40)),
     (sampleVaultEnv, sampleVault ''c'' (VaultDeposit ''GD'' 50 50))] sampleVaults)) 3 = Some r \<and> vr_totalUsdc r = 100 + 2 * 50"
  by (rule resync_counts_twice [where r = "(createdRow 1 ''F'' (sampleVault ''a'' (VaultCreated ''GL'' ''v'')) ''GL'' ''v'')
        \<lparr>vr_totalUsdc := 100, vr_circulatingShares := 100, vr_leaderShares := 100\<rparr>"
      and k = "\<lparr>oc_totalUsdc = 150, oc_circulatingShares = 150, oc_hwmNav = 1, oc_realizedPnl = 0, oc_leaderShares = 100, oc_paused = False\<rparr>"])
    (simp_all add: sampleVaults_def emptyVaults_def sampleVault_def sampleVaultEnv_def)

theorem startup_rows_witness:
  "map_of (reconcileAllVaults sampleVaultEnv (vaults (pruneRetiredFactoryRows ''F'' sampleVaults))) 4 = None
   \<and> map_of (reconcileAllVaults sampleVaultEnv (vaults (pruneRetiredFactoryRows ''G'' sampleVaults))) 3 = None"
proof -
  have "trim ''F'' \<noteq> []" "trim ''G'' \<noteq> []" by code_simp+
  moreover have "distinct (map fst (vaults sampleVaults))" "\<not> hx_syncFails sampleVaultEnv"
    by (simp_all add: sampleVaults_def sampleVaultEnv_def)
  ultimately show ?thesis
    using startup_rows_live [of "''F''" sampleVaults sampleVaultEnv 4] startup_rows_live [of "''G''" sampleVaults sampleVaultEnv 3]
    by (simp add: sampleVaults_def createdRow_def)
qed

theorem factory_event_settles_witness:
  "handleVault [] ''F'' sampleVaultEnv False (sampleVault ''b'' (VaultPausedEv False True))
     (fst (handleVault [] ''F'' (sampleVaultEnv\<lparr>hx_failsAt := Some 2\<rparr>) False (sampleVault ''b'' (VaultPausedEv False True))
        \<lparr>st_raw = [], st_tables = emptyVaults, st_bus = []\<rparr>))
   = (fst (handleVault [] ''F'' (sampleVaultEnv\<lparr>hx_failsAt := Some 2\<rparr>) False (sampleVault ''b'' (VaultPausedEv False True))
        \<lparr>st_raw = [], st_tables = emptyVaults, st_bus = []\<rparr>), Inr ())"
  by (rule factory_event_settles)
    (simp_all add: handleVault_def transactional_def applyVault_def sampleVaultEnv_def)

end
