(* ===== verification/IndexerReferral.thy ===== *)
theory IndexerReferral
  imports IndexerTx
begin

text \<open>
  The referral contract in the indexer: the decoder (\<open>indexer/src/decoders/referral.ts\<close>) and the projections of its
  four events (\<open>handlers/referral.ts\<close>): the referrers with their totals, the bindings of referees, and the logs of
  recorded trades and claims.
\<close>

section \<open>Definitions: events\<close>

datatype referral_body =
    CodeCreated (rb_referrer: string) (rb_code: string)
  | ReferrerSet (rb_referee: string) (rb_referrer: string) (rb_code: string)
  | TradeRecorded (rb_referee: string) (rb_referrer: string) (rb_originalFee: int) (rb_discount: int) (rb_payout: int)
      (rb_volume: "int option")
  | ReferralClaimed (rb_referrer: string) (rb_amount: int)

record referral_event =
  rx_id :: string
  rx_contractId :: string
  rx_ledger :: int
  rx_ledgerCloseTs :: int
  rx_txHash :: string
  rx_body :: referral_body
  rx_rawXdr :: "(string list \<times> string) option"

definition referralTopicOf :: "referral_body \<Rightarrow> string" where
  "referralTopicOf b = (case b of CodeCreated _ _ \<Rightarrow> ''code_created'' | ReferrerSet _ _ _ \<Rightarrow> ''referrer_set''
     | TradeRecorded _ _ _ _ _ _ \<Rightarrow> ''trade_recorded'' | ReferralClaimed _ _ \<Rightarrow> ''claimed'')"

definition REFERRAL_TOPICS :: "string list" where
  "REFERRAL_TOPICS = [''code_created'', ''referrer_set'', ''trade_recorded'', ''claimed'']"

definition referralEnvelope :: "raw_event \<Rightarrow> referral_body \<Rightarrow> referral_event" where
  "referralEnvelope raw b = \<lparr>rx_id = re_id raw, rx_contractId = re_contractId raw, rx_ledger = re_ledger raw,
     rx_ledgerCloseTs = re_ledgerClosedAtMs raw div 1000, rx_txHash = re_txHash raw, rx_body = b, rx_rawXdr = None\<rparr>"

text \<open>A recorded trade has a sixth field, the volume, since the contract's first batch of changes.\<close>

definition decodeReferralBody :: "string \<Rightarrow> native list \<Rightarrow> (string + referral_body) option" where
  "decodeReferralBody topic v =
     (if topic = ''code_created'' then Some
        (str v 0 ''code_created.referrer'' (\<lambda>r. str v 1 ''code_created.code'' (\<lambda>c. Inr (CodeCreated r c))))
      else if topic = ''referrer_set'' then Some
        (str v 0 ''referrer_set.referee'' (\<lambda>e. str v 1 ''referrer_set.referrer'' (\<lambda>r. str v 2 ''referrer_set.code'' (\<lambda>c.
         Inr (ReferrerSet e r c)))))
      else if topic = ''trade_recorded'' then Some
        (str v 0 ''trade_recorded.referee'' (\<lambda>e. str v 1 ''trade_recorded.referrer'' (\<lambda>r.
         big v 2 ''trade_recorded.original_fee'' (\<lambda>f. big v 3 ''trade_recorded.discount'' (\<lambda>d.
         big v 4 ''trade_recorded.payout'' (\<lambda>p.
         if length v > 5 then big v 5 ''trade_recorded.volume'' (\<lambda>w. Inr (TradeRecorded e r f d p (Some w)))
         else Inr (TradeRecorded e r f d p None)))))))
      else if topic = ''claimed'' then Some
        (str v 0 ''claimed.referrer'' (\<lambda>r. big v 1 ''claimed.amount'' (\<lambda>a. Inr (ReferralClaimed r a))))
      else None)"

definition decodeReferralEvent :: "raw_event \<Rightarrow> string + referral_event option" where
  "decodeReferralEvent raw =
     reads (re_topics raw) (\<lambda>topics.
       case at_index topics 0 of
         NStr topic \<Rightarrow>
           if topic \<notin> set REFERRAL_TOPICS then Inr None
           else reads (re_value raw) (\<lambda>value.
             case decodeReferralBody topic (decodeEventValue value) of
               None \<Rightarrow> Inr None
             | Some r \<Rightarrow> map_sum id (\<lambda>b. Some (referralEnvelope raw b)) r)
       | _ \<Rightarrow> Inr None)"

section \<open>Definitions: tables\<close>

record referrer_row =
  rr_code :: string
  rr_createdAt :: int
  rr_referredCount :: int
  rr_totalVolume :: int
  rr_totalEarned :: int
  rr_claimable :: int
  rr_contractId :: string
  rr_updatedAt :: int

record binding_row =
  bn_referrer :: string
  bn_code :: string
  bn_boundAt :: int
  bn_txHash :: string
  bn_contractId :: string

record referral_trade_row =
  rt_referee :: string
  rt_referrer :: string
  rt_originalFee :: int
  rt_discount :: int
  rt_payout :: int
  rt_volume :: "int option"
  rt_ledger :: int
  rt_ts :: int
  rt_txHash :: string
  rt_contractId :: string

record referral_claim_row =
  rc_referrer :: string
  rc_amount :: int
  rc_ledger :: int
  rc_ts :: int
  rc_txHash :: string
  rc_contractId :: string

record referral_tables =
  referrers :: "(string, referrer_row) jmap"
  referralBindings :: "(string, binding_row) jmap"
  referralTrades :: "(string, referral_trade_row) jmap"
  referralClaims :: "(string, referral_claim_row) jmap"

section \<open>Definitions: projections\<close>

text \<open>A code created again keeps the totals of its referrer.\<close>

definition codeCreated :: "int \<Rightarrow> string \<Rightarrow> referral_event \<Rightarrow> string \<Rightarrow> string \<Rightarrow> referral_tables \<Rightarrow> referral_tables" where
  "codeCreated now contract e referrer code t =
     t\<lparr>referrers := (case map_of (referrers t) referrer of
        None \<Rightarrow> jset referrer \<lparr>rr_code = code, rr_createdAt = rx_ledgerCloseTs e, rr_referredCount = 0, rr_totalVolume = 0,
          rr_totalEarned = 0, rr_claimable = 0, rr_contractId = contract, rr_updatedAt = now\<rparr> (referrers t)
      | Some r \<Rightarrow> jset referrer (r\<lparr>rr_code := code, rr_contractId := contract, rr_updatedAt := now\<rparr>) (referrers t))\<rparr>"

text \<open>The first binding of a referee counts; later ones change nothing.\<close>

definition referrerSet :: "int \<Rightarrow> string \<Rightarrow> referral_event \<Rightarrow> string \<Rightarrow> string \<Rightarrow> string \<Rightarrow> referral_tables \<Rightarrow> referral_tables" where
  "referrerSet now contract e referee referrer code t =
     (if map_of (referralBindings t) referee \<noteq> None then t
      else t\<lparr>referralBindings := insert_new referee
          \<lparr>bn_referrer = referrer, bn_code = code, bn_boundAt = rx_ledgerCloseTs e, bn_txHash = rx_txHash e, bn_contractId = contract\<rparr>
          (referralBindings t),
        referrers := update_row referrer (\<lambda>r. r\<lparr>rr_referredCount := rr_referredCount r + 1, rr_updatedAt := now\<rparr>) (referrers t)\<rparr>)"

definition tradeRecorded :: "int \<Rightarrow> string \<Rightarrow> referral_event \<Rightarrow> string \<Rightarrow> string \<Rightarrow> int \<Rightarrow> int \<Rightarrow> int \<Rightarrow> int option \<Rightarrow> referral_tables \<Rightarrow> referral_tables" where
  "tradeRecorded now contract e referee referrer fee disc payout volume t =
     (if map_of (referralTrades t) (rx_id e) \<noteq> None then t
      else t\<lparr>referralTrades := insert_new (rx_id e)
          \<lparr>rt_referee = referee, rt_referrer = referrer, rt_originalFee = fee, rt_discount = disc, rt_payout = payout,
           rt_volume = volume, rt_ledger = rx_ledger e, rt_ts = rx_ledgerCloseTs e, rt_txHash = rx_txHash e, rt_contractId = contract\<rparr>
          (referralTrades t),
        referrers := update_row referrer (\<lambda>r. r\<lparr>rr_totalVolume := rr_totalVolume r + fee, rr_totalEarned := rr_totalEarned r + payout,
          rr_claimable := rr_claimable r + payout, rr_updatedAt := now\<rparr>) (referrers t)\<rparr>)"

definition referralClaimed :: "int \<Rightarrow> string \<Rightarrow> referral_event \<Rightarrow> string \<Rightarrow> int \<Rightarrow> referral_tables \<Rightarrow> referral_tables" where
  "referralClaimed now contract e referrer amount t =
     (if map_of (referralClaims t) (rx_id e) \<noteq> None then t
      else t\<lparr>referralClaims := insert_new (rx_id e)
          \<lparr>rc_referrer = referrer, rc_amount = amount, rc_ledger = rx_ledger e, rc_ts = rx_ledgerCloseTs e, rc_txHash = rx_txHash e,
           rc_contractId = contract\<rparr> (referralClaims t),
        referrers := update_row referrer (\<lambda>r. r\<lparr>rr_claimable := 0, rr_updatedAt := now\<rparr>) (referrers t)\<rparr>)"

definition applyReferral :: "string \<Rightarrow> 'x tx_faults_scheme \<Rightarrow> referral_event \<Rightarrow> referral_tables \<Rightarrow> string + referral_tables" where
  "applyReferral contract x e t = Inr (case rx_body e of
      CodeCreated r c \<Rightarrow> codeCreated (hx_now x) contract e r c t
    | ReferrerSet ee r c \<Rightarrow> referrerSet (hx_now x) contract e ee r c t
    | TradeRecorded ee r f d p w \<Rightarrow> tradeRecorded (hx_now x) contract e ee r f d p w t
    | ReferralClaimed r a \<Rightarrow> referralClaimed (hx_now x) contract e r a t)"

definition handleReferral :: "string \<Rightarrow> 'x tx_faults_scheme \<Rightarrow> bool \<Rightarrow> referral_event
    \<Rightarrow> (referral_event, referral_tables) store \<Rightarrow> (referral_event, referral_tables) store \<times> (string + unit)" where
  "handleReferral contract = transactional rx_id (applyReferral contract) (\<lambda>x e t. t)"

interpretation referral: idempotent_handler "\<lambda>x. handleReferral contract x False" rx_id "archivedIn rx_id" for contract
  unfolding handleReferral_def by (rule tx.idempotent_handler_axioms)

section \<open>Lemmas: the books of a referrer\<close>

text \<open>The referrer an event needs to be known, and the part of the balance not claimed yet.\<close>

definition needs :: "referral_event \<Rightarrow> string option" where
  "needs e = (case rx_body e of ReferrerSet _ r _ \<Rightarrow> Some r | TradeRecorded _ r _ _ _ _ \<Rightarrow> Some r | _ \<Rightarrow> None)"

definition creates :: "referral_event \<Rightarrow> string option" where
  "creates e = (case rx_body e of CodeCreated r _ \<Rightarrow> Some r | _ \<Rightarrow> None)"

fun unclaimed :: "string \<Rightarrow> referral_event list \<Rightarrow> int \<Rightarrow> int" where
  "unclaimed r [] acc = acc"
| "unclaimed r (e # es) acc = unclaimed r es (case rx_body e of
      TradeRecorded _ q _ _ p _ \<Rightarrow> if q = r then acc + p else acc
    | ReferralClaimed q _ \<Rightarrow> if q = r then 0 else acc
    | _ \<Rightarrow> acc)"

lemma unclaimed_snoc [simp]:
  "unclaimed r (es @ [e]) acc = (case rx_body e of
      TradeRecorded _ q _ _ p _ \<Rightarrow> if q = r then unclaimed r es acc + p else unclaimed r es acc
    | ReferralClaimed q _ \<Rightarrow> if q = r then 0 else unclaimed r es acc
    | _ \<Rightarrow> unclaimed r es acc)"
  by (induction es arbitrary: acc) (auto split: referral_body.split)

text \<open>The trades and the bindings of one referrer.\<close>

definition tradesOf :: "string \<Rightarrow> referral_tables \<Rightarrow> referral_trade_row list" where
  "tradesOf r t = filter (\<lambda>row. rt_referrer row = r) (map snd (referralTrades t))"

definition bindingsOf :: "string \<Rightarrow> referral_tables \<Rightarrow> binding_row list" where
  "bindingsOf r t = filter (\<lambda>row. bn_referrer row = r) (map snd (referralBindings t))"

definition balanced :: "referral_event list \<Rightarrow> referral_tables \<Rightarrow> bool" where
  "balanced es t \<longleftrightarrow>
     (\<forall>r. case map_of (referrers t) r of
        None \<Rightarrow> tradesOf r t = [] \<and> bindingsOf r t = [] \<and> unclaimed r es 0 = 0
      | Some row \<Rightarrow> rr_referredCount row = int (length (bindingsOf r t))
          \<and> rr_totalEarned row = sum_list (map rt_payout (tradesOf r t))
          \<and> rr_totalVolume row = sum_list (map rt_originalFee (tradesOf r t))
          \<and> rr_claimable row = unclaimed r es 0)"

text \<open>The ids in the logs are those of applied events; a needed referrer has been created.\<close>

definition logged :: "referral_event list \<Rightarrow> referral_tables \<Rightarrow> bool" where
  "logged es t \<longleftrightarrow> fst ` set (referralTrades t) \<union> fst ` set (referralClaims t) \<subseteq> rx_id ` set es
     \<and> dom (map_of (referrers t)) = {r. \<exists>e \<in> set es. creates e = Some r}"

abbreviation referralEffect :: "string \<Rightarrow> 'x tx_faults_scheme \<times> referral_event \<Rightarrow> referral_tables \<Rightarrow> referral_tables" where
  "referralEffect contract \<equiv> effect (applyReferral contract) (\<lambda>x e t. t)"

lemma insert_new_fresh: "map_of m k = None \<Longrightarrow> insert_new k v m = m @ [(k, v)]"
  by (simp add: insert_new_def)

lemma logged_fresh:
  assumes "logged es t" "rx_id e \<notin> rx_id ` set es"
  shows "map_of (referralTrades t) (rx_id e) = None" "map_of (referralClaims t) (rx_id e) = None"
  using assms by (auto simp: logged_def map_of_eq_None_iff)

lemma dom_update_row [simp]: "dom (map_of (update_row k f m)) = dom (map_of m)"
  by (auto simp: dom_def map_of_update_row split: if_split_asm)

lemma logged_step:
  assumes "logged es t" "rx_id e \<notin> rx_id ` set es"
  shows "logged (es @ [e]) (referralEffect contract (x, e) t)"
proof -
  note fresh = logged_fresh [OF assms]
  have d: "dom (map_of (referrers (referralEffect contract (x, e) t)))
      = dom (map_of (referrers t)) \<union> {r. creates e = Some r}"
    by (cases "rx_body e")
      (auto simp: effect_def applyReferral_def codeCreated_def referrerSet_def tradeRecorded_def referralClaimed_def creates_def
        split: option.split)
  have sub: "fst ` set (referralTrades (referralEffect contract (x, e) t)) \<union> fst ` set (referralClaims (referralEffect contract (x, e) t))
      \<subseteq> insert (rx_id e) (fst ` set (referralTrades t) \<union> fst ` set (referralClaims t))"
    using fresh by (cases "rx_body e")
      (auto simp: effect_def applyReferral_def codeCreated_def referrerSet_def tradeRecorded_def referralClaimed_def insert_new_fresh)
  have "insert (rx_id e) (fst ` set (referralTrades t) \<union> fst ` set (referralClaims t)) \<subseteq> rx_id ` set (es @ [e])"
    using assms(1) by (auto simp: logged_def)
  with sub have "fst ` set (referralTrades (referralEffect contract (x, e) t)) \<union> fst ` set (referralClaims (referralEffect contract (x, e) t))
      \<subseteq> rx_id ` set (es @ [e])" by (rule subset_trans)
  moreover have "dom (map_of (referrers (referralEffect contract (x, e) t))) = {r. \<exists>e \<in> set (es @ [e]). creates e = Some r}"
    using assms(1) unfolding d logged_def by auto
  ultimately show ?thesis by (simp only: logged_def simp_thms)
qed

lemma balanced_step:
  assumes bal: "balanced es t" and log: "logged es t" and new: "rx_id e \<notin> rx_id ` set es"
    and known: "\<And>r. needs e = Some r \<Longrightarrow> map_of (referrers t) r \<noteq> None"
  shows "balanced (es @ [e]) (referralEffect contract (x, e) t)"
proof -
  note fresh = logged_fresh [OF log new]
  have old: "case map_of (referrers t) r of
        None \<Rightarrow> tradesOf r t = [] \<and> bindingsOf r t = [] \<and> unclaimed r es 0 = 0
      | Some row \<Rightarrow> rr_referredCount row = int (length (bindingsOf r t))
          \<and> rr_totalEarned row = sum_list (map rt_payout (tradesOf r t))
          \<and> rr_totalVolume row = sum_list (map rt_originalFee (tradesOf r t))
          \<and> rr_claimable row = unclaimed r es 0" for r
    using bal by (simp add: balanced_def)
  show ?thesis
    unfolding balanced_def
  proof
    fix q
    let ?t = "referralEffect contract (x, e) t"
    note defs = effect_def applyReferral_def codeCreated_def referrerSet_def tradeRecorded_def referralClaimed_def needs_def
      tradesOf_def bindingsOf_def insert_new_fresh map_of_update_row fresh
    show "case map_of (referrers ?t) q of
        None \<Rightarrow> tradesOf q ?t = [] \<and> bindingsOf q ?t = [] \<and> unclaimed q (es @ [e]) 0 = 0
      | Some row \<Rightarrow> rr_referredCount row = int (length (bindingsOf q ?t))
          \<and> rr_totalEarned row = sum_list (map rt_payout (tradesOf q ?t))
          \<and> rr_totalVolume row = sum_list (map rt_originalFee (tradesOf q ?t))
          \<and> rr_claimable row = unclaimed q (es @ [e]) 0"
      using old [of q] known
      by (cases "rx_body e"; cases "map_of (referrers t) q") (auto simp: defs split: option.split)
  qed
qed

text \<open>A history in which codes are created before they are used.\<close>

definition codesFirst :: "referral_event list \<Rightarrow> bool" where
  "codesFirst es \<longleftrightarrow> (\<forall>k < length es. \<forall>r. needs (es ! k) = Some r \<longrightarrow> (\<exists>j < k. creates (es ! j) = Some r))"

lemma codesFirst_snoc: "codesFirst (es @ [e]) \<Longrightarrow> codesFirst es \<and> (\<forall>r. needs e = Some r \<longrightarrow> (\<exists>f \<in> set es. creates f = Some r))"
  unfolding codesFirst_def
proof (intro conjI allI impI)
  assume a: "\<forall>k < length (es @ [e]). \<forall>r. needs ((es @ [e]) ! k) = Some r \<longrightarrow> (\<exists>j < k. creates ((es @ [e]) ! j) = Some r)"
  show "\<exists>j < k. creates (es ! j) = Some r" if "k < length es" "needs (es ! k) = Some r" for k r
    using a [rule_format, of k r] that by (fastforce simp: nth_append)
  show "\<exists>f \<in> set es. creates f = Some r" if "needs e = Some r" for r
    using a [rule_format, of "length es" r] that by (fastforce simp: nth_append)
qed

definition emptyReferrals :: referral_tables where
  "emptyReferrals = \<lparr>referrers = [], referralBindings = [], referralTrades = [], referralClaims = []\<rparr>"

lemma balanced_fold:
  "distinct (map (\<lambda>p. rx_id (snd p)) ps) \<Longrightarrow> codesFirst (map snd ps) \<Longrightarrow>
     balanced (map snd ps) (fold (referralEffect contract) ps emptyReferrals)
     \<and> logged (map snd ps) (fold (referralEffect contract) ps emptyReferrals)"
proof (induction ps rule: rev_induct)
  case (snoc p ps)
  obtain x e where p: "p = (x, e)" by fastforce
  let ?t = "fold (referralEffect contract) ps emptyReferrals"
  have first: "codesFirst (map snd ps)" "\<forall>r. needs e = Some r \<longrightarrow> (\<exists>f \<in> set (map snd ps). creates f = Some r)"
    using codesFirst_snoc [of "map snd ps" e] snoc.prems(2) p by simp_all
  then have IH: "balanced (map snd ps) ?t" "logged (map snd ps) ?t" using snoc by simp_all
  have new: "rx_id e \<notin> rx_id ` set (map snd ps)" using snoc.prems(1) p by (auto simp: image_image)
  have known: "map_of (referrers ?t) r \<noteq> None" if "needs e = Some r" for r
    using first(2) IH(2) that by (auto simp: logged_def dom_def)
  show ?case
    using balanced_step [OF IH new known, where contract = contract and x = x] logged_step [OF IH(2) new, of contract x]
    by (simp add: p)
qed (simp add: balanced_def logged_def emptyReferrals_def tradesOf_def bindingsOf_def)

abbreviation referralRun :: "string \<Rightarrow> ('x tx_faults_scheme \<times> referral_event) list \<Rightarrow> referral_tables" where
  "referralRun contract ds \<equiv> st_tables (runDeliveries (\<lambda>x. handleReferral contract x False) ds
     \<lparr>st_raw = [], st_tables = emptyReferrals, st_bus = []\<rparr>)"

abbreviation appliedReferrals :: "('x tx_faults_scheme \<times> referral_event) list \<Rightarrow> referral_event list" where
  "appliedReferrals ds \<equiv> map snd (effective rx_id (\<lambda>_ _. False) (\<lambda>_. False) ds)"

section \<open>Properties\<close>


text \<open>The projected volume is the fees: whatever volumes the events carry, a referrer's total volume is the sum of the
  original fees of its trades.\<close>

theorem referral_volume_is_fees:
  "\<exists>row. map_of (referrers (fold (referralEffect contract)
       [(x, \<lparr>rx_id = ''1'', rx_contractId = c, rx_ledger = l, rx_ledgerCloseTs = s, rx_txHash = h, rx_body = CodeCreated r code, rx_rawXdr = None\<rparr>),
        (y, \<lparr>rx_id = ''2'', rx_contractId = c, rx_ledger = l, rx_ledgerCloseTs = s, rx_txHash = h,
           rx_body = TradeRecorded ee r fee disc payout (Some volume), rx_rawXdr = None\<rparr>)] emptyReferrals)) r = Some row
     \<and> rr_totalVolume row = fee"
  by (simp add: effect_def applyReferral_def codeCreated_def tradeRecorded_def emptyReferrals_def map_of_update_row)

text \<open>The payload tuples the contract publishes.\<close>

definition emittedReferral :: "referral_body \<Rightarrow> native list" where
  "emittedReferral b = (case b of
      CodeCreated r c \<Rightarrow> [NStr r, NStr c]
    | ReferrerSet e r c \<Rightarrow> [NStr e, NStr r, NStr c]
    | TradeRecorded e r f d p w \<Rightarrow> [NStr e, NStr r, NBig f, NBig d, NBig p] @ (case w of None \<Rightarrow> [] | Some n \<Rightarrow> [NBig n])
    | ReferralClaimed r a \<Rightarrow> [NStr r, NBig a])"

text \<open>Decoding inverts what the referral contract emits, in both shapes of a recorded trade (five fields, or six
  with the volume).\<close>

theorem decode_referral_emitted:
  assumes "re_topics raw = Inr [NStr (referralTopicOf b)]" "re_value raw = Inr (NArr (emittedReferral b))"
  shows "decodeReferralEvent raw = Inr (Some (referralEnvelope raw b))"
  using assms
  by (cases b) (simp_all add: decodeReferralEvent_def decodeReferralBody_def emittedReferral_def referralTopicOf_def REFERRAL_TOPICS_def
      split: option.split)

section \<open>Witnesses\<close>

definition sampleReferral :: "string \<Rightarrow> referral_body \<Rightarrow> referral_event" where
  "sampleReferral i b = \<lparr>rx_id = i, rx_contractId = ''R'', rx_ledger = 5, rx_ledgerCloseTs = 50, rx_txHash = ''t'', rx_body = b,
     rx_rawXdr = None\<rparr>"

definition quietTx :: tx_faults where
  "quietTx = \<lparr>hx_beginFails = False, hx_failsAt = None, hx_commitLost = False, hx_archiveFails = False, hx_now = 1\<rparr>"

abbreviation sampleReferrals :: "(tx_faults \<times> referral_event) list" where
  "sampleReferrals \<equiv> [(quietTx, sampleReferral ''1'' (CodeCreated ''GA'' ''abc'')),
     (quietTx\<lparr>hx_commitLost := True\<rparr>, sampleReferral ''2'' (TradeRecorded ''GB'' ''GA'' 100 5 10 None)),
     (quietTx, sampleReferral ''2'' (TradeRecorded ''GB'' ''GA'' 100 5 10 None))]"


definition sampleReferralRaw :: raw_event where
  "sampleReferralRaw = \<lparr>re_id = ''8-1'', re_contractId = ''R'', re_ledger = 8, re_ledgerClosedAtMs = 9000, re_txHash = ''tx'',
     re_topics = Inr [NStr ''trade_recorded''], re_value = Inr (NArr [NStr ''GB'', NStr ''GA'', NBig 100, NBig 5, NBig 10, NBig 9000]), re_xdr = None\<rparr>"

theorem decode_referral_witness:
  "decodeReferralEvent sampleReferralRaw = Inr (Some (referralEnvelope sampleReferralRaw (TradeRecorded ''GB'' ''GA'' 100 5 10 (Some 9000))))"
  by (rule decode_referral_emitted) (simp_all add: sampleReferralRaw_def emittedReferral_def referralTopicOf_def)

end
