(* ===== verification/IndexerLpVault.thy ===== *)
theory IndexerLpVault
  imports IndexerTx JsString
begin

text \<open>
  The LP vault in the indexer: the positional decoder (\<open>indexer/src/decoders/lpVault.ts\<close>) and the typed rows of its
  money flows (\<open>handlers/lpVault.ts\<close>). A decoded event keeps its payload as named fields; a typed row is built from
  them by checked reads that throw on a value of the wrong type.
\<close>

section \<open>Definitions: decoding\<close>

definition LP_VAULT_TOPIC_FIELDS :: "(string \<times> string list) list" where
  "LP_VAULT_TOPIC_FIELDS =
     [(''initialized'', [''admin'', ''market'', ''usdcToken'', ''noeToken'']),
      (''deposit'', [''depositor'', ''usdcAmount'', ''noeMinted'', ''fee'']),
      (''withdraw'', [''withdrawer'', ''noeBurned'', ''usdcOut'', ''fee'']),
      (''payout_shortfall'', [''trader'', ''pnl'', ''paid'', ''shortfall'']),
      (''pnl_settled'', [''pnl'']),
      (''loss_received'', [''amount'']),
      (''bounty_paid'', [''keeper'', ''amount'', ''paid'']),
      (''protocol_fee_routed'', [''amount'', ''toBuffer'', ''overflow'']),
      (''exposure_synced'', [''assetUnrealizedPnl'', ''totalUnrealizedPnl'', ''release'']),
      (''market_updated'', [''oldMarket'', ''newMarket'']),
      (''deposit_fee_updated'', [''feeBps'']),
      (''withdraw_fee_updated'', [''feeBps'']),
      (''deposit_cap_set'', [''cap'']),
      (''withdraw_cooldown_set'', [''seconds'']),
      (''buffer_target_set'', [''bps'']),
      (''buffer_seeded'', [''amount'', ''toReserve'']),
      (''buffer_funded'', [''amount'', ''toReserve'']),
      (''shortfall_repaid'', [''trader'', ''paid'', ''remaining'']),
      (''buffer_drawn'', [''amount'', ''covered'']),
      (''buffer_paid'', [''to'', ''amount'', ''paid'']),
      (''asset_cap_abs_set'', [''asset'', ''maxNotional'']),
      (''skew_cap_set'', [''asset'', ''bps'']),
      (''paused'', []),
      (''unpaused'', []),
      (''admin_updated'', [''oldAdmin'', ''newAdmin'']),
      (''recovery_init'', [''recipient'']),
      (''recovery_proposed'', [''amount'', ''executeAfter'']),
      (''recovery_executed'', [''paid'', ''recipient'']),
      (''recovery_cancelled'', [])]"

definition LP_VAULT_TOPICS :: "string list" where
  "LP_VAULT_TOPICS = map fst LP_VAULT_TOPIC_FIELDS"

text \<open>\<open>lv_fields\<close> are the properties besides the envelope; a property that was never set reads \<open>undefined\<close>.\<close>

record lp_event =
  lv_id :: string
  lv_contractId :: string
  lv_topic :: string
  lv_ledger :: int
  lv_ledgerCloseTs :: int
  lv_txHash :: string
  lv_fields :: "(string, native) jmap"
  lv_rawXdr :: "(string list \<times> string) option"

definition lpField :: "lp_event \<Rightarrow> string \<Rightarrow> native" where
  "lpField e name = jget_or (lv_fields e) name NOther"

definition nullish :: "native \<Rightarrow> bool" where
  "nullish v \<longleftrightarrow> v = NNull \<or> v = NOther"

fun setFields :: "string list \<Rightarrow> nat \<Rightarrow> native list \<Rightarrow> (string, native) jmap \<Rightarrow> (string, native) jmap" where
  "setFields [] i values fs = fs"
| "setFields (name # names) i values fs = setFields names (i + 1) values (jset name (at_index values i) fs)"

definition extraName :: "nat \<Rightarrow> string" where
  "extraName k = ''extra'' @ show_nat k"

text \<open>The values past the known names, numbered from 0.\<close>

fun setExtras :: "nat \<Rightarrow> native list \<Rightarrow> (string, native) jmap \<Rightarrow> (string, native) jmap" where
  "setExtras k [] fs = fs"
| "setExtras k (v # vs) fs = setExtras (k + 1) vs (if nullish v then fs else jset (extraName k) v fs)"

definition decodeLpVaultEvent :: "raw_event \<Rightarrow> string + lp_event option" where
  "decodeLpVaultEvent raw =
     reads (re_topics raw) (\<lambda>topics.
       case at_index topics 0 of
         NStr topic \<Rightarrow>
           (case map_of LP_VAULT_TOPIC_FIELDS topic of
              None \<Rightarrow> Inr None
            | Some names \<Rightarrow> reads (re_value raw) (\<lambda>value.
                let values = decodeEventValue value;
                    asset = (case (topic = ''exposure_synced'', at_index topics 1) of (True, NStr a) \<Rightarrow> [(''asset'', NStr a)] | _ \<Rightarrow> []);
                    fs = setExtras 0 (drop (length names) values) (setFields names 0 values asset)
                in Inr (Some \<lparr>lv_id = re_id raw, lv_contractId = re_contractId raw, lv_topic = topic, lv_ledger = re_ledger raw,
                     lv_ledgerCloseTs = re_ledgerClosedAtMs raw div 1000, lv_txHash = re_txHash raw, lv_fields = fs, lv_rawXdr = None\<rparr>)))
       | _ \<Rightarrow> Inr None)"

section \<open>Definitions: typed rows\<close>

definition show_int :: "int \<Rightarrow> string" where
  "show_int n = (if n < 0 then ''-'' @ show_nat (nat (- n)) else show_nat (nat n))"

fun lpText :: "native \<Rightarrow> string \<Rightarrow> string + string" where
  "lpText (NBig n) label = Inr (show_int n)"
| "lpText (NNum n) label = Inr (show_int n)"
| "lpText (NStr s) label = Inr s"
| "lpText _ label = Inl (''Expected a numeric or string value for '' @ label)"

fun lpAddr :: "native \<Rightarrow> string \<Rightarrow> string + string" where
  "lpAddr (NStr s) label = (if s = [] then Inl (''Expected an address string for '' @ label) else Inr s)"
| "lpAddr _ label = Inl (''Expected an address string for '' @ label)"

record lp_flow_envelope =
  fe_ledger :: int
  fe_ts :: int
  fe_txHash :: string
  fe_contractId :: string

datatype lp_row =
    LpDeposit string string string string lp_flow_envelope
  | LpWithdraw string string string string lp_flow_envelope
  | LpPnl string lp_flow_envelope
  | LpBufferFlow string string string "string option" lp_flow_envelope

definition flowEnvelope :: "lp_event \<Rightarrow> lp_flow_envelope" where
  "flowEnvelope e = \<lparr>fe_ledger = lv_ledger e, fe_ts = lv_ledgerCloseTs e, fe_txHash = lv_txHash e, fe_contractId = lv_contractId e\<rparr>"

definition bufferRow :: "lp_event \<Rightarrow> string + lp_row" where
  "bufferRow e =
     (let topic = lv_topic e; label = (\<lambda>f. ''lp_vault.'' @ topic @ ''.'' @ f);
          read = (\<lambda>f. lpText (lpField e f) (label f))
      in reads (if topic = ''buffer_drawn'' then read ''covered'' else if topic = ''buffer_paid'' then read ''paid'' else read ''toReserve'') (\<lambda>secondary.
         reads (if topic = ''buffer_paid'' then map_sum id Some (lpAddr (lpField e ''to'') (label ''to'')) else Inr None) (\<lambda>counterparty.
         reads (read ''amount'') (\<lambda>amount. Inr (LpBufferFlow topic amount secondary counterparty (flowEnvelope e))))))"

text \<open>The row of an event, none for the topics that are only archived.\<close>

definition typedRow :: "lp_event \<Rightarrow> string + lp_row option" where
  "typedRow e =
     (let topic = lv_topic e; read = (\<lambda>f. lpText (lpField e f) (''lp_vault.'' @ topic @ ''.'' @ f));
          who = (\<lambda>f. lpAddr (lpField e f) (''lp_vault.'' @ topic @ ''.'' @ f)); env = flowEnvelope e
      in if topic = ''deposit'' then
           reads (who ''depositor'') (\<lambda>d. reads (read ''usdcAmount'') (\<lambda>u. reads (read ''noeMinted'') (\<lambda>n. reads (read ''fee'') (\<lambda>f.
             Inr (Some (LpDeposit d u n f env))))))
         else if topic = ''withdraw'' then
           reads (who ''withdrawer'') (\<lambda>d. reads (read ''noeBurned'') (\<lambda>n. reads (read ''usdcOut'') (\<lambda>u. reads (read ''fee'') (\<lambda>f.
             Inr (Some (LpWithdraw d n u f env))))))
         else if topic = ''pnl_settled'' then reads (read ''pnl'') (\<lambda>p. Inr (Some (LpPnl p env)))
         else if topic \<in> {''buffer_seeded'', ''buffer_funded'', ''buffer_drawn'', ''buffer_paid''} then map_sum id Some (bufferRow e)
         else Inr None)"

record lp_tables =
  lpDeposits :: "(string, lp_row) jmap"
  lpWithdraws :: "(string, lp_row) jmap"
  lpPnlSettlements :: "(string, lp_row) jmap"
  lpBufferFlows :: "(string, lp_row) jmap"

definition insertLpRow :: "string \<Rightarrow> lp_row \<Rightarrow> lp_tables \<Rightarrow> lp_tables" where
  "insertLpRow i row t = (case row of
      LpDeposit _ _ _ _ _ \<Rightarrow> t\<lparr>lpDeposits := insert_new i row (lpDeposits t)\<rparr>
    | LpWithdraw _ _ _ _ _ \<Rightarrow> t\<lparr>lpWithdraws := insert_new i row (lpWithdraws t)\<rparr>
    | LpPnl _ _ \<Rightarrow> t\<lparr>lpPnlSettlements := insert_new i row (lpPnlSettlements t)\<rparr>
    | LpBufferFlow _ _ _ _ _ \<Rightarrow> t\<lparr>lpBufferFlows := insert_new i row (lpBufferFlows t)\<rparr>)"

definition logTyped :: "'x tx_faults_scheme \<Rightarrow> lp_event \<Rightarrow> lp_tables \<Rightarrow> string + lp_tables" where
  "logTyped x e t = map_sum id (\<lambda>r. case r of None \<Rightarrow> t | Some row \<Rightarrow> insertLpRow (lv_id e) row t) (typedRow e)"

definition handleLpVault :: "'x tx_faults_scheme \<Rightarrow> bool \<Rightarrow> lp_event
    \<Rightarrow> (lp_event, lp_tables) store \<Rightarrow> (lp_event, lp_tables) store \<times> (string + unit)" where
  "handleLpVault = transactional lv_id logTyped (\<lambda>x e t. t)"

interpretation lp: idempotent_handler "\<lambda>x. handleLpVault x False" lv_id "archivedIn lv_id"
  unfolding handleLpVault_def by (rule tx.idempotent_handler_axioms)

section \<open>Lemmas\<close>

lemma extraName_inj: "extraName i = extraName j \<longleftrightarrow> i = j"
  unfolding extraName_def by (metis parse_show_nat same_append_eq)

definition plainNames :: "string list \<Rightarrow> bool" where
  "plainNames ns \<longleftrightarrow> distinct ns \<and> list_all (\<lambda>n. \<not> prefix ''extra'' n) ns"

lemma field_table: "list_all (\<lambda>p. plainNames (snd p)) LP_VAULT_TOPIC_FIELDS"
  unfolding LP_VAULT_TOPIC_FIELDS_def by (simp add: plainNames_def)

lemma field_names:
  assumes "map_of LP_VAULT_TOPIC_FIELDS topic = Some names"
  shows "distinct names \<and> (\<forall>n \<in> set names. \<not> prefix ''extra'' n)"
proof -
  have "plainNames names" using field_table map_of_SomeD [OF assms] unfolding list_all_iff by force
  then show ?thesis by (simp add: plainNames_def list_all_iff)
qed

lemma starts_extraName: "prefix ''extra'' (extraName k)"
  by (simp add: extraName_def)

lemma setFields_other: "n \<notin> set names \<Longrightarrow> map_of (setFields names i values fs) n = map_of fs n"
  by (induction names arbitrary: i fs) auto

lemma setFields_nth:
  "distinct names \<Longrightarrow> k < length names \<Longrightarrow> map_of (setFields names i values fs) (names ! k) = Some (at_index values (i + k))"
proof (induction names arbitrary: i fs k)
  case (Cons name names)
  then show ?case by (cases k) (simp_all add: setFields_other)
qed simp

lemma setExtras_other: "\<forall>j. n \<noteq> extraName j \<Longrightarrow> map_of (setExtras k vs fs) n = map_of fs n"
  by (induction vs arbitrary: k fs) auto

lemma setExtras_before: "j < k \<Longrightarrow> map_of (setExtras k vs fs) (extraName j) = map_of fs (extraName j)"
  by (induction vs arbitrary: k fs) (auto simp: extraName_inj)

lemma setExtras_nth:
  "j < length vs \<Longrightarrow> \<not> nullish (vs ! j) \<Longrightarrow> map_of (setExtras k vs fs) (extraName (k + j)) = Some (vs ! j)"
proof (induction vs arbitrary: k fs j)
  case (Cons v vs)
  show ?case
  proof (cases j)
    case 0
    then show ?thesis using Cons.prems setExtras_before [of k "k + 1"] by simp
  next
    case (Suc l)
    then show ?thesis using Cons.IH [of l "k + 1"] Cons.prems by simp
  qed
qed simp

lemma logTyped_rejects: "(\<exists>err. logTyped x e t = Inl err) \<longleftrightarrow> (\<exists>err. typedRow e = Inl err)"
  by (cases "typedRow e") (auto simp: logTyped_def)

definition lpRows :: "lp_tables \<Rightarrow> (string \<times> lp_row) set" where
  "lpRows t = set (lpDeposits t) \<union> set (lpWithdraws t) \<union> set (lpPnlSettlements t) \<union> set (lpBufferFlows t)"

lemma lpRows_insert:
  assumes "i \<notin> fst ` lpRows t"
  shows "lpRows (insertLpRow i row t) = insert (i, row) (lpRows t)"
proof -
  have "map_of (lpDeposits t) i = None" "map_of (lpWithdraws t) i = None" "map_of (lpPnlSettlements t) i = None"
    "map_of (lpBufferFlows t) i = None"
    using assms by (auto simp: lpRows_def map_of_eq_None_iff image_iff)
  then show ?thesis by (cases row) (auto simp: lpRows_def insertLpRow_def insert_new_def)
qed

abbreviation lpRejects :: "'x tx_faults_scheme \<Rightarrow> lp_event \<Rightarrow> bool" where
  "lpRejects x e \<equiv> \<exists>err. typedRow e = Inl err"

lemma lpRows_fold:
  assumes "distinct (map (\<lambda>p. lv_id (snd p)) ps)" "fst ` lpRows t \<inter> lv_id ` snd ` set ps = {}"
  shows "lpRows (fold (effect logTyped (\<lambda>x e t. t)) ps t)
     = lpRows t \<union> {(lv_id e, row) | e row. e \<in> snd ` set ps \<and> typedRow e = Inr (Some row)}"
  using assms
proof (induction ps arbitrary: t)
  case (Cons p ps)
  obtain x e where p: "p = (x, e)" by fastforce
  let ?t = "effect logTyped (\<lambda>x e t. t) (x, e) t"
  have fresh: "lv_id e \<notin> fst ` lpRows t" using Cons.prems(2) p by auto
  have step: "lpRows ?t = lpRows t \<union> {(lv_id e, row) | row. typedRow e = Inr (Some row)}"
  proof (cases "typedRow e")
    case (Inr r)
    then show ?thesis using lpRows_insert [OF fresh] by (cases r) (auto simp: effect_def logTyped_def)
  qed (simp add: effect_def logTyped_def)
  have "fst ` lpRows ?t \<inter> lv_id ` snd ` set ps = {}"
    using Cons.prems p unfolding step by (force simp: image_iff)
  then have "lpRows (fold (effect logTyped (\<lambda>x e t. t)) ps ?t)
      = lpRows t \<union> {(lv_id e, row) | row. typedRow e = Inr (Some row)} \<union> {(lv_id e, row) | e row. e \<in> snd ` set ps \<and> typedRow e = Inr (Some row)}"
    using Cons.IH [of ?t] Cons.prems(1) unfolding step by simp
  also have "\<dots> = lpRows t \<union> {(lv_id e, row) | e row. e \<in> snd ` set (p # ps) \<and> typedRow e = Inr (Some row)}"
    by (auto simp: p)
  finally show ?case by (simp add: p)
qed auto

section \<open>Properties\<close>

text \<open>Decoding an LP vault event loses nothing: every value of the payload that is not null is a field of the decoded
  event, under its known name by position, or as \<open>extraN\<close> when the contract appended it.\<close>

theorem lp_decode_lossless:
  assumes "decodeLpVaultEvent raw = Inr (Some e)" "re_value raw = Inr value" "i < length (decodeEventValue value)"
    and "\<not> nullish (decodeEventValue value ! i)"
  shows "\<exists>names. map_of LP_VAULT_TOPIC_FIELDS (lv_topic e) = Some names
     \<and> lpField e (if i < length names then names ! i else extraName (i - length names)) = decodeEventValue value ! i"
proof -
  let ?vs = "decodeEventValue value"
  from assms(1,2) obtain names asset where names: "map_of LP_VAULT_TOPIC_FIELDS (lv_topic e) = Some names"
    and fs: "lv_fields e = setExtras 0 (drop (length names) ?vs) (setFields names 0 ?vs asset)"
    by (auto simp: decodeLpVaultEvent_def reads_def Let_def split: sum.splits native.splits option.splits)
  show ?thesis
  proof (cases "i < length names")
    case True
    have "names ! i \<in> set names" using True by simp
    then have "\<forall>j. names ! i \<noteq> extraName j" using field_names [OF names] starts_extraName by metis
    then show ?thesis
      using True assms(3) names field_names [OF names] setFields_nth [of names i 0 ?vs asset]
      by (simp add: lpField_def jget_or_def fs setExtras_other at_index_def)
  next
    case False
    then have "drop (length names) ?vs ! (i - length names) = ?vs ! i" using assms(3) by simp
    then show ?thesis
      using False assms(3,4) names setExtras_nth [of "i - length names" "drop (length names) ?vs" 0]
      by (simp add: lpField_def jget_or_def fs)
  qed
qed

text \<open>The typed tables hold exactly the money flows: after any deliveries and faults their rows are those of the
  applied events, one per event id, and an event whose payload has the wrong types leaves no row.\<close>

theorem lp_rows_exact:
  "let es = map snd (effective lv_id lpRejects (\<lambda>_. False) ds);
       t = st_tables (runDeliveries (\<lambda>x. handleLpVault x False) ds
         \<lparr>st_raw = [], st_tables = \<lparr>lpDeposits = [], lpWithdraws = [], lpPnlSettlements = [], lpBufferFlows = []\<rparr>, st_bus = []\<rparr>)
   in distinct (map lv_id es) \<and> subseq es (map snd ds) \<and> lpRows t = {(lv_id e, row) | e row. e \<in> set es \<and> typedRow e = Inr (Some row)}"
proof -
  let ?ps = "effective lv_id lpRejects (\<lambda>_. False) ds"
  let ?t = "\<lparr>lpDeposits = [], lpWithdraws = [], lpPnlSettlements = [], lpBufferFlows = []\<rparr>"
  have d: "distinct (map (\<lambda>p. lv_id (snd p)) ?ps)" by (rule effective_distinct)
  have "subseq (map snd ?ps) (map snd ds)" by (rule subseq_map [OF effective_subseq])
  moreover have "lpRows (fold (effect logTyped (\<lambda>x e t. t)) ?ps ?t)
      = {(lv_id e, row) | e row. e \<in> snd ` set ?ps \<and> typedRow e = Inr (Some row)}"
    using lpRows_fold [OF d, of ?t] by (simp add: lpRows_def)
  ultimately show ?thesis
    using d deliveries_effective [of logTyped lpRejects lv_id "\<lambda>x e t. t" ds "\<lparr>st_raw = [], st_tables = ?t, st_bus = []\<rparr>", OF logTyped_rejects]
    by (simp add: Let_def comp_def handleLpVault_def)
qed

text \<open>A malformed event costs one report: its first delivery throws the error of the read that failed and leaves the
  tables alone, and once its archive row is kept every later delivery succeeds without doing anything.\<close>

theorem lp_malformed_reported_once:
  assumes "typedRow e = Inl err" "\<not> archivedIn lv_id s (lv_id e)" "\<not> hx_beginFails x" "hx_failsAt x \<noteq> Some 0"
    and "\<not> hx_archiveFails x" "\<not> hx_beginFails y" "hx_failsAt y \<noteq> Some 0"
  shows "snd (handleLpVault x False e s) = Inl err \<and> st_tables (fst (handleLpVault x False e s)) = st_tables s
     \<and> handleLpVault y False e (fst (handleLpVault x False e s)) = (fst (handleLpVault x False e s), Inr ())"
proof -
  have r: "handleLpVault x False e s = rolledBack lv_id x err e s"
    using assms(1-4) by (simp add: handleLpVault_def transactional_def logTyped_def)
  then have "archivedIn lv_id (fst (handleLpVault x False e s)) (lv_id e)" using assms(5) by simp
  then have "handleLpVault y False e (fst (handleLpVault x False e s)) = (fst (handleLpVault x False e s), Inr ())"
    using assms(6,7) by (simp add: handleLpVault_def transactional_def [of _ _ _ y])
  then show ?thesis using r by simp
qed

section \<open>Witnesses\<close>

definition sampleLpRaw :: raw_event where
  "sampleLpRaw = \<lparr>re_id = ''8-2'', re_contractId = ''V'', re_ledger = 8, re_ledgerClosedAtMs = 9000, re_txHash = ''tx'',
     re_topics = Inr [NStr ''pnl_settled''], re_value = Inr (NArr [NBig 70, NBig 3]), re_xdr = None\<rparr>"

definition sampleLpEvent :: "native \<Rightarrow> lp_event" where
  "sampleLpEvent v = \<lparr>lv_id = ''8-2'', lv_contractId = ''V'', lv_topic = ''pnl_settled'', lv_ledger = 8, lv_ledgerCloseTs = 9, lv_txHash = ''tx'',
     lv_fields = [(''pnl'', v)], lv_rawXdr = None\<rparr>"

theorem lp_decode_witness:
  "\<exists>e. decodeLpVaultEvent sampleLpRaw = Inr (Some e) \<and> lpField e (extraName 0) = NBig 3"
proof -
  have names: "map_of LP_VAULT_TOPIC_FIELDS ''pnl_settled'' = Some [''pnl'']"
    unfolding LP_VAULT_TOPIC_FIELDS_def by simp
  then obtain e where e: "decodeLpVaultEvent sampleLpRaw = Inr (Some e)" "lv_topic e = ''pnl_settled''"
    by (simp add: decodeLpVaultEvent_def sampleLpRaw_def Let_def)
  have "re_value sampleLpRaw = Inr (NArr [NBig 70, NBig 3])" "1 < length (decodeEventValue (NArr [NBig 70, NBig 3]))"
    "\<not> nullish (decodeEventValue (NArr [NBig 70, NBig 3]) ! 1)"
    by (simp_all add: sampleLpRaw_def nullish_def)
  from lp_decode_lossless [OF e(1) this] show ?thesis using e names by auto
qed

theorem lp_malformed_witness:
  "snd (handleLpVault \<lparr>hx_beginFails = False, hx_failsAt = None, hx_commitLost = False, hx_archiveFails = False, hx_now = 1\<rparr> False
     (sampleLpEvent NNull) \<lparr>st_raw = [], st_tables = \<lparr>lpDeposits = [], lpWithdraws = [], lpPnlSettlements = [], lpBufferFlows = []\<rparr>, st_bus = []\<rparr>)
   = Inl ''Expected a numeric or string value for lp_vault.pnl_settled.pnl''"
proof -
  let ?x = "\<lparr>hx_beginFails = False, hx_failsAt = None, hx_commitLost = False, hx_archiveFails = False, hx_now = 1\<rparr>"
  let ?s = "\<lparr>st_raw = [], st_tables = \<lparr>lpDeposits = [], lpWithdraws = [], lpPnlSettlements = [], lpBufferFlows = []\<rparr>, st_bus = []\<rparr>"
  have "typedRow (sampleLpEvent NNull) = Inl ''Expected a numeric or string value for lp_vault.pnl_settled.pnl''"
    by (simp add: typedRow_def sampleLpEvent_def lpField_def Let_def jget_or_def)
  from lp_malformed_reported_once [OF this, of ?s ?x ?x] show ?thesis by simp
qed

end
