(* ===== verification/IndexerMain.thy ===== *)
theory IndexerMain
  imports IndexerPoll IndexerVault IndexerReferral IndexerLpVault
begin

text \<open>
  The whole indexer (\<open>indexer/src/index.ts\<close>): one poller over the events of the market, the LP vault, the vault factory
  and the referral contract, each decoded by its own decoder (\<open>poll.ts\<close>) and routed to its own handlers. The state is
  the market's tables and one store per further contract; the shared archive table \<open>events_raw\<close> is the union of
  their archive rows, which have disjoint contracts and unique ids.
\<close>

section \<open>Definitions\<close>

datatype chain_event =
    MarketEvent market_event | FactoryEvent vault_event | ReferralEvent referral_event | LpVaultEvent lp_event

record contract_ids =
  ci_market :: string
  ci_vaultFactory :: "string option"
  ci_referral :: "string option"
  ci_lpVault :: "string option"

record indexer =
  ix_market :: index_db
  ix_factory :: "(vault_event, vault_tables) store"
  ix_referral :: "(referral_event, referral_tables) store"
  ix_lpVault :: "(lp_event, lp_tables) store"

text \<open>What the environment does to one delivery, for whichever handler it reaches.\<close>

record chain_faults =
  cf_market :: market_faults
  cf_factory :: vault_env
  cf_other :: tx_faults

definition chainEventLedger :: "chain_event \<Rightarrow> int" where
  "chainEventLedger ev = (case ev of MarketEvent e \<Rightarrow> me_ledger e | FactoryEvent v \<Rightarrow> vx_ledger v | ReferralEvent r \<Rightarrow> rx_ledger r
     | LpVaultEvent l \<Rightarrow> lv_ledger l)"

definition chainEventCloseTs :: "chain_event \<Rightarrow> int" where
  "chainEventCloseTs ev = (case ev of MarketEvent e \<Rightarrow> me_ledgerCloseTs e | FactoryEvent v \<Rightarrow> vx_ledgerCloseTs v
     | ReferralEvent r \<Rightarrow> rx_ledgerCloseTs r | LpVaultEvent l \<Rightarrow> lv_ledgerCloseTs l)"

text \<open>The decoder by contract, and the raw XDR attached to what was decoded.\<close>

definition decodeChain :: "contract_ids \<Rightarrow> raw_event \<Rightarrow> string + chain_event option" where
  "decodeChain C raw =
     (if Some (re_contractId raw) = ci_vaultFactory C then
        map_sum id (map_option (\<lambda>v. FactoryEvent (if re_xdr raw = None then v else v\<lparr>vx_rawXdr := re_xdr raw\<rparr>))) (decodeVaultEvent raw)
      else if Some (re_contractId raw) = ci_referral C then
        map_sum id (map_option (\<lambda>r. ReferralEvent (if re_xdr raw = None then r else r\<lparr>rx_rawXdr := re_xdr raw\<rparr>))) (decodeReferralEvent raw)
      else if Some (re_contractId raw) = ci_lpVault C then
        map_sum id (map_option (\<lambda>l. LpVaultEvent (if re_xdr raw = None then l else l\<lparr>lv_rawXdr := re_xdr raw\<rparr>))) (decodeLpVaultEvent raw)
      else map_sum id (map_option MarketEvent) (decodeRaw raw))"

definition chainDecoder :: "contract_ids \<Rightarrow> chain_event decoder" where
  "chainDecoder C = \<lparr>decodeFor = decodeChain C, eventLedger = chainEventLedger, eventCloseTs = chainEventCloseTs\<rparr>"

text \<open>
  The router with the registrations of \<open>main\<close>: an event reaches the handlers registered for its contract and topic. The
  factory's handlers look the settled amount of a close up in the market's archive rows.
\<close>

definition dispatchChain :: "contract_ids \<Rightarrow> chain_faults \<Rightarrow> chain_event \<Rightarrow> indexer \<Rightarrow> indexer \<times> (string + unit)" where
  "dispatchChain C x ev s = (case ev of
      MarketEvent e \<Rightarrow> (let (d, r) = marketDispatch (ci_market C) (cf_market x) e (ix_market s) in (s\<lparr>ix_market := d\<rparr>, r))
    | FactoryEvent v \<Rightarrow>
        (if Some (vx_contractId v) = ci_vaultFactory C \<and> vaultTopicOf (vx_body v) \<in> set VAULT_TOPICS
         then let (d, r) = handleVault (eventsRaw (ix_market s)) (vx_contractId v) (cf_factory x) False v (ix_factory s)
              in (s\<lparr>ix_factory := d\<rparr>, r)
         else (s, Inr ()))
    | ReferralEvent e \<Rightarrow>
        (if Some (rx_contractId e) = ci_referral C \<and> referralTopicOf (rx_body e) \<in> set REFERRAL_TOPICS
         then let (d, r) = handleReferral (rx_contractId e) (cf_other x) False e (ix_referral s) in (s\<lparr>ix_referral := d\<rparr>, r)
         else (s, Inr ()))
    | LpVaultEvent l \<Rightarrow>
        (if Some (lv_contractId l) = ci_lpVault C \<and> lv_topic l \<in> set LP_VAULT_TOPICS
         then let (d, r) = handleLpVault (cf_other x) False l (ix_lpVault s) in (s\<lparr>ix_lpVault := d\<rparr>, r)
         else (s, Inr ())))"

text \<open>An event is settled when it is archived, or when no handler is registered for it.\<close>

definition chainSettled :: "contract_ids \<Rightarrow> indexer \<Rightarrow> chain_event \<Rightarrow> bool" where
  "chainSettled C s ev = (case ev of
      MarketEvent e \<Rightarrow> me_contractId e = ci_market C \<longrightarrow> archived (ix_market s) (me_id e)
    | FactoryEvent v \<Rightarrow> Some (vx_contractId v) = ci_vaultFactory C \<and> vaultTopicOf (vx_body v) \<in> set VAULT_TOPICS
        \<longrightarrow> archivedIn vx_id (ix_factory s) (vx_id v)
    | ReferralEvent e \<Rightarrow> Some (rx_contractId e) = ci_referral C \<and> referralTopicOf (rx_body e) \<in> set REFERRAL_TOPICS
        \<longrightarrow> archivedIn rx_id (ix_referral s) (rx_id e)
    | LpVaultEvent l \<Rightarrow> Some (lv_contractId l) = ci_lpVault C \<and> lv_topic l \<in> set LP_VAULT_TOPICS
        \<longrightarrow> archivedIn lv_id (ix_lpVault s) (lv_id l))"

text \<open>No database fault: a handler can still throw, and then keeps its archive row.\<close>

definition quietChain :: "chain_faults \<Rightarrow> bool" where
  "quietChain x \<longleftrightarrow> \<not> beginFails (cf_market x) \<and> failsAt (cf_market x) = None \<and> \<not> archiveFails (cf_market x)
     \<and> \<not> hx_beginFails (cf_factory x) \<and> hx_failsAt (cf_factory x) = None \<and> \<not> hx_archiveFails (cf_factory x)
     \<and> \<not> hx_beginFails (cf_other x) \<and> hx_failsAt (cf_other x) = None \<and> \<not> hx_archiveFails (cf_other x)"

section \<open>The contract that lets a batch get through\<close>

text \<open>
  Beyond \<open>recording_dispatch\<close>: without database faults an event is settled even by a delivery that throws, and a settled
  event is delivered with success.
\<close>

locale settling_dispatch = recording_dispatch dispatcher settled
  for dispatcher :: "'x \<Rightarrow> 'e \<Rightarrow> 'd \<Rightarrow> 'd \<times> (string + unit)" and settled :: "'d \<Rightarrow> 'e \<Rightarrow> bool" +
  fixes quiet :: "'x \<Rightarrow> bool"
  assumes quiet_settles: "quiet x \<Longrightarrow> settled (fst (dispatcher x e d)) e"
    and settled_succeeds: "quiet x \<Longrightarrow> settled d e \<Longrightarrow> snd (dispatcher x e d) = Inr ()"
begin

text \<open>The events of a batch that are still to be settled.\<close>

definition pending :: "'e decoder \<Rightarrow> raw_event list \<Rightarrow> 'd \<Rightarrow> nat" where
  "pending D raws d = length (filter (\<lambda>raw. case decodeFor D raw of Inr (Some e) \<Rightarrow> \<not> settled d e | _ \<Rightarrow> False) raws)"

lemma pending_le: "pending D raws d \<le> length raws"
  by (simp add: pending_def)

lemma pending_mono:
  assumes "\<And>e. settled d e \<Longrightarrow> settled d' e"
  shows "pending D raws d' \<le> pending D raws d"
  unfolding pending_def
  by (induction raws) (use assms in \<open>auto split: sum.split option.split\<close>)

lemma pending_less:
  assumes "\<And>e. settled d e \<Longrightarrow> settled d' e" "raw \<in> set raws" "decodeFor D raw = Inr (Some e)" "\<not> settled d e" "settled d' e"
  shows "pending D raws d' < pending D raws d"
  using assms(2)
proof (induction raws)
  case (Cons r raws)
  have mono: "pending D raws d' \<le> pending D raws d" by (rule pending_mono [OF assms(1)])
  show ?case
  proof (cases "r = raw")
    case True
    then show ?thesis using mono assms(3-5) by (simp add: pending_def)
  next
    case False
    then have "pending D raws d' < pending D raws d" using Cons by simp
    then show ?thesis using assms(1) by (auto simp: pending_def split: sum.split option.split)
  qed
qed simp

lemma processOne_settles:
  assumes "processOne D (\<lambda>n. dispatcher (x n)) E n raw s b = (s', r)"
  shows "settled (projections s) f \<Longrightarrow> settled (projections s') f"
    and "r = Inl err \<Longrightarrow> \<forall>i. \<not> deadLetterFails E i \<Longrightarrow> quiet (x n) \<Longrightarrow>
       \<exists>e. decodeFor D raw = Inr (Some e) \<and> \<not> settled (projections s) e \<and> settled (projections s') e"
proof -
  show "settled (projections s) f \<Longrightarrow> settled (projections s') f"
    using processOne_frame [OF assms] settled_kept by metis
  assume r: "r = Inl err" and dl: "\<forall>i. \<not> deadLetterFails E i" and q: "quiet (x n)"
  have ok: "deadLetter E raw st m t = (t\<lparr>deadLetters := deadLetters t @ [\<lparr>dl_eventId = re_id raw, dl_contractId = re_contractId raw,
        dl_ledger = re_ledger raw, dl_stage = st, dl_error = m\<rparr>]\<rparr>, Inr ())" for st m and t :: "'d poller"
    using dl by (simp add: deadLetter_def)
  show "\<exists>e. decodeFor D raw = Inr (Some e) \<and> \<not> settled (projections s) e \<and> settled (projections s') e"
  proof (cases "decodeFor D raw")
    case (Inl m)
    then show ?thesis using assms r by (simp add: processOne_def ok)
  next
    case (Inr o')
    show ?thesis
    proof (cases o')
      case None
      then show ?thesis using assms r Inr by (simp add: processOne_def)
    next
      case (Some e)
      obtain d' v where d: "dispatcher (x n) e (projections s) = (d', v)" by fastforce
      obtain m where v: "v = Inl m" using assms r Inr Some d by (cases v) (auto simp: processOne_def)
      then have "projections s' = d'" using assms Inr Some d by (auto simp: processOne_def ok)
      moreover have "\<not> settled (projections s) e" using settled_succeeds [OF q, of "projections s" e] d v by auto
      ultimately show ?thesis using quiet_settles [OF q, of e "projections s"] d Inr Some by auto
    qed
  qed
qed

lemma process_progress:
  assumes "\<forall>i. \<not> deadLetterFails E i" "\<forall>n. quiet (x n)"
  shows "processEvents D (\<lambda>n. dispatcher (x n)) E n raws s b = (s', r) \<Longrightarrow>
     (\<forall>e. settled (projections s) e \<longrightarrow> settled (projections s') e)
     \<and> (\<forall>err. r = Inl err \<longrightarrow> (\<exists>raw \<in> set raws. \<exists>e. decodeFor D raw = Inr (Some e) \<and> \<not> settled (projections s) e \<and> settled (projections s') e))"
proof (induction raws arbitrary: n s b)
  case (Cons raw raws)
  obtain t q where one: "processOne D (\<lambda>n. dispatcher (x n)) E n raw s b = (t, q)" by fastforce
  note st = processOne_settles [OF one]
  show ?case
  proof (cases q)
    case (Inl err)
    then have "s' = t" "r = Inl err" using Cons.prems one by simp_all
    then show ?thesis using st(1) st(2) [OF Inl assms(1)] assms(2) by auto
  next
    case (Inr b')
    then have rest: "processEvents D (\<lambda>n. dispatcher (x n)) E (n + 1) raws t b' = (s', r)" using Cons.prems one by simp
    from Cons.IH [OF this] show ?thesis using st(1) by (metis list.set_intros(2))
  qed
qed auto

text \<open>A batch gets through: each failing poll settles one event more.\<close>

lemma poll_gets_through:
  assumes "\<forall>i. \<not> deadLetterFails E i" "\<forall>n. quiet (x n)" "\<not> readFails E" "\<not> cursorFails E"
    and reply: "\<forall>i. rpcReply E (cu_lastLedger c) (cu_lastPagingToken c) 0 i = Inr response"
  shows "cursorRow s = Some c \<Longrightarrow> \<exists>k \<le> pending D (er_events response) (projections s).
     \<exists>m. snd (pollOnce cold D (\<lambda>n. dispatcher (x n)) E (((\<lambda>s. fst (pollOnce cold D (\<lambda>n. dispatcher (x n)) E s)) ^^ k) s)) = Inr m"
proof (induction "pending D (er_events response) (projections s)" arbitrary: s rule: less_induct)
  case less
  let ?poll = "pollOnce cold D (\<lambda>n. dispatcher (x n)) E"
  let ?b = "\<lparr>bt_processed = 0, bt_highestLedger = cu_lastLedger c, bt_highestCloseTs = None\<rparr>"
  have fetch: "fetchBatch E (Some c) (cu_lastLedger c) s = (s, Inr response)"
    using reply by (simp add: fetchBatch_def fetchEvents.simps)
  obtain t v where pe: "processEvents D (\<lambda>n. dispatcher (x n)) E 0 (er_events response) s ?b = (t, v)" by fastforce
  have poll: "?poll s = (case v of Inl e \<Rightarrow> (t, Inl e) | Inr b \<Rightarrow> finishPoll E (Some c) (cu_lastLedger c) response t b)"
    using less.prems assms(3) by (simp add: pollOnce_def pollFrom_def fetch pe)
  note progress = process_progress [OF assms(1,2) pe]
  show ?case
  proof (cases v)
    case (Inr b)
    have "\<exists>m. snd (?poll s) = Inr m"
      using assms(4) by (auto simp: poll Inr finishPoll_def commitCursor_def Let_def split: option.split prod.split)
    then show ?thesis by (intro exI [of _ 0]) simp
  next
    case (Inl err)
    then have after: "fst (?poll s) = t" by (simp add: poll)
    have "cursorRow t = Some c" using process_frame [OF pe] less.prems by simp
    moreover have "pending D (er_events response) (projections t) < pending D (er_events response) (projections s)"
      using progress Inl pending_less by blast
    ultimately obtain k m where k: "k \<le> pending D (er_events response) (projections t)"
        "snd (?poll (((\<lambda>s. fst (?poll s)) ^^ k) t)) = Inr m"
      using less.hyps [of t] by blast
    then show ?thesis
      using \<open>pending D (er_events response) (projections t) < _\<close>
      by (intro exI [of _ "Suc k"]) (auto simp: funpow_swap1 after simp del: funpow.simps(2) simp add: funpow_Suc_right)
  qed
qed

end

section \<open>The indexer keeps the contract\<close>

lemma handleMarket_quiet:
  assumes "\<not> beginFails x" "failsAt x = None" "\<not> archiveFails x"
  shows "archived (fst (handleMarket x False e d)) (me_id e)"
    and "archived d (me_id e) \<Longrightarrow> snd (handleMarket x False e d) = Inr ()"
  using assms by (auto simp: handleMarket_def Let_def)

lemma transactional_quiet:
  assumes "\<not> hx_beginFails x" "hx_failsAt x = None" "\<not> hx_archiveFails x"
  shows "archivedIn ident (fst (transactional ident app after x False e s)) (ident e)"
    and "archivedIn ident s (ident e) \<Longrightarrow> snd (transactional ident app after x False e s) = Inr ()"
  using assms by (auto simp: transactional_def Let_def split: sum.split)

lemmas handlers = handleVault_def handleReferral_def handleLpVault_def

lemma chain_kept: "chainSettled C s f \<Longrightarrow> chainSettled C (fst (dispatchChain C x e s)) f"
  by (cases e; cases f)
    (auto simp: dispatchChain_def chainSettled_def marketDispatch_eq market.kept factory.kept referral.kept lp.kept
      Let_def case_prod_unfold)

lemma chain_success:
  assumes "snd (dispatchChain C x e s) = Inr ()"
  shows "chainSettled C (fst (dispatchChain C x e s)) e"
proof (cases e)
  case (MarketEvent m)
  then show ?thesis
    using assms market.success [of "cf_market x" m "ix_market s"]
    by (auto simp: dispatchChain_def chainSettled_def marketDispatch_eq Let_def case_prod_unfold split: if_splits)
next
  case (FactoryEvent v)
  then show ?thesis
    using assms factory.success [of "eventsRaw (ix_market s)" "vx_contractId v" "cf_factory x" v "ix_factory s"]
    by (auto simp: dispatchChain_def chainSettled_def Let_def case_prod_unfold split: if_splits)
next
  case (ReferralEvent r)
  then show ?thesis
    using assms referral.success [of "rx_contractId r" "cf_other x" r "ix_referral s"]
    by (auto simp: dispatchChain_def chainSettled_def Let_def case_prod_unfold split: if_splits)
next
  case (LpVaultEvent l)
  then show ?thesis
    using assms lp.success [of "cf_other x" l "ix_lpVault s"]
    by (auto simp: dispatchChain_def chainSettled_def Let_def case_prod_unfold split: if_splits)
qed

lemma chain_quiet:
  assumes "quietChain x"
  shows "chainSettled C (fst (dispatchChain C x e s)) e" and "chainSettled C s e \<Longrightarrow> snd (dispatchChain C x e s) = Inr ()"
proof -
  have m: "\<not> beginFails (cf_market x)" "failsAt (cf_market x) = None" "\<not> archiveFails (cf_market x)"
    and f: "\<not> hx_beginFails (cf_factory x)" "hx_failsAt (cf_factory x) = None" "\<not> hx_archiveFails (cf_factory x)"
    and o1: "\<not> hx_beginFails (cf_other x)" "hx_failsAt (cf_other x) = None" "\<not> hx_archiveFails (cf_other x)"
    using assms by (simp_all add: quietChain_def)
  note quiet = handleMarket_quiet [OF m] transactional_quiet [OF f] transactional_quiet [OF o1]
  show "chainSettled C (fst (dispatchChain C x e s)) e"
    by (cases e) (auto simp: dispatchChain_def chainSettled_def marketDispatch_eq handlers quiet Let_def case_prod_unfold)
  show "chainSettled C s e \<Longrightarrow> snd (dispatchChain C x e s) = Inr ()"
    by (cases e) (auto simp: dispatchChain_def chainSettled_def marketDispatch_eq handlers quiet Let_def case_prod_unfold)
qed

interpretation chain: settling_dispatch "dispatchChain C" "chainSettled C" quietChain for C
  by unfold_locales (rule chain_kept chain_success chain_quiet; assumption)+

section \<open>Properties\<close>


text \<open>C26. A batch with bad events gets through: without database faults, and as long as the RPC keeps answering the same
  batch, some poll among the first \<open>n + 1\<close> succeeds, where \<open>n\<close> is the number of events of the batch, even when
  handlers throw; each failing poll settles one event more.\<close>

theorem bad_batch_gets_through:
  assumes "\<forall>i. \<not> deadLetterFails E i" "\<forall>n. quietChain (x n)" "\<not> readFails E" "\<not> cursorFails E"
    and "\<forall>i. rpcReply E (cu_lastLedger c) (cu_lastPagingToken c) 0 i = Inr response" "cursorRow s = Some c"
  shows "\<exists>k \<le> length (er_events response). \<exists>m.
     snd (pollOnce cold (chainDecoder C) (\<lambda>n. dispatchChain C (x n)) E
       (((\<lambda>s. fst (pollOnce cold (chainDecoder C) (\<lambda>n. dispatchChain C (x n)) E s)) ^^ k) s)) = Inr m"
  using chain.poll_gets_through [OF assms(1-5) assms(6), where D = "chainDecoder C" and cold = cold] chain.pending_le le_trans
  by blast

section \<open>Witnesses\<close>

definition sampleContracts :: contract_ids where
  "sampleContracts = \<lparr>ci_market = ''CMARKET'', ci_vaultFactory = Some ''F'', ci_referral = None, ci_lpVault = Some ''V''\<rparr>"

definition sampleIndexer :: "indexer poller" where
  "sampleIndexer = \<lparr>stopped = False, fatal = None, rpcIndex = 0, pl_lastLedger = None, lastEventCloseTs = None,
     cursorRow = Some \<lparr>cu_lastLedger = 1000, cu_lastPagingToken = None, cu_updatedAt = 0\<rparr>, gaps = [], deadLetters = [],
     projections = \<lparr>ix_market = emptyDb, ix_factory = \<lparr>st_raw = [], st_tables = emptyVaults, st_bus = []\<rparr>,
       ix_referral = \<lparr>st_raw = [], st_tables = emptyReferrals, st_bus = []\<rparr>,
       ix_lpVault = \<lparr>st_raw = [], st_tables = \<lparr>lpDeposits = [], lpWithdraws = [], lpPnlSettlements = [], lpBufferFlows = []\<rparr>, st_bus = []\<rparr>\<rparr>\<rparr>"

definition quietFaults :: chain_faults where
  "quietFaults = \<lparr>cf_market = noFaults, cf_factory = sampleVaultEnv, cf_other = quietTx\<rparr>"

text \<open>A batch with one event of the LP vault, with a number or with nothing where the settled amount should be.\<close>

definition lpBatch :: "native \<Rightarrow> events_response" where
  "lpBatch v = \<lparr>er_events = [sampleLpRaw\<lparr>re_ledger := 1001, re_value := Inr (NArr [v])\<rparr>], er_cursor = Some ''t''\<rparr>"

abbreviation lpDecoded :: "native \<Rightarrow> lp_event" where
  "lpDecoded v \<equiv> (sampleLpEvent v)\<lparr>lv_ledger := 1001\<rparr>"

abbreviation samplePolled :: "native \<Rightarrow> indexer poller \<times> (thrown + nat)" where
  "samplePolled v \<equiv> pollOnce 100 (chainDecoder sampleContracts) (\<lambda>n. dispatchChain sampleContracts quietFaults)
     (samplePollEnv (Inr (lpBatch v))) sampleIndexer"

lemma lpBatch_decoded:
  "decodeChain sampleContracts (sampleLpRaw\<lparr>re_ledger := 1001, re_value := Inr (NArr [v])\<rparr>) = Inr (Some (LpVaultEvent (lpDecoded v)))"
proof -
  have "map_of LP_VAULT_TOPIC_FIELDS ''pnl_settled'' = Some [''pnl'']"
    unfolding LP_VAULT_TOPIC_FIELDS_def by simp
  then show ?thesis
    by (simp add: decodeChain_def sampleContracts_def decodeLpVaultEvent_def sampleLpRaw_def sampleLpEvent_def Let_def jset_def)
qed

lemma lpBatch_fetched:
  "fetchBatch (samplePollEnv (Inr (lpBatch v))) (cursorRow sampleIndexer) start sampleIndexer = (sampleIndexer, Inr (lpBatch v))"
  by (simp add: fetchBatch_def samplePollEnv_def fetchEvents.simps sampleIndexer_def)

lemma lpBatch_routed: "Some (lv_contractId (lpDecoded v)) = ci_lpVault sampleContracts \<and> lv_topic (lpDecoded v) \<in> set LP_VAULT_TOPICS"
  by (simp add: sampleLpEvent_def sampleContracts_def LP_VAULT_TOPICS_def LP_VAULT_TOPIC_FIELDS_def)

lemma lpBatch_handled: "\<exists>d. dispatchChain sampleContracts quietFaults (LpVaultEvent (lpDecoded (NStr ''70''))) (projections sampleIndexer) = (d, Inr ())"
proof -
  have "typedRow (lpDecoded (NStr ''70'')) = Inr (Some (LpPnl ''70'' (flowEnvelope (lpDecoded (NStr ''70'')))))"
    by (simp add: typedRow_def sampleLpEvent_def lpField_def Let_def jget_or_def)
  then show ?thesis
    using lpBatch_routed
    by (simp add: dispatchChain_def sampleIndexer_def handleLpVault_def transactional_def logTyped_def quietFaults_def quietTx_def Let_def)
qed

lemma lpBatch_moves: "cursorRow (fst (samplePolled (NStr ''70''))) = Some \<lparr>cu_lastLedger = 1001, cu_lastPagingToken = Some ''t'', cu_updatedAt = 5000\<rparr>"
    "gaps (fst (samplePolled (NStr ''70''))) = []"
proof -
  let ?E = "samplePollEnv (Inr (lpBatch (NStr ''70'')))" and ?disp = "\<lambda>n. dispatchChain sampleContracts quietFaults"
  let ?D = "chainDecoder sampleContracts" and ?b = "\<lparr>bt_processed = 0, bt_highestLedger = 1000, bt_highestCloseTs = None\<rparr>"
  have row: "cursorRow sampleIndexer = Some \<lparr>cu_lastLedger = 1000, cu_lastPagingToken = None, cu_updatedAt = 0\<rparr>" "gaps sampleIndexer = []"
    by (simp_all add: sampleIndexer_def)
  have led: "chainEventLedger (LpVaultEvent (lpDecoded v)) = 1001" for v by (simp add: chainEventLedger_def)
  obtain t b where one: "processEvents ?D ?disp ?E 0 (er_events (lpBatch (NStr ''70''))) sampleIndexer ?b = (t, Inr b)"
      "cursorRow t = cursorRow sampleIndexer" "gaps t = []" "bt_highestLedger b = 1001"
    using lpBatch_handled lpBatch_decoded [of "NStr ''70''"] led row(2)
    by (auto simp: lpBatch_def processOne_def chainDecoder_def)
  then have "samplePolled (NStr ''70'') = finishPoll ?E (cursorRow sampleIndexer) 1000 (lpBatch (NStr ''70'')) t b"
    using lpBatch_fetched [of "NStr ''70''" 1000] row by (simp add: pollOnce_def pollFrom_def) (simp add: samplePollEnv_def)
  then show "cursorRow (fst (samplePolled (NStr ''70''))) = Some \<lparr>cu_lastLedger = 1001, cu_lastPagingToken = Some ''t'', cu_updatedAt = 5000\<rparr>"
    "gaps (fst (samplePolled (NStr ''70''))) = []"
    using one(2-4) row by (simp_all add: finishPoll_def nextCursor_def commitCursor_def writeCursor_def samplePollEnv_def lpBatch_def)
qed


lemma lpBatch_fails: "\<exists>err. snd (samplePolled NNull) = Inl err"
proof -
  let ?E = "samplePollEnv (Inr (lpBatch NNull))" and ?disp = "\<lambda>n. dispatchChain sampleContracts quietFaults"
  let ?D = "chainDecoder sampleContracts" and ?b = "\<lparr>bt_processed = 0, bt_highestLedger = 1000, bt_highestCloseTs = None\<rparr>"
  have row: "cursorRow sampleIndexer = Some \<lparr>cu_lastLedger = 1000, cu_lastPagingToken = None, cu_updatedAt = 0\<rparr>"
    by (simp add: sampleIndexer_def)
  have "\<exists>m. typedRow (lpDecoded NNull) = Inl m"
    by (simp add: typedRow_def sampleLpEvent_def lpField_def Let_def jget_or_def)
  then obtain d m where "dispatchChain sampleContracts quietFaults (LpVaultEvent (lpDecoded NNull)) (projections sampleIndexer) = (d, Inl m)"
    using lpBatch_routed [of NNull]
    by (auto simp: dispatchChain_def sampleIndexer_def handleLpVault_def transactional_def rolledBack_def logTyped_def quietFaults_def quietTx_def Let_def)
  then obtain t e where "processEvents ?D ?disp ?E 0 (er_events (lpBatch NNull)) sampleIndexer ?b = (t, Inl e)"
    using lpBatch_decoded [of NNull] by (auto simp: lpBatch_def processOne_def chainDecoder_def deadLetter_def samplePollEnv_def)
  then have "samplePolled NNull = (t, Inl e)"
    using lpBatch_fetched [of NNull 1000] row by (simp add: pollOnce_def pollFrom_def) (simp add: samplePollEnv_def)
  then show ?thesis by simp
qed

theorem bad_batch_gets_through_witness:
  "(\<exists>err. snd (samplePolled NNull) = Inl err)
     \<and> (\<exists>m. snd (pollOnce 100 (chainDecoder sampleContracts) (\<lambda>n. dispatchChain sampleContracts quietFaults)
          (samplePollEnv (Inr (lpBatch NNull))) (fst (samplePolled NNull))) = Inr m)"
proof -
  let ?E = "samplePollEnv (Inr (lpBatch NNull))"
  let ?poll = "pollOnce 100 (chainDecoder sampleContracts) (\<lambda>n. dispatchChain sampleContracts quietFaults) ?E"
  have q: "\<forall>i. \<not> deadLetterFails ?E i" "\<forall>n::nat. quietChain quietFaults" "\<not> readFails ?E" "\<not> cursorFails ?E"
    by (simp_all add: samplePollEnv_def quietChain_def quietFaults_def quietTx_def noFaults_def sampleVaultEnv_def)
  have reply: "\<forall>i. rpcReply ?E l t' 0 i = Inr (lpBatch NNull)" for l t' by (simp add: samplePollEnv_def)
  have row: "cursorRow sampleIndexer = Some \<lparr>cu_lastLedger = 1000, cu_lastPagingToken = None, cu_updatedAt = 0\<rparr>"
    by (simp add: sampleIndexer_def)
  from bad_batch_gets_through [where x = "\<lambda>n. quietFaults" and C = sampleContracts and cold = 100, OF q reply row]
  obtain k m where k: "k \<le> 1" "snd (?poll (((\<lambda>s. fst (?poll s)) ^^ k) sampleIndexer)) = Inr m"
    by (auto simp: lpBatch_def)
  obtain err where err: "snd (samplePolled NNull) = Inl err" using lpBatch_fails by blast
  then have "k \<noteq> 0" using k(2) by (intro notI) simp
  then have "k = 1" using k(1) by simp
  then show ?thesis using k(2) err by auto
qed

end
