(* ===== verification/Candles.thy ===== *)
theory Candles
  imports Prelude Complex_Main "HOL-Library.Sublist"
begin

text \<open>
  The native candle aggregator of the indexer (\<open>indexer/src/candles/\<close>): bucketing (\<open>bucketing.ts\<close>), the seed from
  Binance (\<open>seed.ts\<close>) and the aggregator that folds polled prices into closed candles (\<open>aggregator.ts\<close>). Timestamps
  are whole seconds; a price that \<open>BigInt\<close> refuses and the replies of the HTTP endpoints are arguments.
\<close>

section \<open>Definitions: bucketing\<close>

record interval_def =
  iv_name :: string
  iv_sec :: int
  iv_offset :: int

definition CANDLE_INTERVALS :: "interval_def list" where
  "CANDLE_INTERVALS =
     [\<lparr>iv_name = ''1m'', iv_sec = 60, iv_offset = 0\<rparr>, \<lparr>iv_name = ''5m'', iv_sec = 300, iv_offset = 0\<rparr>,
      \<lparr>iv_name = ''15m'', iv_sec = 900, iv_offset = 0\<rparr>, \<lparr>iv_name = ''1h'', iv_sec = 3600, iv_offset = 0\<rparr>,
      \<lparr>iv_name = ''4h'', iv_sec = 14400, iv_offset = 0\<rparr>, \<lparr>iv_name = ''1d'', iv_sec = 86400, iv_offset = 0\<rparr>,
      \<lparr>iv_name = ''1w'', iv_sec = 604800, iv_offset = 345600\<rparr>]"

text \<open>\<open>%\<close> takes the sign of the dividend, which is why the source adds the interval and takes it again.\<close>

definition bucketStart :: "int \<Rightarrow> int \<Rightarrow> int \<Rightarrow> int" where
  "bucketStart ts sec offset = ts - ((((ts - offset) smod sec) + sec) smod sec)"

record bucket_state =
  bs_bucket :: int
  bs_open :: int
  bs_high :: int
  bs_low :: int
  bs_close :: int
  bs_owned :: bool

record candle_row =
  cr_bucketTs :: int
  cr_open :: int
  cr_high :: int
  cr_low :: int
  cr_close :: int

definition stepBucket :: "bucket_state option \<Rightarrow> int \<Rightarrow> int \<Rightarrow> bucket_state \<times> candle_row option" where
  "stepBucket prev bucket price =
     (case prev of
        None \<Rightarrow> (\<lparr>bs_bucket = bucket, bs_open = price, bs_high = price, bs_low = price, bs_close = price, bs_owned = False\<rparr>, None)
      | Some s \<Rightarrow>
          if bucket = bs_bucket s then
            (\<lparr>bs_bucket = bucket, bs_open = bs_open s, bs_high = (if price > bs_high s then price else bs_high s),
              bs_low = (if price < bs_low s then price else bs_low s), bs_close = price, bs_owned = bs_owned s\<rparr>, None)
          else if bucket > bs_bucket s then
            (\<lparr>bs_bucket = bucket, bs_open = price, bs_high = price, bs_low = price, bs_close = price, bs_owned = True\<rparr>,
             if bs_owned s then Some \<lparr>cr_bucketTs = bs_bucket s, cr_open = bs_open s, cr_high = bs_high s, cr_low = bs_low s,
               cr_close = bs_close s\<rparr> else None)
          else (s, None))"

section \<open>Definitions: the seed\<close>

definition BINANCE_PAIRS :: "(string \<times> string) list" where
  "BINANCE_PAIRS =
     [(''BTC'', ''BTCUSDT''), (''ETH'', ''ETHUSDT''), (''XLM'', ''XLMUSDT''), (''SOL'', ''SOLUSDT''), (''XRP'', ''XRPUSDT''),
      (''ADA'', ''ADAUSDT''), (''BNB'', ''BNBUSDT''), (''TRX'', ''TRXUSDT''), (''DOGE'', ''DOGEUSDT''), (''ZEC'', ''ZECUSDT''),
      (''LINK'', ''LINKUSDT''), (''BCH'', ''BCHUSDT''), (''LTC'', ''LTCUSDT'')]"

definition SEED_CHUNK :: nat where "SEED_CHUNK = 500"

definition hasBinancePair :: "string \<Rightarrow> bool" where
  "hasBinancePair asset \<longleftrightarrow> map_of BINANCE_PAIRS asset \<noteq> None"

text \<open>A reply of one endpoint: a status that is not ok, rows of numbers (time first), or no reply.\<close>

datatype kline_reply = KlineStatus nat | KlineRows "rat list list" | KlineThrew string

definition toScaled :: "rat \<Rightarrow> int" where
  "toScaled v = \<lfloor>v * 10000000 + 1 / 2\<rfloor>"

definition klineOf :: "rat list \<Rightarrow> candle_row" where
  "klineOf k = \<lparr>cr_bucketTs = \<lfloor>k ! 0 / 1000\<rfloor>, cr_open = toScaled (k ! 1), cr_high = toScaled (k ! 2), cr_low = toScaled (k ! 3),
     cr_close = toScaled (k ! 4)\<rparr>"

text \<open>The endpoints in order; an error is remembered, a geo-block is not.\<close>

fun fetchKlines :: "kline_reply list \<Rightarrow> string option \<Rightarrow> string + candle_row list" where
  "fetchKlines [] lastErr = (case lastErr of Some e \<Rightarrow> Inl e | None \<Rightarrow> Inr [])"
| "fetchKlines (KlineStatus st # rs) lastErr =
     (if st = 451 \<or> st = 403 then fetchKlines rs lastErr else fetchKlines rs (Some ''Binance status''))"
| "fetchKlines (KlineRows rows # rs) lastErr = Inr (map klineOf (filter (\<lambda>k. length k \<ge> 5) rows))"
| "fetchKlines (KlineThrew e # rs) lastErr = fetchKlines rs (Some e)"

type_synonym candle_key = "string \<times> string \<times> int"
type_synonym candle_table = "(candle_key, candle_row) jmap"

definition candleCount :: "string \<Rightarrow> string \<Rightarrow> candle_table \<Rightarrow> nat" where
  "candleCount asset interval t = length (filter (\<lambda>((a, i, _), _). a = asset \<and> i = interval) t)"

definition seedInsert :: "string \<Rightarrow> string \<Rightarrow> candle_row list \<Rightarrow> candle_table \<Rightarrow> candle_table" where
  "seedInsert asset interval ks t =
     fold (\<lambda>k t. if map_of t (asset, interval, cr_bucketTs k) = None then t @ [((asset, interval, cr_bucketTs k), k)] else t) ks t"

text \<open>Batches of 500; the number of the first batch that fails, if any, is the environment's.\<close>

function seedChunks :: "string \<Rightarrow> string \<Rightarrow> nat option \<Rightarrow> candle_row list \<Rightarrow> candle_table \<Rightarrow> candle_table \<times> (string + unit)" where
  "seedChunks asset interval failing ks t =
     (if ks = [] then (t, Inr ())
      else if failing = Some 0 then (t, Inl ''batch failed'')
      else seedChunks asset interval (map_option (\<lambda>n. n - 1) failing) (drop SEED_CHUNK ks) (seedInsert asset interval (take SEED_CHUNK ks) t))"
  by pat_completeness auto
termination by (relation "measure (\<lambda>(_, _, _, ks, _). length ks)") (auto simp: SEED_CHUNK_def)

declare seedChunks.simps [simp del]

record seed_env =
  se_countFails :: "string \<Rightarrow> string \<Rightarrow> bool"
  se_replies :: "string \<Rightarrow> string \<Rightarrow> kline_reply list"
  se_failing :: "string \<Rightarrow> string \<Rightarrow> nat option"

definition seedFromBinance :: "seed_env \<Rightarrow> string \<Rightarrow> string \<Rightarrow> candle_table \<Rightarrow> candle_table \<times> (string + nat)" where
  "seedFromBinance E asset interval t =
     (if \<not> hasBinancePair asset then (t, Inr 0)
      else if se_countFails E asset interval then (t, Inl ''count failed'')
      else if candleCount asset interval t > 0 then (t, Inr 0)
      else case fetchKlines (se_replies E asset interval) None of
        Inl e \<Rightarrow> (t, Inl e)
      | Inr ks \<Rightarrow>
          if ks = [] then (t, Inr 0)
          else case seedChunks asset interval (se_failing E asset interval) ks t of
            (t', Inl e) \<Rightarrow> (t', Inl e)
          | (t', Inr u) \<Rightarrow> (t', Inr (length ks)))"

section \<open>Definitions: the aggregator\<close>

record aggregator =
  ag_state :: "(string \<times> string, bucket_state) jmap"
  ag_seeded :: bool
  ag_writes :: nat
  ag_errors :: nat
  ag_lastPollOkAt :: "int option"
  ag_lastWriteAt :: "int option"
  ag_candles :: candle_table

text \<open>
  One entry of \<open>/v1/latest\<close>: the price when there is one (\<open>None\<close> when \<open>BigInt\<close> throws on it) and the timestamp when
  there is one (\<open>None\<close> when it is not finite).
\<close>

record latest_entry =
  le_price :: "int option option"
  le_timestamp :: "int option option"

record poll_candles_env =
  pe_latest :: "string + (string \<Rightarrow> latest_entry option)"
  pe_now :: int
  pe_writeFails :: "string \<Rightarrow> string \<Rightarrow> bool"

definition observed :: "latest_entry option \<Rightarrow> (int \<times> int) option" where
  "observed entry = (case entry of None \<Rightarrow> None | Some e \<Rightarrow>
     (case (le_price e, le_timestamp e) of
        (Some (Some price), Some (Some ts)) \<Rightarrow> if price \<le> 0 \<or> ts \<le> 0 then None else Some (ts, price)
      | _ \<Rightarrow> None))"

definition writeClosed :: "poll_candles_env \<Rightarrow> string \<Rightarrow> string \<Rightarrow> candle_row \<Rightarrow> aggregator \<Rightarrow> aggregator" where
  "writeClosed E asset interval c s =
     (if pe_writeFails E asset interval then s\<lparr>ag_errors := ag_errors s + 1\<rparr>
      else s\<lparr>ag_candles := jset (asset, interval, cr_bucketTs c) c (ag_candles s), ag_writes := ag_writes s + 1,
        ag_lastWriteAt := Some (pe_now E)\<rparr>)"

definition foldPrice :: "poll_candles_env \<Rightarrow> string \<Rightarrow> int \<Rightarrow> int \<Rightarrow> interval_def \<Rightarrow> aggregator \<Rightarrow> aggregator" where
  "foldPrice E asset ts price iv s =
     (let (st, closed) = stepBucket (map_of (ag_state s) (asset, iv_name iv)) (bucketStart ts (iv_sec iv) (iv_offset iv)) price;
          s' = s\<lparr>ag_state := jset (asset, iv_name iv) st (ag_state s)\<rparr>
      in case closed of None \<Rightarrow> s' | Some c \<Rightarrow> writeClosed E asset (iv_name iv) c s')"

definition pollAsset :: "poll_candles_env \<Rightarrow> (string \<Rightarrow> latest_entry option) \<Rightarrow> string \<Rightarrow> aggregator \<Rightarrow> aggregator" where
  "pollAsset E latest asset s =
     (case observed (latest (asset @ ''/USD'')) of
        None \<Rightarrow> s
      | Some (ts, price) \<Rightarrow> fold (foldPrice E asset ts price) CANDLE_INTERVALS s)"

text \<open>One turn of the loop: a failed fetch counts as an error.\<close>

definition pollCandles :: "string list \<Rightarrow> poll_candles_env \<Rightarrow> aggregator \<Rightarrow> aggregator" where
  "pollCandles assets E s =
     (case pe_latest E of
        Inl err \<Rightarrow> s\<lparr>ag_errors := ag_errors s + 1\<rparr>
      | Inr latest \<Rightarrow> (fold (pollAsset E latest) assets s)\<lparr>ag_lastPollOkAt := Some (pe_now E)\<rparr>)"

definition seedAll :: "seed_env \<Rightarrow> string list \<Rightarrow> candle_table \<Rightarrow> candle_table" where
  "seedAll E assets t = fold (\<lambda>asset t. if hasBinancePair asset
     then fold (\<lambda>iv t. fst (seedFromBinance E asset (iv_name iv) t)) CANDLE_INTERVALS t else t) assets t"

text \<open>A start: a new aggregator over the stored candles, seeded, then the turns of its loop.\<close>

definition startAggregator :: "seed_env \<Rightarrow> string list \<Rightarrow> poll_candles_env list \<Rightarrow> candle_table \<Rightarrow> aggregator" where
  "startAggregator E assets turns t =
     fold (pollCandles assets) turns \<lparr>ag_state = [], ag_seeded = True, ag_writes = 0, ag_errors = 0, ag_lastPollOkAt = None,
       ag_lastWriteAt = None, ag_candles = seedAll E assets t\<rparr>"

section \<open>Lemmas: bucketing\<close>

lemma smod_nonneg: "0 \<le> (x::int) \<Longrightarrow> 0 < n \<Longrightarrow> x smod n = x mod n"
  by (cases "x = 0") (simp_all add: signed_modulo_int_def sgn_if)

lemma smod_neg: "(x::int) < 0 \<Longrightarrow> 0 < n \<Longrightarrow> x smod n = - ((- x) mod n)"
  by (simp add: signed_modulo_int_def sgn_if)

lemma smod_positive:
  assumes n: "0 < (n::int)"
  shows "((x smod n) + n) smod n = x mod n"
proof (cases "0 \<le> x")
  case True
  then have "(x smod n) + n = x mod n + n" "0 \<le> x mod n + n" using n by (simp_all add: smod_nonneg)
  then show ?thesis using n by (simp add: smod_nonneg)
next
  case False
  let ?r = "(- x) mod n"
  have r: "(x smod n) + n = n - ?r" "0 \<le> n - ?r" using False n by (simp_all add: smod_neg less_imp_le)
  then have "((x smod n) + n) smod n = (- ?r) mod n" using n by (simp add: smod_nonneg)
  then show ?thesis by (simp add: mod_minus_eq)
qed

lemma bucketStart_eq: "0 < sec \<Longrightarrow> bucketStart ts sec offset = ts - (ts - offset) mod sec"
  by (simp add: bucketStart_def smod_positive)

section \<open>Reference: the observations of each bucket\<close>

text \<open>
  A reference that forgets nothing: the buckets in order, each with all its prices; an observation older than the newest
  bucket is dropped.
\<close>

definition addObs :: "(int \<times> int list) list \<Rightarrow> int \<times> int \<Rightarrow> (int \<times> int list) list" where
  "addObs gs o1 =
     (if gs = [] \<or> fst (last gs) < fst o1 then gs @ [(fst o1, [snd o1])]
      else if fst (last gs) = fst o1 then butlast gs @ [(fst o1, snd (last gs) @ [snd o1])]
      else gs)"

definition bucketsOf :: "(int \<times> int) list \<Rightarrow> (int \<times> int list) list" where
  "bucketsOf os = foldl addObs [] os"

definition ohlc :: "int \<times> int list \<Rightarrow> candle_row" where
  "ohlc g = \<lparr>cr_bucketTs = fst g, cr_open = hd (snd g), cr_high = Max (set (snd g)), cr_low = Min (set (snd g)), cr_close = last (snd g)\<rparr>"

text \<open>The code over the same observations: the state and the candles it emits.\<close>

definition stepObs :: "bucket_state option \<times> candle_row list \<Rightarrow> int \<times> int \<Rightarrow> bucket_state option \<times> candle_row list" where
  "stepObs r o1 = (let (st, closed) = stepBucket (fst r) (fst o1) (snd o1)
     in (Some st, snd r @ (case closed of None \<Rightarrow> [] | Some c \<Rightarrow> [c])))"

definition runBucket :: "(int \<times> int) list \<Rightarrow> bucket_state option \<times> candle_row list" where
  "runBucket os = foldl stepObs (None, []) os"

definition stateOf :: "(int \<times> int list) list \<Rightarrow> bucket_state option" where
  "stateOf gs = (if gs = [] then None else let c = ohlc (last gs) in
     Some \<lparr>bs_bucket = cr_bucketTs c, bs_open = cr_open c, bs_high = cr_high c, bs_low = cr_low c, bs_close = cr_close c,
       bs_owned = (length gs > 1)\<rparr>)"

lemma buckets_nonempty: "g \<in> set (bucketsOf os) \<Longrightarrow> snd g \<noteq> []"
  unfolding bucketsOf_def
  by (induction os rule: rev_induct) (auto simp: addObs_def split: if_split_asm dest: in_set_butlastD)

lemma buckets_sorted: "sorted_wrt (<) (map fst (bucketsOf os))"
proof (induction os rule: rev_induct)
  case (snoc o1 os)
  let ?gs = "bucketsOf os"
  show ?case
  proof (cases "?gs = []")
    case False
    then obtain hs g where gs: "?gs = hs @ [g]" by (metis append_butlast_last_id)
    have "\<forall>h \<in> set hs. fst h < fst g" using snoc.IH by (simp add: gs sorted_wrt_append)
    then show ?thesis
      using snoc.IH gs unfolding bucketsOf_def
      by (auto simp: addObs_def sorted_wrt_append)
  qed (simp add: bucketsOf_def addObs_def)
qed (simp add: bucketsOf_def)

lemma runBucket_reference: "runBucket os = (stateOf (bucketsOf os), map ohlc (butlast (drop 1 (bucketsOf os))))"
proof (induction os rule: rev_induct)
  case (snoc o1 os)
  let ?gs = "bucketsOf os"
  have step: "bucketsOf (os @ [o1]) = addObs ?gs o1" "runBucket (os @ [o1]) = stepObs (runBucket os) o1"
    by (simp_all add: bucketsOf_def runBucket_def)
  show ?case
  proof (cases "?gs = []")
    case True
    then show ?thesis unfolding step snoc.IH
      by (simp add: stepObs_def stateOf_def stepBucket_def addObs_def ohlc_def)
  next
    case False
    then obtain hs b ps where gs: "?gs = hs @ [(b, ps)]" by (metis append_butlast_last_id surj_pair)
    have ps: "ps \<noteq> []" using buckets_nonempty [of "(b, ps)" os] gs by simp
    obtain c q where o1: "o1 = (c, q)" by fastforce
    obtain M m where M: "Max (set ps) = M" "Min (set ps) = m" by blast
    have hi: "(if M < q then q else M) = Max (insert q (set ps))" and lo: "(if q < m then q else m) = Min (insert q (set ps))"
      using ps by (simp_all add: M max_def min_def)
    consider "c = b" | "c < b" | "b < c" by linarith
    then show ?thesis
    proof cases
      case 1
      then show ?thesis unfolding o1 step [unfolded o1] snoc.IH gs using ps
        by (simp add: stepObs_def stateOf_def stepBucket_def addObs_def ohlc_def Let_def M hi lo
            del: Max_less_iff Min_gr_iff Max_insert Min_insert) (cases hs; simp add: M max_def min_def ohlc_def [abs_def])
    next
      case 2
      then show ?thesis unfolding o1 step [unfolded o1] snoc.IH gs
        by (simp add: stepObs_def stateOf_def stepBucket_def addObs_def ohlc_def Let_def)
    next
      case 3
      then show ?thesis unfolding o1 step [unfolded o1] snoc.IH gs
        by (cases hs) (auto simp: stepObs_def stateOf_def stepBucket_def addObs_def ohlc_def [abs_def] Let_def butlast_append)
    qed
  qed
qed (simp add: runBucket_def bucketsOf_def stateOf_def)

text \<open>What was emitted lies strictly after the first bucket, each bucket once.\<close>

lemma emitted_after_first:
  assumes "bucketsOf os = g # gs" "c \<in> set (snd (runBucket os))"
  shows "fst g < cr_bucketTs c"
proof -
  have "\<forall>h \<in> set gs. fst g < fst h" using buckets_sorted [of os] assms(1) by simp
  moreover obtain h where "h \<in> set gs" "c = ohlc h"
    using assms runBucket_reference [of os] by (auto dest: in_set_butlastD)
  ultimately show ?thesis by (simp add: ohlc_def)
qed

lemma addObs_nonempty [simp]: "addObs gs o1 \<noteq> []"
  by (simp add: addObs_def)

lemma buckets_some [simp]: "bucketsOf (o1 # os) \<noteq> []"
  unfolding bucketsOf_def by (induction os rule: rev_induct) simp_all

lemma first_bucket: "bucketsOf (o1 # os) = g # gs \<Longrightarrow> fst g = fst o1"
proof (induction os arbitrary: g gs rule: rev_induct)
  case (snoc o2 os)
  obtain h hs where "bucketsOf (o1 # os) = h # hs"
    by (cases "bucketsOf (o1 # os)") (use buckets_some in auto)
  moreover have "bucketsOf (o1 # os @ [o2]) = addObs (bucketsOf (o1 # os)) o2" by (simp add: bucketsOf_def)
  ultimately show ?case
    using snoc.IH [of h hs] snoc.prems by (cases hs rule: rev_cases) (auto simp: addObs_def split: if_split_asm)
qed (simp add: bucketsOf_def addObs_def)

section \<open>Lemmas: the aggregator, one series at a time\<close>

text \<open>A fold over distinct keys touches the part of one key once.\<close>

lemma fold_one_key:
  assumes other: "\<And>y s. key y \<noteq> key x \<Longrightarrow> V (f y s) = V s"
    and own: "\<And>s t. V s = V t \<Longrightarrow> V (f x s) = V (f x t)"
  shows "distinct (map key xs) \<Longrightarrow> V (fold f xs s) = (if x \<in> set xs then V (f x s) else if key x \<in> key ` set xs then V (fold f xs s) else V s)"
proof (induction xs arbitrary: s)
  case (Cons y ys)
  show ?case
  proof (cases "x = y")
    case True
    then have "x \<notin> set ys" "key x \<notin> key ` set ys" using Cons.prems by (auto simp: image_iff)
    then show ?thesis using Cons.IH [of "f x s"] Cons.prems True by simp
  next
    case False
    show ?thesis
    proof (cases "key y = key x")
      case True
      then have "x \<notin> set ys" using Cons.prems by (auto simp: image_iff)
      then show ?thesis using False True by simp
    next
      case ne: False
      then have "V (f y s) = V s" by (rule other)
      then show ?thesis using Cons.IH [of "f y s"] Cons.prems False ne own [of "f y s" s] by (auto simp: image_iff)
    qed
  qed
qed simp

text \<open>The part of one series: its bucket state and its rows.\<close>

definition series :: "string \<Rightarrow> string \<Rightarrow> aggregator \<Rightarrow> bucket_state option \<times> (int \<Rightarrow> candle_row option)" where
  "series a i s = (map_of (ag_state s) (a, i), \<lambda>b. map_of (ag_candles s) (a, i, b))"

definition stepSeries :: "bool \<Rightarrow> int \<Rightarrow> int \<Rightarrow> bucket_state option \<times> (int \<Rightarrow> candle_row option) \<Rightarrow> bucket_state option \<times> (int \<Rightarrow> candle_row option)" where
  "stepSeries fails bucket price v =
     (let (st, closed) = stepBucket (fst v) bucket price
      in (Some st, case closed of Some c \<Rightarrow> if fails then snd v else (snd v)(cr_bucketTs c \<mapsto> c) | None \<Rightarrow> snd v))"

lemma series_foldPrice:
  "series a i (foldPrice E b ts price iv s) = (if b = a \<and> iv_name iv = i
     then stepSeries (pe_writeFails E a i) (bucketStart ts (iv_sec iv) (iv_offset iv)) price (series a i s) else series a i s)"
  by (auto simp: series_def stepSeries_def foldPrice_def writeClosed_def Let_def fun_eq_iff split: prod.split option.split)

lemma intervals_distinct: "distinct (map iv_name CANDLE_INTERVALS)"
  by (simp add: CANDLE_INTERVALS_def)

lemma series_intervals:
  assumes "iv \<in> set CANDLE_INTERVALS"
  shows "series a (iv_name iv) (fold (foldPrice E b ts price) CANDLE_INTERVALS s) = (if b = a
     then stepSeries (pe_writeFails E a (iv_name iv)) (bucketStart ts (iv_sec iv) (iv_offset iv)) price (series a (iv_name iv) s)
     else series a (iv_name iv) s)"
proof (cases "b = a")
  case True
  then show ?thesis
    using fold_one_key [where V = "series a (iv_name iv)" and f = "foldPrice E b ts price" and key = iv_name and x = iv,
        OF _ _ intervals_distinct, of s] assms
    by (simp add: series_foldPrice)
next
  case False
  have "series a (iv_name iv) (fold (foldPrice E b ts price) ivs s) = series a (iv_name iv) s" for ivs
    using False by (induction ivs arbitrary: s) (simp_all add: series_foldPrice)
  then show ?thesis using False by simp
qed

text \<open>What one turn observes of an asset.\<close>

definition obsOf :: "string \<Rightarrow> interval_def \<Rightarrow> poll_candles_env \<Rightarrow> (int \<times> int) option" where
  "obsOf asset iv E = (case pe_latest E of Inl err \<Rightarrow> None | Inr latest \<Rightarrow>
     map_option (\<lambda>(ts, price). (bucketStart ts (iv_sec iv) (iv_offset iv), price)) (observed (latest (asset @ ''/USD''))))"

lemma series_poll:
  assumes "iv \<in> set CANDLE_INTERVALS" "a \<in> set assets" "distinct assets"
  shows "series a (iv_name iv) (pollCandles assets E s) = (case obsOf a iv E of None \<Rightarrow> series a (iv_name iv) s
     | Some (b, p) \<Rightarrow> stepSeries (pe_writeFails E a (iv_name iv)) b p (series a (iv_name iv) s))"
proof (cases "pe_latest E")
  case (Inr latest)
  let ?V = "series a (iv_name iv)"
  have asset: "?V (pollAsset E latest b s) = (if b = a then (case observed (latest (a @ ''/USD'')) of None \<Rightarrow> ?V s
      | Some (ts, p) \<Rightarrow> stepSeries (pe_writeFails E a (iv_name iv)) (bucketStart ts (iv_sec iv) (iv_offset iv)) p (?V s)) else ?V s)" for b s
    by (auto simp: pollAsset_def series_intervals [OF assms(1)] split: option.split)
  have other: "?V (pollAsset E latest b s) = ?V s" if "b \<noteq> a" for b s using that by (simp add: asset)
  have own: "?V (pollAsset E latest a s) = ?V (pollAsset E latest a t)" if "?V s = ?V t" for s t
    using that by (simp add: asset split: option.split)
  have "?V (fold (pollAsset E latest) assets s) = ?V (pollAsset E latest a s)"
    using fold_one_key [where V = ?V and f = "pollAsset E latest" and key = "\<lambda>x. x" and x = a and xs = assets and s = s,
        OF other own] assms(2,3) by simp
  then have "?V (pollCandles assets E s) = ?V (pollAsset E latest a s)" by (simp add: pollCandles_def Inr series_def)
  then show ?thesis by (auto simp: asset obsOf_def Inr split: option.split)
qed (simp add: pollCandles_def obsOf_def series_def)

text \<open>Over a run of turns: the code's state is that of the reference, and every row that was not there at the start is an
  emitted candle under its own bucket; without write failures every emitted candle is there.\<close>

definition obsOver :: "string \<Rightarrow> interval_def \<Rightarrow> poll_candles_env list \<Rightarrow> (int \<times> int) list" where
  "obsOver asset iv turns = List.map_filter (obsOf asset iv) turns"

lemma runBucket_snoc: "runBucket (os @ [o1]) = stepObs (runBucket os) o1"
  by (simp add: runBucket_def)

lemma series_run:
  assumes "iv \<in> set CANDLE_INTERVALS" "a \<in> set assets" "distinct assets" "ag_state s = []"
  defines "v turns \<equiv> series a (iv_name iv) (fold (pollCandles assets) turns s)"
  shows "fst (v turns) = fst (runBucket (obsOver a iv turns))
     \<and> (\<forall>b row. snd (v turns) b = Some row \<longrightarrow> snd (series a (iv_name iv) s) b = Some row
          \<or> row \<in> set (snd (runBucket (obsOver a iv turns))) \<and> cr_bucketTs row = b)
     \<and> (list_all (\<lambda>E. \<not> pe_writeFails E a (iv_name iv)) turns \<longrightarrow>
          (\<forall>b. b \<in> cr_bucketTs ` set (snd (runBucket (obsOver a iv turns))) \<longrightarrow>
             (\<exists>row \<in> set (snd (runBucket (obsOver a iv turns))). snd (v turns) b = Some row)))
     \<and> (\<forall>b. b \<notin> cr_bucketTs ` set (snd (runBucket (obsOver a iv turns))) \<longrightarrow> snd (v turns) b = snd (series a (iv_name iv) s) b)"
proof (induction turns rule: rev_induct)
  case Nil
  then show ?case by (simp add: v_def series_def assms(4) obsOver_def runBucket_def List.map_filter_simps)
next
  case (snoc E turns)
  have v: "v (turns @ [E]) = (case obsOf a iv E of None \<Rightarrow> v turns
      | Some (b, p) \<Rightarrow> stepSeries (pe_writeFails E a (iv_name iv)) b p (v turns))"
    by (simp add: v_def series_poll [OF assms(1-3)] split: option.split)
  show ?case
  proof (cases "obsOf a iv E")
    case None
    then have "obsOver a iv (turns @ [E]) = obsOver a iv turns" by (simp add: obsOver_def List.map_filter_def)
    then show ?thesis using snoc.IH by (simp add: v None)
  next
    case (Some o1)
    obtain b p where o1: "o1 = (b, p)" by fastforce
    have obs: "obsOver a iv (turns @ [E]) = obsOver a iv turns @ [(b, p)]" by (simp add: obsOver_def List.map_filter_def Some o1)
    obtain st closed where step: "stepBucket (fst (v turns)) b p = (st, closed)" by fastforce
    show ?thesis
    proof (cases closed)
      case None
      then show ?thesis using snoc.IH step unfolding obs runBucket_snoc v Some o1
        by (simp add: stepObs_def stepSeries_def)
    next
      case (Some c)
      then show ?thesis using snoc.IH step unfolding obs runBucket_snoc v \<open>obsOf a iv E = Some o1\<close> o1
        by (auto simp: stepObs_def stepSeries_def split: if_split_asm)
    qed
  qed
qed

section \<open>Properties\<close>

text \<open>A bucket starts at or before its timestamp, within one interval of it, on the grid of the interval and its
  offset: for the weekly interval that is Monday 00:00 UTC.\<close>

theorem bucketStart_aligned:
  assumes "iv \<in> set CANDLE_INTERVALS"
  shows "bucketStart ts (iv_sec iv) (iv_offset iv) \<le> ts \<and> ts < bucketStart ts (iv_sec iv) (iv_offset iv) + iv_sec iv
     \<and> iv_sec iv dvd bucketStart ts (iv_sec iv) (iv_offset iv) - iv_offset iv"
proof -
  have sec: "0 < iv_sec iv" using assms by (auto simp: CANDLE_INTERVALS_def)
  have "bucketStart ts (iv_sec iv) (iv_offset iv) - iv_offset iv = (ts - iv_offset iv) - (ts - iv_offset iv) mod iv_sec iv"
    using sec by (simp add: bucketStart_eq)
  then have "iv_sec iv dvd bucketStart ts (iv_sec iv) (iv_offset iv) - iv_offset iv" by (simp only: dvd_minus_mod)
  then show ?thesis using sec pos_mod_bound [OF sec, of "ts - iv_offset iv"] by (simp add: bucketStart_eq)
qed

text \<open>C29. The candles are true: folding prices one by one, the aggregator emits exactly the candles of a reference that
  keeps every price, one for each completed bucket but the first it saw, with the first and last price and the extremes
  of the bucket; prices of an older bucket than the newest are dropped.\<close>

theorem candles_are_ohlc:
  "snd (runBucket os) = map ohlc (butlast (drop 1 (bucketsOf os)))
   \<and> sorted_wrt (<) (map fst (bucketsOf os)) \<and> [] \<notin> snd ` set (bucketsOf os)"
  using runBucket_reference [of os] buckets_sorted [of os] buckets_nonempty [of _ os] by fastforce

text \<open>What the aggregator stores is what it observed: after a start and any turns of the loop, with any failures, each
  stored row of a tracked series was there after the seed or is the candle of a completed bucket of the polled prices.\<close>

theorem stored_candles_observed:
  assumes "iv \<in> set CANDLE_INTERVALS" "asset \<in> set assets" "distinct assets"
    and "map_of (ag_candles (startAggregator E assets turns t)) (asset, iv_name iv, b) = Some row"
  shows "map_of (seedAll E assets t) (asset, iv_name iv, b) = Some row
     \<or> (\<exists>g \<in> set (butlast (drop 1 (bucketsOf (obsOver asset iv turns)))). row = ohlc g \<and> fst g = b)"
proof -
  let ?s = "\<lparr>ag_state = [], ag_seeded = True, ag_writes = 0, ag_errors = 0, ag_lastPollOkAt = None,
       ag_lastWriteAt = None, ag_candles = seedAll E assets t\<rparr>"
  have "snd (series asset (iv_name iv) (fold (pollCandles assets) turns ?s)) b = Some row"
    using assms(4) by (simp add: startAggregator_def series_def)
  then have "snd (series asset (iv_name iv) ?s) b = Some row
      \<or> row \<in> set (snd (runBucket (obsOver asset iv turns))) \<and> cr_bucketTs row = b"
    using series_run [OF assms(1-3), of ?s turns] by simp
  then show ?thesis
    by (auto simp: series_def runBucket_reference ohlc_def)
qed

text \<open>The bar in progress at a start is never corrected: up to the first bucket the aggregator observes, the stored rows
  stay those of the seed, whatever is polled later.\<close>

theorem boundary_bar_stays:
  assumes "iv \<in> set CANDLE_INTERVALS" "asset \<in> set assets" "distinct assets"
    and "obsOver asset iv turns = (first, p) # later" "b \<le> first"
  shows "map_of (ag_candles (startAggregator E assets turns t)) (asset, iv_name iv, b) = map_of (seedAll E assets t) (asset, iv_name iv, b)"
proof -
  let ?s = "\<lparr>ag_state = [], ag_seeded = True, ag_writes = 0, ag_errors = 0, ag_lastPollOkAt = None,
       ag_lastWriteAt = None, ag_candles = seedAll E assets t\<rparr>"
  obtain g gs where g: "bucketsOf (obsOver asset iv turns) = g # gs"
    using buckets_some [of "(first, p)" later] assms(4) by (cases "bucketsOf (obsOver asset iv turns)") auto
  have "fst g = first" using first_bucket [of "(first, p)" later g gs] g assms(4) by simp
  then have "b \<notin> cr_bucketTs ` set (snd (runBucket (obsOver asset iv turns)))"
    using emitted_after_first [OF g] assms(5) by fastforce
  then have "snd (series asset (iv_name iv) (fold (pollCandles assets) turns ?s)) b = snd (series asset (iv_name iv) ?s) b"
    using series_run [OF assms(1-3), of ?s turns] by simp
  then show ?thesis by (simp add: startAggregator_def series_def)
qed

text \<open>The rows of one series; a seed leaves a series that has rows alone.\<close>

definition seriesRows :: "string \<Rightarrow> string \<Rightarrow> candle_table \<Rightarrow> candle_table" where
  "seriesRows a i t = filter (\<lambda>((b, j, _), _). b = a \<and> j = i) t"

lemma map_of_seriesRows: "map_of (seriesRows a i t) (a, i, b) = map_of t (a, i, b)"
  unfolding seriesRows_def by (induction t) auto

lemma seriesRows_insert: "(a, i) \<noteq> (b, j) \<Longrightarrow> seriesRows a i (seedInsert b j ks t) = seriesRows a i t"
  unfolding seedInsert_def by (induction ks arbitrary: t) (auto simp: seriesRows_def)

lemma seriesRows_chunks: "(a, i) \<noteq> (b, j) \<Longrightarrow> seriesRows a i (fst (seedChunks b j failing ks t)) = seriesRows a i t"
proof (induction b j failing ks t rule: seedChunks.induct)
  case (1 b j failing ks t)
  then show ?case by (subst seedChunks.simps) (simp add: seriesRows_insert)
qed

lemma seriesRows_seed: "seriesRows a i t \<noteq> [] \<Longrightarrow> seriesRows a i (fst (seedFromBinance E b j t)) = seriesRows a i t"
proof (cases "(a, i) = (b, j)")
  case True
  moreover assume "seriesRows a i t \<noteq> []"
  ultimately have "candleCount b j t > 0" by (simp add: candleCount_def seriesRows_def)
  then show ?thesis by (simp add: seedFromBinance_def)
next
  case False
  have "seriesRows a i (fst (seedChunks b j f ks t)) = seriesRows a i t" for f ks using seriesRows_chunks [OF False] .
  then show ?thesis by (auto simp: seedFromBinance_def split: sum.split prod.split) (metis fst_conv)+
qed

lemma seriesRows_seedAll: "seriesRows a i t \<noteq> [] \<Longrightarrow> seriesRows a i (seedAll E assets t) = seriesRows a i t"
proof -
  assume rows: "seriesRows a i t \<noteq> []"
  have ivs: "seriesRows a i (fold (\<lambda>iv t. fst (seedFromBinance E b (iv_name iv) t)) ivs t) = seriesRows a i t"
    if "seriesRows a i t \<noteq> []" for b ivs t
    using that by (induction ivs arbitrary: t) (simp_all add: seriesRows_seed)
  show ?thesis
    unfolding seedAll_def using rows by (induction assets arbitrary: t) (simp_all add: ivs)
qed

text \<open>A restart loses a bar: a series that has rows is not seeded again, and the bucket in progress at the restart is
  never written, so when it had no row it never gets one.\<close>

theorem restart_leaves_gap:
  assumes "iv \<in> set CANDLE_INTERVALS" "asset \<in> set assets" "distinct assets" "candleCount asset (iv_name iv) t > 0"
    and "obsOver asset iv turns = (first, p) # later" "map_of t (asset, iv_name iv, first) = None"
  shows "map_of (ag_candles (startAggregator E assets turns t)) (asset, iv_name iv, first) = None"
proof -
  let ?s = "\<lparr>ag_state = [], ag_seeded = True, ag_writes = 0, ag_errors = 0, ag_lastPollOkAt = None,
       ag_lastWriteAt = None, ag_candles = seedAll E assets t\<rparr>"
  obtain g gs where g: "bucketsOf (obsOver asset iv turns) = g # gs"
    using buckets_some [of "(first, p)" later] assms(5) by (cases "bucketsOf (obsOver asset iv turns)") auto
  have "fst g = first" using first_bucket [of "(first, p)" later g gs] g assms(5) by simp
  then have "first \<notin> cr_bucketTs ` set (snd (runBucket (obsOver asset iv turns)))"
    using emitted_after_first [OF g] by fastforce
  then have kept: "map_of (ag_candles (startAggregator E assets turns t)) (asset, iv_name iv, first)
      = map_of (seedAll E assets t) (asset, iv_name iv, first)"
    using series_run [OF assms(1-3), of ?s turns] by (simp add: startAggregator_def series_def)
  have "seriesRows asset (iv_name iv) t \<noteq> []" using assms(4) by (simp add: candleCount_def seriesRows_def)
  from seriesRows_seedAll [OF this] show ?thesis
    using assms(6) kept by (metis map_of_seriesRows)
qed

section \<open>Witnesses\<close>

abbreviation weekly :: interval_def where
  "weekly \<equiv> \<lparr>iv_name = ''1w'', iv_sec = 604800, iv_offset = 345600\<rparr>"

abbreviation minutely :: interval_def where
  "minutely \<equiv> \<lparr>iv_name = ''1m'', iv_sec = 60, iv_offset = 0\<rparr>"

lemma sample_intervals: "weekly \<in> set CANDLE_INTERVALS" "minutely \<in> set CANDLE_INTERVALS"
  by (simp_all add: CANDLE_INTERVALS_def)

theorem bucketStart_witness: "bucketStart 1700000000 604800 345600 \<le> 1700000000 \<and> 604800 dvd bucketStart 1700000000 604800 345600 - 345600"
  using bucketStart_aligned [OF sample_intervals(1), of 1700000000] by simp

definition sampleTurn :: "int \<Rightarrow> int \<Rightarrow> poll_candles_env" where
  "sampleTurn ts price = \<lparr>pe_latest = Inr (\<lambda>a. if a = ''X/USD'' then Some \<lparr>le_price = Some (Some price), le_timestamp = Some (Some ts)\<rparr> else None),
     pe_now = ts, pe_writeFails = (\<lambda>_ _. False)\<rparr>"

definition noSeed :: seed_env where
  "noSeed = \<lparr>se_countFails = (\<lambda>_ _. False), se_replies = (\<lambda>_ _. []), se_failing = (\<lambda>_ _. None)\<rparr>"

lemma sample_obs: "obsOver ''X'' minutely [sampleTurn 65 7, sampleTurn 125 9] = [(60, 7), (120, 9)]"
  by (simp add: obsOver_def List.map_filter_def obsOf_def sampleTurn_def observed_def bucketStart_eq)

theorem stored_candles_witness:
  "map_of (ag_candles (startAggregator noSeed [''X''] [sampleTurn 65 7, sampleTurn 125 9] [])) (''X'', ''1m'', 60) = None"
proof (rule ccontr)
  assume "\<not> ?thesis"
  then obtain row where row: "map_of (ag_candles (startAggregator noSeed [''X''] [sampleTurn 65 7, sampleTurn 125 9] [])) (''X'', iv_name minutely, 60) = Some row"
    by auto
  have "seedAll noSeed [''X''] [] = []" by (simp add: seedAll_def hasBinancePair_def BINANCE_PAIRS_def)
  then show False
    using stored_candles_observed [OF sample_intervals(2) _ _ row] unfolding sample_obs
    by (simp add: bucketsOf_def addObs_def)
qed

theorem boundary_bar_witness:
  "map_of (ag_candles (startAggregator noSeed [''X''] [sampleTurn 65 7, sampleTurn 125 9] [((''X'', ''1m'', 60), ohlc (60, [3]))])) (''X'', ''1m'', 60)
   = map_of (seedAll noSeed [''X''] [((''X'', ''1m'', 60), ohlc (60, [3]))]) (''X'', ''1m'', 60)"
  using boundary_bar_stays [OF sample_intervals(2) _ _ sample_obs, of "[''X'']" 60 noSeed "[((''X'', ''1m'', 60), ohlc (60, [3]))]"] by simp

theorem restart_leaves_gap_witness:
  "map_of (ag_candles (startAggregator noSeed [''X''] [sampleTurn 65 7, sampleTurn 125 9] [((''X'', ''1m'', 0), ohlc (0, [3]))])) (''X'', ''1m'', 60) = None"
  using restart_leaves_gap [OF sample_intervals(2) _ _ _ sample_obs, of "[''X'']" "[((''X'', ''1m'', 0), ohlc (0, [3]))]" noSeed]
  by (simp add: candleCount_def)

end
