(* ===== verification/ApiAuth.thy ===== *)
theory ApiAuth
  imports ScArgs JsString
begin

text \<open>
  Who is calling the API: the wallet challenge (\<open>api/src/services/walletAuth.ts\<close>), the key store
  (\<open>services/apiKeys.ts\<close>) and the bearer check (\<open>plugins/auth.ts\<close>). The Stellar SDK (parsing a signed transaction,
  checking a signature), the hash and the random source are parameters.
\<close>

section \<open>Definitions: wallet challenges\<close>

definition CHALLENGE_TTL_MS :: int where
  "CHALLENGE_TTL_MS = 5 * 60000"

record pending_challenge =
  pc_challenge :: "nat list"
  pc_expiresAt :: int

type_synonym wallet_auth = "(string, pending_challenge) jmap"

text \<open>What the SDK makes of an envelope: a fee bump, or operations, the hash and the signatures.\<close>

datatype data_value = ValueBytes "nat list" | ValueText string | NoValue
datatype parsed_op = ManageData data_value | OtherOp
datatype parsed_tx = FeeBumpTx | PlainTx "parsed_op list" "nat list" "string list"

text \<open>\<open>None\<close> is a call that throws.\<close>

record wallet_sdk =
  fromXDR :: "string \<Rightarrow> parsed_tx option"
  base64Bytes :: "string \<Rightarrow> nat list"
  publicKeyValid :: "string \<Rightarrow> bool"
  sigVerify :: "string \<Rightarrow> nat list \<Rightarrow> string \<Rightarrow> bool option"

definition gcChallenges :: "int \<Rightarrow> wallet_auth \<Rightarrow> wallet_auth" where
  "gcChallenges now w = jkeep (\<lambda>a. case map_of w a of Some p \<Rightarrow> \<not> pc_expiresAt p < now | None \<Rightarrow> True) w"

definition issueChallenge :: "nat list \<Rightarrow> int \<Rightarrow> string \<Rightarrow> wallet_auth \<Rightarrow> wallet_auth \<times> string \<times> int" where
  "issueChallenge bytes now address w =
     (jset address \<lparr>pc_challenge = bytes, pc_expiresAt = now + CHALLENGE_TTL_MS\<rparr> (gcChallenges now w),
      hexString bytes, now + CHALLENGE_TTL_MS)"

fun valueBytes :: "wallet_sdk \<Rightarrow> data_value \<Rightarrow> nat list option" where
  "valueBytes L (ValueBytes b) = Some b"
| "valueBytes L (ValueText t) = Some (base64Bytes L t)"
| "valueBytes L NoValue = None"

text \<open>The \<open>try\<close> block of \<open>verify\<close>: anything that throws answers false.\<close>

definition provesChallenge :: "wallet_sdk \<Rightarrow> string \<Rightarrow> nat list \<Rightarrow> string \<Rightarrow> bool" where
  "provesChallenge L address challenge pf =
     (case fromXDR L pf of
        Some (PlainTx (ManageData v # _) hash signatures) \<Rightarrow>
          valueBytes L v = Some challenge \<and> publicKeyValid L address
            \<and> list_ex (\<lambda>s. sigVerify L address hash s = Some True) signatures
      | _ \<Rightarrow> False)"

definition verifyWallet :: "wallet_sdk \<Rightarrow> int \<Rightarrow> string \<Rightarrow> string \<Rightarrow> string \<Rightarrow> wallet_auth \<Rightarrow> wallet_auth \<times> bool" where
  "verifyWallet L now address challengeHex pf w =
     (let w' = gcChallenges now w
      in case map_of w' address of
           None \<Rightarrow> (w', False)
         | Some p \<Rightarrow> (jdel address w', \<not> pc_expiresAt p < now \<and> hexString (pc_challenge p) = challengeHex
             \<and> provesChallenge L address (pc_challenge p) pf))"

text \<open>The calls one instance of the service receives: a challenge issued, or a proof checked.\<close>

datatype wallet_op =
    Issue (op_address: string) "nat list" (op_time: int)
  | Check (op_address: string) string string (op_time: int)

definition walletStep :: "wallet_sdk \<Rightarrow> wallet_op \<Rightarrow> wallet_auth \<Rightarrow> wallet_auth" where
  "walletStep L o' w = (case o' of
      Issue a b t \<Rightarrow> fst (issueChallenge b t a w)
    | Check a c p t \<Rightarrow> fst (verifyWallet L t a c p w))"

abbreviation walletRun :: "wallet_sdk \<Rightarrow> wallet_op list \<Rightarrow> wallet_auth" where
  "walletRun L ops \<equiv> fold (walletStep L) ops []"

section \<open>Definitions: API keys\<close>

datatype key_tier = StandardTier | MarketMaker

record api_key =
  ak_secretHash :: string
  ak_owner :: string
  ak_tier :: key_tier
  ak_label :: "string option"
  ak_createdAt :: int
  ak_lastUsedAt :: "int option"
  ak_revokedAt :: "int option"

type_synonym key_table = "(string, api_key) jmap"

definition hashSecret :: "(string \<Rightarrow> string) \<Rightarrow> string \<Rightarrow> string \<Rightarrow> string" where
  "hashSecret sha256 pepper secret = sha256 (secret @ pepper)"

text \<open>The comparison that looks at every character: \<open>mismatch\<close> collects the differing bits.\<close>

definition timingSafeEqualHex :: "string \<Rightarrow> string \<Rightarrow> bool" where
  "timingSafeEqualHex a b =
     (length a = length b
      \<and> fold (\<lambda>i mismatch. or mismatch (xor (char_code (a ! i)) (char_code (b ! i)))) [0..<length a] 0 = 0)"

text \<open>A new key under a random id; the insert fails when the id is taken.\<close>

definition issueKey :: "(string \<Rightarrow> string) \<Rightarrow> string \<Rightarrow> string \<Rightarrow> string \<Rightarrow> int \<Rightarrow> string \<Rightarrow> string option \<Rightarrow> key_tier
    \<Rightarrow> key_table \<Rightarrow> key_table \<times> (string + string \<times> string)" where
  "issueKey sha256 pepper idHex secret now owner label tier K =
     (let keyId = ''nk_'' @ idHex
      in if map_of K keyId \<noteq> None then (K, Inl ''duplicate key'')
         else (jset keyId \<lparr>ak_secretHash = hashSecret sha256 pepper secret, ak_owner = owner, ak_tier = tier, ak_label = label,
             ak_createdAt = now, ak_lastUsedAt = None, ak_revokedAt = None\<rparr> K, Inr (keyId, secret)))"

definition lookupForAuth :: "(string \<Rightarrow> string) \<Rightarrow> string \<Rightarrow> string \<Rightarrow> string \<Rightarrow> key_table \<Rightarrow> api_key option" where
  "lookupForAuth sha256 pepper keyId presented K =
     (case map_of K keyId of
        None \<Rightarrow> None
      | Some row \<Rightarrow>
          if ak_revokedAt row \<noteq> None then None
          else if \<not> timingSafeEqualHex (hashSecret sha256 pepper presented) (ak_secretHash row) then None
          else Some row)"

text \<open>The detached update of a successful lookup; it may never happen.\<close>

definition touchKey :: "int \<Rightarrow> string \<Rightarrow> key_table \<Rightarrow> key_table" where
  "touchKey now keyId K = (case map_of K keyId of None \<Rightarrow> K | Some row \<Rightarrow> jset keyId (row\<lparr>ak_lastUsedAt := Some now\<rparr>) K)"

definition lookupKey :: "string \<Rightarrow> key_table \<Rightarrow> api_key option" where
  "lookupKey keyId K = (case map_of K keyId of None \<Rightarrow> None | Some row \<Rightarrow> if ak_revokedAt row \<noteq> None then None else Some row)"

definition listForOwner :: "string \<Rightarrow> key_table \<Rightarrow> (string \<times> api_key) list" where
  "listForOwner owner K = js_sort (\<lambda>a b. ak_createdAt (snd b) - ak_createdAt (snd a)) (filter (\<lambda>p. ak_owner (snd p) = owner) K)"

definition activeKey :: "string \<Rightarrow> string \<times> api_key \<Rightarrow> bool" where
  "activeKey owner p \<longleftrightarrow> ak_owner (snd p) = owner \<and> ak_revokedAt (snd p) = None"

definition countActiveForOwner :: "string \<Rightarrow> key_table \<Rightarrow> nat" where
  "countActiveForOwner owner K = length (filter (activeKey owner) K)"

text \<open>An update of every row that matches, with the number of rows it changed.\<close>

definition revokeWhere :: "(string \<times> api_key \<Rightarrow> bool) \<Rightarrow> int \<Rightarrow> key_table \<Rightarrow> key_table \<times> nat" where
  "revokeWhere P now K =
     (map (\<lambda>p. if P p \<and> ak_revokedAt (snd p) = None then (fst p, (snd p)\<lparr>ak_revokedAt := Some now\<rparr>) else p) K,
      length (filter (\<lambda>p. P p \<and> ak_revokedAt (snd p) = None) K))"

definition revokeAllWithLabel :: "string \<Rightarrow> string \<Rightarrow> int \<Rightarrow> key_table \<Rightarrow> key_table \<times> nat" where
  "revokeAllWithLabel owner label = revokeWhere (\<lambda>p. ak_owner (snd p) = owner \<and> ak_label (snd p) = Some label)"

definition revokeKey :: "string \<Rightarrow> string \<Rightarrow> int \<Rightarrow> key_table \<Rightarrow> key_table \<times> bool" where
  "revokeKey keyId owner now K =
     (let (K', n) = revokeWhere (\<lambda>p. fst p = keyId \<and> ak_owner (snd p) = owner) now K in (K', n > 0))"

section \<open>Definitions: the bearer\<close>

definition TIMESTAMP_TOLERANCE_SEC :: rat where
  "TIMESTAMP_TOLERANCE_SEC = 30"

datatype auth_failure = MissingBearer | MalformedBearer | MissingTimestamp | StaleTimestamp | InvalidCredentials

record api_user =
  us_keyId :: string
  us_owner :: string
  us_tier :: key_tier

text \<open>The headers: \<open>authorization\<close>, and \<open>x-timestamp\<close> as \<open>Number\<close> reads it (\<open>None\<close> when that is not finite).\<close>

record auth_headers =
  hd_authorization :: string
  hd_timestamp :: "rat option option"

definition userOf :: "string \<Rightarrow> api_key \<Rightarrow> api_user" where
  "userOf keyId row = \<lparr>us_keyId = keyId, us_owner = ak_owner row, us_tier = ak_tier row\<rparr>"

definition resolveRequestUser :: "(string \<Rightarrow> string) \<Rightarrow> string \<Rightarrow> int \<Rightarrow> auth_headers \<Rightarrow> key_table \<Rightarrow> auth_failure + api_user" where
  "resolveRequestUser sha256 pepper now h K =
     (if \<not> starts_with ''Bearer '' (hd_authorization h) then Inl MissingBearer
      else let bearer = trim (drop 7 (hd_authorization h)) in
        if CHR '':'' \<notin> set bearer then Inl MalformedBearer
        else let keyId = takeWhile (\<lambda>c. c \<noteq> CHR '':'') bearer; secret = drop (length keyId + 1) bearer in
          case hd_timestamp h of
            None \<Rightarrow> Inl MissingTimestamp
          | Some stamp \<Rightarrow>
              (case stamp of
                 None \<Rightarrow> Inl StaleTimestamp
               | Some ts \<Rightarrow>
                   if \<bar>of_int now - ts\<bar> > TIMESTAMP_TOLERANCE_SEC then Inl StaleTimestamp
                   else case lookupForAuth sha256 pepper keyId secret K of
                     None \<Rightarrow> Inl InvalidCredentials
                   | Some row \<Rightarrow> Inr (userOf keyId row)))"

text \<open>The pre-handler: an earlier hook may have resolved the user already; otherwise a failure is a 401.\<close>

definition requireAuth :: "(string \<Rightarrow> string) \<Rightarrow> string \<Rightarrow> int \<Rightarrow> auth_headers \<Rightarrow> key_table \<Rightarrow> api_user option \<Rightarrow> (nat \<times> auth_failure) + api_user" where
  "requireAuth sha256 pepper now h K user =
     (case user of Some u \<Rightarrow> Inr u
      | None \<Rightarrow> map_sum (\<lambda>f. (401, f)) id (resolveRequestUser sha256 pepper now h K))"

text \<open>What happens to the key table over time.\<close>

datatype key_op =
    IssueOp string string int string "string option" key_tier
  | TouchOp int string
  | RevokeOp string string int
  | RevokeLabelOp string string int

definition keyOp :: "(string \<Rightarrow> string) \<Rightarrow> string \<Rightarrow> key_op \<Rightarrow> key_table \<Rightarrow> key_table" where
  "keyOp sha256 pepper o' K = (case o' of
      IssueOp i s t w l r \<Rightarrow> fst (issueKey sha256 pepper i s t w l r K)
    | TouchOp t k \<Rightarrow> touchKey t k K
    | RevokeOp k w t \<Rightarrow> fst (revokeKey k w t K)
    | RevokeLabelOp w l t \<Rightarrow> fst (revokeAllWithLabel w l t K))"

section \<open>Lemmas\<close>

lemma fold_or_zero: "fold (\<lambda>i m. or m (f i)) xs (m::nat) = 0 \<longleftrightarrow> m = 0 \<and> (\<forall>i \<in> set xs. f i = 0)"
  by (induction xs arbitrary: m) (auto simp: or_eq_0_iff)

lemma xor_zero: "xor m n = 0 \<longleftrightarrow> m = (n::nat)"
  by (auto simp: bit_eq_iff bit_xor_iff)

lemma char_code_inj [simp]: "char_code c = char_code d \<longleftrightarrow> c = d"
  by (simp add: char_code_def)

lemma map_of_revokeWhere:
  "map_of (fst (revokeWhere P now K)) k
     = map_option (\<lambda>v. if P (k, v) \<and> ak_revokedAt v = None then v\<lparr>ak_revokedAt := Some now\<rparr> else v) (map_of K k)"
  by (induction K) (auto simp: revokeWhere_def)

lemma keys_revokeWhere [simp]: "map fst (fst (revokeWhere P now K)) = map fst K"
  by (simp add: revokeWhere_def)

lemma map_of_revokeKey:
  "map_of (fst (revokeKey keyId owner now K)) k
     = map_option (\<lambda>v. if k = keyId \<and> ak_owner v = owner \<and> ak_revokedAt v = None then v\<lparr>ak_revokedAt := Some now\<rparr> else v) (map_of K k)"
  by (simp add: revokeKey_def case_prod_unfold Let_def map_of_revokeWhere)

lemma map_of_revokeAllWithLabel:
  "map_of (fst (revokeAllWithLabel owner label now K)) k
     = map_option (\<lambda>v. if ak_owner v = owner \<and> ak_label v = Some label \<and> ak_revokedAt v = None then v\<lparr>ak_revokedAt := Some now\<rparr> else v) (map_of K k)"
  by (simp add: revokeAllWithLabel_def map_of_revokeWhere)

lemma revoked_row_stays:
  assumes "map_of K k = Some row" "ak_revokedAt row \<noteq> None"
  shows "\<exists>row'. map_of (fold (keyOp sha256 pepper) ops K) k = Some row' \<and> ak_revokedAt row' \<noteq> None"
  using assms
proof (induction ops arbitrary: K row)
  case (Cons o' ops)
  have "\<exists>r. map_of (keyOp sha256 pepper o' K) k = Some r \<and> ak_revokedAt r \<noteq> None"
    using Cons.prems
    by (cases o') (auto simp: keyOp_def issueKey_def Let_def touchKey_def map_of_revokeKey map_of_revokeAllWithLabel split: option.split)
  then show ?case using Cons.IH by auto
qed auto

lemma revokeKey_revokes:
  assumes "snd (revokeKey keyId owner now K)" "distinct (map fst K)"
  shows "\<exists>row. map_of (fst (revokeKey keyId owner now K)) keyId = Some row \<and> ak_revokedAt row \<noteq> None"
proof -
  obtain v where v: "(keyId, v) \<in> set K" "ak_owner v = owner" "ak_revokedAt v = None"
    using assms(1) by (auto simp: revokeKey_def revokeWhere_def filter_empty_conv)
  then have "map_of K keyId = Some v" using assms(2) by simp
  then show ?thesis using v by (simp add: map_of_revokeKey)
qed

text \<open>The constant-time comparison is equality.\<close>

lemma timing_eq: "timingSafeEqualHex a b \<longleftrightarrow> a = b"
  unfolding timingSafeEqualHex_def fold_or_zero xor_zero list_eq_iff_nth_eq [of a b] by auto

lemma at_colon: "CHR '':'' \<in> set b \<Longrightarrow>
    b = takeWhile (\<lambda>c. c \<noteq> CHR '':'') b @ CHR '':'' # drop (length (takeWhile (\<lambda>c. c \<noteq> CHR '':'') b) + 1) b"
  by (induction b) auto

lemma lookupForAuth_iff:
  "lookupForAuth sha256 pepper k secret K = Some row \<longleftrightarrow>
     map_of K k = Some row \<and> ak_revokedAt row = None \<and> ak_secretHash row = sha256 (secret @ pepper)"
  by (auto simp: lookupForAuth_def timing_eq hashSecret_def split: option.splits)

text \<open>The challenge issued last, never touched since by its address, and not expired at any call in between.\<close>

definition liveChallenge :: "string \<Rightarrow> nat list \<Rightarrow> int \<Rightarrow> wallet_op list \<Rightarrow> bool" where
  "liveChallenge a b t ops \<longleftrightarrow> (\<exists>pre mid. ops = pre @ Issue a b t # mid
     \<and> list_all (\<lambda>o'. op_address o' \<noteq> a \<and> op_time o' \<le> t + CHALLENGE_TTL_MS) mid)"

lemma liveChallenge_snoc:
  "liveChallenge a b t (ops @ [o']) \<longleftrightarrow>
     o' = Issue a b t \<or> op_address o' \<noteq> a \<and> op_time o' \<le> t + CHALLENGE_TTL_MS \<and> liveChallenge a b t ops"
  (is "?l \<longleftrightarrow> ?r")
proof
  assume ?l
  then obtain pre mid where m: "ops @ [o'] = pre @ Issue a b t # mid"
      "list_all (\<lambda>o'. op_address o' \<noteq> a \<and> op_time o' \<le> t + CHALLENGE_TTL_MS) mid"
    unfolding liveChallenge_def by blast
  then show ?r by (cases mid rule: rev_cases) (auto simp: liveChallenge_def)
next
  assume ?r
  then show ?l
  proof
    assume "o' = Issue a b t"
    then show ?l unfolding liveChallenge_def by (intro exI [of _ ops] exI [of _ "[]"]) simp
  next
    assume r: "op_address o' \<noteq> a \<and> op_time o' \<le> t + CHALLENGE_TTL_MS \<and> liveChallenge a b t ops"
    then obtain pre mid where "ops = pre @ Issue a b t # mid"
        "list_all (\<lambda>o'. op_address o' \<noteq> a \<and> op_time o' \<le> t + CHALLENGE_TTL_MS) mid"
      unfolding liveChallenge_def by blast
    with r show ?l unfolding liveChallenge_def by (intro exI [of _ pre] exI [of _ "mid @ [o']"]) simp
  qed
qed

lemma map_of_gc: "map_of (gcChallenges now w) a = (case map_of w a of Some p \<Rightarrow> if pc_expiresAt p < now then None else Some p | None \<Rightarrow> None)"
  by (auto simp: gcChallenges_def split: option.split)

lemma walletRun_pending:
  "map_of (walletRun L ops) a = Some p \<longleftrightarrow>
     (\<exists>b t. liveChallenge a b t ops \<and> p = \<lparr>pc_challenge = b, pc_expiresAt = t + CHALLENGE_TTL_MS\<rparr>)"
proof (induction ops rule: rev_induct)
  case Nil
  then show ?case by (simp add: liveChallenge_def)
next
  case (snoc o' ops)
  have run: "walletRun L (ops @ [o']) = walletStep L o' (walletRun L ops)" by simp
  show ?case
  proof (cases "op_address o' = a")
    case True
    then show ?thesis unfolding run
      by (cases o') (auto simp: walletStep_def issueChallenge_def verifyWallet_def Let_def map_of_gc liveChallenge_snoc split: option.split)
  next
    case False
    then have "map_of (walletStep L o' (walletRun L ops)) a
        = (case map_of (walletRun L ops) a of Some p \<Rightarrow> if pc_expiresAt p < op_time o' then None else Some p | None \<Rightarrow> None)"
      by (cases o') (auto simp: walletStep_def issueChallenge_def verifyWallet_def Let_def map_of_gc split: option.split)
    then show ?thesis using False snoc unfolding run
      by (auto simp: liveChallenge_snoc split: option.splits if_splits)
  qed
qed

lemma verify_accepts:
  "snd (verifyWallet L now a c pf (walletRun L ops)) \<longleftrightarrow>
     (\<exists>b t. liveChallenge a b t ops \<and> now \<le> t + CHALLENGE_TTL_MS \<and> hexString b = c \<and> provesChallenge L a b pf)"
proof (cases "map_of (walletRun L ops) a")
  case None
  then have "\<not> liveChallenge a b t ops" for b t using walletRun_pending [of L ops a] by fastforce
  then show ?thesis using None by (simp add: verifyWallet_def map_of_gc)
next
  case (Some p)
  then obtain b t where p: "liveChallenge a b t ops" "p = \<lparr>pc_challenge = b, pc_expiresAt = t + CHALLENGE_TTL_MS\<rparr>"
    using walletRun_pending by blast
  have only: "b' = b \<and> t' = t" if "liveChallenge a b' t' ops" for b' t'
    using that p Some walletRun_pending [of L ops a "\<lparr>pc_challenge = b', pc_expiresAt = t' + CHALLENGE_TTL_MS\<rparr>"] by auto
  show ?thesis
  proof
    assume "snd (verifyWallet L now a c pf (walletRun L ops))"
    then have "now \<le> t + CHALLENGE_TTL_MS \<and> hexString b = c \<and> provesChallenge L a b pf"
      using Some p(2) by (simp add: verifyWallet_def map_of_gc Let_def split: if_splits)
    then show "\<exists>b t. liveChallenge a b t ops \<and> now \<le> t + CHALLENGE_TTL_MS \<and> hexString b = c \<and> provesChallenge L a b pf"
      using p(1) by blast
  next
    assume "\<exists>b t. liveChallenge a b t ops \<and> now \<le> t + CHALLENGE_TTL_MS \<and> hexString b = c \<and> provesChallenge L a b pf"
    then have "now \<le> t + CHALLENGE_TTL_MS \<and> hexString b = c \<and> provesChallenge L a b pf" using only by metis
    then show "snd (verifyWallet L now a c pf (walletRun L ops))"
      using Some p(2) by (simp add: verifyWallet_def map_of_gc Let_def)
  qed
qed

section \<open>Properties\<close>

text \<open>C17. The wallet challenge authenticates: after any calls, a proof for an address is accepted exactly when the last
  call for that address issued a challenge, at most five minutes ago, whose bytes the proof carries in its first operation
  under a signature of the address; a second proof for the same challenge is never accepted.\<close>

theorem wallet_auth_one_shot:
  "(snd (verifyWallet L now a c pf (walletRun L ops)) \<longleftrightarrow>
      (\<exists>b t. liveChallenge a b t ops \<and> now \<le> t + CHALLENGE_TTL_MS \<and> hexString b = c \<and> provesChallenge L a b pf))
   \<and> \<not> snd (verifyWallet L later a c' pf' (walletRun L (ops @ [Check a c pf now])))"
proof -
  have "\<not> liveChallenge a b t (ops @ [Check a c pf now])" for b t by (simp add: liveChallenge_snoc)
  then show ?thesis using verify_accepts by blast
qed

text \<open>A bearer is accepted exactly when it names a key that is not revoked, its secret hashes to the stored hash, and
  the timestamp is within thirty seconds; the user is then the key's owner with the key's tier.\<close>

theorem bearer_accepted_iff:
  "resolveRequestUser sha256 pepper now h K = Inr u \<longleftrightarrow>
     (\<exists>row secret ts. starts_with ''Bearer '' (hd_authorization h)
        \<and> trim (drop 7 (hd_authorization h)) = us_keyId u @ '':'' @ secret \<and> CHR '':'' \<notin> set (us_keyId u)
        \<and> hd_timestamp h = Some (Some ts) \<and> \<bar>of_int now - ts\<bar> \<le> 30
        \<and> map_of K (us_keyId u) = Some row \<and> ak_revokedAt row = None \<and> ak_secretHash row = sha256 (secret @ pepper)
        \<and> u = userOf (us_keyId u) row)"
  (is "_ \<longleftrightarrow> ?R")
proof -
  let ?b = "trim (drop 7 (hd_authorization h))"
  let ?k = "takeWhile (\<lambda>c. c \<noteq> CHR '':'') ?b"
  have upto: "CHR '':'' \<notin> set k \<Longrightarrow> takeWhile (\<lambda>c. c \<noteq> CHR '':'') (k @ CHR '':'' # t) = k" for k t
    by (induction k) auto
  have split: "?b = k @ '':'' @ secret \<and> CHR '':'' \<notin> set k \<longleftrightarrow> CHR '':'' \<in> set ?b \<and> k = ?k \<and> secret = drop (length ?k + 1) ?b" for k secret
  proof
    assume l: "?b = k @ '':'' @ secret \<and> CHR '':'' \<notin> set k"
    then have "?k = k" using upto by simp
    then show "CHR '':'' \<in> set ?b \<and> k = ?k \<and> secret = drop (length ?k + 1) ?b" using l by simp
  next
    assume r: "CHR '':'' \<in> set ?b \<and> k = ?k \<and> secret = drop (length ?k + 1) ?b"
    show "?b = k @ '':'' @ secret \<and> CHR '':'' \<notin> set k"
      using r at_colon [of ?b] set_takeWhileD [of "CHR '':''" _ ?b] by auto
  qed
  show ?thesis
  proof
    assume "resolveRequestUser sha256 pepper now h K = Inr u"
    then obtain row ts where "starts_with ''Bearer '' (hd_authorization h)" "CHR '':'' \<in> set ?b" "hd_timestamp h = Some (Some ts)"
        "\<bar>of_int now - ts\<bar> \<le> 30" "lookupForAuth sha256 pepper ?k (drop (length ?k + 1) ?b) K = Some row" "u = userOf ?k row"
      unfolding resolveRequestUser_def Let_def TIMESTAMP_TOLERANCE_SEC_def by (auto split: if_splits option.splits)
    moreover have "us_keyId u = ?k" using calculation by (simp add: userOf_def)
    ultimately show ?R using split [of ?k "drop (length ?k + 1) ?b"] unfolding lookupForAuth_iff
      by (intro exI [of _ row] exI [of _ "drop (length ?k + 1) ?b"] exI [of _ ts]) simp
  next
    assume ?R
    then obtain row secret ts where r: "starts_with ''Bearer '' (hd_authorization h)" "hd_timestamp h = Some (Some ts)"
        "\<bar>of_int now - ts\<bar> \<le> 30" "?b = us_keyId u @ '':'' @ secret \<and> CHR '':'' \<notin> set (us_keyId u)"
        "lookupForAuth sha256 pepper (us_keyId u) secret K = Some row" "u = userOf (us_keyId u) row"
      unfolding lookupForAuth_iff by blast
    have "CHR '':'' \<in> set ?b" "us_keyId u = ?k" "secret = drop (length ?k + 1) ?b" using split r(4) by blast+
    then show "resolveRequestUser sha256 pepper now h K = Inr u"
      using r(1-3,5,6) unfolding resolveRequestUser_def Let_def TIMESTAMP_TOLERANCE_SEC_def by simp
  qed
qed

text \<open>A revoked key is dead: after its owner revoked it, no request authenticates with it, whatever keys are issued,
  used or revoked in the meantime.\<close>

theorem revoked_key_is_dead:
  assumes "snd (revokeKey keyId owner now K)" "distinct (map fst K)"
  shows "resolveRequestUser sha256 pepper later h (fold (keyOp sha256 pepper) ops (fst (revokeKey keyId owner now K))) = Inr u
     \<longrightarrow> us_keyId u \<noteq> keyId"
proof -
  let ?K = "fst (revokeKey keyId owner now K)"
  obtain row where "map_of ?K keyId = Some row" "ak_revokedAt row \<noteq> None"
    using revokeKey_revokes [OF assms] by blast
  then obtain row' where row': "map_of (fold (keyOp sha256 pepper) ops ?K) keyId = Some row'" "ak_revokedAt row' \<noteq> None"
    using revoked_row_stays by blast
  show ?thesis
  proof
    assume "resolveRequestUser sha256 pepper later h (fold (keyOp sha256 pepper) ops ?K) = Inr u"
    then obtain k secret r where "lookupForAuth sha256 pepper k secret (fold (keyOp sha256 pepper) ops ?K) = Some r" "u = userOf k r"
      unfolding resolveRequestUser_def Let_def by (auto split: if_splits option.splits)
    then show "us_keyId u \<noteq> keyId" using row' unfolding lookupForAuth_iff by (auto simp: userOf_def)
  qed
qed

section \<open>Witnesses\<close>

definition sampleKeys :: key_table where
  "sampleKeys = [(''nk_a'', \<lparr>ak_secretHash = ''s#'', ak_owner = ''GA'', ak_tier = StandardTier, ak_label = None, ak_createdAt = 1,
     ak_lastUsedAt = None, ak_revokedAt = None\<rparr>)]"

text \<open>The key authenticates before it is revoked, and not after.\<close>

theorem revoked_key_witness:
  "resolveRequestUser id ''#'' 100 \<lparr>hd_authorization = ''Bearer nk_a:s'', hd_timestamp = Some (Some 90)\<rparr> sampleKeys
     = Inr \<lparr>us_keyId = ''nk_a'', us_owner = ''GA'', us_tier = StandardTier\<rparr>
   \<and> resolveRequestUser id ''#'' 100 \<lparr>hd_authorization = ''Bearer nk_a:s'', hd_timestamp = Some (Some 90)\<rparr>
       (fst (revokeKey ''nk_a'' ''GA'' 50 sampleKeys)) \<noteq> Inr \<lparr>us_keyId = ''nk_a'', us_owner = ''GA'', us_tier = StandardTier\<rparr>"
proof -
  let ?h = "\<lparr>hd_authorization = ''Bearer nk_a:s'', hd_timestamp = Some (Some 90)\<rparr> :: auth_headers"
  have found: "lookupForAuth id ''#'' ''nk_a'' ''s'' sampleKeys = Some (snd (hd sampleKeys))"
    unfolding lookupForAuth_iff by (simp add: sampleKeys_def)
  have trim: "trim ''nk_a:s'' = ''nk_a:s''" by (simp add: trim_def is_space_def char_code_def)
  have "resolveRequestUser id ''#'' 100 ?h sampleKeys = Inr (userOf ''nk_a'' (snd (hd sampleKeys)))"
    using found by (simp add: resolveRequestUser_def starts_with_def trim TIMESTAMP_TOLERANCE_SEC_def)
  moreover have "snd (revokeKey ''nk_a'' ''GA'' 50 sampleKeys)" "distinct (map fst sampleKeys)"
    by (simp_all add: revokeKey_def revokeWhere_def sampleKeys_def)
  from revoked_key_is_dead [OF this, where ops = "[]"] have
    "resolveRequestUser id ''#'' 100 ?h (fst (revokeKey ''nk_a'' ''GA'' 50 sampleKeys)) \<noteq> Inr \<lparr>us_keyId = ''nk_a'', us_owner = ''GA'', us_tier = StandardTier\<rparr>"
    by fastforce
  ultimately show ?thesis by (simp add: userOf_def sampleKeys_def)
qed

end
