(* ===== verification/ApiWs.thy ===== *)
theory ApiWs
  imports ApiAuth
begin

text \<open>
  The WebSocket endpoint: the connection manager (\<open>api/src/services/wsManager.ts\<close>) and the message handler with its
  login (\<open>plugins/ws.ts\<close>). Time is in milliseconds; a connection's token bucket is a rational, as the source refills it
  with fractions. A login awaits the key store, so it starts in one step and ends in another.
\<close>

section \<open>Definitions: the connection manager\<close>

definition SUPPORTED_ASSET_SYMBOLS :: "string list" where
  "SUPPORTED_ASSET_SYMBOLS = [''BTC'', ''ETH'', ''XLM'', ''SOL'', ''XRP'', ''ADA'', ''BNB'', ''TRX'', ''HYPE'', ''DOGE'', ''ZEC'',
     ''LINK'', ''BCH'', ''LTC'']"

definition isSupportedAsset :: "string \<Rightarrow> bool" where
  "isSupportedAsset a \<longleftrightarrow> a \<in> set SUPPORTED_ASSET_SYMBOLS"

record ws_options =
  maxConnections :: nat
  maxPerIp :: nat
  msgRate :: nat
  maxBufferedBytes :: nat

definition WS_DEFAULTS :: ws_options where
  "WS_DEFAULTS = \<lparr>maxConnections = 1000, maxPerIp = 20, msgRate = 20, maxBufferedBytes = 1048576\<rparr>"

record ws_conn =
  wc_ip :: string
  wc_isAlive :: bool
  wc_subscriptions :: "string list"
  wc_user :: "api_user option"

record rate_state =
  rs_tokens :: rat
  rs_last :: int

datatype ws_frame =
    HelloFrame | PongFrame | PingFrame
  | SubscribedFrame "string list" | RejectedFrame "string list" | UnsubscribedFrame "string list"
  | LoginOkFrame string key_tier | LoginFailedFrame string
  | ErrorFrame string
  | DataFrame string string
  | CloseFrame nat string | TerminateFrame

text \<open>
  The state of the process: the manager's maps, the failed logins of the handler, the logins whose lookup is under way,
  and everything sent, in order. An exception that leaves a detached promise ends a Node process: \<open>ws_crashed\<close>.
\<close>

record ws_server =
  ws_connections :: "(string, ws_conn) jmap"
  ws_perIp :: "(string, nat) jmap"
  ws_rate :: "(string, rate_state) jmap"
  ws_failedLogins :: "(string, nat) jmap"
  ws_pending :: "(string \<times> string \<times> string) list"
  ws_out :: "(string \<times> ws_frame) list"
  ws_crashed :: bool

definition emitFrame :: "string \<Rightarrow> ws_frame \<Rightarrow> ws_server \<Rightarrow> ws_server" where
  "emitFrame i f s = s\<lparr>ws_out := ws_out s @ [(i, f)]\<rparr>"

definition registerConn :: "ws_options \<Rightarrow> int \<Rightarrow> string \<Rightarrow> ws_conn \<Rightarrow> ws_server \<Rightarrow> ws_server \<times> string option" where
  "registerConn opts now i conn s =
     (if length (ws_connections s) \<ge> maxConnections opts then (s, Some ''server_full'')
      else let ipCount = jget_or (ws_perIp s) (wc_ip conn) 0
        in if ipCount \<ge> maxPerIp opts then (s, Some ''too_many_connections'')
           else (s\<lparr>ws_connections := jset i conn (ws_connections s), ws_perIp := jset (wc_ip conn) (ipCount + 1) (ws_perIp s),
               ws_rate := jset i \<lparr>rs_tokens = of_nat (msgRate opts), rs_last = now\<rparr> (ws_rate s)\<rparr>, None))"

definition unregisterConn :: "string \<Rightarrow> ws_server \<Rightarrow> ws_server" where
  "unregisterConn i s =
     (case map_of (ws_connections s) i of
        None \<Rightarrow> s
      | Some conn \<Rightarrow>
          let s' = s\<lparr>ws_connections := jdel i (ws_connections s), ws_rate := jdel i (ws_rate s)\<rparr>;
              ipCount = jget_or (ws_perIp s) (wc_ip conn) 0
          in if ipCount \<le> 1 then s'\<lparr>ws_perIp := jdel (wc_ip conn) (ws_perIp s')\<rparr>
             else s'\<lparr>ws_perIp := jset (wc_ip conn) (ipCount - 1) (ws_perIp s')\<rparr>)"

definition refill :: "ws_options \<Rightarrow> int \<Rightarrow> rate_state \<Rightarrow> rat" where
  "refill opts now r = min (of_nat (msgRate opts)) (rs_tokens r + of_int (now - rs_last r) / 1000 * of_nat (msgRate opts))"

definition allowMessage :: "ws_options \<Rightarrow> int \<Rightarrow> string \<Rightarrow> ws_server \<Rightarrow> ws_server \<times> bool" where
  "allowMessage opts now i s =
     (case (map_of (ws_connections s) i, map_of (ws_rate s) i) of
        (Some conn, Some r) \<Rightarrow>
          let tokens = refill opts now r
          in if tokens < 1
             then (emitFrame i (CloseFrame 1013 ''rate limit exceeded'') (emitFrame i (ErrorFrame ''rate_limited'')
                 (unregisterConn i (s\<lparr>ws_rate := jset i \<lparr>rs_tokens = tokens, rs_last = now\<rparr> (ws_rate s)\<rparr>))), False)
             else (s\<lparr>ws_rate := jset i \<lparr>rs_tokens = tokens - 1, rs_last = now\<rparr> (ws_rate s)\<rparr>, True)
      | _ \<Rightarrow> (s, False))"

definition ACCOUNT_PREFIX :: string where
  "ACCOUNT_PREFIX = ''account.events''"

definition accountChannel :: "string \<Rightarrow> string" where
  "accountChannel owner = ACCOUNT_PREFIX @ ''.'' @ owner"

definition canSubscribe :: "ws_conn \<Rightarrow> string \<Rightarrow> bool" where
  "canSubscribe conn channel =
     (if channel = ''events'' then True
      else if starts_with ''ticker.'' channel then isSupportedAsset (drop 7 channel)
      else if starts_with ''trades.'' channel then isSupportedAsset (drop 7 channel)
      else if starts_with (accountChannel []) channel then
        (case wc_user conn of None \<Rightarrow> False | Some u \<Rightarrow> drop (length ACCOUNT_PREFIX + 1) channel = us_owner u)
      else False)"

text \<open>The connection's set of channels grows by the accepted ones; the rejected ones are answered, \<open>None\<close> when there are none.\<close>

definition subscribeConn :: "string \<Rightarrow> string list \<Rightarrow> ws_server \<Rightarrow> ws_server \<times> string list option" where
  "subscribeConn i channels s =
     (case map_of (ws_connections s) i of
        None \<Rightarrow> (s, None)
      | Some conn \<Rightarrow>
          let rejected = filter (\<lambda>c. \<not> canSubscribe conn c) channels;
              subs = fold sadd (filter (canSubscribe conn) channels) (wc_subscriptions conn)
          in (s\<lparr>ws_connections := jset i (conn\<lparr>wc_subscriptions := subs\<rparr>) (ws_connections s)\<rparr>,
              if rejected = [] then None else Some rejected))"

definition unsubscribeConn :: "string \<Rightarrow> string list \<Rightarrow> ws_server \<Rightarrow> ws_server" where
  "unsubscribeConn i channels s =
     (case map_of (ws_connections s) i of
        None \<Rightarrow> s
      | Some conn \<Rightarrow> s\<lparr>ws_connections := jset i
          (conn\<lparr>wc_subscriptions := filter (\<lambda>c. c \<notin> set channels) (wc_subscriptions conn)\<rparr>) (ws_connections s)\<rparr>)"

definition setUser :: "string \<Rightarrow> api_user \<Rightarrow> ws_server \<Rightarrow> ws_server" where
  "setUser i user s =
     (case map_of (ws_connections s) i of
        None \<Rightarrow> s
      | Some conn \<Rightarrow> s\<lparr>ws_connections := jset i (conn\<lparr>wc_user := Some user\<rparr>) (ws_connections s)\<rparr>)"

definition sweepConn :: "string \<Rightarrow> ws_server \<Rightarrow> ws_server" where
  "sweepConn i s =
     (case map_of (ws_connections s) i of
        None \<Rightarrow> s
      | Some conn \<Rightarrow>
          if \<not> wc_isAlive conn then emitFrame i TerminateFrame (unregisterConn i s)
          else emitFrame i PingFrame (s\<lparr>ws_connections := jset i (conn\<lparr>wc_isAlive := False\<rparr>) (ws_connections s)\<rparr>))"

definition pingSweep :: "ws_server \<Rightarrow> ws_server" where
  "pingSweep s = fold sweepConn (jkeys (ws_connections s)) s"

text \<open>A broadcast: the subscribers whose buffer is not too full get the frame, then the slow ones are closed.\<close>

definition broadcast :: "ws_options \<Rightarrow> (string \<Rightarrow> nat) \<Rightarrow> string \<Rightarrow> string \<Rightarrow> ws_server \<Rightarrow> ws_server" where
  "broadcast opts buffered channel payload s =
     (let subs = filter (\<lambda>p. channel \<in> set (wc_subscriptions (snd p))) (ws_connections s);
          slow = filter (\<lambda>p. buffered (fst p) > maxBufferedBytes opts) subs;
          quick = filter (\<lambda>p. \<not> buffered (fst p) > maxBufferedBytes opts) subs
      in fold (\<lambda>p s. emitFrame (fst p) (CloseFrame 1013 ''backpressure'') (unregisterConn (fst p) s)) slow
           (fold (\<lambda>p. emitFrame (fst p) (DataFrame channel payload)) quick s))"

section \<open>Definitions: the handler\<close>

definition MAX_FAILED_LOGINS :: nat where
  "MAX_FAILED_LOGINS = 5"

text \<open>The \<open>channels\<close> of a message: not an array, or items that are strings or not.\<close>

definition pickChannels :: "string option list option \<Rightarrow> string list option" where
  "pickChannels value = (case value of None \<Rightarrow> None | Some items \<Rightarrow>
     if list_all (\<lambda>item. case item of None \<Rightarrow> False | Some c \<Rightarrow> c \<noteq> [] \<and> length c \<le> 200) items then Some (map the items) else None)"

text \<open>A text frame: not JSON, the JSON value \<open>null\<close>, or a message with its \<open>op\<close>.\<close>

datatype ws_message =
    NotJson | JsonNull
  | PingMsg | SubscribeMsg "string option list option" | UnsubscribeMsg "string option list option"
  | LoginMsg "string option" "string option" | UnknownMsg

definition failLogin :: "string \<Rightarrow> string \<Rightarrow> ws_server \<Rightarrow> ws_server" where
  "failLogin i err s = emitFrame i (LoginFailedFrame err)
     (s\<lparr>ws_failedLogins := jset i (jget_or (ws_failedLogins s) i 0 + 1) (ws_failedLogins s)\<rparr>)"

text \<open>The start of a login: the cap, the credentials, then the lookup goes out.\<close>

definition startLogin :: "string \<Rightarrow> string option \<Rightarrow> string option \<Rightarrow> ws_server \<Rightarrow> ws_server" where
  "startLogin i keyId secret s =
     (if jget_or (ws_failedLogins s) i 0 \<ge> MAX_FAILED_LOGINS
      then emitFrame i (CloseFrame 1008 ''too many failed logins'') (emitFrame i (LoginFailedFrame ''too_many_attempts'') s)
      else case (keyId, secret) of
        (Some k, Some w) \<Rightarrow> if k = [] \<or> w = [] then failLogin i ''missing_credentials'' s else s\<lparr>ws_pending := ws_pending s @ [(i, k, w)]\<rparr>
      | _ \<Rightarrow> failLogin i ''missing_credentials'' s)"

definition answerSubscribe :: "string \<Rightarrow> string list \<Rightarrow> ws_server \<Rightarrow> ws_server" where
  "answerSubscribe i channels s =
     (let (s', rejected) = subscribeConn i channels s;
          accepted = (case rejected of None \<Rightarrow> channels | Some r \<Rightarrow> filter (\<lambda>c. c \<notin> set r) channels);
          s'' = (if accepted \<noteq> [] then emitFrame i (SubscribedFrame accepted) s' else s')
      in case rejected of None \<Rightarrow> s'' | Some r \<Rightarrow> emitFrame i (RejectedFrame r) s'')"

text \<open>\<open>msg.op\<close> of \<open>null\<close> throws inside the detached promise.\<close>

definition handleMessage :: "string \<Rightarrow> ws_message \<Rightarrow> ws_server \<Rightarrow> ws_server" where
  "handleMessage i m s = (case m of
      NotJson \<Rightarrow> emitFrame i (ErrorFrame ''invalid_json'') s
    | JsonNull \<Rightarrow> s\<lparr>ws_crashed := True\<rparr>
    | PingMsg \<Rightarrow> emitFrame i PongFrame s
    | SubscribeMsg value \<Rightarrow>
        (case pickChannels value of None \<Rightarrow> emitFrame i (ErrorFrame ''invalid_channels'') s | Some cs \<Rightarrow> answerSubscribe i cs s)
    | UnsubscribeMsg value \<Rightarrow>
        (case pickChannels value of None \<Rightarrow> emitFrame i (ErrorFrame ''invalid_channels'') s
         | Some cs \<Rightarrow> emitFrame i (UnsubscribedFrame cs) (unsubscribeConn i cs s))
    | LoginMsg k w \<Rightarrow> startLogin i k w s
    | UnknownMsg \<Rightarrow> emitFrame i (ErrorFrame ''unknown_op'') s)"

text \<open>The end of a login: what the lookup answered, or that it threw.\<close>

datatype lookup_reply = LookupThrew | LookupRow "api_key option"

definition finishLogin :: "string \<Rightarrow> string \<Rightarrow> string \<Rightarrow> lookup_reply \<Rightarrow> ws_server \<Rightarrow> ws_server" where
  "finishLogin i k w reply s =
     (if (i, k, w) \<notin> set (ws_pending s) then s
      else let s' = s\<lparr>ws_pending := remove1 (i, k, w) (ws_pending s)\<rparr>
        in case reply of
             LookupThrew \<Rightarrow> s'\<lparr>ws_crashed := True\<rparr>
           | LookupRow None \<Rightarrow> failLogin i ''invalid_credentials'' s'
           | LookupRow (Some row) \<Rightarrow> emitFrame i (LoginOkFrame (ak_owner row) (ak_tier row))
               (setUser i (userOf k row) (s'\<lparr>ws_failedLogins := jdel i (ws_failedLogins s')\<rparr>)))"

definition openSocket :: "ws_options \<Rightarrow> int \<Rightarrow> string \<Rightarrow> string \<Rightarrow> ws_server \<Rightarrow> ws_server" where
  "openSocket opts now i ip s =
     (case registerConn opts now i \<lparr>wc_ip = ip, wc_isAlive = True, wc_subscriptions = [], wc_user = None\<rparr> s of
        (s', None) \<Rightarrow> emitFrame i HelloFrame s'
      | (s', Some reason) \<Rightarrow> emitFrame i (CloseFrame 1013 reason) s')"

definition closeSocket :: "string \<Rightarrow> ws_server \<Rightarrow> ws_server" where
  "closeSocket i s = (let s' = unregisterConn i s in s'\<lparr>ws_failedLogins := jdel i (ws_failedLogins s')\<rparr>)"

definition pongSocket :: "string \<Rightarrow> ws_server \<Rightarrow> ws_server" where
  "pongSocket i s = (case map_of (ws_connections s) i of None \<Rightarrow> s
     | Some conn \<Rightarrow> s\<lparr>ws_connections := jset i (conn\<lparr>wc_isAlive := True\<rparr>) (ws_connections s)\<rparr>)"

datatype ws_event =
    Opened string string int
  | Received string ws_message int
  | LookedUp string string string lookup_reply
  | Ponged string
  | Closed string
  | Swept
  | Broadcasted "string \<Rightarrow> nat" string string

definition wsStep :: "ws_options \<Rightarrow> ws_event \<Rightarrow> ws_server \<Rightarrow> ws_server" where
  "wsStep opts ev s = (if ws_crashed s then s else case ev of
      Opened i ip now \<Rightarrow> openSocket opts now i ip s
    | Received i m now \<Rightarrow> (let (s', ok) = allowMessage opts now i s in if ok then handleMessage i m s' else s')
    | LookedUp i k w reply \<Rightarrow> finishLogin i k w reply s
    | Ponged i \<Rightarrow> pongSocket i s
    | Closed i \<Rightarrow> closeSocket i s
    | Swept \<Rightarrow> pingSweep s
    | Broadcasted buffered channel payload \<Rightarrow> broadcast opts buffered channel payload s)"

definition noSockets :: ws_server where
  "noSockets = \<lparr>ws_connections = [], ws_perIp = [], ws_rate = [], ws_failedLogins = [], ws_pending = [], ws_out = [], ws_crashed = False\<rparr>"

abbreviation wsRun :: "ws_options \<Rightarrow> ws_event list \<Rightarrow> ws_server" where
  "wsRun opts evs \<equiv> fold (wsStep opts) evs noSockets"

section \<open>Lemmas: the maps\<close>

definition ipCount :: "string \<Rightarrow> (string, ws_conn) jmap \<Rightarrow> nat" where
  "ipCount ip m = length (filter (\<lambda>p. wc_ip (snd p) = ip) m)"

lemma ipCount_new: "map_of m i = None \<Longrightarrow> ipCount ip (jset i c m) = ipCount ip m + (if wc_ip c = ip then 1 else 0)"
  by (simp add: jset_new ipCount_def set_jkeys_iff)

lemma length_new: "map_of m i = None \<Longrightarrow> length (jset i c m) = length m + 1"
  by (simp add: jset_new set_jkeys_iff)

lemma length_same: "map_of m i = Some c \<Longrightarrow> length (jset i c' m) = length m"
  by (induction m) (auto simp: jset_def)

lemma ipCount_same: "map_of m i = Some c \<Longrightarrow> wc_ip c' = wc_ip c \<Longrightarrow> ipCount ip (jset i c' m) = ipCount ip m"
  by (induction m) (auto simp: jset_def ipCount_def)

lemma jdel_absent: "map_of m i = None \<Longrightarrow> jdel i m = m"
  by (induction m) (auto simp: jdel_def split: if_splits)

lemma ipCount_del:
  "distinct (map fst m) \<Longrightarrow> map_of m i = Some c \<Longrightarrow> ipCount ip m = ipCount ip (jdel i m) + (if wc_ip c = ip then 1 else 0)"
proof (induction m)
  case (Cons p m)
  show ?case
  proof (cases "fst p = i")
    case True
    then have "map_of m i = None" using Cons.prems(1) by (simp add: map_of_eq_None_iff)
    then have "jdel i m = m" by (rule jdel_absent)
    then show ?thesis using Cons.prems(2) True by (simp add: ipCount_def jdel_def)
  next
    case False
    then show ?thesis using Cons by (cases p) (auto simp: ipCount_def jdel_def)
  qed
qed simp

lemma length_del_le: "length (jdel i m) \<le> length m"
  by (simp add: jdel_def)

lemma ipCount_pos: "map_of m i = Some c \<Longrightarrow> 0 < ipCount (wc_ip c) m"
  by (auto simp: ipCount_def filter_empty_conv dest!: map_of_SomeD intro!: bexI)

section \<open>Lemmas: the books of the manager\<close>

text \<open>What the manager keeps: its counters agree with its connections, and the caps hold.\<close>

definition wsBooks :: "ws_options \<Rightarrow> ws_server \<Rightarrow> bool" where
  "wsBooks opts s \<longleftrightarrow> distinct (map fst (ws_connections s)) \<and> length (ws_connections s) \<le> maxConnections opts
     \<and> (\<forall>ip. jget_or (ws_perIp s) ip 0 = ipCount ip (ws_connections s) \<and> ipCount ip (ws_connections s) \<le> maxPerIp opts)
     \<and> (\<forall>i. map_of (ws_rate s) i = None \<longleftrightarrow> map_of (ws_connections s) i = None)"

lemma emitFrame_simps [simp]:
  "ws_connections (emitFrame i f s) = ws_connections s" "ws_perIp (emitFrame i f s) = ws_perIp s"
  "ws_rate (emitFrame i f s) = ws_rate s" "ws_failedLogins (emitFrame i f s) = ws_failedLogins s"
  "ws_pending (emitFrame i f s) = ws_pending s" "ws_crashed (emitFrame i f s) = ws_crashed s"
  "ws_out (emitFrame i f s) = ws_out s @ [(i, f)]"
  by (simp_all add: emitFrame_def)

lemma wsBooks_cong:
  "ws_connections s' = ws_connections s \<Longrightarrow> ws_perIp s' = ws_perIp s \<Longrightarrow> ws_rate s' = ws_rate s \<Longrightarrow> wsBooks opts s' = wsBooks opts s"
  by (simp add: wsBooks_def)

lemma wsBooks_emit [simp]: "wsBooks opts (emitFrame i f s) = wsBooks opts s"
  by (rule wsBooks_cong) simp_all

lemma unregister_connections: "ws_connections (unregisterConn i s) = jdel i (ws_connections s)"
  by (auto simp: unregisterConn_def Let_def jdel_absent split: option.split)

lemma unregister_frame [simp]:
  "ws_out (unregisterConn i s) = ws_out s" "ws_pending (unregisterConn i s) = ws_pending s"
  "ws_failedLogins (unregisterConn i s) = ws_failedLogins s" "ws_crashed (unregisterConn i s) = ws_crashed s"
  by (simp_all add: unregisterConn_def Let_def split: option.split)

lemma wsBooks_unregister:
  assumes "wsBooks opts s"
  shows "wsBooks opts (unregisterConn i s)"
proof (cases "map_of (ws_connections s) i")
  case (Some c)
  have d: "distinct (map fst (ws_connections s))" using assms by (simp add: wsBooks_def)
  note del = ipCount_del [OF d Some]
  have n: "jget_or (ws_perIp s) (wc_ip c) 0 = ipCount (wc_ip c) (ws_connections s)" using assms by (simp add: wsBooks_def)
  have counts: "jget_or (ws_perIp (unregisterConn i s)) ip 0 = ipCount ip (jdel i (ws_connections s))" for ip
  proof (cases "ip = wc_ip c")
    case True
    then show ?thesis using Some n del [of ip] by (simp add: unregisterConn_def Let_def)
  next
    case False
    then show ?thesis using Some assms del [of ip] by (simp add: unregisterConn_def Let_def wsBooks_def)
  qed
  have "distinct (map fst (jdel i (ws_connections s)))" using d by (simp add: jdel_def distinct_map_filter)
  moreover have "length (jdel i (ws_connections s)) \<le> maxConnections opts"
    using length_del_le [of i "ws_connections s"] assms by (simp add: wsBooks_def)
  moreover have "ipCount ip (jdel i (ws_connections s)) \<le> maxPerIp opts" for ip
    using del [of ip] assms by (simp add: wsBooks_def) (metis add_leD1)
  moreover have "map_of (ws_rate (unregisterConn i s)) j = None \<longleftrightarrow> map_of (jdel i (ws_connections s)) j = None" for j
    using Some assms by (simp add: unregisterConn_def Let_def wsBooks_def)
  ultimately show ?thesis using counts by (simp add: wsBooks_def unregister_connections)
qed (use assms in \<open>simp add: unregisterConn_def\<close>)

lemma wsBooks_update:
  assumes "wsBooks opts s" "map_of (ws_connections s) i = Some c" "wc_ip c' = wc_ip c"
  shows "wsBooks opts (s\<lparr>ws_connections := jset i c' (ws_connections s)\<rparr>)"
proof -
  have "distinct (map fst (jset i c' (ws_connections s)))"
    using assms(1) distinct_jset [of "ws_connections s" i c'] by (simp add: wsBooks_def jkeys_def)
  then show ?thesis
    using assms by (auto simp: wsBooks_def length_same ipCount_same)
qed

lemma wsBooks_rate:
  assumes "wsBooks opts s" "map_of (ws_connections s) i \<noteq> None"
  shows "wsBooks opts (s\<lparr>ws_rate := jset i r (ws_rate s)\<rparr>)"
  using assms by (auto simp: wsBooks_def)

lemma wsBooks_register:
  assumes "wsBooks opts s" "map_of (ws_connections s) i = None"
  shows "wsBooks opts (fst (registerConn opts now i c s))"
proof -
  have "distinct (map fst (jset i c (ws_connections s)))"
    using assms(1) distinct_jset [of "ws_connections s" i c] by (simp add: wsBooks_def jkeys_def)
  then show ?thesis using assms
    by (auto simp: wsBooks_def registerConn_def Let_def length_new ipCount_new not_le)
qed

lemma allow_books:
  assumes "wsBooks opts s"
  shows "wsBooks opts (fst (allowMessage opts now i s))"
  using assms
  by (auto simp: allowMessage_def Let_def wsBooks_rate intro!: wsBooks_unregister split: option.split)

lemma wsBooks_fold: "(\<And>x s. wsBooks opts s \<Longrightarrow> wsBooks opts (f x s)) \<Longrightarrow> wsBooks opts s \<Longrightarrow> wsBooks opts (fold f xs s)"
  by (induction xs arbitrary: s) auto

lemma sweep_books: "wsBooks opts s \<Longrightarrow> wsBooks opts (sweepConn i s)"
  by (auto simp: sweepConn_def wsBooks_unregister intro!: wsBooks_update split: option.split)

lemma handle_books: "wsBooks opts s \<Longrightarrow> wsBooks opts (handleMessage i m s)"
proof (induction m)
  case (SubscribeMsg v)
  have "wsBooks opts (fst (subscribeConn i cs s))" for cs
    using SubscribeMsg by (auto simp: subscribeConn_def Let_def intro!: wsBooks_update split: option.split)
  then show ?case using SubscribeMsg
    by (auto simp: handleMessage_def answerSubscribe_def Let_def case_prod_unfold split: option.split)
next
  case (UnsubscribeMsg v)
  have "wsBooks opts (unsubscribeConn i cs s)" for cs
    using UnsubscribeMsg by (auto simp: unsubscribeConn_def intro!: wsBooks_update split: option.split)
  then show ?case using UnsubscribeMsg by (auto simp: handleMessage_def split: option.split)
next
  case (LoginMsg k w)
  then show ?case
    by (auto simp: handleMessage_def startLogin_def failLogin_def wsBooks_def split: option.split)
qed (auto simp: handleMessage_def wsBooks_def)

lemma finish_books:
  assumes "wsBooks opts s"
  shows "wsBooks opts (finishLogin i k w reply s)"
proof -
  have user: "wsBooks opts (setUser i u t)" if "wsBooks opts t" for u t
    using that by (auto simp: setUser_def intro!: wsBooks_update split: option.split)
  have "wsBooks opts (s\<lparr>ws_pending := x\<rparr>)" "wsBooks opts (s\<lparr>ws_pending := x, ws_failedLogins := y\<rparr>)"
      "wsBooks opts (s\<lparr>ws_pending := x, ws_crashed := z\<rparr>)" for x y z
    using assms by (simp_all add: wsBooks_def)
  then show ?thesis using assms
    by (auto simp: finishLogin_def failLogin_def Let_def intro: user split: lookup_reply.split option.split)
qed

definition openIds :: "ws_event list \<Rightarrow> string list" where
  "openIds evs = concat (map (\<lambda>ev. case ev of Opened i ip now \<Rightarrow> [i] | _ \<Rightarrow> []) evs)"

lemma step_books:
  assumes "wsBooks opts s" "\<And>i ip now. ev = Opened i ip now \<Longrightarrow> map_of (ws_connections s) i = None"
  shows "wsBooks opts (wsStep opts ev s)"
proof (cases ev)
  case (Opened i ip now)
  let ?c = "\<lparr>wc_ip = ip, wc_isAlive = True, wc_subscriptions = [], wc_user = None\<rparr>"
  have "wsBooks opts (fst (registerConn opts now i ?c s))" using wsBooks_register assms Opened by blast
  then show ?thesis using assms(1) Opened by (auto simp: wsStep_def openSocket_def case_prod_unfold split: option.split)
next
  case (Received i m now)
  have "wsBooks opts (fst (allowMessage opts now i s))" using assms(1) by (rule allow_books)
  then show ?thesis using assms(1) Received by (auto simp: wsStep_def Let_def case_prod_unfold handle_books)
next
  case (LookedUp i k w reply)
  then show ?thesis using assms(1) by (simp add: wsStep_def finish_books)
next
  case (Ponged i)
  then show ?thesis using assms(1) by (auto simp: wsStep_def pongSocket_def intro!: wsBooks_update split: option.split)
next
  case (Closed i)
  have "wsBooks opts (unregisterConn i s)" using assms(1) by (rule wsBooks_unregister)
  then show ?thesis using assms(1) Closed by (auto simp: wsStep_def closeSocket_def Let_def wsBooks_def)
next
  case Swept
  then show ?thesis using assms(1) by (auto simp: wsStep_def pingSweep_def intro!: wsBooks_fold sweep_books)
next
  case (Broadcasted buffered channel payload)
  then show ?thesis using assms(1)
    by (auto simp: wsStep_def broadcast_def Let_def intro!: wsBooks_fold wsBooks_unregister)
qed

section \<open>Lemmas: who is on a connection\<close>

lemma set_jset_sub: "set (jset k v m) \<subseteq> insert (k, v) (set m)"
  unfolding jset_def by (induction m) auto

lemma set_jdel: "set (jdel k m) = {p \<in> set m. fst p \<noteq> k}"
  by (auto simp: jdel_def)

text \<open>A key of \<open>owner\<close> was presented on the connection and its lookup succeeded.\<close>

definition loggedIn :: "ws_event list \<Rightarrow> string \<Rightarrow> string \<Rightarrow> bool" where
  "loggedIn evs i owner \<longleftrightarrow> (\<exists>k w row now. Received i (LoginMsg (Some k) (Some w)) now \<in> set evs
     \<and> LookedUp i k w (LookupRow (Some row)) \<in> set evs \<and> ak_owner row = owner)"

text \<open>An invariant of the connections, as a predicate on each of them with its id.\<close>

definition allConns :: "(string \<Rightarrow> ws_conn \<Rightarrow> bool) \<Rightarrow> ws_server \<Rightarrow> bool" where
  "allConns P s \<longleftrightarrow> (\<forall>(i, c) \<in> set (ws_connections s). P i c)"

lemma allConns_emit [simp]: "allConns P (emitFrame i f s) = allConns P s"
  by (simp add: allConns_def)

lemma allConns_unregister: "allConns P s \<Longrightarrow> allConns P (unregisterConn i s)"
  by (auto simp: allConns_def unregister_connections set_jdel)

lemma allConns_set:
  assumes "allConns P s" "P i c"
  shows "allConns P (s\<lparr>ws_connections := jset i c (ws_connections s)\<rparr>)"
  using assms set_jset_sub [of i c "ws_connections s"] by (fastforce simp: allConns_def)

lemma allConnsD: "allConns P s \<Longrightarrow> map_of (ws_connections s) i = Some c \<Longrightarrow> P i c"
  by (auto simp: allConns_def dest!: map_of_SomeD)

lemma allConns_cong: "ws_connections s' = ws_connections s \<Longrightarrow> allConns P s' = allConns P s"
  by (simp add: allConns_def)

lemma fold_keeps: "(\<And>x s. x \<in> set xs \<Longrightarrow> P s \<Longrightarrow> P (f x s)) \<Longrightarrow> P s \<Longrightarrow> P (fold f xs s)"
  by (induction xs arbitrary: s) auto

definition ownConn :: "ws_event list \<Rightarrow> string \<Rightarrow> ws_conn \<Rightarrow> bool" where
  "ownConn evs i c \<longleftrightarrow> i \<in> set (openIds evs) \<and> (\<forall>u. wc_user c = Some u \<longrightarrow> loggedIn evs i (us_owner u))
     \<and> (\<forall>owner. accountChannel owner \<in> set (wc_subscriptions c) \<longrightarrow> loggedIn evs i owner)"

definition wsPrivate :: "ws_event list \<Rightarrow> ws_server \<Rightarrow> bool" where
  "wsPrivate evs s \<longleftrightarrow> allConns (ownConn evs) s
     \<and> (\<forall>i owner payload. (i, DataFrame (accountChannel owner) payload) \<in> set (ws_out s) \<longrightarrow> loggedIn evs i owner)
     \<and> (\<forall>i k w. (i, k, w) \<in> set (ws_pending s) \<longrightarrow> (\<exists>now. Received i (LoginMsg (Some k) (Some w)) now \<in> set evs))"

lemma openIds_append: "openIds (evs @ evs') = openIds evs @ openIds evs'"
  by (simp add: openIds_def)

lemma loggedIn_mono: "loggedIn evs i owner \<Longrightarrow> loggedIn (evs @ evs') i owner"
  by (fastforce simp: loggedIn_def)

lemma ownConn_mono: "ownConn evs i c \<Longrightarrow> ownConn (evs @ evs') i c"
  by (auto simp: ownConn_def openIds_append loggedIn_mono)

lemma wsPrivate_mono: "wsPrivate evs s \<Longrightarrow> wsPrivate (evs @ evs') s"
  by (fastforce simp: wsPrivate_def allConns_def intro: ownConn_mono loggedIn_mono)

lemma account_other: "accountChannel owner \<noteq> ''events''" "\<not> starts_with ''ticker.'' (accountChannel owner)"
    "\<not> starts_with ''trades.'' (accountChannel owner)"
  by (simp_all add: accountChannel_def ACCOUNT_PREFIX_def starts_with_def)

lemma account_subscribe: "canSubscribe c (accountChannel owner) \<longleftrightarrow> (\<exists>u. wc_user c = Some u \<and> us_owner u = owner)"
  using account_other [of owner]
  by (auto simp: canSubscribe_def accountChannel_def ACCOUNT_PREFIX_def starts_with_def split: option.split)

lemma private_emit: "wsPrivate evs s \<Longrightarrow> (\<And>owner p. f \<noteq> DataFrame (accountChannel owner) p) \<Longrightarrow> wsPrivate evs (emitFrame i f s)"
  by (auto simp: wsPrivate_def) blast

lemma private_emits [simp]:
  "wsPrivate evs s \<Longrightarrow> wsPrivate evs (emitFrame i HelloFrame s)" "wsPrivate evs s \<Longrightarrow> wsPrivate evs (emitFrame i PongFrame s)"
  "wsPrivate evs s \<Longrightarrow> wsPrivate evs (emitFrame i PingFrame s)" "wsPrivate evs s \<Longrightarrow> wsPrivate evs (emitFrame i (SubscribedFrame cs) s)"
  "wsPrivate evs s \<Longrightarrow> wsPrivate evs (emitFrame i (RejectedFrame cs) s)" "wsPrivate evs s \<Longrightarrow> wsPrivate evs (emitFrame i (UnsubscribedFrame cs) s)"
  "wsPrivate evs s \<Longrightarrow> wsPrivate evs (emitFrame i (LoginOkFrame o' r) s)" "wsPrivate evs s \<Longrightarrow> wsPrivate evs (emitFrame i (LoginFailedFrame err) s)"
  "wsPrivate evs s \<Longrightarrow> wsPrivate evs (emitFrame i (ErrorFrame err) s)" "wsPrivate evs s \<Longrightarrow> wsPrivate evs (emitFrame i (CloseFrame n err) s)"
  "wsPrivate evs s \<Longrightarrow> wsPrivate evs (emitFrame i TerminateFrame s)"
  by (auto intro: private_emit)

lemma private_unregister [simp]: "wsPrivate evs s \<Longrightarrow> wsPrivate evs (unregisterConn i s)"
  by (simp add: wsPrivate_def allConns_unregister)

lemma private_set:
  "wsPrivate evs s \<Longrightarrow> ownConn evs i c \<Longrightarrow> wsPrivate evs (s\<lparr>ws_connections := jset i c (ws_connections s)\<rparr>)"
  by (simp add: wsPrivate_def allConns_set)

lemma private_conn: "wsPrivate evs s \<Longrightarrow> map_of (ws_connections s) i = Some c \<Longrightarrow> ownConn evs i c"
  by (auto simp: wsPrivate_def intro: allConnsD)

lemma private_fields [simp]:
  "wsPrivate evs s \<Longrightarrow> wsPrivate evs (s\<lparr>ws_rate := r\<rparr>)" "wsPrivate evs s \<Longrightarrow> wsPrivate evs (s\<lparr>ws_perIp := n\<rparr>)"
  "wsPrivate evs s \<Longrightarrow> wsPrivate evs (s\<lparr>ws_failedLogins := f\<rparr>)" "wsPrivate evs s \<Longrightarrow> wsPrivate evs (s\<lparr>ws_crashed := b\<rparr>)"
  by (simp_all add: wsPrivate_def allConns_def)

lemma private_handle:
  assumes s: "wsPrivate evs s" and m: "Received i m now \<in> set evs"
  shows "wsPrivate evs (handleMessage i m s)"
proof (cases m)
  case (SubscribeMsg v)
  have "wsPrivate evs (fst (subscribeConn i cs s))" for cs
  proof (cases "map_of (ws_connections s) i")
    case (Some c)
    have own: "ownConn evs i c" using s Some by (rule private_conn)
    have "ownConn evs i (c\<lparr>wc_subscriptions := fold sadd (filter (canSubscribe c) cs) (wc_subscriptions c)\<rparr>)"
      using own by (auto simp: ownConn_def set_fold_sadd account_subscribe)
    then show ?thesis using s Some by (simp add: subscribeConn_def Let_def private_set)
  qed (use s in \<open>simp add: subscribeConn_def\<close>)
  then show ?thesis using s SubscribeMsg
    by (auto simp: handleMessage_def answerSubscribe_def Let_def case_prod_unfold split: option.split)
next
  case (UnsubscribeMsg v)
  have "wsPrivate evs (unsubscribeConn i cs s)" for cs
    using s by (auto simp: unsubscribeConn_def ownConn_def dest!: private_conn intro!: private_set split: option.split)
  then show ?thesis using s UnsubscribeMsg by (auto simp: handleMessage_def split: option.split)
next
  case (LoginMsg k w)
  have "wsPrivate evs (s\<lparr>ws_pending := ws_pending s @ [(i, k', w')]\<rparr>)" if "k = Some k'" "w = Some w'" for k' w'
    using s m that LoginMsg by (auto simp: wsPrivate_def allConns_def)
  then show ?thesis using s LoginMsg
    by (auto simp: handleMessage_def startLogin_def failLogin_def split: option.split)
qed (use s in \<open>auto simp: handleMessage_def\<close>)

lemma private_finish:
  assumes s: "wsPrivate evs s" and reply: "LookedUp i k w reply \<in> set evs"
  shows "wsPrivate evs (finishLogin i k w reply s)"
proof (cases "(i, k, w) \<in> set (ws_pending s)")
  case True
  have less: "wsPrivate evs (s\<lparr>ws_pending := remove1 (i, k, w) (ws_pending s)\<rparr>)"
    using s by (auto simp: wsPrivate_def allConns_def dest!: notin_set_remove1 [of _ _ "(i, k, w)", THEN contrapos_pp]) (meson notin_set_remove1)+
  have "wsPrivate evs (setUser i (userOf k row) t)" if "wsPrivate evs t" "reply = LookupRow (Some row)" for row t
  proof -
    have "loggedIn evs i (ak_owner row)"
      using True s reply unfolding that(2) wsPrivate_def loggedIn_def by blast
    then show ?thesis using that(1)
      by (auto simp: setUser_def ownConn_def userOf_def dest: private_conn intro!: private_set split: option.split)
  qed
  then show ?thesis using less True
    by (auto simp: finishLogin_def failLogin_def Let_def split: lookup_reply.split option.split)
qed (use s in \<open>simp add: finishLogin_def\<close>)

lemma private_step:
  assumes s: "wsPrivate evs s"
  shows "wsPrivate (evs @ [ev]) (wsStep opts ev s)"
proof -
  let ?evs = "evs @ [ev]"
  have t: "wsPrivate ?evs s" using s by (rule wsPrivate_mono)
  show ?thesis
  proof (cases ev)
    case (Opened i ip now)
    let ?c = "\<lparr>wc_ip = ip, wc_isAlive = True, wc_subscriptions = [], wc_user = None\<rparr>"
    have "ownConn ?evs i ?c" using Opened by (simp add: ownConn_def openIds_append openIds_def)
    then have "wsPrivate ?evs (fst (registerConn opts now i ?c s))"
      using t private_set [OF t, of i ?c] by (auto simp: registerConn_def Let_def wsPrivate_def allConns_def)
    then show ?thesis using t Opened by (auto simp: wsStep_def openSocket_def case_prod_unfold split: option.split)
  next
    case (Received i m now)
    have allowed: "wsPrivate ?evs (fst (allowMessage opts now i s))"
      using t by (auto simp: allowMessage_def Let_def intro!: private_unregister split: option.split)
    have handled: "wsPrivate ?evs (handleMessage i m (fst (allowMessage opts now i s)))"
      by (rule private_handle [where now = now]) (use allowed Received in auto)
    show ?thesis using t Received allowed handled by (auto simp: wsStep_def Let_def case_prod_unfold)
  next
    case (LookedUp i k w reply)
    then show ?thesis using t private_finish [OF t, of i k w reply] by (simp add: wsStep_def)
  next
    case (Ponged i)
    then show ?thesis using t
      by (auto simp: wsStep_def pongSocket_def ownConn_def dest!: private_conn intro!: private_set split: option.split)
  next
    case (Closed i)
    then show ?thesis using t by (auto simp: wsStep_def closeSocket_def Let_def intro!: private_unregister)
  next
    case Swept
    have "wsPrivate ?evs (sweepConn i t)" if "wsPrivate ?evs t" for i t
      using that by (auto simp: sweepConn_def ownConn_def dest: private_conn intro!: private_emits private_unregister private_set split: option.split)
    then show ?thesis using t Swept by (auto simp: wsStep_def pingSweep_def intro!: fold_keeps [where P = "wsPrivate _"])
  next
    case (Broadcasted buffered channel payload)
    let ?conns = "ws_connections s"
    have send: "wsPrivate ?evs (emitFrame (fst p) (DataFrame channel payload) u) \<and> ws_connections (emitFrame (fst p) (DataFrame channel payload) u) = ?conns"
      if "p \<in> set ?conns" "channel \<in> set (wc_subscriptions (snd p))" "wsPrivate ?evs u \<and> ws_connections u = ?conns" for p u
    proof -
      have own: "ownConn ?evs (fst p) (snd p)" using t that(1) by (auto simp: wsPrivate_def allConns_def)
      have sub: "channel = accountChannel owner \<Longrightarrow> loggedIn ?evs (fst p) owner" for owner
        using own that(2) by (auto simp: ownConn_def)
      then show ?thesis using that(3) by (auto simp: wsPrivate_def)
    qed
    let ?quick = "filter (\<lambda>p. \<not> buffered (fst p) > maxBufferedBytes opts) (filter (\<lambda>p. channel \<in> set (wc_subscriptions (snd p))) ?conns)"
    have "wsPrivate ?evs (fold (\<lambda>p. emitFrame (fst p) (DataFrame channel payload)) ?quick s) \<and> ws_connections (fold (\<lambda>p. emitFrame (fst p) (DataFrame channel payload)) ?quick s) = ?conns"
      by (rule fold_keeps [where P = "\<lambda>u. wsPrivate ?evs u \<and> ws_connections u = ?conns"]) (use t send in auto)
    then show ?thesis using t Broadcasted
      by (auto simp: wsStep_def broadcast_def Let_def intro!: fold_keeps [where P = "wsPrivate _"] private_unregister)
  qed
qed

lemma run_private: "wsPrivate evs (wsRun opts evs)"
proof (induction evs rule: rev_induct)
  case Nil
  then show ?case by (simp add: wsPrivate_def allConns_def noSockets_def)
next
  case (snoc ev evs)
  then show ?case using private_step [of evs _ ev opts] by simp
qed

lemma run_books: "distinct (openIds evs) \<Longrightarrow> wsBooks opts (wsRun opts evs)"
proof (induction evs rule: rev_induct)
  case Nil
  then show ?case by (simp add: wsBooks_def noSockets_def ipCount_def jget_or_def)
next
  case (snoc ev evs)
  have "map_of (ws_connections (wsRun opts evs)) i = None" if "ev = Opened i ip now" for i ip now
  proof (rule ccontr)
    assume "\<not> ?thesis"
    then obtain c where "map_of (ws_connections (wsRun opts evs)) i = Some c" by blast
    then have "ownConn evs i c" using run_private private_conn by blast
    then show False using snoc.prems that by (simp add: ownConn_def openIds_append openIds_def)
  qed
  then show ?case using snoc step_books by (simp add: openIds_append)
qed

lemma crashed_stays: "ws_crashed s \<Longrightarrow> fold (wsStep opts) evs s = s"
  by (induction evs) (simp_all add: wsStep_def)

section \<open>Lemmas: the token bucket\<close>

text \<open>How many messages of one connection get through at the given times.\<close>

fun handled :: "ws_options \<Rightarrow> string \<Rightarrow> int list \<Rightarrow> ws_server \<Rightarrow> nat" where
  "handled opts i [] s = 0"
| "handled opts i (t # ts) s = (let (s', ok) = allowMessage opts t i s in (if ok then 1 else 0) + handled opts i ts s')"

lemma handled_gone: "map_of (ws_connections s) i = None \<Longrightarrow> handled opts i ts s = 0"
  by (induction ts) (auto simp: allowMessage_def)

lemma handled_le:
  assumes "sorted (rs_last r # ts)" "map_of (ws_rate s) i = Some r"
  shows "of_nat (handled opts i ts s) \<le> max 0 (rs_tokens r) + of_int (last (rs_last r # ts) - rs_last r) / 1000 * of_nat (msgRate opts)"
  using assms
proof (induction ts arbitrary: r s)
  case (Cons t ts)
  have span: "0 \<le> (of_int (last (t # ts) - rs_last r) / 1000 * of_nat (msgRate opts) :: rat)"
    using Cons.prems(1) by (cases ts rule: rev_cases) auto
  show ?case
  proof (cases "map_of (ws_connections s) i")
    case None
    then have "handled opts i (t # ts) s = 0" by (rule handled_gone)
    then show ?thesis using span by (simp del: handled.simps)
  next
    case (Some c)
    define tokens where "tokens = refill opts t r"
    have le: "tokens \<le> rs_tokens r + of_int (t - rs_last r) / 1000 * of_nat (msgRate opts)"
      by (simp add: tokens_def refill_def)
    show ?thesis
    proof (cases "tokens < 1")
      case True
      let ?s = "fst (allowMessage opts t i s)"
      have "map_of (ws_connections ?s) i = None"
        using Some Cons.prems(2) True by (simp add: allowMessage_def Let_def unregister_connections flip: tokens_def)
      then have "handled opts i (t # ts) s = 0"
        using Some Cons.prems(2) True by (simp add: handled_gone case_prod_unfold) (simp add: allowMessage_def Let_def flip: tokens_def)
      then show ?thesis using span by simp
    next
      case False
      let ?r = "\<lparr>rs_tokens = tokens - 1, rs_last = t\<rparr>"
      have step: "allowMessage opts t i s = (s\<lparr>ws_rate := jset i ?r (ws_rate s)\<rparr>, True)"
        using Some Cons.prems(2) False by (simp add: allowMessage_def Let_def flip: tokens_def)
      have "sorted (rs_last ?r # ts)" using Cons.prems(1) by simp
      from Cons.IH [OF this, of "s\<lparr>ws_rate := jset i ?r (ws_rate s)\<rparr>"]
      have "of_nat (handled opts i ts (s\<lparr>ws_rate := jset i ?r (ws_rate s)\<rparr>))
          \<le> tokens - 1 + of_int (last (t # ts) - t) / 1000 * of_nat (msgRate opts)"
        using False by simp
      moreover have "(of_int (last (t # ts) - rs_last r) / 1000 :: rat) * of_nat (msgRate opts)
          = of_int (last (t # ts) - t) / 1000 * of_nat (msgRate opts) + of_int (t - rs_last r) / 1000 * of_nat (msgRate opts)"
        by (simp add: field_simps)
      moreover have "of_nat (handled opts i (t # ts) s) = (1 :: rat) + of_nat (handled opts i ts (s\<lparr>ws_rate := jset i ?r (ws_rate s)\<rparr>))"
        by (simp add: step)
      moreover have "rs_tokens r \<le> max 0 (rs_tokens r)" "last (rs_last r # t # ts) = last (t # ts)" by simp_all
      ultimately show ?thesis using le by (simp only:)
    qed
  qed
qed simp

section \<open>Properties\<close>

text \<open>C16. The caps hold: over any events on sockets with distinct ids, the process holds at most the allowed connections in
  total and from each address, and its counter of an address is exactly the number of connections from there.\<close>

theorem ws_caps_hold:
  assumes "distinct (openIds evs)"
  shows "length (ws_connections (wsRun opts evs)) \<le> maxConnections opts
     \<and> ipCount ip (ws_connections (wsRun opts evs)) \<le> maxPerIp opts
     \<and> jget_or (ws_perIp (wsRun opts evs)) ip 0 = ipCount ip (ws_connections (wsRun opts evs))"
  using run_books [OF assms, of opts] by (simp add: wsBooks_def)

text \<open>C15. Account events are private: whatever the sockets do, a frame of an owner's account channel goes only to a
  connection on which a key of that owner was presented and its lookup succeeded.\<close>

theorem account_frames_private:
  assumes "(i, DataFrame (accountChannel owner) payload) \<in> set (ws_out (wsRun opts evs))"
  shows "\<exists>k w row now. Received i (LoginMsg (Some k) (Some w)) now \<in> set evs
     \<and> LookedUp i k w (LookupRow (Some row)) \<in> set evs \<and> ak_owner row = owner"
  using assms run_private [of evs opts] unfolding wsPrivate_def loggedIn_def by blast

text \<open>The message rate holds: from any state, the messages of one connection that are handled at any later times number
  at most its tokens plus the rate times the time that passed.\<close>

theorem message_rate_bounded:
  assumes "sorted (rs_last r # ts)" "map_of (ws_rate s) i = Some r" "0 \<le> rs_tokens r"
  shows "of_nat (handled opts i ts s) \<le> rs_tokens r + of_int (last (rs_last r # ts) - rs_last r) / 1000 * of_nat (msgRate opts)"
  using handled_le [OF assms(1,2), of opts] assms(3) by (simp add: max_def)

text \<open>C19. One frame ends the process: a text frame holding the JSON value null, sent by anyone as soon as the socket is
  open, makes the detached handler throw, which no one catches; nothing is served afterwards.\<close>

theorem null_frame_crashes:
  assumes "\<not> ws_crashed s" "snd (registerConn opts now i \<lparr>wc_ip = ip, wc_isAlive = True, wc_subscriptions = [], wc_user = None\<rparr> s) = None"
    and "now \<le> later" "1 \<le> msgRate opts"
  shows "ws_crashed (wsStep opts (Received i JsonNull later) (wsStep opts (Opened i ip now) s))
     \<and> fold (wsStep opts) evs (wsStep opts (Received i JsonNull later) (wsStep opts (Opened i ip now) s))
         = wsStep opts (Received i JsonNull later) (wsStep opts (Opened i ip now) s)"
proof -
  let ?c = "\<lparr>wc_ip = ip, wc_isAlive = True, wc_subscriptions = [], wc_user = None\<rparr>"
  let ?r = "\<lparr>rs_tokens = of_nat (msgRate opts), rs_last = now\<rparr>"
  let ?s = "wsStep opts (Opened i ip now) s"
  have "registerConn opts now i ?c s = (s\<lparr>ws_connections := jset i ?c (ws_connections s),
      ws_perIp := jset ip (jget_or (ws_perIp s) ip 0 + 1) (ws_perIp s), ws_rate := jset i ?r (ws_rate s)\<rparr>, None)"
    using assms(2) by (simp add: registerConn_def Let_def split: if_splits)
  then have s: "map_of (ws_connections ?s) i = Some ?c" "map_of (ws_rate ?s) i = Some ?r" "\<not> ws_crashed ?s"
    using assms(1) by (simp_all add: wsStep_def openSocket_def)
  have "1 \<le> refill opts later ?r" using assms(3,4) by (simp add: refill_def)
  then have "snd (allowMessage opts later i ?s)" using s by (simp add: allowMessage_def Let_def)
  then have "ws_crashed (wsStep opts (Received i JsonNull later) ?s)"
    using s(3) by (simp add: wsStep_def [of _ "Received i JsonNull later"] handleMessage_def Let_def case_prod_unfold)
  then show ?thesis using crashed_stays by blast
qed

text \<open>The login cap is no cap: a burst of logins that are all sent before the first lookup answers starts as many
  lookups as the message rate allows, although five failures are the limit.\<close>

theorem login_cap_races:
  assumes "n \<le> msgRate opts" "1 \<le> maxConnections opts" "1 \<le> maxPerIp opts" "k \<noteq> []" "w \<noteq> []"
  shows "length (ws_pending (wsRun opts (Opened i ip now # replicate n (Received i (LoginMsg (Some k) (Some w)) now)))) = n"
proof -
  let ?c = "\<lparr>wc_ip = ip, wc_isAlive = True, wc_subscriptions = [], wc_user = None\<rparr>"
  let ?ev = "Received i (LoginMsg (Some k) (Some w)) now"
  have burst: "\<exists>t. map_of (ws_rate (fold (wsStep opts) (replicate m ?ev) s)) i = Some \<lparr>rs_tokens = of_nat (j - m), rs_last = now\<rparr>
      \<and> length (ws_pending (fold (wsStep opts) (replicate m ?ev) s)) = length (ws_pending s) + m"
    if "m \<le> j" "j \<le> msgRate opts" "map_of (ws_rate s) i = Some \<lparr>rs_tokens = of_nat j, rs_last = now\<rparr>"
      "map_of (ws_connections s) i = Some ?c" "ws_failedLogins s = []" "\<not> ws_crashed s" for m j s
    using that
  proof (induction m arbitrary: j s)
    case (Suc m)
    let ?s = "s\<lparr>ws_rate := jset i \<lparr>rs_tokens = of_nat (j - 1), rs_last = now\<rparr> (ws_rate s), ws_pending := ws_pending s @ [(i, k, w)]\<rparr>"
    have "refill opts now \<lparr>rs_tokens = of_nat j, rs_last = now\<rparr> = of_nat j" using Suc.prems(2) by (simp add: refill_def)
    moreover have "(of_nat j :: rat) - 1 = of_nat (j - 1)" "\<not> (of_nat j :: rat) < 1" using Suc.prems(1) by simp_all
    ultimately have step: "wsStep opts ?ev s = ?s"
      using Suc.prems assms(4,5)
      by (simp add: wsStep_def allowMessage_def Let_def handleMessage_def startLogin_def jget_or_def MAX_FAILED_LOGINS_def)
    show ?case using Suc.IH [of "j - 1" ?s] Suc.prems by (simp add: step)
  qed simp
  let ?s = "wsStep opts (Opened i ip now) noSockets"
  have s: "ws_pending ?s = []" "ws_failedLogins ?s = []" "\<not> ws_crashed ?s" "map_of (ws_connections ?s) i = Some ?c"
      "map_of (ws_rate ?s) i = Some \<lparr>rs_tokens = of_nat (msgRate opts), rs_last = now\<rparr>"
    using assms(2,3) by (simp_all add: wsStep_def openSocket_def registerConn_def noSockets_def jget_or_def Let_def)
  from burst [OF assms(1) order_refl s(5,4,2,3)] s(1) show ?thesis by simp
qed

section \<open>Witnesses\<close>

definition sampleRow :: "string \<Rightarrow> api_key" where
  "sampleRow owner = \<lparr>ak_secretHash = ''h'', ak_owner = owner, ak_tier = StandardTier, ak_label = None, ak_createdAt = 1,
     ak_lastUsedAt = None, ak_revokedAt = None\<rparr>"

text \<open>A connection logs in as A, subscribes to A's events, then logs in as B, and still receives A's events.\<close>

definition sampleSwitch :: "ws_event list" where
  "sampleSwitch = [Opened ''c'' ''ip'' 0, Received ''c'' (LoginMsg (Some ''ka'') (Some ''sa'')) 0,
     LookedUp ''c'' ''ka'' ''sa'' (LookupRow (Some (sampleRow ''A''))),
     Received ''c'' (SubscribeMsg (Some [Some (accountChannel ''A'')])) 0,
     Received ''c'' (LoginMsg (Some ''kb'') (Some ''sb'')) 0,
     LookedUp ''c'' ''kb'' ''sb'' (LookupRow (Some (sampleRow ''B''))),
     Broadcasted (\<lambda>_. 0) (accountChannel ''A'') ''fill'']"

abbreviation onlySocket :: "rat \<Rightarrow> string list \<Rightarrow> api_user option \<Rightarrow> (string \<times> string \<times> string) list \<Rightarrow> (string \<times> ws_frame) list \<Rightarrow> ws_server" where
  "onlySocket tokens subs user pend out \<equiv>
     \<lparr>ws_connections = [(''c'', \<lparr>wc_ip = ''ip'', wc_isAlive = True, wc_subscriptions = subs, wc_user = user\<rparr>)], ws_perIp = [(''ip'', Suc 0)],
      ws_rate = [(''c'', \<lparr>rs_tokens = tokens, rs_last = 0\<rparr>)], ws_failedLogins = [], ws_pending = pend, ws_out = out, ws_crashed = False\<rparr>"

lemma socket_opens: "wsStep WS_DEFAULTS (Opened ''c'' ''ip'' 0) noSockets = onlySocket 20 [] None [] [(''c'', HelloFrame)]"
  by (simp add: wsStep_def noSockets_def openSocket_def registerConn_def WS_DEFAULTS_def jset_def jget_or_def emitFrame_def)

lemma socket_logs:
  assumes "1 \<le> n" "n \<le> 20" "k \<noteq> []" "w \<noteq> []"
  shows "wsStep WS_DEFAULTS (LookedUp ''c'' k w (LookupRow (Some (sampleRow a))))
      (wsStep WS_DEFAULTS (Received ''c'' (LoginMsg (Some k) (Some w)) 0) (onlySocket n subs user [] out))
    = onlySocket (n - 1) subs (Some (userOf k (sampleRow a))) [] (out @ [(''c'', LoginOkFrame a StandardTier)])"
  using assms
  by (simp add: wsStep_def allowMessage_def refill_def WS_DEFAULTS_def handleMessage_def startLogin_def MAX_FAILED_LOGINS_def jget_or_def
      finishLogin_def setUser_def jset_def jdel_def emitFrame_def sampleRow_def min_def)

lemma socket_subscribes:
  assumes "1 \<le> n" "n \<le> 20" "length (accountChannel a) \<le> 200"
  shows "wsStep WS_DEFAULTS (Received ''c'' (SubscribeMsg (Some [Some (accountChannel a)])) 0)
      (onlySocket n [] (Some (userOf k (sampleRow a))) [] out)
    = onlySocket (n - 1) [accountChannel a] (Some (userOf k (sampleRow a))) [] (out @ [(''c'', SubscribedFrame [accountChannel a])])"
proof -
  have "pickChannels (Some [Some (accountChannel a)]) = Some [accountChannel a]"
    using assms(3) by (simp add: pickChannels_def accountChannel_def ACCOUNT_PREFIX_def)
  moreover have "canSubscribe c (accountChannel a)" if "wc_user c = Some (userOf k (sampleRow a))" for c
    using that by (simp add: account_subscribe userOf_def sampleRow_def)
  ultimately show ?thesis using assms
    by (simp add: wsStep_def allowMessage_def refill_def WS_DEFAULTS_def handleMessage_def answerSubscribe_def subscribeConn_def
        Let_def jset_def emitFrame_def sadd_def min_def)
qed

lemma sampleSwitch_sends:
  "(''c'', DataFrame (accountChannel ''A'') ''fill'') \<in> set (ws_out (wsRun WS_DEFAULTS sampleSwitch))"
proof -
  have len: "length (accountChannel ''A'') \<le> 200" by (simp add: accountChannel_def ACCOUNT_PREFIX_def)
  have "\<exists>n out. wsRun WS_DEFAULTS sampleSwitch = wsStep WS_DEFAULTS (Broadcasted (\<lambda>_. 0) (accountChannel ''A'') ''fill'')
      (onlySocket n [accountChannel ''A''] (Some (userOf ''kb'' (sampleRow ''B''))) [] out)"
    unfolding sampleSwitch_def fold_simps comp_apply id_apply socket_opens
    by (simp add: socket_logs socket_subscribes [OF _ _ len]) blast
  then obtain n out where "wsRun WS_DEFAULTS sampleSwitch = wsStep WS_DEFAULTS (Broadcasted (\<lambda>_. 0) (accountChannel ''A'') ''fill'')
      (onlySocket n [accountChannel ''A''] (Some (userOf ''kb'' (sampleRow ''B''))) [] out)" by blast
  then show ?thesis by (simp add: wsStep_def broadcast_def emitFrame_def)
qed

theorem account_frames_witness:
  "\<exists>k w row now. Received ''c'' (LoginMsg (Some k) (Some w)) now \<in> set sampleSwitch
     \<and> LookedUp ''c'' k w (LookupRow (Some row)) \<in> set sampleSwitch \<and> ak_owner row = ''A''"
  by (rule account_frames_private [OF sampleSwitch_sends])

theorem ws_caps_witness:
  "ipCount ''ip'' (ws_connections (wsRun \<lparr>maxConnections = 3, maxPerIp = 1, msgRate = 1, maxBufferedBytes = 0\<rparr>
      [Opened ''c'' ''ip'' 0, Opened ''d'' ''ip'' 1])) \<le> 1"
  using ws_caps_hold [of "[Opened ''c'' ''ip'' 0, Opened ''d'' ''ip'' 1]" "\<lparr>maxConnections = 3, maxPerIp = 1, msgRate = 1, maxBufferedBytes = 0\<rparr>" "''ip''"]
  by (simp add: openIds_def)

theorem message_rate_witness:
  "(of_nat (handled WS_DEFAULTS ''c'' [0, 500, 1000] (wsRun WS_DEFAULTS [Opened ''c'' ''ip'' 0])) :: rat) \<le> 40"
  using message_rate_bounded [of "\<lparr>rs_tokens = 20, rs_last = 0\<rparr>" "[0, 500, 1000]" "wsRun WS_DEFAULTS [Opened ''c'' ''ip'' 0]" "''c''" WS_DEFAULTS]
  by (simp add: wsStep_def openSocket_def registerConn_def noSockets_def jget_or_def WS_DEFAULTS_def del: handled.simps)

theorem null_frame_witness:
  "ws_crashed (wsRun WS_DEFAULTS [Opened ''c'' ''ip'' 0, Received ''c'' JsonNull 1])"
  using null_frame_crashes [of noSockets WS_DEFAULTS 0 "''c''" "''ip''" 1 "[]"]
  by (simp add: registerConn_def noSockets_def jget_or_def WS_DEFAULTS_def)

theorem login_cap_witness:
  "MAX_FAILED_LOGINS < length (ws_pending (wsRun WS_DEFAULTS (Opened ''c'' ''ip'' 0 # replicate 20 (Received ''c'' (LoginMsg (Some ''k'') (Some ''w'')) 0))))"
proof -
  have "length (ws_pending (wsRun WS_DEFAULTS (Opened ''c'' ''ip'' 0 # replicate 20 (Received ''c'' (LoginMsg (Some ''k'') (Some ''w'')) 0)))) = 20"
    by (rule login_cap_races) (simp_all add: WS_DEFAULTS_def)
  then show ?thesis unfolding MAX_FAILED_LOGINS_def by (simp only:)
qed

end
