(* ===== verification/ApiLimit.thy ===== *)
theory ApiLimit
  imports ApiAuth
begin

text \<open>
  The rate limiter (\<open>api/src/services/rateLimit.ts\<close>), the hook that applies it to every request
  (\<open>plugins/rateLimit.ts\<close>), and the jurisdiction guard (\<open>plugins/geoBlock.ts\<close>). The counters live in one table shared
  by all processes; times are milliseconds since the epoch.
\<close>

section \<open>Definitions: the limiter\<close>

datatype limit_tier = PublicTier | OfKey key_tier

fun perMinute :: "limit_tier \<Rightarrow> nat" where
  "perMinute PublicTier = 60"
| "perMinute (OfKey StandardTier) = 600"
| "perMinute (OfKey MarketMaker) = 6000"

definition WINDOW_SEC :: nat where
  "WINDOW_SEC = 60"

record limit_decision =
  ld_allowed :: bool
  ld_remaining :: nat
  ld_retryAfterSec :: nat
  ld_windowStart :: nat

text \<open>The counters by bucket and window, once the table exists, and whether this process has made sure of it.\<close>

type_synonym bucket_table = "(string \<times> nat, nat) jmap"

record limiter =
  rl_table :: "bucket_table option"
  rl_ensured :: bool

definition ensureTable :: "limiter \<Rightarrow> limiter" where
  "ensureTable s = (if rl_ensured s then s
     else \<lparr>rl_table = Some (case rl_table s of None \<Rightarrow> [] | Some t \<Rightarrow> t), rl_ensured = True\<rparr>)"

definition windowOf :: "nat \<Rightarrow> nat" where
  "windowOf nowMs = (let nowSec = nowMs div 1000 in nowSec - nowSec mod WINDOW_SEC)"

definition limitOf :: "limit_tier \<Rightarrow> nat option \<Rightarrow> nat" where
  "limitOf tier override = (case override of Some n \<Rightarrow> n | None \<Rightarrow> perMinute tier)"

definition checkAndConsume :: "bool \<Rightarrow> nat \<Rightarrow> string \<Rightarrow> limit_tier \<Rightarrow> nat option \<Rightarrow> limiter \<Rightarrow> limiter \<times> (string + limit_decision)" where
  "checkAndConsume fails nowMs bucket tier override s =
     (let s' = ensureTable s; limit = limitOf tier override; w = windowOf nowMs
      in case rl_table s' of
           None \<Rightarrow> (s', Inl ''missing table'')
         | Some t \<Rightarrow>
             if fails then (s', Inl ''query failed'')
             else let count = jget_or t (bucket, w) 0 + 1
               in (s'\<lparr>rl_table := Some (jset (bucket, w) count t)\<rparr>,
                   Inr (if count > limit
                     then \<lparr>ld_allowed = False, ld_remaining = 0, ld_retryAfterSec = max 1 (w + WINDOW_SEC - nowMs div 1000), ld_windowStart = w\<rparr>
                     else \<lparr>ld_allowed = True, ld_remaining = limit - count, ld_retryAfterSec = 0, ld_windowStart = w\<rparr>)))"

definition sweepExpired :: "nat \<Rightarrow> limiter \<Rightarrow> limiter" where
  "sweepExpired nowMs s =
     (let s' = ensureTable s in s'\<lparr>rl_table := map_option (jkeep (\<lambda>k. \<not> snd k < windowOf nowMs)) (rl_table s')\<rparr>)"

section \<open>Definitions: the hook\<close>

definition WAITLIST_JOIN_PER_MINUTE :: nat where
  "WAITLIST_JOIN_PER_MINUTE = 5"

record http_request =
  rq_url :: string
  rq_method :: string
  rq_ip :: string
  rq_headers :: auth_headers

datatype hook_answer = PassOn "api_user option" | TooMany nat

text \<open>The owner of the key, not the key, has the bucket; a request without a valid key has its address's.\<close>

definition bucketOf :: "api_user option \<Rightarrow> string \<Rightarrow> string" where
  "bucketOf user ip = (case user of Some u \<Rightarrow> ''owner:'' @ us_owner u | None \<Rightarrow> ''ip:'' @ ip)"

definition tierOf :: "api_user option \<Rightarrow> limit_tier" where
  "tierOf user = (case user of Some u \<Rightarrow> OfKey (us_tier u) | None \<Rightarrow> PublicTier)"

definition requestUser :: "(string \<Rightarrow> string) \<Rightarrow> string \<Rightarrow> nat \<Rightarrow> http_request \<Rightarrow> key_table \<Rightarrow> api_user option" where
  "requestUser sha256 pepper nowMs rq K =
     (case resolveRequestUser sha256 pepper (int (nowMs div 1000)) (rq_headers rq) K of Inl f \<Rightarrow> None | Inr u \<Rightarrow> Some u)"

definition rateLimitHook :: "(string \<Rightarrow> string) \<Rightarrow> string \<Rightarrow> bool \<Rightarrow> nat \<Rightarrow> key_table \<Rightarrow> http_request \<Rightarrow> limiter \<Rightarrow> limiter \<times> (string + hook_answer)" where
  "rateLimitHook sha256 pepper fails nowMs K rq s =
     (if rq_url rq = ''/v1/health'' \<or> starts_with ''/docs'' (rq_url rq) then (s, Inr (PassOn None))
      else let user = requestUser sha256 pepper nowMs rq K
        in case checkAndConsume fails nowMs (bucketOf user (rq_ip rq)) (tierOf user) None s of
             (s1, Inl err) \<Rightarrow> (s1, Inl err)
           | (s1, Inr d) \<Rightarrow>
               if \<not> ld_allowed d then (s1, Inr (TooMany (ld_retryAfterSec d)))
               else if rq_method rq = ''POST'' \<and> starts_with ''/v1/waitlist'' (rq_url rq) \<and> user = None then
                 (case checkAndConsume fails nowMs (''join:ip:'' @ rq_ip rq) PublicTier (Some WAITLIST_JOIN_PER_MINUTE) s1 of
                    (s2, Inl err) \<Rightarrow> (s2, Inl err)
                  | (s2, Inr j) \<Rightarrow> (s2, Inr (if \<not> ld_allowed j then TooMany (ld_retryAfterSec j) else PassOn user)))
               else (s1, Inr (PassOn user)))"

section \<open>Definitions: restricted jurisdictions\<close>

definition BLOCKED_COUNTRIES :: "string list" where
  "BLOCKED_COUNTRIES = [''US'', ''CU'', ''IR'', ''KP'', ''SY'', ''RU'', ''BY'']"

definition BLOCKED_REGIONS :: "string list" where
  "BLOCKED_REGIONS = [''CA-ON'']"

definition GUARDED_PREFIXES :: "string list" where
  "GUARDED_PREFIXES = [''/v1/orders'', ''/v1/tx'']"

definition isBlocked :: "string \<Rightarrow> string \<Rightarrow> bool" where
  "isBlocked country region =
     (if country = [] then False
      else if country \<in> set BLOCKED_COUNTRIES then True
      else (if region = [] then [] else country @ ''-'' @ region) \<in> set BLOCKED_REGIONS)"

definition geoGuarded :: "string \<Rightarrow> bool" where
  "geoGuarded url \<longleftrightarrow> list_ex (\<lambda>p. url = p \<or> starts_with (p @ ''/'') url) GUARDED_PREFIXES"

text \<open>The hook: a 451 for a guarded URL from a blocked place; the headers are already upper case.\<close>

definition geoBlockHook :: "bool \<Rightarrow> string \<Rightarrow> string \<Rightarrow> string \<Rightarrow> nat option" where
  "geoBlockHook enabled url country region =
     (if \<not> enabled then None else if \<not> geoGuarded url then None else if isBlocked country region then Some 451 else None)"

section \<open>Lemmas\<close>

text \<open>A history of the shared table, from any processes.\<close>

datatype limit_op = Consume string limit_tier "nat option" (lo_now: nat) | Sweep (lo_now: nat)

definition limitOp :: "limit_op \<Rightarrow> limiter \<Rightarrow> limiter" where
  "limitOp o' s = (case o' of
      Consume b tier ov t \<Rightarrow> fst (checkAndConsume False t b tier ov s)
    | Sweep t \<Rightarrow> sweepExpired t s)"

definition freshLimiter :: limiter where
  "freshLimiter = \<lparr>rl_table = None, rl_ensured = False\<rparr>"

abbreviation limiterRun :: "limit_op list \<Rightarrow> limiter" where
  "limiterRun ops \<equiv> fold limitOp ops freshLimiter"

definition inWindow :: "string \<Rightarrow> nat \<Rightarrow> limit_op \<Rightarrow> bool" where
  "inWindow b w o' \<longleftrightarrow> (\<exists>tier ov t. o' = Consume b tier ov t \<and> windowOf t = w)"

lemma inWindow_simps [simp]: "inWindow b w (Consume c tier ov t) \<longleftrightarrow> b = c \<and> windowOf t = w" "\<not> inWindow b w (Sweep t)"
  by (auto simp: inWindow_def)

lemma windowOf_mono: "a \<le> b \<Longrightarrow> windowOf a \<le> windowOf b"
proof -
  assume "a \<le> b"
  then have "(a div 1000) div 60 * 60 \<le> (b div 1000) div 60 * 60" by (intro mult_le_mono1 div_le_mono)
  then show ?thesis by (simp add: windowOf_def WINDOW_SEC_def Let_def minus_mod_eq_div_mult)
qed

lemma limiter_counts:
  assumes "sorted (map lo_now ops)" "\<forall>o' \<in> set ops. windowOf (lo_now o') \<le> w"
  shows "jget_or (the (rl_table (ensureTable (limiterRun ops)))) (b, w) 0 = length (filter (inWindow b w) ops)
     \<and> rl_table (ensureTable (limiterRun ops)) \<noteq> None"
  using assms
proof (induction ops rule: rev_induct)
  case Nil
  then show ?case by (simp add: ensureTable_def freshLimiter_def jget_or_def)
next
  case (snoc o' ops)
  let ?s = "limiterRun ops"
  have ih: "jget_or (the (rl_table (ensureTable ?s))) (b, w) 0 = length (filter (inWindow b w) ops)" "rl_table (ensureTable ?s) \<noteq> None"
    using snoc by (simp_all add: sorted_append)
  then obtain t where t: "rl_table (ensureTable ?s) = Some t" by blast
  have again: "ensureTable (u\<lparr>rl_table := v\<rparr>) = u\<lparr>rl_table := v\<rparr>" if "u = ensureTable ?s" for u v
    using that by (auto simp: ensureTable_def)
  show ?case
  proof (cases o')
    case (Consume c tier ov now)
    have "limitOp o' ?s = (ensureTable ?s)\<lparr>rl_table := Some (jset (c, windowOf now) (jget_or t (c, windowOf now) 0 + 1) t)\<rparr>"
      using t Consume by (simp add: limitOp_def checkAndConsume_def Let_def)
    then show ?thesis using ih t Consume again by (auto simp: jget_or_jset)
  next
    case (Sweep now)
    have "limitOp o' ?s = (ensureTable ?s)\<lparr>rl_table := Some (jkeep (\<lambda>k. \<not> snd k < windowOf now) t)\<rparr>"
      using t Sweep by (simp add: limitOp_def sweepExpired_def Let_def)
    moreover have "\<not> w < windowOf now" using snoc.prems(2) Sweep by simp
    ultimately show ?thesis using ih t Sweep again by (simp add: jget_or_def)
  qed
qed

text \<open>Whether each operation of a history was a request that got through.\<close>

definition admits :: "limit_op list \<Rightarrow> limit_op \<Rightarrow> bool" where
  "admits ops o' = (case o' of
      Consume b tier ov t \<Rightarrow> (case snd (checkAndConsume False t b tier ov (limiterRun ops)) of Inr d \<Rightarrow> ld_allowed d | Inl e \<Rightarrow> False)
    | Sweep t \<Rightarrow> False)"

fun admitted :: "(limit_op \<Rightarrow> bool) \<Rightarrow> limit_op list \<Rightarrow> limit_op list \<Rightarrow> nat" where
  "admitted P ops [] = 0"
| "admitted P ops (o' # rest) = (if P o' \<and> admits ops o' then 1 else 0) + admitted P (ops @ [o']) rest"

lemma admits_iff:
  assumes "sorted (map lo_now (ops @ [Consume b tier ov t]))"
  shows "admits ops (Consume b tier ov t) \<longleftrightarrow> length (filter (inWindow b (windowOf t)) ops) < limitOf tier ov"
proof -
  have "sorted (map lo_now ops)" "\<forall>o' \<in> set ops. windowOf (lo_now o') \<le> windowOf t"
    using assms windowOf_mono by (auto simp: sorted_append)
  from limiter_counts [OF this, of b] show ?thesis
    by (auto simp: admits_def checkAndConsume_def Let_def split: option.split)
qed

lemma admitted_le:
  assumes "sorted (map lo_now (ops @ rest))" "\<forall>tier ov t. Consume b tier ov t \<in> set rest \<and> windowOf t = w \<longrightarrow> limitOf tier ov \<le> L"
  shows "admitted (inWindow b w) ops rest \<le> L - length (filter (inWindow b w) ops)"
  using assms
proof (induction rest arbitrary: ops)
  case (Cons o' rest)
  have ih: "admitted (inWindow b w) (ops @ [o']) rest \<le> L - length (filter (inWindow b w) (ops @ [o']))"
    by (rule Cons.IH) (use Cons.prems in auto)
  show ?case
  proof (cases "inWindow b w o' \<and> admits ops o'")
    case True
    then obtain tier ov t where o': "o' = Consume b tier ov t" "windowOf t = w" by (auto simp: inWindow_def)
    have "sorted (map lo_now (ops @ [Consume b tier ov t]))" using Cons.prems(1) o' by (simp add: sorted_append)
    then have "length (filter (inWindow b w) ops) < limitOf tier ov" using admits_iff True o' by blast
    moreover have "limitOf tier ov \<le> L" using Cons.prems(2) o' by (metis list.set_intros(1))
    ultimately show ?thesis using ih True by simp
  next
    case False
    then have "admitted (inWindow b w) ops (o' # rest) = admitted (inWindow b w) (ops @ [o']) rest" by auto
    then show ?thesis using ih by (simp split: if_splits)
  qed
qed simp

section \<open>Properties\<close>

text \<open>The limit is exact: in any history of the shared table in time order, with sweeps at any point, a request gets
  through exactly when fewer requests of its bucket than its limit came before it in its window.\<close>

theorem rate_limit_exact:
  assumes "sorted (map lo_now (ops @ [Consume b tier ov t]))"
  shows "\<exists>d. snd (checkAndConsume False t b tier ov (limiterRun ops)) = Inr d
     \<and> (ld_allowed d \<longleftrightarrow> length (filter (inWindow b (windowOf t)) ops) < limitOf tier ov)
     \<and> ld_retryAfterSec d \<le> WINDOW_SEC \<and> (\<not> ld_allowed d \<longrightarrow> 1 \<le> ld_retryAfterSec d)"
proof -
  have "sorted (map lo_now ops)" "\<forall>o' \<in> set ops. windowOf (lo_now o') \<le> windowOf t"
    using assms windowOf_mono by (auto simp: sorted_append)
  from limiter_counts [OF this, of b] obtain tab where tab: "rl_table (ensureTable (limiterRun ops)) = Some tab"
      "jget_or tab (b, windowOf t) 0 = length (filter (inWindow b (windowOf t)) ops)" by force
  have "windowOf t \<le> t div 1000" by (simp add: windowOf_def Let_def)
  then have "max 1 (windowOf t + WINDOW_SEC - t div 1000) \<le> WINDOW_SEC" by (simp add: WINDOW_SEC_def)
  then show ?thesis using tab by (auto simp: checkAndConsume_def Let_def)
qed

text \<open>C18. The quota holds: in any history in time order, the requests of one bucket that get through in one window number at
  most the largest limit applied to it there.\<close>

theorem window_quota:
  assumes "sorted (map lo_now ops)" "\<forall>tier ov t. Consume b tier ov t \<in> set ops \<and> windowOf t = w \<longrightarrow> limitOf tier ov \<le> L"
  shows "admitted (inWindow b w) [] ops \<le> L"
  using admitted_le [of "[]" ops b w L] assms by simp

section \<open>Witnesses\<close>

abbreviation sampleJoin :: limit_op where
  "sampleJoin \<equiv> Consume ''join:ip:x'' PublicTier (Some 1) 61000"

theorem rate_limit_witness:
  "\<exists>d. snd (checkAndConsume False 62000 ''join:ip:x'' PublicTier (Some 1) (limiterRun [sampleJoin, Sweep 61500])) = Inr d \<and> \<not> ld_allowed d"
proof -
  have "windowOf 61000 = windowOf 62000" by (simp add: windowOf_def WINDOW_SEC_def)
  moreover have "sorted (map lo_now ([sampleJoin, Sweep 61500] @ [Consume ''join:ip:x'' PublicTier (Some 1) 62000]))" by simp
  from rate_limit_exact [OF this] obtain d
    where "snd (checkAndConsume False 62000 ''join:ip:x'' PublicTier (Some 1) (limiterRun [sampleJoin, Sweep 61500])) = Inr d"
      "ld_allowed d \<longleftrightarrow> length (filter (inWindow ''join:ip:x'' (windowOf 62000)) [sampleJoin, Sweep 61500]) < limitOf PublicTier (Some 1)"
    by blast
  ultimately show ?thesis by (intro exI [of _ d]) (simp add: limitOf_def)
qed

theorem window_quota_witness:
  "admitted (inWindow ''join:ip:x'' 60) [] [sampleJoin, sampleJoin, sampleJoin] \<le> 1"
  using window_quota [of "[sampleJoin, sampleJoin, sampleJoin]" "''join:ip:x''" 60 1] by (simp add: limitOf_def)

end
