(* ===== verification/ApiAccess.thy ===== *)
theory ApiAccess
  imports ApiAuth
begin

text \<open>
  Who may enter the gated app: the access store (\<open>api/src/services/accessGrants.ts\<close>) and its routes
  (\<open>api/src/routes/access.ts\<close>). One row per wallet; every decision of an admin also writes the audit log, in the same
  transaction. What the database does with a call, the mail service and the check of a Stellar address are parameters.
\<close>

section \<open>Definitions: the store\<close>

datatype grant_status = GrantPending | GrantApproved | GrantRejected | GrantRevoked
datatype grant_action = ApproveGrant | RejectGrant | RevokeGrant
datatype grant_segment = TraderSegment | LpSegment | BothSegment

definition TOS_VERSION :: string where
  "TOS_VERSION = ''v1.1-2026-08''"

record access_grant =
  ag_email :: "string option"
  ag_status :: grant_status
  ag_source :: string
  ag_wave :: "string option"
  ag_segment :: "grant_segment option"
  ag_attestedAt :: "int option"
  ag_tosVersion :: "string option"
  ag_requestedAt :: int
  ag_decidedAt :: "int option"
  ag_decidedBy :: "string option"
  ag_notes :: "string option"
  ag_emailSentAt :: "int option"

datatype audit_action = DecisionAction grant_action | ForgetAction | ExportAction
datatype audit_detail = NoDetail | DecisionDetail "string option" "string option" | ExportDetail "grant_status option" nat

record audit_row =
  au_actor :: string
  au_action :: audit_action
  au_wallet :: "string option"
  au_detail :: audit_detail

text \<open>The two tables, and the mails the service accepted.\<close>

record access_store =
  as_grants :: "(string, access_grant) jmap"
  as_audit :: "audit_row list"
  as_mails :: "(string \<times> string option) list"

text \<open>A statement fails because its table does not exist yet, or otherwise.\<close>

datatype db_fault = NoTable | OtherFault

text \<open>A transaction rolls back, commits, or commits without its caller hearing of it.\<close>

datatype tx_outcome = TxRollsBack | TxCommits | TxCommitUnheard

definition joinWaitlist :: "int \<Rightarrow> string \<Rightarrow> string option \<Rightarrow> grant_segment option \<Rightarrow> access_store \<Rightarrow> access_store \<times> grant_status" where
  "joinWaitlist now wallet email segment s =
     (case map_of (as_grants s) wallet of
        Some g \<Rightarrow> (s, ag_status g)
      | None \<Rightarrow> (s\<lparr>as_grants := jset wallet \<lparr>ag_email = email, ag_status = GrantPending, ag_source = ''waitlist'', ag_wave = None,
            ag_segment = segment, ag_attestedAt = Some now, ag_tosVersion = Some TOS_VERSION, ag_requestedAt = now,
            ag_decidedAt = None, ag_decidedBy = None, ag_notes = None, ag_emailSentAt = None\<rparr> (as_grants s)\<rparr>, GrantPending))"

datatype public_status = StatusApproved | StatusPending | StatusNone

definition waitlistStatus :: "db_fault option \<Rightarrow> string \<Rightarrow> access_store \<Rightarrow> db_fault + public_status" where
  "waitlistStatus fault wallet s =
     (case fault of
        Some NoTable \<Rightarrow> Inr StatusNone
      | Some OtherFault \<Rightarrow> Inl OtherFault
      | None \<Rightarrow> Inr (case map_of (as_grants s) wallet of
            None \<Rightarrow> StatusNone
          | Some g \<Rightarrow> if ag_status g = GrantApproved then StatusApproved else StatusPending))"

definition isApproved :: "db_fault option \<Rightarrow> string \<Rightarrow> access_store \<Rightarrow> db_fault + bool" where
  "isApproved fault wallet s =
     (case fault of
        Some NoTable \<Rightarrow> Inr False
      | Some OtherFault \<Rightarrow> Inl OtherFault
      | None \<Rightarrow> Inr (case map_of (as_grants s) wallet of None \<Rightarrow> False | Some g \<Rightarrow> ag_status g = GrantApproved))"

definition grantOf :: "db_fault option \<Rightarrow> string \<Rightarrow> access_store \<Rightarrow> db_fault + access_grant option" where
  "grantOf fault wallet s =
     (case fault of
        Some NoTable \<Rightarrow> Inr None
      | Some OtherFault \<Rightarrow> Inl OtherFault
      | None \<Rightarrow> Inr (map_of (as_grants s) wallet))"

text \<open>\<open>LIKE\<close> with its two wildcards and the escape character; \<open>ILIKE\<close> ignores the case.\<close>

fun sql_like :: "string \<Rightarrow> string \<Rightarrow> bool" where
  "sql_like [] s \<longleftrightarrow> s = []"
| "sql_like (c # p) [] \<longleftrightarrow> c = CHR ''%'' \<and> sql_like p []"
| "sql_like (c # p) (d # s) \<longleftrightarrow>
     (if c = CHR ''%'' then sql_like p (d # s) \<or> sql_like (c # p) s
      else if c = CHR ''_'' then sql_like p s
      else if c = CHR 0x5C then (case p of [] \<Rightarrow> False | e # p' \<Rightarrow> e = d \<and> sql_like p' s)
      else c = d \<and> sql_like p s)"

definition sql_ilike :: "string \<Rightarrow> string \<Rightarrow> bool" where
  "sql_ilike p s = sql_like (map to_lower p) (map to_lower s)"

record list_filter =
  lf_status :: "grant_status option"
  lf_wave :: "string option"
  lf_q :: "string option"
  lf_limit :: nat
  lf_offset :: nat

text \<open>A condition on an empty string is not added; one on a column that is null does not hold.\<close>

definition matchesFilter :: "list_filter \<Rightarrow> string \<times> access_grant \<Rightarrow> bool" where
  "matchesFilter f p \<longleftrightarrow>
     (case lf_status f of None \<Rightarrow> True | Some st \<Rightarrow> ag_status (snd p) = st)
   \<and> (case lf_wave f of None \<Rightarrow> True | Some w \<Rightarrow> w = [] \<or> ag_wave (snd p) = Some w)
   \<and> (case lf_q f of None \<Rightarrow> True | Some q \<Rightarrow> q = [] \<or> sql_ilike (q @ ''%'') (fst p)
        \<or> (case ag_email (snd p) of None \<Rightarrow> False | Some e \<Rightarrow> sql_ilike (''%'' @ q @ ''%'') e))"

definition listGrants :: "list_filter \<Rightarrow> access_store \<Rightarrow> (string \<times> access_grant) list" where
  "listGrants f s = take (lf_limit f) (drop (lf_offset f)
     (js_sort (\<lambda>a b. ag_requestedAt (snd b) - ag_requestedAt (snd a)) (filter (matchesFilter f) (as_grants s))))"

definition countGrants :: "db_fault option \<Rightarrow> access_store \<Rightarrow> db_fault + (grant_status, nat) jmap" where
  "countGrants fault s =
     (case fault of
        Some NoTable \<Rightarrow> Inr []
      | Some OtherFault \<Rightarrow> Inl OtherFault
      | None \<Rightarrow> Inr (fold (\<lambda>p m. jset (ag_status (snd p)) (jget_or m (ag_status (snd p)) 0 + 1) m) (as_grants s) []))"

section \<open>Definitions: decisions\<close>

record decide_input =
  di_wallets :: "string list"
  di_action :: grant_action
  di_wave :: "string option"
  di_notes :: "string option"
  di_actor :: string

fun statusAfter :: "grant_action \<Rightarrow> grant_status" where
  "statusAfter ApproveGrant = GrantApproved"
| "statusAfter RejectGrant = GrantRejected"
| "statusAfter RevokeGrant = GrantRevoked"

definition coalesce :: "'a option \<Rightarrow> 'a option \<Rightarrow> 'a option" where
  "coalesce a b = (case a of None \<Rightarrow> b | Some x \<Rightarrow> a)"

text \<open>The upsert of an approval, and the update of a rejection or revocation; \<open>None\<close> when no row changed.\<close>

definition decidedGrant :: "int \<Rightarrow> decide_input \<Rightarrow> access_grant option \<Rightarrow> access_grant option" where
  "decidedGrant now inp row =
     (case row of
        Some g \<Rightarrow> Some (g\<lparr>ag_status := statusAfter (di_action inp),
            ag_wave := (if di_action inp = ApproveGrant then coalesce (di_wave inp) (ag_wave g) else ag_wave g),
            ag_notes := coalesce (di_notes inp) (ag_notes g), ag_decidedAt := Some now, ag_decidedBy := Some (di_actor inp)\<rparr>)
      | None \<Rightarrow>
          if di_action inp = ApproveGrant
          then Some \<lparr>ag_email = None, ag_status = GrantApproved, ag_source = ''admin'', ag_wave = di_wave inp, ag_segment = None,
              ag_attestedAt = None, ag_tosVersion = None, ag_requestedAt = now, ag_decidedAt = Some now,
              ag_decidedBy = Some (di_actor inp), ag_notes = di_notes inp, ag_emailSentAt = None\<rparr>
          else None)"

primrec decideAll :: "int \<Rightarrow> decide_input \<Rightarrow> string list \<Rightarrow> access_store \<Rightarrow> access_store \<times> string list" where
  "decideAll now inp [] s = (s, [])"
| "decideAll now inp (wallet # ws) s =
     (case decidedGrant now inp (map_of (as_grants s) wallet) of
        None \<Rightarrow> decideAll now inp ws s
      | Some g \<Rightarrow>
          let (s', updated) = decideAll now inp ws (s\<lparr>as_grants := jset wallet g (as_grants s),
                as_audit := as_audit s @ [\<lparr>au_actor = di_actor inp, au_action = DecisionAction (di_action inp), au_wallet = Some wallet,
                  au_detail = DecisionDetail (di_wave inp) (di_notes inp)\<rparr>]\<rparr>)
          in (s', wallet # updated))"

definition settle :: "tx_outcome \<Rightarrow> access_store \<Rightarrow> access_store \<times> 'a \<Rightarrow> access_store \<times> (db_fault + 'a)" where
  "settle outcome s p =
     (case outcome of
        TxRollsBack \<Rightarrow> (s, Inl OtherFault)
      | TxCommits \<Rightarrow> (fst p, Inr (snd p))
      | TxCommitUnheard \<Rightarrow> (fst p, Inl OtherFault))"

definition decideGrants :: "tx_outcome \<Rightarrow> int \<Rightarrow> decide_input \<Rightarrow> access_store \<Rightarrow> access_store \<times> (db_fault + string list)" where
  "decideGrants outcome now inp s = settle outcome s (decideAll now inp (di_wallets inp) s)"

definition forgetEmail :: "tx_outcome \<Rightarrow> string \<Rightarrow> string \<Rightarrow> access_store \<Rightarrow> access_store \<times> (db_fault + bool)" where
  "forgetEmail outcome wallet actor s =
     settle outcome s (case map_of (as_grants s) wallet of
        None \<Rightarrow> (s, False)
      | Some g \<Rightarrow> (s\<lparr>as_grants := jset wallet (g\<lparr>ag_email := None, ag_emailSentAt := None\<rparr>) (as_grants s),
            as_audit := as_audit s @ [\<lparr>au_actor = actor, au_action = ForgetAction, au_wallet = Some wallet, au_detail = NoDetail\<rparr>]\<rparr>, True))"

definition markEmailSent :: "db_fault option \<Rightarrow> int \<Rightarrow> string \<Rightarrow> access_store \<Rightarrow> access_store \<times> (db_fault + unit)" where
  "markEmailSent fault now wallet s =
     (case fault of
        Some f \<Rightarrow> (s, Inl f)
      | None \<Rightarrow> (case map_of (as_grants s) wallet of
            None \<Rightarrow> s
          | Some g \<Rightarrow> s\<lparr>as_grants := jset wallet (g\<lparr>ag_emailSentAt := Some now\<rparr>) (as_grants s)\<rparr>, Inr ()))"

definition auditExport :: "db_fault option \<Rightarrow> string \<Rightarrow> grant_status option \<Rightarrow> nat \<Rightarrow> access_store \<Rightarrow> access_store \<times> (db_fault + unit)" where
  "auditExport fault actor status n s =
     (case fault of
        Some f \<Rightarrow> (s, Inl f)
      | None \<Rightarrow> (s\<lparr>as_audit := as_audit s @ [\<lparr>au_actor = actor, au_action = ExportAction, au_wallet = None, au_detail = ExportDetail status n\<rparr>]\<rparr>, Inr ()))"

section \<open>Definitions: routes\<close>

text \<open>The answer of a handler: an error with its status, a result, or an exception (Fastify answers 500).\<close>

datatype 'a reply = Refused nat string | Sent 'a | Thrown

record access_env =
  ae_validKey :: "string \<Rightarrow> bool"
  ae_sendApproval :: "string \<Rightarrow> string option \<Rightarrow> bool"
  ae_adminWallets :: "string list"
  ae_showTime :: "int \<Rightarrow> string"
  ae_wallet :: wallet_sdk

definition emailOk :: "string \<Rightarrow> bool" where
  "emailOk s =
     (let u = takeWhile (\<lambda>c. c \<noteq> CHR ''@'') s; d = drop (length u + 1) s;
          ok = list_all (\<lambda>c. \<not> is_space c \<and> c \<noteq> CHR ''@'')
      in CHR ''@'' \<in> set s \<and> u \<noteq> [] \<and> ok u \<and> ok d \<and> list_ex (\<lambda>i. d ! i = CHR ''.'') [1..<length d - 1])"

record join_body =
  jb_wallet :: string
  jb_email :: "string option"
  jb_segment :: "grant_segment option"
  jb_attest :: bool

definition waitlistRoute :: "access_env \<Rightarrow> db_fault option \<Rightarrow> int \<Rightarrow> join_body \<Rightarrow> access_store \<Rightarrow> access_store \<times> grant_status reply" where
  "waitlistRoute E fault now body s =
     (if \<not> jb_attest body then (s, Refused 400 ''attestation_required'')
      else if \<not> ae_validKey E (jb_wallet body) then (s, Refused 400 ''invalid_wallet'')
      else if (case jb_email body of None \<Rightarrow> False | Some e \<Rightarrow> e \<noteq> [] \<and> \<not> emailOk e) then (s, Refused 400 ''invalid_email'')
      else if fault \<noteq> None then (s, Thrown)
      else let (s', st) = joinWaitlist now (jb_wallet body) (if jb_email body = Some [] then None else jb_email body) (jb_segment body) s
           in (s', Sent st))"

definition statusRoute :: "access_env \<Rightarrow> db_fault option \<Rightarrow> string \<Rightarrow> access_store \<Rightarrow> public_status reply" where
  "statusRoute E fault wallet s =
     (if \<not> ae_validKey E wallet then Refused 400 ''invalid_wallet''
      else case waitlistStatus fault wallet s of Inl f \<Rightarrow> Thrown | Inr st \<Rightarrow> Sent st)"

text \<open>The challenge is consumed by the check, whatever follows.\<close>

definition verifyRoute :: "access_env \<Rightarrow> db_fault option \<Rightarrow> db_fault option \<Rightarrow> int \<Rightarrow> string \<Rightarrow> string \<Rightarrow> string
    \<Rightarrow> wallet_auth \<Rightarrow> access_store \<Rightarrow> wallet_auth \<times> string option reply" where
  "verifyRoute E fault fault' now address challenge signature w s =
     (let (w', ok) = verifyWallet (ae_wallet E) now address challenge signature w
      in (w', if \<not> ok then Refused 401 ''invalid_signature''
          else case isApproved fault address s of
              Inl f \<Rightarrow> Thrown
            | Inr approved \<Rightarrow>
                if \<not> approved then Refused 403 ''not_approved''
                else (case grantOf fault' address s of
                    Inl f \<Rightarrow> Thrown
                  | Inr g \<Rightarrow> Sent (case g of None \<Rightarrow> None | Some row \<Rightarrow> ag_wave row))))"

text \<open>The pre-handlers \<open>requireAuth\<close> (its outcome is the user) and \<open>requireAdmin\<close>.\<close>

definition asAdmin :: "access_env \<Rightarrow> api_user option \<Rightarrow> (api_user \<Rightarrow> access_store \<times> 'a reply) \<Rightarrow> access_store \<Rightarrow> access_store \<times> 'a reply" where
  "asAdmin E user handler s =
     (case user of
        None \<Rightarrow> (s, Refused 401 ''unauthorized'')
      | Some u \<Rightarrow> if us_owner u \<notin> set (ae_adminWallets E) then (s, Refused 403 ''not_admin'') else handler u)"

definition adminListRoute :: "access_env \<Rightarrow> db_fault option \<Rightarrow> db_fault option \<Rightarrow> api_user option \<Rightarrow> list_filter \<Rightarrow> access_store
    \<Rightarrow> access_store \<times> ((string \<times> access_grant) list \<times> (grant_status, nat) jmap) reply" where
  "adminListRoute E fault fault' user f s = asAdmin E user (\<lambda>u.
     (s, if fault \<noteq> None then Thrown
         else case countGrants fault' s of Inl x \<Rightarrow> Thrown | Inr counts \<Rightarrow> Sent (listGrants f s, counts))) s"

text \<open>The mails of an approval, after its commit. The faults of the read and of the write are the environment's, by wallet.\<close>

primrec mailApproved :: "access_env \<Rightarrow> (string \<Rightarrow> db_fault option) \<Rightarrow> (string \<Rightarrow> db_fault option) \<Rightarrow> int \<Rightarrow> string list
    \<Rightarrow> access_store \<Rightarrow> access_store \<times> (db_fault + string list)" where
  "mailApproved E reads marks now [] s = (s, Inr [])"
| "mailApproved E reads marks now (wallet # ws) s =
     (case grantOf (reads wallet) wallet s of
        Inl f \<Rightarrow> (s, Inl f)
      | Inr g \<Rightarrow>
          (case g of
             Some row \<Rightarrow>
               (case ag_email row of
                  Some email \<Rightarrow>
                    if email = [] \<or> ag_emailSentAt row \<noteq> None \<or> \<not> ae_sendApproval E email (ag_wave row)
                    then mailApproved E reads marks now ws s
                    else (case markEmailSent (marks wallet) now wallet (s\<lparr>as_mails := as_mails s @ [(email, ag_wave row)]\<rparr>) of
                        (s1, Inl f) \<Rightarrow> (s1, Inl f)
                      | (s1, Inr _) \<Rightarrow>
                          let (s2, r) = mailApproved E reads marks now ws s1 in (s2, map_sum id (\<lambda>emailed. wallet # emailed) r))
                | None \<Rightarrow> mailApproved E reads marks now ws s)
           | None \<Rightarrow> mailApproved E reads marks now ws s))"

record decide_body =
  db_wallets :: "string list"
  db_action :: grant_action
  db_wave :: "string option"
  db_notes :: "string option"

definition decideRoute :: "access_env \<Rightarrow> tx_outcome \<Rightarrow> (string \<Rightarrow> db_fault option) \<Rightarrow> (string \<Rightarrow> db_fault option) \<Rightarrow> int
    \<Rightarrow> api_user option \<Rightarrow> decide_body \<Rightarrow> access_store \<Rightarrow> access_store \<times> (string list \<times> string list) reply" where
  "decideRoute E outcome reads marks now user body s = asAdmin E user (\<lambda>u.
     if list_ex (\<lambda>w. \<not> ae_validKey E w) (db_wallets body) then (s, Refused 400 ''invalid_wallet'')
     else case decideGrants outcome now \<lparr>di_wallets = db_wallets body, di_action = db_action body, di_wave = db_wave body,
              di_notes = db_notes body, di_actor = us_owner u\<rparr> s of
         (s1, Inl f) \<Rightarrow> (s1, Thrown)
       | (s1, Inr updated) \<Rightarrow>
           if db_action body \<noteq> ApproveGrant then (s1, Sent (updated, []))
           else (case mailApproved E reads marks now updated s1 of
               (s2, Inl f) \<Rightarrow> (s2, Thrown)
             | (s2, Inr emailed) \<Rightarrow> (s2, Sent (updated, emailed)))) s"

definition forgetRoute :: "access_env \<Rightarrow> tx_outcome \<Rightarrow> api_user option \<Rightarrow> string \<Rightarrow> access_store \<Rightarrow> access_store \<times> bool reply" where
  "forgetRoute E outcome user wallet s = asAdmin E user (\<lambda>u.
     if \<not> ae_validKey E wallet then (s, Refused 400 ''invalid_wallet'')
     else case forgetEmail outcome wallet (us_owner u) s of
         (s1, Inl f) \<Rightarrow> (s1, Thrown)
       | (s1, Inr forgotten) \<Rightarrow> (s1, Sent forgotten)) s"

section \<open>Definitions: the export\<close>

definition csvEsc :: "string option \<Rightarrow> string" where
  "csvEsc v =
     (case v of
        None \<Rightarrow> []
      | Some t \<Rightarrow>
          if list_ex (\<lambda>c. c = CHR 0x22 \<or> c = CHR '','' \<or> c = CHR 0x0A) t
          then CHR 0x22 # concat (map (\<lambda>c. if c = CHR 0x22 then [c, c] else [c]) t) @ [CHR 0x22]
          else t)"

primrec csvJoin :: "char \<Rightarrow> string list \<Rightarrow> string" where
  "csvJoin c [] = []"
| "csvJoin c (x # xs) = (if xs = [] then x else x @ c # csvJoin c xs)"

fun statusText :: "grant_status \<Rightarrow> string" where
  "statusText GrantPending = ''pending''"
| "statusText GrantApproved = ''approved''"
| "statusText GrantRejected = ''rejected''"
| "statusText GrantRevoked = ''revoked''"

fun segmentText :: "grant_segment \<Rightarrow> string" where
  "segmentText TraderSegment = ''trader''"
| "segmentText LpSegment = ''lp''"
| "segmentText BothSegment = ''both''"

definition exportCells :: "access_env \<Rightarrow> string \<times> access_grant \<Rightarrow> string option list" where
  "exportCells E p =
     (let g = snd p in
      [Some (fst p), ag_email g, Some (statusText (ag_status g)), Some (ag_source g), ag_wave g, map_option segmentText (ag_segment g),
       Some (ae_showTime E (ag_requestedAt g)), map_option (ae_showTime E) (ag_decidedAt g), ag_decidedBy g, ag_notes g])"

definition CSV_HEADER :: string where
  "CSV_HEADER = ''wallet,email,status,source,wave,segment,requested_at,decided_at,decided_by,notes''"

definition exportCsv :: "access_env \<Rightarrow> (string \<times> access_grant) list \<Rightarrow> string" where
  "exportCsv E rows = csvJoin (CHR 0x0A) (CSV_HEADER # map (\<lambda>p. csvJoin (CHR '','') (map csvEsc (exportCells E p))) rows)"

definition exportRoute :: "access_env \<Rightarrow> db_fault option \<Rightarrow> db_fault option \<Rightarrow> api_user option \<Rightarrow> grant_status option \<Rightarrow> access_store
    \<Rightarrow> access_store \<times> string reply" where
  "exportRoute E fault fault' user status s = asAdmin E user (\<lambda>u.
     if fault \<noteq> None then (s, Thrown)
     else let rows = listGrants \<lparr>lf_status = status, lf_wave = None, lf_q = None, lf_limit = 10000, lf_offset = 0\<rparr> s
          in case auditExport fault' (us_owner u) status (length rows) s of
              (s1, Inl f) \<Rightarrow> (s1, Thrown)
            | (s1, Inr _) \<Rightarrow> (s1, Sent (exportCsv E rows))) s"

section \<open>Lemmas\<close>

text \<open>The calls that change the store, with what the environment does to each.\<close>

datatype access_op =
    JoinOp "db_fault option" int join_body
  | DecideOp tx_outcome "string \<Rightarrow> db_fault option" "string \<Rightarrow> db_fault option" int "api_user option" decide_body
  | ForgetOp tx_outcome "api_user option" string
  | ExportOp "db_fault option" "db_fault option" "api_user option" "grant_status option"

definition accessStep :: "access_env \<Rightarrow> access_op \<Rightarrow> access_store \<Rightarrow> access_store" where
  "accessStep E o' s = (case o' of
      JoinOp fault now body \<Rightarrow> fst (waitlistRoute E fault now body s)
    | DecideOp outcome reads marks now user body \<Rightarrow> fst (decideRoute E outcome reads marks now user body s)
    | ForgetOp outcome user wallet \<Rightarrow> fst (forgetRoute E outcome user wallet s)
    | ExportOp fault fault' user status \<Rightarrow> fst (exportRoute E fault fault' user status s))"

definition noGrants :: access_store where
  "noGrants = \<lparr>as_grants = [], as_audit = [], as_mails = []\<rparr>"

abbreviation accessRun :: "access_env \<Rightarrow> access_op list \<Rightarrow> access_store" where
  "accessRun E ops \<equiv> fold (accessStep E) ops noGrants"

text \<open>The decisions on a wallet that the audit log records, with their actors, oldest first.\<close>

definition verdictsOf :: "string \<Rightarrow> audit_row list \<Rightarrow> (grant_action \<times> string) list" where
  "verdictsOf w rows = concat (map (\<lambda>r. case au_action r of
      DecisionAction a \<Rightarrow> if au_wallet r = Some w then [(a, au_actor r)] else [] | _ \<Rightarrow> []) rows)"

lemma verdictsOf_snoc [simp]:
  "verdictsOf w (rows @ [r]) = verdictsOf w rows
     @ (case au_action r of DecisionAction a \<Rightarrow> if au_wallet r = Some w then [(a, au_actor r)] else [] | _ \<Rightarrow> [])"
  by (simp add: verdictsOf_def)

text \<open>A row is what the log says of its wallet.\<close>

definition rowAgrees :: "(grant_action \<times> string) list \<Rightarrow> access_grant option \<Rightarrow> bool" where
  "rowAgrees vs row =
     (if vs = [] then (case row of None \<Rightarrow> True | Some g \<Rightarrow> ag_status g = GrantPending \<and> ag_decidedBy g = None)
      else (case row of None \<Rightarrow> False
        | Some g \<Rightarrow> ag_status g = statusAfter (fst (last vs)) \<and> ag_decidedBy g = Some (snd (last vs))))"

definition truthful :: "access_env \<Rightarrow> access_store \<Rightarrow> bool" where
  "truthful E s \<longleftrightarrow> (\<forall>w. rowAgrees (verdictsOf w (as_audit s)) (map_of (as_grants s) w))
     \<and> (\<forall>r \<in> set (as_audit s). au_actor r \<in> set (ae_adminWallets E))"

lemma truthful_cong: "as_grants s' = as_grants s \<Longrightarrow> as_audit s' = as_audit s \<Longrightarrow> truthful E s' = truthful E s"
  by (simp add: truthful_def)

lemma rowAgrees_same:
  "rowAgrees vs (Some g) \<Longrightarrow> ag_status g' = ag_status g \<Longrightarrow> ag_decidedBy g' = ag_decidedBy g \<Longrightarrow> rowAgrees vs (Some g')"
  by (simp add: rowAgrees_def split: if_split_asm)

text \<open>A row may change in the columns no decision writes, with an audit row that is no decision.\<close>

lemma truthful_touch:
  assumes "truthful E s" "map_of (as_grants s) w = Some g" "ag_status g' = ag_status g" "ag_decidedBy g' = ag_decidedBy g"
  shows "truthful E (s\<lparr>as_grants := jset w g' (as_grants s)\<rparr>)"
proof -
  have "rowAgrees (verdictsOf w (as_audit s)) (Some g)" using assms(1) unfolding truthful_def by (metis assms(2))
  then show ?thesis using assms rowAgrees_same [of _ g g'] by (simp add: truthful_def)
qed

lemma truthful_audit:
  assumes "truthful E s" "au_actor r \<in> set (ae_adminWallets E)" "\<And>a. au_action r \<noteq> DecisionAction a"
  shows "truthful E (s\<lparr>as_audit := as_audit s @ [r]\<rparr>)"
  using assms by (cases "au_action r") (auto simp: truthful_def)

lemma truthful_join: "truthful E s \<Longrightarrow> truthful E (fst (joinWaitlist now w email seg s))"
  unfolding joinWaitlist_def truthful_def
  by (auto simp: rowAgrees_def split: option.split if_split_asm)

lemma truthful_decideAll:
  "truthful E s \<Longrightarrow> di_actor inp \<in> set (ae_adminWallets E) \<Longrightarrow> truthful E (fst (decideAll now inp ws s))"
proof (induction ws arbitrary: s)
  case (Cons w ws)
  show ?case
  proof (cases "decidedGrant now inp (map_of (as_grants s) w)")
    case (Some g)
    let ?r = "\<lparr>au_actor = di_actor inp, au_action = DecisionAction (di_action inp), au_wallet = Some w,
        au_detail = DecisionDetail (di_wave inp) (di_notes inp)\<rparr>"
    have "ag_status g = statusAfter (di_action inp) \<and> ag_decidedBy g = Some (di_actor inp)"
      using Some by (auto simp: decidedGrant_def split: option.splits if_split_asm)
    then have "truthful E (s\<lparr>as_grants := jset w g (as_grants s), as_audit := as_audit s @ [?r]\<rparr>)"
      using Cons.prems by (auto simp: truthful_def rowAgrees_def [of "_ @ [_]"])
    from Cons.IH [OF this Cons.prems(2)] show ?thesis using Some by (simp add: case_prod_unfold Let_def)
  qed (use Cons in simp)
qed simp

lemma truthful_settle: "truthful E s \<Longrightarrow> truthful E (fst p) \<Longrightarrow> truthful E (fst (settle outcome s p))"
  by (cases outcome) (simp_all add: settle_def)

lemma truthful_mark: "truthful E s \<Longrightarrow> truthful E (fst (markEmailSent fault now w s))"
  by (auto simp: markEmailSent_def intro: truthful_touch split: option.split)

lemma truthful_mail: "truthful E s \<Longrightarrow> truthful E (fst (mailApproved E reads marks now ws s))"
proof (induction ws arbitrary: s)
  case (Cons w ws)
  show ?case
  proof (cases "\<exists>row email. grantOf (reads w) w s = Inr (Some row) \<and> ag_email row = Some email
      \<and> \<not> (email = [] \<or> ag_emailSentAt row \<noteq> None \<or> \<not> ae_sendApproval E email (ag_wave row))")
    case True
    then obtain row email where row: "grantOf (reads w) w s = Inr (Some row)" "ag_email row = Some email"
        "\<not> (email = [] \<or> ag_emailSentAt row \<noteq> None \<or> \<not> ae_sendApproval E email (ag_wave row))"
      by blast
    let ?p = "markEmailSent (marks w) now w (s\<lparr>as_mails := as_mails s @ [(email, ag_wave row)]\<rparr>)"
    have marked: "truthful E (fst ?p)" using Cons.prems truthful_cong [of "s\<lparr>as_mails := as_mails s @ [(email, ag_wave row)]\<rparr>" s E]
      by (intro truthful_mark) simp
    obtain s1 r where p: "?p = (s1, r)" by (cases ?p)
    have "truthful E s1" using marked unfolding p by simp
    from Cons.IH [OF this] this show ?thesis
      using row p by (cases r) (simp_all add: case_prod_unfold Let_def del: not_None_eq)
  next
    case False
    then have "mailApproved E reads marks now (w # ws) s \<in> {(s, r) | r. True} \<union> {mailApproved E reads marks now ws s}"
      by (auto split: sum.split option.split)
    then show ?thesis using Cons by auto
  qed
qed simp

lemma truthful_asAdmin:
  "truthful E s \<Longrightarrow> (\<And>u. us_owner u \<in> set (ae_adminWallets E) \<Longrightarrow> truthful E (fst (h u))) \<Longrightarrow> truthful E (fst (asAdmin E user h s))"
  by (auto simp: asAdmin_def split: option.split)

lemma truthful_answer:
  "truthful E (fst p) \<Longrightarrow> (\<And>x. snd p = Inr x \<Longrightarrow> truthful E (fst (g (fst p) x)))
     \<Longrightarrow> truthful E (fst (case p of (s1, Inl f) \<Rightarrow> (s1, Thrown) | (s1, Inr x) \<Rightarrow> g s1 x))"
  by (cases p) (auto split: sum.split)

lemma truthful_forget:
  assumes "truthful E s" "actor \<in> set (ae_adminWallets E)"
  shows "truthful E (fst (forgetEmail outcome w actor s))"
proof -
  have "truthful E (s\<lparr>as_grants := jset w (g\<lparr>ag_email := None, ag_emailSentAt := None\<rparr>) (as_grants s),
      as_audit := as_audit s @ [\<lparr>au_actor = actor, au_action = ForgetAction, au_wallet = Some w, au_detail = NoDetail\<rparr>]\<rparr>)"
    if "map_of (as_grants s) w = Some g" for g
    using truthful_audit [OF truthful_touch [OF assms(1) that], of "g\<lparr>ag_email := None, ag_emailSentAt := None\<rparr>"
        "\<lparr>au_actor = actor, au_action = ForgetAction, au_wallet = Some w, au_detail = NoDetail\<rparr>"] assms(2)
    by simp
  then show ?thesis unfolding forgetEmail_def using assms(1) by (intro truthful_settle) (auto split: option.split)
qed

lemma truthful_step:
  assumes "truthful E s"
  shows "truthful E (accessStep E o' s)"
proof (cases o')
  case (JoinOp fault now body)
  then show ?thesis
    using assms by (simp add: accessStep_def waitlistRoute_def case_prod_unfold truthful_join Let_def)
next
  case (DecideOp outcome reads marks now user body)
  have "truthful E (fst (decideGrants outcome now inp s))" if "di_actor inp \<in> set (ae_adminWallets E)" for inp
    using assms that by (simp add: decideGrants_def truthful_settle truthful_decideAll)
  then show ?thesis
    unfolding DecideOp accessStep_def access_op.case decideRoute_def
    by (intro truthful_asAdmin assms) (auto simp: assms intro!: truthful_answer truthful_mail)
next
  case (ForgetOp outcome user w)
  show ?thesis
    unfolding ForgetOp accessStep_def access_op.case forgetRoute_def
    by (intro truthful_asAdmin assms) (auto simp: assms intro!: truthful_answer truthful_forget)
next
  case (ExportOp fault fault' user status)
  have "truthful E (fst (auditExport fault' (us_owner u) status n s))" if "us_owner u \<in> set (ae_adminWallets E)" for u n
    using truthful_audit [OF assms] that assms by (auto simp: auditExport_def split: option.split)
  then show ?thesis
    unfolding ExportOp accessStep_def access_op.case exportRoute_def
    by (intro truthful_asAdmin assms) (auto simp: assms Let_def intro!: truthful_answer)
qed

lemma truthful_run: "truthful E (accessRun E ops)"
proof (induction ops rule: rev_induct)
  case Nil
  then show ?case by (simp add: truthful_def noGrants_def verdictsOf_def rowAgrees_def)
qed (simp add: truthful_step)

lemma approved_verdict:
  assumes "truthful E s"
  shows "(case map_of (as_grants s) w of None \<Rightarrow> False | Some g \<Rightarrow> ag_status g = GrantApproved)
     \<longleftrightarrow> (\<exists>actor \<in> set (ae_adminWallets E). verdictsOf w (as_audit s) \<noteq> [] \<and> last (verdictsOf w (as_audit s)) = (ApproveGrant, actor))"
  (is "?l \<longleftrightarrow> ?r")
proof -
  let ?vs = "verdictsOf w (as_audit s)"
  have agrees: "rowAgrees ?vs (map_of (as_grants s) w)" using assms by (simp add: truthful_def)
  have "snd v \<in> set (ae_adminWallets E)" if "v \<in> set ?vs" for v
    using assms that by (auto simp: truthful_def verdictsOf_def split: audit_action.splits if_split_asm)
  then have actor: "?vs \<noteq> [] \<Longrightarrow> snd (last ?vs) \<in> set (ae_adminWallets E)" by simp
  have "statusAfter (fst (last ?vs)) = GrantApproved \<longleftrightarrow> fst (last ?vs) = ApproveGrant" by (cases "fst (last ?vs)") simp_all
  then have "?l \<longleftrightarrow> ?vs \<noteq> [] \<and> fst (last ?vs) = ApproveGrant"
    using agrees by (auto simp: rowAgrees_def split: option.splits if_split_asm)
  then show ?thesis using actor by (cases "last ?vs") auto
qed

text \<open>A reader of comma-separated values with quoted fields: the rows of a text.\<close>

datatype csv_mode = FieldStart | Unquoted | Quoted | QuoteSeen

primrec csvRead :: "csv_mode \<Rightarrow> string \<Rightarrow> string list \<Rightarrow> string \<Rightarrow> string list list" where
  "csvRead m cell row [] = [row @ [cell]]"
| "csvRead m cell row (c # s) =
     (if m = Quoted then (if c = CHR 0x22 then csvRead QuoteSeen cell row s else csvRead Quoted (cell @ [c]) row s)
      else if m = QuoteSeen \<and> c = CHR 0x22 then csvRead Quoted (cell @ [c]) row s
      else if c = CHR '','' then csvRead FieldStart [] (row @ [cell]) s
      else if c = CHR 0x0A then (row @ [cell]) # csvRead FieldStart [] [] s
      else if m = FieldStart \<and> c = CHR 0x22 then csvRead Quoted [] row s
      else csvRead Unquoted (cell @ [c]) row s)"

abbreviation csvSpecial :: "char \<Rightarrow> bool" where
  "csvSpecial c \<equiv> c = CHR 0x22 \<or> c = CHR '','' \<or> c = CHR 0x0A"

lemma csvRead_quoted:
  "csvRead Quoted cell row (concat (map (\<lambda>c. if c = CHR 0x22 then [c, c] else [c]) t) @ CHR 0x22 # s) = csvRead QuoteSeen (cell @ t) row s"
  by (induction t arbitrary: cell) auto

lemma csvRead_plain:
  "list_all (\<lambda>c. \<not> csvSpecial c) t \<Longrightarrow> m \<in> {FieldStart, Unquoted}
     \<Longrightarrow> \<exists>m' \<in> {FieldStart, Unquoted}. csvRead m cell row (t @ s) = csvRead m' (cell @ t) row s"
proof (induction t arbitrary: m cell)
  case (Cons c t)
  then show ?case using Cons.IH [of Unquoted "cell @ [c]"] by auto
qed auto

text \<open>After one escaped cell the reader stands at the separator, whichever mode it is in.\<close>

lemma csvRead_field:
  "\<exists>m. m \<noteq> Quoted \<and> (\<forall>c s. c \<noteq> CHR 0x22 \<longrightarrow> csvRead FieldStart [] row (csvEsc v @ c # s) = csvRead m (case v of None \<Rightarrow> [] | Some t \<Rightarrow> t) row (c # s))
     \<and> csvRead FieldStart [] row (csvEsc v) = [row @ [case v of None \<Rightarrow> [] | Some t \<Rightarrow> t]]"
proof (cases "\<exists>t. v = Some t \<and> list_ex csvSpecial t")
  case True
  then obtain t where t: "v = Some t" "csvEsc v = CHR 0x22 # concat (map (\<lambda>c. if c = CHR 0x22 then [c, c] else [c]) t) @ [CHR 0x22]"
    by (auto simp: csvEsc_def)
  have "csvRead FieldStart [] row (csvEsc v @ s) = csvRead QuoteSeen t row s" for s
    using csvRead_quoted [of "[]" row t s] by (simp add: t(2))
  from this this [of "[]"] show ?thesis using t(1) by (intro exI [of _ QuoteSeen]) simp
next
  case False
  define t where "t = (case v of None \<Rightarrow> [] | Some t \<Rightarrow> t)"
  have v: "csvEsc v = t" "list_all (\<lambda>c. \<not> csvSpecial c) t"
    using False by (auto simp: csvEsc_def t_def list_ex_iff list_all_iff split: option.split)
  have "csvRead Unquoted cell row t = csvRead FieldStart cell row t" for cell
    using v(2) by (cases t) auto
  have same: "csvRead Unquoted t row (c # s) = csvRead FieldStart t row (c # s)" if "c \<noteq> CHR 0x22" for c s using that by simp
  have "csvRead FieldStart [] row (t @ c # s) = csvRead Unquoted t row (c # s)" if "c \<noteq> CHR 0x22" for c s
    using csvRead_plain [OF v(2), of FieldStart "[]" row "c # s"] same [OF that] by auto
  moreover have "csvRead FieldStart [] row t = [row @ [t]]"
    using csvRead_plain [OF v(2), of FieldStart "[]" row "[]"] by auto
  ultimately show ?thesis unfolding t_def [symmetric] v(1) by (intro exI [of _ Unquoted]) simp
qed

abbreviation cellText :: "string option \<Rightarrow> string" where
  "cellText v \<equiv> (case v of None \<Rightarrow> [] | Some t \<Rightarrow> t)"

lemma csvRead_cell:
  "csvRead FieldStart [] row (csvEsc v @ CHR '','' # s) = csvRead FieldStart [] (row @ [cellText v]) s"
  "csvRead FieldStart [] row (csvEsc v @ CHR 0x0A # s) = (row @ [cellText v]) # csvRead FieldStart [] [] s"
  "csvRead FieldStart [] row (csvEsc v) = [row @ [cellText v]]"
proof -
  obtain m where m: "m \<noteq> Quoted" "\<And>c s. c \<noteq> CHR 0x22 \<Longrightarrow> csvRead FieldStart [] row (csvEsc v @ c # s) = csvRead m (cellText v) row (c # s)"
      "csvRead FieldStart [] row (csvEsc v) = [row @ [cellText v]]"
    using csvRead_field [of row v] by blast
  show "csvRead FieldStart [] row (csvEsc v @ CHR '','' # s) = csvRead FieldStart [] (row @ [cellText v]) s"
    using m(1) by (subst m(2)) simp_all
  show "csvRead FieldStart [] row (csvEsc v @ CHR 0x0A # s) = (row @ [cellText v]) # csvRead FieldStart [] [] s"
    using m(1) by (subst m(2)) simp_all
  show "csvRead FieldStart [] row (csvEsc v) = [row @ [cellText v]]" by (rule m(3))
qed

lemma csvRead_row:
  "vs \<noteq> [] \<Longrightarrow> csvRead FieldStart [] row (csvJoin (CHR '','') (map csvEsc vs)) = [row @ map cellText vs]"
  by (induction vs arbitrary: row) (auto simp: csvRead_cell)

lemma csvRead_line:
  "vs \<noteq> [] \<Longrightarrow> csvRead FieldStart [] row (csvJoin (CHR '','') (map csvEsc vs) @ CHR 0x0A # s)
     = (row @ map cellText vs) # csvRead FieldStart [] [] s"
  by (induction vs arbitrary: row) (auto simp: csvRead_cell)

lemma csvRead_rows:
  assumes "list_all (\<lambda>vs. vs \<noteq> []) rows" "rows \<noteq> []"
  shows "csvRead FieldStart [] [] (csvJoin (CHR 0x0A) (map (\<lambda>vs. csvJoin (CHR '','') (map csvEsc vs)) rows)) = map (map cellText) rows"
  using assms
proof (induction rows)
  case (Cons vs rows)
  then show ?case by (cases "rows = []") (simp_all add: csvRead_row csvRead_line)
qed simp

lemma map_cells: "map cellText (map Some ts) = ts"
  by (simp add: comp_def)

lemma map_map_cells: "map (map cellText) (map (exportCells E) rows) = map (\<lambda>p. map cellText (exportCells E p)) rows"
  by simp

definition headerCells :: "string list" where
  "headerCells = [''wallet'', ''email'', ''status'', ''source'', ''wave'', ''segment'', ''requested_at'', ''decided_at'', ''decided_by'', ''notes'']"

lemma csv_header: "CSV_HEADER = csvJoin (CHR '','') (map csvEsc (map Some headerCells))"
  by code_simp

section \<open>Properties\<close>

text \<open>C30. The audit trail is the truth: whatever calls arrive and however their transactions end, a wallet is approved
  exactly when the last decision the log records for it is an approval, and every row of the log names an admin.\<close>

theorem audit_trail_decides:
  "((case map_of (as_grants (accessRun E ops)) w of None \<Rightarrow> False | Some g \<Rightarrow> ag_status g = GrantApproved)
     \<longleftrightarrow> (\<exists>actor \<in> set (ae_adminWallets E). verdictsOf w (as_audit (accessRun E ops)) \<noteq> []
            \<and> last (verdictsOf w (as_audit (accessRun E ops))) = (ApproveGrant, actor)))
   \<and> au_actor ` set (as_audit (accessRun E ops)) \<subseteq> set (ae_adminWallets E)"
  using approved_verdict [OF truthful_run] truthful_run [of E ops] unfolding truthful_def by blast

text \<open>C31. The gate opens only for a wallet that signed its challenge and that an admin approved last; it fails closed:
  when a query fails, or the tables are missing, nobody enters.\<close>

theorem unlock_needs_approval:
  "(\<exists>wave. snd (verifyRoute E fault fault' now a c sig (walletRun (ae_wallet E) wops) (accessRun E ops)) = Sent wave) \<longleftrightarrow>
     (\<exists>b t. liveChallenge a b t wops \<and> now \<le> t + CHALLENGE_TTL_MS \<and> hexString b = c \<and> provesChallenge (ae_wallet E) a b sig)
     \<and> (\<exists>actor \<in> set (ae_adminWallets E). verdictsOf a (as_audit (accessRun E ops)) \<noteq> []
          \<and> last (verdictsOf a (as_audit (accessRun E ops))) = (ApproveGrant, actor))
     \<and> fault = None \<and> fault' \<noteq> Some OtherFault"
  unfolding approved_verdict [OF truthful_run, symmetric] verify_accepts [symmetric]
  by (auto simp: verifyRoute_def isApproved_def grantOf_def case_prod_unfold Let_def split: option.splits db_fault.splits)

text \<open>Reading the export back gives every cell of every listed row, whatever commas, quotes or line breaks the cells
  hold; only an absent value reads as an empty one.\<close>

theorem export_reads_back:
  "csvRead FieldStart [] [] (exportCsv E rows) = headerCells # map (\<lambda>p. map cellText (exportCells E p)) rows"
proof -
  have "exportCsv E rows = csvJoin (CHR 0x0A) (map (\<lambda>vs. csvJoin (CHR '','') (map csvEsc vs)) (map Some headerCells # map (exportCells E) rows))"
    by (simp add: exportCsv_def csv_header comp_def)
  moreover have "list_all (\<lambda>vs. vs \<noteq> []) (map Some headerCells # map (exportCells E) rows)"
    by (simp add: list_all_iff headerCells_def exportCells_def Let_def)
  ultimately show ?thesis using csvRead_rows by (metis (no_types, lifting) list.distinct(1) list.simps(9) map_cells map_map_cells)
qed

end
