(* ===== verification/ApiKeyRoutes.thy ===== *)
theory ApiKeyRoutes
  imports ApiAccess
begin

text \<open>
  Issuing API keys (\<open>api/src/routes/keys.ts\<close>): the closed-beta gate, the wallet proof, the session labels and the cap on
  active keys. A request suspends at each database call, so the server holds requests in different phases and serves the
  database calls of several requests in any order; \<open>ResumeKeys\<close> is one database call with the code up to the next.
\<close>

section \<open>Definitions\<close>

definition loadAllowlist :: "string \<Rightarrow> string list option" where
  "loadAllowlist env =
     (let raw = trim env
      in if raw = [] then None
         else Some (to_set (filter (\<lambda>s. length s = 56 \<and> starts_with ''G'' s) (map trim (splitOn CHR '','' raw)))))"

text \<open>The cap is \<open>None\<close> when the environment's text is no number: no count reaches it then.\<close>

record key_gate =
  kg_allowlist :: "string list option"
  kg_adminWallets :: "string list"
  kg_maxKeys :: "nat option"

definition SESSION_KEY_LABELS :: "string list" where
  "SESSION_KEY_LABELS = [''admin-panel'']"

definition inBeta :: "key_gate \<Rightarrow> string \<Rightarrow> bool" where
  "inBeta G address \<longleftrightarrow> (case kg_allowlist G of None \<Rightarrow> True
     | Some ws \<Rightarrow> address \<in> set ws \<or> address \<in> set (kg_adminWallets G))"

definition betaStatus :: "key_gate \<Rightarrow> db_fault option \<Rightarrow> string option \<Rightarrow> access_store \<Rightarrow> db_fault + bool \<times> bool" where
  "betaStatus G fault address s =
     (let gated = kg_allowlist G \<noteq> None
      in if \<not> gated then Inr (gated, True)
         else case address of
           None \<Rightarrow> Inr (gated, False)
         | Some a \<Rightarrow>
             if a = [] then Inr (gated, False)
             else if inBeta G a then Inr (gated, True)
             else map_sum id (\<lambda>ok. (gated, ok)) (isApproved fault a s))"

record key_request =
  kr_address :: string
  kr_challenge :: string
  kr_signature :: string
  kr_label :: "string option"

datatype key_reply = NotInBeta | BadSignature | LimitReached nat | IssuedKey string string | KeyRouteThrew

text \<open>What the request waits for.\<close>

datatype key_phase = AwaitApproval | AwaitSession | AwaitCount | AwaitInsert | Answered key_reply

record key_server =
  ks_wallet :: wallet_auth
  ks_keys :: key_table
  ks_access :: access_store
  ks_requests :: "(nat, key_request \<times> key_phase) jmap"

text \<open>What a resumption finds: the time, a failure of the statement, and the random id and secret of a new key.\<close>

record resume_env =
  rx_now :: int
  rx_fault :: "db_fault option"
  rx_idHex :: string
  rx_secret :: string

definition proveWallet :: "wallet_sdk \<Rightarrow> int \<Rightarrow> key_request \<Rightarrow> key_server \<Rightarrow> key_server \<times> key_phase" where
  "proveWallet L now r s =
     (let (w', ok) = verifyWallet L now (kr_address r) (kr_challenge r) (kr_signature r) (ks_wallet s)
      in (s\<lparr>ks_wallet := w'\<rparr>,
          if \<not> ok then Answered BadSignature
          else case kr_label r of
              None \<Rightarrow> AwaitCount
            | Some l \<Rightarrow> if l \<in> set SESSION_KEY_LABELS then AwaitSession else AwaitCount))"

definition startCreate :: "wallet_sdk \<Rightarrow> key_gate \<Rightarrow> int \<Rightarrow> key_request \<Rightarrow> key_server \<Rightarrow> key_server \<times> key_phase" where
  "startCreate L G now r s = (if inBeta G (kr_address r) then proveWallet L now r s else (s, AwaitApproval))"

definition atCap :: "key_gate \<Rightarrow> nat \<Rightarrow> bool" where
  "atCap G active = (case kg_maxKeys G of None \<Rightarrow> False | Some m \<Rightarrow> m \<le> active)"

definition resumeCreate :: "wallet_sdk \<Rightarrow> key_gate \<Rightarrow> (string \<Rightarrow> string) \<Rightarrow> string \<Rightarrow> resume_env \<Rightarrow> key_request \<Rightarrow> key_phase
    \<Rightarrow> key_server \<Rightarrow> key_server \<times> key_phase" where
  "resumeCreate L G sha256 pepper x r phase s =
     (case phase of
        Answered a \<Rightarrow> (s, phase)
      | AwaitApproval \<Rightarrow>
          (case isApproved (rx_fault x) (kr_address r) (ks_access s) of
             Inl f \<Rightarrow> (s, Answered KeyRouteThrew)
           | Inr approved \<Rightarrow> if \<not> approved then (s, Answered NotInBeta) else proveWallet L (rx_now x) r s)
      | AwaitSession \<Rightarrow>
          if rx_fault x \<noteq> None then (s, Answered KeyRouteThrew)
          else (s\<lparr>ks_keys := fst (revokeAllWithLabel (kr_address r) (case kr_label r of None \<Rightarrow> [] | Some l \<Rightarrow> l) (rx_now x) (ks_keys s))\<rparr>, AwaitCount)
      | AwaitCount \<Rightarrow>
          if rx_fault x \<noteq> None then (s, Answered KeyRouteThrew)
          else let active = countActiveForOwner (kr_address r) (ks_keys s)
               in (s, if atCap G active then Answered (LimitReached active) else AwaitInsert)
      | AwaitInsert \<Rightarrow>
          if rx_fault x \<noteq> None then (s, Answered KeyRouteThrew)
          else (case issueKey sha256 pepper (rx_idHex x) (rx_secret x) (rx_now x) (kr_address r) (kr_label r) StandardTier (ks_keys s) of
              (K, Inl err) \<Rightarrow> (s, Answered KeyRouteThrew)
            | (K, Inr (keyId, secret)) \<Rightarrow> (s\<lparr>ks_keys := K\<rparr>, Answered (IssuedKey keyId secret))))"

definition listKeysRoute :: "api_user \<Rightarrow> key_server \<Rightarrow> (string \<times> api_key) list" where
  "listKeysRoute u s = listForOwner (us_owner u) (ks_keys s)"

definition deleteKeyRoute :: "api_user \<Rightarrow> string \<Rightarrow> int \<Rightarrow> key_server \<Rightarrow> key_server \<times> bool reply" where
  "deleteKeyRoute u keyId now s =
     (let (K, ok) = revokeKey keyId (us_owner u) now (ks_keys s)
      in (s\<lparr>ks_keys := K\<rparr>, if ok then Sent True else Refused 404 ''key_not_found''))"

text \<open>Everything that happens to the server, in one order.\<close>

datatype key_event =
    AskChallenge string "nat list" int
  | PostKeys nat key_request int
  | ResumeKeys nat resume_env
  | DeleteKey api_user string int
  | AccessCall access_op

definition keyEvent :: "access_env \<Rightarrow> key_gate \<Rightarrow> (string \<Rightarrow> string) \<Rightarrow> string \<Rightarrow> key_event \<Rightarrow> key_server \<Rightarrow> key_server" where
  "keyEvent E G sha256 pepper e s = (case e of
      AskChallenge a b now \<Rightarrow> s\<lparr>ks_wallet := fst (issueChallenge b now a (ks_wallet s))\<rparr>
    | PostKeys i r now \<Rightarrow>
        (if map_of (ks_requests s) i \<noteq> None then s
         else let (s', phase) = startCreate (ae_wallet E) G now r s in s'\<lparr>ks_requests := jset i (r, phase) (ks_requests s)\<rparr>)
    | ResumeKeys i x \<Rightarrow>
        (case map_of (ks_requests s) i of
           None \<Rightarrow> s
         | Some (r, phase) \<Rightarrow>
             let (s', phase') = resumeCreate (ae_wallet E) G sha256 pepper x r phase s
             in s'\<lparr>ks_requests := jset i (r, phase') (ks_requests s)\<rparr>)
    | DeleteKey u keyId now \<Rightarrow> fst (deleteKeyRoute u keyId now s)
    | AccessCall o' \<Rightarrow> s\<lparr>ks_access := accessStep E o' (ks_access s)\<rparr>)"

definition noKeys :: key_server where
  "noKeys = \<lparr>ks_wallet = [], ks_keys = [], ks_access = noGrants, ks_requests = []\<rparr>"

abbreviation keyRun :: "access_env \<Rightarrow> key_gate \<Rightarrow> (string \<Rightarrow> string) \<Rightarrow> string \<Rightarrow> key_event list \<Rightarrow> key_server" where
  "keyRun E G sha256 pepper evs \<equiv> fold (keyEvent E G sha256 pepper) evs noKeys"

text \<open>A request served alone: its start and then its database calls, one after the other.\<close>

definition serveAlone :: "wallet_sdk \<Rightarrow> key_gate \<Rightarrow> (string \<Rightarrow> string) \<Rightarrow> string \<Rightarrow> int \<Rightarrow> key_request \<Rightarrow> resume_env list
    \<Rightarrow> key_server \<Rightarrow> key_server \<times> key_phase" where
  "serveAlone L G sha256 pepper now r xs s =
     fold (\<lambda>x p. resumeCreate L G sha256 pepper x r (snd p) (fst p)) xs (startCreate L G now r s)"

section \<open>Lemmas\<close>

lemma prove_frame [simp]: "ks_keys (fst (proveWallet L now r s)) = ks_keys s" "ks_access (fst (proveWallet L now r s)) = ks_access s"
    "ks_requests (fst (proveWallet L now r s)) = ks_requests s"
  by (simp_all add: proveWallet_def case_prod_unfold Let_def)

lemma count_revokeWhere: "countActiveForOwner a (fst (revokeWhere P now K)) \<le> countActiveForOwner a K"
proof (induction K)
  case (Cons p K)
  have "countActiveForOwner a (fst (revokeWhere P now (p # K)))
      = (if activeKey a p \<and> \<not> P p then 1 else 0) + countActiveForOwner a (fst (revokeWhere P now K))"
    by (cases "P p"; cases "ak_revokedAt (snd p)") (simp_all add: countActiveForOwner_def revokeWhere_def activeKey_def)
  then show ?case using Cons by (simp add: countActiveForOwner_def)
qed (simp add: countActiveForOwner_def revokeWhere_def)

lemma count_revokeAll: "countActiveForOwner a (fst (revokeAllWithLabel w l now K)) \<le> countActiveForOwner a K"
  by (simp add: revokeAllWithLabel_def count_revokeWhere)

lemma count_issue:
  "countActiveForOwner a (fst (issueKey sha256 pepper i sec now w l t K)) =
     countActiveForOwner a K + (if w = a \<and> map_of K (''nk_'' @ i) = None then 1 else 0)"
proof (cases "map_of K (''nk_'' @ i)")
  case None
  then have "''nk_'' @ i \<notin> set (jkeys K)" using None by (simp only: set_jkeys_iff) simp
  then show ?thesis using None by (simp add: issueKey_def Let_def jset_new countActiveForOwner_def activeKey_def)
qed (simp add: issueKey_def Let_def)

text \<open>Once a request has counted below the cap it adds one key at most; a request served alone counts just before.\<close>

definition belowCap :: "nat \<Rightarrow> key_request \<Rightarrow> key_server \<times> key_phase \<Rightarrow> bool" where
  "belowCap m r p \<longleftrightarrow> (\<forall>a. countActiveForOwner a (ks_keys (fst p)) \<le> m)
     \<and> (snd p = AwaitInsert \<longrightarrow> countActiveForOwner (kr_address r) (ks_keys (fst p)) < m)"

lemma belowCap_prove: "\<forall>a. countActiveForOwner a (ks_keys s) \<le> m \<Longrightarrow> belowCap m r (proveWallet L now r s)"
  by (auto simp: belowCap_def proveWallet_def case_prod_unfold Let_def split: option.split)

lemma belowCap_resume:
  assumes "belowCap m r p" "kg_maxKeys G = Some m"
  shows "belowCap m r (resumeCreate L G sha256 pepper x r (snd p) (fst p))"
proof (cases "snd p")
  case AwaitApproval
  then show ?thesis
    using assms(1) belowCap_prove [of "fst p" m r]
    by (auto simp: resumeCreate_def belowCap_def isApproved_def split: option.split db_fault.split)
next
  case AwaitSession
  have "countActiveForOwner a (fst (revokeAllWithLabel w l t (ks_keys (fst p)))) \<le> m" for a w l t
    using assms(1) count_revokeAll [of a w l t "ks_keys (fst p)"] le_trans unfolding belowCap_def by blast
  then show ?thesis using AwaitSession assms(1) by (simp add: resumeCreate_def belowCap_def)
next
  case AwaitCount
  then show ?thesis using assms by (auto simp: resumeCreate_def belowCap_def atCap_def Let_def)
next
  case AwaitInsert
  then show ?thesis
    using assms(1) count_issue [of _ sha256 pepper "rx_idHex x" "rx_secret x" "rx_now x" "kr_address r" "kr_label r" StandardTier "ks_keys (fst p)"]
    by (auto simp: resumeCreate_def belowCap_def split: prod.split sum.split)
next
  case (Answered a)
  then show ?thesis using assms(1) by (simp add: resumeCreate_def belowCap_def)
qed

text \<open>What a key needs: a request for its owner with a proof of a challenge the server issued, past the gate.\<close>

definition proved :: "wallet_sdk \<Rightarrow> key_event list \<Rightarrow> key_request \<Rightarrow> bool" where
  "proved L evs r \<longleftrightarrow> (\<exists>b t. AskChallenge (kr_address r) b t \<in> set evs \<and> provesChallenge L (kr_address r) b (kr_signature r))"

definition letIn :: "access_env \<Rightarrow> key_gate \<Rightarrow> (string \<Rightarrow> string) \<Rightarrow> string \<Rightarrow> key_event list \<Rightarrow> string \<Rightarrow> bool" where
  "letIn E G sha256 pepper evs a \<longleftrightarrow> inBeta G a
     \<or> (\<exists>pre post. evs = pre @ post \<and> isApproved None a (ks_access (keyRun E G sha256 pepper pre)) = Inr True)"

abbreviation entitled :: "access_env \<Rightarrow> key_gate \<Rightarrow> (string \<Rightarrow> string) \<Rightarrow> string \<Rightarrow> key_event list \<Rightarrow> key_request \<Rightarrow> bool" where
  "entitled E G sha256 pepper evs r \<equiv> (\<exists>i t. PostKeys i r t \<in> set evs) \<and> proved (ae_wallet E) evs r \<and> letIn E G sha256 pepper evs (kr_address r)"

lemma letIn_mono: "letIn E G sha256 pepper evs a \<Longrightarrow> letIn E G sha256 pepper (evs @ es) a"
  unfolding letIn_def by (metis append.assoc)

lemma proved_mono: "proved L evs r \<Longrightarrow> proved L (evs @ es) r"
  by (auto simp: proved_def)

text \<open>The invariant: pending challenges were issued, requests past their proof are entitled, keys have an entitled request.\<close>

definition keysBacked :: "access_env \<Rightarrow> key_gate \<Rightarrow> (string \<Rightarrow> string) \<Rightarrow> string \<Rightarrow> key_event list \<Rightarrow> key_server \<Rightarrow> bool" where
  "keysBacked E G sha256 pepper evs s \<longleftrightarrow>
     (\<forall>a p. map_of (ks_wallet s) a = Some p \<longrightarrow> (\<exists>t. AskChallenge a (pc_challenge p) t \<in> set evs))
   \<and> (\<forall>i r ph. map_of (ks_requests s) i = Some (r, ph) \<longrightarrow> (\<exists>j t. PostKeys j r t \<in> set evs)
        \<and> (ph \<in> {AwaitSession, AwaitCount, AwaitInsert} \<longrightarrow> entitled E G sha256 pepper evs r))
   \<and> (\<forall>k row. map_of (ks_keys s) k = Some row \<longrightarrow> (\<exists>r. kr_address r = ak_owner row \<and> entitled E G sha256 pepper evs r))"

lemma keysBacked_mono: "keysBacked E G sha256 pepper evs s \<Longrightarrow> keysBacked E G sha256 pepper (evs @ es) s"
  unfolding keysBacked_def by (auto intro: letIn_mono proved_mono dest: spec) (metis letIn_mono proved_mono)+

lemma backed_wallet:
  assumes "\<forall>a p. map_of w a = Some p \<longrightarrow> (\<exists>t. AskChallenge a (pc_challenge p) t \<in> set evs)"
  shows "\<forall>a p. map_of (fst (verifyWallet L now b c sig w)) a = Some p \<longrightarrow> (\<exists>t. AskChallenge a (pc_challenge p) t \<in> set evs)"
  using assms by (auto simp: verifyWallet_def Let_def map_of_gc split: option.splits if_split_asm)

lemma backed_proof:
  assumes "\<forall>a p. map_of w a = Some p \<longrightarrow> (\<exists>t. AskChallenge a (pc_challenge p) t \<in> set evs)" "snd (verifyWallet L now b c sig w)"
  shows "\<exists>p t. AskChallenge b p t \<in> set evs \<and> provesChallenge L b p sig"
proof -
  obtain p where "map_of w b = Some p" "provesChallenge L b (pc_challenge p) sig"
    using assms(2) by (auto simp: verifyWallet_def Let_def map_of_gc split: option.splits if_split_asm)
  then show ?thesis using assms(1) by blast
qed

lemma keysBacked_prove:
  assumes "keysBacked E G sha256 pepper evs s" "PostKeys j r t \<in> set evs" "letIn E G sha256 pepper evs (kr_address r)"
    and p: "proveWallet (ae_wallet E) now r s = (s', ph)"
  shows "keysBacked E G sha256 pepper evs (s'\<lparr>ks_requests := jset i (r, ph) (ks_requests s)\<rparr>)"
proof -
  let ?v = "verifyWallet (ae_wallet E) now (kr_address r) (kr_challenge r) (kr_signature r) (ks_wallet s)"
  have w: "\<forall>a p. map_of (ks_wallet s) a = Some p \<longrightarrow> (\<exists>t. AskChallenge a (pc_challenge p) t \<in> set evs)"
    using assms(1) by (simp add: keysBacked_def)
  have s': "s' = s\<lparr>ks_wallet := fst ?v\<rparr>" "\<not> snd ?v \<Longrightarrow> ph = Answered BadSignature"
    using p by (auto simp: proveWallet_def case_prod_unfold Let_def)
  have "ph \<in> {AwaitSession, AwaitCount, AwaitInsert} \<Longrightarrow> entitled E G sha256 pepper evs r"
    using backed_proof [OF w] s'(2) assms(2,3) unfolding proved_def by (cases "snd ?v") auto
  then show ?thesis using assms(1,2) backed_wallet [OF w] unfolding keysBacked_def s'(1) by auto
qed

lemma keysBacked_keys:
  assumes "keysBacked E G sha256 pepper evs s"
    and "\<And>k row. map_of K k = Some row \<Longrightarrow> ak_owner row = kr_address r \<and> entitled E G sha256 pepper evs r
      \<or> (\<exists>k' row'. map_of (ks_keys s) k' = Some row' \<and> ak_owner row' = ak_owner row)"
  shows "keysBacked E G sha256 pepper evs (s\<lparr>ks_keys := K\<rparr>)"
  using assms unfolding keysBacked_def by simp metis

lemma keysBacked_phase:
  assumes "keysBacked E G sha256 pepper evs s" "PostKeys j r t \<in> set evs"
    and "ph \<in> {AwaitSession, AwaitCount, AwaitInsert} \<Longrightarrow> entitled E G sha256 pepper evs r"
  shows "keysBacked E G sha256 pepper evs (s\<lparr>ks_requests := jset i (r, ph) (ks_requests s)\<rparr>)"
  using assms unfolding keysBacked_def by auto

lemma owner_revoked: "map_of (fst (revokeWhere P now K)) k = Some row \<Longrightarrow> \<exists>row'. map_of K k = Some row' \<and> ak_owner row' = ak_owner row"
  by (auto simp: map_of_revokeWhere split: if_split_asm)

lemma owner_revokeAll:
  "map_of (fst (revokeAllWithLabel w l now K)) k = Some row \<Longrightarrow> \<exists>row'. map_of K k = Some row' \<and> ak_owner row' = ak_owner row"
  by (simp add: revokeAllWithLabel_def owner_revoked)

lemma owner_issued:
  "map_of (fst (issueKey sha256 pepper d sec now w l t K)) k = Some row \<Longrightarrow> ak_owner row = w \<or> map_of K k = Some row"
  by (auto simp: issueKey_def Let_def split: if_split_asm)

lemma keysBacked_resume:
  assumes "keysBacked E G sha256 pepper evs s" "map_of (ks_requests s) i = Some (r, ph)"
    and now: "ks_access s = ks_access (keyRun E G sha256 pepper evs)"
    and p: "resumeCreate (ae_wallet E) G sha256 pepper x r ph s = (s', ph')"
  shows "keysBacked E G sha256 pepper evs (s'\<lparr>ks_requests := jset i (r, ph') (ks_requests s)\<rparr>)"
proof -
  obtain j t where post: "PostKeys j r t \<in> set evs" using assms(1,2) unfolding keysBacked_def by blast
  have ent: "ph \<in> {AwaitSession, AwaitCount, AwaitInsert} \<Longrightarrow> entitled E G sha256 pepper evs r"
    using assms(1,2) unfolding keysBacked_def by blast
  note phase = keysBacked_phase [OF assms(1) post]
  show ?thesis
  proof (cases ph)
    case AwaitApproval
    show ?thesis
    proof (cases "isApproved (rx_fault x) (kr_address r) (ks_access s) = Inr True")
      case True
      then have "isApproved None (kr_address r) (ks_access s) = Inr True"
        by (auto simp: isApproved_def split: option.splits db_fault.splits)
      then have "letIn E G sha256 pepper evs (kr_address r)"
        unfolding letIn_def now by (intro disjI2 exI [of _ evs] exI [of _ "[]"]) simp
      from keysBacked_prove [OF assms(1) post this] show ?thesis using p True AwaitApproval by (simp add: resumeCreate_def)
    next
      case False
      then have "s' = s" "ph' \<in> {Answered KeyRouteThrew, Answered NotInBeta}"
        using p AwaitApproval by (auto simp: resumeCreate_def split: sum.splits if_split_asm)
      then show ?thesis using phase by auto
    qed
  next
    case AwaitSession
    have "keysBacked E G sha256 pepper evs (s\<lparr>ks_keys := fst (revokeAllWithLabel w l u (ks_keys s))\<rparr>)" for w l u
      by (rule keysBacked_keys [OF assms(1), of _ r]) (blast dest: owner_revokeAll)
    note session = keysBacked_phase [OF this post]
    show ?thesis using p AwaitSession phase session ent by (simp add: resumeCreate_def) (auto split: if_split_asm)
  next
    case AwaitCount
    then show ?thesis using p phase ent by (auto simp: resumeCreate_def Let_def split: if_split_asm)
  next
    case AwaitInsert
    have "keysBacked E G sha256 pepper evs (s\<lparr>ks_keys := fst (issueKey sha256 pepper d sec u (kr_address r) l tr (ks_keys s))\<rparr>)" for d sec u l tr
      by (rule keysBacked_keys [OF assms(1), of _ r]) (use ent AwaitInsert in \<open>blast dest: owner_issued\<close>)
    note issued = this
    obtain K o' where K: "issueKey sha256 pepper (rx_idHex x) (rx_secret x) (rx_now x) (kr_address r) (kr_label r) StandardTier (ks_keys s) = (K, o')"
      by fastforce
    have "keysBacked E G sha256 pepper evs (s\<lparr>ks_keys := K, ks_requests := jset i (r, Answered y) (ks_requests s)\<rparr>)" for y
      using keysBacked_phase [OF issued [of "rx_idHex x" "rx_secret x" "rx_now x" "kr_label r" StandardTier] post, of "Answered y" i]
      unfolding K by simp
    then show ?thesis using p AwaitInsert phase K by (cases o') (auto simp: resumeCreate_def split: if_split_asm)
  next
    case (Answered a)
    then show ?thesis using p phase by (auto simp: resumeCreate_def)
  qed
qed

lemma keysBacked_fields:
  assumes "keysBacked E G sha256 pepper evs s"
  shows "keysBacked E G sha256 pepper evs (s\<lparr>ks_access := A\<rparr>)"
    and "keysBacked E G sha256 pepper (evs @ [AskChallenge a b now]) (s\<lparr>ks_wallet := fst (issueChallenge b now a (ks_wallet s))\<rparr>)"
proof -
  show "keysBacked E G sha256 pepper evs (s\<lparr>ks_access := A\<rparr>)" using assms by (simp add: keysBacked_def)
  have "\<exists>t. AskChallenge c (pc_challenge p) t \<in> set (evs @ [AskChallenge a b now])"
    if "map_of (fst (issueChallenge b now a (ks_wallet s))) c = Some p" for c p
    using that assms by (auto simp: keysBacked_def issueChallenge_def Let_def map_of_gc split: option.splits if_split_asm)
  then show "keysBacked E G sha256 pepper (evs @ [AskChallenge a b now]) (s\<lparr>ks_wallet := fst (issueChallenge b now a (ks_wallet s))\<rparr>)"
    using keysBacked_mono [OF assms, of "[AskChallenge a b now]"] unfolding keysBacked_def by simp
qed

lemma keysBacked_step:
  assumes "keysBacked E G sha256 pepper evs (keyRun E G sha256 pepper evs)"
  shows "keysBacked E G sha256 pepper (evs @ [e]) (keyEvent E G sha256 pepper e (keyRun E G sha256 pepper evs))"
proof -
  let ?s = "keyRun E G sha256 pepper evs"
  note mono = keysBacked_mono [OF assms, of "[e]"]
  show ?thesis
  proof (cases e)
    case (AskChallenge a b now)
    then show ?thesis using keysBacked_fields(2) [OF assms] by (simp add: keyEvent_def)
  next
    case (PostKeys i r now)
    have post: "PostKeys i r now \<in> set (evs @ [e])" by (simp add: PostKeys)
    show ?thesis
    proof (cases "map_of (ks_requests ?s) i = None")
      case True
      obtain s' ph where start: "startCreate (ae_wallet E) G now r ?s = (s', ph)" by fastforce
      have "keysBacked E G sha256 pepper (evs @ [e]) (s'\<lparr>ks_requests := jset i (r, ph) (ks_requests ?s)\<rparr>)"
      proof (cases "inBeta G (kr_address r)")
        case True
        then have "letIn E G sha256 pepper (evs @ [e]) (kr_address r)" by (simp add: letIn_def)
        from keysBacked_prove [OF mono post this] show ?thesis using start True by (simp add: startCreate_def)
      next
        case False
        then show ?thesis using start keysBacked_phase [OF mono post, of AwaitApproval i] by (simp add: startCreate_def)
      qed
      then show ?thesis using True start by (simp add: PostKeys keyEvent_def)
    qed (use mono in \<open>simp add: PostKeys keyEvent_def\<close>)
  next
    case (ResumeKeys i x)
    show ?thesis
    proof (cases "map_of (ks_requests ?s) i")
      case (Some q)
      obtain r ph where q: "q = (r, ph)" by fastforce
      obtain s' ph' where res: "resumeCreate (ae_wallet E) G sha256 pepper x r ph ?s = (s', ph')" by fastforce
      from keysBacked_mono [OF keysBacked_resume [OF assms Some [unfolded q] refl res]] show ?thesis
        using Some res by (simp add: q ResumeKeys keyEvent_def)
    qed (use mono in \<open>simp add: ResumeKeys keyEvent_def\<close>)
  next
    case (DeleteKey u k now)
    have "keysBacked E G sha256 pepper (evs @ [e]) (?s\<lparr>ks_keys := fst (revokeKey k w now (ks_keys ?s))\<rparr>)" for w
      by (rule keysBacked_keys [OF mono, of _ undefined])
        (auto simp: revokeKey_def case_prod_unfold Let_def dest!: owner_revoked)
    then show ?thesis by (simp add: DeleteKey keyEvent_def deleteKeyRoute_def case_prod_unfold Let_def)
  next
    case (AccessCall o')
    then show ?thesis using keysBacked_fields(1) [OF mono] by (simp add: keyEvent_def)
  qed
qed

lemma keysBacked_run: "keysBacked E G sha256 pepper evs (keyRun E G sha256 pepper evs)"
proof (induction evs rule: rev_induct)
  case Nil
  then show ?case by (simp add: keysBacked_def noKeys_def)
qed (simp add: keysBacked_step)

lemma belowCap_alone:
  assumes "\<forall>a. countActiveForOwner a (ks_keys s) \<le> m" "kg_maxKeys G = Some m"
  shows "belowCap m r (serveAlone L G sha256 pepper now r xs s)"
proof (induction xs rule: rev_induct)
  case Nil
  then show ?case
    using assms belowCap_prove [of s m r] by (auto simp: serveAlone_def startCreate_def belowCap_def)
next
  case (snoc x xs)
  from belowCap_resume [OF this assms(2)] show ?case by (simp add: serveAlone_def)
qed

section \<open>Properties\<close>


text \<open>Served one at a time, no wallet ever holds more active keys than the cap, whichever database calls fail.\<close>

theorem key_cap_alone:
  assumes "kg_maxKeys G = Some m" "\<forall>a. countActiveForOwner a (ks_keys s) \<le> m"
  shows "countActiveForOwner a (ks_keys (fst (serveAlone L G sha256 pepper now r xs s))) \<le> m"
  using belowCap_alone [OF assms(2,1), of r L sha256 pepper now xs] by (simp add: belowCap_def)

text \<open>Interleaved, the cap does not hold: two requests of one wallet that both count before either inserts both get a
  key, which is one more than the cap.\<close>

theorem key_cap_races:
  assumes "kg_maxKeys G = Some m" "i \<noteq> j"
    and "map_of (ks_requests s) i = Some (r, AwaitCount)" "map_of (ks_requests s) j = Some (q, AwaitCount)"
    and "kr_address q = kr_address r" "countActiveForOwner (kr_address r) (ks_keys s) + 1 = m"
    and "rx_fault x = None" "rx_fault y = None" "rx_idHex x \<noteq> rx_idHex y"
    and "map_of (ks_keys s) (''nk_'' @ rx_idHex x) = None" "map_of (ks_keys s) (''nk_'' @ rx_idHex y) = None"
  shows "countActiveForOwner (kr_address r)
     (ks_keys (fold (keyEvent E G sha256 pepper) [ResumeKeys i x, ResumeKeys j y, ResumeKeys i x, ResumeKeys j y] s)) = m + 1"
proof -
  let ?K = "ks_keys s"
  let ?K1 = "fst (issueKey sha256 pepper (rx_idHex x) (rx_secret x) (rx_now x) (kr_address r) (kr_label r) StandardTier ?K)"
  let ?K2 = "fst (issueKey sha256 pepper (rx_idHex y) (rx_secret y) (rx_now y) (kr_address r) (kr_label q) StandardTier ?K1)"
  have "\<not> atCap G (countActiveForOwner (kr_address r) ?K)" using assms(1,6) by (simp add: atCap_def)
  then have "ks_keys (fold (keyEvent E G sha256 pepper) [ResumeKeys i x, ResumeKeys j y, ResumeKeys i x, ResumeKeys j y] s) = ?K2"
    using assms by (simp add: keyEvent_def resumeCreate_def Let_def issueKey_def)
  moreover have "map_of ?K1 (''nk_'' @ rx_idHex y) = None" using assms(9-11) by (simp add: issueKey_def Let_def)
  ultimately show ?thesis using assms(6,10) by (simp only: count_issue) simp
qed

section \<open>Witnesses\<close>

definition sampleWalletSdk :: wallet_sdk where
  "sampleWalletSdk = \<lparr>fromXDR = (\<lambda>pf. Some (PlainTx [ManageData (ValueBytes (map of_char pf))] [] [''sig''])), base64Bytes = (\<lambda>_. []),
     publicKeyValid = (\<lambda>_. True), sigVerify = (\<lambda>a h g. Some True)\<rparr>"

definition sampleAccess :: access_env where
  "sampleAccess = \<lparr>ae_validKey = (\<lambda>_. True), ae_sendApproval = (\<lambda>e w. True), ae_adminWallets = [''A''], ae_showTime = (\<lambda>_. []), ae_wallet = sampleWalletSdk\<rparr>"

definition sampleGate :: key_gate where
  "sampleGate = \<lparr>kg_allowlist = Some [''W''], kg_adminWallets = [''A''], kg_maxKeys = Some 1\<rparr>"

abbreviation sampleAsk :: "char \<Rightarrow> key_request" where
  "sampleAsk c \<equiv> \<lparr>kr_address = ''W'', kr_challenge = hexString [of_char c], kr_signature = [c], kr_label = None\<rparr>"

abbreviation sampleCall :: "string \<Rightarrow> resume_env" where
  "sampleCall i \<equiv> \<lparr>rx_now = 5, rx_fault = None, rx_idHex = i, rx_secret = ''s''\<rparr>"

definition sampleTwo :: "key_event list" where
  "sampleTwo = [AskChallenge ''W'' [of_char CHR ''a''] 0, PostKeys 0 (sampleAsk CHR ''a'') 1,
     AskChallenge ''W'' [of_char CHR ''b''] 2, PostKeys 1 (sampleAsk CHR ''b'') 3]"

lemma sampleTwo_run:
  "ks_requests (keyRun sampleAccess sampleGate id [] sampleTwo) = [(0, sampleAsk CHR ''a'', AwaitCount), (1, sampleAsk CHR ''b'', AwaitCount)]
     \<and> ks_keys (keyRun sampleAccess sampleGate id [] sampleTwo) = []"
  by code_simp

lemma sampleTwo_key:
  "map_of (ks_keys (keyRun sampleAccess sampleGate id [] (sampleTwo @ [ResumeKeys 0 (sampleCall ''0''), ResumeKeys 0 (sampleCall ''0'')]))) ''nk_0''
     = Some \<lparr>ak_secretHash = ''s'', ak_owner = ''W'', ak_tier = StandardTier, ak_label = None, ak_createdAt = 5, ak_lastUsedAt = None, ak_revokedAt = None\<rparr>"
  by code_simp


theorem key_cap_alone_witness:
  "countActiveForOwner ''W'' (ks_keys (fst (serveAlone sampleWalletSdk sampleGate id [] 1 (sampleAsk CHR ''a'')
     [sampleCall ''0'', sampleCall ''0''] noKeys))) \<le> 1"
  by (rule key_cap_alone) (simp_all add: sampleGate_def noKeys_def countActiveForOwner_def)

theorem key_cap_races_witness:
  "countActiveForOwner ''W'' (ks_keys (fold (keyEvent sampleAccess sampleGate id [])
     [ResumeKeys 0 (sampleCall ''0''), ResumeKeys 1 (sampleCall ''1''), ResumeKeys 0 (sampleCall ''0''), ResumeKeys 1 (sampleCall ''1'')]
     (keyRun sampleAccess sampleGate id [] sampleTwo))) = 1 + 1"
  using key_cap_races [of sampleGate 1 0 1 "keyRun sampleAccess sampleGate id [] sampleTwo" "sampleAsk CHR ''a''" "sampleAsk CHR ''b''"
      "sampleCall ''0''" "sampleCall ''1''" sampleAccess id "[]"] sampleTwo_run
  by (simp add: sampleGate_def countActiveForOwner_def)

end
