(* ===== verification/SdkWs.thy ===== *)
theory SdkWs
  imports JsString
begin

text \<open>
  The WebSocket client of the TypeScript SDK (\<open>sdk-ts/src/sub/ws.ts\<close>) as a state machine: the fields of \<open>WsClient\<close>, and
  around them what the platform holds for it: the sockets it opened (each with the closure variable \<open>established\<close>), the armed
  timers, the settled promises and the frames sent. Every call, socket event and timer is one step. Sockets, timers and promises
  are numbered from one counter.
\<close>

section \<open>Definitions\<close>

record sdk_opts =
  so_minBackoff :: nat
  so_maxBackoff :: nat
  so_autoReconnect :: bool
  so_connectTimeout :: nat

definition SDK_DEFAULTS :: sdk_opts where
  "SDK_DEFAULTS = \<lparr>so_minBackoff = 250, so_maxBackoff = 30000, so_autoReconnect = True, so_connectTimeout = 15000\<rparr>"

datatype ready_state = Connecting | Opened | Closing | ClosedDown

record sdk_socket =
  sk_state :: ready_state
  sk_established :: bool

datatype sdk_frame = LoginFrame string string | SubscribeFrame "string list" | UnsubscribeFrame "string list" | PingFrame

text \<open>What a server frame parses to; \<open>OtherMsg\<close> stands for anything the client ignores.\<close>

datatype server_msg =
    HelloMsg
  | LoginAck bool
  | RejectedMsg "string list" "string option"
  | ChannelMsg string string
  | OtherMsg

datatype sdk_timer = ConnectTimeout | RetryAttempt | RetryCycle

text \<open>What the consumer's callbacks were told.\<close>

datatype sdk_notice = Delivered string string | LoginNotice bool | RejectedNotice "string list" "string option"

datatype connect_error = TimedOut | ClosedByClient | ConnectionFailed

record sdk_ws =
  sd_socket :: "nat option"
  sd_subs :: "string list"
  sd_creds :: "(string \<times> string) option"
  sd_closed :: bool
  sd_attempts :: nat
  sd_promise :: "nat option"
  sd_ready :: "nat option"
  sd_connectTimer :: "nat option"
  sd_retryTimer :: "nat option"
  sd_sockets :: "(nat, sdk_socket) jmap"
  sd_timers :: "(nat, sdk_timer \<times> nat) jmap"
  sd_settled :: "(nat \<times> connect_error option) list"
  sd_sent :: "(nat \<times> sdk_frame) list"
  sd_notices :: "sdk_notice list"
  sd_next :: nat

definition PRIVATE_CHANNEL_PREFIX :: string where
  "PRIVATE_CHANNEL_PREFIX = ''account.''"

definition freshSdk :: "(string \<times> string) option \<Rightarrow> sdk_ws" where
  "freshSdk creds = \<lparr>sd_socket = None, sd_subs = [], sd_creds = creds, sd_closed = False, sd_attempts = 0, sd_promise = None,
     sd_ready = None, sd_connectTimer = None, sd_retryTimer = None, sd_sockets = [], sd_timers = [], sd_settled = [], sd_sent = [],
     sd_notices = [], sd_next = 0\<rparr>"

definition sockState :: "nat \<Rightarrow> sdk_ws \<Rightarrow> ready_state" where
  "sockState i s = (case map_of (sd_sockets s) i of None \<Rightarrow> ClosedDown | Some k \<Rightarrow> sk_state k)"

definition setState :: "nat \<Rightarrow> ready_state \<Rightarrow> sdk_ws \<Rightarrow> sdk_ws" where
  "setState i st s = (case map_of (sd_sockets s) i of None \<Rightarrow> s | Some k \<Rightarrow> s\<lparr>sd_sockets := jset i (k\<lparr>sk_state := st\<rparr>) (sd_sockets s)\<rparr>)"

definition closeSock :: "nat option \<Rightarrow> sdk_ws \<Rightarrow> sdk_ws" where
  "closeSock sock s = (case sock of None \<Rightarrow> s
     | Some i \<Rightarrow> if sockState i s \<in> {Connecting, Opened} then setState i Closing s else s)"

definition clearTimer :: "nat option \<Rightarrow> sdk_ws \<Rightarrow> sdk_ws" where
  "clearTimer t s = (case t of None \<Rightarrow> s | Some i \<Rightarrow> s\<lparr>sd_timers := jdel i (sd_timers s)\<rparr>)"

definition clearRetryTimer :: "sdk_ws \<Rightarrow> sdk_ws" where
  "clearRetryTimer s = (clearTimer (sd_retryTimer s) s)\<lparr>sd_retryTimer := None\<rparr>"

definition settleConnect :: "connect_error option \<Rightarrow> sdk_ws \<Rightarrow> sdk_ws" where
  "settleConnect err s =
     (let s1 = (clearTimer (sd_connectTimer s) s)\<lparr>sd_connectTimer := None, sd_ready := None\<rparr>;
          s2 = (if err \<noteq> None then s1\<lparr>sd_promise := None\<rparr> else s1)
      in (case sd_ready s of None \<Rightarrow> s2 | Some p \<Rightarrow> s2\<lparr>sd_settled := sd_settled s @ [(p, err)]\<rparr>))"

text \<open>A frame goes to the current socket; \<open>send\<close> on one that is still connecting throws.\<close>

definition sendFrame :: "sdk_frame \<Rightarrow> sdk_ws \<Rightarrow> sdk_ws \<times> bool" where
  "sendFrame f s = (case sd_socket s of
      None \<Rightarrow> (s, True)
    | Some i \<Rightarrow> if sockState i s = Connecting then (s, False)
                else (if sockState i s = Opened then s\<lparr>sd_sent := sd_sent s @ [(i, f)]\<rparr> else s, True))"

definition isOpen :: "sdk_ws \<Rightarrow> bool" where
  "isOpen s \<longleftrightarrow> (case sd_socket s of None \<Rightarrow> False | Some i \<Rightarrow> sockState i s = Opened)"

definition attemptSocket :: "sdk_ws \<Rightarrow> sdk_ws" where
  "attemptSocket s = (if sd_closed s then s
     else s\<lparr>sd_sockets := jset (sd_next s) \<lparr>sk_state = Connecting, sk_established = False\<rparr> (sd_sockets s),
            sd_socket := Some (sd_next s), sd_next := sd_next s + 1\<rparr>)"

definition armTimer :: "sdk_timer \<Rightarrow> nat \<Rightarrow> sdk_ws \<Rightarrow> sdk_ws" where
  "armTimer k delay s = s\<lparr>sd_timers := jset (sd_next s) (k, delay) (sd_timers s), sd_next := sd_next s + 1\<rparr>"

definition startCycle :: "sdk_opts \<Rightarrow> bool \<Rightarrow> sdk_ws \<Rightarrow> sdk_ws" where
  "startCycle cfg withTimeout s =
     (let s1 = s\<lparr>sd_closed := False, sd_promise := Some (sd_next s), sd_ready := Some (sd_next s), sd_next := sd_next s + 1\<rparr>;
          s2 = (if withTimeout then (armTimer ConnectTimeout (so_connectTimeout cfg) s1)\<lparr>sd_connectTimer := Some (sd_next s1)\<rparr> else s1)
      in attemptSocket s2)"

text \<open>The call answers the promise it returns.\<close>

definition connectCall :: "sdk_opts \<Rightarrow> sdk_ws \<Rightarrow> sdk_ws \<times> nat" where
  "connectCall cfg s = (case sd_promise s of
      Some p \<Rightarrow> (s, p)
    | None \<Rightarrow> (startCycle cfg True s, sd_next s))"

definition closeCall :: "sdk_ws \<Rightarrow> sdk_ws" where
  "closeCall s =
     (let s1 = (settleConnect (Some ClosedByClient) (clearRetryTimer (s\<lparr>sd_closed := True\<rparr>)))\<lparr>sd_promise := None\<rparr>
      in (closeSock (sd_socket s1) s1)\<lparr>sd_socket := None\<rparr>)"

definition subscribeCall :: "string \<Rightarrow> sdk_ws \<Rightarrow> sdk_ws" where
  "subscribeCall channel s =
     (let s1 = s\<lparr>sd_subs := sadd channel (sd_subs s)\<rparr>
      in if isOpen s1 then fst (sendFrame (SubscribeFrame [channel]) s1) else s1)"

definition unsubscribeCall :: "string \<Rightarrow> sdk_ws \<Rightarrow> sdk_ws" where
  "unsubscribeCall channel s =
     (let s1 = s\<lparr>sd_subs := filter (\<lambda>c. c \<noteq> channel) (sd_subs s)\<rparr>
      in if isOpen s1 then fst (sendFrame (UnsubscribeFrame [channel]) s1) else s1)"

definition pingCall :: "sdk_ws \<Rightarrow> sdk_ws" where
  "pingCall s = (if isOpen s then fst (sendFrame PingFrame s) else s)"

definition setCredentials :: "(string \<times> string) option \<Rightarrow> sdk_ws \<Rightarrow> sdk_ws" where
  "setCredentials creds s =
     (let s1 = s\<lparr>sd_creds := creds\<rparr>
      in (case creds of
            None \<Rightarrow> s1
          | Some (keyId, secret) \<Rightarrow> if isOpen s1 then fst (sendFrame (LoginFrame keyId secret) s1) else s1))"

definition nextBackoff :: "sdk_opts \<Rightarrow> sdk_ws \<Rightarrow> nat" where
  "nextBackoff cfg s = min (so_maxBackoff cfg) (so_minBackoff cfg * 2 ^ sd_attempts s)"

definition armRetry :: "sdk_opts \<Rightarrow> sdk_timer \<Rightarrow> sdk_ws \<Rightarrow> sdk_ws" where
  "armRetry cfg k s =
     (armTimer k (nextBackoff cfg s) (s\<lparr>sd_attempts := sd_attempts s + 1\<rparr>))\<lparr>sd_retryTimer := Some (sd_next s)\<rparr>"

text \<open>The listeners of socket \<open>i\<close>.\<close>

definition sockOpened :: "nat \<Rightarrow> sdk_ws \<Rightarrow> sdk_ws" where
  "sockOpened i s =
     (let s1 = (setState i Opened s)\<lparr>sd_attempts := 0\<rparr>;
          (s2, ok) = (case sd_creds s1 of None \<Rightarrow> (s1, True) | Some (keyId, secret) \<Rightarrow> sendFrame (LoginFrame keyId secret) s1)
      in if ok \<and> sd_subs s2 \<noteq> [] then fst (sendFrame (SubscribeFrame (sd_subs s2)) s2) else s2)"

definition sockMessage :: "nat \<Rightarrow> server_msg \<Rightarrow> sdk_ws \<Rightarrow> sdk_ws" where
  "sockMessage i m s =
     (case m of
        HelloMsg \<Rightarrow>
          settleConnect None (case map_of (sd_sockets s) i of None \<Rightarrow> s
            | Some k \<Rightarrow> s\<lparr>sd_sockets := jset i (k\<lparr>sk_established := True\<rparr>) (sd_sockets s)\<rparr>)
      | LoginAck ok \<Rightarrow>
          let priv = filter (starts_with PRIVATE_CHANNEL_PREFIX) (sd_subs s);
              (s1, sent) = (if ok \<and> priv \<noteq> [] then sendFrame (SubscribeFrame priv) s else (s, True))
          in if sent then s1\<lparr>sd_notices := sd_notices s1 @ [LoginNotice ok]\<rparr> else s1
      | RejectedMsg channels reason \<Rightarrow> s\<lparr>sd_notices := sd_notices s @ [RejectedNotice channels reason]\<rparr>
      | ChannelMsg channel payload \<Rightarrow>
          if channel \<noteq> [] \<and> channel \<in> set (sd_subs s) then s\<lparr>sd_notices := sd_notices s @ [Delivered channel payload]\<rparr> else s
      | OtherMsg \<Rightarrow> s)"

definition sockClosed :: "sdk_opts \<Rightarrow> nat \<Rightarrow> sdk_ws \<Rightarrow> sdk_ws" where
  "sockClosed cfg i s =
     (let established = (case map_of (sd_sockets s) i of None \<Rightarrow> False | Some k \<Rightarrow> sk_established k);
          s0 = setState i ClosedDown s;
          s1 = (if sd_socket s0 = Some i then s0\<lparr>sd_socket := None\<rparr> else s0);
          pending = sd_ready s1 \<noteq> None
      in if sd_closed s1 then (if pending then settleConnect (Some ClosedByClient) s1 else s1)
         else if pending then
           (if \<not> so_autoReconnect cfg then settleConnect (Some ConnectionFailed) s1 else armRetry cfg RetryAttempt s1)
         else if \<not> established then s1
         else (let s2 = s1\<lparr>sd_promise := None\<rparr> in if so_autoReconnect cfg then armRetry cfg RetryCycle s2 else s2))"

definition timerFired :: "sdk_opts \<Rightarrow> sdk_timer \<Rightarrow> sdk_ws \<Rightarrow> sdk_ws" where
  "timerFired cfg k s =
     (case k of
        ConnectTimeout \<Rightarrow> closeSock (sd_socket s) (settleConnect (Some TimedOut) (clearRetryTimer s))
      | RetryAttempt \<Rightarrow>
          (let s1 = s\<lparr>sd_retryTimer := None\<rparr> in if \<not> sd_closed s1 \<and> sd_ready s1 \<noteq> None then attemptSocket s1 else s1)
      | RetryCycle \<Rightarrow>
          (let s1 = s\<lparr>sd_retryTimer := None\<rparr> in if \<not> sd_closed s1 \<and> sd_promise s1 = None then startCycle cfg False s1 else s1))"

text \<open>What can happen next; an event the platform cannot deliver (a message on a socket that is not open, a timer that is
  not armed) changes nothing.\<close>

datatype sdk_event =
    ConnectEv | CloseEv | SubscribeEv string | UnsubscribeEv string | PingEv | CredentialsEv "(string \<times> string) option"
  | OpenEv nat | MessageEv nat server_msg | CloseSockEv nat | TimerEv nat

definition sdkStep :: "sdk_opts \<Rightarrow> sdk_event \<Rightarrow> sdk_ws \<Rightarrow> sdk_ws" where
  "sdkStep cfg e s = (case e of
      ConnectEv \<Rightarrow> fst (connectCall cfg s)
    | CloseEv \<Rightarrow> closeCall s
    | SubscribeEv c \<Rightarrow> subscribeCall c s
    | UnsubscribeEv c \<Rightarrow> unsubscribeCall c s
    | PingEv \<Rightarrow> pingCall s
    | CredentialsEv c \<Rightarrow> setCredentials c s
    | OpenEv i \<Rightarrow> if sockState i s = Connecting then sockOpened i s else s
    | MessageEv i m \<Rightarrow> if sockState i s = Opened then sockMessage i m s else s
    | CloseSockEv i \<Rightarrow> if sockState i s \<noteq> ClosedDown then sockClosed cfg i s else s
    | TimerEv t \<Rightarrow> (case map_of (sd_timers s) t of None \<Rightarrow> s
        | Some (k, delay) \<Rightarrow> timerFired cfg k (s\<lparr>sd_timers := jdel t (sd_timers s)\<rparr>)))"

abbreviation sdkRun :: "sdk_opts \<Rightarrow> sdk_event list \<Rightarrow> sdk_ws \<Rightarrow> sdk_ws" where
  "sdkRun cfg evs s \<equiv> fold (sdkStep cfg) evs s"

section \<open>Lemmas\<close>

lemma frame_setState [simp]:
  "sd_socket (setState i st s) = sd_socket s" "sd_closed (setState i st s) = sd_closed s" "sd_promise (setState i st s) = sd_promise s"
  "sd_ready (setState i st s) = sd_ready s" "sd_connectTimer (setState i st s) = sd_connectTimer s"
  "sd_retryTimer (setState i st s) = sd_retryTimer s" "sd_timers (setState i st s) = sd_timers s"
  "sd_settled (setState i st s) = sd_settled s" "sd_next (setState i st s) = sd_next s"
  "sd_subs (setState i st s) = sd_subs s" "sd_creds (setState i st s) = sd_creds s" "sd_attempts (setState i st s) = sd_attempts s"
  by (simp_all add: setState_def split: option.split)

lemma frame_closeSock [simp]:
  "sd_socket (closeSock k s) = sd_socket s" "sd_closed (closeSock k s) = sd_closed s" "sd_promise (closeSock k s) = sd_promise s"
  "sd_ready (closeSock k s) = sd_ready s" "sd_connectTimer (closeSock k s) = sd_connectTimer s"
  "sd_retryTimer (closeSock k s) = sd_retryTimer s" "sd_timers (closeSock k s) = sd_timers s"
  "sd_settled (closeSock k s) = sd_settled s" "sd_next (closeSock k s) = sd_next s"
  by (simp_all add: closeSock_def split: option.split)

lemma frame_send [simp]:
  "sd_socket (fst (sendFrame f s)) = sd_socket s" "sd_closed (fst (sendFrame f s)) = sd_closed s"
  "sd_promise (fst (sendFrame f s)) = sd_promise s" "sd_ready (fst (sendFrame f s)) = sd_ready s"
  "sd_connectTimer (fst (sendFrame f s)) = sd_connectTimer s" "sd_retryTimer (fst (sendFrame f s)) = sd_retryTimer s"
  "sd_timers (fst (sendFrame f s)) = sd_timers s" "sd_settled (fst (sendFrame f s)) = sd_settled s"
  "sd_next (fst (sendFrame f s)) = sd_next s" "sd_sockets (fst (sendFrame f s)) = sd_sockets s"
  by (simp_all add: sendFrame_def split: option.split)

text \<open>The calls that only send leave the connection alone.\<close>

definition connection :: "sdk_ws \<Rightarrow> sdk_ws" where
  "connection s = s\<lparr>sd_subs := [], sd_creds := None, sd_sent := [], sd_notices := [], sd_attempts := 0\<rparr>"

lemma connectionD:
  assumes "connection s = connection s'"
  shows "sd_socket s = sd_socket s'" "sd_closed s = sd_closed s'" "sd_promise s = sd_promise s'" "sd_ready s = sd_ready s'"
    "sd_connectTimer s = sd_connectTimer s'" "sd_retryTimer s = sd_retryTimer s'" "sd_timers s = sd_timers s'"
    "sd_settled s = sd_settled s'" "sd_next s = sd_next s'" "sd_sockets s = sd_sockets s'"
  using assms [THEN arg_cong, of sd_socket] assms [THEN arg_cong, of sd_closed] assms [THEN arg_cong, of sd_promise]
    assms [THEN arg_cong, of sd_ready] assms [THEN arg_cong, of sd_connectTimer] assms [THEN arg_cong, of sd_retryTimer]
    assms [THEN arg_cong, of sd_timers] assms [THEN arg_cong, of sd_settled] assms [THEN arg_cong, of sd_next]
    assms [THEN arg_cong, of sd_sockets]
  by (simp_all add: connection_def)

lemma connection_send [simp]: "connection (fst (sendFrame f s)) = connection s"
  by (simp add: connection_def sendFrame_def split: option.split)

lemma connection_fields [simp]:
  "connection (s\<lparr>sd_subs := x\<rparr>) = connection s" "connection (s\<lparr>sd_creds := c\<rparr>) = connection s"
  "connection (s\<lparr>sd_notices := y\<rparr>) = connection s" "connection (s\<lparr>sd_attempts := n\<rparr>) = connection s"
  by (simp_all add: connection_def)

definition chatter :: "sdk_event \<Rightarrow> bool" where
  "chatter e \<longleftrightarrow> (case e of SubscribeEv c \<Rightarrow> True | UnsubscribeEv c \<Rightarrow> True | PingEv \<Rightarrow> True | CredentialsEv c \<Rightarrow> True
     | MessageEv i m \<Rightarrow> m \<noteq> HelloMsg | _ \<Rightarrow> False)"

lemma connection_chatter: "chatter e \<Longrightarrow> connection (sdkStep cfg e s) = connection s"
  by (cases e) (auto simp: chatter_def sdkStep_def subscribeCall_def unsubscribeCall_def pingCall_def setCredentials_def
      sockMessage_def case_prod_unfold Let_def split: option.split server_msg.splits)

lemma connection_opened: "connection (sockOpened i s) = connection (setState i Opened s)"
  by (auto simp: sockOpened_def case_prod_unfold Let_def split: option.split)

section \<open>Lemmas: promises of callers\<close>

text \<open>The numbers of timers are below the counter, a retry timer is no connect timer, and the promise to settle is the
  connecting one.\<close>

definition sdkWf :: "sdk_ws \<Rightarrow> bool" where
  "sdkWf s \<longleftrightarrow> (\<forall>t \<in> set (jkeys (sd_timers s)). t < sd_next s)
     \<and> (\<forall>r. sd_retryTimer s = Some r \<longrightarrow> r < sd_next s \<and> (\<forall>d. map_of (sd_timers s) r \<noteq> Some (ConnectTimeout, d)))
     \<and> (\<forall>q. sd_ready s = Some q \<longrightarrow> sd_promise s = Some q)"

text \<open>The promise \<open>p\<close> is settled, or it waits with its timer armed.\<close>

definition timeoutArmed :: "nat option \<Rightarrow> (nat, sdk_timer \<times> nat) jmap \<Rightarrow> bool" where
  "timeoutArmed timer m \<longleftrightarrow> (case timer of None \<Rightarrow> False
     | Some t \<Rightarrow> (case map_of m t of None \<Rightarrow> False | Some q \<Rightarrow> fst q = ConnectTimeout))"

definition guarded :: "nat \<Rightarrow> sdk_ws \<Rightarrow> bool" where
  "guarded p s \<longleftrightarrow> p \<in> fst ` set (sd_settled s)
     \<or> sd_ready s = Some p \<and> timeoutArmed (sd_connectTimer s) (sd_timers s)"

lemma keys_jdel: "set (jkeys (jdel k m)) = set (jkeys m) - {k}"
  by (auto simp: jkeys_def jdel_def)

lemma wf_cong: "connection s = connection s' \<Longrightarrow> sdkWf s = sdkWf s'" "connection s = connection s' \<Longrightarrow> guarded p s = guarded p s'"
  by (simp_all add: sdkWf_def guarded_def connectionD [of s s'])

lemma wf_frame [simp]:
  "sdkWf (s\<lparr>sd_sockets := x\<rparr>) = sdkWf s" "sdkWf (s\<lparr>sd_socket := y\<rparr>) = sdkWf s" "sdkWf (s\<lparr>sd_closed := b\<rparr>) = sdkWf s"
  "guarded p (s\<lparr>sd_sockets := x\<rparr>) = guarded p s" "guarded p (s\<lparr>sd_socket := y\<rparr>) = guarded p s" "guarded p (s\<lparr>sd_closed := b\<rparr>) = guarded p s"
  "guarded p (s\<lparr>sd_promise := z\<rparr>) = guarded p s"
  by (simp_all add: sdkWf_def guarded_def)

lemma wf_setState [simp]: "sdkWf (setState i st s) = sdkWf s" "guarded p (setState i st s) = guarded p s"
  by (simp_all add: setState_def split: option.split)

lemma wf_closeSock [simp]: "sdkWf (closeSock k s) = sdkWf s" "guarded p (closeSock k s) = guarded p s"
  by (simp_all add: closeSock_def split: option.split)

lemma wf_clear: "sdkWf s \<Longrightarrow> sdkWf (clearTimer t s)"
  by (auto simp: clearTimer_def sdkWf_def keys_jdel split: option.split)

lemma wf_clearRetry: "sdkWf s \<Longrightarrow> sdkWf (clearRetryTimer s)"
  using wf_clear [of s "sd_retryTimer s"] by (auto simp: clearRetryTimer_def sdkWf_def)

lemma guarded_clearRetry: "sdkWf s \<Longrightarrow> guarded p s \<Longrightarrow> guarded p (clearRetryTimer s)"
  by (auto simp: clearRetryTimer_def clearTimer_def guarded_def timeoutArmed_def sdkWf_def split: option.splits)

lemma wf_settle: "sdkWf s \<Longrightarrow> sdkWf (settleConnect err s)"
  using wf_clear [of s "sd_connectTimer s"]
  by (auto simp: settleConnect_def Let_def sdkWf_def split: option.split)

lemma guarded_settle: "guarded p s \<Longrightarrow> guarded p (settleConnect err s)"
  by (auto simp: settleConnect_def clearTimer_def guarded_def timeoutArmed_def Let_def split: option.splits)

lemma wf_arm: "sdkWf s \<Longrightarrow> sdkWf (armTimer k d s)"
  by (auto simp: armTimer_def sdkWf_def)

lemma wf_attempt [simp]: "sdkWf s \<Longrightarrow> sdkWf (attemptSocket s)" "guarded p (attemptSocket s) = guarded p s"
  by (auto simp: attemptSocket_def sdkWf_def guarded_def)

lemma wf_retry: "sdkWf s \<Longrightarrow> k \<noteq> ConnectTimeout \<Longrightarrow> sdkWf (armRetry cfg k s)"
  by (auto simp: armRetry_def armTimer_def sdkWf_def)

lemma guarded_arm:
  assumes "sdkWf s" "guarded p s"
  shows "guarded p (armRetry cfg k s)"
proof -
  have "t < sd_next s" if "map_of (sd_timers s) t \<noteq> None" for t
    using assms(1) that set_jkeys_iff [of t "sd_timers s"] unfolding sdkWf_def by blast
  then show ?thesis using assms(2) by (auto simp: armRetry_def armTimer_def guarded_def timeoutArmed_def split: option.splits)
qed

lemma wf_cycle: "sdkWf s \<Longrightarrow> sdkWf (startCycle cfg b s)"
  unfolding startCycle_def Let_def
  by (intro wf_attempt) (auto simp: armTimer_def sdkWf_def)

lemma guarded_cycle:
  assumes "guarded p s" "sd_ready s = None"
  shows "guarded p (startCycle cfg b s)"
  using assms by (auto simp: startCycle_def Let_def guarded_def armTimer_def attemptSocket_def)

lemma wf_unarmed: "sdkWf s \<Longrightarrow> sdkWf (s\<lparr>sd_timers := jdel t (sd_timers s)\<rparr>)"
  by (auto simp: sdkWf_def keys_jdel)

lemma wf_retryNone: "sdkWf s \<Longrightarrow> sdkWf (s\<lparr>sd_retryTimer := None\<rparr>)" "guarded p (s\<lparr>sd_retryTimer := None\<rparr>) = guarded p s"
  by (simp_all add: sdkWf_def guarded_def)

lemma wf_closed:
  assumes "sdkWf s"
  shows "sdkWf (sockClosed cfg i s)" "guarded p s \<Longrightarrow> guarded p (sockClosed cfg i s)"
proof -
  have none: "sd_ready u = None \<Longrightarrow> sdkWf u \<Longrightarrow> sdkWf (u\<lparr>sd_promise := None\<rparr>)" for u by (simp add: sdkWf_def)
  show "sdkWf (sockClosed cfg i s)"
    using assms by (auto simp: sockClosed_def Let_def intro!: wf_settle wf_retry none)
  show "guarded p s \<Longrightarrow> guarded p (sockClosed cfg i s)"
    using assms by (auto simp: sockClosed_def Let_def intro!: guarded_settle guarded_arm none)
qed

lemma wf_fired:
  assumes "sdkWf s"
  shows "sdkWf (timerFired cfg k s)" "guarded p s \<Longrightarrow> guarded p (timerFired cfg k s)"
proof -
  note retry = wf_retryNone(1) [OF assms]
  show "sdkWf (timerFired cfg k s)"
    using assms by (cases k) (auto simp: timerFired_def Let_def retry intro!: wf_settle wf_clearRetry wf_cycle)
  show "guarded p s \<Longrightarrow> guarded p (timerFired cfg k s)"
    using assms by (cases k) (auto simp: timerFired_def Let_def wf_retryNone(2) sdkWf_def [of s]
        intro!: guarded_settle guarded_clearRetry guarded_cycle)
qed

lemma wf_step:
  assumes "sdkWf s"
  shows "sdkWf (sdkStep cfg e s)"
proof (cases e)
  case ConnectEv
  then show ?thesis using assms by (auto simp: sdkStep_def connectCall_def wf_cycle split: option.split)
next
  case CloseEv
  have "sdkWf ((settleConnect (Some ClosedByClient) (clearRetryTimer (s\<lparr>sd_closed := True\<rparr>)))\<lparr>sd_promise := None\<rparr>)"
    using wf_settle [OF wf_clearRetry, of "s\<lparr>sd_closed := True\<rparr>" "Some ClosedByClient"] assms
    by (simp add: sdkWf_def settleConnect_def Let_def split: option.splits)
  then show ?thesis by (simp add: CloseEv sdkStep_def closeCall_def Let_def)
next
  case (OpenEv i)
  then show ?thesis using assms wf_cong(1) [OF connection_opened [of i s]] by (simp add: sdkStep_def)
next
  case (MessageEv i m)
  show ?thesis
  proof (cases "m = HelloMsg")
    case True
    then show ?thesis using assms by (auto simp: MessageEv sdkStep_def sockMessage_def wf_settle split: option.split)
  next
    case False
    then show ?thesis using assms wf_cong(1) [OF connection_chatter [of e cfg s]] by (simp add: MessageEv chatter_def)
  qed
next
  case (CloseSockEv i)
  then show ?thesis using assms wf_closed(1) by (simp add: sdkStep_def)
next
  case (TimerEv t)
  then show ?thesis using assms wf_unarmed wf_fired(1) by (auto simp: sdkStep_def split: option.split)
qed (use assms wf_cong(1) [OF connection_chatter [of e cfg s]] in \<open>simp_all add: chatter_def\<close>)

lemma guarded_unarmed:
  "guarded p s \<Longrightarrow> map_of (sd_timers s) t = Some (k, d) \<Longrightarrow> k \<noteq> ConnectTimeout \<Longrightarrow> guarded p (s\<lparr>sd_timers := jdel t (sd_timers s)\<rparr>)"
  by (auto simp: guarded_def timeoutArmed_def split: option.splits)

lemma settled_timeout: "sd_ready s = Some p \<Longrightarrow> (p, Some TimedOut) \<in> set (sd_settled (timerFired cfg ConnectTimeout s))"
  by (auto simp: timerFired_def settleConnect_def Let_def clearRetryTimer_def clearTimer_def split: option.split)

lemma settled_grows: "set (sd_settled s) \<subseteq> set (sd_settled (settleConnect err s))"
  by (auto simp: settleConnect_def Let_def clearTimer_def split: option.split)

lemma settled_clearRetry [simp]: "sd_settled (clearRetryTimer s) = sd_settled s" "sd_ready (clearRetryTimer s) = sd_ready s"
  by (simp_all add: clearRetryTimer_def clearTimer_def split: option.split)

lemma guarded_timeout: "guarded p s \<Longrightarrow> guarded p (timerFired cfg ConnectTimeout (s\<lparr>sd_timers := m\<rparr>))"
  using settled_timeout [of "s\<lparr>sd_timers := m\<rparr>" p cfg] settled_grows [of "clearRetryTimer (s\<lparr>sd_timers := m\<rparr>)" "Some TimedOut"]
  by (auto simp: guarded_def timerFired_def) (force intro: rev_image_eqI)+

lemma guarded_step:
  assumes "sdkWf s" "guarded p s"
  shows "guarded p (sdkStep cfg e s)"
proof (cases e)
  case ConnectEv
  have "sd_promise s = None \<Longrightarrow> sd_ready s = None" using assms(1) by (auto simp: sdkWf_def)
  then show ?thesis using assms(2) guarded_cycle by (auto simp: ConnectEv sdkStep_def connectCall_def split: option.split)
next
  case CloseEv
  have "guarded p (settleConnect (Some ClosedByClient) (clearRetryTimer (s\<lparr>sd_closed := True\<rparr>)))"
    using assms by (intro guarded_settle guarded_clearRetry) simp_all
  then show ?thesis by (simp add: CloseEv sdkStep_def closeCall_def Let_def)
next
  case (OpenEv i)
  then show ?thesis using assms(2) wf_cong(2) [OF connection_opened [of i s]] by (simp add: sdkStep_def)
next
  case (MessageEv i m)
  show ?thesis
  proof (cases "m = HelloMsg")
    case True
    then show ?thesis using assms(2) by (auto simp: MessageEv sdkStep_def sockMessage_def guarded_settle split: option.split)
  next
    case False
    then show ?thesis using assms(2) wf_cong(2) [OF connection_chatter [of e cfg s]] by (simp add: MessageEv chatter_def)
  qed
next
  case (CloseSockEv i)
  then show ?thesis using assms wf_closed(2) by (simp add: sdkStep_def)
next
  case (TimerEv t)
  show ?thesis
  proof (cases "map_of (sd_timers s) t")
    case (Some q)
    obtain k d where q: "q = (k, d)" by fastforce
    show ?thesis
    proof (cases "k = ConnectTimeout")
      case True
      then show ?thesis using Some q guarded_timeout [OF assms(2)] by (simp add: TimerEv sdkStep_def)
    next
      case False
      then show ?thesis using Some q wf_fired(2) [OF wf_unarmed [OF assms(1)] guarded_unarmed [OF assms(2)]]
        by (simp add: TimerEv sdkStep_def)
    qed
  qed (use assms in \<open>simp add: TimerEv sdkStep_def\<close>)
qed (use assms(2) wf_cong(2) [OF connection_chatter [of e cfg s]] in \<open>simp_all add: chatter_def\<close>)

lemma wf_run: "sdkWf s \<Longrightarrow> sdkWf (sdkRun cfg evs s)"
  by (induction evs arbitrary: s) (simp_all add: wf_step)

lemma guarded_run: "sdkWf s \<Longrightarrow> guarded p s \<Longrightarrow> guarded p (sdkRun cfg evs s)"
  by (induction evs arbitrary: s) (simp_all add: wf_step guarded_step)

lemma wf_fresh: "sdkWf (freshSdk creds)"
  by (simp add: sdkWf_def freshSdk_def jkeys_def)

section \<open>Lemmas: reconnecting\<close>

text \<open>All sockets but the current one are closed.\<close>

definition oneSocket :: "sdk_ws \<Rightarrow> bool" where
  "oneSocket s \<longleftrightarrow> \<not> sd_closed s \<and> (\<forall>j. sd_socket s \<noteq> Some j \<longrightarrow> sockState j s = ClosedDown)
     \<and> (\<forall>t \<in> set (jkeys (sd_timers s)). t < sd_next s) \<and> (\<forall>j \<in> set (jkeys (sd_sockets s)). j < sd_next s)"

definition establishedSock :: "nat \<Rightarrow> sdk_ws \<Rightarrow> bool" where
  "establishedSock i s \<longleftrightarrow> (case map_of (sd_sockets s) i of None \<Rightarrow> False | Some k \<Rightarrow> sk_established k)"

text \<open>The one armed timer is a retry that will open the next socket.\<close>

fun retryArmed :: "sdk_opts \<Rightarrow> bool \<Rightarrow> bool \<Rightarrow> (nat, sdk_timer \<times> nat) jmap \<Rightarrow> bool" where
  "retryArmed cfg pending idle [(t, k, d)] \<longleftrightarrow>
     d \<le> so_maxBackoff cfg \<and> (k = RetryAttempt \<and> pending \<or> k = RetryCycle \<and> \<not> pending \<and> idle)"
| "retryArmed cfg pending idle _ \<longleftrightarrow> False"

text \<open>After the first hello: a live socket and no timer, or no socket and a retry.\<close>

definition sdkAlive :: "sdk_opts \<Rightarrow> sdk_ws \<Rightarrow> bool" where
  "sdkAlive cfg s \<longleftrightarrow> oneSocket s \<and> sd_connectTimer s = None \<and>
     (case sd_socket s of
        Some i \<Rightarrow> sockState i s \<noteq> ClosedDown \<and> sd_timers s = [] \<and> (sd_ready s \<noteq> None \<or> establishedSock i s)
      | None \<Rightarrow> retryArmed cfg (sd_ready s \<noteq> None) (sd_promise s = None) (sd_timers s))"

text \<open>Before it: the same under the connect timer, armed first.\<close>

definition liveSock :: "sdk_ws \<Rightarrow> bool option" where
  "liveSock s = map_option (\<lambda>i. sockState i s \<noteq> ClosedDown \<and> \<not> establishedSock i s) (sd_socket s)"

fun tryingTimers :: "bool option \<Rightarrow> nat option \<Rightarrow> nat option \<Rightarrow> (nat, sdk_timer \<times> nat) jmap \<Rightarrow> bool" where
  "tryingTimers live (Some t) retry [(u, k, d)] \<longleftrightarrow> u = t \<and> k = ConnectTimeout \<and> retry = None \<and> live = Some True"
| "tryingTimers live (Some t) (Some r) [(u, k, d), (v, k', d')] \<longleftrightarrow>
     u = t \<and> k = ConnectTimeout \<and> v = r \<and> v \<noteq> u \<and> k' = RetryAttempt \<and> live = None"
| "tryingTimers live _ _ _ \<longleftrightarrow> False"

definition sdkTrying :: "sdk_ws \<Rightarrow> bool" where
  "sdkTrying s \<longleftrightarrow> oneSocket s \<and> sd_ready s \<noteq> None \<and> sd_settled s = []
     \<and> tryingTimers (liveSock s) (sd_connectTimer s) (sd_retryTimer s) (sd_timers s)"

text \<open>Timed out before it: nothing will happen any more.\<close>

definition sdkIdle :: "sdk_ws \<Rightarrow> bool" where
  "sdkIdle s \<longleftrightarrow> \<not> sd_closed s \<and> sd_ready s = None \<and> sd_timers s = [] \<and> (\<forall>p. (p, None) \<notin> set (sd_settled s))
     \<and> (\<forall>j. sockState j s \<noteq> ClosedDown \<longrightarrow> sockState j s = Closing \<and> \<not> establishedSock j s)"

lemma sockState_cong: "sd_sockets s = sd_sockets s' \<Longrightarrow> sockState i s = sockState i s'"
  by (simp add: sockState_def)

lemma sockState_setState: "sockState j (setState i st s) = (if j = i \<and> map_of (sd_sockets s) i \<noteq> None then st else sockState j s)"
  by (auto simp: sockState_def setState_def split: option.split)

lemma established_setState [simp]: "establishedSock j (setState i st s) = establishedSock j s"
  by (auto simp: establishedSock_def setState_def split: option.split)

lemma phases_cong:
  assumes "connection s = connection s'"
  shows "sdkAlive cfg s = sdkAlive cfg s'" "sdkTrying s = sdkTrying s'" "sdkIdle s = sdkIdle s'"
  by (simp_all add: sdkAlive_def sdkTrying_def sdkIdle_def oneSocket_def liveSock_def establishedSock_def connectionD [OF assms]
      sockState_cong [OF connectionD(10) [OF assms]] cong: option.case_cong)

lemma keys_setState [simp]: "jkeys (sd_sockets (setState i st s)) = jkeys (sd_sockets s)"
  by (auto simp: setState_def jkeys_jset set_jkeys_iff split: option.split)

lemma live_known: "sockState i s \<noteq> ClosedDown \<Longrightarrow> map_of (sd_sockets s) i \<noteq> None"
  by (auto simp: sockState_def split: option.splits)

lemma sockState_fields [simp]:
  "sockState i (s\<lparr>sd_socket := a\<rparr>) = sockState i s" "sockState i (s\<lparr>sd_promise := b\<rparr>) = sockState i s"
  "sockState i (s\<lparr>sd_ready := b\<rparr>) = sockState i s" "sockState i (s\<lparr>sd_retryTimer := b\<rparr>) = sockState i s"
  "sockState i (s\<lparr>sd_connectTimer := b\<rparr>) = sockState i s" "sockState i (s\<lparr>sd_timers := m\<rparr>) = sockState i s"
  "sockState i (s\<lparr>sd_settled := l\<rparr>) = sockState i s" "sockState i (s\<lparr>sd_attempts := n\<rparr>) = sockState i s"
  "sockState i (s\<lparr>sd_next := n\<rparr>) = sockState i s"
  by (simp_all add: sockState_def)

lemma established_fields [simp]:
  "establishedSock i (s\<lparr>sd_socket := a\<rparr>) = establishedSock i s" "establishedSock i (s\<lparr>sd_promise := b\<rparr>) = establishedSock i s"
  "establishedSock i (s\<lparr>sd_ready := b\<rparr>) = establishedSock i s" "establishedSock i (s\<lparr>sd_retryTimer := b\<rparr>) = establishedSock i s"
  "establishedSock i (s\<lparr>sd_connectTimer := b\<rparr>) = establishedSock i s" "establishedSock i (s\<lparr>sd_timers := m\<rparr>) = establishedSock i s"
  "establishedSock i (s\<lparr>sd_settled := l\<rparr>) = establishedSock i s" "establishedSock i (s\<lparr>sd_attempts := n\<rparr>) = establishedSock i s"
  "establishedSock i (s\<lparr>sd_next := n\<rparr>) = establishedSock i s"
  by (simp_all add: establishedSock_def)

lemma jmap_one [simp]: "jdel t [(t, q)] = []" "jset n q [] = [(n, q)]" "t \<noteq> r \<Longrightarrow> jdel r [(t, q), (r, q')] = [(t, q)]"
    "jdel t [(t, q), (r, q')] = (if r = t then [] else [(r, q')])" "t \<noteq> n \<Longrightarrow> jset n q' [(t, q)] = [(t, q), (n, q')]"
  by (simp_all add: jdel_def jset_def)

lemmas phase_defs = sdkAlive_def sdkTrying_def sdkIdle_def oneSocket_def

lemma trying_cases:
  assumes "tryingTimers (liveSock s) ct rt m"
  obtains (socket) t d i where "ct = Some t" "rt = None" "m = [(t, ConnectTimeout, d)]" "sd_socket s = Some i" "sockState i s \<noteq> ClosedDown"
        "\<not> establishedSock i s"
    | (retry) t r d d' where "ct = Some t" "rt = Some r" "m = [(t, ConnectTimeout, d), (r, RetryAttempt, d')]" "r \<noteq> t" "sd_socket s = None"
  using assms by (cases "(liveSock s, ct, rt, m)" rule: tryingTimers.cases) (auto simp: liveSock_def)

lemma opened_phase:
  assumes "sockState i s = Connecting"
  shows "sdkAlive cfg s \<Longrightarrow> sdkAlive cfg (setState i Opened s)" "sdkTrying s \<Longrightarrow> sdkTrying (setState i Opened s)"
    "sdkIdle s \<Longrightarrow> sdkIdle (setState i Opened s)"
proof -
  have cur: "oneSocket s \<Longrightarrow> sd_socket s = Some i" using assms by (auto simp: oneSocket_def)
  have one: "oneSocket s \<Longrightarrow> oneSocket (setState i Opened s)" using cur by (simp add: oneSocket_def sockState_setState)
  show "sdkAlive cfg s \<Longrightarrow> sdkAlive cfg (setState i Opened s)"
    using cur one by (simp add: sdkAlive_def sockState_setState)
  show "sdkTrying s \<Longrightarrow> sdkTrying (setState i Opened s)"
    using cur one assms by (simp add: sdkTrying_def liveSock_def sockState_setState live_known)
  have "\<not> sdkIdle s" using assms unfolding sdkIdle_def by (metis ready_state.distinct(3,5))
  then show "sdkIdle s \<Longrightarrow> sdkIdle (setState i Opened s)" by blast
qed

lemma hello_phase:
  assumes "sockState i s = Opened"
  shows "sdkAlive cfg s \<Longrightarrow> sdkAlive cfg (sockMessage i HelloMsg s)" "sdkTrying s \<Longrightarrow> sdkAlive cfg (sockMessage i HelloMsg s)"
    "\<not> sdkIdle s"
proof -
  obtain k where k: "map_of (sd_sockets s) i = Some k" "sk_state k = Opened"
    using assms by (auto simp: sockState_def split: option.splits)
  define s1 where "s1 = s\<lparr>sd_sockets := jset i (k\<lparr>sk_established := True\<rparr>) (sd_sockets s)\<rparr>"
  have st: "sockState j s1 = sockState j s" "establishedSock j s1 \<longleftrightarrow> j = i \<or> establishedSock j s" for j
    using k by (auto simp: s1_def sockState_def establishedSock_def)
  have keys: "set (jkeys (sd_sockets s1)) = set (jkeys (sd_sockets s))"
    using k set_jkeys_iff [of i "sd_sockets s"] by (auto simp: s1_def)
  have same: "sd_socket s1 = sd_socket s" "sd_closed s1 = sd_closed s" "sd_timers s1 = sd_timers s" "sd_connectTimer s1 = sd_connectTimer s"
      "sd_ready s1 = sd_ready s" "sd_next s1 = sd_next s"
    by (simp_all add: s1_def)
  have one: "oneSocket s1 = oneSocket s" by (simp add: oneSocket_def st keys same)
  have cur: "oneSocket s \<Longrightarrow> sd_socket s = Some i" using assms by (auto simp: oneSocket_def)
  have msg: "sockMessage i HelloMsg s = settleConnect None s1" using k by (simp add: sockMessage_def s1_def)
  show "sdkAlive cfg (sockMessage i HelloMsg s)" if "sdkAlive cfg s"
    using that assms cur one unfolding msg
    by (simp add: sdkAlive_def oneSocket_def [of "settleConnect None s1"] settleConnect_def clearTimer_def Let_def st same split: option.split)
       (simp add: oneSocket_def st same keys)
  show "sdkAlive cfg (sockMessage i HelloMsg s)" if trying: "sdkTrying s"
  proof -
    have "tryingTimers (liveSock s) (sd_connectTimer s) (sd_retryTimer s) (sd_timers s)" "sd_socket s = Some i"
      using trying cur by (simp_all add: sdkTrying_def)
    then obtain t d where "sd_connectTimer s = Some t" "sd_timers s = [(t, ConnectTimeout, d)]"
      by (auto elim: trying_cases)
    then show ?thesis
      using trying assms cur one unfolding msg
      by (simp add: sdkAlive_def sdkTrying_def settleConnect_def clearTimer_def Let_def st same split: option.split)
         (simp add: oneSocket_def st same keys jkeys_def [of "[]"])
  qed
  show "\<not> sdkIdle s" using assms unfolding sdkIdle_def by (metis ready_state.distinct(7,9))
qed

lemma armRetry_fields [simp]:
  "sd_socket (armRetry cfg k s) = sd_socket s" "sd_closed (armRetry cfg k s) = sd_closed s" "sd_promise (armRetry cfg k s) = sd_promise s"
  "sd_ready (armRetry cfg k s) = sd_ready s" "sd_connectTimer (armRetry cfg k s) = sd_connectTimer s"
  "sd_retryTimer (armRetry cfg k s) = Some (sd_next s)" "sd_settled (armRetry cfg k s) = sd_settled s"
  "sd_next (armRetry cfg k s) = sd_next s + 1" "sd_sockets (armRetry cfg k s) = sd_sockets s" "sockState i (armRetry cfg k s) = sockState i s"
  by (simp_all add: armRetry_def armTimer_def sockState_def)

lemma armRetry_timers: "sd_timers (armRetry cfg k s) = jset (sd_next s) (k, nextBackoff cfg s) (sd_timers s)"
  by (simp add: armRetry_def armTimer_def nextBackoff_def)

lemma one_retry: "oneSocket s \<Longrightarrow> oneSocket (armRetry cfg k s)"
  by (auto simp: oneSocket_def armRetry_timers)

lemma backoff_bounded: "nextBackoff cfg s \<le> so_maxBackoff cfg"
  by (simp add: nextBackoff_def)

text \<open>The current socket goes down.\<close>

lemma gone_one:
  assumes "oneSocket s" "sd_socket s = Some i"
  shows "oneSocket ((setState i ClosedDown s)\<lparr>sd_socket := None\<rparr>)"
  using assms by (auto simp: oneSocket_def sockState_setState) (metis live_known)

lemma one_promise: "oneSocket (s\<lparr>sd_promise := a\<rparr>) = oneSocket s"
  by (simp add: oneSocket_def)

lemma closed_phase:
  assumes "sockState i s \<noteq> ClosedDown" "so_autoReconnect cfg"
  shows "sdkAlive cfg s \<Longrightarrow> sdkAlive cfg (sockClosed cfg i s)" "sdkTrying s \<Longrightarrow> sdkTrying (sockClosed cfg i s)"
    "sdkIdle s \<Longrightarrow> sdkIdle (sockClosed cfg i s)"
proof -
  let ?u = "(setState i ClosedDown s)\<lparr>sd_socket := None\<rparr>"
  have cur: "oneSocket s \<Longrightarrow> sd_socket s = Some i" using assms by (auto simp: oneSocket_def)
  have one: "oneSocket s \<Longrightarrow> oneSocket ?u" using cur gone_one by blast
  have open': "oneSocket s \<Longrightarrow> \<not> sd_closed s" by (simp add: oneSocket_def)
  show "sdkAlive cfg (sockClosed cfg i s)" if alive: "sdkAlive cfg s"
  proof (cases "sd_ready s")
    case None
    have "sockClosed cfg i s = armRetry cfg RetryCycle (?u\<lparr>sd_promise := None\<rparr>)"
      using alive None cur open' assms by (auto simp: sdkAlive_def sockClosed_def establishedSock_def Let_def)
    then show ?thesis
      using alive None cur one one_retry [of "?u\<lparr>sd_promise := None\<rparr>" cfg RetryCycle]
      by (simp add: sdkAlive_def one_promise armRetry_timers backoff_bounded)
  next
    case (Some p)
    have "sockClosed cfg i s = armRetry cfg RetryAttempt ?u"
      using alive Some cur open' assms by (simp add: sdkAlive_def sockClosed_def Let_def)
    then show ?thesis
      using alive Some cur one one_retry [of ?u cfg RetryAttempt] by (simp add: sdkAlive_def armRetry_timers backoff_bounded)
  qed
  show "sdkTrying (sockClosed cfg i s)" if trying: "sdkTrying s"
  proof -
    have s: "oneSocket s" "sd_socket s = Some i" "tryingTimers (liveSock s) (sd_connectTimer s) (sd_retryTimer s) (sd_timers s)"
      using trying cur by (simp_all add: sdkTrying_def)
    from s(3,2) obtain t d where t: "sd_connectTimer s = Some t" "sd_timers s = [(t, ConnectTimeout, d)]" by (auto elim: trying_cases)
    then have "t < sd_next s" using s(1) by (simp add: oneSocket_def jkeys_def)
    moreover have "sockClosed cfg i s = armRetry cfg RetryAttempt ?u"
      using trying cur open' assms by (auto simp: sdkTrying_def sockClosed_def Let_def)
    ultimately show ?thesis
      using trying t one one_retry [of ?u cfg RetryAttempt] by (simp add: sdkTrying_def armRetry_timers liveSock_def)
  qed
  show "sdkIdle (sockClosed cfg i s)" if idle: "sdkIdle s"
  proof -
    have "\<not> establishedSock i s" using idle assms(1) by (auto simp: sdkIdle_def)
    then have "sockClosed cfg i s \<in> {setState i ClosedDown s, ?u}"
      using idle by (auto simp: sdkIdle_def sockClosed_def establishedSock_def Let_def)
    then show ?thesis using idle by (auto simp: sdkIdle_def sockState_setState split: if_split_asm)
  qed
qed

lemma attempt_live:
  assumes "oneSocket s" "sd_socket s = None"
  shows "oneSocket (attemptSocket s)" "sd_socket (attemptSocket s) = Some (sd_next s)" "sockState (sd_next s) (attemptSocket s) = Connecting"
  using assms by (auto simp: oneSocket_def attemptSocket_def sockState_def less_Suc_eq split: option.split)

lemma attempt_fields [simp]:
  "sd_ready (attemptSocket s) = sd_ready s" "sd_timers (attemptSocket s) = sd_timers s" "sd_connectTimer (attemptSocket s) = sd_connectTimer s"
  "sd_retryTimer (attemptSocket s) = sd_retryTimer s" "sd_settled (attemptSocket s) = sd_settled s" "sd_promise (attemptSocket s) = sd_promise s"
  by (simp_all add: attemptSocket_def)

lemma retry_cases:
  assumes "retryArmed cfg pending idle m"
  obtains t k d where "m = [(t, k, d)]" "d \<le> so_maxBackoff cfg" "k = RetryAttempt \<and> pending \<or> k = RetryCycle \<and> \<not> pending \<and> idle"
  using assms by (cases "(cfg, pending, idle, m)" rule: retryArmed.cases) auto

text \<open>The retry fires.\<close>

lemma alive_fires:
  assumes "sdkAlive cfg s" "sd_socket s = None" "sd_timers s = [(t, k, d)]"
  shows "sdkAlive cfg (sdkStep cfg (TimerEv t) s)"
    and "\<exists>i. sd_socket (sdkStep cfg (TimerEv t) s) = Some i \<and> sockState i (sdkStep cfg (TimerEv t) s) = Connecting"
proof -
  let ?u = "s\<lparr>sd_timers := [], sd_retryTimer := None\<rparr>"
  let ?c = "?u\<lparr>sd_closed := False, sd_promise := Some (sd_next s), sd_ready := Some (sd_next s), sd_next := sd_next s + 1\<rparr>"
  have one: "oneSocket ?u" "oneSocket ?c" using assms(1) by (auto simp: sdkAlive_def oneSocket_def jkeys_def [of "[]"] less_SucI) (simp add: sockState_def)
  have none: "sd_socket ?u = None" "sd_socket ?c = None" using assms(2) by simp_all
  have "retryArmed cfg (sd_ready s \<noteq> None) (sd_promise s = None) (sd_timers s)" using assms(1,2) by (simp add: sdkAlive_def)
  then have k: "k = RetryAttempt \<and> sd_ready s \<noteq> None \<or> k = RetryCycle \<and> sd_ready s = None \<and> sd_promise s = None"
    using assms(3) by (auto elim: retry_cases)
  have "\<not> sd_closed s" "sd_connectTimer s = None" using assms(1) by (simp_all add: sdkAlive_def oneSocket_def)
  then have step: "sdkStep cfg (TimerEv t) s = (if k = RetryAttempt then attemptSocket ?u else attemptSocket ?c)"
    using assms(3) k by (auto simp: sdkStep_def timerFired_def startCycle_def Let_def)
  show "sdkAlive cfg (sdkStep cfg (TimerEv t) s)"
    using k \<open>sd_connectTimer s = None\<close> attempt_live [OF one(1) none(1)] attempt_live [OF one(2) none(2)] unfolding step
    by (auto simp: sdkAlive_def)
  show "\<exists>i. sd_socket (sdkStep cfg (TimerEv t) s) = Some i \<and> sockState i (sdkStep cfg (TimerEv t) s) = Connecting"
    using attempt_live [OF one(1) none(1)] attempt_live [OF one(2) none(2)] unfolding step by simp
qed

lemma trying_fires:
  assumes "sdkTrying s"
  shows "sdkTrying (sdkStep cfg (TimerEv u) s) \<or> sdkIdle (sdkStep cfg (TimerEv u) s)"
proof -
  have s: "oneSocket s" "sd_settled s = []" "tryingTimers (liveSock s) (sd_connectTimer s) (sd_retryTimer s) (sd_timers s)"
    using assms by (simp_all add: sdkTrying_def)
  obtain p where p: "sd_ready s = Some p" using assms by (auto simp: sdkTrying_def)
  from s(3) show ?thesis
  proof (cases rule: trying_cases)
    case (socket t d i)
    let ?v = "closeSock (Some i) (settleConnect (Some TimedOut) (clearRetryTimer (s\<lparr>sd_timers := []\<rparr>)))"
    show ?thesis
    proof (cases "u = t")
      case True
      let ?w = "settleConnect (Some TimedOut) (clearRetryTimer (s\<lparr>sd_timers := []\<rparr>))"
      have w: "sd_sockets ?w = sd_sockets s" "\<not> sd_closed ?w" "sd_ready ?w = None" "sd_timers ?w = []" "sd_settled ?w = [(p, Some TimedOut)]"
        using s(1,2) p socket by (simp_all add: settleConnect_def clearRetryTimer_def clearTimer_def Let_def oneSocket_def jdel_def)
      have "sockState j (closeSock (Some i) ?w) \<noteq> ClosedDown \<Longrightarrow> j = i \<and> sockState j (closeSock (Some i) ?w) = Closing" for j
        using s(1) socket live_known [of i s]
        by (cases "sockState i s") (auto simp: closeSock_def sockState_setState oneSocket_def sockState_cong [OF w(1)] w(1) split: if_split_asm)
      moreover have "establishedSock j (closeSock (Some i) ?w) = establishedSock j s" for j
        by (simp add: closeSock_def) (simp add: establishedSock_def w(1))
      ultimately have "sdkIdle (closeSock (Some i) ?w)" using w socket by (auto simp: sdkIdle_def)
      moreover have "sdkStep cfg (TimerEv u) s = closeSock (Some i) ?w"
        using True socket by (simp add: sdkStep_def timerFired_def)
      ultimately show ?thesis by simp
    next
      case False
      then show ?thesis using assms socket by (simp add: sdkStep_def)
    qed
  next
    case (retry t r d d')
    consider "u = t" | "u = r" | "u \<noteq> t" "u \<noteq> r" by blast
    then show ?thesis
    proof cases
      case 1
      let ?w = "settleConnect (Some TimedOut) (clearRetryTimer (s\<lparr>sd_timers := [(r, RetryAttempt, d')]\<rparr>))"
      have "sd_sockets ?w = sd_sockets s" "\<not> sd_closed ?w" "sd_ready ?w = None" "sd_timers ?w = []" "sd_settled ?w = [(p, Some TimedOut)]"
        using s(1,2) p retry by (simp_all add: settleConnect_def clearRetryTimer_def clearTimer_def Let_def oneSocket_def jdel_def)
      moreover have "sockState j s = ClosedDown" for j using s(1) retry by (simp add: oneSocket_def)
      ultimately have "sdkIdle ?w" by (simp add: sdkIdle_def sockState_cong [of ?w s])
      moreover have "sdkStep cfg (TimerEv u) s = ?w" using 1 retry by (simp add: sdkStep_def timerFired_def closeSock_def)
      ultimately show ?thesis by simp
    next
      case 2
      let ?u = "s\<lparr>sd_timers := [(t, ConnectTimeout, d)], sd_retryTimer := None\<rparr>"
      have one: "oneSocket ?u" using s(1) retry by (auto simp: oneSocket_def jkeys_def)
      have "sd_socket ?u = None" using retry by simp
      note live = attempt_live [OF one this]
      have "\<not> establishedSock (sd_next ?u) (attemptSocket ?u)" by (simp add: establishedSock_def attemptSocket_def)
        (use s(1) in \<open>simp add: oneSocket_def\<close>)
      moreover have "sdkStep cfg (TimerEv u) s = attemptSocket ?u"
        using 2 retry s(1) p by (simp add: sdkStep_def timerFired_def oneSocket_def)
      ultimately show ?thesis using live retry p s(2) by (simp add: sdkTrying_def liveSock_def)
    next
      case 3
      then show ?thesis using assms retry by (simp add: sdkStep_def)
    qed
  qed
qed

lemma idle_fires: "sdkIdle s \<Longrightarrow> sdkStep cfg (TimerEv t) s = s"
  by (simp add: sdkIdle_def sdkStep_def)

lemma alive_timer: "sdkAlive cfg s \<Longrightarrow> sdkAlive cfg (sdkStep cfg (TimerEv t) s)"
proof (cases "sd_socket s")
  case None
  assume alive: "sdkAlive cfg s"
  then have "retryArmed cfg (sd_ready s \<noteq> None) (sd_promise s = None) (sd_timers s)" using None by (simp add: sdkAlive_def)
  then obtain u k d where "sd_timers s = [(u, k, d)]" by (auto elim: retry_cases)
  then show ?thesis using alive_fires [OF alive None] alive by (cases "t = u") (simp_all add: sdkStep_def)
qed (simp add: sdkAlive_def sdkStep_def)

text \<open>Every step but a call of \<open>connect\<close> or \<open>close\<close> keeps the client alive, trying or idle.\<close>

lemma phase_step:
  assumes "so_autoReconnect cfg" "e \<noteq> ConnectEv" "e \<noteq> CloseEv"
  shows "sdkAlive cfg s \<Longrightarrow> sdkAlive cfg (sdkStep cfg e s)" "sdkIdle s \<Longrightarrow> sdkIdle (sdkStep cfg e s)"
    "sdkTrying s \<Longrightarrow> sdkTrying (sdkStep cfg e s) \<or> sdkAlive cfg (sdkStep cfg e s) \<or> sdkIdle (sdkStep cfg e s)"
proof -
  note chat = phases_cong [OF connection_chatter [of e cfg s]] and up = phases_cong [OF connection_opened]
  have "(sdkAlive cfg s \<longrightarrow> sdkAlive cfg (sdkStep cfg e s)) \<and> (sdkIdle s \<longrightarrow> sdkIdle (sdkStep cfg e s))
    \<and> (sdkTrying s \<longrightarrow> sdkTrying (sdkStep cfg e s) \<or> sdkAlive cfg (sdkStep cfg e s) \<or> sdkIdle (sdkStep cfg e s))"
  proof (cases e)
    case (OpenEv i)
    then show ?thesis using opened_phase [of i s] by (simp add: sdkStep_def up)
  next
    case (MessageEv i m)
    then show ?thesis using hello_phase [of i s] chat by (cases "m = HelloMsg") (auto simp: sdkStep_def chatter_def)
  next
    case (CloseSockEv i)
    then show ?thesis using closed_phase [OF _ assms(1), of i s] by (simp add: sdkStep_def)
  next
    case (TimerEv t)
    then show ?thesis using alive_timer idle_fires trying_fires by metis
  qed (use assms chat in \<open>simp_all add: chatter_def\<close>)
  then show "sdkAlive cfg s \<Longrightarrow> sdkAlive cfg (sdkStep cfg e s)" "sdkIdle s \<Longrightarrow> sdkIdle (sdkStep cfg e s)"
    "sdkTrying s \<Longrightarrow> sdkTrying (sdkStep cfg e s) \<or> sdkAlive cfg (sdkStep cfg e s) \<or> sdkIdle (sdkStep cfg e s)"
    by blast+
qed

lemma trying_first: "sdkTrying (sdkStep cfg ConnectEv (freshSdk creds))"
  by (simp add: sdkStep_def connectCall_def freshSdk_def startCycle_def armTimer_def attemptSocket_def sdkTrying_def oneSocket_def
      liveSock_def sockState_def establishedSock_def jkeys_def Let_def)

lemma phase_run:
  assumes "so_autoReconnect cfg" "ConnectEv \<notin> set evs" "CloseEv \<notin> set evs"
  shows "sdkTrying (sdkRun cfg (ConnectEv # evs) (freshSdk creds)) \<or> sdkAlive cfg (sdkRun cfg (ConnectEv # evs) (freshSdk creds))
     \<or> sdkIdle (sdkRun cfg (ConnectEv # evs) (freshSdk creds))"
  using assms(2,3)
proof (induction evs rule: rev_induct)
  case Nil
  then show ?case using trying_first by simp
next
  case (snoc e evs)
  then show ?case using phase_step [OF assms(1), of e "sdkRun cfg (ConnectEv # evs) (freshSdk creds)"] by auto
qed

section \<open>Properties\<close>

text \<open>C34. A call of \<open>connect\<close> that starts an attempt of its own never hangs: whatever the socket, the timers and other calls do
  afterwards, its promise is settled, or the connect timer is armed and firing it rejects the promise.\<close>

theorem connect_never_hangs:
  assumes "sd_promise (sdkRun cfg evs (freshSdk creds)) = None"
    and "connectCall cfg (sdkRun cfg evs (freshSdk creds)) = (s, p)" "s' = sdkRun cfg evs' s"
  shows "p \<in> fst ` set (sd_settled s')
     \<or> (\<exists>t. map_option fst (map_of (sd_timers s') t) = Some ConnectTimeout
          \<and> (p, Some TimedOut) \<in> set (sd_settled (sdkStep cfg (TimerEv t) s')))"
proof -
  let ?s = "sdkRun cfg evs (freshSdk creds)"
  have "sdkWf ?s" by (intro wf_run wf_fresh)
  then have wf: "sdkWf s" using wf_step [of ?s cfg ConnectEv] assms(2) by (simp add: sdkStep_def)
  have "guarded p s"
    using assms(1,2) by (auto simp: connectCall_def startCycle_def Let_def armTimer_def guarded_def timeoutArmed_def)
  then have "guarded p s'" using guarded_run [OF wf] assms(3) by simp
  then show ?thesis
  proof (cases "p \<in> fst ` set (sd_settled s')")
    case False
    then obtain t d where t: "sd_ready s' = Some p" "map_of (sd_timers s') t = Some (ConnectTimeout, d)"
      using \<open>guarded p s'\<close> by (auto simp: guarded_def timeoutArmed_def split: option.splits)
    then have "(p, Some TimedOut) \<in> set (sd_settled (sdkStep cfg (TimerEv t) s'))"
      using settled_timeout [of "s'\<lparr>sd_timers := jdel t (sd_timers s')\<rparr>" p cfg] by (simp add: sdkStep_def)
    then show ?thesis using t(2) by auto
  qed simp
qed


text \<open>A connection that came up and dropped, its background cycle begun, a caller joining it, and \<open>n\<close> attempts that fail.\<close>

definition droppedOnce :: "sdk_event list" where
  "droppedOnce = [ConnectEv, OpenEv 2, MessageEv 2 HelloMsg, CloseSockEv 2]"

definition failingAttempts :: "nat \<Rightarrow> sdk_event list" where
  "failingAttempts n = concat (map (\<lambda>m. [CloseSockEv (5 + 2 * m), TimerEv (6 + 2 * m)]) [0..<n])"

lemma sdk_simps:
  "sdkStep cfg ConnectEv s = fst (connectCall cfg s)" "sdkStep cfg CloseEv s = closeCall s" "sdkStep cfg (SubscribeEv c) s = subscribeCall c s"
  "sdkStep cfg (OpenEv i) s = (if sockState i s = Connecting then sockOpened i s else s)"
  "sdkStep cfg (MessageEv i m) s = (if sockState i s = Opened then sockMessage i m s else s)"
  "sdkStep cfg (CloseSockEv i) s = (if sockState i s \<noteq> ClosedDown then sockClosed cfg i s else s)"
  "sdkStep cfg (TimerEv t) s = (case map_of (sd_timers s) t of None \<Rightarrow> s
     | Some (k, delay) \<Rightarrow> timerFired cfg k (s\<lparr>sd_timers := jdel t (sd_timers s)\<rparr>))"
  by (simp_all add: sdkStep_def)

lemmas sdk_run = sdk_simps connectCall_def startCycle_def armTimer_def attemptSocket_def sockState_def setState_def sockOpened_def
  sockMessage_def settleConnect_def clearTimer_def sockClosed_def armRetry_def timerFired_def clearRetryTimer_def closeSock_def
  closeCall_def nextBackoff_def sendFrame_def subscribeCall_def isOpen_def freshSdk_def Let_def jset_def jdel_def

text \<open>The state after \<open>n\<close> failed attempts of the background cycle.\<close>

definition stuckAt :: "nat \<Rightarrow> sdk_ws \<Rightarrow> bool" where
  "stuckAt n s \<longleftrightarrow> sd_socket s = Some (5 + 2 * n) \<and> sockState (5 + 2 * n) s = Connecting \<and> sd_ready s = Some 4 \<and> sd_promise s = Some 4
     \<and> \<not> sd_closed s \<and> sd_connectTimer s = None \<and> sd_timers s = [] \<and> sd_next s = 6 + 2 * n \<and> sd_settled s = [(0, None)]"

lemma stuck_next:
  assumes "so_autoReconnect cfg" "stuckAt n s"
  shows "stuckAt (Suc n) (sdkStep cfg (TimerEv (6 + 2 * n)) (sdkStep cfg (CloseSockEv (5 + 2 * n)) s))"
proof -
  let ?u = "armRetry cfg RetryAttempt ((setState (5 + 2 * n) ClosedDown s)\<lparr>sd_socket := None\<rparr>)"
  have u: "sdkStep cfg (CloseSockEv (5 + 2 * n)) s = ?u" "sd_timers ?u = [(6 + 2 * n, RetryAttempt, nextBackoff cfg s)]"
    using assms by (simp_all add: stuckAt_def sdkStep_def sockClosed_def Let_def armRetry_timers nextBackoff_def)
  then have "sdkStep cfg (TimerEv (6 + 2 * n)) ?u = attemptSocket (?u\<lparr>sd_timers := [], sd_retryTimer := None\<rparr>)"
    using assms(2) by (simp add: sdkStep_def timerFired_def stuckAt_def)
  then show ?thesis using assms(2) unfolding u(1) by (simp add: stuckAt_def attemptSocket_def sockState_def)
qed

lemma stuck_after:
  assumes "so_autoReconnect cfg" "stuckAt 0 s"
  shows "stuckAt n (sdkRun cfg (failingAttempts n) s)"
proof (induction n)
  case (Suc n)
  then show ?case using stuck_next [OF assms(1)] by (simp add: failingAttempts_def)
qed (use assms(2) in \<open>simp add: failingAttempts_def\<close>)

lemma stuck_first:
  assumes "so_autoReconnect cfg"
  shows "stuckAt 0 (sdkRun cfg (droppedOnce @ [TimerEv 3]) (freshSdk None))"
  using assms by (simp add: droppedOnce_def stuckAt_def sdk_run)

text \<open>A call of \<open>connect\<close> during a reconnect can hang: it joins the background cycle, whose promise has no timer, and
  however many attempts fail it is neither resolved nor rejected, with no connect timer armed.\<close>

theorem joined_connect_hangs:
  assumes "so_autoReconnect cfg" "s = sdkRun cfg (droppedOnce @ [TimerEv 3]) (freshSdk None)"
  shows "snd (connectCall cfg s) = 4 \<and> 4 \<notin> fst ` set (sd_settled (sdkRun cfg (ConnectEv # failingAttempts n) s))
     \<and> ConnectTimeout \<notin> (fst \<circ> snd) ` set (sd_timers (sdkRun cfg (ConnectEv # failingAttempts n) s))"
proof -
  have first: "stuckAt 0 s" using stuck_first [OF assms(1)] assms(2) by simp
  then have "connectCall cfg s = (s, 4)" by (simp add: connectCall_def stuckAt_def)
  then show ?thesis using stuck_after [OF assms(1) first, of n] by (simp add: sdkStep_def stuckAt_def)
qed

text \<open>A call of \<open>connect\<close> during a reconnect can end it: when the call times out, the client stays idle for good, without
  a socket or a timer, although reconnecting is on and nothing closed it.\<close>

theorem connect_ends_reconnect:
  assumes "so_autoReconnect cfg" "s = sdkRun cfg (droppedOnce @ [ConnectEv, TimerEv 3, TimerEv 5, CloseSockEv 6]) (freshSdk None)"
  shows "\<not> sd_closed s \<and> sd_socket s = None \<and> sd_timers s = [] \<and> (\<forall>j. sockState j s = ClosedDown)"
  using assms by (simp add: droppedOnce_def sdk_run)

text \<open>Closing and connecting again can leave two live sockets: the old socket's close event starts a second attempt of
  the new cycle, both sockets subscribe, and the consumer gets each broadcast twice.\<close>

theorem reopen_doubles:
  assumes "so_autoReconnect cfg" "c \<noteq> []"
    and "s = sdkRun cfg [SubscribeEv c, ConnectEv, OpenEv 2, MessageEv 2 HelloMsg, CloseEv, ConnectEv, CloseSockEv 2, OpenEv 5, TimerEv 6, OpenEv 7] (freshSdk None)"
  shows "sockState 5 s = Opened \<and> sockState 7 s = Opened
     \<and> (5, SubscribeFrame [c]) \<in> set (sd_sent s) \<and> (7, SubscribeFrame [c]) \<in> set (sd_sent s)
     \<and> sd_notices (sdkRun cfg [MessageEv 5 (ChannelMsg c d), MessageEv 7 (ChannelMsg c d)] s) = [Delivered c d, Delivered c d]"
  using assms by (simp add: sdk_run sadd_def)

section \<open>Witnesses\<close>

abbreviation goesUp :: "sdk_event list" where
  "goesUp \<equiv> [OpenEv 2, MessageEv 2 HelloMsg, CloseSockEv 2, TimerEv 3]"

theorem connect_never_hangs_witness:
  "\<exists>t. map_option fst (map_of (sd_timers (sdkRun SDK_DEFAULTS [CloseSockEv 2] (fst (connectCall SDK_DEFAULTS (freshSdk None))))) t) = Some ConnectTimeout"
proof -
  let ?s = "fst (connectCall SDK_DEFAULTS (freshSdk None))"
  have call: "sd_promise (sdkRun SDK_DEFAULTS [] (freshSdk None)) = None"
      "connectCall SDK_DEFAULTS (sdkRun SDK_DEFAULTS [] (freshSdk None)) = (?s, 0)"
    by (simp_all add: connectCall_def freshSdk_def)
  have "0 \<notin> fst ` set (sd_settled (sdkRun SDK_DEFAULTS [CloseSockEv 2] ?s))"
    by (simp add: SDK_DEFAULTS_def sdk_run)
  then show ?thesis using connect_never_hangs [OF call refl, of "[CloseSockEv 2]"] by blast
qed


theorem joined_connect_witness:
  "4 \<notin> fst ` set (sd_settled (sdkRun SDK_DEFAULTS (ConnectEv # failingAttempts 3) (sdkRun SDK_DEFAULTS (droppedOnce @ [TimerEv 3]) (freshSdk None))))"
  using joined_connect_hangs [of SDK_DEFAULTS _ 3, OF _ refl] by (simp add: SDK_DEFAULTS_def)

theorem connect_ends_witness:
  "sd_timers (sdkRun SDK_DEFAULTS (droppedOnce @ [ConnectEv, TimerEv 3, TimerEv 5, CloseSockEv 6]) (freshSdk None)) = []"
  using connect_ends_reconnect [of SDK_DEFAULTS, OF _ refl] by (simp add: SDK_DEFAULTS_def)

theorem reopen_doubles_witness:
  "sockState 5 (sdkRun SDK_DEFAULTS [SubscribeEv ''events'', ConnectEv, OpenEv 2, MessageEv 2 HelloMsg, CloseEv, ConnectEv, CloseSockEv 2,
     OpenEv 5, TimerEv 6, OpenEv 7] (freshSdk None)) = Opened"
  using reopen_doubles [of SDK_DEFAULTS "''events''", OF _ _ refl] by (simp add: SDK_DEFAULTS_def)

end
