(* ===== verification/ApiTx.thy ===== *)
theory ApiTx
  imports JsString "HOL-Library.Code_Target_Nat"
begin

text \<open>
  Submitting a signed transaction through the API: the errors inside diagnostic events (\<open>api/src/services/contractErrors.ts\<close>),
  sending and polling (\<open>services/txSubmit.ts\<close>), and the answer of \<open>POST /v1/tx/submit\<close> (\<open>routes/tx.ts\<close>). The RPC is the
  environment; XDR objects are represented by what the code reads of them.
\<close>

section \<open>Definitions: errors in diagnostic events\<close>

record contract_error =
  ce_code :: nat
  ce_name :: string

definition NOETHER_ERROR_NAMES :: "(nat \<times> string) list" where
  "NOETHER_ERROR_NAMES =
     [(1, ''NotInitialized''), (2, ''AlreadyInitialized''), (3, ''Unauthorized''), (4, ''Paused''), (5, ''InvalidParameter''),
      (6, ''Overflow''), (7, ''DivisionByZero''), (20, ''PositionNotFound''), (21, ''InvalidLeverage''), (22, ''InsufficientCollateral''),
      (23, ''PositionTooLarge''), (24, ''NotPositionOwner''), (25, ''InsufficientMargin''), (30, ''PriceStale''), (31, ''InvalidPrice''),
      (32, ''OracleUnavailable''), (40, ''InsufficientLiquidity''), (41, ''InvalidAmount''), (42, ''InsufficientBalance''),
      (43, ''DepositCapExceeded''), (50, ''NotLiquidatable''), (51, ''LiquidationFailed''), (55, ''FundingIntervalNotElapsed''),
      (60, ''OrderNotFound''), (61, ''OrderNotPending''), (62, ''OrderNotTriggered''), (63, ''SlippageExceeded''), (64, ''NotOrderOwner''),
      (65, ''InvalidTriggerPrice''), (66, ''InvalidSlippageTolerance''), (67, ''OrderAlreadyExists''), (68, ''InvalidLimitPrice''),
      (69, ''InvalidTrailingPercent''), (70, ''PostOnlyViolation''), (76, ''CrossMarginInsufficientBalance''),
      (77, ''CrossMarginInsufficientFreeMargin''), (78, ''CrossMarginNotLiquidatable''), (79, ''CrossMarginNoPositions''),
      (80, ''CrossMarginOrderNotSupported''), (81, ''PriceDeviationTooHigh''), (82, ''OpenInterestCapExceeded''),
      (83, ''LiquidationCooldown''), (84, ''AdlNotActive''), (85, ''AdlNotEligible''), (87, ''AcceptablePriceExceeded''),
      (88, ''AssetRiskNotConfigured''), (89, ''SkewCapExceeded''), (90, ''Frozen''), (91, ''NetsToZero''), (92, ''AssetHalted''),
      (93, ''WithdrawCooldownActive'')]"

definition contractErrorFromCode :: "nat \<Rightarrow> contract_error" where
  "contractErrorFromCode code =
     \<lparr>ce_code = code, ce_name = (case map_of NOETHER_ERROR_NAMES code of None \<Rightarrow> ''UnknownContractError'' | Some n \<Rightarrow> n)\<rparr>"

text \<open>A value of an event: an error of the contract with its code, one of the host with the names of its type and code,
  anything else, or one that cannot be read. An event that cannot be read at all is malformed.\<close>

datatype event_val = ContractErr nat | HostErr string string | PlainVal | UnreadableVal
datatype diag_event = MalformedEvent | DiagEvent "event_val list"

fun scErrorContractCode :: "event_val \<Rightarrow> nat option" where
  "scErrorContractCode (ContractErr n) = Some n"
| "scErrorContractCode _ = None"

fun firstCode :: "event_val list \<Rightarrow> nat option" where
  "firstCode [] = None"
| "firstCode (v # vs) = (case scErrorContractCode v of Some n \<Rightarrow> Some n | None \<Rightarrow> firstCode vs)"

fun findContractError :: "diag_event list \<Rightarrow> contract_error option" where
  "findContractError [] = None"
| "findContractError (MalformedEvent # evs) = findContractError evs"
| "findContractError (DiagEvent vs # evs) =
     (case firstCode vs of Some n \<Rightarrow> Some (contractErrorFromCode n) | None \<Rightarrow> findContractError evs)"

record host_error =
  he_type :: string
  he_code :: string

definition is_lower_or_digit :: "char \<Rightarrow> bool" where
  "is_lower_or_digit c \<longleftrightarrow> 97 \<le> char_code c \<and> char_code c \<le> 122 \<or> is_digit c"

fun underscored :: "string \<Rightarrow> string" where
  "underscored (a # b # s) = (if is_lower_or_digit a \<and> is_upper b then a # CHR ''_'' # underscored (b # s) else a # underscored (b # s))"
| "underscored s = s"

definition snakeCase :: "string \<Rightarrow> string" where
  "snakeCase name = map to_lower (underscored name)"

definition withoutPrefix :: "string \<Rightarrow> string \<Rightarrow> string" where
  "withoutPrefix p s = (if starts_with p s then drop (length p) s else s)"

text \<open>The values of one event; an unreadable one ends the event.\<close>

fun firstHostError :: "event_val list \<Rightarrow> host_error option" where
  "firstHostError (HostErr t c # vs) = Some \<lparr>he_type = snakeCase (withoutPrefix ''sce'' t), he_code = snakeCase (withoutPrefix ''scec'' c)\<rparr>"
| "firstHostError (UnreadableVal # vs) = None"
| "firstHostError (v # vs) = firstHostError vs"
| "firstHostError [] = None"

fun findHostError :: "diag_event list \<Rightarrow> host_error option" where
  "findHostError [] = None"
| "findHostError (MalformedEvent # evs) = findHostError evs"
| "findHostError (DiagEvent vs # evs) = (case firstHostError vs of Some h \<Rightarrow> Some h | None \<Rightarrow> findHostError evs)"

section \<open>Definitions: sending and polling\<close>

record tx_submit_opts =
  to_pollTimeoutMs :: int
  to_pollIntervalMs :: int

definition TX_SUBMIT_DEFAULTS :: tx_submit_opts where
  "TX_SUBMIT_DEFAULTS = \<lparr>to_pollTimeoutMs = 30000, to_pollIntervalMs = 1000\<rparr>"

datatype rpc_send = SentOk string | SentTryAgainLater string | SentError string "diag_event list"
datatype rpc_got = GotSuccess nat | GotFailed "diag_event list" "string option" | GotNotFound

datatype submit_outcome =
    OutSuccess string nat
  | OutPending string
  | OutFailed string "contract_error option" "host_error option" "string option"
  | OutTryAgainLater string
  | OutRejected string "contract_error option" "host_error option"

text \<open>Poll number \<open>k\<close> gets the answer \<open>reply k\<close> (an error is thrown); \<open>clock k\<close> is the time after it.\<close>

partial_function (option) pollOutcome ::
    "string \<Rightarrow> (nat \<Rightarrow> int) \<Rightarrow> (nat \<Rightarrow> string + rpc_got) \<Rightarrow> int \<Rightarrow> nat \<Rightarrow> (nat \<times> (string + submit_outcome)) option" where
  "pollOutcome hash clock reply deadline k =
     (case reply k of
        Inl e \<Rightarrow> Some (k + 1, Inl e)
      | Inr (GotSuccess ledger) \<Rightarrow> Some (k + 1, Inr (OutSuccess hash ledger))
      | Inr (GotFailed evs result) \<Rightarrow> Some (k + 1, Inr (OutFailed hash (findContractError evs) (findHostError evs) result))
      | Inr GotNotFound \<Rightarrow>
          if clock k \<ge> deadline then Some (k + 1, Inr (OutPending hash)) else pollOutcome hash clock reply deadline (k + 1))"

text \<open>What the environment does for one submission: the parse, the send, the clock and the polls.\<close>

record submit_env =
  se_parses :: bool
  se_send :: "string + rpc_send"
  se_sentAt :: int
  se_clock :: "nat \<Rightarrow> int"
  se_reply :: "nat \<Rightarrow> string + rpc_got"

definition submitTx :: "tx_submit_opts \<Rightarrow> submit_env \<Rightarrow> (nat \<times> (string + submit_outcome)) option" where
  "submitTx opts E =
     (if \<not> se_parses E then Some (0, Inl ''invalid XDR'')
      else case se_send E of
        Inl e \<Rightarrow> Some (0, Inl e)
      | Inr (SentError hash evs) \<Rightarrow> Some (0, Inr (OutRejected hash (findContractError evs) (findHostError evs)))
      | Inr (SentTryAgainLater hash) \<Rightarrow> Some (0, Inr (OutTryAgainLater hash))
      | Inr (SentOk hash) \<Rightarrow> pollOutcome hash (se_clock E) (se_reply E) (se_sentAt E + to_pollTimeoutMs opts) 0)"

section \<open>Definitions: the route\<close>

datatype tx_status = StatusSuccess | StatusPending | StatusFailed

record submitted_body =
  sb_hash :: string
  sb_status :: tx_status
  sb_ledger :: "nat option"
  sb_contractError :: "contract_error option"
  sb_hostError :: "host_error option"
  sb_resultXdr :: "string option"

text \<open>An HTTP answer of the gateway: a result, or an error code with the hint of the \<open>Retry-After\<close> header.\<close>

datatype tx_answer = TxResult submitted_body | TxError nat string "nat option"

definition RETRY_AFTER_SEC :: nat where
  "RETRY_AFTER_SEC = 2"

definition mapOutcome :: "submit_outcome \<Rightarrow> tx_answer" where
  "mapOutcome out = (case out of
      OutSuccess h ledger \<Rightarrow> TxResult \<lparr>sb_hash = h, sb_status = StatusSuccess, sb_ledger = Some ledger, sb_contractError = None, sb_hostError = None, sb_resultXdr = None\<rparr>
    | OutPending h \<Rightarrow> TxResult \<lparr>sb_hash = h, sb_status = StatusPending, sb_ledger = None, sb_contractError = None, sb_hostError = None, sb_resultXdr = None\<rparr>
    | OutFailed h c host r \<Rightarrow> TxResult \<lparr>sb_hash = h, sb_status = StatusFailed, sb_ledger = None, sb_contractError = c, sb_hostError = host, sb_resultXdr = r\<rparr>
    | OutTryAgainLater h \<Rightarrow> TxError 503 ''try_again_later'' (Some RETRY_AFTER_SEC)
    | OutRejected h c host \<Rightarrow> TxError 400 ''submission_rejected'' None)"

definition submitRoute :: "tx_submit_opts \<Rightarrow> submit_env \<Rightarrow> tx_answer option" where
  "submitRoute opts E = map_option (\<lambda>p. case snd p of Inl e \<Rightarrow> TxError 502 ''rpc_error'' None | Inr out \<Rightarrow> mapOutcome out) (submitTx opts E)"

section \<open>Lemmas\<close>

lemma poll_returns:
  assumes "\<exists>m \<le> n. clock (k + m) \<ge> deadline"
  shows "\<exists>j r. pollOutcome hash clock reply deadline k = Some (j, r) \<and> j \<le> k + n + 1"
  using assms
proof (induction n arbitrary: k)
  case 0
  then show ?case by (subst pollOutcome.simps) (auto split: sum.split rpc_got.split)
next
  case (Suc n)
  show ?case
  proof (cases "clock k \<ge> deadline")
    case True
    then show ?thesis by (subst pollOutcome.simps) (auto split: sum.split rpc_got.split)
  next
    case False
    then obtain m where m: "m \<le> Suc n" "clock (k + m) \<ge> deadline" "m \<noteq> 0" using Suc.prems by force
    then have "\<exists>m' \<le> n. clock (k + 1 + m') \<ge> deadline" by (intro exI [of _ "m - 1"]) auto
    from Suc.IH [OF this] show ?thesis by (subst pollOutcome.simps) (auto split: sum.split rpc_got.split)
  qed
qed

text \<open>A final answer of the poll is one that some poll gave.\<close>

definition answered :: "string \<Rightarrow> (nat \<Rightarrow> int) \<Rightarrow> (nat \<Rightarrow> string + rpc_got) \<Rightarrow> int \<Rightarrow> nat \<Rightarrow> nat \<times> (string + submit_outcome) \<Rightarrow> bool" where
  "answered hash clock reply deadline k p \<longleftrightarrow> k < fst p \<and> (case snd p of
      Inl e \<Rightarrow> reply (fst p - 1) = Inl e
    | Inr (OutSuccess h ledger) \<Rightarrow> h = hash \<and> reply (fst p - 1) = Inr (GotSuccess ledger)
    | Inr (OutFailed h c host r) \<Rightarrow> h = hash \<and> (\<exists>evs. reply (fst p - 1) = Inr (GotFailed evs r) \<and> c = findContractError evs \<and> host = findHostError evs)
    | Inr (OutPending h) \<Rightarrow> h = hash \<and> clock (fst p - 1) \<ge> deadline \<and> (\<forall>i \<in> {k..<fst p}. reply i = Inr GotNotFound)
    | Inr _ \<Rightarrow> False)"

lemma answered_later:
  assumes "answered hash clock reply deadline (k + 1) p" "reply k = Inr GotNotFound"
  shows "answered hash clock reply deadline k p"
proof -
  have "{k..<fst p} = insert k {k + 1..<fst p}" using assms(1) by (auto simp: answered_def)
  then show ?thesis using assms by (auto simp: answered_def split: sum.splits submit_outcome.splits)
qed

lemma poll_answers: "pollOutcome hash clock reply deadline k = Some p \<Longrightarrow> answered hash clock reply deadline k p"
proof (erule pollOutcome.raw_induct [rotated])
  fix rec hash clock reply deadline k p
  assume IH: "\<And>hash clock reply deadline k p. rec hash clock reply deadline k = Some p \<Longrightarrow> answered hash clock reply deadline k p"
    and body: "(case reply k of
        Inl e \<Rightarrow> Some (k + 1, Inl e)
      | Inr (GotSuccess ledger) \<Rightarrow> Some (k + 1, Inr (OutSuccess hash ledger))
      | Inr (GotFailed evs result) \<Rightarrow> Some (k + 1, Inr (OutFailed hash (findContractError evs) (findHostError evs) result))
      | Inr GotNotFound \<Rightarrow>
          if clock k \<ge> deadline then Some (k + 1, Inr (OutPending hash)) else rec hash clock reply deadline (k + 1)) = Some p"
  show "answered hash clock reply deadline k p"
  proof (cases "reply k = Inr GotNotFound \<and> clock k < deadline")
    case True
    then show ?thesis using body IH [of hash clock reply deadline "k + 1" p] answered_later by (simp split: if_split_asm)
  next
    case False
    then show ?thesis using body by (cases p) (auto simp: answered_def split: sum.splits rpc_got.splits if_split_asm)
  qed
qed

end
