(* ===== verification/SdkClient.thy ===== *)
theory SdkClient
  imports ApiTx
begin

text \<open>
  The TypeScript SDK over HTTP: the transport (\<open>sdk-ts/src/transport.ts\<close>) with its error classes (\<open>errors.ts\<close>), the failure
  classes of a submission (\<open>retry.ts\<close>), and the one-shot trade of \<open>client.ts\<close> against the gateway of theory \<open>ApiTx\<close>.
\<close>

section \<open>Definitions: errors\<close>

datatype error_kind =
    AuthErr | ForbiddenErr | NotFoundErr | ConflictErr | RateLimitErr | RegionErr | UnavailableErr | ServerErr | BadRequestErr

record error_body =
  eb_error :: "string option"
  eb_message :: "string option"

record api_error =
  ae_kind :: error_kind
  ae_message :: string
  ae_status :: nat
  ae_body :: error_body
  ae_retryAfter :: "nat option"

datatype sdk_failure = NetworkFailure string | ApiFailure api_error | OtherFailure string

definition apiErrorCode :: "api_error \<Rightarrow> string option" where
  "apiErrorCode err = eb_error (ae_body err)"

definition classifyError :: "nat \<Rightarrow> error_body \<Rightarrow> nat option \<Rightarrow> api_error" where
  "classifyError status body retryAfter =
     (let msg = (case eb_error body of Some e \<Rightarrow> e | None \<Rightarrow> (case eb_message body of Some m \<Rightarrow> m | None \<Rightarrow> ''HTTP '' @ show_nat status));
          err = (\<lambda>kind hint. \<lparr>ae_kind = kind, ae_message = msg, ae_status = status, ae_body = body, ae_retryAfter = hint\<rparr>)
      in if status = 401 then err AuthErr None
         else if status = 403 then err ForbiddenErr None
         else if status = 404 then err NotFoundErr None
         else if status = 409 then err ConflictErr None
         else if status = 429 then err RateLimitErr retryAfter
         else if status = 451 then err RegionErr None
         else if status = 503 then err UnavailableErr retryAfter
         else if status \<ge> 500 then err ServerErr None
         else err BadRequestErr None)"

text \<open>The class hierarchy: what an \<open>instanceof\<close> test on each class answers.\<close>

fun superKinds :: "error_kind \<Rightarrow> error_kind list" where
  "superKinds ForbiddenErr = [ForbiddenErr, AuthErr]"
| "superKinds UnavailableErr = [UnavailableErr, ServerErr]"
| "superKinds k = [k]"

section \<open>Definitions: the transport\<close>

text \<open>A text body parses to the JSON of a result or of an error object, or to no object; \<open>None\<close> is an empty one.\<close>

datatype 'a resp_body = ResultJson 'a | ErrorJson error_body | PlainText string | EmptyBody

record 'a http_response =
  hr_status :: nat
  hr_body :: "'a resp_body"
  hr_retryAfter :: "nat option"

definition responseOk :: "nat \<Rightarrow> bool" where
  "responseOk status \<longleftrightarrow> 200 \<le> status \<and> status \<le> 299"

text \<open>The body of an error: the parsed object, else the text, else the status. A successful text that is no JSON reads as null.\<close>

definition errorBody :: "nat \<Rightarrow> 'a resp_body \<Rightarrow> error_body" where
  "errorBody status b = (case b of
      ErrorJson e \<Rightarrow> e
    | ResultJson _ \<Rightarrow> \<lparr>eb_error = None, eb_message = None\<rparr>
    | PlainText t \<Rightarrow> \<lparr>eb_error = Some (if t = [] then ''HTTP '' @ show_nat status else t), eb_message = None\<rparr>
    | EmptyBody \<Rightarrow> \<lparr>eb_error = Some (''HTTP '' @ show_nat status), eb_message = None\<rparr>)"

definition transportRequest :: "string + 'a http_response \<Rightarrow> sdk_failure + 'a option" where
  "transportRequest res = (case res of
      Inl e \<Rightarrow> Inl (NetworkFailure e)
    | Inr r \<Rightarrow>
        if \<not> responseOk (hr_status r) then Inl (ApiFailure (classifyError (hr_status r) (errorBody (hr_status r) (hr_body r)) (hr_retryAfter r)))
        else Inr (case hr_body r of ResultJson a \<Rightarrow> Some a | _ \<Rightarrow> None))"

section \<open>Definitions: the trade\<close>

datatype trade_failure_class = StaleFootprintFailure | TryLaterFailure | NoFailureClass

record submit_failure =
  sf_status :: "tx_status option"
  sf_contractError :: "contract_error option"
  sf_hostError :: "host_error option"
  sf_httpStatus :: "nat option"

definition classifySubmitFailure :: "submit_failure \<Rightarrow> trade_failure_class" where
  "classifySubmitFailure f =
     (if sf_contractError f \<noteq> None then NoFailureClass
      else if sf_httpStatus f = Some 503 then TryLaterFailure
      else (case sf_hostError f of
          None \<Rightarrow> NoFailureClass
        | Some he \<Rightarrow>
            if sf_status f = Some StatusFailed \<and> he_code he = ''exceeded_limit'' \<and> (he_type he = ''storage'' \<or> he_type he = ''budget'')
            then StaleFootprintFailure else NoFailureClass))"

definition httpStatusOf :: "sdk_failure \<Rightarrow> nat option" where
  "httpStatusOf err = (case err of ApiFailure e \<Rightarrow> Some (ae_status e) | _ \<Rightarrow> None)"

text \<open>The environment: the answers to attempt \<open>k\<close> of preparing, signing and submitting.\<close>

record sdk_env =
  sx_prepare :: "nat \<Rightarrow> sdk_failure + string"
  sx_sign :: "nat \<Rightarrow> string \<Rightarrow> sdk_failure + string"
  sx_submit :: "nat \<Rightarrow> string \<Rightarrow> string + submitted_body http_response"

datatype sdk_event_log = SdkSubmitted string | SdkSlept nat

text \<open>A result with an unreadable body is null: reading its status throws.\<close>

function executeFrom :: "sdk_env \<Rightarrow> bool \<Rightarrow> nat \<Rightarrow> sdk_event_log list \<times> (sdk_failure + string \<times> submitted_body)" where
  "executeFrom E retry attempt =
     (case sx_prepare E attempt of
        Inl e \<Rightarrow> ([], Inl e)
      | Inr prepared \<Rightarrow>
          (case sx_sign E attempt prepared of
             Inl e \<Rightarrow> ([], Inl e)
           | Inr signed \<Rightarrow>
               (case transportRequest (sx_submit E attempt signed) of
                  Inl err \<Rightarrow>
                    if retry \<and> attempt = 0
                       \<and> classifySubmitFailure \<lparr>sf_status = None, sf_contractError = None, sf_hostError = None, sf_httpStatus = httpStatusOf err\<rparr> = TryLaterFailure
                    then (let rest = executeFrom E retry (attempt + 1) in ([SdkSubmitted signed, SdkSlept 2000] @ fst rest, snd rest))
                    else ([SdkSubmitted signed], Inl err)
                | Inr None \<Rightarrow> ([SdkSubmitted signed], Inl (OtherFailure ''Cannot read properties of null''))
                | Inr (Some submitted) \<Rightarrow>
                    if retry \<and> attempt = 0
                       \<and> classifySubmitFailure \<lparr>sf_status = Some (sb_status submitted), sf_contractError = sb_contractError submitted,
                           sf_hostError = sb_hostError submitted, sf_httpStatus = None\<rparr> = StaleFootprintFailure
                    then (let rest = executeFrom E retry (attempt + 1) in (SdkSubmitted signed # fst rest, snd rest))
                    else ([SdkSubmitted signed], Inr (prepared, submitted)))))"
  by pat_completeness auto
termination by (relation "measure (\<lambda>(E, retry, attempt). 1 - attempt)") auto

declare executeFrom.simps [simp del]

definition executeTrade :: "bool \<Rightarrow> bool option \<Rightarrow> sdk_env \<Rightarrow> sdk_event_log list \<times> (sdk_failure + string \<times> submitted_body)" where
  "executeTrade hasAuth retryOnStale E =
     (if \<not> hasAuth then ([], Inl (OtherFailure ''executeTrade requires an authenticated client''))
      else executeFrom E (case retryOnStale of None \<Rightarrow> True | Some b \<Rightarrow> b) 0)"

text \<open>What the gateway's answer is on the wire.\<close>

definition gatewayResponse :: "tx_answer \<Rightarrow> submitted_body http_response" where
  "gatewayResponse a = (case a of
      TxResult b \<Rightarrow> \<lparr>hr_status = 200, hr_body = ResultJson b, hr_retryAfter = None\<rparr>
    | TxError status code hint \<Rightarrow> \<lparr>hr_status = status, hr_body = ErrorJson \<lparr>eb_error = Some code, eb_message = None\<rparr>, hr_retryAfter = hint\<rparr>)"

section \<open>Lemmas\<close>

definition signedOf :: "sdk_env \<Rightarrow> nat \<Rightarrow> string option" where
  "signedOf E k = (case sx_prepare E k of Inl e \<Rightarrow> None | Inr p \<Rightarrow> (case sx_sign E k p of Inl e \<Rightarrow> None | Inr s \<Rightarrow> Some s))"

text \<open>An answer after which the SDK rebuilds.\<close>

definition rebuilds :: "string + submitted_body http_response \<Rightarrow> bool" where
  "rebuilds res \<longleftrightarrow> (case transportRequest res of
      Inl err \<Rightarrow> httpStatusOf err = Some 503
    | Inr None \<Rightarrow> False
    | Inr (Some b) \<Rightarrow> sb_status b = StatusFailed \<and> sb_contractError b = None
        \<and> (\<exists>he. sb_hostError b = Some he \<and> he_code he = ''exceeded_limit'' \<and> he_type he \<in> {''storage'', ''budget''}))"

definition sdkSubmissions :: "sdk_event_log list \<Rightarrow> string list" where
  "sdkSubmissions evs = List.map_filter (\<lambda>e. case e of SdkSubmitted s \<Rightarrow> Some s | SdkSlept n \<Rightarrow> None) evs"

lemma sdkSubmissions_simps [simp]:
  "sdkSubmissions [] = []" "sdkSubmissions (SdkSubmitted s # evs) = s # sdkSubmissions evs" "sdkSubmissions (SdkSlept n # evs) = sdkSubmissions evs"
  by (simp_all add: sdkSubmissions_def map_filter_def)

lemma stale_iff:
  "classifySubmitFailure \<lparr>sf_status = Some st, sf_contractError = c, sf_hostError = h, sf_httpStatus = None\<rparr> = StaleFootprintFailure
     \<longleftrightarrow> st = StatusFailed \<and> c = None \<and> (\<exists>he. h = Some he \<and> he_code he = ''exceeded_limit'' \<and> he_type he \<in> {''storage'', ''budget''})"
  by (auto simp: classifySubmitFailure_def split: option.split)

lemma later_iff:
  "classifySubmitFailure \<lparr>sf_status = None, sf_contractError = None, sf_hostError = None, sf_httpStatus = n\<rparr> = TryLaterFailure \<longleftrightarrow> n = Some 503"
  by (simp add: classifySubmitFailure_def)

text \<open>The last attempt submits at most once; the first is followed by it exactly after an answer that asks for a rebuild.\<close>

lemma execute_last: "attempt \<noteq> 0 \<Longrightarrow> sdkSubmissions (fst (executeFrom E retry attempt)) = (case signedOf E attempt of None \<Rightarrow> [] | Some s \<Rightarrow> [s])"
  by (subst executeFrom.simps) (auto simp: signedOf_def split: sum.split option.split)

lemma execute_first:
  "sdkSubmissions (fst (executeFrom E retry 0)) = (case signedOf E 0 of
      None \<Rightarrow> []
    | Some s \<Rightarrow> s # (if retry \<and> rebuilds (sx_submit E 0 s) then (case signedOf E 1 of None \<Rightarrow> [] | Some s' \<Rightarrow> [s']) else []))"
proof (cases "signedOf E 0")
  case (Some s)
  then obtain p where p: "sx_prepare E 0 = Inr p" "sx_sign E 0 p = Inr s"
    by (auto simp: signedOf_def split: sum.splits)
  show ?thesis
    using Some p execute_last [of 1 E retry]
    by (subst executeFrom.simps) (auto simp: rebuilds_def later_iff stale_iff Let_def split: sum.split option.split)
qed (subst executeFrom.simps, auto simp: signedOf_def split: sum.splits)

lemma rebuilds_gateway:
  assumes "res = Inr (gatewayResponse (mapOutcome out))"
  shows "rebuilds res \<longleftrightarrow> (case out of
      OutTryAgainLater h \<Rightarrow> True
    | OutFailed h c host r \<Rightarrow> c = None \<and> (\<exists>he. host = Some he \<and> he_code he = ''exceeded_limit'' \<and> he_type he \<in> {''storage'', ''budget''})
    | _ \<Rightarrow> False)"
  unfolding assms
  by (cases out) (auto simp: rebuilds_def gatewayResponse_def mapOutcome_def transportRequest_def responseOk_def httpStatusOf_def classifyError_def Let_def)

section \<open>Properties\<close>

text \<open>C35. The SDK never trades twice through this gateway: it submits at most two transactions, each freshly prepared and
  signed, and the second only when the RPC had not taken the first, or had reported it failed in the host outside the contract.\<close>

theorem sdk_never_trades_twice:
  assumes "\<And>k s. sx_submit E k s = Inr (gatewayResponse (case r k s of Inl e \<Rightarrow> TxError 502 ''rpc_error'' None | Inr out \<Rightarrow> mapOutcome out))"
    and "\<And>k s. map_option snd (submitTx opts (env k s)) = Some (r k s)"
  shows "length (sdkSubmissions (fst (executeTrade auth retry E))) \<le> 2
     \<and> (sdkSubmissions (fst (executeTrade auth retry E)) = [s1, s2] \<longrightarrow> signedOf E 0 = Some s1 \<and> signedOf E 1 = Some s2
        \<and> ((\<exists>h. se_send (env 0 s1) = Inr (SentTryAgainLater h))
           \<or> (\<exists>h j evs x. se_send (env 0 s1) = Inr (SentOk h) \<and> se_reply (env 0 s1) j = Inr (GotFailed evs x) \<and> findContractError evs = None)))"
proof (cases auth)
  case True
  let ?retry = "case retry of None \<Rightarrow> True | Some b \<Rightarrow> b"
  have exec: "executeTrade auth retry E = executeFrom E ?retry 0" using True by (simp add: executeTrade_def)
  have "(\<exists>h. se_send (env 0 s) = Inr (SentTryAgainLater h))
      \<or> (\<exists>h j evs x. se_send (env 0 s) = Inr (SentOk h) \<and> se_reply (env 0 s) j = Inr (GotFailed evs x) \<and> findContractError evs = None)"
    if reb: "rebuilds (sx_submit E 0 s)" for s
  proof (cases "r 0 s")
    case (Inl e)
    then show ?thesis using reb assms(1) [of 0 s]
      by (simp add: rebuilds_def gatewayResponse_def transportRequest_def responseOk_def httpStatusOf_def classifyError_def Let_def)
  next
    case (Inr out)
    obtain n where sub: "submitTx opts (env 0 s) = Some (n, Inr out)" using assms(2) [of 0 s] Inr by (auto simp: map_option_case split: option.splits)
    have "case out of OutTryAgainLater h \<Rightarrow> True | OutFailed h c host x \<Rightarrow> c = None | _ \<Rightarrow> False"
      using reb rebuilds_gateway [of "sx_submit E 0 s" out] assms(1) [of 0 s] Inr by (auto split: submit_outcome.splits)
    then show ?thesis
      using sub poll_answers [of _ "se_clock (env 0 s)" "se_reply (env 0 s)" _ 0 "(n, Inr out)"]
      by (auto simp: submitTx_def answered_def split: if_split_asm sum.splits rpc_send.splits submit_outcome.splits)
        (metis prod.sel)+
  qed
  then show ?thesis unfolding exec execute_first by (auto split: option.split)
qed (simp add: executeTrade_def)

text \<open>A 503 that does not come from the RPC queue, such as a proxy's after the gateway already submitted, is taken for
  one: the SDK rebuilds and submits a second transaction, whatever the body says and whatever became of the first.\<close>

theorem foreign_503_resubmits:
  assumes "signedOf E 0 = Some s1" "signedOf E 1 = Some s2" "sx_submit E 0 s1 = Inr \<lparr>hr_status = 503, hr_body = body, hr_retryAfter = hint\<rparr>"
  shows "sdkSubmissions (fst (executeTrade True None E)) = [s1, s2]"
proof -
  have "rebuilds (sx_submit E 0 s1)"
    by (simp add: assms(3) rebuilds_def transportRequest_def responseOk_def httpStatusOf_def classifyError_def Let_def)
  then show ?thesis using assms by (simp add: executeTrade_def execute_first)
qed

text \<open>Submitting returns: when the clock reaches the deadline by poll \<open>n\<close>, the gateway answers after at most \<open>n + 1\<close> polls,
  and what it reports as applied or failed is what a poll of the sent hash said.\<close>

theorem tx_submit_returns:
  assumes "se_clock E n \<ge> se_sentAt E + to_pollTimeoutMs opts"
  shows "\<exists>polls res. submitTx opts E = Some (polls, res) \<and> polls \<le> n + 1
     \<and> (\<forall>h ledger. res = Inr (OutSuccess h ledger) \<longrightarrow> se_send E = Inr (SentOk h) \<and> se_reply E (polls - 1) = Inr (GotSuccess ledger))
     \<and> (\<forall>h c host x. res = Inr (OutFailed h c host x) \<longrightarrow> se_send E = Inr (SentOk h) \<and> (\<exists>evs. se_reply E (polls - 1) = Inr (GotFailed evs x)))"
proof (cases "\<exists>h. se_parses E \<and> se_send E = Inr (SentOk h)")
  case True
  then obtain h where h: "se_parses E" "se_send E = Inr (SentOk h)" by blast
  let ?d = "se_sentAt E + to_pollTimeoutMs opts"
  have "\<exists>m \<le> n. se_clock E (0 + m) \<ge> ?d" using assms by auto
  then obtain j res where j: "pollOutcome h (se_clock E) (se_reply E) ?d 0 = Some (j, res)" "j \<le> n + 1"
    using poll_returns [where n = n and clock = "se_clock E" and k = 0 and deadline = ?d and hash = h and reply = "se_reply E"] by auto
  show ?thesis using h j poll_answers [OF j(1)] by (auto simp: submitTx_def answered_def)
qed (auto simp: submitTx_def split: sum.split rpc_send.split)

section \<open>Witnesses\<close>

abbreviation busyThenDone :: "nat \<Rightarrow> string \<Rightarrow> submit_env" where
  "busyThenDone k s \<equiv> \<lparr>se_parses = True, se_send = Inr (if k = 0 then SentTryAgainLater ''h'' else SentOk ''h''), se_sentAt = 0,
     se_clock = (\<lambda>_. 40000), se_reply = (\<lambda>_. Inr (GotSuccess 7))\<rparr>"

abbreviation busyOutcome :: "nat \<Rightarrow> string \<Rightarrow> string + submit_outcome" where
  "busyOutcome k s \<equiv> Inr (if k = 0 then OutTryAgainLater ''h'' else OutSuccess ''h'' 7)"

abbreviation busyGateway :: sdk_env where
  "busyGateway \<equiv> \<lparr>sx_prepare = (\<lambda>k. Inr (replicate (k + 1) CHR ''x'')), sx_sign = (\<lambda>k p. Inr (p @ ''!'')),
     sx_submit = (\<lambda>k s. Inr (gatewayResponse (case busyOutcome k s of Inl e \<Rightarrow> TxError 502 ''rpc_error'' None | Inr out \<Rightarrow> mapOutcome out)))\<rparr>"

theorem sdk_never_trades_twice_witness:
  "length (sdkSubmissions (fst (executeTrade True None busyGateway))) \<le> 2"
  using sdk_never_trades_twice [of busyGateway busyOutcome TX_SUBMIT_DEFAULTS busyThenDone True None]
  by (simp add: submitTx_def pollOutcome.simps)

theorem foreign_503_witness:
  "sdkSubmissions (fst (executeTrade True None (busyGateway\<lparr>sx_submit := \<lambda>k s. Inr \<lparr>hr_status = 503, hr_body = PlainText ''upstream'', hr_retryAfter = None\<rparr>\<rparr>)))
     = [''x!'', ''xx!'']"
  by (rule foreign_503_resubmits) (simp_all add: signedOf_def numeral_2_eq_2)

theorem tx_submit_returns_witness:
  "\<exists>polls res. submitTx TX_SUBMIT_DEFAULTS (busyThenDone 1 ''x'') = Some (polls, res) \<and> polls \<le> 1"
  using tx_submit_returns [where opts = TX_SUBMIT_DEFAULTS and E = "busyThenDone 1 ''x''" and n = 0] by (auto simp: TX_SUBMIT_DEFAULTS_def)

end
