(* ===== verification/ApiStats.thy ===== *)
theory ApiStats
  imports Deployment ApiAccess ApiWs "HOL-Library.List_Lexorder" "HOL-Library.Char_ord" "HOL-Library.Product_Lexorder"
begin

text \<open>
  The read side over the indexer's tables (\<open>api/src/services/stats.ts\<close>) with its cache (\<open>cache.ts\<close>): volumes, open
  interest, the trade and order feeds, candles, and the leaderboard with its snapshots. A statement's result is computed
  from the database as it is when the statement runs; the payload of an event is the record of the properties the queries
  read, an amount being the number its text denotes.
\<close>

section \<open>Definitions: the tables\<close>

record payload =
  pl_trader :: "string option"
  pl_positionId :: "nat option"
  pl_asset :: "string option"
  pl_direction :: "nat option"
  pl_size :: "int option"
  pl_pnl :: "int option"
  pl_entryPrice :: "int option"
  pl_closePrice :: "int option"
  pl_price :: "int option"
  pl_totalPnl :: "int option"
  pl_orderId :: "nat option"
  pl_triggerPrice :: "int option"

record event_row =
  er_id :: string
  er_contract :: string
  er_topic :: string
  er_ledger :: nat
  er_ts :: int
  er_txHash :: string
  er_payload :: payload

record legacy_row =
  lr_scope :: string
  lr_address :: string
  lr_pnl :: int
  lr_volume :: int
  lr_trades :: nat
  lr_liqs :: nat

record open_row =
  or_contract :: "string option"
  or_asset :: string
  or_direction :: nat
  or_size :: int

record debt_row =
  dr_contract :: string
  dr_covered :: int
  dr_absorbed :: int

record stored_candle =
  sc_asset :: string
  sc_interval :: string
  sc_bucket :: int
  sc_ohlc :: "int \<times> int \<times> int \<times> int"

text \<open>A table may be missing; \<open>sd_down\<close>: statements fail with some other error. The cursor row holds ledger and time.\<close>

record stats_db =
  sd_events :: "event_row list option"
  sd_legacy :: "legacy_row list option"
  sd_positions :: "open_row list option"
  sd_badDebt :: "debt_row list option"
  sd_candles :: "stored_candle list option"
  sd_cursor :: "(int \<times> int) option option"
  sd_down :: bool

definition fromTable :: "stats_db \<Rightarrow> 'a option \<Rightarrow> db_fault + 'a" where
  "fromTable d t = (if sd_down d then Inl OtherFault else case t of None \<Rightarrow> Inl NoTable | Some rows \<Rightarrow> Inr rows)"

text \<open>\<open>if (isMissingTable(err)) return \<dots>; throw err\<close>.\<close>

definition ifMissing :: "'a \<Rightarrow> db_fault + 'a \<Rightarrow> db_fault + 'a" where
  "ifMissing x r = (case r of Inl NoTable \<Rightarrow> Inr x | _ \<Rightarrow> r)"

definition orZero :: "int option \<Rightarrow> int" where
  "orZero v = (case v of None \<Rightarrow> 0 | Some n \<Rightarrow> n)"

text \<open>SQL equality: NULL equals nothing.\<close>

definition sqlEq :: "'a option \<Rightarrow> 'a option \<Rightarrow> bool" where
  "sqlEq a b \<longleftrightarrow> (case a of None \<Rightarrow> False | Some x \<Rightarrow> b = Some x)"

text \<open>The join of a realized event to its opens: same contract, same position id.\<close>

definition opensOf :: "event_row list \<Rightarrow> event_row \<Rightarrow> event_row list" where
  "opensOf evs c = filter (\<lambda>o'. er_topic o' = ''position_opened'' \<and> er_contract o' = er_contract c
     \<and> sqlEq (pl_positionId (er_payload o')) (pl_positionId (er_payload c))) evs"

definition leftJoinOpens :: "event_row list \<Rightarrow> event_row \<Rightarrow> event_row option list" where
  "leftJoinOpens evs c = (if opensOf evs c = [] then [None] else map Some (opensOf evs c))"

section \<open>Definitions: volume, open interest, bad debt\<close>

definition DAY_SEC :: int where
  "DAY_SEC = 86400"

definition VOLUME_WINDOW_SEC :: int where
  "VOLUME_WINDOW_SEC = 14 * DAY_SEC"

text \<open>\<open>marketContractId ? 'AND contract_id = ?' : ''\<close>.\<close>

definition inMarket :: "string \<Rightarrow> event_row \<Rightarrow> bool" where
  "inMarket market e \<longleftrightarrow> market = [] \<or> er_contract e = market"

definition sumSizes :: "event_row list \<Rightarrow> int" where
  "sumSizes rows = sum_list (map (\<lambda>e. orZero (pl_size (er_payload e))) rows)"

definition traderVolume14d :: "string \<Rightarrow> (nat \<Rightarrow> stats_db) \<Rightarrow> string \<Rightarrow> int \<Rightarrow> db_fault + int" where
  "traderVolume14d market D address now =
     ifMissing 0
      (case fromTable (D 0) (sd_events (D 0)) of
        Inl e \<Rightarrow> Inl e
      | Inr evs \<Rightarrow>
          (let opens = filter (\<lambda>e. er_topic e = ''position_opened'' \<and> pl_trader (er_payload e) = Some address
                         \<and> er_ts e \<ge> now - VOLUME_WINDOW_SEC \<and> inMarket market e) evs
           in case fromTable (D 1) (sd_events (D 1)) of
                Inl e \<Rightarrow> Inl e
              | Inr evs' \<Rightarrow>
                  (let closes = filter (\<lambda>e. er_topic e = ''position_closed'' \<and> pl_trader (er_payload e) = Some address
                                  \<and> er_ts e \<ge> now - VOLUME_WINDOW_SEC \<and> inMarket market e) evs'
                   in Inr (sumSizes opens + sumSizes (concat (map (opensOf evs') closes))))))"

record asset_stats =
  st_long :: int
  st_short :: int
  st_count :: nat
  st_volume :: int

definition emptyStats :: asset_stats where
  "emptyStats = \<lparr>st_long = 0, st_short = 0, st_count = 0, st_volume = 0\<rparr>"

definition addOpen :: "open_row \<Rightarrow> (string, asset_stats) jmap \<Rightarrow> (string, asset_stats) jmap" where
  "addOpen r acc =
     (let b = jget_or acc (or_asset r) emptyStats;
          b' = (if or_direction r = 0 then b\<lparr>st_long := st_long b + or_size r\<rparr> else b\<lparr>st_short := st_short b + or_size r\<rparr>)
      in jset (or_asset r) (b'\<lparr>st_count := st_count b + 1\<rparr>) acc)"

text \<open>\<open>String(row.asset)\<close> of a NULL is the text \<open>null\<close>; \<open>BigInt\<close> of a NULL size throws an error of another kind.\<close>

definition addVolume :: "event_row \<Rightarrow> (string, asset_stats) jmap \<Rightarrow> (string, asset_stats) jmap" where
  "addVolume e acc =
     (let a = (case pl_asset (er_payload e) of None \<Rightarrow> ''null'' | Some x \<Rightarrow> x);
          b = jget_or acc a emptyStats
      in jset a (b\<lparr>st_volume := st_volume b + orZero (pl_size (er_payload e))\<rparr>) acc)"

definition addVolumes :: "event_row list \<Rightarrow> (string, asset_stats) jmap \<Rightarrow> db_fault + (string, asset_stats) jmap" where
  "addVolumes rows acc = (if \<exists>e \<in> set rows. pl_size (er_payload e) = None then Inl OtherFault else Inr (fold addVolume rows acc))"

definition openRows :: "string \<Rightarrow> stats_db \<Rightarrow> db_fault + open_row list" where
  "openRows market d = map_sum id (filter (\<lambda>r. market = [] \<or> or_contract r = Some market)) (fromTable d (sd_positions d))"

text \<open>The opens of a day, and the opens of its closes and liquidations.\<close>

definition dayOpens :: "string \<Rightarrow> int \<Rightarrow> event_row list \<Rightarrow> event_row list" where
  "dayOpens market now evs = filter (\<lambda>e. er_topic e = ''position_opened'' \<and> er_ts e \<ge> now - DAY_SEC \<and> inMarket market e) evs"

definition dayRealized :: "string \<Rightarrow> int \<Rightarrow> event_row list \<Rightarrow> event_row list" where
  "dayRealized market now evs =
     concat (map (opensOf evs) (filter (\<lambda>e. er_topic e \<in> {''position_closed'', ''position_liquidated''}
       \<and> er_ts e \<ge> now - DAY_SEC \<and> inMarket market e) evs))"

definition computeMarketStats :: "string \<Rightarrow> (nat \<Rightarrow> stats_db) \<Rightarrow> int \<Rightarrow> db_fault + (string, asset_stats) jmap" where
  "computeMarketStats market D now =
     (let acc = fold (\<lambda>a. jset a emptyStats) SUPPORTED_ASSET_SYMBOLS []
      in case ifMissing [] (openRows market (D 0)) of
           Inl e \<Rightarrow> Inl e
         | Inr rows \<Rightarrow>
             (let acc = fold addOpen rows acc
              in case fromTable (D 1) (sd_events (D 1)) of
                   Inl NoTable \<Rightarrow> Inr acc
                 | Inl e \<Rightarrow> Inl e
                 | Inr evs \<Rightarrow>
                     (case addVolumes (dayOpens market now evs) acc of
                        Inl e \<Rightarrow> Inl e
                      | Inr acc \<Rightarrow>
                          (case fromTable (D 2) (sd_events (D 2)) of
                             Inl NoTable \<Rightarrow> Inr acc
                           | Inl e \<Rightarrow> Inl e
                           | Inr evs' \<Rightarrow> addVolumes (dayRealized market now evs') acc))))"

record solvency_stats =
  sv_covered :: int
  sv_absorbed :: int
  sv_events :: nat

definition computeSolvencyStats :: "string \<Rightarrow> stats_db \<Rightarrow> db_fault + solvency_stats" where
  "computeSolvencyStats market d =
     ifMissing \<lparr>sv_covered = 0, sv_absorbed = 0, sv_events = 0\<rparr>
       (map_sum id (\<lambda>rows. let mine = filter (\<lambda>r. dr_contract r = market) rows
          in \<lparr>sv_covered = sum_list (map dr_covered mine), sv_absorbed = sum_list (map dr_absorbed mine), sv_events = length mine\<rparr>)
        (fromTable d (sd_badDebt d)))"

section \<open>Definitions: the trade feed\<close>

definition isGiven :: "string option \<Rightarrow> bool" where
  "isGiven s \<longleftrightarrow> (case s of None \<Rightarrow> False | Some t \<Rightarrow> t \<noteq> [])"

definition clampLimit :: "int \<Rightarrow> int option \<Rightarrow> int \<Rightarrow> nat" where
  "clampLimit cap limit dflt = nat (min cap (max 1 (case limit of None \<Rightarrow> dflt | Some n \<Rightarrow> n)))"

definition DEFAULT_TRADES_LIMIT :: int where "DEFAULT_TRADES_LIMIT = 50"
definition MAX_TRADES_LIMIT :: int where "MAX_TRADES_LIMIT = 200"
definition DEFAULT_ORDERS_LIMIT :: int where "DEFAULT_ORDERS_LIMIT = 50"
definition MAX_ORDERS_LIMIT :: int where "MAX_ORDERS_LIMIT = 200"
definition DEFAULT_CANDLES_LIMIT :: int where "DEFAULT_CANDLES_LIMIT = 500"
definition MAX_CANDLES_LIMIT :: int where "MAX_CANDLES_LIMIT = 1000"

record trade_query =
  tq_trader :: "string option"
  tq_asset :: "string option"
  tq_beforeTs :: "int option"
  tq_limit :: "int option"
  tq_includeOpens :: bool

definition sharedConditions :: "string \<Rightarrow> trade_query \<Rightarrow> event_row \<Rightarrow> bool" where
  "sharedConditions market q c \<longleftrightarrow> inMarket market c
     \<and> (isGiven (tq_trader q) \<longrightarrow> pl_trader (er_payload c) = tq_trader q)
     \<and> (case tq_beforeTs q of None \<Rightarrow> True | Some t \<Rightarrow> er_ts c < t)"

text \<open>The three branches of the union: an event with the payload that stands for its open.\<close>

definition tradeBranches :: "string \<Rightarrow> trade_query \<Rightarrow> event_row list \<Rightarrow> (event_row \<times> payload option) list" where
  "tradeBranches market q evs =
     (let mine = filter (sharedConditions market q) evs;
          realized = concat (map (\<lambda>c. map (\<lambda>o'. (c, map_option er_payload o')) (leftJoinOpens evs c))
            (filter (\<lambda>c. er_topic c \<in> {''position_closed'', ''position_liquidated'', ''adl_executed''}) mine));
          realized = (if isGiven (tq_asset q) then filter (\<lambda>p. case snd p of None \<Rightarrow> False | Some o' \<Rightarrow> pl_asset o' = tq_asset q) realized else realized);
          cross = (if isGiven (tq_asset q) then [] else map (\<lambda>c. (c, None)) (filter (\<lambda>c. er_topic c = ''cross_liq'') mine));
          opens = (if \<not> tq_includeOpens q then [] else map (\<lambda>c. (c, Some (er_payload c)))
            (filter (\<lambda>c. er_topic c = ''position_opened'' \<and> (isGiven (tq_asset q) \<longrightarrow> pl_asset (er_payload c) = tq_asset q)) mine))
      in realized @ cross @ opens)"

text \<open>\<open>ORDER BY ledger DESC, event_id DESC\<close>.\<close>

definition newestFirst :: "('a \<Rightarrow> event_row) \<Rightarrow> 'a list \<Rightarrow> 'a list" where
  "newestFirst f rows = rev (sort_key (\<lambda>x. (er_ledger (f x), er_id (f x))) rows)"

datatype feed_kind = OpenTrade | CloseTrade | LiquidationTrade | CrossLiquidationTrade | AdlTrade

record feed_row =
  tr_positionId :: "nat option"
  tr_trader :: string
  tr_kind :: feed_kind
  tr_asset :: "string option"
  tr_direction :: "nat option"
  tr_size :: "int option"
  tr_entryPrice :: "int option"
  tr_closePrice :: "int option"
  tr_pnl :: "int option"
  tr_ledger :: nat
  tr_ts :: int
  tr_txHash :: string

definition tradeKind :: "string \<Rightarrow> feed_kind" where
  "tradeKind topic =
     (if topic = ''position_opened'' then OpenTrade
      else if topic = ''cross_liq'' then CrossLiquidationTrade
      else if topic = ''position_liquidated'' then LiquidationTrade
      else if topic = ''adl_executed'' then AdlTrade
      else CloseTrade)"

text \<open>\<open>open?.f ?? payload.f\<close>.\<close>

definition fromOpen :: "(payload \<Rightarrow> 'a option) \<Rightarrow> payload option \<Rightarrow> payload \<Rightarrow> 'a option" where
  "fromOpen f op pl = (case op of None \<Rightarrow> f pl | Some o' \<Rightarrow> (case f o' of None \<Rightarrow> f pl | Some v \<Rightarrow> Some v))"

definition mapRealizedRow :: "event_row \<times> payload option \<Rightarrow> feed_row" where
  "mapRealizedRow r =
     (let c = fst r; pl = er_payload c; kind = tradeKind (er_topic c)
      in \<lparr>tr_positionId = (if kind = CrossLiquidationTrade then None else Some (case pl_positionId pl of None \<Rightarrow> 0 | Some i \<Rightarrow> i)),
          tr_trader = (case pl_trader pl of None \<Rightarrow> [] | Some t \<Rightarrow> t),
          tr_kind = kind,
          tr_asset = fromOpen pl_asset (snd r) pl,
          tr_direction = fromOpen pl_direction (snd r) pl,
          tr_size = fromOpen pl_size (snd r) pl,
          tr_entryPrice = (case snd r of None \<Rightarrow> None | Some o' \<Rightarrow> pl_entryPrice o'),
          tr_closePrice = (if kind = OpenTrade then None else (case pl_closePrice pl of None \<Rightarrow> pl_price pl | Some p \<Rightarrow> Some p)),
          tr_pnl = (if kind = CloseTrade \<or> kind = AdlTrade then pl_pnl pl else if kind = CrossLiquidationTrade then pl_totalPnl pl else None),
          tr_ledger = er_ledger c, tr_ts = er_ts c, tr_txHash = er_txHash c\<rparr>)"

definition recentTrades :: "string \<Rightarrow> stats_db \<Rightarrow> trade_query \<Rightarrow> db_fault + feed_row list" where
  "recentTrades market d q =
     ifMissing [] (map_sum id (\<lambda>evs. map mapRealizedRow
       (take (clampLimit MAX_TRADES_LIMIT (tq_limit q) DEFAULT_TRADES_LIMIT) (newestFirst fst (tradeBranches market q evs))))
       (fromTable d (sd_events d)))"

section \<open>Definitions: the order feed and candles\<close>

datatype feed_status = OrderOpen | OrderExecuted | OrderCancelled

record order_feed_row =
  of_orderId :: nat
  of_trader :: string
  of_triggerPrice :: int
  of_status :: feed_status
  of_ledger :: nat
  of_ts :: int
  of_txHash :: string

definition terminalEvent :: "event_row list \<Rightarrow> string \<Rightarrow> event_row \<Rightarrow> bool" where
  "terminalEvent evs topic p \<longleftrightarrow> (\<exists>t \<in> set evs. er_topic t = topic \<and> er_contract t = er_contract p
     \<and> sqlEq (pl_orderId (er_payload t)) (pl_orderId (er_payload p)))"

definition orderStatusOf :: "event_row list \<Rightarrow> event_row \<Rightarrow> feed_status" where
  "orderStatusOf evs p =
     (if terminalEvent evs ''order_executed'' p then OrderExecuted
      else if terminalEvent evs ''order_cancelled'' p then OrderCancelled else OrderOpen)"

definition mapOrderEventRow :: "event_row list \<Rightarrow> event_row \<Rightarrow> order_feed_row" where
  "mapOrderEventRow evs p =
     (let pl = er_payload p
      in \<lparr>of_orderId = (case pl_orderId pl of None \<Rightarrow> 0 | Some i \<Rightarrow> i), of_trader = (case pl_trader pl of None \<Rightarrow> [] | Some t \<Rightarrow> t),
          of_triggerPrice = orZero (pl_triggerPrice pl), of_status = orderStatusOf evs p,
          of_ledger = er_ledger p, of_ts = er_ts p, of_txHash = er_txHash p\<rparr>)"

text \<open>\<open>openOnly\<close> is \<open>opts.status !== 'all'\<close>.\<close>

definition orderRows :: "string \<Rightarrow> string option \<Rightarrow> bool \<Rightarrow> event_row list \<Rightarrow> event_row list" where
  "orderRows market trader openOnly evs =
     newestFirst id (filter (\<lambda>p. er_topic p = ''order_placed'' \<and> inMarket market p
       \<and> (isGiven trader \<longrightarrow> pl_trader (er_payload p) = trader)
       \<and> (openOnly \<longrightarrow> \<not> terminalEvent evs ''order_executed'' p \<and> \<not> terminalEvent evs ''order_cancelled'' p)) evs)"

definition listOrders :: "string \<Rightarrow> stats_db \<Rightarrow> string option \<Rightarrow> bool \<Rightarrow> int option \<Rightarrow> db_fault + order_feed_row list" where
  "listOrders market d trader openOnly limit =
     ifMissing [] (map_sum id (\<lambda>evs. map (mapOrderEventRow evs)
       (take (clampLimit MAX_ORDERS_LIMIT limit DEFAULT_ORDERS_LIMIT) (orderRows market trader openOnly evs)))
       (fromTable d (sd_events d)))"

definition PRICE_SCALE :: rat where
  "PRICE_SCALE = 10000000"

record candle_point =
  cp_time :: int
  cp_open :: rat
  cp_high :: rat
  cp_low :: rat
  cp_close :: rat

definition candlePointFromRow :: "stored_candle \<Rightarrow> candle_point" where
  "candlePointFromRow r = (case sc_ohlc r of (a, b, c, e) \<Rightarrow>
     \<lparr>cp_time = sc_bucket r, cp_open = of_int a / PRICE_SCALE, cp_high = of_int b / PRICE_SCALE,
      cp_low = of_int c / PRICE_SCALE, cp_close = of_int e / PRICE_SCALE\<rparr>)"

definition queryCandles :: "stats_db \<Rightarrow> string \<Rightarrow> string \<Rightarrow> int option \<Rightarrow> db_fault + candle_point list" where
  "queryCandles d asset interval limit =
     ifMissing [] (map_sum id (\<lambda>rows. map candlePointFromRow (rev (take (clampLimit MAX_CANDLES_LIMIT limit DEFAULT_CANDLES_LIMIT)
       (rev (sort_key sc_bucket (filter (\<lambda>r. sc_asset r = asset \<and> sc_interval r = interval) rows))))))
       (fromTable d (sd_candles d)))"

section \<open>Definitions: array literals\<close>

text \<open>Backslashes are doubled first, then quotes escaped.\<close>

definition BACKSLASH :: char where "BACKSLASH = CHR 0x5C"
definition QUOTE :: char where "QUOTE = CHR 0x22"

definition escapeChar :: "char \<Rightarrow> string" where
  "escapeChar c = (if c = BACKSLASH then [BACKSLASH, BACKSLASH] else if c = QUOTE then [BACKSLASH, QUOTE] else [c])"

definition quotedId :: "string \<Rightarrow> string" where
  "quotedId i = QUOTE # concat (map escapeChar i) @ [QUOTE]"

fun joinComma :: "string list \<Rightarrow> string" where
  "joinComma [] = []"
| "joinComma [w] = w"
| "joinComma (w # ws) = w @ CHR '','' # joinComma ws"

definition toPgTextArrayLiteral :: "string list \<Rightarrow> string" where
  "toPgTextArrayLiteral ids = CHR ''{'' # joinComma (map quotedId ids) @ ''}''"

text \<open>How the server reads an array literal of quoted elements: what is quoted by a backslash stands for itself.\<close>

fun readQuoted :: "string \<Rightarrow> string \<Rightarrow> (string \<times> string) option" where
  "readQuoted acc [] = None"
| "readQuoted acc (c # s) =
     (if c = QUOTE then Some (acc, s)
      else if c = BACKSLASH then (case s of [] \<Rightarrow> None | e # t \<Rightarrow> readQuoted (acc @ [e]) t)
      else readQuoted (acc @ [c]) s)"

lemma readQuoted_shorter: "readQuoted acc s = Some (w, rest) \<Longrightarrow> length rest < length s"
  by (induction acc s rule: readQuoted.induct) (auto split: if_split_asm list.splits)

function readElements :: "string \<Rightarrow> string list option" where
  "readElements s =
     (case s of
        [] \<Rightarrow> None
      | c # t \<Rightarrow>
          if c \<noteq> QUOTE then None
          else (case readQuoted [] t of
                  None \<Rightarrow> None
                | Some (w, rest) \<Rightarrow>
                    if rest = ''}'' then Some [w]
                    else (case rest of [] \<Rightarrow> None | d # u \<Rightarrow> if d = CHR '','' then map_option ((#) w) (readElements u) else None)))"
  by pat_completeness auto
termination by (relation "measure length") (auto dest: readQuoted_shorter)

declare readElements.simps [simp del]

definition readPgArray :: "string \<Rightarrow> string list option" where
  "readPgArray s = (case s of [] \<Rightarrow> None | c # t \<Rightarrow> if c \<noteq> CHR ''{'' then None else if t = ''}'' then Some [] else readElements t)"

section \<open>Lemmas\<close>

text \<open>Lowering the time bound filters the feed.\<close>

lemma filter_concat_map: "filter P (concat (map f xs)) = concat (map (\<lambda>x. filter P (f x)) xs)"
  by (induction xs) auto

lemma concat_map_filter_nil: "(\<And>x. x \<in> set xs \<Longrightarrow> \<not> Q x \<Longrightarrow> f x = []) \<Longrightarrow> concat (map f (filter Q xs)) = concat (map f xs)"
  by (induction xs) auto

lemma tradeBranches_before:
  assumes "tq_beforeTs q = None"
  shows "tradeBranches market (q\<lparr>tq_beforeTs := Some t\<rparr>) evs = filter (\<lambda>r. er_ts (fst r) < t) (tradeBranches market q evs)"
proof -
  have mine: "filter (sharedConditions market (q\<lparr>tq_beforeTs := Some t\<rparr>)) evs = filter (\<lambda>c. er_ts c < t) (filter (sharedConditions market q) evs)"
    using assms by (auto simp: sharedConditions_def conj_commute intro!: filter_cong)
  have same: "tq_asset (q\<lparr>tq_beforeTs := Some t\<rparr>) = tq_asset q" "tq_includeOpens (q\<lparr>tq_beforeTs := Some t\<rparr>) = tq_includeOpens q" by simp_all
  have joined: "concat (map (\<lambda>c. map (\<lambda>o'. (c, g o')) (leftJoinOpens evs c)) (filter P (filter (\<lambda>c. er_ts c < t) xs)))
      = filter (\<lambda>r. er_ts (fst r) < t) (concat (map (\<lambda>c. map (\<lambda>o'. (c, g o')) (leftJoinOpens evs c)) (filter P xs)))"
    for g :: "event_row option \<Rightarrow> payload option" and P xs
    by (induction xs) (auto simp: filter_map comp_def)
  show ?thesis
    unfolding tradeBranches_def Let_def mine joined same
    by (auto simp: filter_map comp_def conj_ac)
qed

lemma newestFirst_filter: "newestFirst f (filter P xs) = filter P (newestFirst f xs)"
  by (simp add: newestFirst_def rev_filter flip: filter_sort)

lemma newestFirst_sorted: "sorted_wrt (\<lambda>x y. er_ledger (f y) \<le> er_ledger (f x)) (newestFirst f xs)"
proof -
  have "sorted_wrt (\<lambda>x y. (er_ledger (f x), er_id (f x)) \<le> (er_ledger (f y), er_id (f y))) (sort_key (\<lambda>x. (er_ledger (f x), er_id (f x))) xs)"
    using sorted_sort_key [of "\<lambda>x. (er_ledger (f x), er_id (f x))" xs] by (simp add: sorted_map)
  then have "sorted_wrt (\<lambda>x y. er_ledger (f x) \<le> er_ledger (f y)) (sort_key (\<lambda>x. (er_ledger (f x), er_id (f x))) xs)"
    by (rule sorted_wrt_mono_rel [rotated]) (auto simp: less_eq_prod_def)
  then show ?thesis by (simp add: newestFirst_def sorted_wrt_rev)
qed

lemma sorted_wrt_last: "sorted_wrt R xs \<Longrightarrow> x \<in> set xs \<Longrightarrow> x = last xs \<or> R x (last xs)"
  by (induction xs) auto

lemma set_newestFirst [simp]: "set (newestFirst f xs) = set xs"
  by (simp add: newestFirst_def)

lemma tradeBranches_events: "r \<in> set (tradeBranches market q evs) \<Longrightarrow> fst r \<in> set evs"
  by (auto simp: tradeBranches_def Let_def split: if_split_asm)

text \<open>The open orders are the orders of the whole listing without a terminal event.\<close>

lemma orderStatus_open: "orderStatusOf evs p = OrderOpen \<longleftrightarrow> \<not> terminalEvent evs ''order_executed'' p \<and> \<not> terminalEvent evs ''order_cancelled'' p"
  by (simp add: orderStatusOf_def)

lemma open_orders_are_open:
  "orderRows market trader True evs = filter (\<lambda>p. orderStatusOf evs p = OrderOpen) (orderRows market trader False evs)"
  by (simp add: orderRows_def orderStatus_open conj_assoc flip: newestFirst_filter)

lemma quote_backslash [simp]: "QUOTE \<noteq> BACKSLASH" "BACKSLASH \<noteq> QUOTE" "QUOTE \<noteq> CHR ''}''"
  by (simp_all add: QUOTE_def BACKSLASH_def)

lemma readQuoted_escaped: "readQuoted acc (concat (map escapeChar i) @ QUOTE # rest) = Some (acc @ i, rest)"
  by (induction i arbitrary: acc) (auto simp: escapeChar_def)

lemma readElements_quoted: "ids \<noteq> [] \<Longrightarrow> readElements (joinComma (map quotedId ids) @ ''}'') = Some ids"
proof (induction ids rule: joinComma.induct)
  case (3 w v ws)
  then show ?case by (subst readElements.simps) (simp add: quotedId_def [of w] readQuoted_escaped)
qed (simp, subst readElements.simps, simp add: quotedId_def readQuoted_escaped)

section \<open>Properties\<close>

text \<open>Paging the trade feed by \<open>beforeTs\<close> loses rows: the page after a full one starts strictly below the last row's
  close time, so of the rows after the first page exactly those of that same time, such as the other events of its ledger,
  are on no page.\<close>

theorem trades_page_skips:
  assumes "fromTable d (sd_events d) = Inr evs" "tq_beforeTs q = None"
    and "\<And>e e'. e \<in> set evs \<Longrightarrow> e' \<in> set evs \<Longrightarrow> er_ledger e \<le> er_ledger e' \<Longrightarrow> er_ts e \<le> er_ts e'"
    and "recentTrades market d q = Inr page" "page \<noteq> []"
  shows "page = map mapRealizedRow (take (length page) (newestFirst fst (tradeBranches market q evs)))
     \<and> recentTrades market d (q\<lparr>tq_beforeTs := Some (tr_ts (last page))\<rparr>)
       = Inr (map mapRealizedRow (take (clampLimit MAX_TRADES_LIMIT (tq_limit q) DEFAULT_TRADES_LIMIT)
           (filter (\<lambda>r. er_ts (fst r) \<noteq> tr_ts (last page)) (drop (length page) (newestFirst fst (tradeBranches market q evs))))))"
proof -
  let ?feed = "newestFirst fst (tradeBranches market q evs)"
  let ?n = "clampLimit MAX_TRADES_LIMIT (tq_limit q) DEFAULT_TRADES_LIMIT"
  let ?t = "tr_ts (last page)"
  have page: "page = map mapRealizedRow (take ?n ?feed)" using assms(1,4) by (simp add: recentTrades_def ifMissing_def)
  then have take_len: "take (length page) ?feed = take ?n ?feed" by (simp add: min_def)
  have drop_len: "drop ?n ?feed = drop (length page) ?feed" using page by (simp add: min_def)
  have nonempty: "take ?n ?feed \<noteq> []" using page assms(5) by auto
  then have t: "?t = er_ts (fst (last (take ?n ?feed)))" using page by (simp add: last_map mapRealizedRow_def Let_def)
  have le: "er_ts (fst y) \<le> er_ts (fst x)" if "x \<in> set ?feed" "y \<in> set ?feed" "er_ledger (fst y) \<le> er_ledger (fst x)" for x y
    using that(1,2) tradeBranches_events assms(3) [OF _ _ that(3)] unfolding set_newestFirst by blast
  have sorted: "sorted_wrt (\<lambda>x y. er_ts (fst y) \<le> er_ts (fst x)) ?feed"
    using newestFirst_sorted [of fst "tradeBranches market q evs"] by (rule sorted_wrt_mono_rel [rotated]) (rule le)
  then have parts: "sorted_wrt (\<lambda>x y. er_ts (fst y) \<le> er_ts (fst x)) (take ?n ?feed)"
    "\<And>x y. x \<in> set (take ?n ?feed) \<Longrightarrow> y \<in> set (drop ?n ?feed) \<Longrightarrow> er_ts (fst y) \<le> er_ts (fst x)"
    using sorted_wrt_append [of "\<lambda>x y. er_ts (fst y) \<le> er_ts (fst x)" "take ?n ?feed" "drop ?n ?feed"] by auto
  have "filter (\<lambda>r. er_ts (fst r) < ?t) (take ?n ?feed) = []"
  proof -
    have "?t \<le> er_ts (fst x)" if "x \<in> set (take ?n ?feed)" for x
      using sorted_wrt_last [OF parts(1) that] unfolding t by auto
    then show ?thesis by (force simp: filter_empty_conv)
  qed
  moreover have "filter (\<lambda>r. er_ts (fst r) < ?t) (drop ?n ?feed) = filter (\<lambda>r. er_ts (fst r) \<noteq> ?t) (drop ?n ?feed)"
    using parts(2) nonempty unfolding t by (intro filter_cong refl) (metis last_in_set order_less_le)
  ultimately have "filter (\<lambda>r. er_ts (fst r) < ?t) ?feed = filter (\<lambda>r. er_ts (fst r) \<noteq> ?t) (drop (length page) ?feed)"
    by (metis append_Nil append_take_drop_id drop_len filter_append)
  then show ?thesis
    using page take_len assms(1) by (simp add: recentTrades_def ifMissing_def tradeBranches_before [OF assms(2)] newestFirst_filter)
qed

text \<open>The server reads back exactly the market ids the service bound, whatever characters they hold: no id can add an
  element or end the literal.\<close>

theorem pg_array_reads_back: "readPgArray (toPgTextArrayLiteral ids) = Some ids"
proof (cases ids)
  case (Cons i rest)
  have "joinComma (map quotedId ids) @ ''}'' \<noteq> ''}''" using Cons by (cases rest) (auto simp: quotedId_def)
  then show ?thesis using readElements_quoted [of ids] Cons by (simp add: readPgArray_def toPgTextArrayLiteral_def)
qed (simp add: readPgArray_def toPgTextArrayLiteral_def)

section \<open>Witnesses\<close>

definition noPayload :: payload where
  "noPayload = \<lparr>pl_trader = None, pl_positionId = None, pl_asset = None, pl_direction = None, pl_size = None, pl_pnl = None,
     pl_entryPrice = None, pl_closePrice = None, pl_price = None, pl_totalPnl = None, pl_orderId = None, pl_triggerPrice = None\<rparr>"

definition crossLiqNo :: "nat \<Rightarrow> event_row" where
  "crossLiqNo i = \<lparr>er_id = replicate i CHR ''x'', er_contract = ''CM'', er_topic = ''cross_liq'', er_ledger = 51, er_ts = 600, er_txHash = ''t'',
     er_payload = noPayload\<lparr>pl_totalPnl := Some (- int i)\<rparr>\<rparr>"

definition threeLiquidations :: stats_db where
  "threeLiquidations = \<lparr>sd_events = Some (map crossLiqNo [1, 2, 3]), sd_legacy = None, sd_positions = None, sd_badDebt = None,
     sd_candles = None, sd_cursor = None, sd_down = False\<rparr>"

definition firstTwo :: trade_query where
  "firstTwo = \<lparr>tq_trader = None, tq_asset = None, tq_beforeTs = None, tq_limit = Some 2, tq_includeOpens = False\<rparr>"

theorem trades_page_witness:
  "recentTrades ''CM'' threeLiquidations (firstTwo\<lparr>tq_beforeTs := Some 600\<rparr>) = Inr []
   \<and> map fst (newestFirst fst (tradeBranches ''CM'' firstTwo (map crossLiqNo [1, 2, 3]))) = map crossLiqNo [3, 2, 1]"
proof -
  let ?feed = "newestFirst fst (tradeBranches ''CM'' firstTwo (map crossLiqNo [1, 2, 3]))"
  have feed: "?feed = map (\<lambda>i. (crossLiqNo i, None)) [3, 2, 1]" by code_simp
  have page: "recentTrades ''CM'' threeLiquidations firstTwo = Inr (map (\<lambda>i. mapRealizedRow (crossLiqNo i, None)) [3, 2])" by code_simp
  have ts: "tr_ts (mapRealizedRow (crossLiqNo i, None)) = 600" for i by (simp add: mapRealizedRow_def crossLiqNo_def Let_def)
  have db: "fromTable threeLiquidations (sd_events threeLiquidations) = Inr (map crossLiqNo [1, 2, 3])" by (simp add: fromTable_def threeLiquidations_def)
  have mono: "\<And>e e'. e \<in> set (map crossLiqNo [1, 2, 3]) \<Longrightarrow> e' \<in> set (map crossLiqNo [1, 2, 3]) \<Longrightarrow> er_ledger e \<le> er_ledger e' \<Longrightarrow> er_ts e \<le> er_ts e'"
    by (auto simp: crossLiqNo_def)
  have first: "tq_beforeTs firstTwo = None" by (simp add: firstTwo_def)
  show ?thesis using trades_page_skips [OF db first mono page] unfolding feed by (simp add: ts comp_def) (simp add: crossLiqNo_def)
qed

end
