(* ===== verification/ApiBoard.thy ===== *)
theory ApiBoard
  imports ApiStats
begin

text \<open>
  The leaderboard (\<open>api/src/services/stats.ts\<close>): the ranking statement, the totals, and the snapshots behind the pages, over
  the cache of \<open>cache.ts\<close>. A request that misses the cache waits twice, for the cursor and for the ranking, so requests
  interleave; each of its statements sees the database of its own moment.
\<close>

section \<open>Definitions: the ranking statement\<close>

datatype board_sort = ByPnl | ByVolume

record leg =
  lg_trader :: "string option"
  lg_pnl :: int
  lg_volume :: int
  lg_trades :: nat
  lg_liqs :: nat

record leader_entry =
  le_rank :: nat
  le_trader :: string
  le_pnl :: int
  le_volume :: int
  le_trades :: nat
  le_liqCount :: nat

definition scopedEvents :: "string list \<Rightarrow> event_row list \<Rightarrow> event_row list" where
  "scopedEvents markets evs = filter (\<lambda>e. er_contract e \<in> set markets) evs"

definition closeVolume :: "event_row \<Rightarrow> event_row option \<Rightarrow> int" where
  "closeVolume c o' = (case pl_size (er_payload c) of
      Some n \<Rightarrow> n
    | None \<Rightarrow> (case o' of None \<Rightarrow> 0 | Some e \<Rightarrow> orZero (pl_size (er_payload e))))"

definition LIQUIDATION_TOPICS :: "string list" where
  "LIQUIDATION_TOPICS = [''position_liquidated'', ''position_partial_liq'', ''cross_liq'']"

definition pnlLegs :: "event_row list \<Rightarrow> leg list" where
  "pnlLegs evs = map (\<lambda>c. \<lparr>lg_trader = pl_trader (er_payload c), lg_pnl = orZero (pl_pnl (er_payload c)), lg_volume = 0, lg_trades = 0, lg_liqs = 0\<rparr>)
     (filter (\<lambda>e. er_topic e = ''position_closed'') evs)"

definition openLegs :: "event_row list \<Rightarrow> leg list" where
  "openLegs evs = map (\<lambda>c. \<lparr>lg_trader = pl_trader (er_payload c), lg_pnl = 0, lg_volume = orZero (pl_size (er_payload c)), lg_trades = 1, lg_liqs = 0\<rparr>)
     (filter (\<lambda>e. er_topic e = ''position_opened'') evs)"

definition closeLegs :: "event_row list \<Rightarrow> leg list" where
  "closeLegs evs = concat (map (\<lambda>c. map (\<lambda>o'. \<lparr>lg_trader = pl_trader (er_payload c), lg_pnl = 0, lg_volume = closeVolume c o', lg_trades = 0, lg_liqs = 0\<rparr>)
       (leftJoinOpens evs c)) (filter (\<lambda>e. er_topic e = ''position_closed'') evs))"

definition liqLegs :: "event_row list \<Rightarrow> leg list" where
  "liqLegs evs = map (\<lambda>c. \<lparr>lg_trader = pl_trader (er_payload c), lg_pnl = 0, lg_volume = 0, lg_trades = 0, lg_liqs = 1\<rparr>)
     (filter (\<lambda>e. er_topic e \<in> set LIQUIDATION_TOPICS) evs)"

definition legacyLegs :: "string option \<Rightarrow> legacy_row list \<Rightarrow> leg list" where
  "legacyLegs k rows = map (\<lambda>r. \<lparr>lg_trader = Some (lr_address r), lg_pnl = lr_pnl r, lg_volume = lr_volume r, lg_trades = lr_trades r, lg_liqs = lr_liqs r\<rparr>)
     (filter (\<lambda>r. sqlEq k (Some (lr_scope r))) rows)"

definition boardLegs :: "event_row list \<Rightarrow> leg list" where
  "boardLegs evs = pnlLegs evs @ openLegs evs @ closeLegs evs @ liqLegs evs"

text \<open>\<open>WHERE trader IS NOT NULL AND trader <> '' GROUP BY trader\<close>.\<close>

definition tradersOf :: "leg list \<Rightarrow> string list" where
  "tradersOf legs = remdups (filter (\<lambda>t. t \<noteq> []) (List.map_filter lg_trader legs))"

definition foldTrader :: "leg list \<Rightarrow> string \<Rightarrow> leader_entry" where
  "foldTrader legs t =
     (let mine = filter (\<lambda>l. lg_trader l = Some t) legs
      in \<lparr>le_rank = 0, le_trader = t, le_pnl = sum_list (map lg_pnl mine), le_volume = sum_list (map lg_volume mine),
          le_trades = sum_list (map lg_trades mine), le_liqCount = sum_list (map lg_liqs mine)\<rparr>)"

text \<open>\<open>ORDER BY metric DESC, secondary DESC, trader ASC\<close>.\<close>

definition rankKey :: "board_sort \<Rightarrow> leader_entry \<Rightarrow> int \<times> int \<times> string" where
  "rankKey srt e = (case srt of
      ByPnl \<Rightarrow> (- le_pnl e, - le_volume e, le_trader e)
    | ByVolume \<Rightarrow> (- le_volume e, - le_pnl e, le_trader e))"

definition rankLegs :: "board_sort \<Rightarrow> leg list \<Rightarrow> leader_entry list" where
  "rankLegs srt legs = map (\<lambda>(i, e). e\<lparr>le_rank := i\<rparr>) (enumerate 1 (sort_key (rankKey srt) (map (foldTrader legs) (tradersOf legs))))"

definition execRankedBoard :: "stats_db \<Rightarrow> deployment_scope \<Rightarrow> board_sort \<Rightarrow> bool \<Rightarrow> db_fault + leader_entry list" where
  "execRankedBoard d scope srt withLegacy =
     (case fromTable d (sd_events d) of
        Inl e \<Rightarrow> Inl e
      | Inr evs \<Rightarrow>
          (let legs = boardLegs (scopedEvents (ds_marketIds scope) evs)
           in if \<not> withLegacy then Inr (rankLegs srt legs)
              else (case fromTable d (sd_legacy d) of
                      Inl e \<Rightarrow> Inl e
                    | Inr rows \<Rightarrow> Inr (rankLegs srt (legs @ legacyLegs (ds_legacyScopeKey scope) rows)))))"

text \<open>The second statement of a call sees a later database.\<close>

definition queryRankedBoard :: "stats_db \<Rightarrow> stats_db \<Rightarrow> deployment_scope \<Rightarrow> board_sort \<Rightarrow> db_fault + leader_entry list" where
  "queryRankedBoard d d' scope srt =
     (let withLegacy = (ds_legacyScopeKey scope \<noteq> None)
      in case execRankedBoard d scope srt withLegacy of
           Inl NoTable \<Rightarrow> if \<not> withLegacy then Inr [] else ifMissing [] (execRankedBoard d' scope srt False)
         | r \<Rightarrow> r)"

section \<open>Definitions: totals\<close>

datatype board_state_kind = BoardOk | BoardEmpty | NotIndexedHere

record board_totals =
  bt_scope :: scope_id
  bt_network :: scope_network
  bt_state :: board_state_kind
  bt_updatedAt :: "int option"
  bt_traders :: nat
  bt_volume :: int
  bt_trades :: nat

record poll_position =
  pp_ledger :: int
  pp_updatedAt :: "int option"

definition pollCursor :: "stats_db \<Rightarrow> db_fault + poll_position" where
  "pollCursor d =
     ifMissing \<lparr>pp_ledger = 0, pp_updatedAt = None\<rparr>
       (map_sum id (\<lambda>row. case row of
            None \<Rightarrow> \<lparr>pp_ledger = 0, pp_updatedAt = None\<rparr>
          | Some (ledger, ms) \<Rightarrow> \<lparr>pp_ledger = (if ledger > 0 then ledger else 0), pp_updatedAt = (if ms > 0 then Some (ms div 1000) else None)\<rparr>)
        (fromTable d (sd_cursor d)))"

definition finishTotals :: "deployment_scope \<Rightarrow> string list \<Rightarrow> int \<Rightarrow> nat \<Rightarrow> board_totals" where
  "finishTotals scope traders volume trades =
     \<lparr>bt_scope = ds_id scope, bt_network = ds_network scope, bt_state = (if traders = [] then BoardEmpty else BoardOk), bt_updatedAt = None,
      bt_traders = length traders, bt_volume = volume, bt_trades = trades\<rparr>"

definition BOARD_TOPICS :: "string list" where
  "BOARD_TOPICS = [''position_opened'', ''position_closed'', ''position_liquidated'', ''position_partial_liq'', ''cross_liq'']"

text \<open>The three aggregates over the scope's events. The joins range over the whole table, correlated by contract.\<close>

definition opensAggregate :: "string list \<Rightarrow> event_row list \<Rightarrow> nat \<times> int" where
  "opensAggregate markets evs =
     (let rows = filter (\<lambda>e. er_topic e = ''position_opened'' \<and> er_contract e \<in> set markets) evs in (length rows, sumSizes rows))"

definition closesAggregate :: "string list \<Rightarrow> event_row list \<Rightarrow> int" where
  "closesAggregate markets evs =
     sum_list (concat (map (\<lambda>c. map (closeVolume c) (leftJoinOpens evs c))
       (filter (\<lambda>e. er_topic e = ''position_closed'' \<and> er_contract e \<in> set markets) evs)))"

definition tradersAggregate :: "string list \<Rightarrow> event_row list \<Rightarrow> string option list" where
  "tradersAggregate markets evs =
     remdups (map (\<lambda>e. pl_trader (er_payload e)) (filter (\<lambda>e. er_contract e \<in> set markets \<and> er_topic e \<in> set BOARD_TOPICS) evs))"

definition addTrader :: "string option \<Rightarrow> string list \<Rightarrow> string list" where
  "addTrader t ts = (case t of None \<Rightarrow> ts | Some a \<Rightarrow> if a = [] then ts else sadd a ts)"

definition addLegacy :: "legacy_row \<Rightarrow> string list \<times> int \<times> nat \<Rightarrow> string list \<times> int \<times> nat" where
  "addLegacy r acc = (case acc of (ts, v, n) \<Rightarrow>
     if lr_address r = [] then acc else (sadd (lr_address r) ts, v + lr_volume r, n + lr_trades r))"

definition computeLeaderboardTotals :: "(nat \<Rightarrow> stats_db) \<Rightarrow> deployment_scope \<Rightarrow> db_fault + board_totals" where
  "computeLeaderboardTotals D scope =
     (let m = ds_marketIds scope;
          evs = (\<lambda>k. fromTable (D k) (sd_events (D k)));
          rest = (\<lambda>ts v n.
            case (case ds_legacyScopeKey scope of
                    None \<Rightarrow> Inr (ts, v, n)
                  | Some k \<Rightarrow> ifMissing (ts, v, n) (map_sum id (\<lambda>rows. fold addLegacy (filter (\<lambda>r. lr_scope r = k) rows) (ts, v, n))
                      (fromTable (D 3) (sd_legacy (D 3))))) of
              Inl e \<Rightarrow> Inl e
            | Inr (ts, v, n) \<Rightarrow>
                map_sum id (\<lambda>c. (finishTotals scope ts v n)\<lparr>bt_updatedAt := pp_updatedAt c\<rparr>) (pollCursor (D 4)))
      in case evs 0 of
           Inl NoTable \<Rightarrow> Inr (finishTotals scope [] 0 0)
         | Inl e \<Rightarrow> Inl e
         | Inr evs0 \<Rightarrow> (case opensAggregate m evs0 of (n, v) \<Rightarrow>
             (case evs 1 of
                Inl NoTable \<Rightarrow> Inr (finishTotals scope [] v n)
              | Inl e \<Rightarrow> Inl e
              | Inr evs1 \<Rightarrow> (let v = v + closesAggregate m evs1 in
                  (case evs 2 of
                     Inl NoTable \<Rightarrow> Inr (finishTotals scope [] v n)
                   | Inl e \<Rightarrow> Inl e
                   | Inr evs2 \<Rightarrow> rest (fold addTrader (tradersAggregate m evs2) []) v n)))))"

section \<open>Definitions: the cache\<close>

type_synonym 'v ttl_cache = "(string, 'v \<times> int) jmap"

definition ttlGet :: "string \<Rightarrow> int \<Rightarrow> 'v ttl_cache \<Rightarrow> 'v ttl_cache \<times> 'v option" where
  "ttlGet key now m =
     (case map_of m key of
        None \<Rightarrow> (m, None)
      | Some (v, expires) \<Rightarrow> if expires \<le> now then (jdel key m, None) else (m, Some v))"

definition ttlSet :: "int \<Rightarrow> string \<Rightarrow> 'v \<Rightarrow> int \<Rightarrow> 'v ttl_cache \<Rightarrow> 'v ttl_cache" where
  "ttlSet ttl key v now m = jset key (v, now + ttl) m"

section \<open>Definitions: snapshots and pages\<close>

definition LEADERBOARD_TTL_MS :: int where "LEADERBOARD_TTL_MS = 20000"
definition DEFAULT_LEADERBOARD_LIMIT :: int where "DEFAULT_LEADERBOARD_LIMIT = 20"
definition MAX_LEADERBOARD_LIMIT :: int where "MAX_LEADERBOARD_LIMIT = 200"
definition SNAPSHOT_HISTORY_DEPTH :: nat where "SNAPSHOT_HISTORY_DEPTH = 2"

record board_snapshot =
  sn_id :: string
  sn_computedAt :: int
  sn_cursorLedger :: int
  sn_updatedAt :: "int option"
  sn_total :: nat
  sn_rows :: "leader_entry list"

record leader_page =
  lp_scope :: scope_id
  lp_network :: scope_network
  lp_state :: board_state_kind
  lp_sort :: board_sort
  lp_updatedAt :: "int option"
  lp_total :: nat
  lp_limit :: nat
  lp_offset :: nat
  lp_snapshot :: string
  lp_snapshotChanged :: bool
  lp_leaders :: "leader_entry list"

record trader_rank =
  tk_scope :: scope_id
  tk_network :: scope_network
  tk_state :: board_state_kind
  tk_sort :: board_sort
  tk_trader :: string
  tk_rank :: "nat option"
  tk_total :: nat
  tk_snapshot :: string
  tk_updatedAt :: "int option"
  tk_entry :: "leader_entry option"

text \<open>A request for a page or for one trader's rank, with the query as the caller gave it.\<close>

record board_query =
  bq_trader :: "string option"
  bq_scope :: "string option"
  bq_sort :: "string option"
  bq_limit :: "int option"
  bq_offset :: "int option"
  bq_snapshot :: "string option"

record board_config =
  bc_env :: environment
  bc_manifest :: "manifest option"
  bc_market :: string
  bc_network :: string

definition scopeName :: "scope_id \<Rightarrow> string" where
  "scopeName i = (case i of Testnet \<Rightarrow> ''testnet'' | Mainnet \<Rightarrow> ''mainnet'')"

definition sortName :: "board_sort \<Rightarrow> string" where
  "sortName srt = (case srt of ByPnl \<Rightarrow> ''pnl'' | ByVolume \<Rightarrow> ''volume'')"

definition sortOf :: "string option \<Rightarrow> board_sort" where
  "sortOf s = (if s = Some ''volume'' then ByVolume else ByPnl)"

definition requestScope :: "board_config \<Rightarrow> string option \<Rightarrow> string + deployment_scope" where
  "requestScope cfg i =
     (case i of
        None \<Rightarrow> scopeFromEnv (bc_env cfg) (bc_manifest cfg) (bc_market cfg)
      | Some x \<Rightarrow> (case resolveScope (bc_env cfg) (bc_manifest cfg) (bc_market cfg) x of
            None \<Rightarrow> Inl (''Unknown leaderboard scope: '' @ x)
          | Some scope \<Rightarrow> Inr scope))"

definition boardKey :: "deployment_scope \<Rightarrow> board_sort \<Rightarrow> string" where
  "boardKey scope srt = scopeName (ds_id scope) @ ''.'' @ sortName srt"

definition snapshotId :: "deployment_scope \<Rightarrow> board_sort \<Rightarrow> int \<Rightarrow> nat \<Rightarrow> string" where
  "snapshotId scope srt ledger n = boardKey scope srt @ ''.'' @ show_nat (nat ledger) @ ''.'' @ show_nat n"

datatype board_answer = PageAnswer leader_page | RankAnswer trader_rank | BadScope string | BoardFailed db_fault

text \<open>What \<open>computeSnapshot\<close> makes of the cursor and the rows; an empty venue is not scanned.\<close>

definition boardRows :: "stats_db \<Rightarrow> stats_db \<Rightarrow> deployment_scope \<Rightarrow> board_sort \<Rightarrow> db_fault + leader_entry list" where
  "boardRows d d' scope srt = (if ds_marketIds scope = [] \<and> ds_legacyScopeKey scope = None then Inr [] else queryRankedBoard d d' scope srt)"

definition makeSnapshot :: "deployment_scope \<Rightarrow> board_sort \<Rightarrow> poll_position \<Rightarrow> leader_entry list \<Rightarrow> int \<Rightarrow> board_snapshot" where
  "makeSnapshot scope srt cursor rows now =
     \<lparr>sn_id = snapshotId scope srt (pp_ledger cursor) (length rows), sn_computedAt = now, sn_cursorLedger = pp_ledger cursor,
      sn_updatedAt = pp_updatedAt cursor, sn_total = length rows, sn_rows = rows\<rparr>"

text \<open>The service: cache, history, the requests under way, the answers given. \<open>bo_computed\<close> is not in the code: every
  snapshot computed so far, with its key.\<close>

datatype load_phase = AwaitCursor | AwaitBoard poll_position

record board_service =
  bo_cache :: "board_snapshot ttl_cache"
  bo_history :: "(string, board_snapshot list) jmap"
  bo_loads :: "(nat, board_query \<times> deployment_scope \<times> load_phase) jmap"
  bo_answers :: "(nat \<times> board_answer) list"
  bo_computed :: "(string \<times> board_snapshot) list"

definition freshBoard :: board_service where
  "freshBoard = \<lparr>bo_cache = [], bo_history = [], bo_loads = [], bo_answers = [], bo_computed = []\<rparr>"

definition pushHistory :: "board_snapshot \<Rightarrow> board_snapshot list \<Rightarrow> board_snapshot list" where
  "pushHistory snap h =
     (case h of
        [] \<Rightarrow> [snap]
      | s # rest \<Rightarrow> if sn_id s \<noteq> sn_id snap then take SNAPSHOT_HISTORY_DEPTH (snap # h) else snap # rest)"

definition snapshotFor :: "string \<Rightarrow> string option \<Rightarrow> board_snapshot \<Rightarrow> board_service \<Rightarrow> board_snapshot \<times> bool" where
  "snapshotFor key requested current s =
     (if \<not> isGiven requested \<or> requested = Some (sn_id current) then (current, False)
      else (case find (\<lambda>h. Some (sn_id h) = requested) (jget_or (bo_history s) key []) of
              Some held \<Rightarrow> (held, False)
            | None \<Rightarrow> (current, True)))"

definition pageLimit :: "board_query \<Rightarrow> nat" where
  "pageLimit q = clampLimit MAX_LEADERBOARD_LIMIT (bq_limit q) DEFAULT_LEADERBOARD_LIMIT"

definition pageOffset :: "board_query \<Rightarrow> nat" where
  "pageOffset q = (case bq_offset q of None \<Rightarrow> 0 | Some n \<Rightarrow> nat n)"

definition emptyOrOk :: "board_snapshot \<Rightarrow> board_state_kind" where
  "emptyOrOk snap = (if sn_total snap = 0 then BoardEmpty else BoardOk)"

text \<open>The rest of \<open>leaderboardPage\<close> and \<open>leaderboardRank\<close> once the current snapshot is there.\<close>

definition serveBoard :: "board_query \<Rightarrow> deployment_scope \<Rightarrow> board_snapshot \<Rightarrow> board_service \<Rightarrow> board_answer" where
  "serveBoard q scope current s =
     (let srt = sortOf (bq_sort q)
      in case bq_trader q of
           None \<Rightarrow>
             (case snapshotFor (boardKey scope srt) (bq_snapshot q) current s of (snap, changed) \<Rightarrow>
                PageAnswer \<lparr>lp_scope = ds_id scope, lp_network = ds_network scope, lp_state = emptyOrOk snap, lp_sort = srt,
                  lp_updatedAt = sn_updatedAt snap, lp_total = sn_total snap, lp_limit = pageLimit q, lp_offset = pageOffset q,
                  lp_snapshot = sn_id snap, lp_snapshotChanged = changed, lp_leaders = take (pageLimit q) (drop (pageOffset q) (sn_rows snap))\<rparr>)
         | Some trader \<Rightarrow>
             (let entry = find (\<lambda>r. le_trader r = trader) (sn_rows current)
              in RankAnswer \<lparr>tk_scope = ds_id scope, tk_network = ds_network scope, tk_state = emptyOrOk current, tk_sort = srt, tk_trader = trader,
                   tk_rank = map_option le_rank entry, tk_total = sn_total current, tk_snapshot = sn_id current,
                   tk_updatedAt = sn_updatedAt current, tk_entry = entry\<rparr>))"

definition notIndexed :: "board_query \<Rightarrow> deployment_scope \<Rightarrow> board_answer" where
  "notIndexed q scope =
     (let srt = sortOf (bq_sort q)
      in case bq_trader q of
           None \<Rightarrow> PageAnswer \<lparr>lp_scope = ds_id scope, lp_network = ds_network scope, lp_state = NotIndexedHere, lp_sort = srt,
             lp_updatedAt = None, lp_total = 0, lp_limit = pageLimit q, lp_offset = pageOffset q, lp_snapshot = [],
             lp_snapshotChanged = False, lp_leaders = []\<rparr>
         | Some trader \<Rightarrow> RankAnswer \<lparr>tk_scope = ds_id scope, tk_network = ds_network scope, tk_state = NotIndexedHere, tk_sort = srt,
             tk_trader = trader, tk_rank = None, tk_total = 0, tk_snapshot = [], tk_updatedAt = None, tk_entry = None\<rparr>)"

definition answerWith :: "nat \<Rightarrow> board_answer \<Rightarrow> board_service \<Rightarrow> board_service" where
  "answerWith i a s = s\<lparr>bo_answers := bo_answers s @ [(i, a)], bo_loads := jdel i (bo_loads s)\<rparr>"

definition startBoard :: "board_config \<Rightarrow> nat \<Rightarrow> board_query \<Rightarrow> int \<Rightarrow> board_service \<Rightarrow> board_service" where
  "startBoard cfg i q now s =
     (case requestScope cfg (bq_scope q) of
        Inl e \<Rightarrow> answerWith i (BadScope e) s
      | Inr scope \<Rightarrow>
          if \<not> scopeServedByNetwork scope (bc_network cfg) then answerWith i (notIndexed q scope) s
          else (case ttlGet (boardKey scope (sortOf (bq_sort q))) now (bo_cache s) of (m, hit) \<Rightarrow>
            (let s = s\<lparr>bo_cache := m\<rparr>
             in case hit of
                  Some snap \<Rightarrow> answerWith i (serveBoard q scope snap s) s
                | None \<Rightarrow> s\<lparr>bo_loads := jset i (q, scope, AwaitCursor) (bo_loads s)\<rparr>)))"

definition cursorAnswered :: "nat \<Rightarrow> stats_db \<Rightarrow> board_service \<Rightarrow> board_service" where
  "cursorAnswered i d s =
     (case map_of (bo_loads s) i of
        Some (q, scope, AwaitCursor) \<Rightarrow>
          (case pollCursor d of
             Inl e \<Rightarrow> answerWith i (BoardFailed e) s
           | Inr c \<Rightarrow> s\<lparr>bo_loads := jset i (q, scope, AwaitBoard c) (bo_loads s)\<rparr>)
      | _ \<Rightarrow> s)"

definition boardAnswered :: "nat \<Rightarrow> stats_db \<Rightarrow> stats_db \<Rightarrow> int \<Rightarrow> board_service \<Rightarrow> board_service" where
  "boardAnswered i d d' now s =
     (case map_of (bo_loads s) i of
        Some (q, scope, AwaitBoard c) \<Rightarrow>
          (let srt = sortOf (bq_sort q); key = boardKey scope srt
           in case boardRows d d' scope srt of
                Inl e \<Rightarrow> answerWith i (BoardFailed e) s
              | Inr rows \<Rightarrow>
                  (let snap = makeSnapshot scope srt c rows now;
                       s = s\<lparr>bo_computed := bo_computed s @ [(key, snap)],
                             bo_history := jset key (pushHistory snap (jget_or (bo_history s) key [])) (bo_history s),
                             bo_cache := ttlSet LEADERBOARD_TTL_MS key snap now (bo_cache s)\<rparr>
                   in answerWith i (serveBoard q scope snap s) s))
      | _ \<Rightarrow> s)"

datatype board_event = AskBoard nat board_query int | CursorIn nat stats_db | BoardIn nat stats_db stats_db int

definition boardStep :: "board_config \<Rightarrow> board_event \<Rightarrow> board_service \<Rightarrow> board_service" where
  "boardStep cfg ev s =
     (case ev of
        AskBoard i q now \<Rightarrow> startBoard cfg i q now s
      | CursorIn i d \<Rightarrow> cursorAnswered i d s
      | BoardIn i d d' now \<Rightarrow> boardAnswered i d d' now s)"

definition boardRun :: "board_config \<Rightarrow> board_event list \<Rightarrow> board_service" where
  "boardRun cfg evs = fold (boardStep cfg) evs freshBoard"

definition leaderboardTotals :: "board_config \<Rightarrow> string option \<Rightarrow> (nat \<Rightarrow> stats_db) \<Rightarrow> int \<Rightarrow> int \<Rightarrow> board_totals ttl_cache
    \<Rightarrow> board_totals ttl_cache \<times> (string + (db_fault + board_totals))" where
  "leaderboardTotals cfg i D now later cache =
     (case requestScope cfg i of
        Inl e \<Rightarrow> (cache, Inl e)
      | Inr scope \<Rightarrow>
          if \<not> scopeServedByNetwork scope (bc_network cfg)
          then (cache, Inr (Inr \<lparr>bt_scope = ds_id scope, bt_network = ds_network scope, bt_state = NotIndexedHere, bt_updatedAt = None,
                  bt_traders = 0, bt_volume = 0, bt_trades = 0\<rparr>))
          else (let key = ''totals:'' @ scopeName (ds_id scope)
                in case ttlGet key now cache of
                     (m, Some t) \<Rightarrow> (m, Inr (Inr t))
                   | (m, None) \<Rightarrow>
                       (case computeLeaderboardTotals D scope of
                          Inl e \<Rightarrow> (m, Inr (Inl e))
                        | Inr t \<Rightarrow> (ttlSet LEADERBOARD_TTL_MS key t later m, Inr (Inr t)))))"

section \<open>Lemmas: the ranking\<close>

lemma sum_filter_split:
  fixes f :: "'a \<Rightarrow> 'b::comm_monoid_add"
  assumes "\<And>x. x \<in> set xs \<Longrightarrow> \<not> (P x \<and> Q x)"
  shows "sum_list (map f (filter (\<lambda>x. P x \<or> Q x) xs)) = sum_list (map f (filter P xs)) + sum_list (map f (filter Q xs))"
  using assms by (induction xs) (auto simp: ac_simps)

lemma sum_by_trader:
  fixes f :: "leg \<Rightarrow> 'b::comm_monoid_add"
  assumes "distinct ts"
  shows "sum_list (map (\<lambda>t. sum_list (map f (filter (\<lambda>l. lg_trader l = Some t) legs))) ts)
     = sum_list (map f (filter (\<lambda>l. lg_trader l \<in> Some ` set ts) legs))"
  using assms
proof (induction ts)
  case (Cons t ts)
  have "sum_list (map f (filter (\<lambda>l. lg_trader l = Some t \<or> lg_trader l \<in> Some ` set ts) legs))
      = sum_list (map f (filter (\<lambda>l. lg_trader l = Some t) legs)) + sum_list (map f (filter (\<lambda>l. lg_trader l \<in> Some ` set ts) legs))"
    using Cons.prems by (intro sum_filter_split) auto
  then show ?case using Cons by simp
qed simp

lemma set_tradersOf: "set (tradersOf legs) = {t. t \<noteq> [] \<and> Some t \<in> lg_trader ` set legs}"
proof -
  have "set (List.map_filter lg_trader legs) = {t. Some t \<in> lg_trader ` set legs}"
    by (induction legs) (auto simp: map_filter_simps image_iff split: option.splits)
  then show ?thesis by (auto simp: tradersOf_def)
qed

lemma distinct_tradersOf [simp]: "distinct (tradersOf legs)"
  by (simp add: tradersOf_def)

definition namedLeg :: "leg \<Rightarrow> bool" where
  "namedLeg l \<longleftrightarrow> isGiven (lg_trader l)"

lemma isGiven_iff: "isGiven s \<longleftrightarrow> (\<exists>t. s = Some t \<and> t \<noteq> [])"
  by (auto simp: isGiven_def split: option.splits)

lemma in_traders_iff: "l \<in> set legs \<Longrightarrow> lg_trader l \<in> Some ` set (tradersOf legs) \<longleftrightarrow> namedLeg l"
  by (force simp: set_tradersOf namedLeg_def isGiven_iff image_iff)

lemma foldTrader_rank [simp]: "le_rank (foldTrader legs t) = 0" "le_trader (foldTrader legs t) = t"
  by (simp_all add: foldTrader_def Let_def)

lemma number_drop: "\<forall>e \<in> set xs. le_rank e = 0 \<Longrightarrow> map (\<lambda>e. e\<lparr>le_rank := 0\<rparr>) (map (\<lambda>(i, e). e\<lparr>le_rank := i\<rparr>) (enumerate n xs)) = xs"
  by (induction xs arbitrary: n) auto

lemma number_ranks: "map le_rank (map (\<lambda>(i, e). e\<lparr>le_rank := i\<rparr>) (enumerate n xs)) = [n..<n + length xs]"
  by (induction xs arbitrary: n) (auto simp: upt_rec)

lemma rankLegs_drop_rank:
  "map (\<lambda>e. e\<lparr>le_rank := 0\<rparr>) (rankLegs srt legs) = sort_key (rankKey srt) (map (foldTrader legs) (tradersOf legs))"
  unfolding rankLegs_def by (rule number_drop) auto

lemma row_folds:
  assumes "e \<in> set (rankLegs srt legs)"
  shows "e\<lparr>le_rank := 0\<rparr> = foldTrader legs (le_trader e)"
proof -
  have "e\<lparr>le_rank := 0\<rparr> \<in> set (map (\<lambda>e. e\<lparr>le_rank := 0\<rparr>) (rankLegs srt legs))" using assms by simp
  then obtain t where t: "e\<lparr>le_rank := 0\<rparr> = foldTrader legs t" unfolding rankLegs_drop_rank by auto
  from arg_cong [where f = le_trader, OF this] have "le_trader e = t" by simp
  then show ?thesis using t by simp
qed

lemma rank_forget:
  assumes "\<And>e n. f (e\<lparr>le_rank := n\<rparr>) = f e"
  shows "map f (rankLegs srt legs) = map f (sort_key (rankKey srt) (map (foldTrader legs) (tradersOf legs)))"
proof -
  have "map f (rankLegs srt legs) = map f (map (\<lambda>e. e\<lparr>le_rank := 0\<rparr>) (rankLegs srt legs))" using assms by simp
  then show ?thesis by (simp only: rankLegs_drop_rank)
qed

lemma length_rankLegs [simp]: "length (rankLegs srt legs) = length (tradersOf legs)"
  by (simp add: rankLegs_def)

lemma ranks_rankLegs: "map le_rank (rankLegs srt legs) = [1..<length (rankLegs srt legs) + 1]"
  using number_ranks [of 1 "sort_key (rankKey srt) (map (foldTrader legs) (tradersOf legs))"] by (simp add: rankLegs_def)

lemma traders_rankLegs: "mset (map le_trader (rankLegs srt legs)) = mset (tradersOf legs)"
proof -
  have "mset (map le_trader (sort_key k (map (foldTrader legs) ts))) = mset ts" for k :: "leader_entry \<Rightarrow> int \<times> int \<times> string" and ts
    by (simp add: multiset.map_comp comp_def)
  moreover have "map le_trader (rankLegs srt legs) = map le_trader (sort_key (rankKey srt) (map (foldTrader legs) (tradersOf legs)))"
    by (rule rank_forget) simp
  ultimately show ?thesis by simp
qed

lemma sum_rankLegs:
  fixes f :: "leader_entry \<Rightarrow> 'b::comm_monoid_add" and g :: "leg \<Rightarrow> 'b"
  assumes "\<And>e n. f (e\<lparr>le_rank := n\<rparr>) = f e" "\<And>t. f (foldTrader legs t) = sum_list (map g (filter (\<lambda>l. lg_trader l = Some t) legs))"
  shows "sum_list (map f (rankLegs srt legs)) = sum_list (map g (filter namedLeg legs))"
proof -
  have "sum_list (map f (rankLegs srt legs)) = sum_mset (image_mset f (mset (sort_key (rankKey srt) (map (foldTrader legs) (tradersOf legs)))))"
    unfolding rank_forget [where f = f, OF assms(1)] by (metis mset_map sum_mset_sum_list)
  also have "\<dots> = sum_list (map (\<lambda>t. sum_list (map g (filter (\<lambda>l. lg_trader l = Some t) legs))) (tradersOf legs))"
    by (simp add: assms(2) multiset.map_comp comp_def flip: mset_map sum_mset_sum_list)
  also have "\<dots> = sum_list (map g (filter (\<lambda>l. lg_trader l \<in> Some ` set (tradersOf legs)) legs))"
    by (intro sum_by_trader) simp
  also have "filter (\<lambda>l. lg_trader l \<in> Some ` set (tradersOf legs)) legs = filter namedLeg legs"
    by (intro filter_cong refl in_traders_iff)
  finally show ?thesis .
qed

text \<open>Every two rows are ordered by the key, strictly.\<close>

definition ranksAbove :: "board_sort \<Rightarrow> leader_entry \<Rightarrow> leader_entry \<Rightarrow> bool" where
  "ranksAbove srt a b \<longleftrightarrow> rankKey srt a < rankKey srt b"

lemma rankKey_rank [simp]: "rankKey srt (e\<lparr>le_rank := n\<rparr>) = rankKey srt e"
  by (cases srt) (simp_all add: rankKey_def)

lemma sorted_rankLegs: "sorted_wrt (ranksAbove srt) (rankLegs srt legs)"
proof -
  have "sorted (map (rankKey srt) (rankLegs srt legs))"
    unfolding rank_forget [where f = "rankKey srt", OF rankKey_rank] by simp
  moreover have "distinct (map (rankKey srt) (rankLegs srt legs))"
  proof -
    have "distinct (map le_trader (rankLegs srt legs))"
      using traders_rankLegs [of srt legs] by (metis distinct_tradersOf mset_eq_imp_distinct_iff)
    moreover have "map le_trader (rankLegs srt legs) = map (snd \<circ> snd) (map (rankKey srt) (rankLegs srt legs))"
      by (cases srt) (simp_all add: rankKey_def)
    ultimately show ?thesis by (metis distinct_map)
  qed
  ultimately have "sorted_wrt (<) (map (rankKey srt) (rankLegs srt legs))"
    using strict_sorted_iff by blast
  then show ?thesis by (simp add: sorted_wrt_map ranksAbove_def [abs_def])
qed

section \<open>Lemmas: the totals\<close>

lemma opensOf_scoped: "er_contract c \<in> set markets \<Longrightarrow> opensOf (scopedEvents markets evs) c = opensOf evs c"
  unfolding opensOf_def scopedEvents_def filter_filter by (intro filter_cong) auto

lemma scopedD: "e \<in> set (scopedEvents markets evs) \<Longrightarrow> e \<in> set evs \<and> er_contract e \<in> set markets"
  by (simp add: scopedEvents_def)

lemma filter_scoped: "filter (\<lambda>e. P e \<and> er_contract e \<in> set markets) evs = filter P (scopedEvents markets evs)"
  by (simp add: scopedEvents_def conj_commute)

lemma closesAggregate_scoped:
  "closesAggregate markets evs = sum_list (map lg_volume (closeLegs (scopedEvents markets evs)))"
proof -
  let ?closes = "filter (\<lambda>e. er_topic e = ''position_closed'') (scopedEvents markets evs)"
  have "map (\<lambda>c. map (closeVolume c) (leftJoinOpens evs c)) ?closes
      = map (\<lambda>c. map (closeVolume c) (leftJoinOpens (scopedEvents markets evs) c)) ?closes"
    by (intro map_cong refl) (auto simp: leftJoinOpens_def opensOf_scoped dest: scopedD)
  from arg_cong [where f = "sum_list \<circ> concat", OF this] show ?thesis
    unfolding closesAggregate_def filter_scoped by (simp add: closeLegs_def map_concat comp_def)
qed

lemma sum_list_zero: "(\<And>x. x \<in> set xs \<Longrightarrow> f x = 0) \<Longrightarrow> sum_list (map f xs) = (0::'b::comm_monoid_add)"
  by (induction xs) auto

lemma volume_boardLegs: "sum_list (map lg_volume (boardLegs evs)) = snd (opensAggregate ms evs') + closesAggregate ms evs'"
  if "evs = scopedEvents ms evs'"
  unfolding closesAggregate_scoped opensAggregate_def filter_scoped that
  by (simp add: boardLegs_def sum_list_zero pnlLegs_def liqLegs_def openLegs_def sumSizes_def comp_def Let_def)

lemma trades_boardLegs: "sum_list (map lg_trades (boardLegs evs)) = fst (opensAggregate ms evs')" if "evs = scopedEvents ms evs'"
proof -
  have "sum_list (map lg_trades (closeLegs evs)) = 0" by (rule sum_list_zero) (auto simp: closeLegs_def)
  then show ?thesis
    unfolding opensAggregate_def filter_scoped that
    by (simp add: boardLegs_def sum_list_zero pnlLegs_def liqLegs_def openLegs_def comp_def sum_list_triv Let_def)
qed

lemma leftJoinOpens_nonempty [simp]: "leftJoinOpens evs c \<noteq> []"
  by (simp add: leftJoinOpens_def)

lemma traders_of_legs:
  "lg_trader ` set (pnlLegs evs) = (\<lambda>e. pl_trader (er_payload e)) ` {e \<in> set evs. er_topic e = ''position_closed''}"
  "lg_trader ` set (openLegs evs) = (\<lambda>e. pl_trader (er_payload e)) ` {e \<in> set evs. er_topic e = ''position_opened''}"
  "lg_trader ` set (closeLegs evs) = (\<lambda>e. pl_trader (er_payload e)) ` {e \<in> set evs. er_topic e = ''position_closed''}"
  "lg_trader ` set (liqLegs evs) = (\<lambda>e. pl_trader (er_payload e)) ` {e \<in> set evs. er_topic e \<in> set LIQUIDATION_TOPICS}"
  by (auto simp: pnlLegs_def openLegs_def closeLegs_def liqLegs_def image_image image_UN image_constant_conv)

lemma trader_boardLegs:
  "lg_trader ` set (boardLegs evs) = (\<lambda>e. pl_trader (er_payload e)) ` {e \<in> set evs. er_topic e \<in> set BOARD_TOPICS}"
proof -
  have "{e \<in> set evs. er_topic e \<in> set BOARD_TOPICS} = {e \<in> set evs. er_topic e = ''position_closed''}
      \<union> {e \<in> set evs. er_topic e = ''position_opened''} \<union> {e \<in> set evs. er_topic e \<in> set LIQUIDATION_TOPICS}"
    by (auto simp: BOARD_TOPICS_def LIQUIDATION_TOPICS_def)
  then show ?thesis by (simp add: boardLegs_def image_Un traders_of_legs Un_ac)
qed

lemma set_tradersAggregate:
  "set (tradersAggregate ms evs) = lg_trader ` set (boardLegs (scopedEvents ms evs))"
  unfolding trader_boardLegs by (simp add: tradersAggregate_def scopedEvents_def conj_assoc)

lemma set_fold_addTrader: "set (fold addTrader os ts) = set ts \<union> {t. t \<noteq> [] \<and> Some t \<in> set os}"
  by (induction os arbitrary: ts) (auto simp: addTrader_def split: option.splits)

lemma distinct_fold_addTrader: "distinct ts \<Longrightarrow> distinct (fold addTrader os ts)"
  by (induction os arbitrary: ts) (auto simp: addTrader_def split: option.splits)

lemma fold_addLegacy:
  "fold addLegacy rows (ts, v, n)
     = (fold addTrader (map (\<lambda>r. Some (lr_address r)) rows) ts,
        v + sum_list (map lr_volume (filter (\<lambda>r. lr_address r \<noteq> []) rows)), n + sum_list (map lr_trades (filter (\<lambda>r. lr_address r \<noteq> []) rows)))"
  by (induction rows arbitrary: ts v n) (auto simp: addLegacy_def addTrader_def)

lemma named_boardLegs:
  assumes "\<forall>e \<in> set evs. er_contract e \<in> set ms \<and> er_topic e \<in> set BOARD_TOPICS \<longrightarrow> isGiven (pl_trader (er_payload e))"
  shows "filter namedLeg (boardLegs (scopedEvents ms evs)) = boardLegs (scopedEvents ms evs)"
proof -
  have "namedLeg l" if "l \<in> set (boardLegs (scopedEvents ms evs))" for l
  proof -
    have "lg_trader l \<in> (\<lambda>e. pl_trader (er_payload e)) ` {e \<in> set (scopedEvents ms evs). er_topic e \<in> set BOARD_TOPICS}"
      using that unfolding trader_boardLegs [symmetric] by simp
    then show ?thesis using assms by (auto simp: namedLeg_def dest: scopedD)
  qed
  then show ?thesis by (simp add: filter_id_conv)
qed

lemma named_legacy:
  "filter namedLeg (legacyLegs k rows) = map (\<lambda>r. \<lparr>lg_trader = Some (lr_address r), lg_pnl = lr_pnl r, lg_volume = lr_volume r, lg_trades = lr_trades r, lg_liqs = lr_liqs r\<rparr>)
     (filter (\<lambda>r. lr_address r \<noteq> []) (filter (\<lambda>r. sqlEq k (Some (lr_scope r))) rows))"
  by (induction rows) (auto simp: legacyLegs_def namedLeg_def isGiven_def)

lemma legacy_traders: "Some t \<in> lg_trader ` set (legacyLegs k rows) \<longleftrightarrow> Some t \<in> (\<lambda>r. Some (lr_address r)) ` {r \<in> set rows. sqlEq k (Some (lr_scope r))}"
  by (auto simp: legacyLegs_def image_iff)

text \<open>Both sides of the comparison, for a scope with the given legacy legs.\<close>

lemma board_sums:
  assumes "\<forall>e \<in> set evs. er_contract e \<in> set ms \<and> er_topic e \<in> set BOARD_TOPICS \<longrightarrow> isGiven (pl_trader (er_payload e))"
    and "fold addLegacy (filter (\<lambda>r. sqlEq k (Some (lr_scope r))) rows)
       (fold addTrader (tradersAggregate ms evs) [], snd (opensAggregate ms evs) + closesAggregate ms evs, fst (opensAggregate ms evs)) = (ts, v, n)"
    and "board = rankLegs srt (boardLegs (scopedEvents ms evs) @ legacyLegs k rows)"
  shows "length ts = length board" "v = sum_list (map le_volume board)" "n = sum_list (map le_trades board)"
proof -
  let ?legs = "boardLegs (scopedEvents ms evs) @ legacyLegs k rows"
  have ts: "ts = fold addTrader (map (\<lambda>r. Some (lr_address r)) (filter (\<lambda>r. sqlEq k (Some (lr_scope r))) rows)) (fold addTrader (tradersAggregate ms evs) [])"
    using assms(2) by (simp add: fold_addLegacy)
  have "set ts = set (tradersOf ?legs)"
    unfolding ts set_fold_addTrader set_tradersOf set_tradersAggregate
    using legacy_traders [of _ k rows] by (auto simp: image_Un)
  moreover have "distinct ts" unfolding ts by (intro distinct_fold_addTrader) simp
  ultimately show "length ts = length board"
    by (metis assms(3) distinct_card distinct_tradersOf length_rankLegs)
  show "v = sum_list (map le_volume board)"
    using assms(2) unfolding assms(3)
    by (subst sum_rankLegs [where g = lg_volume])
      (simp_all add: foldTrader_def Let_def fold_addLegacy named_boardLegs [OF assms(1)] named_legacy volume_boardLegs [OF refl] comp_def)
  show "n = sum_list (map le_trades board)"
    using assms(2) unfolding assms(3)
    by (subst sum_rankLegs [where g = lg_trades])
      (simp_all add: foldTrader_def Let_def fold_addLegacy named_boardLegs [OF assms(1)] named_legacy trades_boardLegs [OF refl] comp_def)
qed

lemma board_sums_no_legacy:
  assumes "\<forall>e \<in> set evs. er_contract e \<in> set ms \<and> er_topic e \<in> set BOARD_TOPICS \<longrightarrow> isGiven (pl_trader (er_payload e))"
    and "board = rankLegs srt (boardLegs (scopedEvents ms evs))"
  shows "length (fold addTrader (tradersAggregate ms evs) []) = length board"
    "snd (opensAggregate ms evs) + closesAggregate ms evs = sum_list (map le_volume board)" "fst (opensAggregate ms evs) = sum_list (map le_trades board)"
  using board_sums [OF assms(1), of None "[]" "fold addTrader (tradersAggregate ms evs) []" _ _ board srt] assms(2)
  by (simp_all add: legacyLegs_def)

section \<open>Properties: the ranking and the totals\<close>

text \<open>C36. The headline totals are the sums of the board: over one state of the database, for every scope and sort, they count the
  board's rows and add up their volumes and trades, or both fail alike, whichever tables are missing.\<close>

theorem totals_are_board_sums:
  assumes "\<And>evs e. sd_events d = Some evs \<Longrightarrow> e \<in> set evs \<Longrightarrow> er_contract e \<in> set (ds_marketIds scope) \<Longrightarrow> er_topic e \<in> set BOARD_TOPICS
     \<Longrightarrow> isGiven (pl_trader (er_payload e))"
  shows "case (queryRankedBoard d d scope srt, computeLeaderboardTotals (\<lambda>k. d) scope) of
      (Inr board, Inr t) \<Rightarrow> bt_traders t = length board \<and> bt_volume t = sum_list (map le_volume board) \<and> bt_trades t = sum_list (map le_trades board)
    | (Inl e, Inl e') \<Rightarrow> e = e'
    | _ \<Rightarrow> False"
proof (cases "sd_down d")
  case True
  then show ?thesis
    by (simp add: queryRankedBoard_def execRankedBoard_def computeLeaderboardTotals_def fromTable_def Let_def)
next
  case False
  show ?thesis
  proof (cases "sd_events d")
    case None
    then show ?thesis using False
      by (simp add: queryRankedBoard_def execRankedBoard_def computeLeaderboardTotals_def fromTable_def Let_def ifMissing_def finishTotals_def)
  next
    case (Some evs)
    then have named: "\<forall>e \<in> set evs. er_contract e \<in> set (ds_marketIds scope) \<and> er_topic e \<in> set BOARD_TOPICS \<longrightarrow> isGiven (pl_trader (er_payload e))"
      using assms by blast
    have "\<exists>c. pollCursor d = Inr c" using False by (cases "sd_cursor d") (simp_all add: pollCursor_def fromTable_def ifMissing_def)
    then obtain c where c: "pollCursor d = Inr c" by blast
    show ?thesis
    proof (cases "ds_legacyScopeKey scope = None \<or> sd_legacy d = None")
      case True
      then show ?thesis using False Some c board_sums_no_legacy [OF named refl, of srt]
        by (auto simp: queryRankedBoard_def execRankedBoard_def computeLeaderboardTotals_def fromTable_def Let_def ifMissing_def finishTotals_def
            split: prod.split option.split)
    next
      case False
      then obtain k rows where k: "ds_legacyScopeKey scope = Some k" "sd_legacy d = Some rows" by auto
      obtain ts v n where f: "fold addLegacy (filter (\<lambda>r. sqlEq (Some k) (Some (lr_scope r))) rows)
          (fold addTrader (tradersAggregate (ds_marketIds scope) evs) [], snd (opensAggregate (ds_marketIds scope) evs) + closesAggregate (ds_marketIds scope) evs,
           fst (opensAggregate (ds_marketIds scope) evs)) = (ts, v, n)"
        by (metis prod_cases3)
      show ?thesis using \<open>\<not> sd_down d\<close> Some c k f board_sums [OF named f refl, of srt]
        by (auto simp: queryRankedBoard_def execRankedBoard_def computeLeaderboardTotals_def fromTable_def Let_def ifMissing_def finishTotals_def sqlEq_def
            split: prod.split)
    qed
  qed
qed

text \<open>The board is a strict ranking: rank \<open>i\<close> is the \<open>i\<close>-th row, every row is strictly above the next ones in the order of
  metric, other metric and name, each trader with a leg has one row, and the row adds up the trader's legs.\<close>

theorem board_is_ranked:
  assumes "execRankedBoard d scope srt withLegacy = Inr board"
  shows "\<exists>legs. map le_rank board = [1..<length board + 1] \<and> sorted_wrt (ranksAbove srt) board \<and> distinct (map le_trader board)
     \<and> (\<forall>t. t \<in> le_trader ` set board \<longleftrightarrow> t \<noteq> [] \<and> Some t \<in> lg_trader ` set legs)
     \<and> (\<forall>e \<in> set board. e\<lparr>le_rank := 0\<rparr> = foldTrader legs (le_trader e))
     \<and> (\<exists>evs. sd_events d = Some evs \<and> (legs = boardLegs (scopedEvents (ds_marketIds scope) evs)
          \<or> withLegacy \<and> (\<exists>rows. sd_legacy d = Some rows \<and> legs = boardLegs (scopedEvents (ds_marketIds scope) evs) @ legacyLegs (ds_legacyScopeKey scope) rows)))"
proof -
  obtain legs where legs: "board = rankLegs srt legs"
    "\<exists>evs. sd_events d = Some evs \<and> (legs = boardLegs (scopedEvents (ds_marketIds scope) evs)
       \<or> withLegacy \<and> (\<exists>rows. sd_legacy d = Some rows \<and> legs = boardLegs (scopedEvents (ds_marketIds scope) evs) @ legacyLegs (ds_legacyScopeKey scope) rows))"
    using assms by (auto simp: execRankedBoard_def fromTable_def Let_def split: if_split_asm option.splits)
  have "set (map le_trader board) = set (tradersOf legs)" "distinct (map le_trader board)"
    using traders_rankLegs [of srt legs] legs(1) by (metis mset_eq_setD, metis distinct_tradersOf mset_eq_imp_distinct_iff)
  moreover have "e\<lparr>le_rank := 0\<rparr> = foldTrader legs (le_trader e)" if "e \<in> set board" for e
    using that unfolding legs(1) by (rule row_folds)
  ultimately show ?thesis
    using legs sorted_rankLegs [of srt legs] ranks_rankLegs [of srt legs] by (intro exI [of _ legs]) (auto simp: set_tradersOf)
qed

section \<open>Lemmas: snapshots\<close>

definition rankedRows :: "leader_entry list \<Rightarrow> bool" where
  "rankedRows rows \<longleftrightarrow> map le_rank rows = [1..<length rows + 1] \<and> distinct (map le_trader rows)"

lemma rankedRows_rankLegs: "rankedRows (rankLegs srt legs)"
  unfolding rankedRows_def using ranks_rankLegs [of srt legs] traders_rankLegs [of srt legs] distinct_tradersOf [of legs]
  by (metis mset_eq_imp_distinct_iff)

lemma exec_ranked: "execRankedBoard d scope srt w = Inr rows \<Longrightarrow> rankedRows rows"
  by (auto simp: execRankedBoard_def Let_def rankedRows_rankLegs split: sum.splits if_split_asm)

lemma ranked_nil [simp]: "rankedRows []"
  by (simp add: rankedRows_def)

lemma boardRows_ranked: "boardRows d d' scope srt = Inr rows \<Longrightarrow> rankedRows rows"
  by (auto simp: boardRows_def queryRankedBoard_def ifMissing_def Let_def
      split: if_split_asm sum.splits db_fault.splits dest: exec_ranked)

definition pageFrom :: "(string \<times> board_snapshot) list \<Rightarrow> leader_page \<Rightarrow> bool" where
  "pageFrom computed p \<longleftrightarrow> (\<exists>key snap. (key, snap) \<in> set computed \<and> lp_snapshot p = sn_id snap \<and> lp_total p = length (sn_rows snap)
     \<and> lp_leaders p = take (lp_limit p) (drop (lp_offset p) (sn_rows snap)))"

lemma pageFrom_mono: "pageFrom computed p \<Longrightarrow> pageFrom (computed @ later) p"
  unfolding pageFrom_def by auto

text \<open>Whatever the service holds or has served was computed, and every computed board is ranked.\<close>

definition boardOk :: "board_service \<Rightarrow> bool" where
  "boardOk s \<longleftrightarrow>
     (\<forall>key snap t. map_of (bo_cache s) key = Some (snap, t) \<longrightarrow> (key, snap) \<in> set (bo_computed s))
   \<and> (\<forall>key. length (jget_or (bo_history s) key []) \<le> SNAPSHOT_HISTORY_DEPTH \<and> (\<forall>snap \<in> set (jget_or (bo_history s) key []). (key, snap) \<in> set (bo_computed s)))
   \<and> (\<forall>i p. (i, PageAnswer p) \<in> set (bo_answers s) \<longrightarrow> lp_state p \<noteq> NotIndexedHere \<longrightarrow> pageFrom (bo_computed s) p)
   \<and> (\<forall>key snap. (key, snap) \<in> set (bo_computed s) \<longrightarrow> sn_total snap = length (sn_rows snap) \<and> rankedRows (sn_rows snap))"

lemma ttlGet_sub: "ttlGet key now m = (m', hit) \<Longrightarrow> (map_of m' k = Some x \<longrightarrow> map_of m k = Some x) \<and> (hit = Some v \<longrightarrow> (\<exists>t. map_of m key = Some (v, t)))"
  by (auto simp: ttlGet_def split: option.splits if_split_asm)

lemma answerWith_sel [simp]:
  "bo_cache (answerWith i a s) = bo_cache s" "bo_history (answerWith i a s) = bo_history s" "bo_computed (answerWith i a s) = bo_computed s"
  "bo_answers (answerWith i a s) = bo_answers s @ [(i, a)]" "bo_loads (answerWith i a s) = jdel i (bo_loads s)"
  by (simp_all add: answerWith_def)

lemma ok_answer:
  assumes "boardOk s" "\<And>p. a = PageAnswer p \<Longrightarrow> lp_state p \<noteq> NotIndexedHere \<Longrightarrow> pageFrom (bo_computed s) p"
  shows "boardOk (answerWith i a s)"
  using assms by (auto simp: boardOk_def)

lemma ok_failed [simp]: "boardOk s \<Longrightarrow> boardOk (answerWith i (BoardFailed e) s)" "boardOk s \<Longrightarrow> boardOk (answerWith i (BadScope m) s)"
  by (auto intro: ok_answer)

lemma ok_loads [simp]: "boardOk (s\<lparr>bo_loads := l\<rparr>) \<longleftrightarrow> boardOk s"
  by (simp add: boardOk_def)

lemma ok_serve:
  assumes "boardOk s" "(boardKey scope (sortOf (bq_sort q)), current) \<in> set (bo_computed s)"
  shows "boardOk (answerWith i (serveBoard q scope current s) s)"
proof (rule ok_answer [OF assms(1)])
  fix p assume p: "serveBoard q scope current s = PageAnswer p"
  let ?key = "boardKey scope (sortOf (bq_sort q))"
  obtain snap changed where sf: "snapshotFor ?key (bq_snapshot q) current s = (snap, changed)" by fastforce
  then have "snap = current \<or> snap \<in> set (jget_or (bo_history s) ?key [])"
    by (auto simp: snapshotFor_def split: if_split_asm option.splits)
      (auto simp: find_Some_iff)
  then have "(?key, snap) \<in> set (bo_computed s)" using assms by (auto simp: boardOk_def)
  moreover from this have "sn_total snap = length (sn_rows snap)" using assms(1) by (simp add: boardOk_def)
  moreover have "lp_snapshot p = sn_id snap" "lp_total p = sn_total snap" "lp_leaders p = take (lp_limit p) (drop (lp_offset p) (sn_rows snap))"
    using p sf by (auto simp: serveBoard_def Let_def split: option.splits)
  ultimately show "pageFrom (bo_computed s) p" unfolding pageFrom_def by metis
qed

lemma length_pushHistory: "length h \<le> SNAPSHOT_HISTORY_DEPTH \<Longrightarrow> length (pushHistory snap h) \<le> SNAPSHOT_HISTORY_DEPTH"
  by (auto simp: pushHistory_def SNAPSHOT_HISTORY_DEPTH_def split: list.split)

lemma set_pushHistory: "set (pushHistory snap h) \<subseteq> insert snap (set h)"
  by (auto simp: pushHistory_def split: list.split dest: in_set_takeD)

lemma ok_start:
  assumes "boardOk s"
  shows "boardOk (startBoard cfg i q now s)"
proof (cases "requestScope cfg (bq_scope q)")
  case (Inl e)
  then show ?thesis using assms by (simp add: startBoard_def)
next
  case (Inr scope)
  show ?thesis
  proof (cases "scopeServedByNetwork scope (bc_network cfg)")
    case False
    then show ?thesis using Inr ok_answer [OF assms, of "notIndexed q scope" i]
      by (auto simp: startBoard_def notIndexed_def Let_def split: option.splits)
  next
    case True
    let ?key = "boardKey scope (sortOf (bq_sort q))"
    obtain m hit where g: "ttlGet ?key now (bo_cache s) = (m, hit)" by fastforce
    have ok: "boardOk (s\<lparr>bo_cache := m\<rparr>)" using assms ttlGet_sub [OF g] by (fastforce simp: boardOk_def)
    show ?thesis
    proof (cases hit)
      case None
      then show ?thesis using Inr True g ok by (simp add: startBoard_def)
    next
      case (Some snap)
      then have "(?key, snap) \<in> set (bo_computed (s\<lparr>bo_cache := m\<rparr>))" using assms ttlGet_sub [OF g] by (fastforce simp: boardOk_def)
      then show ?thesis using Inr True g Some ok_serve [OF ok] by (simp add: startBoard_def Let_def)
    qed
  qed
qed

lemma ok_cursor: "boardOk s \<Longrightarrow> boardOk (cursorAnswered i d s)"
  by (simp add: cursorAnswered_def split: option.split prod.split load_phase.split sum.split)

lemma ok_computed:
  assumes "boardOk s" "rankedRows (sn_rows snap)" "sn_total snap = length (sn_rows snap)"
  shows "boardOk (s\<lparr>bo_computed := bo_computed s @ [(key, snap)],
     bo_history := jset key (pushHistory snap (jget_or (bo_history s) key [])) (bo_history s), bo_cache := ttlSet ttl key snap now (bo_cache s)\<rparr>)"
  using assms length_pushHistory [of "jget_or (bo_history s) key []" snap] set_pushHistory [of snap "jget_or (bo_history s) key []"]
  by (auto simp: boardOk_def ttlSet_def pageFrom_mono)

lemma ok_board:
  assumes "boardOk s"
  shows "boardOk (boardAnswered i d d' now s)"
proof (cases "map_of (bo_loads s) i")
  case (Some l)
  obtain q scope ph where l: "l = (q, scope, ph)" by (cases l) auto
  show ?thesis
  proof (cases ph)
    case (AwaitBoard c)
    let ?srt = "sortOf (bq_sort q)"
    show ?thesis
    proof (cases "boardRows d d' scope ?srt")
      case (Inr rows)
      let ?snap = "makeSnapshot scope ?srt c rows now"
      let ?s = "s\<lparr>bo_computed := bo_computed s @ [(boardKey scope ?srt, ?snap)],
         bo_history := jset (boardKey scope ?srt) (pushHistory ?snap (jget_or (bo_history s) (boardKey scope ?srt) [])) (bo_history s),
         bo_cache := ttlSet LEADERBOARD_TTL_MS (boardKey scope ?srt) ?snap now (bo_cache s)\<rparr>"
      have "boardOk ?s" using assms boardRows_ranked [OF Inr] by (intro ok_computed) (simp_all add: makeSnapshot_def)
      then have "boardOk (answerWith i (serveBoard q scope ?snap ?s) ?s)" by (rule ok_serve) simp
      then show ?thesis using Some l AwaitBoard Inr by (simp add: boardAnswered_def Let_def)
    qed (use Some l AwaitBoard assms in \<open>simp add: boardAnswered_def Let_def\<close>)
  qed (use Some l assms in \<open>simp add: boardAnswered_def\<close>)
qed (use assms in \<open>simp add: boardAnswered_def\<close>)

lemma ok_step: "boardOk s \<Longrightarrow> boardOk (boardStep cfg ev s)"
  by (cases ev) (simp_all add: boardStep_def ok_start ok_cursor ok_board)

lemma ok_run: "boardOk (boardRun cfg evs)"
proof -
  have "boardOk s \<Longrightarrow> boardOk (fold (boardStep cfg) evs s)" for s
    by (induction evs arbitrary: s) (auto simp: ok_step)
  moreover have "boardOk freshBoard" by (simp add: freshBoard_def boardOk_def jget_or_def)
  ultimately show ?thesis by (simp add: boardRun_def)
qed

lemma concat_slices: "concat (map (\<lambda>j. take L (drop (j * L) xs)) [0..<n]) = take (n * L) xs"
proof (induction n)
  case (Suc n)
  have "take (n * L) xs @ take L (drop (n * L) xs) = take (Suc n * L) xs" by (metis add.commute mult_Suc take_add)
  then show ?case using Suc by simp
qed simp

lemma sum_opens: "sum_list (map lg_volume (filter (\<lambda>l. lg_trader l = Some a) (openLegs evs)))
   = sumSizes (filter (\<lambda>e. er_topic e = ''position_opened'' \<and> pl_trader (er_payload e) = Some a) evs)"
  by (induction evs) (auto simp: openLegs_def sumSizes_def)

text \<open>A close with a size of its own has one open, of that size.\<close>

definition closesWhole :: "event_row list \<Rightarrow> event_row \<Rightarrow> bool" where
  "closesWhole evs c \<longleftrightarrow> pl_size (er_payload c) = None
     \<or> (case opensOf evs c of [o'] \<Rightarrow> pl_size (er_payload o') = pl_size (er_payload c) | _ \<Rightarrow> False)"

lemma closesWhole_sum: "closesWhole evs c \<Longrightarrow> sum_list (map (closeVolume c) (leftJoinOpens evs c)) = sumSizes (opensOf evs c)"
  by (auto simp: closesWhole_def leftJoinOpens_def closeVolume_def sumSizes_def comp_def orZero_def split: list.splits option.splits)

lemma sum_closes:
  assumes "\<And>c. c \<in> set cs \<Longrightarrow> closesWhole evs c"
  shows "sum_list (map lg_volume (filter (\<lambda>l. lg_trader l = Some a) (concat (map (\<lambda>c. map (\<lambda>o'. \<lparr>lg_trader = pl_trader (er_payload c), lg_pnl = 0,
       lg_volume = closeVolume c o', lg_trades = 0, lg_liqs = 0\<rparr>) (leftJoinOpens evs c)) cs))))
   = sumSizes (concat (map (opensOf evs) (filter (\<lambda>c. pl_trader (er_payload c) = Some a) cs)))"
  using assms
proof (induction cs)
  case (Cons c cs)
  have "sum_list (map (closeVolume c) (leftJoinOpens evs c)) = sumSizes (opensOf evs c)"
    using Cons.prems [of c] by (simp add: closesWhole_sum)
  then show ?case using Cons by (auto simp: sumSizes_def filter_map comp_def)
qed (simp add: sumSizes_def)

text \<open>The fee tier's volume is the board's: inside the window, and when every close ends the whole position, the trailing volume
  of a wallet is the volume of its row on the board of the market without the legacy baseline.\<close>

theorem volume14d_is_board_volume:
  assumes "sd_down d = False" "sd_events d = Some evs" "market \<noteq> []"
    and "\<And>e. e \<in> set evs \<Longrightarrow> er_contract e = market \<Longrightarrow> er_ts e \<ge> now - VOLUME_WINDOW_SEC"
    and "\<And>e. e \<in> set evs \<Longrightarrow> er_contract e = market \<Longrightarrow> er_topic e = ''position_closed'' \<Longrightarrow> closesWhole evs e"
  shows "traderVolume14d market (\<lambda>k. d) address now = Inr (le_volume (foldTrader (boardLegs (scopedEvents [market] evs)) address))"
proof -
  let ?evs = "scopedEvents [market] evs"
  have in_evs: "filter (\<lambda>e. er_topic e = tp \<and> pl_trader (er_payload e) = Some address \<and> er_ts e \<ge> now - VOLUME_WINDOW_SEC \<and> inMarket market e) evs
      = filter (\<lambda>e. er_topic e = tp \<and> pl_trader (er_payload e) = Some address) ?evs" for tp
    using assms(3,4) by (auto simp: scopedEvents_def inMarket_def intro!: filter_cong)
  have opens: "opensOf evs c = opensOf ?evs c" if "c \<in> set ?evs" for c
    using opensOf_scoped [of c "[market]" evs] that by (simp add: scopedEvents_def)
  have closes: "concat (map (opensOf evs) (filter (\<lambda>e. er_topic e = ''position_closed'' \<and> pl_trader (er_payload e) = Some address) ?evs))
      = concat (map (opensOf ?evs) (filter (\<lambda>c. pl_trader (er_payload c) = Some address) (filter (\<lambda>e. er_topic e = ''position_closed'') ?evs)))"
    by (intro arg_cong [where f = concat] map_cong) (auto simp: conj_commute opens intro!: filter_cong)
  have whole: "closesWhole ?evs c" if "c \<in> set ?evs" "er_topic c = ''position_closed''" for c
    using assms(5) [of c] that opens [OF that(1)] by (auto simp: closesWhole_def dest: scopedD)
  have "traderVolume14d market (\<lambda>k. d) address now
      = Inr (sum_list (map lg_volume (filter (\<lambda>l. lg_trader l = Some address) (openLegs ?evs)))
           + sum_list (map lg_volume (filter (\<lambda>l. lg_trader l = Some address) (closeLegs ?evs))))"
    using assms(1,2) whole unfolding sum_opens closeLegs_def
    by (subst sum_closes) (auto simp: traderVolume14d_def fromTable_def ifMissing_def Let_def in_evs closes)
  moreover have "sum_list (map lg_volume (filter (\<lambda>l. lg_trader l = Some address) (pnlLegs ?evs))) = 0"
    "sum_list (map lg_volume (filter (\<lambda>l. lg_trader l = Some address) (liqLegs ?evs))) = 0"
    by (rule sum_list_zero, auto simp: pnlLegs_def liqLegs_def)+
  ultimately show ?thesis by (simp add: foldTrader_def boardLegs_def Let_def)
qed

text \<open>The board leaves out what the market pays on reductions and on auto-deleveraging: with those events or without
  them the ranking is the same, whatever profit they carry.\<close>

theorem board_ignores_reductions:
  assumes "sd_events d = Some evs"
  shows "execRankedBoard d scope srt withLegacy
     = execRankedBoard (d\<lparr>sd_events := Some (filter (\<lambda>e. er_topic e \<notin> {''position_reduced'', ''adl_executed''}) evs)\<rparr>) scope srt withLegacy"
proof -
  let ?keep = "filter (\<lambda>e. er_topic e \<notin> {''position_reduced'', ''adl_executed''})"
  have keep: "filter P (?keep xs) = filter P xs" if "\<And>e. P e \<Longrightarrow> er_topic e \<notin> {''position_reduced'', ''adl_executed''}" for P xs
    using that by (auto intro!: filter_cong)
  have scoped: "scopedEvents ms (?keep evs) = ?keep (scopedEvents ms evs)" for ms by (simp add: scopedEvents_def conj_commute)
  have opens: "opensOf (?keep xs) c = opensOf xs c" for xs c unfolding opensOf_def by (rule keep) auto
  have topics: "filter (\<lambda>e. er_topic e = ''position_closed'') (?keep xs) = filter (\<lambda>e. er_topic e = ''position_closed'') xs"
    "filter (\<lambda>e. er_topic e = ''position_opened'') (?keep xs) = filter (\<lambda>e. er_topic e = ''position_opened'') xs"
    "filter (\<lambda>e. er_topic e \<in> set LIQUIDATION_TOPICS) (?keep xs) = filter (\<lambda>e. er_topic e \<in> set LIQUIDATION_TOPICS) xs" for xs
    by (rule keep, force simp: LIQUIDATION_TOPICS_def)+
  have "boardLegs (?keep xs) = boardLegs xs" for xs
    unfolding boardLegs_def pnlLegs_def openLegs_def closeLegs_def liqLegs_def topics leftJoinOpens_def opens ..
  then have "boardLegs (scopedEvents ms (?keep evs)) = boardLegs (scopedEvents ms evs)" for ms unfolding scoped .
  then show ?thesis by (simp add: execRankedBoard_def fromTable_def assms Let_def cong: if_cong)
qed

section \<open>Properties: the pages\<close>

text \<open>C37. Walking the pages of one snapshot id yields the whole ranked board, each rank and each trader once, whatever
  requests, recomputations and expiries interleave, as long as an id names one computation.\<close>

theorem pages_cover_board:
  assumes "\<And>k s k' s'. (k, s) \<in> set (bo_computed (boardRun cfg evs)) \<Longrightarrow> (k', s') \<in> set (bo_computed (boardRun cfg evs)) \<Longrightarrow> sn_id s = sn_id s' \<Longrightarrow> sn_rows s = sn_rows s'"
    and "\<And>j. j < n \<Longrightarrow> \<exists>i. (i, PageAnswer (p j)) \<in> set (bo_answers (boardRun cfg evs)) \<and> lp_state (p j) \<noteq> NotIndexedHere
       \<and> lp_snapshot (p j) = r \<and> lp_offset (p j) = j * L \<and> lp_limit (p j) = L"
    and "0 < n" "lp_total (p 0) \<le> n * L"
  shows "map le_rank (concat (map (\<lambda>j. lp_leaders (p j)) [0..<n])) = [1..<lp_total (p 0) + 1]
     \<and> distinct (map le_trader (concat (map (\<lambda>j. lp_leaders (p j)) [0..<n])))"
proof -
  let ?s = "boardRun cfg evs"
  have from_page: "\<exists>key snap. (key, snap) \<in> set (bo_computed ?s) \<and> sn_id snap = r \<and> lp_total (p j) = length (sn_rows snap)
      \<and> lp_leaders (p j) = take L (drop (j * L) (sn_rows snap))" if "j < n" for j
    using assms(2) [OF that] ok_run [of cfg evs] unfolding boardOk_def pageFrom_def by metis
  obtain key snap where snap: "(key, snap) \<in> set (bo_computed ?s)" "sn_id snap = r" "lp_total (p 0) = length (sn_rows snap)"
    using from_page [OF assms(3)] by blast
  have "lp_leaders (p j) = take L (drop (j * L) (sn_rows snap))" if "j < n" for j
    using from_page [OF that] assms(1) snap(1,2) by metis
  then have "concat (map (\<lambda>j. lp_leaders (p j)) [0..<n]) = concat (map (\<lambda>j. take L (drop (j * L) (sn_rows snap))) [0..<n])"
    by (intro arg_cong [where f = concat] map_cong) auto
  also have "\<dots> = sn_rows snap" unfolding concat_slices using assms(4) snap(3) by simp
  finally show ?thesis using ok_run [of cfg evs] snap(1,3) unfolding boardOk_def rankedRows_def by metis
qed

text \<open>The id does not name one computation: when the board changes while the cursor and the number of traders stay, the
  recomputed snapshot has the id of the old one, replaces it, and the next page of the walk comes from the new rows without
  \<open>snapshotChanged\<close>.\<close>

theorem same_id_swaps_rows:
  assumes "requestScope cfg (bq_scope q) = Inr scope" "scopeServedByNetwork scope (bc_network cfg)" "bq_trader q = None" "bq_snapshot q = None"
    and "pollCursor d = Inr c" "pollCursor d' = Inr c'" "pp_ledger c' = pp_ledger c"
    and "boardRows d d scope (sortOf (bq_sort q)) = Inr rows" "boardRows d' d' scope (sortOf (bq_sort q)) = Inr rows'" "length rows' = length rows"
    and "t + LEADERBOARD_TTL_MS \<le> t'"
    and "sid = snapshotId scope (sortOf (bq_sort q)) (pp_ledger c) (length rows)"
  shows "\<exists>p p'. bo_answers (boardRun cfg [AskBoard 0 q t, CursorIn 0 d, BoardIn 0 d d t,
         AskBoard 1 (q\<lparr>bq_offset := Some off, bq_snapshot := Some sid\<rparr>) t', CursorIn 1 d', BoardIn 1 d' d' t']) = [(0, PageAnswer p), (1, PageAnswer p')]
     \<and> lp_snapshot p = sid \<and> lp_snapshot p' = sid \<and> \<not> lp_snapshotChanged p'
     \<and> lp_leaders p = take (pageLimit q) (drop (pageOffset q) rows) \<and> lp_leaders p' = take (pageLimit q) (drop (nat off) rows')"
  using assms
  by (simp add: boardRun_def boardStep_def startBoard_def freshBoard_def ttlGet_def cursorAnswered_def boardAnswered_def answerWith_def Let_def
      serveBoard_def snapshotFor_def isGiven_def makeSnapshot_def ttlSet_def pageLimit_def pageOffset_def jset_def jdel_def clampLimit_def)

section \<open>Witnesses\<close>

definition openedBy :: "string \<Rightarrow> nat \<Rightarrow> int \<Rightarrow> event_row" where
  "openedBy trader i amount = \<lparr>er_id = show_nat i, er_contract = ''CM'', er_topic = ''position_opened'', er_ledger = 50 + i, er_ts = 600, er_txHash = ''t'',
     er_payload = noPayload\<lparr>pl_trader := Some trader, pl_positionId := Some i, pl_size := Some amount\<rparr>\<rparr>"

definition boardDb :: "event_row list \<Rightarrow> stats_db" where
  "boardDb evs = \<lparr>sd_events = Some evs, sd_legacy = None, sd_positions = None, sd_badDebt = None, sd_candles = None,
     sd_cursor = Some (Some (60, 5000)), sd_down = False\<rparr>"

definition boardCfg :: board_config where
  "boardCfg = \<lparr>bc_env = (\<lambda>x. None), bc_manifest = None, bc_market = ''CM'', bc_network = ''testnet''\<rparr>"

definition byVolume :: "int \<Rightarrow> string option \<Rightarrow> board_query" where
  "byVolume off snapshot = \<lparr>bq_trader = None, bq_scope = None, bq_sort = Some ''volume'', bq_limit = Some 1, bq_offset = Some off, bq_snapshot = snapshot\<rparr>"

definition twoTraders :: "event_row list" where
  "twoTraders = [openedBy ''ann'' 1 10, openedBy ''bob'' 2 5]"

definition testScope :: deployment_scope where
  "testScope = \<lparr>ds_id = Testnet, ds_network = TestnetNetwork, ds_label = ''Stellar Testnet'', ds_marketIds = [''CM''], ds_legacyScopeKey = Some ''testnet''\<rparr>"

lemma boardCfg_scope: "requestScope boardCfg None = Inr testScope" "scopeServedByNetwork testScope (bc_network boardCfg)"
  by code_simp+

abbreviation entryOf :: "nat \<Rightarrow> string \<Rightarrow> int \<Rightarrow> nat \<Rightarrow> leader_entry" where
  "entryOf r t v n \<equiv> \<lparr>le_rank = r, le_trader = t, le_pnl = 0, le_volume = v, le_trades = n, le_liqCount = 0\<rparr>"

lemma twoTraders_rows: "boardRows (boardDb twoTraders) (boardDb twoTraders) testScope ByVolume = Inr [entryOf 1 ''ann'' 10 1, entryOf 2 ''bob'' 5 1]"
  by code_simp

lemma overtaken_rows:
  "boardRows (boardDb (openedBy ''bob'' 3 20 # twoTraders)) (boardDb (openedBy ''bob'' 3 20 # twoTraders)) testScope ByVolume
     = Inr [entryOf 1 ''bob'' 25 2, entryOf 2 ''ann'' 10 1]"
  by code_simp

abbreviation pageOf :: "nat \<Rightarrow> leader_entry list \<Rightarrow> leader_page" where
  "pageOf off rows \<equiv> \<lparr>lp_scope = Testnet, lp_network = TestnetNetwork, lp_state = BoardOk, lp_sort = ByVolume, lp_updatedAt = Some 5, lp_total = 2,
     lp_limit = 1, lp_offset = off, lp_snapshot = ''testnet.volume.60.2'', lp_snapshotChanged = False, lp_leaders = rows\<rparr>"

definition sampleWalk :: "board_event list" where
  "sampleWalk = [AskBoard 0 (byVolume 0 None) 0, CursorIn 0 (boardDb twoTraders), BoardIn 0 (boardDb twoTraders) (boardDb twoTraders) 1000,
     AskBoard 1 (byVolume 1 (Some ''testnet.volume.60.2'')) 2000]"

lemma sampleWalk_run:
  "bo_answers (boardRun boardCfg sampleWalk) = [(0, PageAnswer (pageOf 0 [entryOf 1 ''ann'' 10 1])), (1, PageAnswer (pageOf 1 [entryOf 2 ''bob'' 5 1]))]"
  "bo_computed (boardRun boardCfg sampleWalk) = [(''testnet.volume'', \<lparr>sn_id = ''testnet.volume.60.2'', sn_computedAt = 1000, sn_cursorLedger = 60,
     sn_updatedAt = Some 5, sn_total = 2, sn_rows = [entryOf 1 ''ann'' 10 1, entryOf 2 ''bob'' 5 1]\<rparr>)]"
  by code_simp+

definition walkPage :: "nat \<Rightarrow> leader_page" where
  "walkPage j = (if j = 0 then pageOf 0 [entryOf 1 ''ann'' 10 1] else pageOf 1 [entryOf 2 ''bob'' 5 1])"

theorem pages_cover_witness:
  "map le_rank (concat (map (\<lambda>j. lp_leaders (walkPage j)) [0..<2])) = [1..<lp_total (walkPage 0) + 1]"
proof (rule pages_cover_board [where cfg = boardCfg and evs = sampleWalk and r = "''testnet.volume.60.2''" and L = 1, THEN conjunct1])
  fix j :: nat
  assume "j < 2"
  then have "j = 0 \<or> j = 1" by auto
  then show "\<exists>i. (i, PageAnswer (walkPage j)) \<in> set (bo_answers (boardRun boardCfg sampleWalk)) \<and> lp_state (walkPage j) \<noteq> NotIndexedHere
      \<and> lp_snapshot (walkPage j) = ''testnet.volume.60.2'' \<and> lp_offset (walkPage j) = j * 1 \<and> lp_limit (walkPage j) = 1"
    unfolding sampleWalk_run(1) by (auto simp: walkPage_def)
qed (simp_all add: sampleWalk_run(2) walkPage_def)

lemma sampleCursor: "pollCursor (boardDb evs) = Inr \<lparr>pp_ledger = 60, pp_updatedAt = Some 5\<rparr>"
  by (simp add: pollCursor_def boardDb_def fromTable_def ifMissing_def)

theorem same_id_witness:
  "\<exists>p p'. bo_answers (boardRun boardCfg [AskBoard 0 (byVolume 0 None) 0, CursorIn 0 (boardDb twoTraders), BoardIn 0 (boardDb twoTraders) (boardDb twoTraders) 0,
         AskBoard 1 ((byVolume 0 None)\<lparr>bq_offset := Some 1, bq_snapshot := Some ''testnet.volume.60.2''\<rparr>) 20000,
         CursorIn 1 (boardDb (openedBy ''bob'' 3 20 # twoTraders)),
         BoardIn 1 (boardDb (openedBy ''bob'' 3 20 # twoTraders)) (boardDb (openedBy ''bob'' 3 20 # twoTraders)) 20000]) = [(0, PageAnswer p), (1, PageAnswer p')]
     \<and> \<not> lp_snapshotChanged p' \<and> map le_trader (lp_leaders p @ lp_leaders p') = [''ann'', ''ann'']"
proof -
  let ?q = "byVolume 0 None"
  have q: "bq_scope ?q = None" "bq_trader ?q = None" "bq_snapshot ?q = None" "sortOf (bq_sort ?q) = ByVolume" "pageLimit ?q = 1" "pageOffset ?q = 0"
    by code_simp+
  have sid: "''testnet.volume.60.2'' = snapshotId testScope (sortOf (bq_sort ?q)) (pp_ledger \<lparr>pp_ledger = 60, pp_updatedAt = Some 5\<rparr>)
      (length [entryOf 1 ''ann'' 10 1, entryOf 2 ''bob'' 5 1])"
    by code_simp
  have "\<exists>p p'. bo_answers (boardRun boardCfg [AskBoard 0 ?q 0, CursorIn 0 (boardDb twoTraders), BoardIn 0 (boardDb twoTraders) (boardDb twoTraders) 0,
         AskBoard 1 (?q\<lparr>bq_offset := Some 1, bq_snapshot := Some ''testnet.volume.60.2''\<rparr>) 20000,
         CursorIn 1 (boardDb (openedBy ''bob'' 3 20 # twoTraders)),
         BoardIn 1 (boardDb (openedBy ''bob'' 3 20 # twoTraders)) (boardDb (openedBy ''bob'' 3 20 # twoTraders)) 20000]) = [(0, PageAnswer p), (1, PageAnswer p')]
     \<and> lp_snapshot p = ''testnet.volume.60.2'' \<and> lp_snapshot p' = ''testnet.volume.60.2'' \<and> \<not> lp_snapshotChanged p'
     \<and> lp_leaders p = take (pageLimit ?q) (drop (pageOffset ?q) [entryOf 1 ''ann'' 10 1, entryOf 2 ''bob'' 5 1])
     \<and> lp_leaders p' = take (pageLimit ?q) (drop (nat 1) [entryOf 1 ''bob'' 25 2, entryOf 2 ''ann'' 10 1])"
    by (rule same_id_swaps_rows [OF _ _ q(2,3) sampleCursor sampleCursor refl _ _ _ _ sid])
      (simp_all only: q boardCfg_scope twoTraders_rows overtaken_rows, simp_all add: LEADERBOARD_TTL_MS_def)
  then show ?thesis by (elim exE conjE, intro exI conjI) (assumption | simp only: q, simp)+
qed

theorem totals_witness:
  "case (queryRankedBoard (boardDb twoTraders) (boardDb twoTraders) testScope ByVolume, computeLeaderboardTotals (\<lambda>k. boardDb twoTraders) testScope) of
      (Inr board, Inr t) \<Rightarrow> bt_traders t = length board \<and> bt_volume t = sum_list (map le_volume board) \<and> bt_trades t = sum_list (map le_trades board)
    | (Inl e, Inl e') \<Rightarrow> e = e'
    | _ \<Rightarrow> False"
  by (rule totals_are_board_sums) (auto simp: boardDb_def twoTraders_def openedBy_def noPayload_def isGiven_def)

theorem board_is_ranked_witness:
  "sorted_wrt (ranksAbove ByVolume) [entryOf 1 ''ann'' 10 1, entryOf 2 ''bob'' 5 1]"
proof -
  have "execRankedBoard (boardDb twoTraders) testScope ByVolume False = Inr [entryOf 1 ''ann'' 10 1, entryOf 2 ''bob'' 5 1]" by code_simp
  from board_is_ranked [OF this] show ?thesis by blast
qed

theorem volume14d_witness:
  "traderVolume14d ''CM'' (\<lambda>k. boardDb twoTraders) ''ann'' 1000 = Inr (le_volume (foldTrader (boardLegs (scopedEvents [''CM''] twoTraders)) ''ann''))"
  by (rule volume14d_is_board_volume) (auto simp: boardDb_def twoTraders_def openedBy_def noPayload_def VOLUME_WINDOW_SEC_def DAY_SEC_def)

definition reducedByAnn :: event_row where
  "reducedByAnn = (openedBy ''ann'' 1 10)\<lparr>er_topic := ''position_reduced'', er_payload := noPayload\<lparr>pl_trader := Some ''ann'', pl_pnl := Some 900\<rparr>\<rparr>"

theorem board_ignores_witness:
  "execRankedBoard (boardDb [openedBy ''ann'' 1 10, reducedByAnn]) testScope ByPnl False = Inr [entryOf 1 ''ann'' 10 1]"
proof -
  have "execRankedBoard (boardDb [openedBy ''ann'' 1 10]) testScope ByPnl False = Inr [entryOf 1 ''ann'' 10 1]" by code_simp
  moreover have "filter (\<lambda>e. er_topic e \<notin> {''position_reduced'', ''adl_executed''}) [openedBy ''ann'' 1 10, reducedByAnn] = [openedBy ''ann'' 1 10]"
    by (simp add: reducedByAnn_def openedBy_def)
  moreover have "(boardDb evs)\<lparr>sd_events := Some evs'\<rparr> = boardDb evs'" for evs evs' by (simp add: boardDb_def)
  moreover have "sd_events (boardDb evs) = Some evs" for evs by (simp add: boardDb_def)
  ultimately show ?thesis using board_ignores_reductions [of "boardDb [openedBy ''ann'' 1 10, reducedByAnn]"] by simp
qed

end
