(* ===== verification/ApiTail.thy ===== *)
theory ApiTail
  imports ApiStats
begin

text \<open>
  The events tailer of the API (\<open>api/src/services/liveTailer.ts\<close>): it polls the archive for rows above its cursor and
  emits them on the bus behind the WebSocket channels. A tick is started by a timer and waits for its query, so a slow
  query lets the next tick start before it ends.
\<close>

section \<open>Definitions\<close>

text \<open>A row of the archive with the time of its insertion; its payload may be no JSON.\<close>

record tail_row =
  tw_row :: event_row
  tw_insertedAt :: int
  tw_parses :: bool

record trade_payload =
  td_kind :: feed_kind
  td_asset :: string
  td_positionId :: nat
  td_trader :: string
  td_price :: int
  td_pnl :: "int option"
  td_ledger :: nat
  td_ts :: int
  td_txHash :: string

datatype tail_message = BusEvent event_row | BusTrade trade_payload | BusAccount string event_row

definition POSITION_TOPICS :: "string list" where
  "POSITION_TOPICS = [''position_opened'', ''position_closed'', ''position_liquidated'']"

definition channelOf :: "tail_message \<Rightarrow> string" where
  "channelOf m = (case m of
      BusEvent e \<Rightarrow> ''events''
    | BusTrade t \<Rightarrow> ''trades.'' @ td_asset t
    | BusAccount trader e \<Rightarrow> ''account.events.'' @ trader)"

definition tradePayload :: "event_row \<Rightarrow> string \<Rightarrow> trade_payload" where
  "tradePayload e trader =
     (let pl = er_payload e
      in \<lparr>td_kind = tradeKind (er_topic e), td_asset = (case pl_asset pl of None \<Rightarrow> ''UNKNOWN'' | Some a \<Rightarrow> a),
          td_positionId = (case pl_positionId pl of None \<Rightarrow> 0 | Some i \<Rightarrow> i), td_trader = trader,
          td_price = (case pl_closePrice pl of Some p \<Rightarrow> p | None \<Rightarrow> orZero (pl_entryPrice pl)),
          td_pnl = pl_pnl pl, td_ledger = er_ledger e, td_ts = er_ts e * 1000, td_txHash = er_txHash e\<rparr>)"

text \<open>What one row puts on the bus. The trader counts when it is a string that is not empty.\<close>

definition emissions :: "tail_row \<Rightarrow> tail_message list" where
  "emissions r =
     (if \<not> tw_parses r then []
      else let e = tw_row r; trader = pl_trader (er_payload e)
           in BusEvent e #
              (case trader of
                 None \<Rightarrow> []
               | Some t \<Rightarrow> if t = [] then []
                   else (if er_topic e \<in> set POSITION_TOPICS then [BusTrade (tradePayload e t)] else []) @ [BusAccount t e]))"

definition TAIL_LIMIT :: nat where "TAIL_LIMIT = 200"

definition tailQuery :: "int \<Rightarrow> tail_row list \<Rightarrow> tail_row list" where
  "tailQuery c table = take TAIL_LIMIT (sort_key tw_insertedAt (filter (\<lambda>r. c < tw_insertedAt r) table))"

record live_tailer =
  tl_cursor :: int
  tl_stopped :: bool
  tl_pending :: "(nat, int) jmap"
  tl_out :: "tail_message list"

definition freshTailer :: "int \<Rightarrow> live_tailer" where
  "freshTailer c = \<lparr>tl_cursor = c, tl_stopped = False, tl_pending = [], tl_out = []\<rparr>"

definition tickStart :: "nat \<Rightarrow> live_tailer \<Rightarrow> live_tailer" where
  "tickStart i s = (if tl_stopped s then s else s\<lparr>tl_pending := jset i (tl_cursor s) (tl_pending s)\<rparr>)"

definition tailRow :: "tail_row \<Rightarrow> live_tailer \<Rightarrow> live_tailer" where
  "tailRow r s = s\<lparr>tl_cursor := max (tl_cursor s) (tw_insertedAt r), tl_out := tl_out s @ emissions r\<rparr>"

text \<open>The query's answer: the rows, or an error that ends the tick.\<close>

definition tickEnd :: "nat \<Rightarrow> db_fault option \<Rightarrow> tail_row list \<Rightarrow> live_tailer \<Rightarrow> live_tailer" where
  "tickEnd i fault table s =
     (case map_of (tl_pending s) i of
        None \<Rightarrow> s
      | Some c \<Rightarrow>
          (let s = s\<lparr>tl_pending := jdel i (tl_pending s)\<rparr>
           in if fault \<noteq> None then s else fold tailRow (tailQuery c table) s))"

definition stopTailer :: "live_tailer \<Rightarrow> live_tailer" where
  "stopTailer s = s\<lparr>tl_stopped := True\<rparr>"

text \<open>A history: the indexer archives rows, timers start ticks, queries answer.\<close>

datatype tail_event = ArchiveRow tail_row | TickStarts nat | TickEnds nat "db_fault option" | StopTail

definition tailStep :: "tail_event \<Rightarrow> tail_row list \<times> live_tailer \<Rightarrow> tail_row list \<times> live_tailer" where
  "tailStep ev p = (case ev of
      ArchiveRow r \<Rightarrow> (fst p @ [r], snd p)
    | TickStarts i \<Rightarrow> (fst p, tickStart i (snd p))
    | TickEnds i fault \<Rightarrow> (fst p, tickEnd i fault (fst p) (snd p))
    | StopTail \<Rightarrow> (fst p, stopTailer (snd p)))"

definition tailRun :: "tail_event list \<Rightarrow> tail_row list \<times> live_tailer \<Rightarrow> tail_row list \<times> live_tailer" where
  "tailRun evs p = fold tailStep evs p"

section \<open>Lemmas\<close>

lemma fold_tailRow:
  "fold tailRow rows s = s\<lparr>tl_cursor := fold max (map tw_insertedAt rows) (tl_cursor s), tl_out := tl_out s @ concat (map emissions rows)\<rparr>"
  by (induction rows arbitrary: s) (simp_all add: tailRow_def max.commute)

text \<open>Ticks that do not overlap, over an archive whose insertion times grow.\<close>

fun soloTicks :: "tail_event list \<Rightarrow> bool" where
  "soloTicks [] = True"
| "soloTicks (TickStarts i # TickEnds j f # evs) = (i = j \<and> soloTicks evs)"
| "soloTicks (ArchiveRow r # evs) = soloTicks evs"
| "soloTicks (StopTail # evs) = soloTicks evs"
| "soloTicks _ = False"

definition growing :: "tail_row list \<Rightarrow> bool" where
  "growing rows \<longleftrightarrow> sorted_wrt (\<lambda>a b. tw_insertedAt a < tw_insertedAt b) rows"

definition archivedRows :: "tail_event list \<Rightarrow> tail_row list" where
  "archivedRows evs = List.map_filter (\<lambda>ev. case ev of ArchiveRow r \<Rightarrow> Some r | _ \<Rightarrow> None) evs"

text \<open>Everything between the start and the cursor was emitted, once and in order; the cursor is the start or a row's time.\<close>

definition tailOk :: "int \<Rightarrow> tail_row list \<times> live_tailer \<Rightarrow> bool" where
  "tailOk c0 p \<longleftrightarrow> growing (fst p) \<and> tl_pending (snd p) = [] \<and> c0 \<le> tl_cursor (snd p)
     \<and> (tl_cursor (snd p) = c0 \<or> tl_cursor (snd p) \<in> tw_insertedAt ` set (fst p))
     \<and> tl_out (snd p) = concat (map emissions (filter (\<lambda>r. c0 < tw_insertedAt r \<and> tw_insertedAt r \<le> tl_cursor (snd p)) (fst p)))"

lemma growing_append: "growing (rows @ [r]) \<longleftrightarrow> growing rows \<and> (\<forall>q \<in> set rows. tw_insertedAt q < tw_insertedAt r)"
  by (simp add: growing_def sorted_wrt_append)

lemma growing_filter: "growing rows \<Longrightarrow> growing (filter P rows)"
  by (simp add: growing_def sorted_wrt_filter)

lemma growing_take: "growing rows \<Longrightarrow> growing (take n rows)"
  unfolding growing_def by (rule sorted_wrt_take)

lemma growing_sorted: "growing rows \<Longrightarrow> sort_key tw_insertedAt rows = rows"
proof -
  assume "growing rows"
  then have "sorted (map tw_insertedAt rows)"
    unfolding growing_def sorted_map by (rule sorted_wrt_mono_rel [rotated]) auto
  then show ?thesis by (rule sort_key_id_if_sorted)
qed

lemma growing_max: "growing rows \<Longrightarrow> \<forall>r \<in> set rows. c < tw_insertedAt r \<Longrightarrow> fold max (map tw_insertedAt rows) c = (if rows = [] then c else tw_insertedAt (last rows))"
proof (induction rows arbitrary: c)
  case (Cons r rows)
  then have "growing rows" "\<forall>q \<in> set rows. tw_insertedAt r < tw_insertedAt q" by (auto simp: growing_def)
  then show ?case using Cons.IH [of "tw_insertedAt r"] Cons.prems(2) by (auto simp: max_def)
qed simp

text \<open>The rows up to the last one taken are those already below the cursor and those taken.\<close>

lemma growing_split:
  assumes "growing rows" "t = take n (filter (\<lambda>r. c < tw_insertedAt r) rows)" "t \<noteq> []" "c0 \<le> c"
  shows "filter (\<lambda>r. c0 < tw_insertedAt r \<and> tw_insertedAt r \<le> tw_insertedAt (last t)) rows
    = filter (\<lambda>r. c0 < tw_insertedAt r \<and> tw_insertedAt r \<le> c) rows @ t"
  using assms
proof (induction rows arbitrary: n t)
  case (Cons r rows)
  have g: "growing rows" "\<And>q. q \<in> set rows \<Longrightarrow> tw_insertedAt r < tw_insertedAt q" using Cons.prems(1) by (auto simp: growing_def)
  show ?case
  proof (cases "c < tw_insertedAt r")
    case False
    have "t = take n (filter (\<lambda>q. c < tw_insertedAt q) rows)" using Cons.prems(2) False by simp
    moreover have "c < tw_insertedAt (last t)"
      using last_in_set [OF Cons.prems(3)] unfolding calculation by (auto dest: in_set_takeD)
    ultimately show ?thesis using Cons.IH [OF g(1) _ Cons.prems(3,4)] False by auto
  next
    case True
    then have all: "filter (\<lambda>q. c < tw_insertedAt q) rows = rows" using g(2) by (force simp: filter_id_conv)
    obtain m where m: "n = Suc m" using Cons.prems(2,3) by (cases n) auto
    have t: "t = r # take m rows" using Cons.prems(2) True all m by simp
    have none: "filter (\<lambda>q. c0 < tw_insertedAt q \<and> tw_insertedAt q \<le> c) rows = []"
      using g(2) True by (force simp: filter_empty_conv)
    have "filter (\<lambda>q. c0 < tw_insertedAt q \<and> tw_insertedAt q \<le> tw_insertedAt (last t)) rows = take m rows"
    proof (cases "take m rows = []")
      case True
      then show ?thesis using g(2) t by (force simp: filter_empty_conv)
    next
      case False
      then show ?thesis using Cons.IH [OF g(1) _ False, of m] Cons.prems(4) all none t by simp
    qed
    moreover have "tw_insertedAt r \<le> tw_insertedAt (last t)"
    proof (cases "take m rows = []")
      case False
      then have "last (take m rows) \<in> set rows" by (meson in_set_takeD last_in_set)
      then show ?thesis using t False g(2) by (simp add: less_imp_le)
    qed (use t in simp)
    ultimately show ?thesis using True none t Cons.prems(4) by simp
  qed
qed simp

lemma tailOk_solo:
  assumes "tailOk c0 (table, s)"
  shows "tailOk c0 (table, tickEnd i f table (tickStart i s))"
proof (cases "tl_stopped s \<or> f \<noteq> None \<or> tailQuery (tl_cursor s) table = []")
  case True
  then show ?thesis using assms by (auto simp: tailOk_def tickStart_def tickEnd_def jset_def jdel_def Let_def)
next
  case False
  let ?t = "tailQuery (tl_cursor s) table"
  have g: "growing table" using assms by (simp add: tailOk_def)
  have t: "?t = take TAIL_LIMIT (filter (\<lambda>r. tl_cursor s < tw_insertedAt r) table)"
    unfolding tailQuery_def by (simp add: growing_sorted growing_filter g)
  have after: "\<forall>r \<in> set ?t. tl_cursor s < tw_insertedAt r" unfolding t by (auto dest: in_set_takeD)
  have "growing ?t" unfolding t by (intro growing_take growing_filter g)
  then have cursor: "fold max (map tw_insertedAt ?t) (tl_cursor s) = tw_insertedAt (last ?t)" using growing_max after False by simp
  have "last ?t \<in> set table" using False unfolding t by (meson filter_is_subset in_set_takeD last_in_set subsetD)
  moreover have "c0 \<le> tw_insertedAt (last ?t)" using assms after False last_in_set [of ?t] by (fastforce simp: tailOk_def)
  moreover have "tickEnd i f table (tickStart i s) = s\<lparr>tl_cursor := tw_insertedAt (last ?t), tl_out := tl_out s @ concat (map emissions ?t)\<rparr>"
    using False assms by (simp add: tickEnd_def tickStart_def Let_def fold_tailRow cursor jset_def jdel_def tailOk_def)
  ultimately show ?thesis
    using assms growing_split [OF g t] False by (simp add: tailOk_def)
qed

lemma tailOk_archive:
  assumes "tailOk c0 (table, s)" "growing (table @ [r])"
  shows "tailOk c0 (table @ [r], s)"
proof -
  have "\<not> (c0 < tw_insertedAt r \<and> tw_insertedAt r \<le> tl_cursor s)"
    using assms by (auto simp: tailOk_def growing_append)
  then show ?thesis using assms by (auto simp: tailOk_def)
qed

lemma archivedRows_simps [simp]:
  "archivedRows [] = []" "archivedRows (ArchiveRow r # evs) = r # archivedRows evs" "archivedRows (TickStarts i # evs) = archivedRows evs"
  "archivedRows (TickEnds i f # evs) = archivedRows evs" "archivedRows (StopTail # evs) = archivedRows evs"
  by (simp_all add: archivedRows_def map_filter_simps)

lemma tailOk_run:
  "soloTicks evs \<Longrightarrow> tailOk c0 p \<Longrightarrow> growing (fst p @ archivedRows evs) \<Longrightarrow> tailOk c0 (tailRun evs p)"
proof (induction evs arbitrary: p rule: soloTicks.induct)
  case (2 i j f evs)
  then show ?case
    using tailOk_solo [of c0 "fst p" "snd p" i f] by (simp add: tailRun_def tailStep_def)
next
  case (3 r evs)
  have "growing ((fst p @ [r]) @ archivedRows evs)" using "3.prems"(3) by simp
  then have "growing (fst p @ [r])" by (metis growing_def sorted_wrt_append)
  then have "tailOk c0 (fst p @ [r], snd p)" using tailOk_archive [of c0 "fst p" "snd p" r] "3.prems"(2) by simp
  then show ?case using "3.IH" [of "(fst p @ [r], snd p)"] "3.prems" by (simp add: tailRun_def tailStep_def)
next
  case (4 evs)
  have "tailOk c0 (fst p, stopTailer (snd p))" using "4.prems"(2) by (simp add: tailOk_def stopTailer_def)
  then show ?case using "4.IH" [of "(fst p, stopTailer (snd p))"] "4.prems" by (simp add: tailRun_def tailStep_def)
qed (simp_all add: tailRun_def)

lemma run_table: "fst (tailRun evs p) = fst p @ archivedRows evs"
  by (induction evs arbitrary: p) (auto simp: tailRun_def tailStep_def split: tail_event.split)

text \<open>What is emitted from now on comes from rows above every bound that the cursor and the pending queries are above.\<close>

definition tailAbove :: "int \<Rightarrow> live_tailer \<Rightarrow> bool" where
  "tailAbove c s \<longleftrightarrow> c \<le> tl_cursor s \<and> (\<forall>i c'. map_of (tl_pending s) i = Some c' \<longrightarrow> c \<le> c')"

lemma fold_max_above: "(x::int) \<le> fold max ys x"
proof (induction ys arbitrary: x)
  case (Cons y ys)
  from Cons [of "max y x"] show ?case by simp
qed simp

lemma tailAbove_step:
  assumes "tailAbove c (snd p)"
  shows "tailAbove c (snd (tailStep ev p))
     \<and> (\<exists>new. tl_out (snd (tailStep ev p)) = tl_out (snd p) @ new \<and> set new \<subseteq> \<Union> (set ` emissions ` {r \<in> set (fst p). c < tw_insertedAt r}))"
proof (cases ev)
  case (TickEnds i f)
  show ?thesis
  proof (cases "map_of (tl_pending (snd p)) i = None \<or> f \<noteq> None")
    case True
    then show ?thesis using assms TickEnds by (auto simp: tailStep_def tickEnd_def tailAbove_def Let_def split: option.split)
  next
    case False
    then obtain c' where c': "map_of (tl_pending (snd p)) i = Some c'" by auto
    have "set (tailQuery c' (fst p)) \<subseteq> {r \<in> set (fst p). c < tw_insertedAt r}"
      using assms c' unfolding tailAbove_def tailQuery_def by (fastforce dest: in_set_takeD)
    then show ?thesis
      using False c' assms order_trans [OF _ fold_max_above [of "tl_cursor (snd p)"]] TickEnds
      by (auto simp: tailStep_def tickEnd_def tailAbove_def fold_tailRow Let_def)
  qed
qed (use assms in \<open>auto simp: tailStep_def tickStart_def stopTailer_def tailAbove_def\<close>)

lemma tailAbove_run:
  assumes "tailAbove c (snd p)"
  shows "\<exists>new. tl_out (snd (tailRun evs p)) = tl_out (snd p) @ new
     \<and> set new \<subseteq> \<Union> (set ` emissions ` {r \<in> set (fst p @ archivedRows evs). c < tw_insertedAt r})"
  using assms
proof (induction evs arbitrary: p)
  case (Cons ev evs)
  let ?q = "tailStep ev p"
  obtain new where new: "tailAbove c (snd ?q)" "tl_out (snd ?q) = tl_out (snd p) @ new"
    "set new \<subseteq> \<Union> (set ` emissions ` {r \<in> set (fst p). c < tw_insertedAt r})"
    using tailAbove_step [OF Cons.prems] by blast
  obtain later where later: "tl_out (snd (tailRun evs ?q)) = tl_out (snd ?q) @ later"
    "set later \<subseteq> \<Union> (set ` emissions ` {r \<in> set (fst ?q @ archivedRows evs). c < tw_insertedAt r})"
    using Cons.IH [OF new(1)] by blast
  have "set (fst ?q @ archivedRows evs) = set (fst p @ archivedRows (ev # evs))"
    by (cases ev) (simp_all add: tailStep_def)
  then have "set (new @ later) \<subseteq> \<Union> (set ` emissions ` {r \<in> set (fst p @ archivedRows (ev # evs)). c < tw_insertedAt r})"
    using new(3) later(2) by auto
  then show ?case using later(1) new(2) by (auto simp: tailRun_def)
qed (simp add: tailRun_def)

section \<open>Properties\<close>

text \<open>C38. Every archived row above the start reaches the bus exactly once, in order: with ticks that do not overlap and insertion
  times that grow, what was emitted is the rows between the start and the cursor, and a tick moves the cursor to the end
  unless it stops, fails or meets the limit.\<close>

theorem tail_delivers_each_once:
  assumes "soloTicks evs" "growing (archivedRows evs)" "p = tailRun evs ([], freshTailer c0)"
  shows "tl_out (snd p) = concat (map emissions (filter (\<lambda>r. c0 < tw_insertedAt r \<and> tw_insertedAt r \<le> tl_cursor (snd p)) (archivedRows evs)))
     \<and> (\<not> tl_stopped (snd p) \<longrightarrow> length (filter (\<lambda>r. tl_cursor (snd p) < tw_insertedAt r) (archivedRows evs)) \<le> TAIL_LIMIT
        \<longrightarrow> tl_out (snd (tailRun [TickStarts i, TickEnds i None] p)) = concat (map emissions (filter (\<lambda>r. c0 < tw_insertedAt r) (archivedRows evs))))"
proof -
  have "tailOk c0 ([], freshTailer c0)" by (simp add: tailOk_def freshTailer_def growing_def)
  then have ok: "tailOk c0 p" using tailOk_run [of evs c0 "([], freshTailer c0)"] assms by simp
  have table: "fst p = archivedRows evs" using run_table [of evs "([], freshTailer c0)"] assms(3) by simp
  have "tl_out (snd (tailRun [TickStarts i, TickEnds i None] p)) = concat (map emissions (filter (\<lambda>r. c0 < tw_insertedAt r) (archivedRows evs)))"
    if "\<not> tl_stopped (snd p)" "length (filter (\<lambda>r. tl_cursor (snd p) < tw_insertedAt r) (archivedRows evs)) \<le> TAIL_LIMIT"
  proof -
    let ?c = "tl_cursor (snd p)"
    have q: "tailQuery ?c (archivedRows evs) = filter (\<lambda>r. ?c < tw_insertedAt r) (archivedRows evs)"
      unfolding tailQuery_def growing_sorted [OF growing_filter [OF assms(2)]] using that(2) by simp
    have "filter (\<lambda>r. c0 < tw_insertedAt r) rows = filter (\<lambda>r. c0 < tw_insertedAt r \<and> tw_insertedAt r \<le> ?c) rows @ filter (\<lambda>r. ?c < tw_insertedAt r) rows"
      if "growing rows" for rows
      using that
    proof (induction rows)
      case (Cons r rows)
      have "growing rows" "\<And>q. q \<in> set rows \<Longrightarrow> tw_insertedAt r < tw_insertedAt q" using Cons.prems by (auto simp: growing_def)
      moreover from this(2) have "?c < tw_insertedAt r \<Longrightarrow> filter (\<lambda>q. c0 < tw_insertedAt q \<and> tw_insertedAt q \<le> ?c) rows = []"
        by (force simp: filter_empty_conv)
      ultimately show ?case using Cons.IH ok by (auto simp: tailOk_def not_less)
    qed simp
    then show ?thesis using ok that(1) table assms(2)
      by (simp add: tailRun_def tailStep_def tickStart_def tickEnd_def Let_def fold_tailRow q tailOk_def)
  qed
  then show ?thesis using ok table by (simp add: tailOk_def)
qed

text \<open>A row inserted in the millisecond the cursor has reached is never sent: nothing of it comes out of any later history, while
  no tick is under way at its insertion.\<close>

theorem tail_misses_ties:
  assumes "tl_pending s = []" "tw_insertedAt r \<le> tl_cursor s"
    and "\<And>q. q \<in> set (table @ archivedRows evs) \<Longrightarrow> tw_row q = tw_row r \<Longrightarrow> tw_insertedAt q \<le> tl_cursor s"
  shows "\<exists>new. tl_out (snd (tailRun (ArchiveRow r # evs) (table, s))) = tl_out s @ new \<and> BusEvent (tw_row r) \<notin> set new"
proof -
  have "tailAbove (tl_cursor s) (snd (table, s))" using assms(1) by (simp add: tailAbove_def)
  from tailAbove_run [OF this, of "ArchiveRow r # evs"] obtain new where new: "tl_out (snd (tailRun (ArchiveRow r # evs) (table, s))) = tl_out s @ new"
    "set new \<subseteq> \<Union> (set ` emissions ` {q \<in> set (table @ r # archivedRows evs). tl_cursor s < tw_insertedAt q})"
    by auto
  have "tw_row q \<noteq> tw_row r" if "q \<in> set (table @ r # archivedRows evs)" "tl_cursor s < tw_insertedAt q" for q
    using that assms(2,3) by fastforce
  then have "BusEvent (tw_row r) \<notin> set new"
    using new(2) by (force simp: emissions_def Let_def split: if_split_asm option.splits)
  then show ?thesis using new(1) by blast
qed

text \<open>Ticks that overlap send rows twice: when a query outlasts the interval, the next tick asks from the same cursor.\<close>

theorem overlapping_ticks_repeat:
  assumes "i \<noteq> j" "\<not> tl_stopped s" "tl_pending s = []"
  shows "tl_out (snd (tailRun [TickStarts i, TickStarts j, TickEnds i None, TickEnds j None] (table, s)))
     = tl_out s @ concat (map emissions (tailQuery (tl_cursor s) table)) @ concat (map emissions (tailQuery (tl_cursor s) table))"
  using assms by (simp add: tailRun_def tailStep_def tickStart_def tickEnd_def fold_tailRow Let_def jset_def jdel_def)

section \<open>Witnesses\<close>

definition rowAt :: "nat \<Rightarrow> int \<Rightarrow> tail_row" where
  "rowAt i t = \<lparr>tw_row = crossLiqNo i, tw_insertedAt = t, tw_parses = True\<rparr>"

theorem tail_delivers_witness:
  "tl_out (snd (tailRun [TickStarts 1, TickEnds 1 None] (tailRun [ArchiveRow (rowAt 1 5), TickStarts 0, TickEnds 0 None, ArchiveRow (rowAt 2 7)] ([], freshTailer 0))))
     = [BusEvent (crossLiqNo 1), BusEvent (crossLiqNo 2)]"
proof -
  let ?evs = "[ArchiveRow (rowAt 1 5), TickStarts 0, TickEnds 0 None, ArchiveRow (rowAt 2 7)]"
  have "soloTicks ?evs" "growing (archivedRows ?evs)" by (simp_all add: growing_def rowAt_def)
  moreover have "\<not> tl_stopped (snd (tailRun ?evs ([], freshTailer 0)))"
    "length (filter (\<lambda>r. tl_cursor (snd (tailRun ?evs ([], freshTailer 0))) < tw_insertedAt r) (archivedRows ?evs)) \<le> TAIL_LIMIT"
    by code_simp+
  moreover have "concat (map emissions (filter (\<lambda>r. 0 < tw_insertedAt r) (archivedRows ?evs))) = [BusEvent (crossLiqNo 1), BusEvent (crossLiqNo 2)]"
    by (simp add: rowAt_def emissions_def crossLiqNo_def noPayload_def)
  ultimately show ?thesis using tail_delivers_each_once [of ?evs _ 0 1] by metis
qed

definition tailAtFive :: live_tailer where
  "tailAtFive = \<lparr>tl_cursor = 5, tl_stopped = False, tl_pending = [], tl_out = [BusEvent (crossLiqNo 1)]\<rparr>"

theorem tail_misses_witness:
  "\<exists>new. tl_out (snd (tailRun [ArchiveRow (rowAt 2 5), TickStarts 0, TickEnds 0 None, ArchiveRow (rowAt 3 6), TickStarts 1, TickEnds 1 None] ([rowAt 1 5], tailAtFive)))
     = [BusEvent (crossLiqNo 1)] @ new \<and> BusEvent (crossLiqNo 2) \<notin> set new"
proof -
  let ?evs = "[TickStarts 0, TickEnds 0 None, ArchiveRow (rowAt 3 6), TickStarts 1, TickEnds 1 None]"
  have distinct: "crossLiqNo 3 \<noteq> crossLiqNo 2" "crossLiqNo 1 \<noteq> crossLiqNo 2" by (simp_all add: crossLiqNo_def numeral_eq_Suc)
  have five: "tl_cursor tailAtFive = 5" "tl_pending tailAtFive = []" "tl_out tailAtFive = [BusEvent (crossLiqNo 1)]" by (simp_all add: tailAtFive_def)
  have row: "tw_row (rowAt i t) = crossLiqNo i" "tw_insertedAt (rowAt i t) = t" for i t by (simp_all add: rowAt_def)
  have "\<exists>new. tl_out (snd (tailRun (ArchiveRow (rowAt 2 5) # ?evs) ([rowAt 1 5], tailAtFive))) = tl_out tailAtFive @ new
     \<and> BusEvent (tw_row (rowAt 2 5)) \<notin> set new"
    by (rule tail_misses_ties) (auto simp: five row distinct)
  then show ?thesis unfolding five row .
qed

theorem overlapping_ticks_witness:
  "tl_out (snd (tailRun [TickStarts 0, TickStarts 1, TickEnds 0 None, TickEnds 1 None] ([rowAt 2 6], tailAtFive)))
     = [BusEvent (crossLiqNo 1), BusEvent (crossLiqNo 2), BusEvent (crossLiqNo 2)]"
proof -
  have "concat (map emissions (tailQuery (tl_cursor tailAtFive) [rowAt 2 6])) = [BusEvent (crossLiqNo 2)]"
    by (simp add: tailQuery_def TAIL_LIMIT_def tailAtFive_def rowAt_def emissions_def crossLiqNo_def noPayload_def)
  then show ?thesis using overlapping_ticks_repeat [of 0 1 tailAtFive "[rowAt 2 6]"] by (simp add: tailAtFive_def)
qed

end
