(* ===== verification/ApiAdl.thy ===== *)
theory ApiAdl
  imports ApiBoard Health
begin

text \<open>
  The advisory auto-deleveraging queue of the API (\<open>api/src/services/adlQueue.ts\<close>, served by \<open>routes/adl.ts\<close>): ranking,
  quintiles, hydration of positions from ledger entries in chunks, and the cached service. The keeper ranks the same
  positions itself (theory \<open>Health\<close>).
\<close>

section \<open>Definitions: the ranking\<close>

record adl_state =
  ap_positionId :: nat
  ap_trader :: string
  ap_direction :: nat
  ap_collateral :: int
  ap_size :: int
  ap_entryPrice :: int
  ap_leverage :: int

record adl_row =
  aq_positionId :: nat
  aq_trader :: string
  aq_asset :: string
  aq_direction :: nat
  aq_size :: int
  aq_pnl :: int
  aq_score :: int
  aq_rank :: nat
  aq_quintile :: nat

record adl_winner =
  aw_state :: adl_state
  aw_pnl :: int
  aw_score :: int

definition PRECISION_BPS :: int where
  "PRECISION_BPS = 10000"

definition adlWinner :: "int \<Rightarrow> adl_state \<Rightarrow> adl_winner option" where
  "adlWinner mark p =
     (if ap_entryPrice p \<le> 0 \<or> ap_collateral p \<le> 0 then None
      else let diff = (if ap_direction p = 0 then mark - ap_entryPrice p else ap_entryPrice p - mark);
               pnl = (ap_size p * diff) sdiv ap_entryPrice p
           in if pnl \<le> 0 then None
              else Some \<lparr>aw_state = p, aw_pnl = pnl, aw_score = ((pnl * PRECISION_BPS) sdiv ap_collateral p) * ap_leverage p\<rparr>)"

definition winnerCompare :: "adl_winner \<Rightarrow> adl_winner \<Rightarrow> int" where
  "winnerCompare a b =
     (if aw_score a \<noteq> aw_score b then (if aw_score b > aw_score a then 1 else -1)
      else int (ap_positionId (aw_state a)) - int (ap_positionId (aw_state b)))"

definition quintileOf :: "nat \<Rightarrow> nat \<Rightarrow> nat" where
  "quintileOf index n = min 5 (index * 5 div n + 1)"

definition rankAdlQueue :: "adl_state list \<Rightarrow> int \<Rightarrow> string \<Rightarrow> adl_row list" where
  "rankAdlQueue positions mark asset =
     (let winners = js_sort winnerCompare (List.map_filter (adlWinner mark) positions); n = length winners
      in map (\<lambda>(index, w). let p = aw_state w in
           \<lparr>aq_positionId = ap_positionId p, aq_trader = ap_trader p, aq_asset = asset, aq_direction = ap_direction p, aq_size = ap_size p,
            aq_pnl = aw_pnl w, aq_score = aw_score w, aq_rank = index + 1, aq_quintile = quintileOf index n\<rparr>)
         (enumerate 0 winners))"

section \<open>Definitions: hydration\<close>

text \<open>The struct of a ledger entry as the SDK decodes it: an enum is a vector holding its name, a name, or a number.\<close>

datatype native_direction = DirVec "string list" | DirName string | DirNumber nat | DirAbsent

record native_position =
  np_id :: nat
  np_trader :: string
  np_direction :: native_direction
  np_collateral :: "int option"
  np_size :: "int option"
  np_entry_price :: "int option"
  np_leverage :: "int option"

definition decodeDirection :: "native_direction \<Rightarrow> nat" where
  "decodeDirection d = (case d of
      DirVec v \<Rightarrow> (case v of [] \<Rightarrow> 1 | n # ns \<Rightarrow> if n = ''Long'' then 0 else 1)
    | DirName n \<Rightarrow> if n = ''Long'' then 0 else 1
    | DirNumber n \<Rightarrow> n
    | DirAbsent \<Rightarrow> 0)"

text \<open>\<open>None\<close> is an entry that is no contract data or does not decode.\<close>

definition decodePositionEntry :: "native_position option \<Rightarrow> adl_state option" where
  "decodePositionEntry e = map_option (\<lambda>n.
     \<lparr>ap_positionId = np_id n, ap_trader = np_trader n, ap_direction = decodeDirection (np_direction n), ap_collateral = orZero (np_collateral n),
      ap_size = orZero (np_size n), ap_entryPrice = orZero (np_entry_price n), ap_leverage = orZero (np_leverage n)\<rparr>) e"

definition LEDGER_KEY_CHUNK :: nat where "LEDGER_KEY_CHUNK = 200"
definition MAX_POSITIONS_PER_ASSET :: nat where "MAX_POSITIONS_PER_ASSET = 1000"
definition ADL_TTL_MS :: int where "ADL_TTL_MS = 30000"

text \<open>Request number \<open>k\<close> asks for a chunk of ids and gets the entries found, or throws.\<close>

function hydrateFromLedger :: "(nat \<Rightarrow> nat list \<Rightarrow> string + native_position option list) \<Rightarrow> nat \<Rightarrow> nat list \<Rightarrow> string + adl_state list" where
  "hydrateFromLedger rpc k ids =
     (if ids = [] then Inr []
      else case rpc k (take LEDGER_KEY_CHUNK ids) of
             Inl e \<Rightarrow> Inl e
           | Inr entries \<Rightarrow>
               map_sum id (\<lambda>more. List.map_filter decodePositionEntry entries @ more) (hydrateFromLedger rpc (k + 1) (drop LEDGER_KEY_CHUNK ids)))"
  by pat_completeness auto
termination by (relation "measure (\<lambda>(rpc, k, ids). length ids)") (auto simp: LEDGER_KEY_CHUNK_def)

declare hydrateFromLedger.simps [simp del]

section \<open>Definitions: the service\<close>

record adl_result =
  ar_asset :: string
  ar_updatedAt :: int
  ar_degraded :: bool
  ar_rows :: "adl_row list"

text \<open>What one load sees: the ids of the asset's rows in the projection, the mark, the ledger, the clock.\<close>

record adl_env =
  ad_ids :: "string \<Rightarrow> string + nat list"
  ad_mark :: "string \<Rightarrow> string + int"
  ad_rpc :: "nat \<Rightarrow> nat list \<Rightarrow> string + native_position option list"
  ad_now :: int

definition computeAdl :: "adl_env \<Rightarrow> string \<Rightarrow> adl_result" where
  "computeAdl E asset =
     (let degraded = \<lparr>ar_asset = asset, ar_updatedAt = ad_now E, ar_degraded = True, ar_rows = []\<rparr>
      in case ad_ids E asset of
           Inl e \<Rightarrow> degraded
         | Inr all \<Rightarrow>
             (let ids = take MAX_POSITIONS_PER_ASSET all
              in if ids = [] then \<lparr>ar_asset = asset, ar_updatedAt = ad_now E, ar_degraded = False, ar_rows = []\<rparr>
                 else case ad_mark E asset of
                        Inl e \<Rightarrow> degraded
                      | Inr mark \<Rightarrow>
                          (case hydrateFromLedger (ad_rpc E) 0 ids of
                             Inl e \<Rightarrow> degraded
                           | Inr positions \<Rightarrow> \<lparr>ar_asset = asset, ar_updatedAt = ad_now E, ar_degraded = False, ar_rows = rankAdlQueue positions mark asset\<rparr>)))"

definition adlQueue :: "adl_env \<Rightarrow> string \<Rightarrow> int \<Rightarrow> adl_result ttl_cache \<Rightarrow> adl_result ttl_cache \<times> adl_result" where
  "adlQueue E asset now cache =
     (case ttlGet asset now cache of
        (m, Some r) \<Rightarrow> (m, r)
      | (m, None) \<Rightarrow> (let r = computeAdl E asset in (ttlSet ADL_TTL_MS asset r (ad_now E) m, r)))"

definition adlQuintiles :: "adl_result \<Rightarrow> (nat, nat) jmap" where
  "adlQuintiles r = fold (\<lambda>row. jset (aq_positionId row) (aq_quintile row)) (ar_rows r) []"

definition adlRoute :: "string option \<Rightarrow> adl_result \<Rightarrow> adl_result" where
  "adlRoute trader r = (if isGiven trader then r\<lparr>ar_rows := filter (\<lambda>row. Some (aq_trader row) = trader) (ar_rows r)\<rparr> else r)"

section \<open>Lemmas\<close>

definition winnerKey :: "adl_winner \<Rightarrow> int \<times> nat" where
  "winnerKey w = (- aw_score w, ap_positionId (aw_state w))"

interpretation winners: comparator winnerCompare winnerKey
  by unfold_locales (auto simp: winnerCompare_def winnerKey_def less_prod_def')

text \<open>The position behind an entry, for the keeper.\<close>

definition stateOf :: "position \<Rightarrow> adl_state" where
  "stateOf p = \<lparr>ap_positionId = p_id p, ap_trader = p_trader p, ap_direction = (case p_direction p of Long \<Rightarrow> 0 | Short \<Rightarrow> 1),
     ap_collateral = p_collateral p, ap_size = p_size p, ap_entryPrice = p_entry_price p, ap_leverage = p_leverage p\<rparr>"

definition sane :: "position \<Rightarrow> bool" where
  "sane p \<longleftrightarrow> 0 < p_entry_price p \<and> 0 < p_collateral p"

definition winnerOf :: "position adl_candidate \<Rightarrow> adl_winner" where
  "winnerOf c = \<lparr>aw_state = stateOf (c_position c), aw_pnl = c_pnl c, aw_score = c_score c\<rparr>"

lemma winner_candidate: "sane p \<Longrightarrow> adlWinner mark (stateOf p) = map_option winnerOf (adlCandidate mark p)"
  by (auto simp: sane_def adlWinner_def stateOf_def adlCandidate_def calculatePnl_def winnerOf_def adlRank_def PRECISION_BPS_def BASIS_POINTS_def Let_def
      split: direction.split)

lemma winners_candidates:
  assumes "\<forall>p \<in> set ps. sane p"
  shows "List.map_filter (adlWinner mark) (map stateOf ps) = map winnerOf (List.map_filter (adlCandidate mark) ps)"
  using assms by (induction ps) (auto simp: map_filter_simps winner_candidate split: option.split)

lemma sort_key_map: "sort_key k (map f xs) = map f (sort_key (\<lambda>x. k (f x)) xs)"
proof -
  have "insort_key k (f x) (map f xs) = map f (insort_key (\<lambda>x. k (f x)) x xs)" for x xs by (induction xs) auto
  then show ?thesis by (induction xs) auto
qed

lemma winners_sorted:
  assumes "\<forall>p \<in> set ps. sane p" "distinct (map p_id ps)"
  shows "js_sort winnerCompare (List.map_filter (adlWinner mark) (map stateOf ps)) = map winnerOf (rankAdlCandidates ps mark)"
proof -
  have key: "winnerKey (winnerOf c) = adlKey c" for c :: "position adl_candidate" by (simp add: winnerKey_def winnerOf_def adlKey_def stateOf_def)
  have "distinct (map winnerKey (map winnerOf (List.map_filter (adlCandidate mark) ps)))"
    using distinct_adlKeys [OF assms(2), of mark] by (simp add: comp_def key)
  then have "js_sort winnerCompare (map winnerOf (List.map_filter (adlCandidate mark) ps)) = map winnerOf (sort_key adlKey (List.map_filter (adlCandidate mark) ps))"
    using winners.js_sort_eq_sort_key by (simp add: sort_key_map key)
  then show ?thesis
    unfolding winners_candidates [OF assms(1)] rankAdlCandidates_def by (simp add: adl.js_sort_eq_sort_key [OF distinct_adlKeys [OF assms(2)]])
qed

text \<open>A ledger that answers with the entries it has, in the order of the keys.\<close>

lemma hydrate_honest:
  assumes "\<And>k chunk. rpc k chunk = Inr (map Some (List.map_filter ledger chunk))"
  shows "hydrateFromLedger rpc k ids = Inr (List.map_filter (\<lambda>i. decodePositionEntry (ledger i)) ids)"
proof (induction "length ids" arbitrary: ids k rule: less_induct)
  case less
  have decode: "List.map_filter decodePositionEntry (map Some (List.map_filter ledger chunk)) = List.map_filter (\<lambda>i. decodePositionEntry (ledger i)) chunk" for chunk
    by (induction chunk) (auto simp: map_filter_simps decodePositionEntry_def split: option.split)
  have whole: "List.map_filter f (take n xs) @ List.map_filter f (drop n xs) = List.map_filter f xs" for f :: "nat \<Rightarrow> adl_state option" and n xs
    by (metis append_take_drop_id map_filter_append)
  show ?case
  proof (cases "ids = []")
    case False
    then have "length (drop LEDGER_KEY_CHUNK ids) < length ids" by (simp add: LEDGER_KEY_CHUNK_def)
    from less.hyps [OF this] show ?thesis
      using False by (subst hydrateFromLedger.simps) (simp add: assms decode whole)
  qed (subst hydrateFromLedger.simps, simp add: map_filter_simps)
qed

definition nativeOf :: "position \<Rightarrow> native_position" where
  "nativeOf p = \<lparr>np_id = p_id p, np_trader = p_trader p, np_direction = DirVec [case p_direction p of Long \<Rightarrow> ''Long'' | Short \<Rightarrow> ''Short''],
     np_collateral = Some (p_collateral p), np_size = Some (p_size p), np_entry_price = Some (p_entry_price p), np_leverage = Some (p_leverage p)\<rparr>"

lemma decode_nativeOf: "decodePositionEntry (Some (nativeOf p)) = Some (stateOf p)"
  by (simp add: decodePositionEntry_def nativeOf_def stateOf_def decodeDirection_def orZero_def split: direction.split)

lemma rows_of_winners:
  "map (\<lambda>r. (aq_positionId r, aq_pnl r, aq_score r)) (rankAdlQueue ps mark asset)
     = map (\<lambda>w. (ap_positionId (aw_state w), aw_pnl w, aw_score w)) (js_sort winnerCompare (List.map_filter (adlWinner mark) ps))"
proof -
  have "map (\<lambda>r. (aq_positionId r, aq_pnl r, aq_score r)) (map (\<lambda>(index, w). let p = aw_state w in
      \<lparr>aq_positionId = ap_positionId p, aq_trader = ap_trader p, aq_asset = asset, aq_direction = ap_direction p, aq_size = ap_size p,
       aq_pnl = aw_pnl w, aq_score = aw_score w, aq_rank = index + 1, aq_quintile = quintileOf index n\<rparr>) (enumerate k ws))
    = map (\<lambda>w. (ap_positionId (aw_state w), aw_pnl w, aw_score w)) ws" for n k ws
    by (induction ws arbitrary: k) (simp_all add: Let_def)
  then show ?thesis by (simp add: rankAdlQueue_def Let_def)
qed

lemma number_rows:
  "map aq_quintile (map (\<lambda>(index, w). let p = aw_state w in
      \<lparr>aq_positionId = ap_positionId p, aq_trader = ap_trader p, aq_asset = asset, aq_direction = ap_direction p, aq_size = ap_size p,
       aq_pnl = aw_pnl w, aq_score = aw_score w, aq_rank = index + 1, aq_quintile = quintileOf index n\<rparr>) (enumerate k ws))
    = map (\<lambda>i. quintileOf i n) [k..<k + length ws]"
proof (induction ws arbitrary: k)
  case (Cons w ws)
  have "[k..<k + length (w # ws)] = k # [Suc k..<Suc k + length ws]" by (subst upt_rec) simp
  then show ?case using Cons.IH [of "Suc k"] by (simp add: Let_def)
qed simp

lemma quintiles_of_rows:
  "map aq_quintile (rankAdlQueue ps mark asset) = map (\<lambda>i. quintileOf i (length (rankAdlQueue ps mark asset))) [0..<length (rankAdlQueue ps mark asset)]"
  using number_rows [of asset _ 0 "js_sort winnerCompare (List.map_filter (adlWinner mark) ps)"] by (simp add: rankAdlQueue_def Let_def)

lemma div_range: "0 < n \<Longrightarrow> (x::nat) div n = m \<longleftrightarrow> m * n \<le> x \<and> x < m * n + n"
  by (metis add.commute add_mult_distrib2 div_nat_eqI div_times_less_eq_dividend dividend_less_div_times mult.commute mult_Suc_right)

lemma multiples_between: "card {i. a \<le> i * 5 \<and> i * 5 < a + n} = (a + n + 4) div 5 - (a + 4) div (5::nat)"
proof -
  have "a \<le> i * 5 \<longleftrightarrow> (a + 4) div 5 \<le> i" for i by presburger
  moreover have "i * 5 < b \<longleftrightarrow> i < (b + 4) div 5" for i b :: nat by presburger
  ultimately have "{i. a \<le> i * 5 \<and> i * 5 < a + n} = {(a + 4) div 5 ..< (a + n + 4) div 5}" by (simp add: set_eq_iff)
  then show ?thesis by simp
qed

lemma quintile_members:
  assumes "1 \<le> q" "q \<le> 5"
  shows "{i. i < n \<and> quintileOf i n = q} = {i. (q - 1) * n \<le> i * 5 \<and> i * 5 < (q - 1) * n + n}"
proof -
  have "i < n \<and> quintileOf i n = q \<longleftrightarrow> (q - 1) * n \<le> i * 5 \<and> i * 5 < (q - 1) * n + n" for i
  proof (cases "i < n")
    case True
    then have "i * 5 div n < 5" by (simp add: less_mult_imp_div_less)
    then have "quintileOf i n = q \<longleftrightarrow> i * 5 div n = q - 1" using assms(1) by (auto simp: quintileOf_def)
    also have "\<dots> \<longleftrightarrow> (q - 1) * n \<le> i * 5 \<and> i * 5 < (q - 1) * n + n"
      using True by (intro div_range) simp
    finally show ?thesis using True by simp
  next
    case False
    have "(q - 1) * n \<le> 4 * n" using assms by (intro mult_le_mono1) simp
    then show ?thesis using False by linarith
  qed
  then show ?thesis by auto
qed

section \<open>Properties\<close>


text \<open>Quintiles are even: in a queue of \<open>n\<close> rows each of the five holds \<open>n / 5\<close> of them, rounded down or up, and they grow with the
  rank.\<close>

theorem quintiles_even:
  assumes "rows = rankAdlQueue ps mark asset" "1 \<le> q" "q \<le> 5"
  shows "length rows div 5 \<le> length (filter (\<lambda>r. aq_quintile r = q) rows) \<and> length (filter (\<lambda>r. aq_quintile r = q) rows) \<le> (length rows + 4) div 5
     \<and> sorted (map aq_quintile rows)"
proof -
  let ?n = "length rows"
  have quintile: "aq_quintile (rows ! i) = quintileOf i ?n" if "i < ?n" for i
    using arg_cong [where f = "\<lambda>xs. xs ! i", OF quintiles_of_rows [of ps mark asset]] that assms(1) by simp
  have "length (filter (\<lambda>r. aq_quintile r = q) rows) = card {i. i < ?n \<and> quintileOf i ?n = q}"
    unfolding length_filter_conv_card using quintile by (metis (mono_tags, lifting))
  also have "\<dots> = ((q - 1) * ?n + ?n + 4) div 5 - ((q - 1) * ?n + 4) div 5"
    unfolding quintile_members [OF assms(2,3)] by (rule multiples_between)
  finally have "length (filter (\<lambda>r. aq_quintile r = q) rows) = ((q - 1) * ?n + ?n + 4) div 5 - ((q - 1) * ?n + 4) div 5" .
  moreover have "sorted (map aq_quintile rows)"
    unfolding assms(1) quintiles_of_rows sorted_map
    by (auto simp: sorted_wrt_iff_nth_less quintileOf_def intro!: min.coboundedI2 div_le_mono)
  ultimately show ?thesis by linarith
qed

section \<open>Witnesses\<close>

definition longPosition :: "nat \<Rightarrow> int \<Rightarrow> position" where
  "longPosition i entry = \<lparr>p_asset = ''BTC'', p_collateral = 100, p_size = 1000, p_entry_price = entry, p_direction = Long, p_liquidation_price = 0,
     p_id = i, p_leverage = 10, p_trader = ''G'', p_timestamp = 0, p_entry_cumulative_funding = 0, p_margin_mode = 0\<rparr>"

definition btcBook :: "nat \<Rightarrow> position option" where
  "btcBook i = (if i = 1 then Some (longPosition 1 50) else if i = 2 then Some (longPosition 2 40) else None)"

definition btcEnv :: adl_env where
  "btcEnv = \<lparr>ad_ids = (\<lambda>a. Inr [1, 2, 3]), ad_mark = (\<lambda>a. Inr 60),
     ad_rpc = (\<lambda>k chunk. Inr (map Some (List.map_filter (\<lambda>i. map_option nativeOf (btcBook i)) chunk))), ad_now = 7\<rparr>"


theorem quintiles_witness:
  "length (filter (\<lambda>r. aq_quintile r = 1) (rankAdlQueue (map (\<lambda>i. stateOf (longPosition i 50)) [1, 2, 3, 4, 5, 6, 7]) 60 ''BTC'')) \<in> {1, 2}"
proof -
  let ?rows = "rankAdlQueue (map (\<lambda>i. stateOf (longPosition i 50)) [1, 2, 3, 4, 5, 6, 7]) 60 ''BTC''"
  have "length ?rows = 7" by code_simp
  then show ?thesis using quintiles_even [OF refl, of 1 "map (\<lambda>i. stateOf (longPosition i 50)) [1, 2, 3, 4, 5, 6, 7]" 60 "''BTC''"] by auto
qed

end
