(* ===== verification/ApiCapacity.thy ===== *)
theory ApiCapacity
  imports Capacity "HOL-Library.AList"
begin

text \<open>
  Pool capacity over HTTP: the market's exposure entries (\<open>readAssetExposure\<close> of \<open>api/src/services/contractReader.ts\<close>) and
  the service that turns them and the vault's views into headroom (\<open>services/capacity.ts\<close>). Requests that find no fresh
  snapshot share one refresh, which waits for the parameters and then for the reads.
\<close>

section \<open>Definitions: exposure entries\<close>

text \<open>A response: the ledger it is from, and the found entries, each with its symbol and the tuple it holds.\<close>

type_synonym exposure_reply = "nat option \<times> (string \<times> int list) list"

definition EXPOSURE_KEY_CHUNK :: nat where
  "EXPOSURE_KEY_CHUNK = 50"

definition putExposure :: "string list \<Rightarrow> string \<times> int list \<Rightarrow> (string, int \<times> int) jmap \<Rightarrow> (string, int \<times> int) jmap" where
  "putExposure symbols e m =
     (if fst e \<notin> set symbols \<or> length (snd e) < 4 then m else jset (fst e) (snd e ! 1, snd e ! 3) m)"

function readChunks :: "(nat \<Rightarrow> string list \<Rightarrow> string + exposure_reply) \<Rightarrow> string list \<Rightarrow> nat \<Rightarrow> string list
    \<Rightarrow> (string, int \<times> int) jmap \<times> nat option \<Rightarrow> string + (string, int \<times> int) jmap \<times> nat option" where
  "readChunks rpc symbols k keys acc =
     (if keys = [] then Inr acc
      else case rpc k (take EXPOSURE_KEY_CHUNK keys) of
             Inl e \<Rightarrow> Inl e
           | Inr (ledger, entries) \<Rightarrow>
               readChunks rpc symbols (k + 1) (drop EXPOSURE_KEY_CHUNK keys)
                 (fold (putExposure symbols) entries (fst acc), case ledger of None \<Rightarrow> snd acc | Some n \<Rightarrow> Some n))"
  by pat_completeness auto
termination by (relation "measure (\<lambda>(rpc, symbols, k, keys, acc). length keys)") (auto simp: EXPOSURE_KEY_CHUNK_def)

declare readChunks.simps [simp del]

definition readAssetExposure :: "(nat \<Rightarrow> string list \<Rightarrow> string + exposure_reply) \<Rightarrow> string list \<Rightarrow> string + (string, int \<times> int) jmap \<times> nat option" where
  "readAssetExposure rpc symbols = readChunks rpc symbols 0 symbols (fold (\<lambda>s. jset s (0, 0)) symbols [], None)"

section \<open>Definitions: the snapshot\<close>

record asset_params =
  vp_assetCapBps :: int
  vp_capAbs :: int
  vp_skewCapBps :: int
  vp_maxPositionSize :: "int option"

record vault_params =
  vp_reserveCapBps :: int
  vp_perAsset :: "(string, asset_params) jmap"

record chain_reads =
  rd_exposure :: "(string, int \<times> int) jmap"
  rd_latestLedger :: "nat option"
  rd_aum :: int
  rd_reservedPayout :: int
  rd_usdcBalance :: int
  rd_shortfallReserve :: int

record asset_capacity =
  ct_headroomLong :: int
  ct_headroomShort :: int
  ct_bindingLong :: capacity_binding
  ct_bindingShort :: capacity_binding
  ct_oiLong :: int
  ct_oiShort :: int
  ct_netSkew :: int
  ct_sideCap :: int
  ct_skewCap :: int
  ct_assetCapBps :: int
  ct_capAbs :: int
  ct_skewCapBps :: int
  ct_maxPositionSize :: "int option"

record pool_capacity =
  po_aum :: int
  po_reservedPayout :: int
  po_usdcBalance :: int
  po_shortfallReserve :: int
  po_reserveCapBps :: int
  po_reserveCap :: int
  po_aggregateHeadroom :: int
  po_aggregateBinding :: capacity_binding
  po_asOfLedger :: "nat option"
  po_ts :: int
  po_stale :: bool

record capacity_snapshot =
  cn_pool :: pool_capacity
  cn_assets :: "(string, asset_capacity) jmap"

definition inputsOf :: "vault_params \<Rightarrow> chain_reads \<Rightarrow> string \<Rightarrow> asset_params \<Rightarrow> capacity_inputs" where
  "inputsOf P R symbol p =
     (let oi = jget_or (rd_exposure R) symbol (0, 0)
      in \<lparr>aum = rd_aum R, reservedPayout = rd_reservedPayout R, reserveCapBps = vp_reserveCapBps P, usdcBalance = rd_usdcBalance R,
          shortfallReserve = rd_shortfallReserve R, assetCapBps = vp_assetCapBps p, capAbs = vp_capAbs p, skewCapBps = vp_skewCapBps p,
          longOi = fst oi, shortOi = snd oi, maxPositionSize = vp_maxPositionSize p\<rparr>)"

definition assetCapacity :: "capacity_inputs \<Rightarrow> asset_capacity" where
  "assetCapacity i =
     (let h = computeHeadroom i
      in \<lparr>ct_headroomLong = headroom (h_long h), ct_headroomShort = headroom (h_short h), ct_bindingLong = binding (h_long h),
          ct_bindingShort = binding (h_short h), ct_oiLong = longOi i, ct_oiShort = shortOi i, ct_netSkew = h_net h, ct_sideCap = h_sideCap h,
          ct_skewCap = h_skewCap h, ct_assetCapBps = assetCapBps i, ct_capAbs = capAbs i, ct_skewCapBps = skewCapBps i,
          ct_maxPositionSize = maxPositionSize i\<rparr>)"

definition poolCapacity :: "capacity_inputs \<Rightarrow> nat option \<Rightarrow> int \<Rightarrow> pool_capacity" where
  "poolCapacity i ledger now =
     (let h = computeHeadroom i
      in \<lparr>po_aum = aum i, po_reservedPayout = reservedPayout i, po_usdcBalance = usdcBalance i, po_shortfallReserve = shortfallReserve i,
          po_reserveCapBps = reserveCapBps i, po_reserveCap = h_reserveCap h, po_aggregateHeadroom = aggregateHeadroom h,
          po_aggregateBinding = aggregateBinding h, po_asOfLedger = ledger, po_ts = now, po_stale = False\<rparr>)"

text \<open>The loop over the symbols; the first symbol with parameters also makes the pool's figures.\<close>

fun buildLoop :: "vault_params \<Rightarrow> chain_reads \<Rightarrow> int \<Rightarrow> string list \<Rightarrow> pool_capacity option \<times> (string, asset_capacity) jmap
    \<Rightarrow> pool_capacity option \<times> (string, asset_capacity) jmap" where
  "buildLoop P R now [] acc = acc"
| "buildLoop P R now (s # ss) acc =
     (case map_of (vp_perAsset P) s of
        None \<Rightarrow> buildLoop P R now ss acc
      | Some p \<Rightarrow>
          (let i = inputsOf P R s p
           in buildLoop P R now ss
                (case fst acc of None \<Rightarrow> Some (poolCapacity i (rd_latestLedger R) now) | Some c \<Rightarrow> Some c,
                 jset s (assetCapacity i) (snd acc))))"

definition buildCapacity :: "string list \<Rightarrow> vault_params \<Rightarrow> chain_reads \<Rightarrow> int \<Rightarrow> capacity_snapshot option" where
  "buildCapacity symbols P R now =
     (case buildLoop P R now symbols (None, []) of (pool, assets) \<Rightarrow> map_option (\<lambda>c. \<lparr>cn_pool = c, cn_assets = assets\<rparr>) pool)"

section \<open>Definitions: the service\<close>

record capacity_config =
  cc_vaultId :: string
  cc_marketId :: string
  cc_symbols :: "string list"
  cc_hotTtlMs :: int
  cc_paramsTtlMs :: int
  cc_staleGraceMs :: int

definition HOT_TTL_MS :: int where "HOT_TTL_MS = 5000"
definition PARAMS_TTL_MS :: int where "PARAMS_TTL_MS = 300000"
definition STALE_GRACE_MS :: int where "STALE_GRACE_MS = 30000"

text \<open>What the parameter reads answer: the reserve cap, and per symbol the caps with the market's limit.\<close>

record params_reply =
  pq_reserveCap :: "string + int"
  pq_asset :: "string \<Rightarrow> string + asset_params"

definition fetchParams :: "params_reply \<Rightarrow> string list \<Rightarrow> string + vault_params" where
  "fetchParams q symbols =
     (case pq_reserveCap q of
        Inl e \<Rightarrow> Inl e
      | Inr cap \<Rightarrow>
          (case find (\<lambda>s. isl (pq_asset q s)) symbols of
             Some s \<Rightarrow> Inl (projl (pq_asset q s))
           | None \<Rightarrow> Inr \<lparr>vp_reserveCapBps = cap, vp_perAsset = fold (\<lambda>s. jset s (projr (pq_asset q s))) symbols []\<rparr>))"

datatype refresh_phase = AwaitParams int | AwaitReads vault_params

text \<open>The fields of the service, the callers that share the refresh under way, and the answers given, each with its caller and
  the caller's time.\<close>

record capacity_service =
  ca_last :: "(capacity_snapshot \<times> int) option"
  ca_params :: "(vault_params \<times> int) option"
  ca_inflight :: "refresh_phase option"
  ca_waiting :: "(nat \<times> int) list"
  ca_answers :: "(nat \<times> int \<times> capacity_snapshot option) list"

definition freshCapacity :: capacity_service where
  "freshCapacity = \<lparr>ca_last = None, ca_params = None, ca_inflight = None, ca_waiting = [], ca_answers = []\<rparr>"

definition asStale :: "capacity_snapshot \<Rightarrow> capacity_snapshot" where
  "asStale v = v\<lparr>cn_pool := (cn_pool v)\<lparr>po_stale := True\<rparr>\<rparr>"

text \<open>The rest of \<open>snapshot\<close> for one caller once the shared refresh has settled.\<close>

definition afterRefresh :: "capacity_config \<Rightarrow> capacity_snapshot option \<Rightarrow> (capacity_snapshot \<times> int) option \<Rightarrow> int \<Rightarrow> capacity_snapshot option" where
  "afterRefresh cfg fresh kept now =
     (case fresh of
        Some v \<Rightarrow> Some v
      | None \<Rightarrow>
          (case kept of
             None \<Rightarrow> None
           | Some (v, at') \<Rightarrow> if now - at' < cc_hotTtlMs cfg + cc_staleGraceMs cfg then Some (asStale v) else None))"

definition settleRefresh :: "capacity_config \<Rightarrow> capacity_snapshot option \<Rightarrow> capacity_service \<Rightarrow> capacity_service" where
  "settleRefresh cfg fresh s =
     s\<lparr>ca_inflight := None, ca_waiting := [],
       ca_answers := ca_answers s @ map (\<lambda>(i, now). (i, now, afterRefresh cfg fresh (ca_last s) now)) (ca_waiting s)\<rparr>"

text \<open>The start of \<open>refresh\<close>: a service without contract ids has nothing to read; fresh parameters need no reload.\<close>

definition startRefresh :: "capacity_config \<Rightarrow> int \<Rightarrow> capacity_service \<Rightarrow> capacity_service" where
  "startRefresh cfg now s =
     (if cc_vaultId cfg = [] \<or> cc_marketId cfg = [] then settleRefresh cfg None s
      else case ca_params s of
             Some (P, at') \<Rightarrow>
               if now - at' < cc_paramsTtlMs cfg then s\<lparr>ca_inflight := Some (AwaitReads P)\<rparr> else s\<lparr>ca_inflight := Some (AwaitParams now)\<rparr>
           | None \<Rightarrow> s\<lparr>ca_inflight := Some (AwaitParams now)\<rparr>)"

definition askCapacity :: "capacity_config \<Rightarrow> nat \<Rightarrow> int \<Rightarrow> capacity_service \<Rightarrow> capacity_service" where
  "askCapacity cfg i now s =
     (case ca_last s of
        Some (v, at') \<Rightarrow>
          if now - at' < cc_hotTtlMs cfg then s\<lparr>ca_answers := ca_answers s @ [(i, now, Some v)]\<rparr>
          else (let s = s\<lparr>ca_waiting := ca_waiting s @ [(i, now)]\<rparr> in if ca_inflight s = None then startRefresh cfg now s else s)
      | None \<Rightarrow> (let s = s\<lparr>ca_waiting := ca_waiting s @ [(i, now)]\<rparr> in if ca_inflight s = None then startRefresh cfg now s else s))"

text \<open>The parameters arrive, fail, or time out (\<open>None\<close>): a failure keeps the old set and ends the refresh when there is none.\<close>

definition paramsArrive :: "capacity_config \<Rightarrow> params_reply option \<Rightarrow> capacity_service \<Rightarrow> capacity_service" where
  "paramsArrive cfg reply s =
     (case ca_inflight s of
        Some (AwaitParams t0) \<Rightarrow>
          (case (case reply of None \<Rightarrow> Inl ''timed out'' | Some q \<Rightarrow> fetchParams q (cc_symbols cfg)) of
             Inr P \<Rightarrow> s\<lparr>ca_params := Some (P, t0), ca_inflight := Some (AwaitReads P)\<rparr>
           | Inl e \<Rightarrow>
               (case ca_params s of
                  Some (P, at') \<Rightarrow> s\<lparr>ca_inflight := Some (AwaitReads P)\<rparr>
                | None \<Rightarrow> settleRefresh cfg None s))
      | _ \<Rightarrow> s)"

text \<open>The five reads arrive, or one of them fails or times out.\<close>

definition readsArrive :: "capacity_config \<Rightarrow> chain_reads option \<Rightarrow> int \<Rightarrow> capacity_service \<Rightarrow> capacity_service" where
  "readsArrive cfg reply now s =
     (case ca_inflight s of
        Some (AwaitReads P) \<Rightarrow>
          (case reply of
             None \<Rightarrow> settleRefresh cfg None s
           | Some R \<Rightarrow>
               (case buildCapacity (cc_symbols cfg) P R now of
                  None \<Rightarrow> settleRefresh cfg None s
                | Some v \<Rightarrow> settleRefresh cfg (Some v) (s\<lparr>ca_last := Some (v, now)\<rparr>)))
      | _ \<Rightarrow> s)"

definition invalidateCapacity :: "capacity_service \<Rightarrow> capacity_service" where
  "invalidateCapacity s = s\<lparr>ca_last := None, ca_params := None\<rparr>"

datatype capacity_event = AskCapacity nat int | ParamsArrive "params_reply option" int | ReadsArrive "chain_reads option" int | InvalidateCapacity int

definition capacityStep :: "capacity_config \<Rightarrow> capacity_event \<Rightarrow> capacity_service \<Rightarrow> capacity_service" where
  "capacityStep cfg ev s = (case ev of
      AskCapacity i now \<Rightarrow> askCapacity cfg i now s
    | ParamsArrive r now \<Rightarrow> paramsArrive cfg r s
    | ReadsArrive r now \<Rightarrow> readsArrive cfg r now s
    | InvalidateCapacity now \<Rightarrow> invalidateCapacity s)"

definition capacityRun :: "capacity_config \<Rightarrow> capacity_event list \<Rightarrow> capacity_service" where
  "capacityRun cfg evs = fold (capacityStep cfg) evs freshCapacity"

fun eventTime :: "capacity_event \<Rightarrow> int" where
  "eventTime (AskCapacity i now) = now"
| "eventTime (ParamsArrive r now) = now"
| "eventTime (ReadsArrive r now) = now"
| "eventTime (InvalidateCapacity now) = now"

section \<open>Lemmas: exposure\<close>

text \<open>A ledger that answers each chunk with the entries it holds among the keys.\<close>

definition exposureEntries :: "(string \<Rightarrow> int list option) \<Rightarrow> string list \<Rightarrow> (string \<times> int list) list" where
  "exposureEntries ledger keys = List.map_filter (\<lambda>s. map_option (Pair s) (ledger s)) keys"

definition sideSizes :: "int list option \<Rightarrow> int \<times> int" where
  "sideSizes t = (case t of None \<Rightarrow> (0, 0) | Some xs \<Rightarrow> (xs ! 1, xs ! 3))"

lemma put_entries:
  assumes "set keys \<subseteq> set symbols" "\<And>s xs. ledger s = Some xs \<Longrightarrow> length xs = 4"
  shows "map_of (fold (putExposure symbols) (exposureEntries ledger keys) m) s
     = (if s \<in> set keys \<and> ledger s \<noteq> None then Some (sideSizes (ledger s)) else map_of m s)"
  using assms(1)
proof (induction keys arbitrary: m)
  case (Cons k ks)
  then show ?case
    using assms(2) by (cases "ledger k") (auto simp: exposureEntries_def map_filter_simps putExposure_def sideSizes_def)
qed (simp add: exposureEntries_def map_filter_simps)

lemma read_chunks_honest:
  assumes "\<And>k keys. \<exists>n. rpc k keys = Inr (n, exposureEntries ledger keys)" "\<And>s xs. ledger s = Some xs \<Longrightarrow> length xs = 4"
    and "set keys \<subseteq> set symbols"
  shows "\<exists>m n. readChunks rpc symbols k keys acc = Inr (m, n)
     \<and> (\<forall>s. map_of m s = (if s \<in> set keys \<and> ledger s \<noteq> None then Some (sideSizes (ledger s)) else map_of (fst acc) s))"
  using assms(3)
proof (induction "length keys" arbitrary: keys k acc rule: less_induct)
  case less
  show ?case
  proof (cases "keys = []")
    case True
    then show ?thesis by (subst readChunks.simps) (cases acc, simp)
  next
    case False
    let ?now = "take EXPOSURE_KEY_CHUNK keys" and ?rest = "drop EXPOSURE_KEY_CHUNK keys"
    obtain n where n: "rpc k ?now = Inr (n, exposureEntries ledger ?now)" using assms(1) by blast
    let ?acc = "(fold (putExposure symbols) (exposureEntries ledger ?now) (fst acc), case n of None \<Rightarrow> snd acc | Some n \<Rightarrow> Some n)"
    have split: "set keys = set ?now \<union> set ?rest" by (metis append_take_drop_id set_append)
    have "length ?rest < length keys" using False by (simp add: EXPOSURE_KEY_CHUNK_def)
    moreover have "set ?rest \<subseteq> set symbols" using less.prems split by blast
    ultimately obtain m n' where rest: "readChunks rpc symbols (k + 1) ?rest ?acc = Inr (m, n')"
        "\<And>s. map_of m s = (if s \<in> set ?rest \<and> ledger s \<noteq> None then Some (sideSizes (ledger s)) else map_of (fst ?acc) s)"
      using less.hyps [of ?rest "k + 1" ?acc] by blast
    have "set ?now \<subseteq> set symbols" using less.prems split by blast
    from put_entries [OF this assms(2)]
    have "map_of m s = (if s \<in> set keys \<and> ledger s \<noteq> None then Some (sideSizes (ledger s)) else map_of (fst acc) s)" for s
      by (simp add: rest(2) split)
    moreover have "readChunks rpc symbols k keys acc = Inr (m, n')"
      using False n rest(1) by (subst readChunks.simps) simp
    ultimately show ?thesis by blast
  qed
qed

text \<open>The entries are exact: every symbol asked for gets the sizes its entry holds, and zeros when nobody traded it.\<close>

lemma exposure_exact:
  assumes "\<And>k keys. \<exists>n. rpc k keys = Inr (n, exposureEntries ledger keys)" "\<And>s xs. ledger s = Some xs \<Longrightarrow> length xs = 4"
  shows "\<exists>m n. readAssetExposure rpc symbols = Inr (m, n) \<and> (\<forall>s \<in> set symbols. map_of m s = Some (sideSizes (ledger s)))"
proof -
  have zeros: "map_of (fold (\<lambda>s. jset s (0, 0)) ks m) s = (if s \<in> set ks then Some (0, 0) else map_of m s)"
    for ks and m :: "(string, int \<times> int) jmap" and s by (induction ks arbitrary: m) auto
  let ?acc = "(fold (\<lambda>s. jset s (0::int, 0::int)) symbols [], None :: nat option)"
  have "\<exists>m n. readChunks rpc symbols 0 symbols ?acc = Inr (m, n)
      \<and> (\<forall>s. map_of m s = (if s \<in> set symbols \<and> ledger s \<noteq> None then Some (sideSizes (ledger s)) else map_of (fst ?acc) s))"
    by (rule read_chunks_honest) (use assms in auto)
  then obtain m n where mn: "readChunks rpc symbols 0 symbols ?acc = Inr (m, n)"
      "\<And>s. map_of m s = (if s \<in> set symbols \<and> ledger s \<noteq> None then Some (sideSizes (ledger s)) else map_of (fst ?acc) s)" by blast
  then have "map_of m s = Some (sideSizes (ledger s))" if "s \<in> set symbols" for s
    using that by (auto simp: zeros sideSizes_def)
  with mn(1) show ?thesis by (auto simp: readAssetExposure_def)
qed

section \<open>Lemmas: the snapshot\<close>

lemma fetched_params:
  assumes "fetchParams q symbols = Inr P" "s \<in> set symbols"
  shows "\<exists>p. pq_asset q s = Inr p \<and> map_of (vp_perAsset P) s = Some p"
proof -
  from assms(1) have ok: "find (\<lambda>s. isl (pq_asset q s)) symbols = None"
    and P: "vp_perAsset P = fold (\<lambda>s. jset s (projr (pq_asset q s))) symbols []"
    by (auto simp: fetchParams_def split: sum.splits option.splits)
  have "map_of (fold (\<lambda>s. jset s (projr (pq_asset q s))) ks m) s = (if s \<in> set ks then Some (projr (pq_asset q s)) else map_of m s)"
    for ks and m :: "(string, asset_params) jmap" by (induction ks arbitrary: m) auto
  with assms(2) P have "map_of (vp_perAsset P) s = Some (projr (pq_asset q s))" by simp
  moreover have "\<not> isl (pq_asset q s)" using ok assms(2) by (auto simp: find_None_iff)
  ultimately show ?thesis by (cases "pq_asset q s") auto
qed

lemma build_assets:
  "map_of (snd (buildLoop P R now ss acc)) s
     = (if s \<in> set ss \<and> map_of (vp_perAsset P) s \<noteq> None then Some (assetCapacity (inputsOf P R s (the (map_of (vp_perAsset P) s))))
        else map_of (snd acc) s)"
  by (induction ss arbitrary: acc) (auto simp: Let_def split: option.split)

lemma build_not_stale:
  "pred_option (\<lambda>c. \<not> po_stale c) (fst acc) \<Longrightarrow> pred_option (\<lambda>c. \<not> po_stale c) (fst (buildLoop P R now ss acc))"
proof (induction ss arbitrary: acc)
  case (Cons s ss)
  have fresh: "\<not> po_stale (poolCapacity i n now)" for i n by (simp add: poolCapacity_def Let_def)
  show ?case
    using Cons.prems by (cases "map_of (vp_perAsset P) s"; cases "fst acc") (auto simp: Let_def fresh intro!: Cons.IH)
qed simp

lemma built_snapshot:
  assumes "buildCapacity symbols P R now = Some v"
  shows "\<not> po_stale (cn_pool v) \<and> (\<forall>s \<in> set symbols. \<forall>p. map_of (vp_perAsset P) s = Some p \<longrightarrow> map_of (cn_assets v) s = Some (assetCapacity (inputsOf P R s p)))"
  using assms build_not_stale [of "(None, [])" P R now symbols] build_assets [of P R now symbols "(None, [])"]
  by (auto simp: buildCapacity_def split: prod.splits)

section \<open>Lemmas: the service\<close>

definition loadedParams :: "capacity_config \<Rightarrow> capacity_event set \<Rightarrow> vault_params \<Rightarrow> bool" where
  "loadedParams cfg evs P \<longleftrightarrow> (\<exists>q t. ParamsArrive (Some q) t \<in> evs \<and> fetchParams q (cc_symbols cfg) = Inr P)"

definition builtAt :: "capacity_config \<Rightarrow> capacity_event set \<Rightarrow> capacity_snapshot \<Rightarrow> int \<Rightarrow> bool" where
  "builtAt cfg evs w at' \<longleftrightarrow> (\<exists>P R. loadedParams cfg evs P \<and> ReadsArrive (Some R) at' \<in> evs \<and> buildCapacity (cc_symbols cfg) P R at' = Some w)"

definition goodAnswer :: "capacity_config \<Rightarrow> capacity_event set \<Rightarrow> nat \<times> int \<times> capacity_snapshot option \<Rightarrow> bool" where
  "goodAnswer cfg evs a \<longleftrightarrow> (case a of (i, now, r) \<Rightarrow> AskCapacity i now \<in> evs
     \<and> (\<forall>v. r = Some v \<longrightarrow> (\<exists>w at'. builtAt cfg evs w at'
          \<and> (v = w \<and> now - at' < cc_hotTtlMs cfg \<or> v = asStale w \<and> now - at' < cc_hotTtlMs cfg + cc_staleGraceMs cfg))))"

definition capacityInv :: "capacity_config \<Rightarrow> capacity_event set \<Rightarrow> capacity_service \<Rightarrow> bool" where
  "capacityInv cfg evs s \<longleftrightarrow> (\<forall>w at'. ca_last s = Some (w, at') \<longrightarrow> builtAt cfg evs w at')
     \<and> (\<forall>P t. ca_params s = Some (P, t) \<longrightarrow> loadedParams cfg evs P) \<and> (\<forall>P. ca_inflight s = Some (AwaitReads P) \<longrightarrow> loadedParams cfg evs P)
     \<and> (\<forall>(i, now) \<in> set (ca_waiting s). AskCapacity i now \<in> evs) \<and> (\<forall>a \<in> set (ca_answers s). goodAnswer cfg evs a)"

lemma good_mono: "evs \<subseteq> evs' \<Longrightarrow> goodAnswer cfg evs a \<Longrightarrow> goodAnswer cfg evs' a"
  unfolding goodAnswer_def builtAt_def loadedParams_def by (cases a) fastforce

lemma capacityInv_mono: "evs \<subseteq> evs' \<Longrightarrow> capacityInv cfg evs s \<Longrightarrow> capacityInv cfg evs' s"
  unfolding capacityInv_def using good_mono [of evs evs' cfg] by (fastforce simp: builtAt_def loadedParams_def)

lemma inv_settle:
  assumes "capacityInv cfg evs s" "0 < cc_hotTtlMs cfg"
    and "\<And>v. fresh = Some v \<Longrightarrow> \<exists>at'. builtAt cfg evs v at' \<and> (\<forall>(i, now) \<in> set (ca_waiting s). now \<le> at')"
  shows "capacityInv cfg evs (settleRefresh cfg fresh s)"
proof -
  have "goodAnswer cfg evs (i, now, afterRefresh cfg fresh (ca_last s) now)" if w: "(i, now) \<in> set (ca_waiting s)" for i now
  proof (cases fresh)
    case (Some v)
    from assms(3) [OF this] w obtain at' where at': "builtAt cfg evs v at'" "now \<le> at'" by blast
    with assms(2) have "now - at' < cc_hotTtlMs cfg" by linarith
    then show ?thesis using assms(1) w Some at'(1) by (auto simp: goodAnswer_def capacityInv_def afterRefresh_def)
  next
    case None
    then show ?thesis using assms(1) w
      by (auto simp: goodAnswer_def capacityInv_def afterRefresh_def split: option.splits if_split_asm)
  qed
  then show ?thesis using assms(1) by (auto simp: capacityInv_def settleRefresh_def)
qed

lemma inv_start:
  "capacityInv cfg evs s \<Longrightarrow> 0 < cc_hotTtlMs cfg \<Longrightarrow> capacityInv cfg evs (startRefresh cfg now s)"
  using inv_settle [of cfg evs s None] by (auto simp: startRefresh_def capacityInv_def split: option.split)

lemma inv_ask:
  assumes "capacityInv cfg evs s" "0 < cc_hotTtlMs cfg" "AskCapacity i now \<in> evs"
  shows "capacityInv cfg evs (askCapacity cfg i now s)"
proof -
  have "capacityInv cfg evs (s\<lparr>ca_waiting := ca_waiting s @ [(i, now)]\<rparr>)" using assms(1,3) by (auto simp: capacityInv_def)
  from inv_start [OF this assms(2)] this have wait: "capacityInv cfg evs (let s = s\<lparr>ca_waiting := ca_waiting s @ [(i, now)]\<rparr> in if ca_inflight s = None then startRefresh cfg now s else s)"
    by (simp add: Let_def)
  have "capacityInv cfg evs (s\<lparr>ca_answers := ca_answers s @ [(i, now, Some v)]\<rparr>)" if "ca_last s = Some (v, at')" "now - at' < cc_hotTtlMs cfg" for v at'
    using assms(1,3) that by (auto simp: capacityInv_def goodAnswer_def)
  with wait show ?thesis by (auto simp: askCapacity_def split: option.split)
qed

lemma inv_params:
  assumes "capacityInv cfg evs s" "0 < cc_hotTtlMs cfg" "ParamsArrive reply t \<in> evs"
  shows "capacityInv cfg evs (paramsArrive cfg reply s)"
proof -
  have "loadedParams cfg evs P" if "reply = Some q" "fetchParams q (cc_symbols cfg) = Inr P" for q P
    using assms(3) that by (auto simp: loadedParams_def)
  then show ?thesis
    using assms(1) inv_settle [OF assms(1,2), of None]
    by (auto simp: paramsArrive_def capacityInv_def split: option.splits refresh_phase.splits sum.splits)
qed

lemma inv_reads:
  assumes "capacityInv cfg evs s" "0 < cc_hotTtlMs cfg" "ReadsArrive reply t \<in> evs" "\<And>ev. ev \<in> evs \<Longrightarrow> eventTime ev \<le> t"
  shows "capacityInv cfg evs (readsArrive cfg reply t s)"
proof (cases "\<exists>P R v. ca_inflight s = Some (AwaitReads P) \<and> reply = Some R \<and> buildCapacity (cc_symbols cfg) P R t = Some v")
  case True
  then obtain P R v where v: "ca_inflight s = Some (AwaitReads P)" "reply = Some R" "buildCapacity (cc_symbols cfg) P R t = Some v" by blast
  then have built: "builtAt cfg evs v t" using assms(1,3) by (auto simp: builtAt_def capacityInv_def)
  then have "capacityInv cfg evs (s\<lparr>ca_last := Some (v, t)\<rparr>)" using assms(1) by (auto simp: capacityInv_def)
  moreover have "now \<le> t" if "(i, now) \<in> set (ca_waiting s)" for i now
    using assms(1) assms(4) [of "AskCapacity i now"] that by (auto simp: capacityInv_def)
  ultimately show ?thesis
    using v inv_settle [of cfg evs "s\<lparr>ca_last := Some (v, t)\<rparr>" "Some v"] assms(2) built by (auto simp: readsArrive_def)
next
  case False
  then show ?thesis
    using assms(1) inv_settle [OF assms(1,2), of None] by (auto simp: readsArrive_def split: option.split refresh_phase.split)
qed

lemma inv_run:
  assumes "sorted (map eventTime evs)" "0 < cc_hotTtlMs cfg"
  shows "capacityInv cfg (set evs) (capacityRun cfg evs)"
  using assms(1)
proof (induction evs rule: rev_induct)
  case Nil
  then show ?case by (simp add: capacityRun_def freshCapacity_def capacityInv_def)
next
  case (snoc ev evs)
  let ?evs = "set (evs @ [ev])"
  have inv: "capacityInv cfg ?evs (capacityRun cfg evs)" using snoc capacityInv_mono [of "set evs" ?evs] by (auto simp: sorted_append)
  have "capacityInv cfg ?evs (capacityStep cfg ev (capacityRun cfg evs))"
  proof (cases ev)
    case (AskCapacity i t)
    then show ?thesis using inv_ask [OF inv assms(2), of i t] by (simp add: capacityStep_def)
  next
    case (ParamsArrive r t)
    then show ?thesis using inv_params [OF inv assms(2), of r t] by (simp add: capacityStep_def)
  next
    case (ReadsArrive r t)
    then have "e \<in> ?evs \<Longrightarrow> eventTime e \<le> t" for e using snoc.prems by (auto simp: sorted_append)
    then show ?thesis using inv_reads [OF inv assms(2), of r t] ReadsArrive by (simp add: capacityStep_def)
  next
    case (InvalidateCapacity t)
    then show ?thesis using inv by (simp add: capacityStep_def capacityInv_def invalidateCapacity_def)
  qed
  then show ?case by (simp add: capacityRun_def)
qed

section \<open>Properties\<close>

text \<open>The sizes a market accepts on a side, by the vault's gates and its own limit.\<close>

definition accepted :: "capacity_inputs \<Rightarrow> side \<Rightarrow> int \<Rightarrow> bool" where
  "accepted i sd sz \<longleftrightarrow> vaultAccepts i sd sz = Accepted \<and> (\<forall>m. maxPositionSize i = Some m \<longrightarrow> 0 < m \<longrightarrow> sz \<le> m)"

lemma accepted_iff: "0 < sz \<Longrightarrow> accepted i sd sz \<longleftrightarrow> sz \<le> headroom (headroomOf (computeHeadroom i) sd)"
  using smallest_value [of sz i sd] by (auto simp: accepted_def headroom_eq accepts_iff_rooms forSide_def floor0_def Let_def)

lemma asset_headroom:
  "0 < sz \<Longrightarrow> accepted i LongSide sz \<longleftrightarrow> sz \<le> ct_headroomLong (assetCapacity i)"
  "0 < sz \<Longrightarrow> accepted i ShortSide sz \<longleftrightarrow> sz \<le> ct_headroomShort (assetCapacity i)"
  by (simp_all add: accepted_iff assetCapacity_def Let_def headroomOf_def)


text \<open>An invalidation does not reach a reload under way: what it asked for before is kept as fresh.\<close>

theorem invalidation_refilled:
  assumes "cc_vaultId cfg \<noteq> []" "cc_marketId cfg \<noteq> []" "fetchParams q (cc_symbols cfg) = Inr P"
  shows "ca_params (capacityRun cfg [AskCapacity i t0, InvalidateCapacity t1, ParamsArrive (Some q) t2]) = Some (P, t0)"
  using assms
  by (simp add: capacityRun_def freshCapacity_def capacityStep_def askCapacity_def startRefresh_def invalidateCapacity_def paramsArrive_def Let_def)

section \<open>Witness\<close>

definition btcCapacity :: capacity_config where
  "btcCapacity = \<lparr>cc_vaultId = ''V'', cc_marketId = ''M'', cc_symbols = [''BTC''], cc_hotTtlMs = HOT_TTL_MS, cc_paramsTtlMs = PARAMS_TTL_MS,
     cc_staleGraceMs = STALE_GRACE_MS\<rparr>"

definition btcParams :: params_reply where
  "btcParams = \<lparr>pq_reserveCap = Inr 8000, pq_asset = (\<lambda>s. Inr \<lparr>vp_assetCapBps = 5000, vp_capAbs = 0, vp_skewCapBps = 2000, vp_maxPositionSize = None\<rparr>)\<rparr>"

definition btcReads :: chain_reads where
  "btcReads = \<lparr>rd_exposure = [(''BTC'', 300, 50)], rd_latestLedger = Some 9, rd_aum = 1000, rd_reservedPayout = 100, rd_usdcBalance = 900,
     rd_shortfallReserve = 0\<rparr>"

text \<open>A first request loads; a second, six seconds later, finds the chain unreadable and gets the old figures, flagged.\<close>

definition btcEvents :: "capacity_event list" where
  "btcEvents = [AskCapacity 1 0, ParamsArrive (Some btcParams) 1, ReadsArrive (Some btcReads) 2, AskCapacity 2 6000, ReadsArrive None 6001]"

definition btcSnapshot :: capacity_snapshot where
  "btcSnapshot = the (buildCapacity [''BTC''] (projr (fetchParams btcParams [''BTC''])) btcReads 2)"

lemma btc_answers: "ca_answers (capacityRun btcCapacity btcEvents) = [(1, 0, Some btcSnapshot), (2, 6000, Some (asStale btcSnapshot))]"
  by code_simp


end
