(* ===== verification/Spec2Isabelle.thy ===== *)
theory Spec2Isabelle
  imports KeeperClient StorkRelay StateFile ReferenceTicker Capacity Deployment Precision SqlRewrite TxFlow IndexerMain Candles ApiWs ApiLimit ApiKeyRoutes SdkWs SdkClient ApiBoard ApiTail ApiAdl ApiCapacity
begin

text \<open>
A verification library for the off-chain TypeScript services of Noether, a perpetuals exchange whose contracts live on
  Soroban (Stellar). The contracts themselves are the environment here: the services read them, preview calls on them and
  submit transactions to them. Paths below are relative to the repository.

  \<^bold>\<open>The program and its parts.\<close>
  The keeper (\<open>scripts/keeper\<close>) publishes oracle prices, liquidates, executes orders, deleverages and applies funding. The
  indexer (\<open>indexer\<close>) polls contract events and keeps projections and candles in a database. The API (\<open>api\<close>) serves
  those tables over HTTP and WebSocket, authenticates callers, issues keys and submits signed transactions. The SDK
  (\<open>sdk-ts\<close>) and the web app's transaction flow (\<open>web/lib/stellar/txFlow.ts\<close>) are its clients. Shared packages
  (\<open>packages\<close>) hold the deployment manifest, capacity arithmetic, the transaction builder's footprint guard and the
  database layer's placeholder rewriter.

  \<^bold>\<open>Conventions.\<close> \<open>bigint\<close> is \<open>int\<close> with truncating division (\<open>Prelude\<close>); a \<open>number\<close> is \<open>nat\<close> or \<open>int\<close> where
  the code keeps it integral and \<open>rat\<close> where it carries a fraction, so rounding of doubles is not modelled. A \<open>Map\<close> is an
  association list, because JavaScript keeps insertion order. A thrown error is the left side of a sum. An \<open>await\<close> is a
  question to an oracle, a function of the interaction's number or of the exchange so far, so that theorems hold for every
  behaviour of the chain, the RPC, the database and the clock; where two handlers of one process can interleave (WebSocket
  logins, key requests, SDK calls), each await splits the handler into steps of a state machine.

  \<^bold>\<open>Theories.\<close>
  \<^item> \<open>Prelude\<close>: maps, truncating division, comparators (locale \<open>comparator\<close>: sorting by a key yields a ranking), a state
    monad with exceptions and its weakest-precondition rules (\<open>wp_simps\<close>) and invariant rules (\<open>keeps_intros\<close>).
    \<open>JsString\<close>: the string operations used. \<open>Trace\<close>: specifications over a log of events.
  \<^item> Keeper data and mathematics: \<open>KeeperTypes\<close> (\<open>types.ts\<close>), \<open>Health\<close> (\<open>health.ts\<close>: prefilters and ADL ranking),
    \<open>Deadman\<close> (\<open>deadman.ts\<close>), \<open>ContractErrors\<close>, \<open>ScArgs\<close> (call arguments, decoding, \<open>stellar.ts\<close>).
  \<^item> Keeper state and phases (\<open>index.ts\<close>): \<open>KeeperState\<close> is the record of \<open>KeeperBot\<close>'s fields with the log of its
    interactions, \<open>KeeperIO\<close> the client calls, caches (locale \<open>cached_read\<close>) and alerts, \<open>KeeperStart\<close> the constructor,
    \<open>KeeperOracle\<close>, \<open>KeeperLiquidation\<close>, \<open>KeeperOrders\<close>, \<open>KeeperAdl\<close>, \<open>Discovery\<close> (\<open>discovery.ts\<close>) the phases,
    \<open>KeeperCycle\<close> the cycle, \<open>KeeperRun\<close> whole runs of the loop.
  \<^item> Keeper transport: \<open>RpcClient\<close> and \<open>StellarClient\<close> (\<open>stellar.ts\<close>: failover, simulation, assembling, sending, polling,
    recheck before a resubmission), \<open>KeeperClient\<close> (what the keeper gets from it), \<open>StorkFrame\<close>, \<open>StorkFeed\<close>,
    \<open>StorkRelay\<close> (price feed), \<open>ReferenceTicker\<close>, \<open>StateFile\<close> (\<open>state.ts\<close>).
  \<^item> Shared packages: \<open>Capacity\<close>, \<open>Deployment\<close> (\<open>contracts.ts\<close>, \<open>scopes.ts\<close>), \<open>Precision\<close>, \<open>SqlRewrite\<close>,
    \<open>FootprintGuard\<close> (\<open>tx-builders\<close>), \<open>TxFlow\<close> (building, signing, submitting, one retry).
  \<^item> Indexer: \<open>IndexerEvents\<close> (types and decoders), \<open>IndexerMarket\<close> (market handler, projections, reindex; locale
    \<open>idempotent_handler\<close>: a handler that archives an id at most once), \<open>IndexerPoll\<close> (RPC pool, cursor, loop; locale
    \<open>recording_dispatch\<close>: what a poll owes to a dispatcher), \<open>IndexerTx\<close>, \<open>IndexerVault\<close>, \<open>IndexerReferral\<close>,
    \<open>IndexerLpVault\<close> (the other contracts' projections, each an interpretation of \<open>idempotent_handler\<close>), \<open>IndexerMain\<close>
    (the poller over all four contracts, an interpretation of the locale \<open>settling_dispatch\<close>), \<open>Candles\<close>.
  \<^item> API: \<open>ApiAuth\<close> (wallet challenges, keys, bearer resolution), \<open>ApiWs\<close> (connections and message handler as steps over
    socket events), \<open>ApiLimit\<close> (rate limits, geo guard), \<open>ApiAccess\<close> (waitlist, decisions, audit, export),
    \<open>ApiKeyRoutes\<close> (issuing keys; requests interleave at their awaits), \<open>ApiTx\<close> (submission and its errors),
    \<open>ApiStats\<close> (\<open>services/stats.ts\<close>: volumes, open interest, feeds, candles), \<open>ApiBoard\<close> (the leaderboard: ranking
    statement, totals, snapshots behind the pages, \<open>services/cache.ts\<close>), \<open>ApiTail\<close> (\<open>services/liveTailer.ts\<close>: archived
    rows onto the bus), \<open>ApiAdl\<close> (the deleveraging queue of \<open>services/adlQueue.ts\<close>), \<open>ApiCapacity\<close> (exposure entries, and
    \<open>services/capacity.ts\<close> as steps over requests and replies).
  \<^item> SDK: \<open>SdkWs\<close> (the reconnecting WebSocket client), \<open>SdkClient\<close> (transport, error classes, the one-shot trade,
    against the gateway of \<open>ApiTx\<close>).

  \<^bold>\<open>What the lemmas show.\<close> Keeper: over whole runs nothing is submitted without a successful preview of that very call, no
  order is executed twice in a phase, only prices that passed each defence are published, prefilters miss nothing the
  contract would liquidate, discovery is exact when its checksum passes, a write never resubmits blindly and reports success
  only for a confirmed transaction. Indexer: every event is applied at most once whatever is redelivered (a refinement of an
  abstract machine), no event is skipped silently, a bad batch does not block the cursor for ever, a reindex rebuilds the
  projections, the projections agree with the moves and trades logged, candles are the open, high, low and close. API:
  account frames reach only their owner, caps and quotas hold, a wallet proof works once, keys are issued to proven wallets
  behind the beta gate, the audit log decides who is approved, the headline totals are the sums of the ranked board, the pages
  of one snapshot cover it, the tailer sends each archived row once, the deleveraging queue shown is the keeper's, and the headroom answered is what the vault takes. SDK: the connection always comes back or is armed to, a trade
  is not submitted twice. Where the code does less than it means to, a theorem exhibits the run: lagging endpoints, a resync
  that counts a deposit twice, racing caps, a crashing frame, a hanging \<open>connect\<close>, a foreign 503, a
  page cursor that skips rows, ticks that overlap.

  \<^bold>\<open>Bounds and fuel.\<close> Loops over data are structural. The retry loops of the clients recurse on the attempts left, which
  the code bounds. Polling loops that the clock ends are \<open>partial_function (option)\<close> and are proved to return once the
  clock passes the deadline; the poller's and the keeper's endless loops are runs of a given number of turns, with theorems
  for every number.

  \<^bold>\<open>Not modelled.\<close> The Rust contracts; XDR encoding, signatures, hashing and JSON text (represented by values, or
  parameters); HTTP servers, timers and process signals; log and mail texts; the React components of the web app, which
  render what the modelled services answer; the Python SDK, the examples and the deployment scripts.
\<close>

end
